(* ===== verification/Prelude.thy ===== *)
theory Prelude
  imports Main "HOL-Library.Word" "HOL-Library.Sublist"
begin

text \<open>
  What every theory of the development shares: the machine types the C++ code uses, result
  codes, the collections of rewrite rules the component proofs are run with, and generic facts
  about lists, options and words.

  A C++ \<open>std::string\<close> is a list of bytes (\<^typ>\<open>string\<close>), a \<open>std::wstring\<close> a list of
  UTF-16 code units (\<open>wstr\<close>).  A null pointer or \<open>npos\<close> is \<open>None\<close>.
\<close>

unbundle bit_operations_syntax

subsection \<open>Machine types\<close>

type_synonym u8 = "8 word"
type_synonym u16 = "16 word"
type_synonym u32 = "32 word"
type_synonym u64 = "64 word"
type_synonym wchar = "16 word"
type_synonym wstr = "wchar list"
type_synonym bytes = "u8 list"

text \<open>COM result codes; \<open>SUCCEEDED\<close> is true of the two success codes.\<close>

datatype hresult =
    S_OK | S_FALSE | E_POINTER | E_INVALIDARG | E_OUTOFMEMORY | E_FAIL | E_NOTIMPL | E_NOINTERFACE
  | CLASS_E_NOAGGREGATION | CLASS_E_CLASSNOTAVAILABLE

definition SUCCEEDED :: "hresult \<Rightarrow> bool" where
  "SUCCEEDED hr \<longleftrightarrow> hr = S_OK \<or> hr = S_FALSE"

subsection \<open>Collections\<close>

text \<open>
  \<open>string_facts\<close>: rewrite rules for the string library; \<open>frame_facts\<close>: which fields an
  operation leaves alone; \<open>outcome_facts\<close>: the result of an operation, branch by branch.
\<close>

named_theorems string_facts
named_theorems frame_facts
named_theorems outcome_facts

subsection \<open>Lists\<close>

lemma take_append_exact [simp]: "n = length xs \<Longrightarrow> take n (xs @ ys) = xs"
  by simp

lemma drop_append_exact [simp]: "n = length xs \<Longrightarrow> drop n (xs @ ys) = ys"
  by simp

lemma drop_plus: "drop (n + m) xs = drop m (drop n xs)"
  by (simp add: add.commute)

lemma takeWhile_none: "(\<And>x. x \<in> set xs \<Longrightarrow> P x) \<Longrightarrow> \<not> P y \<Longrightarrow> takeWhile P (xs @ y # ys) = xs"
  by (induction xs) auto

lemma list_all_replicate_iff [simp]: "list_all P (replicate n x) \<longleftrightarrow> n = 0 \<or> P x"
  by (induction n) auto

lemma list_all_setD: "list_all P xs \<Longrightarrow> x \<in> set xs \<Longrightarrow> P x"
  by (simp add: list_all_iff)

lemma fst_snd_tuple: "fst (snd r) = e \<Longrightarrow> r = (fst r, e, snd (snd r))"
  by (cases r) simp

text \<open>Induction over a list read in blocks of three or four.\<close>

lemma list_induct_block3:
  "P [] \<Longrightarrow> (\<And>a. P [a]) \<Longrightarrow> (\<And>a b. P [a, b]) \<Longrightarrow> (\<And>a b c r. P r \<Longrightarrow> P (a # b # c # r)) \<Longrightarrow> P xs"
  by induction_schema (pat_completeness, lexicographic_order)

lemma list_induct_block4:
  "P [] \<Longrightarrow> (\<And>a. P [a]) \<Longrightarrow> (\<And>a b. P [a, b]) \<Longrightarrow> (\<And>a b c. P [a, b, c]) \<Longrightarrow>
   (\<And>a b c d r. P r \<Longrightarrow> P (a # b # c # d # r)) \<Longrightarrow> P xs"
  by induction_schema (pat_completeness, lexicographic_order)

subsection \<open>Words\<close>

lemma unat_u8_less [simp]: "unat (w :: u8) < 256"
  using unsigned_less [of w, where ?'a = nat] by simp

lemma unat_of_nat_u8: "unat (of_nat n :: u8) = n mod 256"
  by (simp add: unat_of_nat)

lemma unat_of_nat_u32: "unat (of_nat n :: u32) = n mod 4294967296"
  by (simp add: unat_of_nat)

lemma unat_of_nat_u16: "unat (of_nat n :: u16) = n mod 65536"
  by (simp add: unat_of_nat)

lemma of_nat_unat_u8 [simp]: "(of_nat (unat w) :: u8) = w"
  by simp

lemma unat_u16_less [simp]: "unat (w :: u16) < 65536"
  using unsigned_less [of w, where ?'a = nat] by simp

end
