(* ===== verification/Std_Strings.thy ===== *)
theory Std_Strings
  imports Prelude
begin

text \<open>
  The part of the C++ string library the sources use: \<open>find\<close>, \<open>find_first_of\<close>,
  \<open>find_last_of\<close>, \<open>substr\<close>, trimming, \<open>std::to_string\<close>, \<open>atoi\<close> and the
  case-insensitive comparison \<open>_wcsicmp\<close>.  They are polymorphic in the character type where
  both string types need them.  These are definitions of the language's library, not of the
  repository, so no source line is mapped to them.
\<close>

subsection \<open>Wide literals and case folding\<close>

definition wide :: "string \<Rightarrow> wstr" where
  "wide s = map of_char s"

text \<open>\<open>_wcsicmp\<close> in the "C" locale the process starts with: only A..Z are folded.\<close>

definition fold_wchar :: "wchar \<Rightarrow> wchar" where
  "fold_wchar c = (if 65 \<le> c \<and> c \<le> 90 then c + 32 else c)"

definition wcsieq :: "wstr \<Rightarrow> wstr \<Rightarrow> bool" where
  "wcsieq a b \<longleftrightarrow> map fold_wchar a = map fold_wchar b"

lemma wcsieq_refl [simp, string_facts]: "wcsieq a a"
  by (simp add: wcsieq_def)

lemma wcsieq_sym: "wcsieq a b \<Longrightarrow> wcsieq b a"
  by (simp add: wcsieq_def)

lemma wcsieq_trans: "wcsieq a b \<Longrightarrow> wcsieq b c \<Longrightarrow> wcsieq a c"
  by (simp add: wcsieq_def)

lemma wcsieq_Nil [simp]: "wcsieq [] b \<longleftrightarrow> b = []" "wcsieq a [] \<longleftrightarrow> a = []"
  by (auto simp: wcsieq_def)

subsection \<open>Searching\<close>

text \<open>\<open>find_from p s i\<close>: the first index, counted from \<open>i\<close>, at which \<open>p\<close> occurs in \<open>s\<close>.\<close>

fun find_from :: "'c list \<Rightarrow> 'c list \<Rightarrow> nat \<Rightarrow> nat option" where
  "find_from p [] i = (if p = [] then Some i else None)"
| "find_from p (c # cs) i = (if prefix p (c # cs) then Some i else find_from p cs (Suc i))"

text \<open>\<open>s.find(p, pos)\<close>\<close>

definition str_find :: "'c list \<Rightarrow> 'c list \<Rightarrow> nat \<Rightarrow> nat option" where
  "str_find s p pos = (if pos \<le> length s then find_from p (drop pos s) pos else None)"

text \<open>\<open>s.find(c, pos)\<close> and \<open>s.find_first_of(set, pos)\<close>\<close>

fun find_if :: "('c \<Rightarrow> bool) \<Rightarrow> 'c list \<Rightarrow> nat \<Rightarrow> nat option" where
  "find_if P [] i = None"
| "find_if P (c # cs) i = (if P c then Some i else find_if P cs (Suc i))"

definition chr_find :: "'c list \<Rightarrow> 'c \<Rightarrow> nat \<Rightarrow> nat option" where
  "chr_find s c pos = find_if (\<lambda>x. x = c) (drop pos s) pos"

definition find_first_of :: "'c list \<Rightarrow> 'c list \<Rightarrow> nat \<Rightarrow> nat option" where
  "find_first_of s cs pos = find_if (\<lambda>x. x \<in> set cs) (drop pos s) pos"

text \<open>\<open>s.find_last_of(set)\<close>\<close>

definition find_last_of :: "'c list \<Rightarrow> 'c list \<Rightarrow> nat option" where
  "find_last_of s cs = (case find_if (\<lambda>x. x \<in> set cs) (rev s) 0 of
     None \<Rightarrow> None | Some k \<Rightarrow> Some (length s - 1 - k))"

text \<open>\<open>s.substr(pos, n)\<close>, used by the sources with \<open>pos \<le> s.size()\<close> only\<close>

definition substr :: "'c list \<Rightarrow> nat \<Rightarrow> nat \<Rightarrow> 'c list" where
  "substr s pos n = take n (drop pos s)"

definition occurs :: "'c list \<Rightarrow> 'c list \<Rightarrow> bool" where
  "occurs p s \<longleftrightarrow> str_find s p 0 \<noteq> None"

lemma find_from_ge: "find_from p s i = Some j \<Longrightarrow> i \<le> j \<and> j \<le> i + length s"
proof (induction s arbitrary: i)
  case Nil
  then show ?case by (simp split: if_splits)
next
  case (Cons c cs)
  show ?case
  proof (cases "prefix p (c # cs)")
    case True
    with Cons.prems show ?thesis by simp
  next
    case False
    with Cons.prems have "find_from p cs (Suc i) = Some j" by simp
    from Cons.IH [OF this] show ?thesis by simp
  qed
qed

lemma find_from_hit: "find_from p s i = Some j \<Longrightarrow> prefix p (drop (j - i) s)"
proof (induction s arbitrary: i)
  case Nil
  then show ?case by (simp split: if_splits)
next
  case (Cons c cs)
  show ?case
  proof (cases "prefix p (c # cs)")
    case True
    with Cons.prems show ?thesis by simp
  next
    case False
    with Cons.prems have *: "find_from p cs (Suc i) = Some j" by simp
    then have "Suc i \<le> j" using find_from_ge by fastforce
    then have "j - i = Suc (j - Suc i)" by simp
    then have "drop (j - i) (c # cs) = drop (j - Suc i) cs" by simp
    with Cons.IH [OF *] show ?thesis by simp
  qed
qed

lemma find_if_Some:
  "find_if P s i = Some j \<Longrightarrow> i \<le> j \<and> j < i + length s \<and> P (s ! (j - i)) \<and> (\<forall>k < j - i. \<not> P (s ! k))"
proof (induction s arbitrary: i)
  case Nil
  then show ?case by simp
next
  case (Cons c cs)
  show ?case
  proof (cases "P c")
    case True
    with Cons.prems show ?thesis by simp
  next
    case False
    with Cons.prems have "find_if P cs (Suc i) = Some j" by simp
    from Cons.IH [OF this] obtain le: "Suc i \<le> j" and "j < Suc i + length cs"
      and hit: "P (cs ! (j - Suc i))" and miss: "\<forall>k < j - Suc i. \<not> P (cs ! k)" by auto
    then obtain m where "j - i = Suc m" "j - Suc i = m"
      by (metis Suc_diff_le diff_Suc_Suc)
    with False hit miss le \<open>j < Suc i + length cs\<close> show ?thesis
      by (auto simp: less_Suc_eq_0_disj)
  qed
qed

lemma find_if_None: "find_if P s i = None \<longleftrightarrow> (\<forall>x \<in> set s. \<not> P x)"
  by (induction s arbitrary: i) auto

lemma find_if_append:
  "(\<And>x. x \<in> set xs \<Longrightarrow> \<not> P x) \<Longrightarrow> P y \<Longrightarrow> find_if P (xs @ y # ys) i = Some (i + length xs)"
  by (induction xs arbitrary: i) auto

lemma chr_find_Some:
  "chr_find s c pos = Some j \<Longrightarrow>
     pos \<le> j \<and> j < length s \<and> s ! j = c \<and> (\<forall>k. pos \<le> k \<and> k < j \<longrightarrow> s ! k \<noteq> c)"
proof -
  assume "chr_find s c pos = Some j"
  then have "find_if (\<lambda>x. x = c) (drop pos s) pos = Some j" by (simp add: chr_find_def)
  from find_if_Some [OF this] have *: "pos \<le> j" "j < pos + length (drop pos s)"
    "drop pos s ! (j - pos) = c" "\<forall>k < j - pos. drop pos s ! k \<noteq> c" by auto
  then have len: "pos \<le> length s" by (cases "pos \<le> length s") auto
  have "\<forall>k. pos \<le> k \<and> k < j \<longrightarrow> s ! k \<noteq> c"
  proof (intro allI impI)
    fix k assume "pos \<le> k \<and> k < j"
    then have "k - pos < j - pos" by (simp only: diff_less_mono)
    with *(4) have "drop pos s ! (k - pos) \<noteq> c" by blast
    with \<open>pos \<le> k \<and> k < j\<close> len show "s ! k \<noteq> c" by simp
  qed
  with * len show ?thesis by simp
qed

lemma occurs_iff_sublist: "occurs p s \<longleftrightarrow> sublist p s"
proof -
  have "find_from p s i \<noteq> None \<longleftrightarrow> sublist p s" for i
    by (induction s arbitrary: i) (auto simp: sublist_Cons_right)
  then show ?thesis by (simp add: occurs_def str_find_def)
qed

subsection \<open>Trimming\<close>

text \<open>\<open>find_first_not_of\<close> / \<open>find_last_not_of\<close> with the set \<open>" \\t\\r\\n"\<close> and the \<open>substr\<close>
  between them; \<open>None\<close> when every character is blank.\<close>

definition is_blank :: "wchar \<Rightarrow> bool" where
  "is_blank c \<longleftrightarrow> c = 32 \<or> c = 9 \<or> c = 13 \<or> c = 10"

definition trim :: "wstr \<Rightarrow> wstr option" where
  "trim s = (case dropWhile is_blank s of
     [] \<Rightarrow> None | c # cs \<Rightarrow> Some (rev (dropWhile is_blank (rev (c # cs)))))"

lemma trim_Some_nonempty: "trim s = Some t \<Longrightarrow> t \<noteq> []"
proof -
  assume "trim s = Some t"
  then obtain c cs where d: "dropWhile is_blank s = c # cs"
    and t: "t = rev (dropWhile is_blank (rev (c # cs)))"
    by (auto simp: trim_def split: list.splits)
  from d have "\<not> is_blank c" by (metis hd_dropWhile list.discI list.sel(1))
  then have "\<exists>x \<in> set (rev (c # cs)). \<not> is_blank x" by auto
  then have "dropWhile is_blank (rev (c # cs)) \<noteq> []" by (simp only: dropWhile_eq_Nil_conv) blast
  with t show ?thesis by simp
qed

lemma trim_no_blank_ends: "trim s = Some t \<Longrightarrow> \<not> is_blank (last t)"
proof -
  assume a: "trim s = Some t"
  then obtain ys where t: "t = rev (dropWhile is_blank ys)"
    by (auto simp: trim_def split: list.splits)
  have "dropWhile is_blank ys \<noteq> []" using trim_Some_nonempty [OF a] t by auto
  then show ?thesis unfolding t by (metis hd_dropWhile last_rev)
qed

subsection \<open>Numbers\<close>

fun digits_of :: "nat \<Rightarrow> string" where
  "digits_of n = (if n < 10 then [char_of (48 + n)] else digits_of (n div 10) @ [char_of (48 + n mod 10)])"

declare digits_of.simps [simp del]

definition to_string :: "int \<Rightarrow> string" where
  "to_string n = (if n < 0 then CHR ''-'' # digits_of (nat (- n)) else digits_of (nat n))"

definition is_digit :: "char \<Rightarrow> bool" where
  "is_digit c \<longleftrightarrow> 48 \<le> (of_char c :: nat) \<and> (of_char c :: nat) \<le> 57"

definition dec_value :: "string \<Rightarrow> nat" where
  "dec_value s = foldl (\<lambda>n c. 10 * n + (of_char c - 48)) 0 s"

text \<open>\<open>atoi\<close> of a string of digits, which is how the code calls it: it answers
  \<open>INT_MAX\<close> out of range, as the C runtime the code is built with documents.\<close>

definition atoi :: "string \<Rightarrow> int" where
  "atoi s = int (min (dec_value s) 2147483647)"

lemma atoi_bounds: "0 \<le> atoi s \<and> atoi s \<le> 2147483647"
  by (simp add: atoi_def)

lemma dec_value_append_digit: "dec_value (s @ [c]) = 10 * dec_value s + (of_char c - 48)"
  by (simp add: dec_value_def)

lemma digits_of_nonempty [simp]: "digits_of n \<noteq> []"
  by (subst digits_of.simps) simp

lemma digits_of_digits: "c \<in> set (digits_of n) \<Longrightarrow> is_digit c"
proof (induction n rule: digits_of.induct)
  case (1 n)
  have d: "is_digit (char_of (48 + m))" if "m < 10" for m :: nat
    using that by (simp add: is_digit_def)
  show ?case
  proof (cases "n < 10")
    case True
    with "1.prems" d show ?thesis by (subst (asm) digits_of.simps) simp
  next
    case False
    with "1.prems" have "c \<in> set (digits_of (n div 10)) \<or> c = char_of (48 + n mod 10)"
      by (subst (asm) digits_of.simps) auto
    then show ?thesis using "1.IH" [OF False] d [of "n mod 10"] by auto
  qed
qed

lemma dec_value_digits_of: "dec_value (digits_of n) = n"
proof (induction n rule: digits_of.induct)
  case (1 n)
  show ?case
  proof (cases "n < 10")
    case True
    then show ?thesis by (subst digits_of.simps) (simp add: dec_value_def)
  next
    case False
    then show ?thesis
      using "1.IH" by (subst digits_of.simps) (simp add: dec_value_append_digit)
  qed
qed

end
