(* ===== verification/Config.thy ===== *)
theory Config
  imports Std_Strings
begin

text \<open>
  \<open>struct Config\<close> of \<open>credential_provider/common.h\<close>: the classification of a server URL, the
  settings read from the two registry keys (the policy key first, then the local one), and the
  list of accounts that skip the second factor.

  A registry key is the map of its values (\<open>None\<close> when the key cannot be opened); a value is
  its type with its data.  \<open>RegQueryValueExW\<close> is modelled by its documented size protocol:
  it succeeds when the caller's buffer is large enough and always stores the size of the data
  in \<open>*lpcbData\<close>.  \<open>WinHttpCrackUrl\<close> is the parameter \<open>crack\<close>.
\<close>

subsection \<open>URL classification\<close>

datatype internet_scheme = INTERNET_SCHEME_HTTP | INTERNET_SCHEME_HTTPS | INTERNET_SCHEME_OTHER

record url_components =
  cu_scheme :: internet_scheme
  cu_host :: wstr
  cu_path :: wstr
  cu_port :: nat

datatype UrlSchemeKind = SchemeNone | SchemeHttp | SchemeHttps

definition ClassifyUrlScheme :: "(wstr \<Rightarrow> url_components option) \<Rightarrow> wstr \<Rightarrow> UrlSchemeKind" where
  "ClassifyUrlScheme crack url = (case crack url of
     None \<Rightarrow> SchemeNone
   | Some uc \<Rightarrow> (case cu_scheme uc of
       INTERNET_SCHEME_HTTPS \<Rightarrow> SchemeHttps
     | INTERNET_SCHEME_HTTP \<Rightarrow> SchemeHttp
     | INTERNET_SCHEME_OTHER \<Rightarrow> SchemeNone))"

subsection \<open>The registry\<close>

datatype reg_value = RegSz wstr | RegExpandSz wstr | RegDword u32 | RegBinary bytes

type_synonym reg_key = "string \<rightharpoonup> reg_value"

record registry =
  hkPolicy :: "reg_key option"
  hkLocal :: "reg_key option"

fun reg_size :: "reg_value \<Rightarrow> nat" where
  "reg_size (RegSz s) = 2 * length s"
| "reg_size (RegExpandSz s) = 2 * length s"
| "reg_size (RegDword _) = 4"
| "reg_size (RegBinary b) = length b"

text \<open>\<open>RegQueryValueExW\<close>: the value when the call succeeds, and the new \<open>dwSize\<close>.\<close>

definition reg_query :: "reg_key option \<Rightarrow> string \<Rightarrow> nat \<Rightarrow> reg_value option \<times> nat" where
  "reg_query hk name sz = (case hk of
     None \<Rightarrow> (None, sz)
   | Some key \<Rightarrow> (case key name of
       None \<Rightarrow> (None, sz)
     | Some v \<Rightarrow> (if reg_size v \<le> sz then Some v else None, reg_size v)))"

text \<open>A zero-terminated buffer read as a string, trimmed; \<open>None\<close> when it is blank.\<close>

definition reg_text :: "reg_value option \<Rightarrow> wstr option" where
  "reg_text v = (case v of
     Some (RegSz s) \<Rightarrow> trim (takeWhile (\<lambda>c. c \<noteq> 0) s)
   | Some (RegExpandSz s) \<Rightarrow> trim (takeWhile (\<lambda>c. c \<noteq> 0) s)
   | _ \<Rightarrow> None)"

text \<open>The lambda \<open>readString\<close>: the size is reset before the second query.\<close>

definition readString :: "registry \<Rightarrow> string \<Rightarrow> wstr option" where
  "readString reg name =
     (case reg_text (fst (reg_query (hkPolicy reg) name 4096)) of
        Some s \<Rightarrow> Some s
      | None \<Rightarrow> reg_text (fst (reg_query (hkLocal reg) name 4096)))"

text \<open>The lambdas \<open>readDword\<close> and \<open>readInt\<close>: the size the first query stored is what the
  second one starts from.\<close>

definition readDwordValue :: "registry \<Rightarrow> string \<Rightarrow> u32 option" where
  "readDwordValue reg name =
     (let (v, sz) = reg_query (hkPolicy reg) name 4
      in case v of
           Some (RegDword d) \<Rightarrow> Some d
         | _ \<Rightarrow> (case fst (reg_query (hkLocal reg) name sz) of
                  Some (RegDword d) \<Rightarrow> Some d
                | _ \<Rightarrow> None))"

definition readDword :: "registry \<Rightarrow> string \<Rightarrow> bool \<Rightarrow> bool" where
  "readDword reg name dflt = (case readDwordValue reg name of None \<Rightarrow> dflt | Some d \<Rightarrow> d \<noteq> 0)"

definition readInt :: "registry \<Rightarrow> string \<Rightarrow> int \<Rightarrow> int" where
  "readInt reg name dflt = (case readDwordValue reg name of None \<Rightarrow> dflt | Some d \<Rightarrow> sint d)"

subsection \<open>The settings\<close>

record Config =
  serverUrl :: wstr
  serverUrlConfigured :: bool
  fallbackRelayUrl :: wstr
  rdp2faEnabled :: bool
  console2faEnabled :: bool
  elevation2faEnabled :: bool
  fido2Enabled :: bool
  defaultFactor :: int
  pushTimeoutSec :: int
  failClose :: bool
  allowSelfSigned :: bool
  allowHttp :: bool
  samProbeEnabled :: bool
  bypassAccounts :: "wstr list"

text \<open>The member initializers.\<close>

definition Config_default :: Config where
  "Config_default =
     \<lparr>serverUrl = [], serverUrlConfigured = False, fallbackRelayUrl = [],
      rdp2faEnabled = False, console2faEnabled = False, elevation2faEnabled = False,
      fido2Enabled = True, defaultFactor = 0, pushTimeoutSec = 45, failClose = True,
      allowSelfSigned = False, allowHttp = False, samProbeEnabled = False,
      bypassAccounts = []\<rparr>"

datatype config_log = WarnHttpAllowed | ServerUrlRejected bool

text \<open>Splitting the bypass list: \<open>std::getline(ss, item, L',')\<close> until it extracts nothing.\<close>

definition comma_of :: "wchar \<Rightarrow> wchar" where
  "comma_of ch = (if ch = 59 \<or> ch = 124 then 44 else ch)"

fun getline_items :: "wstr \<Rightarrow> wstr \<Rightarrow> wstr list" where
  "getline_items [] acc = (if acc = [] then [] else [rev acc])"
| "getline_items (c # cs) acc =
     (if c = 44 then rev acc # getline_items cs [] else getline_items cs (c # acc))"

definition bypass_items :: "wstr \<Rightarrow> wstr list" where
  "bypass_items raw = List.map_filter trim (getline_items (map comma_of raw) [])"

definition LoadSettings :: "registry \<Rightarrow> Config" where
  "LoadSettings reg = Config_default
     \<lparr>serverUrl := (case readString reg ''ServerURL'' of None \<Rightarrow> [] | Some s \<Rightarrow> s),
      serverUrlConfigured := readString reg ''ServerURL'' \<noteq> None,
      fallbackRelayUrl := (case readString reg ''FallbackRelayURL'' of None \<Rightarrow> [] | Some s \<Rightarrow> s),
      rdp2faEnabled := readDword reg ''RDP2FAEnabled'' False,
      console2faEnabled := readDword reg ''Console2FAEnabled'' False,
      elevation2faEnabled := readDword reg ''Elevation2FAEnabled'' False,
      fido2Enabled := readDword reg ''FIDO2Enabled'' True,
      defaultFactor := readInt reg ''DefaultFactor'' 0,
      pushTimeoutSec := readInt reg ''PushTimeoutSeconds'' 45,
      failClose := readDword reg ''FailClose'' True,
      allowSelfSigned := readDword reg ''AllowSelfSigned'' False,
      allowHttp := readDword reg ''AllowHttp'' False,
      samProbeEnabled := readDword reg ''SamProbeEnabled'' False\<rparr>"

text \<open>The scheme check of VULN-27.\<close>

definition EnforceUrlScheme :: "(wstr \<Rightarrow> url_components option) \<Rightarrow> Config \<Rightarrow> Config \<times> config_log list" where
  "EnforceUrlScheme crack cfg =
     (if serverUrlConfigured cfg then
        (let scheme = ClassifyUrlScheme crack (serverUrl cfg)
         in if scheme = SchemeHttps then (cfg, [])
            else if scheme = SchemeHttp \<and> allowHttp cfg then (cfg, [WarnHttpAllowed])
            else (cfg\<lparr>serverUrl := [], serverUrlConfigured := False\<rparr>,
                  [ServerUrlRejected (allowHttp cfg)]))
      else (cfg, []))"

definition LoadFromRegistry :: "(wstr \<Rightarrow> url_components option) \<Rightarrow> registry \<Rightarrow> Config \<times> config_log list" where
  "LoadFromRegistry crack reg =
     (let (cfg, lg) = EnforceUrlScheme crack (LoadSettings reg)
      in (case readString reg ''BypassAccounts'' of
            None \<Rightarrow> cfg
          | Some raw \<Rightarrow> cfg\<lparr>bypassAccounts := bypass_items raw\<rparr>, lg))"

subsection \<open>Accounts that skip the second factor\<close>

text \<open>The name without its domain: the part after the last slash, then before the first at
  sign; the flag says whether either was there.\<close>

definition StripDomain :: "wstr \<Rightarrow> wstr \<times> bool" where
  "StripDomain username =
     (let (rawUser, hadDomain) =
            (case find_last_of username [92, 47] of
               Some slash \<Rightarrow> if slash + 1 < length username
                             then (drop (slash + 1) username, True) else (username, False)
             | None \<Rightarrow> (username, False))
      in (case chr_find rawUser 64 0 of
            Some at \<Rightarrow> (take at rawUser, True)
          | None \<Rightarrow> (rawUser, hadDomain)))"

definition bypass_match :: "wstr \<Rightarrow> wstr \<Rightarrow> wstr \<Rightarrow> bool \<Rightarrow> wstr \<Rightarrow> bool" where
  "bypass_match username domain rawUser hadDomain acc \<longleftrightarrow>
     wcsieq acc username \<or>
     (\<not> hadDomain \<and> wcsieq acc rawUser) \<or>
     (domain \<noteq> [] \<and> (wcsieq acc (domain @ [92] @ rawUser) \<or> wcsieq acc (rawUser @ [64] @ domain)))"

definition IsBypassAccount :: "Config \<Rightarrow> wstr \<Rightarrow> wstr \<Rightarrow> bool" where
  "IsBypassAccount cfg username domain =
     (if username = [] \<or> bypassAccounts cfg = [] then False
      else (let (rawUser, hadDomain) = StripDomain username
            in list_ex (bypass_match username domain rawUser hadDomain) (bypassAccounts cfg)))"

subsection \<open>Reading the registry\<close>

lemma readString_trimmed: "readString reg name = Some s \<Longrightarrow> s \<noteq> [] \<and> \<not> is_blank (last s)"
  using trim_Some_nonempty trim_no_blank_ends
  by (fastforce simp: readString_def reg_text_def split: option.splits reg_value.splits)

lemma reg_query_dword:
  "hk = Some key \<Longrightarrow> key name = Some (RegDword d) \<Longrightarrow>
   reg_query hk name sz = (if 4 \<le> sz then Some (RegDword d) else None, 4)"
  by (simp add: reg_query_def)

lemma readDwordValue_policy:
  "hkPolicy reg = Some key \<Longrightarrow> key name = Some (RegDword d) \<Longrightarrow> readDwordValue reg name = Some d"
  by (simp add: readDwordValue_def reg_query_dword)

lemma readDwordValue_local:
  assumes "hkPolicy reg = None \<or> (\<exists>key. hkPolicy reg = Some key \<and> key name = None)"
  shows "readDwordValue reg name
    = (case fst (reg_query (hkLocal reg) name 4) of Some (RegDword d) \<Rightarrow> Some d | _ \<Rightarrow> None)"
  using assms by (auto simp: readDwordValue_def reg_query_def)

text \<open>A policy value of another type and fewer than four bytes, for instance the empty string,
  leaves its own size in \<open>dwSize\<close>, and the local DWORD no longer fits.\<close>

lemma readDwordValue_short_policy:
  assumes "hkPolicy reg = Some key" "key name = Some v" "reg_size v < 4"
  shows "readDwordValue reg name = None"
  using assms
  by (cases v) (auto simp: readDwordValue_def reg_query_def split: option.splits reg_value.splits)

lemma map_filter_range: "y \<in> set (List.map_filter f xs) \<Longrightarrow> \<exists>x \<in> set xs. f x = Some y"
  by (induction xs) (auto simp: List.map_filter_simps split: option.splits)

lemma bypass_items_trimmed: "acc \<in> set (bypass_items raw) \<Longrightarrow> acc \<noteq> [] \<and> \<not> is_blank (last acc)"
  using map_filter_range trim_Some_nonempty trim_no_blank_ends
  unfolding bypass_items_def by metis

lemma getline_items_no_comma:
  "44 \<notin> set acc \<Longrightarrow> item \<in> set (getline_items s acc) \<Longrightarrow> 44 \<notin> set item"
  by (induction s acc arbitrary: item rule: getline_items.induct) (auto split: if_splits)

subsection \<open>The loaded configuration\<close>

lemma LoadSettings_url:
  "serverUrlConfigured (LoadSettings reg) \<longleftrightarrow> serverUrl (LoadSettings reg) \<noteq> []"
  using readString_trimmed by (auto simp: LoadSettings_def split: option.splits)

lemma EnforceUrlScheme_frame [frame_facts]:
  "allowHttp (fst (EnforceUrlScheme crack c)) = allowHttp c"
  "rdp2faEnabled (fst (EnforceUrlScheme crack c)) = rdp2faEnabled c"
  "console2faEnabled (fst (EnforceUrlScheme crack c)) = console2faEnabled c"
  "failClose (fst (EnforceUrlScheme crack c)) = failClose c"
  "bypassAccounts (fst (EnforceUrlScheme crack c)) = bypassAccounts c"
  by (simp_all add: EnforceUrlScheme_def Let_def)

lemma LoadSettings_fields [frame_facts]:
  "allowHttp (LoadSettings reg) = readDword reg ''AllowHttp'' False"
  "rdp2faEnabled (LoadSettings reg) = readDword reg ''RDP2FAEnabled'' False"
  "console2faEnabled (LoadSettings reg) = readDword reg ''Console2FAEnabled'' False"
  "failClose (LoadSettings reg) = readDword reg ''FailClose'' True"
  "bypassAccounts (LoadSettings reg) = []"
  by (simp_all add: LoadSettings_def Config_default_def)

lemma LoadFromRegistry_fields:
  assumes "LoadFromRegistry crack reg = (cfg, lg)"
  shows "allowHttp cfg = readDword reg ''AllowHttp'' False"
    "rdp2faEnabled cfg = readDword reg ''RDP2FAEnabled'' False"
    "console2faEnabled cfg = readDword reg ''Console2FAEnabled'' False"
    "failClose cfg = readDword reg ''FailClose'' True"
    "bypassAccounts cfg = (case readString reg ''BypassAccounts'' of None \<Rightarrow> [] | Some r \<Rightarrow> bypass_items r)"
    "serverUrl cfg = serverUrl (fst (EnforceUrlScheme crack (LoadSettings reg)))"
    "serverUrlConfigured cfg = serverUrlConfigured (fst (EnforceUrlScheme crack (LoadSettings reg)))"
    "lg = snd (EnforceUrlScheme crack (LoadSettings reg))"
proof -
  define e where "e = EnforceUrlScheme crack (LoadSettings reg)"
  have f: "allowHttp (fst e) = readDword reg ''AllowHttp'' False"
    "rdp2faEnabled (fst e) = readDword reg ''RDP2FAEnabled'' False"
    "console2faEnabled (fst e) = readDword reg ''Console2FAEnabled'' False"
    "failClose (fst e) = readDword reg ''FailClose'' True"
    "bypassAccounts (fst e) = []"
    by (simp_all add: e_def frame_facts)
  from assms have c: "cfg = (case readString reg ''BypassAccounts'' of None \<Rightarrow> fst e
      | Some raw \<Rightarrow> (fst e)\<lparr>bypassAccounts := bypass_items raw\<rparr>)" and l: "lg = snd e"
    unfolding e_def LoadFromRegistry_def split_beta Let_def by auto
  show "allowHttp cfg = readDword reg ''AllowHttp'' False"
    "rdp2faEnabled cfg = readDword reg ''RDP2FAEnabled'' False"
    "console2faEnabled cfg = readDword reg ''Console2FAEnabled'' False"
    "failClose cfg = readDword reg ''FailClose'' True"
    "bypassAccounts cfg = (case readString reg ''BypassAccounts'' of None \<Rightarrow> [] | Some r \<Rightarrow> bypass_items r)"
    "serverUrl cfg = serverUrl (fst (EnforceUrlScheme crack (LoadSettings reg)))"
    "serverUrlConfigured cfg = serverUrlConfigured (fst (EnforceUrlScheme crack (LoadSettings reg)))"
    "lg = snd (EnforceUrlScheme crack (LoadSettings reg))"
    using f l by (cases "readString reg ''BypassAccounts''"; simp add: c e_def)+
qed

text \<open>C17. A configured server is reached over https, or over http under the AllowHttp policy and
  then with a warning in the log; an unconfigured one has no URL at all.\<close>

theorem LoadFromRegistry_secure_url:
  assumes "LoadFromRegistry crack reg = (cfg, lg)"
  shows "if serverUrlConfigured cfg
         then serverUrl cfg \<noteq> [] \<and>
              (ClassifyUrlScheme crack (serverUrl cfg) = SchemeHttps \<or>
               ClassifyUrlScheme crack (serverUrl cfg) = SchemeHttp \<and> allowHttp cfg
                 \<and> lg = [WarnHttpAllowed])
         else serverUrl cfg = []"
proof -
  have "allowHttp (LoadSettings reg) = allowHttp cfg"
    using LoadFromRegistry_fields(1) [OF assms] by (simp add: LoadSettings_def)
  then show ?thesis
    using LoadSettings_url [of reg]
    unfolding LoadFromRegistry_fields(6-8) [OF assms] EnforceUrlScheme_def
    by (auto simp: Let_def)
qed

definition demo_crack :: "wstr \<Rightarrow> url_components option" where
  "demo_crack url =
     (if take 8 url = wide ''https://'' then
        Some \<lparr>cu_scheme = INTERNET_SCHEME_HTTPS, cu_host = drop 8 url, cu_path = [], cu_port = 443\<rparr>
      else if take 7 url = wide ''http://'' then
        Some \<lparr>cu_scheme = INTERNET_SCHEME_HTTP, cu_host = drop 7 url, cu_path = [], cu_port = 80\<rparr>
      else None)"

definition demo_registry :: registry where
  "demo_registry = \<lparr>hkPolicy = Some [''ServerURL'' \<mapsto> RegSz (wide ''https://tfa '' @ [0]),
                                     ''RDP2FAEnabled'' \<mapsto> RegSz [0]],
                    hkLocal = Some [''ServerURL'' \<mapsto> RegSz (wide ''http://old''),
                                    ''RDP2FAEnabled'' \<mapsto> RegDword 1,
                                    ''BypassAccounts'' \<mapsto> RegSz (wide ''administrator; CORP|'')]\<rparr>"

text \<open>The witness: a policy URL with a trailing blank wins over the local http one.\<close>

theorem LoadFromRegistry_secure_url_witness:
  "serverUrl (fst (LoadFromRegistry demo_crack demo_registry)) = wide ''https://tfa''
   \<and> (if serverUrlConfigured (fst (LoadFromRegistry demo_crack demo_registry))
      then serverUrl (fst (LoadFromRegistry demo_crack demo_registry)) \<noteq> [] \<and>
           (ClassifyUrlScheme demo_crack (serverUrl (fst (LoadFromRegistry demo_crack demo_registry))) = SchemeHttps \<or>
            ClassifyUrlScheme demo_crack (serverUrl (fst (LoadFromRegistry demo_crack demo_registry))) = SchemeHttp
              \<and> allowHttp (fst (LoadFromRegistry demo_crack demo_registry))
              \<and> snd (LoadFromRegistry demo_crack demo_registry) = [WarnHttpAllowed])
      else serverUrl (fst (LoadFromRegistry demo_crack demo_registry)) = [])"
  by (rule conjI, code_simp) (rule LoadFromRegistry_secure_url, simp)

text \<open>Each switch is the policy DWORD when the policy has one, the local DWORD when the
  policy is silent, and its default when neither key has a value; without any value both
  logon factors are off, failures are closed and plain http is refused.\<close>

lemma LoadFromRegistry_priority:
  assumes "LoadFromRegistry crack reg = (cfg, lg)"
  shows "(\<forall>key d. hkPolicy reg = Some key \<and> key ''RDP2FAEnabled'' = Some (RegDword d)
            \<longrightarrow> (rdp2faEnabled cfg \<longleftrightarrow> d \<noteq> 0))
    \<and> (\<forall>pol key d. hkPolicy reg = Some pol \<and> pol ''RDP2FAEnabled'' = None
          \<and> hkLocal reg = Some key \<and> key ''RDP2FAEnabled'' = Some (RegDword d)
            \<longrightarrow> (rdp2faEnabled cfg \<longleftrightarrow> d \<noteq> 0))
    \<and> (hkPolicy reg = None \<and> hkLocal reg = None \<longrightarrow>
          \<not> rdp2faEnabled cfg \<and> \<not> console2faEnabled cfg \<and> failClose cfg \<and> \<not> allowHttp cfg
          \<and> \<not> serverUrlConfigured cfg)"
proof (intro conjI allI impI)
  fix key d
  assume "hkPolicy reg = Some key \<and> key ''RDP2FAEnabled'' = Some (RegDword d)"
  then show "rdp2faEnabled cfg \<longleftrightarrow> d \<noteq> 0"
    using readDwordValue_policy by (simp add: LoadFromRegistry_fields(2) [OF assms] readDword_def)
next
  fix pol key d
  assume a: "hkPolicy reg = Some pol \<and> pol ''RDP2FAEnabled'' = None
      \<and> hkLocal reg = Some key \<and> key ''RDP2FAEnabled'' = Some (RegDword d)"
  then have "readDwordValue reg ''RDP2FAEnabled'' = Some d"
    by (subst readDwordValue_local) (auto simp: reg_query_dword)
  then show "rdp2faEnabled cfg \<longleftrightarrow> d \<noteq> 0"
    by (simp add: LoadFromRegistry_fields(2) [OF assms] readDword_def)
next
  assume n: "hkPolicy reg = None \<and> hkLocal reg = None"
  then have d: "readDwordValue reg name = None" for name
    by (simp add: readDwordValue_def reg_query_def)
  show "\<not> rdp2faEnabled cfg" "\<not> console2faEnabled cfg" "failClose cfg" "\<not> allowHttp cfg"
    using d by (simp_all add: LoadFromRegistry_fields [OF assms] readDword_def)
  have "readString reg ''ServerURL'' = None"
    using n by (simp add: readString_def reg_query_def reg_text_def)
  then have "\<not> serverUrlConfigured (LoadSettings reg)" by (simp add: LoadSettings_def)
  then show "\<not> serverUrlConfigured cfg"
    unfolding LoadFromRegistry_fields(7) [OF assms] EnforceUrlScheme_def by simp
qed

lemma LoadFromRegistry_priority_example:
  "rdp2faEnabled (fst (LoadFromRegistry demo_crack
     \<lparr>hkPolicy = Some [''RDP2FAEnabled'' \<mapsto> RegDword 0],
      hkLocal = Some [''RDP2FAEnabled'' \<mapsto> RegDword 1]\<rparr>)) \<longleftrightarrow> (0 :: u32) \<noteq> 0"
  using LoadFromRegistry_priority [of demo_crack
     "\<lparr>hkPolicy = Some [''RDP2FAEnabled'' \<mapsto> RegDword 0],
      hkLocal = Some [''RDP2FAEnabled'' \<mapsto> RegDword 1]\<rparr>", OF surjective_pairing]
  by simp

text \<open>A policy value of the wrong type that is shorter than a DWORD, such as an empty REG_SZ,
  hides the local DWORD: with a local RDP2FAEnabled of 1 the second factor stays off.\<close>

lemma short_policy_value_hides_local:
  assumes "LoadFromRegistry crack reg = (cfg, lg)"
    and "hkPolicy reg = Some key" "key ''RDP2FAEnabled'' = Some v" "reg_size v < 4"
  shows "\<not> rdp2faEnabled cfg"
  using readDwordValue_short_policy [OF assms(2-4)]
  by (simp add: LoadFromRegistry_fields(2) [OF assms(1)] readDword_def)

lemma short_policy_value_hides_local_example:
  "\<not> rdp2faEnabled (fst (LoadFromRegistry demo_crack demo_registry))"
  by (rule short_policy_value_hides_local [OF surjective_pairing, where v = "RegSz [0]"
        and key = "the (hkPolicy demo_registry)"])
     (simp_all add: demo_registry_def)

subsection \<open>Bypass\<close>

lemma StripDomain_plain:
  "92 \<notin> set u \<Longrightarrow> 47 \<notin> set u \<Longrightarrow> 64 \<notin> set u \<Longrightarrow> StripDomain u = (u, False)"
proof -
  assume a: "92 \<notin> set u" "47 \<notin> set u" "64 \<notin> set u"
  then have "find_if (\<lambda>x. x \<in> set [92, 47]) (rev u) 0 = None"
    by (auto simp: find_if_None)
  moreover have "find_if (\<lambda>x. x = 64) u 0 = None" using a by (auto simp: find_if_None)
  ultimately show ?thesis by (simp add: StripDomain_def find_last_of_def chr_find_def)
qed

lemma IsBypassAccount_iff:
  "IsBypassAccount cfg u d \<longleftrightarrow> u \<noteq> [] \<and> (\<exists>acc \<in> set (bypassAccounts cfg).
     bypass_match u d (fst (StripDomain u)) (snd (StripDomain u)) acc)"
  by (auto simp: IsBypassAccount_def split_beta list_ex_iff Let_def)

text \<open>An account typed with a domain is only matched by entries that carry that text or the
  same domain: a short entry of the list never matches it.\<close>

lemma IsBypassAccount_domain_required:
  assumes "IsBypassAccount cfg u d" and "snd (StripDomain u)"
  shows "\<exists>acc \<in> set (bypassAccounts cfg). wcsieq acc u \<or>
    (d \<noteq> [] \<and> (wcsieq acc (d @ [92] @ fst (StripDomain u)) \<or> wcsieq acc (fst (StripDomain u) @ [64] @ d)))"
  using assms unfolding IsBypassAccount_iff bypass_match_def by blast

lemma IsBypassAccount_domain_required_example:
  "\<exists>acc \<in> set (bypassAccounts (Config_default\<lparr>bypassAccounts := [wide ''corp'' @ 92 # wide ''bob'']\<rparr>)).
     wcsieq acc (wide ''CORP'' @ 92 # wide ''bob'') \<or>
    (wide ''CORP'' \<noteq> [] \<and>
      (wcsieq acc (wide ''CORP'' @ [92] @ fst (StripDomain (wide ''CORP'' @ 92 # wide ''bob'')))
       \<or> wcsieq acc (fst (StripDomain (wide ''CORP'' @ 92 # wide ''bob'')) @ [64] @ wide ''CORP'')))"
  by (rule IsBypassAccount_domain_required) code_simp+

text \<open>A short entry matches a name without a domain, whatever domain is passed beside it.\<close>

lemma IsBypassAccount_short:
  assumes "acc \<in> set (bypassAccounts cfg)" "wcsieq acc u" "u \<noteq> []"
  shows "IsBypassAccount cfg u d"
  using assms unfolding IsBypassAccount_iff bypass_match_def by blast

end
