(* ===== verification/JsonText.thy ===== *)
theory JsonText
  imports Std_Strings
begin

text \<open>
  The JSON helpers of \<open>credential_provider/common.h\<close> (\<open>EscapeJson\<close>, \<open>ExtractJsonString\<close>,
  \<open>ExtractJsonBool\<close>, \<open>ExtractJsonInt\<close>) and the runner's own escaper
  (\<open>JsonString\<close> of \<open>runner/link_agent_binding_bridge.cpp\<close>), over byte strings.

  The specification side is a reader for JSON string literals and for flat objects of strings
  as RFC 8259 defines them, restricted to what the sources emit (no optional blanks, \<open>\\u\<close>
  escapes below 256).  Escaping is proved to be inverse to that reader, so a request body built
  by concatenation reads back as exactly its fields.
\<close>

abbreviation quote :: char where "quote \<equiv> CHR 0x22"
abbreviation backslash :: char where "backslash \<equiv> CHR 0x5C"

subsection \<open>Escaping\<close>

definition hex_lower :: "nat \<Rightarrow> char" where
  "hex_lower n = ''0123456789abcdef'' ! n"

definition escape_char :: "char \<Rightarrow> string" where
  "escape_char c =
     (if c = quote then [backslash, quote]
      else if c = backslash then [backslash, backslash]
      else if c = CHR 0x08 then [backslash, CHR ''b'']
      else if c = CHR 0x0C then [backslash, CHR ''f'']
      else if c = CHR 0x0A then [backslash, CHR ''n'']
      else if c = CHR 0x0D then [backslash, CHR ''r'']
      else if c = CHR 0x09 then [backslash, CHR ''t'']
      else if (of_char c :: nat) < 32
      then [backslash, CHR ''u'', CHR ''0'', CHR ''0'',
            hex_lower (of_char c div 16), hex_lower (of_char c mod 16)]
      else [c])"

fun EscapeJson :: "string \<Rightarrow> string" where
  "EscapeJson [] = []"
| "EscapeJson (c # cs) = escape_char c @ EscapeJson cs"

text \<open>The runner's escaper appends to the opening quote, then closes it; its default branch
  masks both nibbles with \<open>0x0f\<close>.\<close>

definition JsonString_char :: "char \<Rightarrow> string" where
  "JsonString_char c =
     (if c = quote then [backslash, quote]
      else if c = backslash then [backslash, backslash]
      else if c = CHR 0x08 then [backslash, CHR ''b'']
      else if c = CHR 0x0C then [backslash, CHR ''f'']
      else if c = CHR 0x0A then [backslash, CHR ''n'']
      else if c = CHR 0x0D then [backslash, CHR ''r'']
      else if c = CHR 0x09 then [backslash, CHR ''t'']
      else if (of_char c :: nat) < 32
      then [backslash, CHR ''u'', CHR ''0'', CHR ''0'',
            hex_lower ((of_char c div 16) mod 16), hex_lower (of_char c mod 16)]
      else [c])"

definition JsonString :: "string \<Rightarrow> string" where
  "JsonString value = foldl (\<lambda>encoded c. encoded @ JsonString_char c) [quote] value @ [quote]"

subsection \<open>The reader of the specification\<close>

definition hex_value :: "char \<Rightarrow> nat option" where
  "hex_value c =
     (if is_digit c then Some (of_char c - 48)
      else if 97 \<le> (of_char c :: nat) \<and> (of_char c :: nat) \<le> 102 then Some (of_char c - 87)
      else if 65 \<le> (of_char c :: nat) \<and> (of_char c :: nat) \<le> 70 then Some (of_char c - 55)
      else None)"

definition simple_escape :: "char \<Rightarrow> char option" where
  "simple_escape e =
     (if e = quote then Some quote else if e = backslash then Some backslash
      else if e = CHR ''/'' then Some (CHR ''/'')
      else if e = CHR ''b'' then Some (CHR 0x08) else if e = CHR ''f'' then Some (CHR 0x0C)
      else if e = CHR ''n'' then Some (CHR 0x0A) else if e = CHR ''r'' then Some (CHR 0x0D)
      else if e = CHR ''t'' then Some (CHR 0x09) else None)"

fun hex_escape :: "string \<Rightarrow> char option" where
  "hex_escape [a, b, c, d] =
     (if a = CHR ''0'' \<and> b = CHR ''0'' then
        (case (hex_value c, hex_value d) of
           (Some h, Some l) \<Rightarrow> Some (char_of (16 * h + l)) | _ \<Rightarrow> None)
      else None)"
| "hex_escape _ = None"

text \<open>\<open>json_read s\<close> reads the rest of a string literal, after its opening quote: the value and
  what follows the closing quote.\<close>

function json_read :: "string \<Rightarrow> (string \<times> string) option" where
  "json_read [] = None"
| "json_read (c # cs) =
     (if c = quote then Some ([], cs)
      else if c = backslash then
        (if take 1 cs = ''u'' then
           (case hex_escape (take 4 (drop 1 cs)) of
              None \<Rightarrow> None
            | Some d \<Rightarrow> map_option (\<lambda>(v, r). (d # v, r)) (json_read (drop 5 cs)))
         else case cs of
           [] \<Rightarrow> None
         | e # cs' \<Rightarrow>
           (case simple_escape e of
              None \<Rightarrow> None
            | Some d \<Rightarrow> map_option (\<lambda>(v, r). (d # v, r)) (json_read cs')))
      else if (of_char c :: nat) < 32 then None
      else map_option (\<lambda>(v, r). (c # v, r)) (json_read cs))"
  by pat_completeness auto
termination
  by (relation "measure length") auto

declare json_read.simps [simp del]

lemma hex_lower_facts:
  "list_all (\<lambda>n. hex_value (hex_lower n) = Some n \<and> 48 \<le> (of_char (hex_lower n) :: nat)) [0..<16]"
  by code_simp

lemma hex_value_lower: "n < 16 \<Longrightarrow> hex_value (hex_lower n) = Some n"
  using hex_lower_facts by (simp add: list_all_iff)

lemma json_read_quote [simp]: "json_read (quote # cs) = Some ([], cs)"
  by (simp add: json_read.simps)

lemma json_read_plain_char:
  "c \<noteq> quote \<Longrightarrow> c \<noteq> backslash \<Longrightarrow> 32 \<le> (of_char c :: nat) \<Longrightarrow>
   json_read (c # cs) = map_option (\<lambda>(v, r). (c # v, r)) (json_read cs)"
  by (simp add: json_read.simps(2))

lemma json_read_simple:
  "simple_escape e = Some d \<Longrightarrow>
   json_read (backslash # e # cs) = map_option (\<lambda>(v, r). (d # v, r)) (json_read cs)"
  by (cases "e = CHR ''u''") (simp_all add: json_read.simps(2) simple_escape_def)

lemma json_read_hex:
  "hex_escape [a, b, c, d] = Some x \<Longrightarrow>
   json_read (backslash # CHR ''u'' # a # b # c # d # cs) =
     map_option (\<lambda>(v, r). (x # v, r)) (json_read cs)"
  by (simp add: json_read.simps(2))

lemma hex_escape_lower:
  "(of_char c :: nat) < 32 \<Longrightarrow>
   hex_escape [CHR ''0'', CHR ''0'', hex_lower (of_char c div 16), hex_lower (of_char c mod 16)] = Some c"
  by (simp add: hex_value_lower)

lemma json_read_escape_char:
  "json_read (escape_char c @ rest) = map_option (\<lambda>(v, r). (c # v, r)) (json_read rest)"
proof -
  consider "c \<in> {quote, backslash, CHR 0x08, CHR 0x0C, CHR 0x0A, CHR 0x0D, CHR 0x09}"
    | "c \<notin> {quote, backslash, CHR 0x08, CHR 0x0C, CHR 0x0A, CHR 0x0D, CHR 0x09}" "(of_char c :: nat) < 32"
    | "c \<noteq> quote" "c \<noteq> backslash" "32 \<le> (of_char c :: nat)"
    by (cases "(of_char c :: nat) < 32") auto
  then show ?thesis
  proof cases
    case 1
    have "json_read (backslash # e # rest) = map_option (\<lambda>(v, r). (c # v, r)) (json_read rest)"
      if "escape_char c = [backslash, e]" "simple_escape e = Some c" for e
      using that(2) by (rule json_read_simple)
    with 1 show ?thesis by (auto simp: escape_char_def simple_escape_def)
  next
    case 2
    with json_read_hex [OF hex_escape_lower [OF 2(2)]] show ?thesis
      by (simp add: escape_char_def)
  next
    case 3
    then have "escape_char c = [c]" by (auto simp: escape_char_def)
    with 3 show ?thesis by (simp add: json_read_plain_char)
  qed
qed

lemma json_read_EscapeJson: "json_read (EscapeJson s @ quote # rest) = Some (s, rest)"
  by (induction s) (simp_all add: json_read_escape_char)

lemma EscapeJson_append: "EscapeJson (s @ t) = EscapeJson s @ EscapeJson t"
  by (induction s) simp_all

lemma EscapeJson_inj: "EscapeJson s = EscapeJson t \<Longrightarrow> s = t"
  by (metis json_read_EscapeJson option.inject prod.inject)

text \<open>What the escaped text may hold: no control character.\<close>

lemma hex_lower_printable: "n < 16 \<Longrightarrow> 48 \<le> (of_char (hex_lower n) :: nat)"
  using hex_lower_facts by (simp add: list_all_iff)

lemma escape_char_printable: "x \<in> set (escape_char c) \<Longrightarrow> 32 \<le> (of_char x :: nat)"
proof -
  assume x: "x \<in> set (escape_char c)"
  have h: "48 \<le> (of_char (hex_lower (of_char c div 16)) :: nat)" if "(of_char c :: nat) < 32"
    using that by (intro hex_lower_printable) simp
  have l: "48 \<le> (of_char (hex_lower (of_char c mod 16)) :: nat)"
    by (intro hex_lower_printable) simp
  show ?thesis
    using x h l unfolding escape_char_def by (auto split: if_splits)
qed

lemma EscapeJson_printable: "x \<in> set (EscapeJson s) \<Longrightarrow> 32 \<le> (of_char x :: nat)"
  by (induction s) (auto dest: escape_char_printable)

lemma JsonString_char_eq: "JsonString_char c = escape_char c"
proof -
  have "(of_char c div 16) mod 16 = (of_char c :: nat) div 16" if "(of_char c :: nat) < 32"
    using that by simp
  then show ?thesis by (simp add: JsonString_char_def escape_char_def)
qed

lemma JsonString_fold: "foldl (\<lambda>e c. e @ JsonString_char c) acc s = acc @ EscapeJson s"
  by (induction s arbitrary: acc) (simp_all add: JsonString_char_eq)

subsection \<open>Flat objects\<close>

text \<open>\<open>json_object_text\<close>: the shape every request body of the sources has.\<close>

definition json_member :: "string \<times> string \<Rightarrow> string" where
  "json_member kv = quote # fst kv @ quote # CHR '':'' # quote # EscapeJson (snd kv) @ [quote]"

fun json_members :: "(string \<times> string) list \<Rightarrow> string" where
  "json_members [] = []"
| "json_members [kv] = json_member kv"
| "json_members (kv # kvs) = json_member kv @ CHR '','' # json_members kvs"

definition json_object_text :: "(string \<times> string) list \<Rightarrow> string" where
  "json_object_text kvs = CHR ''{'' # json_members kvs @ [CHR ''}'']"

text \<open>The reader: members up to the closing brace; fuel is the length of the text.\<close>

fun read_members :: "nat \<Rightarrow> string \<Rightarrow> ((string \<times> string) list \<times> string) option" where
  "read_members 0 s = None"
| "read_members (Suc n) s =
     (case s of
        [] \<Rightarrow> None
      | c # s1 \<Rightarrow>
        if c \<noteq> quote then None
        else (case json_read s1 of
          None \<Rightarrow> None
        | Some (k, s2) \<Rightarrow>
          if take 2 s2 \<noteq> [CHR '':'', quote] then None
          else (case json_read (drop 2 s2) of
            None \<Rightarrow> None
          | Some (v, s3) \<Rightarrow>
            (case s3 of
               [] \<Rightarrow> None
             | d # s4 \<Rightarrow>
               if d = CHR ''}'' then Some ([(k, v)], s4)
               else if d = CHR '','' then
                 map_option (\<lambda>(kvs, r). ((k, v) # kvs, r)) (read_members n s4)
               else None))))"

definition read_object :: "string \<Rightarrow> (string \<times> string) list option" where
  "read_object s =
     (case s of
        [] \<Rightarrow> None
      | c # cs \<Rightarrow>
        if c \<noteq> CHR ''{'' then None
        else (case read_members (length s) cs of
                Some (kvs, []) \<Rightarrow> Some kvs | _ \<Rightarrow> None))"

definition plain_key :: "string \<Rightarrow> bool" where
  "plain_key k \<longleftrightarrow> list_all (\<lambda>c. c \<noteq> quote \<and> c \<noteq> backslash \<and> 32 \<le> (of_char c :: nat)) k"

lemma EscapeJson_plain: "plain_key k \<Longrightarrow> EscapeJson k = k"
  by (induction k) (auto simp: plain_key_def escape_char_def)

lemma json_read_plain: "plain_key k \<Longrightarrow> json_read (k @ quote # rest) = Some (k, rest)"
  using json_read_EscapeJson [of k rest] by (simp add: EscapeJson_plain)

lemma read_members_member:
  "plain_key k \<Longrightarrow>
   read_members (Suc n) (json_member (k, v) @ d # rest) =
     (if d = CHR ''}'' then Some ([(k, v)], rest)
      else if d = CHR '','' then map_option (\<lambda>(kvs, r). ((k, v) # kvs, r)) (read_members n rest)
      else None)"
  by (simp add: json_member_def json_read_plain json_read_EscapeJson)

declare read_members.simps [simp del]

lemma read_members_json_members:
  "kvs \<noteq> [] \<Longrightarrow> list_all (plain_key \<circ> fst) kvs \<Longrightarrow> length kvs \<le> n \<Longrightarrow>
   read_members n (json_members kvs @ CHR ''}'' # rest) = Some (kvs, rest)"
proof (induction kvs arbitrary: n rule: json_members.induct)
  case 1
  then show ?case by simp
next
  case (2 kv)
  then obtain m where "n = Suc m" by (cases n) auto
  with "2.prems" show ?case by (cases kv) (simp add: read_members_member)
next
  case (3 kv kv' kvs)
  from "3.prems" obtain m where n: "n = Suc m" by (cases n) auto
  from "3.prems" n have IH: "read_members m (json_members (kv' # kvs) @ CHR ''}'' # rest)
      = Some (kv' # kvs, rest)"
    by (intro "3.IH") auto
  from "3.prems" n IH show ?case by (cases kv) (simp add: read_members_member)
qed

lemma length_json_members: "length kvs \<le> length (json_members kvs)"
  by (induction kvs rule: json_members.induct) (auto simp: json_member_def)

lemma read_object_json_object_text:
  "kvs \<noteq> [] \<Longrightarrow> list_all (plain_key \<circ> fst) kvs \<Longrightarrow> read_object (json_object_text kvs) = Some kvs"
  using length_json_members [of kvs]
  by (simp add: read_object_def json_object_text_def read_members_json_members)

subsection \<open>Extraction from responses\<close>

definition ExtractJsonString :: "string \<Rightarrow> string \<Rightarrow> string" where
  "ExtractJsonString json key =
     (let needle = quote # key @ [quote] in
      case str_find json needle 0 of None \<Rightarrow> []
      | Some pos \<Rightarrow>
        (case chr_find json (CHR '':'') (pos + length needle) of None \<Rightarrow> []
         | Some pos1 \<Rightarrow>
           (case chr_find json quote (pos1 + 1) of None \<Rightarrow> []
            | Some pos2 \<Rightarrow>
              (case chr_find json quote (pos2 + 1) of None \<Rightarrow> []
               | Some end1 \<Rightarrow> substr json (pos2 + 1) (end1 - pos2 - 1)))))"

definition ExtractJsonBool :: "string \<Rightarrow> string \<Rightarrow> bool" where
  "ExtractJsonBool json key =
     (let needle = quote # key @ [quote] in
      case str_find json needle 0 of None \<Rightarrow> False
      | Some pos \<Rightarrow>
        (case chr_find json (CHR '':'') (pos + length needle) of None \<Rightarrow> False
         | Some pos1 \<Rightarrow>
           (let truePos = str_find json ''true'' pos1;
                commaPos = find_first_of json [CHR '','', CHR ''}'', CHR 0x0A] pos1
            in (case truePos of None \<Rightarrow> False
                | Some t \<Rightarrow> (case commaPos of None \<Rightarrow> True | Some c \<Rightarrow> t < c)))))"

definition ExtractJsonInt :: "string \<Rightarrow> string \<Rightarrow> int \<Rightarrow> int" where
  "ExtractJsonInt json key fallback =
     (let needle = quote # key @ [quote] in
      case str_find json needle 0 of None \<Rightarrow> fallback
      | Some pos \<Rightarrow>
        (case chr_find json (CHR '':'') (pos + length needle) of None \<Rightarrow> fallback
         | Some pos1 \<Rightarrow>
           (let rest = dropWhile (\<lambda>c. c = CHR '' '' \<or> c = CHR 0x09) (drop (pos1 + 1) json);
                digits = takeWhile is_digit rest
            in if digits = [] then fallback else atoi digits)))"

lemma substr_no_char:
  assumes "\<forall>k. p \<le> k \<and> k < e \<longrightarrow> s ! k \<noteq> c" and "e \<le> length s"
  shows "c \<notin> set (substr s p (e - p))"
proof
  assume "c \<in> set (substr s p (e - p))"
  then obtain k where "k < length (substr s p (e - p))" "substr s p (e - p) ! k = c"
    by (auto simp: in_set_conv_nth)
  with assms show False by (auto simp: substr_def)
qed

lemma ExtractJsonString_no_quote: "quote \<notin> set (ExtractJsonString json key)"
proof -
  have "quote \<notin> set (substr json (p + 1) (e - p - 1))" if "chr_find json quote (p + 1) = Some e" for p e
  proof -
    from chr_find_Some [OF that] have "\<forall>k. p + 1 \<le> k \<and> k < e \<longrightarrow> json ! k \<noteq> quote" "e \<le> length json"
      by auto
    from substr_no_char [OF this] show ?thesis by simp
  qed
  then show ?thesis
    by (auto simp: ExtractJsonString_def Let_def split: option.splits)
qed

lemma ExtractJsonString_member:
  assumes "str_find json (quote # key @ [quote]) 0 = Some (length pre)"
    and "json = pre @ (quote # key @ [quote]) @ CHR '':'' # quote # v @ quote # post"
    and "quote \<notin> set v"
  shows "ExtractJsonString json key = v"
proof -
  let ?n = "quote # key @ [quote]"
  have d0: "drop (length pre + length ?n) json = CHR '':'' # quote # v @ quote # post"
    unfolding assms(2) drop_append by simp
  then have d1: "drop (length pre + length ?n + 1) json = quote # v @ quote # post"
    unfolding drop_plus [of _ 1] by simp
  then have d: "drop (length pre + length ?n + 2) json = v @ quote # post"
    unfolding drop_plus [of _ 2] using d0 by simp
  have 1: "chr_find json (CHR '':'') (length pre + length ?n) = Some (length pre + length ?n)"
    unfolding chr_find_def d0 by simp
  have 2: "chr_find json quote (length pre + length ?n + 1) = Some (length pre + length ?n + 1)"
    unfolding chr_find_def d1 by simp
  have 3: "chr_find json quote (length pre + length ?n + 1 + 1)
      = Some (length pre + length ?n + 2 + length v)"
  proof -
    have "find_if (\<lambda>x. x = quote) (v @ quote # post) i = Some (i + length v)" for i
      using assms(3) by (intro find_if_append) auto
    then show ?thesis using d by (simp add: chr_find_def)
  qed
  show ?thesis
    unfolding ExtractJsonString_def Let_def assms(1) using 1 2 3 d
    by (simp add: substr_def)
qed

text \<open>
  \<open>ExtractJsonBool\<close> looks for the text \<open>true\<close> between the key's colon and the next comma,
  closing brace or line feed; \<open>falsePos\<close> is computed by the source and never read.
\<close>

definition delim :: "char \<Rightarrow> bool" where
  "delim c \<longleftrightarrow> c = CHR '','' \<or> c = CHR ''}'' \<or> c = CHR 0x0A"

lemma find_from_true_before_delim:
  "(case find_from ''true'' s i of None \<Rightarrow> False
    | Some t \<Rightarrow> (case find_if delim s i of None \<Rightarrow> True | Some c \<Rightarrow> t < c))
   \<longleftrightarrow> sublist ''true'' (takeWhile (\<lambda>c. \<not> delim c) s)"
proof (induction s arbitrary: i)
  case Nil
  then show ?case by simp
next
  case (Cons x xs)
  show ?case
  proof (cases "delim x")
    case True
    then show ?thesis using find_from_ge [of "''true''" "x # xs" i]
      by (fastforce split: option.splits)
  next
    case False
    show ?thesis
    proof (cases "prefix ''true'' (x # xs)")
      case True
      then obtain zs where zs: "x # xs = ''true'' @ zs" by (auto simp: prefix_def)
      have "takeWhile (\<lambda>c. \<not> delim c) (x # xs) = ''true'' @ takeWhile (\<lambda>c. \<not> delim c) zs"
        unfolding zs by (simp add: delim_def)
      then have "sublist ''true'' (takeWhile (\<lambda>c. \<not> delim c) (x # xs))" by simp
      moreover have "case find_if delim (x # xs) i of None \<Rightarrow> True | Some c \<Rightarrow> i < c"
        using False find_if_Some [of delim xs "Suc i"] by (auto split: option.splits)
      ultimately show ?thesis using True by simp
    next
      case np: False
      have "\<not> prefix ''true'' (takeWhile (\<lambda>c. \<not> delim c) (x # xs))"
        using np prefix_order.trans takeWhile_is_prefix by blast
      then have "sublist ''true'' (takeWhile (\<lambda>c. \<not> delim c) (x # xs))
          \<longleftrightarrow> sublist ''true'' (takeWhile (\<lambda>c. \<not> delim c) xs)"
        using False by (auto simp: sublist_Cons_right)
      moreover have fi: "find_if delim (x # xs) i = find_if delim xs (Suc i)" using False by simp
      moreover have ff: "find_from ''true'' (x # xs) i = find_from ''true'' xs (Suc i)"
        by (simp only: find_from.simps np if_False)
      ultimately show ?thesis unfolding fi ff using Cons.IH [of "Suc i"] by blast
    qed
  qed
qed

lemma ExtractJsonBool_iff:
  "ExtractJsonBool json key \<longleftrightarrow>
     (\<exists>pos pos1. str_find json (quote # key @ [quote]) 0 = Some pos \<and>
        chr_find json (CHR '':'') (pos + length (quote # key @ [quote])) = Some pos1 \<and>
        sublist ''true'' (takeWhile (\<lambda>c. \<not> delim c) (drop pos1 json)))"
proof -
  have d: "(\<lambda>x. x \<in> set [CHR '','', CHR ''}'', CHR 0x0A]) = delim"
    by (auto simp: fun_eq_iff delim_def)
  have *: "(case str_find json ''true'' p of None \<Rightarrow> False
      | Some t \<Rightarrow> (case find_first_of json [CHR '','', CHR ''}'', CHR 0x0A] p of
                     None \<Rightarrow> True | Some c \<Rightarrow> t < c))
      \<longleftrightarrow> sublist ''true'' (takeWhile (\<lambda>c. \<not> delim c) (drop p json))"
    if "chr_find json c q = Some p" for c q p
  proof -
    have "p \<le> length json" using chr_find_Some [OF that] by simp
    then show ?thesis
      using find_from_true_before_delim [of "drop p json" p]
      by (simp only: str_find_def find_first_of_def d if_True)
  qed
  show ?thesis
    unfolding ExtractJsonBool_def Let_def by (auto simp: * split: option.splits)
qed

lemma ExtractJsonInt_range:
  "0 \<le> fallback \<Longrightarrow> fallback \<le> 2147483647 \<Longrightarrow>
   0 \<le> ExtractJsonInt json key fallback \<and> ExtractJsonInt json key fallback \<le> 2147483647"
  using atoi_bounds by (auto simp: ExtractJsonInt_def Let_def split: option.splits)

end
