(* ===== verification/HttpApi.thy ===== *)
theory HttpApi
  imports Config JsonText
begin

text \<open>
  \<open>credential_provider/HttpApiClient.cpp\<close>: the REST client of the second-factor server.  A
  request goes through WinHTTP; what the network answers to it is a \<open>transport\<close>, the outcome of
  every WinHTTP call in the order the code makes them, and a network \<open>net\<close> maps each request
  to its transport, so that the requests a call emits are part of the model.  The UTF-8
  conversions and the host facts (computer name, WTS client, adapters) are parameters too.

  The body of a request is written with \<^const>\<open>json_object_text\<close>; a status code is the signed
  reading of WinHTTP's DWORD.  Requests of four gigabytes or more, whose length would be cut to
  a DWORD, are outside the model.
\<close>

subsection \<open>Conversions\<close>

text \<open>The two Win32 conversions; the empty string is handled before they are called.\<close>

record utf8_codec =
  to_utf8 :: "wstr \<Rightarrow> string"
  from_utf8 :: "string \<Rightarrow> wstr"

definition WideToUtf8 :: "utf8_codec \<Rightarrow> wstr \<Rightarrow> string" where
  "WideToUtf8 cv w = (if w = [] then [] else to_utf8 cv w)"

definition Utf8ToWide :: "utf8_codec \<Rightarrow> string \<Rightarrow> wstr" where
  "Utf8ToWide cv s = (if s = [] then [] else from_utf8 cv s)"

subsection \<open>The client\<close>

record HttpApiClient =
  m_serverUrl :: wstr
  m_fallbackRelayUrl :: wstr
  m_host :: wstr
  m_relayHost :: wstr
  m_port :: nat
  m_relayPort :: nat
  m_isHttps :: bool
  m_relayIsHttps :: bool
  m_allowSelfSigned :: bool
  m_allowHttp :: bool
  m_serviceBase :: string
  m_hSession :: bool
  m_receiveTimeoutMs :: int
  m_lastRetryAfterSec :: int

definition ParseUrl :: "(wstr \<Rightarrow> url_components option) \<Rightarrow> wstr \<Rightarrow> HttpApiClient \<Rightarrow> HttpApiClient \<times> bool" where
  "ParseUrl crack url c = (case crack url of
     Some uc \<Rightarrow>
       if cu_scheme uc \<noteq> INTERNET_SCHEME_HTTPS \<and>
          \<not> (cu_scheme uc = INTERNET_SCHEME_HTTP \<and> m_allowHttp c)
       then (c\<lparr>m_host := [], m_port := 0, m_isHttps := False\<rparr>, False)
       else (c\<lparr>m_host := cu_host uc, m_port := cu_port uc,
               m_isHttps := (cu_scheme uc = INTERNET_SCHEME_HTTPS)\<rparr>, True)
   | None \<Rightarrow> (c, False))"

definition ParseRelayUrl :: "(wstr \<Rightarrow> url_components option) \<Rightarrow> wstr \<Rightarrow> HttpApiClient \<Rightarrow> HttpApiClient \<times> bool" where
  "ParseRelayUrl crack url c = (case crack url of
     Some uc \<Rightarrow>
       if cu_scheme uc \<noteq> INTERNET_SCHEME_HTTPS
       then (c\<lparr>m_relayHost := [], m_relayPort := 0, m_relayIsHttps := False\<rparr>, False)
       else (c\<lparr>m_relayHost := cu_host uc,
               m_relayPort := (if cu_port uc \<noteq> 0 then cu_port uc else 8082),
               m_relayIsHttps := (cu_scheme uc = INTERNET_SCHEME_HTTPS)\<rparr>, True)
   | None \<Rightarrow> (c, False))"

text \<open>The constructor; \<open>opened\<close> says whether \<open>WinHttpOpen\<close> gave a session.\<close>

definition HttpApiClient_new ::
    "(wstr \<Rightarrow> url_components option) \<Rightarrow> bool \<Rightarrow> wstr \<Rightarrow> bool \<Rightarrow> int \<Rightarrow> wstr \<Rightarrow> bool \<Rightarrow> string \<Rightarrow> HttpApiClient" where
  "HttpApiClient_new crack opened url selfSigned receiveTimeoutMs relayUrl http serviceBase =
     (let c = \<lparr>m_serverUrl = url, m_fallbackRelayUrl = relayUrl, m_host = [], m_relayHost = [],
               m_port = 443, m_relayPort = 8082, m_isHttps = True, m_relayIsHttps = False,
               m_allowSelfSigned = selfSigned, m_allowHttp = http, m_serviceBase = serviceBase,
               m_hSession = False, m_receiveTimeoutMs = 0, m_lastRetryAfterSec = 0\<rparr>;
          c = fst (ParseUrl crack url c);
          c = (if relayUrl \<noteq> [] then fst (ParseRelayUrl crack relayUrl c) else c)
      in if opened
         then c\<lparr>m_hSession := True,
                m_receiveTimeoutMs := (if receiveTimeoutMs < 1000 then 1000 else receiveTimeoutMs)\<rparr>
         else c)"

subsection \<open>One request\<close>

definition SECURITY_FLAG_IGNORE_UNKNOWN_CA :: u32 where "SECURITY_FLAG_IGNORE_UNKNOWN_CA = 0x100"

record http_request =
  rq_host :: wstr
  rq_port :: nat
  rq_secure :: bool
  rq_securityFlags :: u32 \<comment> \<open>\<open>WINHTTP_OPTION_SECURITY_FLAGS\<close>, 0 where the option is not set\<close>
  rq_verb :: string
  rq_path :: string
  rq_body :: string

text \<open>One turn of the body loop: what \<open>WinHttpQueryDataAvailable\<close> answered (\<open>None\<close>: it
  failed) and what \<open>WinHttpReadData\<close> answered then.  A query past the list fails.\<close>

type_synonym chunk = "nat option \<times> string option"

record transport =
  t_connect :: bool
  t_open :: bool
  t_send :: bool
  t_receive :: bool
  t_status :: "u32 option"
  t_chunks :: "chunk list"

type_synonym network = "http_request \<Rightarrow> transport"

fun read_body :: "chunk list \<Rightarrow> string \<Rightarrow> string" where
  "read_body [] acc = acc"
| "read_body ((None, _) # cs) acc = acc"
| "read_body ((Some 0, _) # cs) acc = acc"
| "read_body ((Some (Suc n), None) # cs) acc = read_body cs acc"
| "read_body ((Some (Suc n), Some d) # cs) acc = read_body cs (acc @ take (Suc n) d)"

text \<open>The result of an exchange: \<open>bResult\<close>, the status, the response, and whether
  \<open>WinHttpSendRequest\<close> put the request on the wire.\<close>

record exchange =
  x_ok :: bool
  x_status :: int
  x_response :: string
  x_sent :: "http_request list"

definition no_exchange :: exchange where
  "no_exchange = \<lparr>x_ok = False, x_status = 0, x_response = [], x_sent = []\<rparr>"

definition status_of :: "transport \<Rightarrow> int" where
  "status_of t = (case t_status t of None \<Rightarrow> 0 | Some w \<Rightarrow> sint w)"

text \<open>From \<open>WinHttpConnect\<close> on, the two request routines of the source are the same text.\<close>

definition run_request :: "transport \<Rightarrow> http_request \<Rightarrow> exchange" where
  "run_request t rq =
     (if \<not> t_connect t then no_exchange
      else if \<not> t_open t then no_exchange
      else if t_send t \<and> t_receive t
      then \<lparr>x_ok = True,
            x_status = status_of t,
            x_response = read_body (t_chunks t) [],
            x_sent = [rq]\<rparr>
      else \<lparr>x_ok = False, x_status = 0, x_response = [], x_sent = [rq]\<rparr>)"

definition SendRequest :: "network \<Rightarrow> HttpApiClient \<Rightarrow> string \<Rightarrow> string \<Rightarrow> string \<Rightarrow> exchange" where
  "SendRequest net c verb path body =
     (if \<not> m_hSession c \<or> m_host c = [] then no_exchange
      else
        let rq = \<lparr>rq_host = m_host c, rq_port = m_port c, rq_secure = m_isHttps c,
                  rq_securityFlags = (if m_isHttps c \<and> m_allowSelfSigned c then SECURITY_FLAG_IGNORE_UNKNOWN_CA else 0),
                  rq_verb = verb, rq_path = path, rq_body = body\<rparr>
        in run_request (net rq) rq)"

definition SendRelayRequest :: "network \<Rightarrow> HttpApiClient \<Rightarrow> string \<Rightarrow> string \<Rightarrow> string \<Rightarrow> exchange" where
  "SendRelayRequest net c verb path body =
     (if \<not> m_hSession c \<or> m_relayHost c = [] then no_exchange
      else
        let rq = \<lparr>rq_host = m_relayHost c, rq_port = m_relayPort c, rq_secure = m_relayIsHttps c,
                  rq_securityFlags = (if m_relayIsHttps c \<and> m_allowSelfSigned c then SECURITY_FLAG_IGNORE_UNKNOWN_CA else 0),
                  rq_verb = verb, rq_path = path, rq_body = body\<rparr>
        in run_request (net rq) rq)"

lemma run_request_facts:
  "x_sent (run_request t rq) = [] \<or> x_sent (run_request t rq) = [rq]"
  "x_ok (run_request t rq) \<Longrightarrow> x_sent (run_request t rq) = [rq] \<and> t_send t \<and> t_receive t
     \<and> x_status (run_request t rq) = status_of t \<and> x_response (run_request t rq) = read_body (t_chunks t) []"
  "\<not> x_ok (run_request t rq) \<Longrightarrow> x_status (run_request t rq) = 0 \<and> x_response (run_request t rq) = []"
  by (cases "t_send t \<and> t_receive t"; auto simp: run_request_def no_exchange_def split: if_splits)+

lemma in_run_request: "rq \<in> set (x_sent (run_request t rq0)) \<Longrightarrow> rq = rq0"
  using run_request_facts(1) [of t rq0] by auto

lemma no_exchange_facts [simp]:
  "x_ok no_exchange = False" "x_sent no_exchange = []" "x_status no_exchange = 0"
  "x_response no_exchange = []"
  by (simp_all add: no_exchange_def)

subsection \<open>What the request says about this host\<close>

record SessionEndpointInfo =
  clientIp :: string
  clientName :: string
  hostName :: string
  hostIp :: string
  service :: string
  clientDesc :: string
  isRemote :: bool

text \<open>The Cyrillic words of the sources, as the UTF-8 bytes of their literals.\<close>

definition utf8_text :: "nat list \<Rightarrow> string" where
  "utf8_text ns = map char_of ns"

definition text_device :: string where \<comment> \<open>the device\<close>
  "text_device = utf8_text [0xD0,0xA3,0xD1,0x81,0xD1,0x82,0xD1,0x80,0xD0,0xBE,0xD0,0xB9,0xD1,0x81,0xD1,0x82,0xD0,0xB2,0xD0,0xBE]"

definition text_server :: string where \<comment> \<open>the server\<close>
  "text_server = utf8_text [0xD0,0xA1,0xD0,0xB5,0xD1,0x80,0xD0,0xB2,0xD0,0xB5,0xD1,0x80]"

definition text_client :: string where \<comment> \<open>the client\<close>
  "text_client = utf8_text [0xD0,0x9A,0xD0,0xBB,0xD0,0xB8,0xD0,0xB5,0xD0,0xBD,0xD1,0x82]"

definition text_console :: string where \<comment> \<open>the console\<close>
  "text_console = utf8_text [0xD0,0x9A,0xD0,0xBE,0xD0,0xBD,0xD1,0x81,0xD0,0xBE,0xD0,0xBB,0xD1,0x8C]"

definition text_local_console :: string where \<comment> \<open>the local console\<close>
  "text_local_console = utf8_text [0xD0,0x9B,0xD0,0xBE,0xD0,0xBA,0xD0,0xB0,0xD0,0xBB,0xD1,0x8C,0xD0,0xBD,0xD0,0xB0,0xD1,0x8F,0x20,0xD0,0xBA,0xD0,0xBE,0xD0,0xBD,0xD1,0x81,0xD0,0xBE,0xD0,0xBB,0xD1,0x8C]"

definition ApplyServiceBase :: "SessionEndpointInfo \<Rightarrow> string \<Rightarrow> SessionEndpointInfo" where
  "ApplyServiceBase ep base =
     (if base = [] then ep
      else ep\<lparr>service := base @ '' ('' @ (if hostName ep = [] then text_device else hostName ep) @ '')''\<rparr>)"

text \<open>The answers of the OS: the computer name, the WTS client address (\<open>Some\<close> with its four
  bytes when it is an \<open>AF_INET\<close> one), the WTS client name, and the adapters, with the first
  query possibly asking for a larger buffer.\<close>

type_synonym ipv4 = "nat \<times> nat \<times> nat \<times> nat"

record adapter =
  ad_up :: bool
  ad_loopback :: bool
  ad_unicast :: "ipv4 option list"

datatype adapters_answer = AdaptersOverflow | AdaptersError | Adapters "adapter list"

record host_facts =
  hf_computer :: "wstr option"
  hf_client_addr :: "ipv4 option option"
  hf_client_name :: "wstr option"
  hf_adapters :: "adapters_answer \<times> adapters_answer"

definition dotted :: "ipv4 \<Rightarrow> string" where
  "dotted ip = (case ip of (a, b, c, d) \<Rightarrow>
     digits_of a @ ''.'' @ digits_of b @ ''.'' @ digits_of c @ ''.'' @ digits_of d)"

text \<open>\<open>strncmp(ipStr, "127.", 4) != 0 && strcmp(ipStr, "0.0.0.0") != 0\<close>\<close>

definition usable_ip :: "string \<Rightarrow> bool" where
  "usable_ip s \<longleftrightarrow> take 4 s \<noteq> ''127.'' \<and> s \<noteq> ''0.0.0.0''"

text \<open>The inner loop: the first usable address of one adapter, empty when there is none.\<close>

fun adapter_ip :: "ipv4 option list \<Rightarrow> string" where
  "adapter_ip [] = []"
| "adapter_ip (None # us) = adapter_ip us"
| "adapter_ip (Some ip # us) = (if usable_ip (dotted ip) then dotted ip else adapter_ip us)"

fun local_ip :: "adapter list \<Rightarrow> string" where
  "local_ip [] = []"
| "local_ip (a # as) =
     (if \<not> ad_up a then local_ip as
      else if ad_loopback a then local_ip as
      else let ip = adapter_ip (ad_unicast a) in if ip \<noteq> [] then ip else local_ip as)"

definition query_local_ip :: "adapters_answer \<times> adapters_answer \<Rightarrow> string" where
  "query_local_ip ans =
     (let r = (if fst ans = AdaptersOverflow then snd ans else fst ans)
      in case r of Adapters as \<Rightarrow> local_ip as | _ \<Rightarrow> [])"

definition QueryEndpoint :: "utf8_codec \<Rightarrow> host_facts \<Rightarrow> SessionEndpointInfo" where
  "QueryEndpoint cv hf =
     (let host = (case hf_computer hf of None \<Rightarrow> [] | Some n \<Rightarrow> WideToUtf8 cv n);
          ip = (case hf_client_addr hf of
                  Some (Some a) \<Rightarrow> if dotted a \<noteq> ''0.0.0.0'' then dotted a else []
                | _ \<Rightarrow> []);
          nm = (case hf_client_name hf of
                  Some n \<Rightarrow> if 0 < length n then Some (WideToUtf8 cv n) else None
                | None \<Rightarrow> None)
      in \<lparr>clientIp = ip, clientName = (case nm of None \<Rightarrow> [] | Some n \<Rightarrow> n), hostName = host,
          hostIp = query_local_ip (hf_adapters hf), service = [], clientDesc = [],
          isRemote = (ip \<noteq> [] \<or> nm \<noteq> None)\<rparr>)"

definition DescribeEndpoint :: "SessionEndpointInfo \<Rightarrow> SessionEndpointInfo" where
  "DescribeEndpoint info =
     (if isRemote info
      then info\<lparr>service := ''Windows RDP ('' @ (if hostName info = [] then text_server else hostName info) @ '')'',
                clientDesc := ''Windows RDP ('' @ (if clientName info = [] then text_client else clientName info) @ '')''\<rparr>
      else info\<lparr>service := ''Windows ('' @ (if hostName info = [] then text_console else hostName info) @ '')'',
                clientDesc := text_local_console @ '' ('' @ (if hostName info = [] then text_console else hostName info) @ '')'',
                clientIp := (if clientIp info = []
                             then (if hostIp info = [] then ''127.0.0.1'' else hostIp info)
                             else clientIp info),
                clientName := (if clientName info = [] then hostName info else clientName info)\<rparr>)"

definition GetSessionEndpointInfo :: "utf8_codec \<Rightarrow> host_facts \<Rightarrow> SessionEndpointInfo" where
  "GetSessionEndpointInfo cv hf = DescribeEndpoint (QueryEndpoint cv hf)"

subsection \<open>The calls\<close>

text \<open>\<open>statusCode\<close> and \<open>response\<close> turned into the error the caller gets.\<close>

definition server_error :: "exchange \<Rightarrow> string" where
  "server_error x =
     (let e = ExtractJsonString (x_response x) ''error''
      in if e = [] then ''status_'' @ to_string (x_status x) else e)"

definition endpoint_members :: "SessionEndpointInfo \<Rightarrow> (string \<times> string) list" where
  "endpoint_members ep =
     [(''service'', service ep), (''client'', clientDesc ep), (''host'', hostName ep),
      (''client_ip'', clientIp ep), (''host_ip'', hostIp ep), (''client_name'', clientName ep),
      (''computer_name'', hostName ep)]"

definition request_endpoint :: "utf8_codec \<Rightarrow> host_facts \<Rightarrow> HttpApiClient \<Rightarrow> SessionEndpointInfo" where
  "request_endpoint cv hf c = ApplyServiceBase (GetSessionEndpointInfo cv hf) (m_serviceBase c)"

definition StartPush_members :: "utf8_codec \<Rightarrow> host_facts \<Rightarrow> HttpApiClient \<Rightarrow> wstr \<Rightarrow> wstr \<Rightarrow> (string \<times> string) list" where
  "StartPush_members cv hf c username password =
     [(''username'', WideToUtf8 cv username), (''password'', WideToUtf8 cv password)]
     @ endpoint_members (request_endpoint cv hf c)"

text \<open>The exchange each call makes; \<open>m_lastRetryAfterSec\<close> is reset first.\<close>

definition push_exchange :: "utf8_codec \<Rightarrow> host_facts \<Rightarrow> network \<Rightarrow> HttpApiClient \<Rightarrow> wstr \<Rightarrow> wstr \<Rightarrow> exchange" where
  "push_exchange cv hf net c username password =
     SendRequest net (c\<lparr>m_lastRetryAfterSec := 0\<rparr>) ''POST'' ''/api/v1/auth/start''
       (json_object_text (StartPush_members cv hf c username password))"

definition StartPush ::
    "utf8_codec \<Rightarrow> host_facts \<Rightarrow> network \<Rightarrow> HttpApiClient \<Rightarrow> wstr \<Rightarrow> wstr
     \<Rightarrow> HttpApiClient \<times> (string + wstr \<times> wstr) \<times> http_request list" where
  "StartPush cv hf net c username password =
     (let c0 = c\<lparr>m_lastRetryAfterSec := 0\<rparr>;
          x = push_exchange cv hf net c username password;
          cid = ExtractJsonString (x_response x) ''challenge_id''
      in if \<not> x_ok x then (c0, Inl ''network_error'', x_sent x)
         else if x_status x = 200 \<and> cid \<noteq> []
         then (c0, Inr (Utf8ToWide cv cid,
                        Utf8ToWide cv (ExtractJsonString (x_response x) ''number_match'')), x_sent x)
         else (c0\<lparr>m_lastRetryAfterSec := ExtractJsonInt (x_response x) ''retry_after'' 0\<rparr>,
               Inl (server_error x), x_sent x))"

text \<open>The challenge id is not escaped here.\<close>

definition PollStatus_body :: "utf8_codec \<Rightarrow> wstr \<Rightarrow> string" where
  "PollStatus_body cv challengeId =
     CHR ''{'' # quote # ''challenge_id'' @ quote # CHR '':'' # quote
       # WideToUtf8 cv challengeId @ [quote, CHR ''}'']"

text \<open>The answer: the error code, or the status and the single sign-on ticket.\<close>

definition PollStatus ::
    "utf8_codec \<Rightarrow> network \<Rightarrow> HttpApiClient \<Rightarrow> wstr \<Rightarrow> (string + wstr \<times> string) \<times> http_request list" where
  "PollStatus cv net c challengeId =
     (let x = SendRequest net c ''POST'' ''/api/v1/auth/poll'' (PollStatus_body cv challengeId);
          st = ExtractJsonString (x_response x) ''status''
      in if \<not> x_ok x then (Inl ''network_error'', x_sent x)
         else if x_status x = 200 \<and> st \<noteq> []
         then (Inr (Utf8ToWide cv st, ExtractJsonString (x_response x) ''sso_ticket''), x_sent x)
         else (Inl (ExtractJsonString (x_response x) ''error''), x_sent x))"

definition VerifyCombined_members ::
    "utf8_codec \<Rightarrow> host_facts \<Rightarrow> HttpApiClient \<Rightarrow> wstr \<Rightarrow> wstr \<Rightarrow> wstr \<Rightarrow> (string \<times> string) list" where
  "VerifyCombined_members cv hf c username password code =
     [(''username'', WideToUtf8 cv username), (''password'', WideToUtf8 cv password),
      (''code'', WideToUtf8 cv code)]
     @ endpoint_members (request_endpoint cv hf c)"

definition relay_members :: "utf8_codec \<Rightarrow> wstr \<Rightarrow> wstr \<Rightarrow> wstr \<Rightarrow> (string \<times> string) list" where
  "relay_members cv username password code =
     [(''username'', WideToUtf8 cv username), (''password'', WideToUtf8 cv password),
      (''totp_code'', WideToUtf8 cv code)]"

definition accepts :: "exchange \<Rightarrow> bool" where
  "accepts x \<longleftrightarrow> x_status x = 200 \<and> ExtractJsonBool (x_response x) ''ok''"

definition combined_exchange ::
    "utf8_codec \<Rightarrow> host_facts \<Rightarrow> network \<Rightarrow> HttpApiClient \<Rightarrow> wstr \<Rightarrow> wstr \<Rightarrow> wstr \<Rightarrow> exchange" where
  "combined_exchange cv hf net c username password code =
     SendRequest net (c\<lparr>m_lastRetryAfterSec := 0\<rparr>) ''POST'' ''/api/v1/auth/combined''
       (json_object_text (VerifyCombined_members cv hf c username password code))"

definition relay_exchange ::
    "utf8_codec \<Rightarrow> network \<Rightarrow> HttpApiClient \<Rightarrow> wstr \<Rightarrow> wstr \<Rightarrow> wstr \<Rightarrow> exchange" where
  "relay_exchange cv net c username password code =
     SendRelayRequest net (c\<lparr>m_lastRetryAfterSec := 0\<rparr>) ''POST'' ''/api/v1/auth/verify''
       (json_object_text (relay_members cv username password code))"

text \<open>\<open>None\<close> is the accepting answer, \<open>Some e\<close> the error of a refusal.\<close>

definition VerifyCombined ::
    "utf8_codec \<Rightarrow> host_facts \<Rightarrow> network \<Rightarrow> HttpApiClient \<Rightarrow> wstr \<Rightarrow> wstr \<Rightarrow> wstr
     \<Rightarrow> HttpApiClient \<times> string option \<times> http_request list" where
  "VerifyCombined cv hf net c username password code =
     (let c0 = c\<lparr>m_lastRetryAfterSec := 0\<rparr>;
          x = combined_exchange cv hf net c username password code;
          core_verdict = (\<lambda>sent.
            if \<not> x_ok x then (c0, Some ''network_error'', sent)
            else (c0\<lparr>m_lastRetryAfterSec := ExtractJsonInt (x_response x) ''retry_after'' 0\<rparr>,
                  Some (server_error x), sent))
      in if x_ok x \<and> accepts x then (c0, None, x_sent x)
         else if (\<not> x_ok x \<or> x_status x \<ge> 500) \<and> m_relayHost c \<noteq> []
         then (let r = relay_exchange cv net c username password code
               in if x_ok r
                  then (if accepts r then (c0, None, x_sent x @ x_sent r)
                        else (c0, Some (server_error r), x_sent x @ x_sent r))
                  else core_verdict (x_sent x @ x_sent r))
         else core_verdict (x_sent x))"

definition webauthn_exchange :: "utf8_codec \<Rightarrow> host_facts \<Rightarrow> network \<Rightarrow> HttpApiClient \<Rightarrow> wstr \<Rightarrow> wstr \<Rightarrow> exchange" where
  "webauthn_exchange cv hf net c username password =
     SendRequest net (c\<lparr>m_lastRetryAfterSec := 0\<rparr>) ''POST'' ''/api/v1/auth/webauthn/begin''
       (json_object_text (StartPush_members cv hf c username password))"

record WebAuthnBeginResult =
  wb_success :: bool
  wb_handle :: string
  wb_challengeId :: string
  wb_rawOptionsJson :: string
  wb_error :: string

definition WebAuthnBegin ::
    "utf8_codec \<Rightarrow> host_facts \<Rightarrow> network \<Rightarrow> HttpApiClient \<Rightarrow> wstr \<Rightarrow> wstr
     \<Rightarrow> HttpApiClient \<times> WebAuthnBeginResult \<times> http_request list" where
  "WebAuthnBegin cv hf net c username password =
     (let c0 = c\<lparr>m_lastRetryAfterSec := 0\<rparr>;
          x = webauthn_exchange cv hf net c username password;
          res = \<lparr>wb_success = False, wb_handle = [], wb_challengeId = [],
                 wb_rawOptionsJson = [], wb_error = []\<rparr>;
          h = ExtractJsonString (x_response x) ''handle''
      in if \<not> x_ok x then (c0, res\<lparr>wb_error := ''network_error''\<rparr>, x_sent x)
         else if x_status x = 200
         then (c0, res\<lparr>wb_handle := h,
                       wb_challengeId := ExtractJsonString (x_response x) ''challenge_id'',
                       wb_rawOptionsJson := x_response x,
                       wb_success := (h \<noteq> [])\<rparr>, x_sent x)
         else (c0\<lparr>m_lastRetryAfterSec := ExtractJsonInt (x_response x) ''retry_after'' 0\<rparr>,
               res\<lparr>wb_error := server_error x\<rparr>, x_sent x))"

text \<open>\<open>finish_path\<close> is the path with the handle; the model keeps its UTF-8 text.\<close>

definition WebAuthnFinish ::
    "network \<Rightarrow> HttpApiClient \<Rightarrow> string \<Rightarrow> string \<Rightarrow> HttpApiClient \<times> string option \<times> http_request list" where
  "WebAuthnFinish net c handle assertionJson =
     (let c0 = c\<lparr>m_lastRetryAfterSec := 0\<rparr>;
          x = SendRequest net c0 ''POST'' (''/api/v1/auth/webauthn/finish?handle='' @ handle) assertionJson
      in if \<not> x_ok x then (c0, Some ''network_error'', x_sent x)
         else if x_status x = 200 then (c0, None, x_sent x)
         else (c0\<lparr>m_lastRetryAfterSec := ExtractJsonInt (x_response x) ''retry_after'' 0\<rparr>,
               Some (server_error x), x_sent x))"

subsection \<open>Which requests leave the machine\<close>

text \<open>The invariant of the client: the core server is reached in clear only under AllowHttp, the
  relay never.\<close>

definition client_wf :: "HttpApiClient \<Rightarrow> bool" where
  "client_wf c \<longleftrightarrow>
     (m_host c \<noteq> [] \<longrightarrow> m_isHttps c \<or> m_allowHttp c) \<and> (m_relayHost c \<noteq> [] \<longrightarrow> m_relayIsHttps c)"

definition safe_request :: "HttpApiClient \<Rightarrow> http_request \<Rightarrow> bool" where
  "safe_request c rq \<longleftrightarrow>
     (rq_secure rq \<or> m_allowHttp c \<and> rq_host rq = m_host c) \<and>
     (rq_securityFlags rq = 0 \<or>
      rq_securityFlags rq = SECURITY_FLAG_IGNORE_UNKNOWN_CA \<and> m_allowSelfSigned c \<and> rq_secure rq)"

lemma ParseUrl_wf: "client_wf c \<Longrightarrow> client_wf (fst (ParseUrl crack url c))"
  by (auto simp: ParseUrl_def client_wf_def split: option.splits)

lemma ParseRelayUrl_wf: "client_wf c \<Longrightarrow> client_wf (fst (ParseRelayUrl crack url c))"
  by (auto simp: ParseRelayUrl_def client_wf_def split: option.splits)

lemma client_wf_frame [frame_facts, simp]:
  "client_wf (c\<lparr>m_lastRetryAfterSec := n\<rparr>) = client_wf c"
  "client_wf (c\<lparr>m_hSession := b, m_receiveTimeoutMs := k\<rparr>) = client_wf c"
  "safe_request (c\<lparr>m_lastRetryAfterSec := n\<rparr>) rq = safe_request c rq"
  by (simp_all add: client_wf_def safe_request_def)

lemma HttpApiClient_new_wf:
  "client_wf (HttpApiClient_new crack opened url selfSigned tmo relayUrl http base)"
  unfolding HttpApiClient_new_def Let_def
  by (auto intro!: ParseUrl_wf ParseRelayUrl_wf) (simp_all add: client_wf_def)

subsection \<open>The interface both transports share\<close>

text \<open>
  The core server and the branch relay are reached by two routines with one contract: at most
  one request, to the routine's own host, with the caller's path and body, marked secure as the
  parsed URL was, and relaxed only about the certificate's issuer and only under
  AllowSelfSigned; a failed exchange has no status and no response.
\<close>

locale transport_channel =
  fixes send :: "network \<Rightarrow> HttpApiClient \<Rightarrow> string \<Rightarrow> string \<Rightarrow> string \<Rightarrow> exchange"
    and host :: "HttpApiClient \<Rightarrow> wstr"
    and secure :: "HttpApiClient \<Rightarrow> bool"
  assumes sent_once: "x_sent (send net c v p b) = [] \<or> (\<exists>rq. x_sent (send net c v p b) = [rq])"
    and sent_shape: "rq \<in> set (x_sent (send net c v p b)) \<Longrightarrow>
      host c \<noteq> [] \<and> rq_host rq = host c \<and> rq_secure rq = secure c \<and> rq_path rq = p \<and> rq_body rq = b
      \<and> rq_securityFlags rq = (if secure c \<and> m_allowSelfSigned c then SECURITY_FLAG_IGNORE_UNKNOWN_CA else 0)"
    and ok_sent: "x_ok (send net c v p b) \<Longrightarrow>
      \<exists>rq. x_sent (send net c v p b) = [rq] \<and> t_send (net rq) \<and> t_receive (net rq)
        \<and> x_status (send net c v p b) = status_of (net rq)
        \<and> x_response (send net c v p b) = read_body (t_chunks (net rq)) []"
    and fail_empty: "\<not> x_ok (send net c v p b) \<Longrightarrow>
      x_status (send net c v p b) = 0 \<and> x_response (send net c v p b) = []"
begin

lemma no_host: "host c = [] \<Longrightarrow> \<not> x_ok (send net c v p b) \<and> x_sent (send net c v p b) = []"
proof -
  assume h: "host c = []"
  have "x_sent (send net c v p b) = []"
    using sent_once [of net c v p b] sent_shape [of _ net c v p b] h by auto
  then show ?thesis using ok_sent [of net c v p b] by auto
qed

lemma safe:
  assumes "host c \<noteq> [] \<longrightarrow> secure c \<or> m_allowHttp c \<and> host c = m_host c"
    and "rq \<in> set (x_sent (send net c v p b))"
  shows "safe_request c rq"
  using sent_shape [OF assms(2)] assms(1) by (auto simp: safe_request_def)

lemma sent_body: "rq \<in> set (x_sent (send net c v p b)) \<Longrightarrow> rq_body rq = b"
  using sent_shape by blast

lemma sent_host: "x_sent (send net c v p b) = [rq] \<Longrightarrow> rq_host rq = host c"
  using sent_shape [of rq net c v p b] by simp

lemma accepts_ok: "accepts (send net c v p b) \<Longrightarrow> x_ok (send net c v p b)"
  using fail_empty by (fastforce simp: accepts_def)

lemma accepts_answer:
  assumes "accepts (send net c v p b)"
  shows "\<exists>rq. x_sent (send net c v p b) = [rq] \<and> rq_host rq = host c \<and> rq_body rq = b
    \<and> t_send (net rq) \<and> t_receive (net rq) \<and> status_of (net rq) = 200
    \<and> ExtractJsonBool (read_body (t_chunks (net rq)) []) ''ok''"
  using ok_sent [OF accepts_ok [OF assms]] sent_shape [of _ net c v p b] assms
  by (fastforce simp: accepts_def)

end

interpretation core: transport_channel SendRequest m_host m_isHttps
proof
  fix net c v p b rq
  show "x_sent (SendRequest net c v p b) = [] \<or> (\<exists>rq. x_sent (SendRequest net c v p b) = [rq])"
    unfolding SendRequest_def Let_def using run_request_facts(1) by (auto split: if_split)
  show "rq \<in> set (x_sent (SendRequest net c v p b)) \<Longrightarrow>
      m_host c \<noteq> [] \<and> rq_host rq = m_host c \<and> rq_secure rq = m_isHttps c \<and> rq_path rq = p
      \<and> rq_body rq = b \<and> rq_securityFlags rq = (if m_isHttps c \<and> m_allowSelfSigned c then SECURITY_FLAG_IGNORE_UNKNOWN_CA else 0)"
    unfolding SendRequest_def Let_def
    by (auto split: if_splits dest: in_run_request)
  show "x_ok (SendRequest net c v p b) \<Longrightarrow>
      \<exists>rq. x_sent (SendRequest net c v p b) = [rq] \<and> t_send (net rq) \<and> t_receive (net rq)
        \<and> x_status (SendRequest net c v p b) = status_of (net rq)
        \<and> x_response (SendRequest net c v p b) = read_body (t_chunks (net rq)) []"
    unfolding SendRequest_def Let_def using run_request_facts(2) by (auto split: if_splits)
  show "\<not> x_ok (SendRequest net c v p b) \<Longrightarrow>
      x_status (SendRequest net c v p b) = 0 \<and> x_response (SendRequest net c v p b) = []"
    unfolding SendRequest_def Let_def using run_request_facts(3) by (auto split: if_splits)
qed

interpretation relay: transport_channel SendRelayRequest m_relayHost m_relayIsHttps
proof
  fix net c v p b rq
  show "x_sent (SendRelayRequest net c v p b) = [] \<or> (\<exists>rq. x_sent (SendRelayRequest net c v p b) = [rq])"
    unfolding SendRelayRequest_def Let_def using run_request_facts(1) by (auto split: if_split)
  show "rq \<in> set (x_sent (SendRelayRequest net c v p b)) \<Longrightarrow>
      m_relayHost c \<noteq> [] \<and> rq_host rq = m_relayHost c \<and> rq_secure rq = m_relayIsHttps c \<and> rq_path rq = p
      \<and> rq_body rq = b \<and> rq_securityFlags rq = (if m_relayIsHttps c \<and> m_allowSelfSigned c then SECURITY_FLAG_IGNORE_UNKNOWN_CA else 0)"
    unfolding SendRelayRequest_def Let_def
    by (auto split: if_splits dest: in_run_request)
  show "x_ok (SendRelayRequest net c v p b) \<Longrightarrow>
      \<exists>rq. x_sent (SendRelayRequest net c v p b) = [rq] \<and> t_send (net rq) \<and> t_receive (net rq)
        \<and> x_status (SendRelayRequest net c v p b) = status_of (net rq)
        \<and> x_response (SendRelayRequest net c v p b) = read_body (t_chunks (net rq)) []"
    unfolding SendRelayRequest_def Let_def using run_request_facts(2) by (auto split: if_splits)
  show "\<not> x_ok (SendRelayRequest net c v p b) \<Longrightarrow>
      x_status (SendRelayRequest net c v p b) = 0 \<and> x_response (SendRelayRequest net c v p b) = []"
    unfolding SendRelayRequest_def Let_def using run_request_facts(3) by (auto split: if_splits)
qed

lemma core_safe:
  "client_wf c \<Longrightarrow> rq \<in> set (x_sent (SendRequest net c v p b)) \<Longrightarrow> safe_request c rq"
  by (rule core.safe) (auto simp: client_wf_def)

lemma relay_safe:
  "client_wf c \<Longrightarrow> rq \<in> set (x_sent (SendRelayRequest net c v p b)) \<Longrightarrow> safe_request c rq"
  by (rule relay.safe) (auto simp: client_wf_def)

subsection \<open>The body that is read\<close>

text \<open>The reader joins the data read before the first refusal or empty answer.\<close>

definition body_turns :: "chunk list \<Rightarrow> chunk list" where
  "body_turns cs = takeWhile (\<lambda>ch. fst ch \<noteq> None \<and> fst ch \<noteq> Some 0) cs"

definition turn_data :: "chunk \<Rightarrow> string" where
  "turn_data ch = (case ch of (Some n, Some d) \<Rightarrow> take n d | _ \<Rightarrow> [])"

lemma read_body_turns: "read_body cs acc = acc @ concat (map turn_data (body_turns cs))"
  by (induction cs acc rule: read_body.induct) (simp_all add: body_turns_def turn_data_def)

subsection \<open>Outcomes\<close>

lemmas exchange_defs = push_exchange_def combined_exchange_def relay_exchange_def webauthn_exchange_def

lemma exchange_safe:
  assumes "client_wf c"
  shows "rq \<in> set (x_sent (push_exchange cv hf net c u p)) \<Longrightarrow> safe_request c rq"
    "rq \<in> set (x_sent (webauthn_exchange cv hf net c u p)) \<Longrightarrow> safe_request c rq"
    "rq \<in> set (x_sent (combined_exchange cv hf net c u p code)) \<Longrightarrow> safe_request c rq"
    "rq \<in> set (x_sent (relay_exchange cv net c u p code)) \<Longrightarrow> safe_request c rq"
  using core_safe [of "c\<lparr>m_lastRetryAfterSec := 0\<rparr>"] relay_safe [of "c\<lparr>m_lastRetryAfterSec := 0\<rparr>"] assms
  unfolding exchange_defs by simp_all

lemma StartPush_sent: "snd (snd (StartPush cv hf net c u p)) = x_sent (push_exchange cv hf net c u p)"
  by (simp add: StartPush_def Let_def)

lemma WebAuthnBegin_sent:
  "snd (snd (WebAuthnBegin cv hf net c u p)) = x_sent (webauthn_exchange cv hf net c u p)"
  by (simp add: WebAuthnBegin_def Let_def)

lemma VerifyCombined_sent:
  "snd (snd (VerifyCombined cv hf net c u p code)) =
     x_sent (combined_exchange cv hf net c u p code) @
       (let x = combined_exchange cv hf net c u p code
        in if \<not> (x_ok x \<and> accepts x) \<and> (\<not> x_ok x \<or> x_status x \<ge> 500) \<and> m_relayHost c \<noteq> []
           then x_sent (relay_exchange cv net c u p code) else [])"
  by (simp add: VerifyCombined_def Let_def)

lemma safe_StartPush:
  "client_wf c \<Longrightarrow> rq \<in> set (snd (snd (StartPush cv hf net c u p))) \<Longrightarrow> safe_request c rq"
  using exchange_safe(1) by (simp add: StartPush_sent)

lemma safe_PollStatus:
  "client_wf c \<Longrightarrow> rq \<in> set (snd (PollStatus cv net c cid)) \<Longrightarrow> safe_request c rq"
  using core_safe by (auto simp: PollStatus_def Let_def split: if_splits)

lemma safe_WebAuthnBegin:
  "client_wf c \<Longrightarrow> rq \<in> set (snd (snd (WebAuthnBegin cv hf net c u p))) \<Longrightarrow> safe_request c rq"
  using exchange_safe(2) by (simp add: WebAuthnBegin_sent)

lemma safe_WebAuthnFinish:
  "client_wf c \<Longrightarrow> rq \<in> set (snd (snd (WebAuthnFinish net c h a))) \<Longrightarrow> safe_request c rq"
  using core_safe [of "c\<lparr>m_lastRetryAfterSec := 0\<rparr>"]
  by (auto simp: WebAuthnFinish_def Let_def split: if_splits)

lemma safe_VerifyCombined:
  "client_wf c \<Longrightarrow> rq \<in> set (snd (snd (VerifyCombined cv hf net c u p code))) \<Longrightarrow> safe_request c rq"
  using exchange_safe(3,4) by (auto simp: VerifyCombined_sent Let_def split: if_splits)

lemmas safe_calls = safe_StartPush safe_PollStatus safe_VerifyCombined safe_WebAuthnBegin
  safe_WebAuthnFinish

text \<open>C5. Whatever the URLs, the registry and the network, every request of a freshly built
  client is encrypted, except to the core server under AllowHttp; and the security flags of a
  request are none, or, under AllowSelfSigned and over an encrypted connection, the one flag for
  an unknown issuer, so that no other certificate error is ever ignored.\<close>

theorem credentials_leave_encrypted:
  assumes "c = HttpApiClient_new crack opened url selfSigned tmo relayUrl http base"
    and "rq \<in> set (snd (snd (StartPush cv hf net c u p)))
             \<union> set (snd (PollStatus cv net c cid))
             \<union> set (snd (snd (VerifyCombined cv hf net c u p code)))
             \<union> set (snd (snd (WebAuthnBegin cv hf net c u p)))
             \<union> set (snd (snd (WebAuthnFinish net c h a)))"
  shows "(rq_secure rq \<or> http \<and> rq_host rq = m_host c) \<and>
         (rq_securityFlags rq = 0 \<or>
          rq_securityFlags rq = SECURITY_FLAG_IGNORE_UNKNOWN_CA \<and> selfSigned \<and> rq_secure rq)"
proof -
  have wf: "client_wf c" unfolding assms(1) by (rule HttpApiClient_new_wf)
  have f: "m_allowHttp c = http" "m_allowSelfSigned c = selfSigned"
    unfolding assms(1) HttpApiClient_new_def Let_def
    by (simp_all add: ParseUrl_def ParseRelayUrl_def split: option.splits)
  have "safe_request c rq" using assms(2) by (auto dest: safe_calls [OF wf])
  then show ?thesis unfolding safe_request_def f .
qed

text \<open>A network for the witnesses: the core host is down, the relay answers.\<close>

definition demo_codec :: utf8_codec where
  "demo_codec = \<lparr>to_utf8 = map (\<lambda>c. char_of (unat c)), from_utf8 = map of_char\<rparr>"

definition demo_host :: host_facts where
  "demo_host = \<lparr>hf_computer = Some (wide ''PC''), hf_client_addr = None, hf_client_name = None,
                hf_adapters = (AdaptersOverflow, Adapters
                  [\<lparr>ad_up = True, ad_loopback = True, ad_unicast = [Some (127, 0, 0, 1)]\<rparr>,
                   \<lparr>ad_up = True, ad_loopback = False, ad_unicast = [None, Some (10, 0, 0, 7)]\<rparr>])\<rparr>"

definition demo_answer :: "u32 \<Rightarrow> string \<Rightarrow> transport" where
  "demo_answer st body = \<lparr>t_connect = True, t_open = True, t_send = True, t_receive = True,
     t_status = Some st, t_chunks = [(Some (length body), Some body), (Some 0, None)]\<rparr>"

definition demo_down :: transport where
  "demo_down = \<lparr>t_connect = True, t_open = True, t_send = False, t_receive = False,
     t_status = None, t_chunks = []\<rparr>"

definition ok_response :: string where
  "ok_response = CHR ''{'' # quote # ''ok'' @ quote # '': true}''"

definition demo_net :: network where
  "demo_net rq = (if rq_host rq = wide ''tfa'' then demo_down else demo_answer 200 ok_response)"

definition demo_client :: HttpApiClient where
  "demo_client = HttpApiClient_new demo_crack True (wide ''https://tfa'') False 500
     (wide ''https://relay'') False []"

lemma demo_client_fields [simp]:
  "m_hSession demo_client" "m_host demo_client = wide ''tfa''" "m_relayHost demo_client = wide ''relay''"
  "m_isHttps demo_client" "m_relayIsHttps demo_client" "wide ''tfa'' \<noteq> []" "wide ''relay'' \<noteq> []"
  "wide ''relay'' \<noteq> wide ''tfa''"
  by (simp_all add: demo_client_def HttpApiClient_new_def ParseUrl_def ParseRelayUrl_def
      demo_crack_def wide_def Let_def)

lemma run_demo_answer [simp]:
  "run_request (demo_answer st body) rq =
     \<lparr>x_ok = True, x_status = sint st, x_response = body, x_sent = [rq]\<rparr>"
  by (cases body) (simp_all add: run_request_def demo_answer_def status_of_def)

lemma run_demo_down [simp]:
  "run_request demo_down rq = \<lparr>x_ok = False, x_status = 0, x_response = [], x_sent = [rq]\<rparr>"
  by (simp add: run_request_def demo_down_def)

lemma accepts_ok_response [simp]: "ExtractJsonBool ok_response ''ok''"
  by code_simp

lemma demo_accept:
  "fst (snd (VerifyCombined cv hf demo_net demo_client u p code)) = None"
  by (simp add: VerifyCombined_def combined_exchange_def relay_exchange_def SendRequest_def
      SendRelayRequest_def demo_net_def accepts_def Let_def)

theorem credentials_leave_encrypted_witness:
  "let rq = hd (snd (PollStatus demo_codec demo_net demo_client (wide ''c'')))
   in rq_host rq = wide ''tfa'' \<and>
      (rq_secure rq \<or> False \<and> rq_host rq = m_host demo_client) \<and>
      (rq_securityFlags rq = 0 \<or> rq_securityFlags rq = SECURITY_FLAG_IGNORE_UNKNOWN_CA \<and> False \<and> rq_secure rq)"
proof -
  define sent where "sent = snd (PollStatus demo_codec demo_net demo_client (wide ''c''))"
  have "map rq_host sent = [wide ''tfa'']" unfolding sent_def by code_simp
  then have m: "hd sent \<in> set sent" and h: "rq_host (hd sent) = wide ''tfa''" by (cases sent; simp)+
  show ?thesis
    using credentials_leave_encrypted
        [OF demo_client_def UnI1 [OF UnI1 [OF UnI1 [OF UnI2 [OF m [unfolded sent_def]]]]]] h
    unfolding Let_def sent_def by (rule conjI [rotated])
qed

lemma plain_members [simp]:
  "list_all (plain_key \<circ> fst) (StartPush_members cv hf c u p)"
  "list_all (plain_key \<circ> fst) (VerifyCombined_members cv hf c u p code)"
  "list_all (plain_key \<circ> fst) (relay_members cv u p code)"
  by (simp_all add: StartPush_members_def VerifyCombined_members_def relay_members_def
      endpoint_members_def plain_key_def)

lemma members_nonempty [simp]:
  "StartPush_members cv hf c u p \<noteq> []" "VerifyCombined_members cv hf c u p code \<noteq> []"
  "relay_members cv u p code \<noteq> []"
  by (simp_all add: StartPush_members_def VerifyCombined_members_def relay_members_def)

lemma exchange_reads_back:
  "list_all (\<lambda>rq. read_object (rq_body rq) = Some (StartPush_members cv hf c u p))
     (x_sent (push_exchange cv hf net c u p))"
  "list_all (\<lambda>rq. read_object (rq_body rq) = Some (StartPush_members cv hf c u p))
     (x_sent (webauthn_exchange cv hf net c u p))"
  "list_all (\<lambda>rq. read_object (rq_body rq) = Some (VerifyCombined_members cv hf c u p code))
     (x_sent (combined_exchange cv hf net c u p code))"
  "list_all (\<lambda>rq. read_object (rq_body rq) = Some (relay_members cv u p code))
     (x_sent (relay_exchange cv net c u p code))"
  unfolding exchange_defs list_all_iff
  using core.sent_body relay.sent_body by (simp_all add: read_object_json_object_text)

text \<open>C16. No field injection: a JSON reader of any push, passkey or code request gets exactly the
  members the client meant, with the user's name, password and code unchanged, whatever
  characters they hold.\<close>

theorem request_bodies_read_back:
  "list_all (\<lambda>rq. read_object (rq_body rq) = Some (StartPush_members cv hf c u p))
     (snd (snd (StartPush cv hf net c u p)) @ snd (snd (WebAuthnBegin cv hf net c u p)))
   \<and> list_all (\<lambda>rq. read_object (rq_body rq)
         \<in> {Some (VerifyCombined_members cv hf c u p code), Some (relay_members cv u p code)})
       (snd (snd (VerifyCombined cv hf net c u p code)))"
  using exchange_reads_back(1,2) [of cv hf c u p net] exchange_reads_back(3) [of cv hf c u p code net]
    exchange_reads_back(4) [of cv u p code net c]
  by (auto simp: StartPush_sent WebAuthnBegin_sent VerifyCombined_sent Let_def list_all_iff)

text \<open>C3. An accepted code was accepted by a server: an answer received over the network with the
  status 200 whose \<open>ok\<close> member reads true.  It is the core server's, to the one request made; or the
  relay's, to the last request, which is made only when the core server gave no answer or
  answered with a status of 500 or above.\<close>

theorem VerifyCombined_accept:
  assumes "VerifyCombined cv hf net c u p code = (c', None, sent)"
  defines "core_x \<equiv> combined_exchange cv hf net c u p code"
  shows "\<exists>rq \<in> set sent. t_send (net rq) \<and> t_receive (net rq) \<and> status_of (net rq) = 200
           \<and> ExtractJsonBool (read_body (t_chunks (net rq)) []) ''ok''
           \<and> (rq_host rq = m_host c \<and> sent = [rq]
              \<or> rq_host rq = m_relayHost c \<and> sent = x_sent core_x @ [rq]
                \<and> read_object (rq_body rq) = Some (relay_members cv u p code)
                \<and> (\<not> x_ok core_x \<or> 500 \<le> x_status core_x))"
proof -
  define r where "r = relay_exchange cv net c u p code"
  from assms(1) have "accepts core_x \<and> sent = x_sent core_x
      \<or> accepts r \<and> sent = x_sent core_x @ x_sent r \<and> (\<not> x_ok core_x \<or> 500 \<le> x_status core_x)"
    unfolding VerifyCombined_def Let_def core_x_def [symmetric] r_def [symmetric] by (auto split: if_splits)
  then show ?thesis
  proof
    assume a: "accepts core_x \<and> sent = x_sent core_x"
    then obtain rq where "x_sent core_x = [rq]" "rq_host rq = m_host c" "t_send (net rq)" "t_receive (net rq)"
      "status_of (net rq) = 200" "ExtractJsonBool (read_body (t_chunks (net rq)) []) ''ok''"
      unfolding core_x_def combined_exchange_def using core.accepts_answer by force
    with a show ?thesis by auto
  next
    assume a: "accepts r \<and> sent = x_sent core_x @ x_sent r \<and> (\<not> x_ok core_x \<or> 500 \<le> x_status core_x)"
    then obtain rq where "x_sent r = [rq]" "rq_host rq = m_relayHost c"
      "rq_body rq = json_object_text (relay_members cv u p code)" "t_send (net rq)" "t_receive (net rq)"
      "status_of (net rq) = 200" "ExtractJsonBool (read_body (t_chunks (net rq)) []) ''ok''"
      unfolding r_def relay_exchange_def using relay.accepts_answer by force
    with a show ?thesis by (auto simp: read_object_json_object_text)
  qed
qed

theorem VerifyCombined_accept_witness:
  "let sent = snd (snd (VerifyCombined demo_codec demo_host demo_net demo_client
                        (wide ''bob'') (wide ''pw'') (wide ''123456'')))
   in map rq_host sent = [wide ''tfa'', wide ''relay''] \<and> status_of (demo_net (last sent)) = 200"
proof -
  let ?x = "combined_exchange demo_codec demo_host demo_net demo_client (wide ''bob'') (wide ''pw'') (wide ''123456'')"
  define sent where "sent = snd (snd (VerifyCombined demo_codec demo_host demo_net demo_client
                        (wide ''bob'') (wide ''pw'') (wide ''123456'')))"
  have h: "map rq_host sent = [wide ''tfa'', wide ''relay'']" unfolding sent_def by code_simp
  have n: "length sent = 2" using arg_cong [OF h, of length] by simp
  from VerifyCombined_accept [OF fst_snd_tuple [OF demo_accept], of demo_codec demo_host "wide ''bob''" "wide ''pw''" "wide ''123456''"]
  have "status_of (demo_net (last sent)) = 200" using n unfolding sent_def by auto
  with h show ?thesis by (simp add: sent_def Let_def)
qed

text \<open>The relay sees the credentials only when the core server gave no answer or failed with
  5xx: an answer below 500, and in particular a refusal, is final.\<close>

lemma relay_only_when_core_down:
  assumes "x_ok (combined_exchange cv hf net c u p code)"
    and "x_status (combined_exchange cv hf net c u p code) < 500"
    and "VerifyCombined cv hf net c u p code = (c', res, sent)"
  shows "sent = x_sent (combined_exchange cv hf net c u p code) \<and> length sent = 1
    \<and> map rq_host sent = [m_host c]
    \<and> (res = None \<longleftrightarrow> accepts (combined_exchange cv hf net c u p code))"
proof -
  define x where "x = combined_exchange cv hf net c u p code"
  have x: "x_ok x" "x_status x < 500" using assms(1,2) by (simp_all add: x_def)
  obtain rq where rq: "x_sent x = [rq]"
    using assms(1) core.ok_sent unfolding x_def combined_exchange_def by blast
  then have h: "rq_host rq = m_host c"
    unfolding x_def combined_exchange_def by (auto dest: core.sent_host)
  have "sent = snd (snd (VerifyCombined cv hf net c u p code))" using assms(3) by simp
  then have s: "sent = x_sent x" using x by (simp add: VerifyCombined_sent Let_def flip: x_def)
  have "res = fst (snd (VerifyCombined cv hf net c u p code))" using assms(3) by simp
  then have "res = None \<longleftrightarrow> accepts x"
    using x by (simp add: VerifyCombined_def Let_def flip: x_def)
  with s rq h show ?thesis unfolding x_def by simp
qed

definition refusing_net :: network where
  "refusing_net rq = demo_answer 401 (CHR ''{'' # quote # ''error'' @ quote # CHR '':'' # quote
     # ''network_error'' @ [quote, CHR ''}''])"

lemma refusing_exchange:
  "x_ok (combined_exchange cv hf refusing_net demo_client u p code)"
  "x_status (combined_exchange cv hf refusing_net demo_client u p code) = 401"
  by (simp_all add: combined_exchange_def SendRequest_def refusing_net_def)

lemma refusing_error:
  "ExtractJsonString (CHR ''{'' # quote # ''error'' @ quote # CHR '':'' # quote
     # ''network_error'' @ [quote, CHR ''}'']) ''error'' = ''network_error''"
  by code_simp

lemma refusing_push:
  "x_ok (push_exchange cv hf refusing_net demo_client u p)"
  "fst (snd (StartPush cv hf refusing_net demo_client u p)) = Inl ''network_error''"
  using refusing_error
  by (simp_all add: StartPush_def push_exchange_def SendRequest_def refusing_net_def server_error_def)

lemma relay_only_when_core_down_example:
  "let x = combined_exchange demo_codec demo_host refusing_net demo_client (wide ''bob'') (wide ''pw'') (wide ''1'');
       r = VerifyCombined demo_codec demo_host refusing_net demo_client (wide ''bob'') (wide ''pw'') (wide ''1'')
   in snd (snd r) = x_sent x \<and> length (snd (snd r)) = 1
      \<and> map rq_host (snd (snd r)) = [m_host demo_client] \<and> (fst (snd r) = None \<longleftrightarrow> accepts x)"
  unfolding Let_def
  by (rule relay_only_when_core_down [OF _ _ fst_snd_tuple [OF refl]]) (simp_all add: refusing_exchange)

text \<open>\<open>network_error\<close>, the code on which the logon may fail open, is reported when the
  exchange failed, or when the server itself sent that word as its error code.\<close>

lemma network_error_origin:
  assumes "StartPush cv hf net c u p = (c', Inl ''network_error'', sent)"
  shows "\<not> x_ok (push_exchange cv hf net c u p)
    \<or> ExtractJsonString (x_response (push_exchange cv hf net c u p)) ''error'' = ''network_error''"
  using assms unfolding StartPush_def Let_def server_error_def by (auto split: if_splits)

text \<open>The witness is the second case: a 401 answer from the server.\<close>

lemma network_error_origin_example:
  "x_ok (push_exchange demo_codec demo_host refusing_net demo_client (wide ''bob'') (wide ''pw''))
   \<and> ExtractJsonString (x_response (push_exchange demo_codec demo_host refusing_net demo_client
          (wide ''bob'') (wide ''pw''))) ''error'' = ''network_error''"
  using network_error_origin [OF fst_snd_tuple [OF refusing_push(2)]] refusing_push(1) by blast

end
