(* ===== verification/Credential.thy ===== *)
theory Credential
  imports HttpApi
begin

text \<open>
  The tile of \<open>credential_provider/LigamentCredential.cpp\<close> as LogonUI sees it: the object's
  fields, its initialisation, the state and text of each field, the edits of the user, the mode
  switches, and the start, stop and join of the worker thread.  Everything here runs on the
  LogonUI thread; \<open>CredentialWorker\<close> holds the worker's side and \<open>CredentialSystem\<close>
  interleaves the two.

  Texts shown to the user are constructors named after their meaning, with the values the code
  inserts.  \<open>ui_out\<close> records the calls made on LogonUI's event interfaces; a bitmap is its list
  of pixels and \<open>None\<close> a null handle.  What the tile gets from GDI, COM and the OS is a
  \<open>ui_env\<close>.  \<open>JoinPollThread\<close> appears here by its effect once the thread has ended.
\<close>

subsection \<open>Texts\<close>

datatype error_text =
    ErrUnavailable | ErrBadCredentials | ErrLocked | ErrTooManyRetry int | ErrTooMany
  | ErrCooldownRetry int | ErrCooldown | ErrNoChannel | ErrNoCredentials | ErrMethodDisabled
  | ErrInternal | ErrHttp string | ErrEmpty | ErrRaw string

datatype status_text =
    StEmpty | StConfirmSecond | StElevOtp | StElevConfirm | StPasskeyEnterForQr | StOtpSix
  | StPushWelcome | StPressToPush | StOtpOnce | StPasskeyGenerating | StPasskeyEnter | StScanQr
  | StPasskeyArrow | StConfirmNumber | StEnterForPush | StOtpSixApp | StPasskeyFirst
  | StPasskeyAlready | StPasskeyStartFailed | StGateApproved | StNumberPrompt | StPushSent
  | StPasskeyError error_text | StCodeApproved | StRejected error_text | StApproved
  | StPasskeyDenied | StDenied | StPasskeyExpired | StExpired | StPasskeyTimeout | StTimeout
  | StSendingPush | StCheckingCode | StEnterCredentials | StCodeStartFailed | StPushStartFailed
  | StLoginRejected error_text | StPushFailed error_text | StPasskeyExpiredClick | StInternalError

text \<open>\<open>DescribeServerError\<close>: \<open>rfind("status_", 0) == 0\<close> is a prefix test.\<close>

definition DescribeServerError :: "string \<Rightarrow> int \<Rightarrow> error_text" where
  "DescribeServerError err retryAfterSec =
     (if err = ''network_error'' then ErrUnavailable
      else if err = ''bad_credentials'' \<or> err = ''status_401'' then ErrBadCredentials
      else if err = ''locked'' \<or> err = ''status_423'' then ErrLocked
      else if err = ''rate_limited'' \<or> err = ''status_429''
      then (if 0 < retryAfterSec then ErrTooManyRetry retryAfterSec else ErrTooMany)
      else if err = ''cooldown''
      then (if 0 < retryAfterSec then ErrCooldownRetry retryAfterSec else ErrCooldown)
      else if err = ''no_channel'' then ErrNoChannel
      else if err = ''no_credentials'' then ErrNoCredentials
      else if err = ''webauthn_disabled'' \<or> err = ''status_503'' then ErrMethodDisabled
      else if err = ''internal'' \<or> err = ''status_500'' then ErrInternal
      else if prefix ''status_'' err then ErrHttp (drop 7 err)
      else if err = [] then ErrEmpty
      else ErrRaw err)"

subsection \<open>The object\<close>

text \<open>\<open>FID_NUM_FIELDS\<close> stands for every id past the last field.\<close>

datatype FIELD_ID =
    FID_LOGO | FID_LARGE_TEXT | FID_USERNAME | FID_PASSWORD | FID_SUBMIT | FID_STATUS_TEXT
  | FID_NUMBER_MATCH | FID_FIDO2_BTN | FID_OTP_CODE | FID_SWITCH_FACTOR_BTN | FID_NUM_FIELDS

datatype AUTH_FACTOR_MODE = MODE_FIDO2 | MODE_PUSH | MODE_OTP

datatype usage_scenario =
    CPUS_INVALID | CPUS_LOGON | CPUS_UNLOCK_WORKSTATION | CPUS_CHANGE_PASSWORD | CPUS_CREDUI
  | CPUS_PLAP | CPUS_CRED_PICKER

datatype WorkerJob = JobNone | JobStartPush | JobWebAuthnBegin | JobVerifyOtp

record WorkerState =
  w_stop :: bool
  w_beginDone :: bool
  w_beginOk :: bool
  w_beginError :: string
  w_retryAfterSec :: int
  w_numberMatch :: wstr
  w_qrUrl :: wstr
  w_done :: bool
  w_status :: wstr

definition WorkerState_init :: WorkerState where
  "WorkerState_init = \<lparr>w_stop = False, w_beginDone = False, w_beginOk = False, w_beginError = [],
     w_retryAfterSec = 0, w_numberMatch = [], w_qrUrl = [], w_done = False, w_status = []\<rparr>"

type_synonym bitmap = "u32 list"

datatype field_state = CPFS_HIDDEN | CPFS_DISPLAY_IN_SELECTED_TILE
datatype interactive_state = CPFIS_NONE | CPFIS_FOCUSED

datatype field_text =
    TitlePasskey wstr | TitleOtp wstr | TitleNumber wstr wstr | TitleDefault wstr
  | PlainText wstr | StatusText status_text | NumberBox wstr
  | ButtonPasskey | ButtonPush | ButtonOtp | NoText

datatype ui_event =
    FieldState FIELD_ID field_state
  | FieldInteractive FIELD_ID interactive_state
  | FieldString FIELD_ID field_text
  | FieldBitmap bitmap
  | FieldLogoPng
  | CredentialsChanged nat

record LigamentCredential =
  m_config :: Config
  m_isRemoteSession :: bool
  m_cpus :: usage_scenario
  m_providerFlags :: u32
  m_currentMode :: AUTH_FACTOR_MODE
  m_username :: wstr
  m_domain :: wstr
  m_usernameRaw :: wstr
  m_password :: wstr
  m_otpCode :: wstr
  m_statusText :: status_text
  m_numberMatch :: wstr
  m_authenticated :: bool
  m_hQrBmp :: "bitmap option"
  m_hDefaultLogoBmp :: "bitmap option"
  m_pEvents :: bool
  m_pProviderEvents :: bool
  m_providerAdviseContext :: nat
  m_hPollThread :: bool
  m_worker :: WorkerState
  m_job :: WorkerJob
  m_jobUser :: wstr
  m_jobDomain :: wstr
  m_jobPass :: wstr
  m_jobOtp :: wstr
  m_beginApplied :: bool
  ui_out :: "ui_event list"

text \<open>What the tile gets from outside: the computer name, whether the events interface is
  version 3, whether \<open>CopyImage\<close>, \<open>CreateThread\<close> succeed, and the QR bitmap of a text.\<close>

record ui_env =
  ue_pcName :: wstr
  ue_events3 :: bool
  ue_copyImage :: bool
  ue_createThread :: bool
  ue_qr :: "string \<Rightarrow> bitmap option"
  ue_logo :: "bitmap option"

definition LigamentCredential_new :: LigamentCredential where
  "LigamentCredential_new =
     \<lparr>m_config = Config_default, m_isRemoteSession = False, m_cpus = CPUS_LOGON, m_providerFlags = 0,
      m_currentMode = MODE_PUSH, m_username = [], m_domain = [], m_usernameRaw = [], m_password = [],
      m_otpCode = [], m_statusText = StConfirmSecond, m_numberMatch = [], m_authenticated = False,
      m_hQrBmp = None, m_hDefaultLogoBmp = None, m_pEvents = False, m_pProviderEvents = False,
      m_providerAdviseContext = 0, m_hPollThread = False, m_worker = WorkerState_init, m_job = JobNone,
      m_jobUser = [], m_jobDomain = [], m_jobPass = [], m_jobOtp = [], m_beginApplied = False,
      ui_out = []\<rparr>"

definition Initialize ::
    "ui_env \<Rightarrow> Config \<Rightarrow> bool \<Rightarrow> usage_scenario \<Rightarrow> u32 \<Rightarrow> LigamentCredential \<Rightarrow> LigamentCredential" where
  "Initialize ue cfg remote cpus flags c =
     (let c = c\<lparr>m_config := cfg, m_isRemoteSession := remote, m_cpus := cpus,
                m_providerFlags := flags, m_hDefaultLogoBmp := ue_logo ue\<rparr>
      in if cpus = CPUS_CREDUI then
           (if defaultFactor cfg = 2
            then c\<lparr>m_currentMode := MODE_OTP, m_statusText := StElevOtp\<rparr>
            else c\<lparr>m_currentMode := MODE_PUSH, m_statusText := StElevConfirm\<rparr>)
         else if defaultFactor cfg = 1 \<and> fido2Enabled cfg
         then c\<lparr>m_currentMode := MODE_FIDO2, m_statusText := StPasskeyEnterForQr\<rparr>
         else if defaultFactor cfg = 2
         then c\<lparr>m_currentMode := MODE_OTP, m_statusText := StOtpSix\<rparr>
         else c\<lparr>m_currentMode := MODE_PUSH, m_statusText := StPushWelcome\<rparr>)"

subsection \<open>Fields\<close>

definition Fido2Allowed :: "LigamentCredential \<Rightarrow> bool" where
  "Fido2Allowed c \<longleftrightarrow> fido2Enabled (m_config c) \<and> m_cpus c \<noteq> CPUS_CREDUI"

definition GetFieldState :: "FIELD_ID \<Rightarrow> LigamentCredential \<Rightarrow> field_state \<times> interactive_state" where
  "GetFieldState fid c = (case fid of
     FID_LOGO \<Rightarrow> (CPFS_DISPLAY_IN_SELECTED_TILE, CPFIS_NONE)
   | FID_LARGE_TEXT \<Rightarrow> (CPFS_DISPLAY_IN_SELECTED_TILE, CPFIS_NONE)
   | FID_USERNAME \<Rightarrow> (CPFS_DISPLAY_IN_SELECTED_TILE, CPFIS_FOCUSED)
   | FID_PASSWORD \<Rightarrow> (CPFS_DISPLAY_IN_SELECTED_TILE, CPFIS_FOCUSED)
   | FID_SUBMIT \<Rightarrow> (CPFS_DISPLAY_IN_SELECTED_TILE, CPFIS_NONE)
   | FID_STATUS_TEXT \<Rightarrow> (CPFS_DISPLAY_IN_SELECTED_TILE, CPFIS_NONE)
   | FID_NUMBER_MATCH \<Rightarrow>
       (if m_numberMatch c \<noteq> [] then CPFS_DISPLAY_IN_SELECTED_TILE else CPFS_HIDDEN, CPFIS_NONE)
   | FID_FIDO2_BTN \<Rightarrow>
       (if m_currentMode c = MODE_PUSH
        then (if Fido2Allowed c then CPFS_DISPLAY_IN_SELECTED_TILE else CPFS_HIDDEN)
        else CPFS_DISPLAY_IN_SELECTED_TILE, CPFIS_NONE)
   | FID_OTP_CODE \<Rightarrow>
       (if m_currentMode c = MODE_OTP then (CPFS_DISPLAY_IN_SELECTED_TILE, CPFIS_FOCUSED)
        else (CPFS_HIDDEN, CPFIS_NONE))
   | FID_SWITCH_FACTOR_BTN \<Rightarrow>
       (if m_currentMode c = MODE_PUSH \<or> m_currentMode c = MODE_FIDO2
        then CPFS_DISPLAY_IN_SELECTED_TILE
        else (if Fido2Allowed c then CPFS_DISPLAY_IN_SELECTED_TILE else CPFS_HIDDEN), CPFIS_NONE)
   | FID_NUM_FIELDS \<Rightarrow> (CPFS_HIDDEN, CPFIS_NONE))"

definition GetStringValue :: "ui_env \<Rightarrow> FIELD_ID \<Rightarrow> LigamentCredential \<Rightarrow> field_text" where
  "GetStringValue ue fid c =
     (let pc = ue_pcName ue in
      case fid of
        FID_LARGE_TEXT \<Rightarrow>
          (case m_currentMode c of
             MODE_FIDO2 \<Rightarrow> TitlePasskey pc
           | MODE_OTP \<Rightarrow> TitleOtp pc
           | MODE_PUSH \<Rightarrow> if m_numberMatch c \<noteq> [] then TitleNumber (m_numberMatch c) pc
                          else TitleDefault pc)
      | FID_USERNAME \<Rightarrow> PlainText (m_username c)
      | FID_PASSWORD \<Rightarrow> PlainText (m_password c)
      | FID_STATUS_TEXT \<Rightarrow> StatusText (m_statusText c)
      | FID_NUMBER_MATCH \<Rightarrow> if m_numberMatch c \<noteq> [] then NumberBox (m_numberMatch c) else NoText
      | FID_FIDO2_BTN \<Rightarrow> if m_currentMode c = MODE_PUSH then ButtonPasskey else ButtonPush
      | FID_OTP_CODE \<Rightarrow> PlainText (m_otpCode c)
      | FID_SWITCH_FACTOR_BTN \<Rightarrow>
          if m_currentMode c = MODE_PUSH \<or> m_currentMode c = MODE_FIDO2 then ButtonOtp
          else ButtonPasskey
      | _ \<Rightarrow> NoText)"

definition GetSubmitButtonValue :: "FIELD_ID \<Rightarrow> hresult \<times> FIELD_ID option" where
  "GetSubmitButtonValue fid = (if fid = FID_SUBMIT then (S_OK, Some FID_PASSWORD) else (E_NOTIMPL, None))"

definition GetUserSid :: "bool \<Rightarrow> hresult" where
  "GetUserSid sidNonNull = (if \<not> sidNonNull then E_POINTER else E_NOTIMPL)"

definition SetSelected :: "LigamentCredential \<Rightarrow> hresult \<times> bool" where
  "SetSelected c = (S_OK, m_authenticated c)"

text \<open>\<open>GetBitmapValue\<close>: a copy of the QR bitmap, or of the logo.\<close>

definition GetBitmapValue :: "ui_env \<Rightarrow> FIELD_ID \<Rightarrow> LigamentCredential \<Rightarrow> hresult \<times> bitmap option" where
  "GetBitmapValue ue fid c =
     (if fid = FID_LOGO then
        (let src = (case m_hQrBmp c of Some b \<Rightarrow> Some b | None \<Rightarrow> m_hDefaultLogoBmp c)
         in case src of
              Some b \<Rightarrow> if ue_copyImage ue then (S_OK, Some b) else (E_NOTIMPL, None)
            | None \<Rightarrow> (E_NOTIMPL, None))
      else (E_NOTIMPL, None))"

subsection \<open>Notifications\<close>

definition emit :: "ui_event list \<Rightarrow> LigamentCredential \<Rightarrow> LigamentCredential" where
  "emit es c = c\<lparr>ui_out := ui_out c @ es\<rparr>"

text \<open>The picture shown, and whether it is the stock logo.\<close>

definition shown_bitmap :: "LigamentCredential \<Rightarrow> bitmap option" where
  "shown_bitmap c = (case m_hQrBmp c of Some b \<Rightarrow> Some b | None \<Rightarrow> m_hDefaultLogoBmp c)"

definition shows_default_logo :: "LigamentCredential \<Rightarrow> bool" where
  "shows_default_logo c \<longleftrightarrow> m_hQrBmp c = None \<and> m_hDefaultLogoBmp c \<noteq> None"

definition bitmap_events :: "ui_env \<Rightarrow> LigamentCredential \<Rightarrow> ui_event list" where
  "bitmap_events ue c =
     (if shows_default_logo c \<and> ue_events3 ue then [FieldLogoPng]
      else case shown_bitmap c of
             Some b \<Rightarrow> if ue_copyImage ue then [FieldBitmap b] else []
           | None \<Rightarrow> [])"

definition NotifyFieldChanged :: "ui_env \<Rightarrow> FIELD_ID \<Rightarrow> LigamentCredential \<Rightarrow> LigamentCredential" where
  "NotifyFieldChanged ue fid c =
     (if \<not> m_pEvents c then c
      else
        let (st, ist) = GetFieldState fid c;
            more = (if fid = FID_STATUS_TEXT then [FieldString fid (StatusText (m_statusText c))]
                    else if fid = FID_NUMBER_MATCH \<or> fid = FID_LARGE_TEXT
                            \<or> fid = FID_SWITCH_FACTOR_BTN \<or> fid = FID_FIDO2_BTN
                    then [FieldString fid (GetStringValue ue fid c)]
                    else if fid = FID_LOGO then bitmap_events ue c @ [FieldState fid st]
                    else [])
        in emit ([FieldState fid st, FieldInteractive fid ist] @ more) c)"

fun NotifyFields :: "ui_env \<Rightarrow> FIELD_ID list \<Rightarrow> LigamentCredential \<Rightarrow> LigamentCredential" where
  "NotifyFields ue [] c = c"
| "NotifyFields ue (f # fs) c = NotifyFields ue fs (NotifyFieldChanged ue f c)"

definition NotifyQrChanged :: "ui_env \<Rightarrow> LigamentCredential \<Rightarrow> LigamentCredential" where
  "NotifyQrChanged ue c =
     (let c = (if m_pEvents c \<and> shown_bitmap c \<noteq> None
               then emit (bitmap_events ue c @ [FieldState FID_LOGO CPFS_DISPLAY_IN_SELECTED_TILE]) c
               else c)
      in if m_pProviderEvents c \<and> m_providerAdviseContext c \<noteq> 0
         then emit [CredentialsChanged (m_providerAdviseContext c)] c else c)"

definition ClearQrBitmap :: "ui_env \<Rightarrow> LigamentCredential \<Rightarrow> LigamentCredential" where
  "ClearQrBitmap ue c =
     (if m_hQrBmp c \<noteq> None then NotifyQrChanged ue (c\<lparr>m_hQrBmp := None\<rparr>) else c)"

text \<open>\<open>NotifyProviderChangedFromWorker\<close>\<close>

definition NotifyProviderChanged :: "LigamentCredential \<Rightarrow> LigamentCredential" where
  "NotifyProviderChanged c =
     (if m_pProviderEvents c then emit [CredentialsChanged (m_providerAdviseContext c)] c else c)"

definition UpdateFieldStates :: "ui_env \<Rightarrow> LigamentCredential \<Rightarrow> LigamentCredential" where
  "UpdateFieldStates ue c =
     (let c = c\<lparr>m_statusText := (case m_currentMode c of
                  MODE_FIDO2 \<Rightarrow>
                    if m_username c = [] \<or> m_password c = [] then StPasskeyEnterForQr
                    else if m_hQrBmp c \<noteq> None then StScanQr else StPasskeyArrow
                | MODE_PUSH \<Rightarrow> if m_numberMatch c \<noteq> [] then StConfirmNumber else StEnterForPush
                | MODE_OTP \<Rightarrow> StOtpSixApp)\<rparr>
      in if m_pEvents c
         then NotifyFields ue [FID_LOGO, FID_LARGE_TEXT, FID_NUMBER_MATCH, FID_FIDO2_BTN, FID_OTP_CODE,
                               FID_STATUS_TEXT, FID_SWITCH_FACTOR_BTN] c
         else c)"

subsection \<open>The worker thread's handle\<close>

text \<open>\<open>JoinPollThread\<close> once the thread has ended, and \<open>StopPollThread\<close>.\<close>

definition JoinPollThread :: "LigamentCredential \<Rightarrow> LigamentCredential" where
  "JoinPollThread c = c\<lparr>m_hPollThread := False, m_job := JobNone, m_jobUser := [], m_jobDomain := [],
     m_jobPass := [], m_jobOtp := [], m_worker := WorkerState_init\<rparr>"

definition StopPollThread :: "LigamentCredential \<Rightarrow> LigamentCredential" where
  "StopPollThread c = JoinPollThread (c\<lparr>m_worker := (m_worker c)\<lparr>w_stop := True\<rparr>\<rparr>)"

definition StartWorkerJob :: "ui_env \<Rightarrow> WorkerJob \<Rightarrow> status_text \<Rightarrow> LigamentCredential \<Rightarrow> LigamentCredential \<times> bool" where
  "StartWorkerJob ue job status c =
     (let c = StopPollThread c;
          c = c\<lparr>m_worker := WorkerState_init, m_job := job, m_jobUser := m_username c,
                m_jobDomain := m_domain c, m_jobPass := m_password c,
                m_jobOtp := (if job = JobVerifyOtp then m_otpCode c else m_jobOtp c),
                m_statusText := status, m_beginApplied := False\<rparr>;
          c = NotifyFieldChanged ue FID_STATUS_TEXT c
      in if ue_createThread ue then (c\<lparr>m_hPollThread := True\<rparr>, True)
         else (c\<lparr>m_job := JobNone, m_jobUser := [], m_jobDomain := [], m_jobPass := [], m_jobOtp := [],
                 m_worker := WorkerState_init\<rparr>, False))"

definition TriggerFIDO2Auth :: "ui_env \<Rightarrow> LigamentCredential \<Rightarrow> LigamentCredential" where
  "TriggerFIDO2Auth ue c =
     (if m_username c = [] \<or> m_password c = []
      then NotifyFieldChanged ue FID_STATUS_TEXT (c\<lparr>m_statusText := StPasskeyFirst\<rparr>)
      else if m_authenticated c
      then NotifyFieldChanged ue FID_STATUS_TEXT (c\<lparr>m_statusText := StPasskeyAlready\<rparr>)
      else (let (c', ok) = StartWorkerJob ue JobWebAuthnBegin StPasskeyGenerating c
            in if ok then c'
               else NotifyFieldChanged ue FID_STATUS_TEXT (c'\<lparr>m_statusText := StPasskeyStartFailed\<rparr>)))"

subsection \<open>Mode switches\<close>

definition SwitchToMode :: "ui_env \<Rightarrow> AUTH_FACTOR_MODE \<Rightarrow> LigamentCredential \<Rightarrow> LigamentCredential" where
  "SwitchToMode ue newMode c =
     (if newMode = MODE_FIDO2 \<and> \<not> Fido2Allowed c then c
      else if m_currentMode c = newMode then c
      else
        let c = ClearQrBitmap ue (StopPollThread c);
            c = c\<lparr>m_currentMode := newMode, m_numberMatch := []\<rparr>;
            c = c\<lparr>m_statusText := (case newMode of
                    MODE_PUSH \<Rightarrow> StPressToPush
                  | MODE_OTP \<Rightarrow> StOtpOnce
                  | MODE_FIDO2 \<Rightarrow> if m_username c \<noteq> [] \<and> m_password c \<noteq> [] then StPasskeyGenerating
                                  else StPasskeyEnter)\<rparr>;
            c = UpdateFieldStates ue c
        in if m_currentMode c = MODE_FIDO2 \<and> m_username c \<noteq> [] \<and> m_password c \<noteq> []
           then TriggerFIDO2Auth ue c else c)"

definition SwitchToNextMode :: "ui_env \<Rightarrow> LigamentCredential \<Rightarrow> LigamentCredential" where
  "SwitchToNextMode ue c = (case m_currentMode c of
     MODE_PUSH \<Rightarrow> SwitchToMode ue (if Fido2Allowed c then MODE_FIDO2 else MODE_OTP) c
   | MODE_FIDO2 \<Rightarrow> SwitchToMode ue MODE_OTP c
   | MODE_OTP \<Rightarrow> SwitchToMode ue MODE_PUSH c)"

definition CommandLinkClicked :: "ui_env \<Rightarrow> FIELD_ID \<Rightarrow> LigamentCredential \<Rightarrow> LigamentCredential" where
  "CommandLinkClicked ue fid c =
     (if fid = FID_FIDO2_BTN
      then (if m_currentMode c = MODE_PUSH then SwitchToMode ue MODE_FIDO2 c
            else SwitchToMode ue MODE_PUSH c)
      else if fid = FID_SWITCH_FACTOR_BTN
      then (if m_currentMode c = MODE_PUSH \<or> m_currentMode c = MODE_FIDO2
            then SwitchToMode ue MODE_OTP c
            else SwitchToMode ue MODE_FIDO2 c)
      else c)"

end
