(* ===== verification/RdpGate.thy ===== *)
theory RdpGate
  imports HttpApi
begin

text \<open>
  \<open>credential_provider/rdp_gate.cpp\<close>: the gate that lets an RDP logon skip the second factor
  once, when the gateway already asked for it.  It reads the endpoint's key from the registry,
  the logon id and the SID from the token, a one-time nonce from the endpoint service over a
  named pipe, and presents them to the core server.  Token, pipe and network answers are
  parameters; a pipe conversation is the list of the answers to its polls, and a poll past the
  list finds the pipe broken.
\<close>

record RdpGateResult =
  g_satisfied :: bool
  g_responded :: bool
  g_note :: string

definition gate_refused :: "string \<Rightarrow> RdpGateResult" where
  "gate_refused note = \<lparr>g_satisfied = False, g_responded = False, g_note = note\<rparr>"

subsection \<open>What identifies this logon\<close>

text \<open>A value that is a readable \<open>REG_SZ\<close> is taken even when it is empty; otherwise the local key
  is tried.\<close>

definition read_agent_key :: "reg_key option \<Rightarrow> wstr option" where
  "read_agent_key hk = (case fst (reg_query hk ''RdpAgentKey'' 510) of
     Some (RegSz s) \<Rightarrow> Some (takeWhile (\<lambda>c. c \<noteq> 0) s)
   | _ \<Rightarrow> None)"

definition ReadAgentKeyFromRegistry :: "registry \<Rightarrow> wstr" where
  "ReadAgentKeyFromRegistry reg =
     (case read_agent_key (hkPolicy reg) of
        Some s \<Rightarrow> s
      | None \<Rightarrow> (case read_agent_key (hkLocal reg) of Some s \<Rightarrow> s | None \<Rightarrow> []))"

record token_facts =
  tk_statsSize :: nat
  tk_authenticationId :: "(u32 \<times> u32) option"
  tk_userSize :: nat
  tk_sid :: "string option"

fun hex_digits :: "nat \<Rightarrow> nat \<Rightarrow> string" where
  "hex_digits 0 n = []"
| "hex_digits (Suc k) n = hex_digits k (n div 16) @ [hex_lower (n mod 16)]"

definition CurrentLogonIdHex :: "token_facts \<Rightarrow> string" where
  "CurrentLogonIdHex tk =
     (if tk_statsSize tk = 0 \<or> tk_statsSize tk > 4096 then []
      else case tk_authenticationId tk of
             None \<Rightarrow> []
           | Some (high, low) \<Rightarrow> hex_digits 8 (unat high) @ hex_digits 8 (unat low))"

definition CurrentUserSid :: "token_facts \<Rightarrow> string" where
  "CurrentUserSid tk =
     (if tk_userSize tk = 0 \<or> tk_userSize tk > 4096 then []
      else case tk_sid tk of None \<Rightarrow> [] | Some s \<Rightarrow> s)"

subsection \<open>The nonce\<close>

text \<open>One poll: \<open>PeekNamedPipe\<close> fails, or tells how many bytes wait and \<open>ReadFile\<close> answers.\<close>

datatype peek = PeekFailed | Peek nat "string option"

record pipe_facts =
  pf_wait :: bool
  pf_open :: bool
  pf_write :: "string \<Rightarrow> bool"
  pf_polls :: "peek list"

fun pipe_loop :: "peek list \<Rightarrow> nat \<Rightarrow> string \<Rightarrow> string" where
  "pipe_loop [] poll out = out"
| "pipe_loop (p # ps) poll out =
     (if \<not> (poll < 100 \<and> length out < 512) then out
      else case p of
        PeekFailed \<Rightarrow> out
      | Peek avail rd \<Rightarrow>
          if avail = 0 then (if poll = 99 then out else pipe_loop ps (Suc poll) out)
          else (case rd of
                  None \<Rightarrow> out
                | Some d \<Rightarrow>
                    (let got = take (min avail 256) d
                     in if got = [] then out
                        else if CHR ''}'' \<in> set (out @ got) then out @ got
                        else pipe_loop ps (Suc poll) (out @ got))))"

text \<open>A member written without escaping its value.\<close>

definition raw_member :: "string \<Rightarrow> string \<Rightarrow> string" where
  "raw_member k v = quote # k @ quote # CHR '':'' # quote # v @ [quote]"

definition pipe_request :: "string \<Rightarrow> string \<Rightarrow> string \<Rightarrow> string" where
  "pipe_request logonId user sid =
     CHR ''{'' # raw_member ''logon_id'' logonId @ CHR '','' # raw_member ''username'' (EscapeJson user)
       @ CHR '','' # raw_member ''user_sid'' (EscapeJson sid) @ [CHR ''}'']"

definition QueryAssertionNonce :: "pipe_facts \<Rightarrow> string \<Rightarrow> string \<Rightarrow> string \<Rightarrow> string" where
  "QueryAssertionNonce pf logonId user sid =
     (if \<not> pf_wait pf then []
      else if \<not> pf_open pf then []
      else let out = (if pf_write pf (pipe_request logonId user sid) then pipe_loop (pf_polls pf) 0 [] else [])
           in ExtractJsonString out ''nonce'')"

subsection \<open>The assertion\<close>

record gate_request = http_request +
  rq_bearer :: wstr

record gate_env =
  ge_registry :: registry
  ge_token :: token_facts
  ge_pipe :: pipe_facts
  ge_opened :: bool
  ge_net :: "gate_request \<Rightarrow> transport"

definition gate_body :: "string \<Rightarrow> string \<Rightarrow> string \<Rightarrow> string \<Rightarrow> string \<Rightarrow> string" where
  "gate_body nonce machine logonId user sid =
     CHR ''{'' # raw_member ''nonce'' (EscapeJson nonce) @ CHR '','' # raw_member ''machine'' (EscapeJson machine)
       @ CHR '','' # raw_member ''logon_id'' logonId @ CHR '','' # raw_member ''username'' (EscapeJson user)
       @ CHR '','' # raw_member ''user_sid'' (EscapeJson sid) @ [CHR ''}'']"

text \<open>From \<open>WinHttpOpen\<close> on: the transport's outcome read as a gate result.\<close>

definition gate_exchange :: "transport \<Rightarrow> RdpGateResult" where
  "gate_exchange t =
     (if \<not> t_connect t then gate_refused ''network_error''
      else if \<not> t_open t then gate_refused ''network_error''
      else if \<not> (t_send t \<and> t_receive t) then gate_refused ''network_error''
      else
        let statusCode = (case t_status t of None \<Rightarrow> 0 | Some w \<Rightarrow> sint w);
            respBody = read_body (t_chunks t) []
        in if statusCode \<noteq> 200 then gate_refused (''status_'' @ to_string statusCode)
           else if ExtractJsonBool respBody ''satisfied''
           then \<lparr>g_satisfied = True, g_responded = True, g_note = ''satisfied''\<rparr>
           else \<lparr>g_satisfied = False, g_responded = True, g_note = ''not_satisfied''\<rparr>)"

definition gate_request_for ::
    "utf8_codec \<Rightarrow> gate_env \<Rightarrow> url_components \<Rightarrow> wstr \<Rightarrow> wstr \<Rightarrow> bool \<Rightarrow> gate_request" where
  "gate_request_for cv ge uc username computerName selfSigned =
     (let logonId = CurrentLogonIdHex (ge_token ge); sid = CurrentUserSid (ge_token ge);
          user = WideToUtf8 cv username;
          isHttps = (cu_scheme uc = INTERNET_SCHEME_HTTPS)
      in \<lparr>rq_host = cu_host uc, rq_port = cu_port uc, rq_secure = isHttps,
          rq_securityFlags = (if isHttps \<and> selfSigned then SECURITY_FLAG_IGNORE_UNKNOWN_CA else 0), rq_verb = ''POST'',
          rq_path = ''/api/v1/cp/rdp-assert'',
          rq_body = gate_body (QueryAssertionNonce (ge_pipe ge) logonId user sid)
                      (WideToUtf8 cv computerName) logonId user sid,
          rq_bearer = ReadAgentKeyFromRegistry (ge_registry ge)\<rparr>)"

definition CheckRdpMfaSatisfied ::
    "utf8_codec \<Rightarrow> (wstr \<Rightarrow> url_components option) \<Rightarrow> gate_env \<Rightarrow> wstr \<Rightarrow> wstr \<Rightarrow> wstr \<Rightarrow> bool \<Rightarrow> bool
     \<Rightarrow> RdpGateResult" where
  "CheckRdpMfaSatisfied cv crack ge url username computerName selfSigned http =
     (let logonId = CurrentLogonIdHex (ge_token ge); sid = CurrentUserSid (ge_token ge) in
      if url = [] \<or> computerName = [] then gate_refused ''not_configured''
      else if ReadAgentKeyFromRegistry (ge_registry ge) = [] then gate_refused ''no_agent_key''
      else if logonId = [] then gate_refused ''logon_id_failed''
      else if sid = [] then gate_refused ''user_sid_failed''
      else if QueryAssertionNonce (ge_pipe ge) logonId (WideToUtf8 cv username) sid = []
      then gate_refused ''no_assertion''
      else case crack url of
        None \<Rightarrow> gate_refused ''bad_url''
      | Some uc \<Rightarrow>
          if cu_scheme uc \<noteq> INTERNET_SCHEME_HTTPS \<and> \<not> (cu_scheme uc = INTERNET_SCHEME_HTTP \<and> http)
          then gate_refused ''scheme_rejected''
          else if \<not> ge_opened ge then gate_refused ''winhttp_open_failed''
          else gate_exchange (ge_net ge (gate_request_for cv ge uc username computerName selfSigned)))"

subsection \<open>Properties\<close>

lemma gate_refused_facts [simp]:
  "g_satisfied (gate_refused n) = False" "g_responded (gate_refused n) = False"
  by (simp_all add: gate_refused_def)

lemma gate_exchange_satisfied:
  "g_satisfied (gate_exchange t) \<Longrightarrow>
     t_connect t \<and> t_open t \<and> t_send t \<and> t_receive t \<and> t_status t = Some 200
     \<and> ExtractJsonBool (read_body (t_chunks t) []) ''satisfied''"
proof -
  assume g: "g_satisfied (gate_exchange t)"
  then have a: "t_connect t \<and> t_open t \<and> t_send t \<and> t_receive t
      \<and> (case t_status t of None \<Rightarrow> 0 | Some w \<Rightarrow> sint w) = 200
      \<and> ExtractJsonBool (read_body (t_chunks t) []) ''satisfied''"
    unfolding gate_exchange_def Let_def by (auto split: if_splits)
  then obtain w where w: "t_status t = Some w" "sint w = 200" by (cases "t_status t") auto
  have "sint w = sint (200 :: u32)" using w by simp
  then have "w = 200" by (rule signed_word_eqI)
  with a w show ?thesis by simp
qed

text \<open>The pipe loop looks at no more than a hundred polls and keeps less than 768 bytes, so the
  worker is never held longer than a hundred pauses.\<close>

lemma pipe_loop_end: "100 \<le> poll \<Longrightarrow> pipe_loop ps poll out = out"
  by (cases ps) simp_all

lemma pipe_loop_polls: "pipe_loop ps poll out = pipe_loop (take (100 - poll) ps) poll out"
proof (induction ps arbitrary: poll out)
  case Nil
  then show ?case by simp
next
  case (Cons p ps)
  show ?case
  proof (cases "poll < 100")
    case True
    then have "take (100 - poll) (p # ps) = p # take (100 - Suc poll) ps"
      by (simp add: take_Cons')
    then show ?thesis
      using Cons.IH [of "Suc poll"] by (simp add: Let_def pipe_loop_end split: peek.split option.split)
  qed simp
qed

lemma pipe_loop_size: "length out < 768 \<Longrightarrow> length (pipe_loop ps poll out) < 768"
proof (induction ps poll out rule: pipe_loop.induct)
  case (2 p ps poll out)
  then show ?case
    by (auto simp: Let_def min_def split: peek.splits option.splits if_splits)
qed simp

text \<open>The two JSON texts the gate sends are read back member by member.\<close>

lemma hex_digits_Nil [simp]: "hex_digits k n = [] \<longleftrightarrow> k = 0"
  by (cases k) auto

lemma hex_digits_plain: "plain_key (hex_digits k n)"
proof (induction k arbitrary: n)
  case 0
  then show ?case by (simp add: plain_key_def)
next
  case (Suc k)
  have "\<forall>m \<in> set [0..<16]. plain_key [hex_lower m]" by code_simp
  then have "plain_key [hex_lower (n mod 16)]" by auto
  with Suc show ?case by (simp add: plain_key_def)
qed

lemma CurrentLogonIdHex_plain: "plain_key (CurrentLogonIdHex tk)"
  using hex_digits_plain [of 8]
  by (auto simp: CurrentLogonIdHex_def plain_key_def split: option.splits)

lemma raw_member_plain: "plain_key v \<Longrightarrow> raw_member k v = json_member (k, v)"
  by (simp add: raw_member_def json_member_def EscapeJson_plain)

lemma raw_member_escaped: "raw_member k (EscapeJson v) = json_member (k, v)"
  by (simp add: raw_member_def json_member_def)

lemma gate_body_reads_back:
  assumes "plain_key logonId"
  shows "read_object (gate_body nonce machine logonId user sid)
    = Some [(''nonce'', nonce), (''machine'', machine), (''logon_id'', logonId), (''username'', user), (''user_sid'', sid)]"
proof -
  have "gate_body nonce machine logonId user sid = json_object_text
      [(''nonce'', nonce), (''machine'', machine), (''logon_id'', logonId), (''username'', user), (''user_sid'', sid)]"
    using assms by (simp add: gate_body_def raw_member_plain raw_member_escaped json_object_text_def)
  then show ?thesis by (simp add: read_object_json_object_text plain_key_def)
qed

lemma pipe_request_reads_back:
  assumes "plain_key logonId"
  shows "read_object (pipe_request logonId user sid)
    = Some [(''logon_id'', logonId), (''username'', user), (''user_sid'', sid)]"
proof -
  have "pipe_request logonId user sid = json_object_text
      [(''logon_id'', logonId), (''username'', user), (''user_sid'', sid)]"
    using assms by (simp add: pipe_request_def raw_member_plain raw_member_escaped json_object_text_def)
  then show ?thesis by (simp add: read_object_json_object_text plain_key_def)
qed


definition demo_gate :: gate_env where
  "demo_gate = \<lparr>ge_registry = \<lparr>hkPolicy = None, hkLocal = Some [''RdpAgentKey'' \<mapsto> RegSz (wide ''k'')]\<rparr>,
     ge_token = \<lparr>tk_statsSize = 56, tk_authenticationId = Some (0, 999), tk_userSize = 40, tk_sid = Some ''S-1''\<rparr>,
     ge_pipe = \<lparr>pf_wait = True, pf_open = True, pf_write = (\<lambda>_. True),
       pf_polls = [Peek 0 None, Peek 15 (Some (CHR ''{'' # raw_member ''nonce'' ''ab'' @ [CHR ''}'']))]\<rparr>,
     ge_opened = True,
     ge_net = (\<lambda>rq. demo_answer 200 (CHR ''{'' # quote # ''satisfied'' @ quote # '':true}''))\<rparr>"

text \<open>The witness also shows that the gate can open.\<close>

lemma demo_gate_opens:
  "g_satisfied (CheckRdpMfaSatisfied demo_codec demo_crack demo_gate (wide ''https://t'') (wide ''b'') (wide ''PC'') False False)"
proof -
  have tk: "CurrentLogonIdHex (ge_token demo_gate) \<noteq> []" "CurrentUserSid (ge_token demo_gate) \<noteq> []"
    by (simp_all add: demo_gate_def CurrentLogonIdHex_def CurrentUserSid_def)
  have k: "ReadAgentKeyFromRegistry (ge_registry demo_gate) \<noteq> []"
    by (simp add: demo_gate_def ReadAgentKeyFromRegistry_def read_agent_key_def reg_query_def wide_def)
  have out: "pipe_loop (pf_polls (ge_pipe demo_gate)) 0 [] = CHR ''{'' # raw_member ''nonce'' ''ab'' @ [CHR ''}'']"
    by code_simp
  have ex: "ExtractJsonString (CHR ''{'' # raw_member ''nonce'' ''ab'' @ [CHR ''}'']) ''nonce'' = ''ab''"
    by code_simp
  have n: "QueryAssertionNonce (ge_pipe demo_gate) l u s = ''ab''" for l u s
    unfolding QueryAssertionNonce_def out Let_def using ex by (simp add: demo_gate_def)
  have g: "g_satisfied (gate_exchange (ge_net demo_gate rq))" for rq
  proof -
    have "ExtractJsonBool (CHR ''{'' # quote # ''satisfied'' @ quote # '':true}'') ''satisfied''" by code_simp
    then show ?thesis by (simp add: demo_gate_def gate_exchange_def demo_answer_def Let_def)
  qed
  show ?thesis
    unfolding CheckRdpMfaSatisfied_def Let_def n using k g tk
    by (simp add: demo_crack_def wide_def demo_gate_def)
qed


text \<open>The nonce query is bounded: whatever the pipe's other end does, the answer that is
  searched depends on the first hundred polls only and holds less than 768 bytes.\<close>

lemma pipe_query_bounded:
  "pipe_loop ps 0 [] = pipe_loop (take 100 ps) 0 [] \<and> length (pipe_loop ps 0 []) < 768"
proof
  show "pipe_loop ps 0 [] = pipe_loop (take 100 ps) 0 []"
    by (subst pipe_loop_polls, subst diff_zero) (rule refl)
  show "length (pipe_loop ps 0 []) < 768" by (rule pipe_loop_size) simp
qed

end
