(* ===== verification/CredentialWorker.thy ===== *)
theory CredentialWorker
  imports Credential RdpGate
begin

text \<open>
  The edits of the user, which may void the second factor, and \<open>RunAsyncJob\<close>, the worker thread
  of \<open>credential_provider/LigamentCredential.cpp\<close>.

  \<open>ResetAuthState\<close> is cut in two where the code leaves a window: it clears the result first and
  only then sets the stop flag, in \<open>StopPollThread\<close>.  The worker is a program counter with the
  job's local copies; a step runs up to and including one critical section on \<open>m_csPoll\<close>, which
  re-reads the stop flag, so the network call before it and the section are one step.  The
  second factor \<open>approved_as\<close> that a step confirms is returned beside the state, for the proofs.
\<close>

subsection \<open>Edits\<close>

definition ResetAuthState_begin :: "ui_env \<Rightarrow> LigamentCredential \<Rightarrow> LigamentCredential" where
  "ResetAuthState_begin ue c =
     (ClearQrBitmap ue (c\<lparr>m_authenticated := False, m_numberMatch := [], m_beginApplied := False\<rparr>))
       \<lparr>m_otpCode := []\<rparr>"

definition ResetAuthState_end :: "ui_env \<Rightarrow> LigamentCredential \<Rightarrow> LigamentCredential" where
  "ResetAuthState_end ue c =
     (let c = StopPollThread c
      in if m_pEvents c then NotifyFields ue [FID_NUMBER_MATCH, FID_LARGE_TEXT] c else c)"

definition ResetAuthState :: "ui_env \<Rightarrow> LigamentCredential \<Rightarrow> LigamentCredential" where
  "ResetAuthState ue c = ResetAuthState_end ue (ResetAuthState_begin ue c)"

definition prevRaw :: "LigamentCredential \<Rightarrow> wstr" where
  "prevRaw c = (if m_domain c = [] then m_username c else m_domain c @ [92] @ m_username c)"

text \<open>\<open>DOMAIN\user\<close>, then \<open>user@domain\<close>, then a plain name: the domain and the user.\<close>

definition SplitUserName :: "wstr \<Rightarrow> wstr \<times> wstr" where
  "SplitUserName raw = (case chr_find raw 92 0 of
     Some slash \<Rightarrow> (take slash raw, drop (slash + 1) raw)
   | None \<Rightarrow>
       (case chr_find raw 64 0 of
          Some at \<Rightarrow> if 0 < at \<and> at + 1 < length raw then (drop (at + 1) raw, take at raw) else ([], raw)
        | None \<Rightarrow> ([], raw)))"

definition assign_username :: "wstr \<Rightarrow> LigamentCredential \<Rightarrow> LigamentCredential" where
  "assign_username raw c =
     c\<lparr>m_usernameRaw := raw, m_domain := fst (SplitUserName raw), m_username := snd (SplitUserName raw)\<rparr>"

text \<open>What \<open>SetStringValue\<close> decides before it writes: whether the result is voided, and the rest of
  the call.\<close>

definition edit_resets :: "FIELD_ID \<Rightarrow> wstr \<Rightarrow> LigamentCredential \<Rightarrow> bool" where
  "edit_resets fid psz c \<longleftrightarrow>
     (fid = FID_USERNAME \<and> \<not> wcsieq psz (prevRaw c)) \<or> (fid = FID_PASSWORD \<and> m_password c \<noteq> psz)"

definition edit_assign :: "FIELD_ID \<Rightarrow> wstr \<Rightarrow> LigamentCredential \<Rightarrow> LigamentCredential" where
  "edit_assign fid psz c =
     (if fid = FID_USERNAME then assign_username psz c
      else if fid = FID_PASSWORD then c\<lparr>m_password := psz\<rparr>
      else if fid = FID_OTP_CODE then c\<lparr>m_otpCode := psz\<rparr>
      else c)"

definition SetStringValue :: "ui_env \<Rightarrow> FIELD_ID \<Rightarrow> wstr option \<Rightarrow> LigamentCredential \<Rightarrow> LigamentCredential" where
  "SetStringValue ue fid psz c =
     (let s = (case psz of None \<Rightarrow> [] | Some s \<Rightarrow> s)
      in edit_assign fid s (if edit_resets fid s c then ResetAuthState ue c else c))"

definition SetDeselected :: "ui_env \<Rightarrow> LigamentCredential \<Rightarrow> LigamentCredential" where
  "SetDeselected ue c =
     (if \<not> m_hPollThread c \<and> \<not> m_authenticated c then ResetAuthState ue c else c)"

subsection \<open>The worker\<close>

record job_locals =
  l_job :: WorkerJob
  l_user :: wstr
  l_domain :: wstr
  l_pass :: wstr
  l_otp :: wstr
  l_challengeId :: wstr

datatype worker_pc =
    WFetch
  | WGate job_locals
  | WBegin job_locals
  | WPoll job_locals nat
  | WEnded

record worker_env =
  we_cv :: utf8_codec
  we_hf :: host_facts
  we_net :: network
  we_crack :: "wstr \<Rightarrow> url_components option"
  we_opened :: bool
  we_gate :: gate_env
  we_ui :: ui_env

text \<open>Taking the job: the inputs are copied and the members wiped, in one section.\<close>

definition fetch_job :: "LigamentCredential \<Rightarrow> job_locals \<times> LigamentCredential" where
  "fetch_job c =
     (\<lparr>l_job = m_job c, l_user = m_jobUser c, l_domain = m_jobDomain c, l_pass = m_jobPass c,
       l_otp = m_jobOtp c, l_challengeId = []\<rparr>,
      c\<lparr>m_job := JobNone, m_jobUser := [], m_jobDomain := [], m_jobPass := [], m_jobOtp := []\<rparr>)"

definition job_client :: "worker_env \<Rightarrow> LigamentCredential \<Rightarrow> HttpApiClient" where
  "job_client we c =
     (let cfg = m_config c
      in HttpApiClient_new (we_crack we) (we_opened we) (serverUrl cfg) (allowSelfSigned cfg) 8000
           (fallbackRelayUrl cfg) (allowHttp cfg)
           (if m_cpus c = CPUS_CREDUI then ''UAC Elevation'' else []))"

definition gate_applies :: "LigamentCredential \<Rightarrow> WorkerJob \<Rightarrow> bool" where
  "gate_applies c job \<longleftrightarrow> m_isRemoteSession c \<and> m_cpus c \<noteq> CPUS_CREDUI
     \<and> (job = JobStartPush \<or> job = JobWebAuthnBegin \<or> job = JobVerifyOtp)"

text \<open>Phase 0.\<close>

definition gate_step :: "worker_env \<Rightarrow> job_locals \<Rightarrow> LigamentCredential \<Rightarrow> worker_pc \<times> LigamentCredential" where
  "gate_step we l c =
     (if gate_applies c (l_job l) \<and>
         g_satisfied (CheckRdpMfaSatisfied (we_cv we) (we_crack we) (we_gate we) (serverUrl (m_config c))
                        (l_user l) (ue_pcName (we_ui we)) (allowSelfSigned (m_config c)) (allowHttp (m_config c)))
      then (WEnded,
            if w_stop (m_worker c) then c
            else NotifyProviderChanged (NotifyFieldChanged (we_ui we) FID_STATUS_TEXT
                   (c\<lparr>m_worker := (m_worker c)\<lparr>w_beginDone := True, w_beginOk := True, w_done := True\<rparr>,
                      m_authenticated := True, m_statusText := StGateApproved\<rparr>)))
      else (WBegin l, c))"

text \<open>The result of phase 1 in \<open>m_worker\<close>.\<close>

definition begin_result :: "bool \<Rightarrow> string \<Rightarrow> int \<Rightarrow> WorkerState \<Rightarrow> WorkerState" where
  "begin_result ok err retry w =
     w\<lparr>w_beginDone := True, w_beginOk := ok, w_beginError := err, w_retryAfterSec := retry\<rparr>"

definition push_step :: "worker_env \<Rightarrow> job_locals \<Rightarrow> LigamentCredential \<Rightarrow> worker_pc \<times> LigamentCredential" where
  "push_step we l c =
     (let (cl, r, _) = StartPush (we_cv we) (we_hf we) (we_net we) (job_client we c) (l_user l) (l_pass l);
          retry = m_lastRetryAfterSec cl
      in if w_stop (m_worker c) then (WEnded, c)
         else case r of
           Inl err \<Rightarrow>
             (WEnded, NotifyProviderChanged (c\<lparr>m_worker := begin_result False err retry (m_worker c)\<rparr>))
         | Inr (cid, number) \<Rightarrow>
             (WPoll (l\<lparr>l_challengeId := cid, l_pass := []\<rparr>) 0,
              NotifyProviderChanged
               (NotifyFields (we_ui we) [FID_STATUS_TEXT, FID_NUMBER_MATCH, FID_LARGE_TEXT]
                 (c\<lparr>m_worker := (begin_result True [] retry (m_worker c))\<lparr>w_numberMatch := number\<rparr>,
                    m_numberMatch := number,
                    m_statusText := (if number \<noteq> [] then StNumberPrompt else StPushSent)\<rparr>))))"

definition passkey_url :: "worker_env \<Rightarrow> LigamentCredential \<Rightarrow> string \<Rightarrow> string" where
  "passkey_url we c handle =
     WideToUtf8 (we_cv we) (serverUrl (m_config c)) @ ''/auth/passkey?handle='' @ handle"

definition webauthn_step :: "worker_env \<Rightarrow> job_locals \<Rightarrow> LigamentCredential \<Rightarrow> worker_pc \<times> LigamentCredential" where
  "webauthn_step we l c =
     (let (cl, r, _) = WebAuthnBegin (we_cv we) (we_hf we) (we_net we) (job_client we c) (l_user l) (l_pass l);
          retry = m_lastRetryAfterSec cl;
          url = passkey_url we c (wb_handle r);
          notify = (\<lambda>c. NotifyProviderChanged (NotifyFields (we_ui we) [FID_STATUS_TEXT, FID_LOGO] c))
      in if w_stop (m_worker c) then (WEnded, c)
         else if wb_success r
         then (WPoll (l\<lparr>l_challengeId := Utf8ToWide (we_cv we) (wb_challengeId r), l_pass := []\<rparr>) 0,
               notify (c\<lparr>m_worker := (begin_result True (wb_error r) retry (m_worker c))
                              \<lparr>w_qrUrl := Utf8ToWide (we_cv we) url\<rparr>,
                         m_hQrBmp := ue_qr (we_ui we) url,
                         m_statusText := StScanQr\<rparr>))
         else (WEnded,
               notify (c\<lparr>m_worker := begin_result False (wb_error r) retry (m_worker c),
                         m_hQrBmp := None,
                         m_statusText := StPasskeyError (DescribeServerError (wb_error r) retry)\<rparr>)))"

definition otp_step :: "worker_env \<Rightarrow> job_locals \<Rightarrow> LigamentCredential \<Rightarrow> worker_pc \<times> LigamentCredential" where
  "otp_step we l c =
     (let (cl, r, _) = VerifyCombined (we_cv we) (we_hf we) (we_net we) (job_client we c)
                         (l_user l) (l_pass l) (l_otp l);
          retry = m_lastRetryAfterSec cl;
          err = (case r of None \<Rightarrow> [] | Some e \<Rightarrow> e);
          notify = (\<lambda>c. NotifyProviderChanged (NotifyFieldChanged (we_ui we) FID_STATUS_TEXT c))
      in if w_stop (m_worker c) then (WEnded, c)
         else if r = None
         then (WEnded, notify (c\<lparr>m_worker := (begin_result True err retry (m_worker c))\<lparr>w_done := True\<rparr>,
                                 m_authenticated := True, m_statusText := StCodeApproved\<rparr>))
         else (WEnded, notify (c\<lparr>m_worker := (begin_result False err retry (m_worker c))\<lparr>w_done := True\<rparr>,
                                 m_statusText := StRejected (DescribeServerError err retry)\<rparr>)))"

definition terminal_text :: "WorkerJob \<Rightarrow> wstr \<Rightarrow> status_text \<Rightarrow> status_text" where
  "terminal_text job st old =
     (if st = wide ''approved'' then StApproved
      else if st = wide ''denied'' then (if job = JobWebAuthnBegin then StPasskeyDenied else StDenied)
      else if st = wide ''expired'' then (if job = JobWebAuthnBegin then StPasskeyExpired else StExpired)
      else old)"

definition poll_notifications :: "FIELD_ID list" where
  "poll_notifications = [FID_STATUS_TEXT, FID_LOGO, FID_NUMBER_MATCH, FID_LARGE_TEXT]"

text \<open>The terminal section of the poll loop.\<close>

definition poll_terminal :: "worker_env \<Rightarrow> job_locals \<Rightarrow> wstr \<Rightarrow> LigamentCredential \<Rightarrow> LigamentCredential" where
  "poll_terminal we l st c =
     (if w_stop (m_worker c) then c
      else NotifyProviderChanged (NotifyFields (we_ui we) poll_notifications
             (c\<lparr>m_worker := (m_worker c)\<lparr>w_status := st, w_done := True\<rparr>,
                m_authenticated := (st = wide ''approved'' \<or> m_authenticated c),
                m_statusText := terminal_text (l_job l) st (m_statusText c),
                m_hQrBmp := None, m_numberMatch := []\<rparr>)))"

definition poll_timeout :: "worker_env \<Rightarrow> job_locals \<Rightarrow> LigamentCredential \<Rightarrow> LigamentCredential" where
  "poll_timeout we l c =
     (if w_stop (m_worker c) then c
      else NotifyProviderChanged (NotifyFields (we_ui we) poll_notifications
             (c\<lparr>m_worker := (m_worker c)\<lparr>w_status := wide ''timeout'', w_done := True\<rparr>,
                m_statusText := (if l_job l = JobWebAuthnBegin then StPasskeyTimeout else StTimeout),
                m_hQrBmp := None, m_numberMatch := []\<rparr>)))"

definition terminal_status :: "wstr \<Rightarrow> bool" where
  "terminal_status st \<longleftrightarrow> st = wide ''approved'' \<or> st = wide ''denied'' \<or> st = wide ''expired''"

definition poll_step :: "worker_env \<Rightarrow> job_locals \<Rightarrow> nat \<Rightarrow> LigamentCredential \<Rightarrow> worker_pc \<times> LigamentCredential" where
  "poll_step we l i c =
     (if \<not> int i < pushTimeoutSec (m_config c) then (WEnded, poll_timeout we l c)
      else if w_stop (m_worker c) then (WEnded, c)
      else case fst (PollStatus (we_cv we) (we_net we) (job_client we c) (l_challengeId l)) of
             Inr (st, ticket) \<Rightarrow>
               if terminal_status st then (WEnded, poll_terminal we l st c) else (WPoll l (Suc i), c)
           | Inl err \<Rightarrow> (WPoll l (Suc i), c))"

definition begin_step :: "worker_env \<Rightarrow> job_locals \<Rightarrow> LigamentCredential \<Rightarrow> worker_pc \<times> LigamentCredential" where
  "begin_step we l c = (case l_job l of
     JobStartPush \<Rightarrow> push_step we l c
   | JobWebAuthnBegin \<Rightarrow> webauthn_step we l c
   | JobVerifyOtp \<Rightarrow> otp_step we l c
   | JobNone \<Rightarrow> (WEnded, c))"

definition worker_step :: "worker_env \<Rightarrow> worker_pc \<Rightarrow> LigamentCredential \<Rightarrow> worker_pc \<times> LigamentCredential" where
  "worker_step we pc c = (case pc of
     WFetch \<Rightarrow> (WGate (fst (fetch_job c)), snd (fetch_job c))
   | WGate l \<Rightarrow> gate_step we l c
   | WBegin l \<Rightarrow> begin_step we l c
   | WPoll l i \<Rightarrow> poll_step we l i c
   | WEnded \<Rightarrow> (WEnded, c))"

text \<open>The single sign-on ticket the poll leaves for the logged-on user, written after the
  notifications.\<close>

definition sso_ticket_of :: "worker_env \<Rightarrow> job_locals \<Rightarrow> LigamentCredential \<Rightarrow> (wstr \<times> wstr \<times> string) option" where
  "sso_ticket_of we l c =
     (case fst (PollStatus (we_cv we) (we_net we) (job_client we c) (l_challengeId l)) of
        Inr (st, ticket) \<Rightarrow>
          if \<not> w_stop (m_worker c) \<and> st = wide ''approved'' \<and> ticket \<noteq> []
          then Some (l_domain l, l_user l, ticket) else None
      | Inl _ \<Rightarrow> None)"

end
