(* ===== verification/CredentialFrame.thy ===== *)
theory CredentialFrame
  imports CredentialWorker
begin

text \<open>
  Which fields the operations of the tile leave alone.  Notifications only append to \<open>ui_out\<close>;
  clearing the QR code only touches the bitmap; the rest follows by rewriting.
\<close>

lemma emit_Nil [simp]: "emit [] c = c"
  by (simp add: emit_def)

lemma emit_sel [simp, frame_facts]:
  "m_config (emit es c) = m_config c"
  "m_isRemoteSession (emit es c) = m_isRemoteSession c"
  "m_cpus (emit es c) = m_cpus c"
  "m_providerFlags (emit es c) = m_providerFlags c"
  "m_currentMode (emit es c) = m_currentMode c"
  "m_username (emit es c) = m_username c"
  "m_domain (emit es c) = m_domain c"
  "m_usernameRaw (emit es c) = m_usernameRaw c"
  "m_password (emit es c) = m_password c"
  "m_otpCode (emit es c) = m_otpCode c"
  "m_statusText (emit es c) = m_statusText c"
  "m_numberMatch (emit es c) = m_numberMatch c"
  "m_authenticated (emit es c) = m_authenticated c"
  "m_hQrBmp (emit es c) = m_hQrBmp c"
  "m_hDefaultLogoBmp (emit es c) = m_hDefaultLogoBmp c"
  "m_pEvents (emit es c) = m_pEvents c"
  "m_pProviderEvents (emit es c) = m_pProviderEvents c"
  "m_providerAdviseContext (emit es c) = m_providerAdviseContext c"
  "m_hPollThread (emit es c) = m_hPollThread c"
  "m_worker (emit es c) = m_worker c"
  "m_job (emit es c) = m_job c"
  "m_jobUser (emit es c) = m_jobUser c"
  "m_jobDomain (emit es c) = m_jobDomain c"
  "m_jobPass (emit es c) = m_jobPass c"
  "m_jobOtp (emit es c) = m_jobOtp c"
  "m_beginApplied (emit es c) = m_beginApplied c"
  by (simp_all add: emit_def)

definition field_events :: "ui_env \<Rightarrow> FIELD_ID \<Rightarrow> LigamentCredential \<Rightarrow> ui_event list" where
  "field_events ue fid c = drop (length (ui_out c)) (ui_out (NotifyFieldChanged ue fid c))"

lemma NotifyFieldChanged_emit: "NotifyFieldChanged ue fid c = emit (field_events ue fid c) c"
  by (simp add: field_events_def NotifyFieldChanged_def emit_def split_beta Let_def)

lemma NotifyFieldChanged_sel [simp, frame_facts]:
  "m_config (NotifyFieldChanged ue fid c) = m_config c"
  "m_isRemoteSession (NotifyFieldChanged ue fid c) = m_isRemoteSession c"
  "m_cpus (NotifyFieldChanged ue fid c) = m_cpus c"
  "m_providerFlags (NotifyFieldChanged ue fid c) = m_providerFlags c"
  "m_currentMode (NotifyFieldChanged ue fid c) = m_currentMode c"
  "m_username (NotifyFieldChanged ue fid c) = m_username c"
  "m_domain (NotifyFieldChanged ue fid c) = m_domain c"
  "m_usernameRaw (NotifyFieldChanged ue fid c) = m_usernameRaw c"
  "m_password (NotifyFieldChanged ue fid c) = m_password c"
  "m_otpCode (NotifyFieldChanged ue fid c) = m_otpCode c"
  "m_statusText (NotifyFieldChanged ue fid c) = m_statusText c"
  "m_numberMatch (NotifyFieldChanged ue fid c) = m_numberMatch c"
  "m_authenticated (NotifyFieldChanged ue fid c) = m_authenticated c"
  "m_hQrBmp (NotifyFieldChanged ue fid c) = m_hQrBmp c"
  "m_hDefaultLogoBmp (NotifyFieldChanged ue fid c) = m_hDefaultLogoBmp c"
  "m_pEvents (NotifyFieldChanged ue fid c) = m_pEvents c"
  "m_pProviderEvents (NotifyFieldChanged ue fid c) = m_pProviderEvents c"
  "m_providerAdviseContext (NotifyFieldChanged ue fid c) = m_providerAdviseContext c"
  "m_hPollThread (NotifyFieldChanged ue fid c) = m_hPollThread c"
  "m_worker (NotifyFieldChanged ue fid c) = m_worker c"
  "m_job (NotifyFieldChanged ue fid c) = m_job c"
  "m_jobUser (NotifyFieldChanged ue fid c) = m_jobUser c"
  "m_jobDomain (NotifyFieldChanged ue fid c) = m_jobDomain c"
  "m_jobPass (NotifyFieldChanged ue fid c) = m_jobPass c"
  "m_jobOtp (NotifyFieldChanged ue fid c) = m_jobOtp c"
  "m_beginApplied (NotifyFieldChanged ue fid c) = m_beginApplied c"
  by (simp_all add: NotifyFieldChanged_emit)

lemma NotifyFields_sel [simp, frame_facts]:
  "m_config (NotifyFields ue fids c) = m_config c"
  "m_isRemoteSession (NotifyFields ue fids c) = m_isRemoteSession c"
  "m_cpus (NotifyFields ue fids c) = m_cpus c"
  "m_providerFlags (NotifyFields ue fids c) = m_providerFlags c"
  "m_currentMode (NotifyFields ue fids c) = m_currentMode c"
  "m_username (NotifyFields ue fids c) = m_username c"
  "m_domain (NotifyFields ue fids c) = m_domain c"
  "m_usernameRaw (NotifyFields ue fids c) = m_usernameRaw c"
  "m_password (NotifyFields ue fids c) = m_password c"
  "m_otpCode (NotifyFields ue fids c) = m_otpCode c"
  "m_statusText (NotifyFields ue fids c) = m_statusText c"
  "m_numberMatch (NotifyFields ue fids c) = m_numberMatch c"
  "m_authenticated (NotifyFields ue fids c) = m_authenticated c"
  "m_hQrBmp (NotifyFields ue fids c) = m_hQrBmp c"
  "m_hDefaultLogoBmp (NotifyFields ue fids c) = m_hDefaultLogoBmp c"
  "m_pEvents (NotifyFields ue fids c) = m_pEvents c"
  "m_pProviderEvents (NotifyFields ue fids c) = m_pProviderEvents c"
  "m_providerAdviseContext (NotifyFields ue fids c) = m_providerAdviseContext c"
  "m_hPollThread (NotifyFields ue fids c) = m_hPollThread c"
  "m_worker (NotifyFields ue fids c) = m_worker c"
  "m_job (NotifyFields ue fids c) = m_job c"
  "m_jobUser (NotifyFields ue fids c) = m_jobUser c"
  "m_jobDomain (NotifyFields ue fids c) = m_jobDomain c"
  "m_jobPass (NotifyFields ue fids c) = m_jobPass c"
  "m_jobOtp (NotifyFields ue fids c) = m_jobOtp c"
  "m_beginApplied (NotifyFields ue fids c) = m_beginApplied c"
  by (induction fids arbitrary: c; simp)+

lemma NotifyQrChanged_sel [simp, frame_facts]:
  "m_config (NotifyQrChanged ue c) = m_config c"
  "m_isRemoteSession (NotifyQrChanged ue c) = m_isRemoteSession c"
  "m_cpus (NotifyQrChanged ue c) = m_cpus c"
  "m_providerFlags (NotifyQrChanged ue c) = m_providerFlags c"
  "m_currentMode (NotifyQrChanged ue c) = m_currentMode c"
  "m_username (NotifyQrChanged ue c) = m_username c"
  "m_domain (NotifyQrChanged ue c) = m_domain c"
  "m_usernameRaw (NotifyQrChanged ue c) = m_usernameRaw c"
  "m_password (NotifyQrChanged ue c) = m_password c"
  "m_otpCode (NotifyQrChanged ue c) = m_otpCode c"
  "m_statusText (NotifyQrChanged ue c) = m_statusText c"
  "m_numberMatch (NotifyQrChanged ue c) = m_numberMatch c"
  "m_authenticated (NotifyQrChanged ue c) = m_authenticated c"
  "m_hQrBmp (NotifyQrChanged ue c) = m_hQrBmp c"
  "m_hDefaultLogoBmp (NotifyQrChanged ue c) = m_hDefaultLogoBmp c"
  "m_pEvents (NotifyQrChanged ue c) = m_pEvents c"
  "m_pProviderEvents (NotifyQrChanged ue c) = m_pProviderEvents c"
  "m_providerAdviseContext (NotifyQrChanged ue c) = m_providerAdviseContext c"
  "m_hPollThread (NotifyQrChanged ue c) = m_hPollThread c"
  "m_worker (NotifyQrChanged ue c) = m_worker c"
  "m_job (NotifyQrChanged ue c) = m_job c"
  "m_jobUser (NotifyQrChanged ue c) = m_jobUser c"
  "m_jobDomain (NotifyQrChanged ue c) = m_jobDomain c"
  "m_jobPass (NotifyQrChanged ue c) = m_jobPass c"
  "m_jobOtp (NotifyQrChanged ue c) = m_jobOtp c"
  "m_beginApplied (NotifyQrChanged ue c) = m_beginApplied c"
  by (simp_all add: NotifyQrChanged_def Let_def)

lemma NotifyProviderChanged_sel [simp, frame_facts]:
  "m_config (NotifyProviderChanged c) = m_config c"
  "m_isRemoteSession (NotifyProviderChanged c) = m_isRemoteSession c"
  "m_cpus (NotifyProviderChanged c) = m_cpus c"
  "m_providerFlags (NotifyProviderChanged c) = m_providerFlags c"
  "m_currentMode (NotifyProviderChanged c) = m_currentMode c"
  "m_username (NotifyProviderChanged c) = m_username c"
  "m_domain (NotifyProviderChanged c) = m_domain c"
  "m_usernameRaw (NotifyProviderChanged c) = m_usernameRaw c"
  "m_password (NotifyProviderChanged c) = m_password c"
  "m_otpCode (NotifyProviderChanged c) = m_otpCode c"
  "m_statusText (NotifyProviderChanged c) = m_statusText c"
  "m_numberMatch (NotifyProviderChanged c) = m_numberMatch c"
  "m_authenticated (NotifyProviderChanged c) = m_authenticated c"
  "m_hQrBmp (NotifyProviderChanged c) = m_hQrBmp c"
  "m_hDefaultLogoBmp (NotifyProviderChanged c) = m_hDefaultLogoBmp c"
  "m_pEvents (NotifyProviderChanged c) = m_pEvents c"
  "m_pProviderEvents (NotifyProviderChanged c) = m_pProviderEvents c"
  "m_providerAdviseContext (NotifyProviderChanged c) = m_providerAdviseContext c"
  "m_hPollThread (NotifyProviderChanged c) = m_hPollThread c"
  "m_worker (NotifyProviderChanged c) = m_worker c"
  "m_job (NotifyProviderChanged c) = m_job c"
  "m_jobUser (NotifyProviderChanged c) = m_jobUser c"
  "m_jobDomain (NotifyProviderChanged c) = m_jobDomain c"
  "m_jobPass (NotifyProviderChanged c) = m_jobPass c"
  "m_jobOtp (NotifyProviderChanged c) = m_jobOtp c"
  "m_beginApplied (NotifyProviderChanged c) = m_beginApplied c"
  by (simp_all add: NotifyProviderChanged_def)

lemma ClearQrBitmap_sel [simp, frame_facts]:
  "m_config (ClearQrBitmap ue c) = m_config c"
  "m_isRemoteSession (ClearQrBitmap ue c) = m_isRemoteSession c"
  "m_cpus (ClearQrBitmap ue c) = m_cpus c"
  "m_providerFlags (ClearQrBitmap ue c) = m_providerFlags c"
  "m_currentMode (ClearQrBitmap ue c) = m_currentMode c"
  "m_username (ClearQrBitmap ue c) = m_username c"
  "m_domain (ClearQrBitmap ue c) = m_domain c"
  "m_usernameRaw (ClearQrBitmap ue c) = m_usernameRaw c"
  "m_password (ClearQrBitmap ue c) = m_password c"
  "m_otpCode (ClearQrBitmap ue c) = m_otpCode c"
  "m_statusText (ClearQrBitmap ue c) = m_statusText c"
  "m_numberMatch (ClearQrBitmap ue c) = m_numberMatch c"
  "m_authenticated (ClearQrBitmap ue c) = m_authenticated c"
  "m_hDefaultLogoBmp (ClearQrBitmap ue c) = m_hDefaultLogoBmp c"
  "m_pEvents (ClearQrBitmap ue c) = m_pEvents c"
  "m_pProviderEvents (ClearQrBitmap ue c) = m_pProviderEvents c"
  "m_providerAdviseContext (ClearQrBitmap ue c) = m_providerAdviseContext c"
  "m_hPollThread (ClearQrBitmap ue c) = m_hPollThread c"
  "m_worker (ClearQrBitmap ue c) = m_worker c"
  "m_job (ClearQrBitmap ue c) = m_job c"
  "m_jobUser (ClearQrBitmap ue c) = m_jobUser c"
  "m_jobDomain (ClearQrBitmap ue c) = m_jobDomain c"
  "m_jobPass (ClearQrBitmap ue c) = m_jobPass c"
  "m_jobOtp (ClearQrBitmap ue c) = m_jobOtp c"
  "m_beginApplied (ClearQrBitmap ue c) = m_beginApplied c"
  "m_hQrBmp (ClearQrBitmap ue c) = None"
  by (simp_all add: ClearQrBitmap_def)

lemma UpdateFieldStates_sel [simp, frame_facts]:
  "m_config (UpdateFieldStates ue c) = m_config c"
  "m_isRemoteSession (UpdateFieldStates ue c) = m_isRemoteSession c"
  "m_cpus (UpdateFieldStates ue c) = m_cpus c"
  "m_providerFlags (UpdateFieldStates ue c) = m_providerFlags c"
  "m_currentMode (UpdateFieldStates ue c) = m_currentMode c"
  "m_username (UpdateFieldStates ue c) = m_username c"
  "m_domain (UpdateFieldStates ue c) = m_domain c"
  "m_usernameRaw (UpdateFieldStates ue c) = m_usernameRaw c"
  "m_password (UpdateFieldStates ue c) = m_password c"
  "m_otpCode (UpdateFieldStates ue c) = m_otpCode c"
  "m_numberMatch (UpdateFieldStates ue c) = m_numberMatch c"
  "m_authenticated (UpdateFieldStates ue c) = m_authenticated c"
  "m_hQrBmp (UpdateFieldStates ue c) = m_hQrBmp c"
  "m_hDefaultLogoBmp (UpdateFieldStates ue c) = m_hDefaultLogoBmp c"
  "m_pEvents (UpdateFieldStates ue c) = m_pEvents c"
  "m_pProviderEvents (UpdateFieldStates ue c) = m_pProviderEvents c"
  "m_providerAdviseContext (UpdateFieldStates ue c) = m_providerAdviseContext c"
  "m_hPollThread (UpdateFieldStates ue c) = m_hPollThread c"
  "m_worker (UpdateFieldStates ue c) = m_worker c"
  "m_job (UpdateFieldStates ue c) = m_job c"
  "m_jobUser (UpdateFieldStates ue c) = m_jobUser c"
  "m_jobDomain (UpdateFieldStates ue c) = m_jobDomain c"
  "m_jobPass (UpdateFieldStates ue c) = m_jobPass c"
  "m_jobOtp (UpdateFieldStates ue c) = m_jobOtp c"
  "m_beginApplied (UpdateFieldStates ue c) = m_beginApplied c"
  by (simp_all add: UpdateFieldStates_def Let_def)

lemma JoinPollThread_sel [simp, frame_facts]:
  "m_config (JoinPollThread c) = m_config c"
  "m_isRemoteSession (JoinPollThread c) = m_isRemoteSession c"
  "m_cpus (JoinPollThread c) = m_cpus c"
  "m_providerFlags (JoinPollThread c) = m_providerFlags c"
  "m_currentMode (JoinPollThread c) = m_currentMode c"
  "m_username (JoinPollThread c) = m_username c"
  "m_domain (JoinPollThread c) = m_domain c"
  "m_usernameRaw (JoinPollThread c) = m_usernameRaw c"
  "m_password (JoinPollThread c) = m_password c"
  "m_otpCode (JoinPollThread c) = m_otpCode c"
  "m_statusText (JoinPollThread c) = m_statusText c"
  "m_numberMatch (JoinPollThread c) = m_numberMatch c"
  "m_authenticated (JoinPollThread c) = m_authenticated c"
  "m_hQrBmp (JoinPollThread c) = m_hQrBmp c"
  "m_hDefaultLogoBmp (JoinPollThread c) = m_hDefaultLogoBmp c"
  "m_pEvents (JoinPollThread c) = m_pEvents c"
  "m_pProviderEvents (JoinPollThread c) = m_pProviderEvents c"
  "m_providerAdviseContext (JoinPollThread c) = m_providerAdviseContext c"
  "m_beginApplied (JoinPollThread c) = m_beginApplied c"
  "m_hPollThread (JoinPollThread c) = False"
  "m_worker (JoinPollThread c) = WorkerState_init"
  "m_job (JoinPollThread c) = JobNone"
  "m_jobUser (JoinPollThread c) = []" "m_jobDomain (JoinPollThread c) = []"
  "m_jobPass (JoinPollThread c) = []" "m_jobOtp (JoinPollThread c) = []"
  by (simp_all add: JoinPollThread_def)

lemma StopPollThread_eq [simp]: "StopPollThread c = JoinPollThread c"
  by (simp add: StopPollThread_def JoinPollThread_def)

lemma ResetAuthState_begin_sel [simp, frame_facts]:
  "m_config (ResetAuthState_begin ue c) = m_config c"
  "m_isRemoteSession (ResetAuthState_begin ue c) = m_isRemoteSession c"
  "m_cpus (ResetAuthState_begin ue c) = m_cpus c"
  "m_providerFlags (ResetAuthState_begin ue c) = m_providerFlags c"
  "m_currentMode (ResetAuthState_begin ue c) = m_currentMode c"
  "m_username (ResetAuthState_begin ue c) = m_username c"
  "m_domain (ResetAuthState_begin ue c) = m_domain c"
  "m_usernameRaw (ResetAuthState_begin ue c) = m_usernameRaw c"
  "m_password (ResetAuthState_begin ue c) = m_password c"
  "m_statusText (ResetAuthState_begin ue c) = m_statusText c"
  "m_hDefaultLogoBmp (ResetAuthState_begin ue c) = m_hDefaultLogoBmp c"
  "m_pEvents (ResetAuthState_begin ue c) = m_pEvents c"
  "m_pProviderEvents (ResetAuthState_begin ue c) = m_pProviderEvents c"
  "m_providerAdviseContext (ResetAuthState_begin ue c) = m_providerAdviseContext c"
  "m_hPollThread (ResetAuthState_begin ue c) = m_hPollThread c"
  "m_worker (ResetAuthState_begin ue c) = m_worker c"
  "m_job (ResetAuthState_begin ue c) = m_job c"
  "m_jobUser (ResetAuthState_begin ue c) = m_jobUser c"
  "m_jobDomain (ResetAuthState_begin ue c) = m_jobDomain c"
  "m_jobPass (ResetAuthState_begin ue c) = m_jobPass c"
  "m_jobOtp (ResetAuthState_begin ue c) = m_jobOtp c"
  "m_authenticated (ResetAuthState_begin ue c) = False"
  "m_numberMatch (ResetAuthState_begin ue c) = []"
  "m_beginApplied (ResetAuthState_begin ue c) = False"
  "m_otpCode (ResetAuthState_begin ue c) = []"
  "m_hQrBmp (ResetAuthState_begin ue c) = None"
  by (simp_all add: ResetAuthState_begin_def)

lemma ResetAuthState_end_sel [simp, frame_facts]:
  "m_config (ResetAuthState_end ue c) = m_config c"
  "m_isRemoteSession (ResetAuthState_end ue c) = m_isRemoteSession c"
  "m_cpus (ResetAuthState_end ue c) = m_cpus c"
  "m_providerFlags (ResetAuthState_end ue c) = m_providerFlags c"
  "m_currentMode (ResetAuthState_end ue c) = m_currentMode c"
  "m_username (ResetAuthState_end ue c) = m_username c"
  "m_domain (ResetAuthState_end ue c) = m_domain c"
  "m_usernameRaw (ResetAuthState_end ue c) = m_usernameRaw c"
  "m_password (ResetAuthState_end ue c) = m_password c"
  "m_otpCode (ResetAuthState_end ue c) = m_otpCode c"
  "m_statusText (ResetAuthState_end ue c) = m_statusText c"
  "m_numberMatch (ResetAuthState_end ue c) = m_numberMatch c"
  "m_authenticated (ResetAuthState_end ue c) = m_authenticated c"
  "m_hQrBmp (ResetAuthState_end ue c) = m_hQrBmp c"
  "m_hDefaultLogoBmp (ResetAuthState_end ue c) = m_hDefaultLogoBmp c"
  "m_pEvents (ResetAuthState_end ue c) = m_pEvents c"
  "m_pProviderEvents (ResetAuthState_end ue c) = m_pProviderEvents c"
  "m_providerAdviseContext (ResetAuthState_end ue c) = m_providerAdviseContext c"
  "m_beginApplied (ResetAuthState_end ue c) = m_beginApplied c"
  "m_hPollThread (ResetAuthState_end ue c) = False"
  "m_worker (ResetAuthState_end ue c) = WorkerState_init"
  "m_job (ResetAuthState_end ue c) = JobNone"
  "m_jobPass (ResetAuthState_end ue c) = []" "m_jobOtp (ResetAuthState_end ue c) = []"
  by (simp_all add: ResetAuthState_end_def Let_def)

lemma edit_assign_sel [simp, frame_facts]:
  "m_config (edit_assign fid s c) = m_config c"
  "m_isRemoteSession (edit_assign fid s c) = m_isRemoteSession c"
  "m_cpus (edit_assign fid s c) = m_cpus c"
  "m_providerFlags (edit_assign fid s c) = m_providerFlags c"
  "m_currentMode (edit_assign fid s c) = m_currentMode c"
  "m_statusText (edit_assign fid s c) = m_statusText c"
  "m_numberMatch (edit_assign fid s c) = m_numberMatch c"
  "m_authenticated (edit_assign fid s c) = m_authenticated c"
  "m_hQrBmp (edit_assign fid s c) = m_hQrBmp c"
  "m_hDefaultLogoBmp (edit_assign fid s c) = m_hDefaultLogoBmp c"
  "m_pEvents (edit_assign fid s c) = m_pEvents c"
  "m_pProviderEvents (edit_assign fid s c) = m_pProviderEvents c"
  "m_providerAdviseContext (edit_assign fid s c) = m_providerAdviseContext c"
  "m_hPollThread (edit_assign fid s c) = m_hPollThread c"
  "m_worker (edit_assign fid s c) = m_worker c"
  "m_job (edit_assign fid s c) = m_job c"
  "m_jobUser (edit_assign fid s c) = m_jobUser c"
  "m_jobDomain (edit_assign fid s c) = m_jobDomain c"
  "m_jobPass (edit_assign fid s c) = m_jobPass c"
  "m_jobOtp (edit_assign fid s c) = m_jobOtp c"
  "m_beginApplied (edit_assign fid s c) = m_beginApplied c"
  by (simp_all add: edit_assign_def assign_username_def)

end
