(* ===== verification/Bytes.thy ===== *)
theory Bytes
  imports Prelude
begin

text \<open>
  Little-endian bytes of a number and of a wide string, and their readers.  They are shared by
  the theories that lay out memory: the logon buffer and the captured bitmap.
\<close>

fun le_bytes :: "nat \<Rightarrow> nat \<Rightarrow> bytes" where
  "le_bytes 0 n = []"
| "le_bytes (Suc k) n = of_nat n # le_bytes k (n div 256)"

definition le_value :: "bytes \<Rightarrow> nat" where
  "le_value bs = foldr (\<lambda>b n. unat b + 256 * n) bs 0"

definition wstr_bytes :: "wstr \<Rightarrow> bytes" where
  "wstr_bytes w = concat (map (\<lambda>c. le_bytes 2 (unat c)) w)"

fun bytes_wstr :: "bytes \<Rightarrow> wstr" where
  "bytes_wstr (a # b # r) = of_nat (unat a + 256 * unat b) # bytes_wstr r"
| "bytes_wstr _ = []"

lemma length_le_bytes [simp]: "length (le_bytes k n) = k"
  by (induction k arbitrary: n) auto

lemma le_value_le_bytes: "le_value (le_bytes k n) = n mod 256 ^ k"
proof (induction k arbitrary: n)
  case 0
  then show ?case by (simp add: le_value_def)
next
  case (Suc k)
  have "le_value (le_bytes (Suc k) n) = n mod 256 + 256 * le_value (le_bytes k (n div 256))"
    by (simp add: le_value_def unat_of_nat_u8)
  also have "\<dots> = n mod 256 + 256 * (n div 256 mod 256 ^ k)" by (simp add: Suc.IH)
  also have "\<dots> = n mod (256 * 256 ^ k)" by (simp add: mod_mult2_eq add.commute)
  finally show ?case by simp
qed

lemma length_wstr_bytes [simp]: "length (wstr_bytes w) = 2 * length w"
  by (induction w) (auto simp: wstr_bytes_def)

lemma bytes_wstr_bytes: "bytes_wstr (wstr_bytes w) = w"
proof (induction w)
  case Nil
  then show ?case by (simp add: wstr_bytes_def)
next
  case (Cons c w)
  have "unat c mod 256 + 256 * (unat c div 256 mod 256) = unat c"
    using less_mult_imp_div_less [of "unat c" 256 256] unat_u16_less [of c] by simp
  then have "(of_nat (unat c mod 256 + 256 * (unat c div 256 mod 256)) :: wchar) = of_nat (unat c)"
    by (simp only:)
  also have "\<dots> = c" by simp
  finally have "(of_nat (unat c mod 256 + 256 * (unat c div 256 mod 256)) :: wchar) = c" .
  moreover have "bytes_wstr (wstr_bytes (c # w))
      = of_nat (unat c mod 256 + 256 * (unat c div 256 mod 256)) # bytes_wstr (wstr_bytes w)"
    by (simp only: wstr_bytes_def list.map concat.simps le_bytes.simps numeral_2_eq_2 append.simps
        bytes_wstr.simps unat_of_nat_u8)
  ultimately show ?case using Cons by (simp only:)
qed

end
