(* ===== verification/KerbPack.thy ===== *)
theory KerbPack
  imports Std_Strings Bytes
begin

text \<open>
  The credential blobs of \<open>credential_provider/LigamentCredential.cpp\<close>: the machine and domain
  queries, the choice of the logon domain, the authentication package and its cache, and the
  two serializations, \<open>KERB_INTERACTIVE_UNLOCK_LOGON\<close> for the logon screen (byte for byte, in
  the x64 layout) and \<open>CredPackAuthenticationBufferW\<close> for CredUI hosts.  The queries of the OS
  are parameters.  A reader of the Kerberos blob, as Winlogon sees it after relocating the
  offsets, is the specification.
\<close>

subsection \<open>Machine names\<close>

record machine_facts =
  mf_computer :: "wstr option"
  mf_computer_ex :: "wstr option"
  mf_dns_domain :: "wstr option"
  mf_join :: "(bool \<times> wstr option) option"  \<comment> \<open>NetGetJoinInformation: domain joined, the name\<close>
  mf_sam_user :: "wstr \<Rightarrow> bool"               \<comment> \<open>NetUserGetInfo succeeds\<close>

text \<open>The NetBIOS name and the DNS domain; a failed query leaves the out parameter as it was,
  empty here.\<close>

definition GetMachineNames :: "machine_facts \<Rightarrow> wstr \<times> wstr" where
  "GetMachineNames mf =
     (case mf_computer mf of None \<Rightarrow> [] | Some n \<Rightarrow> n,
      case mf_dns_domain mf of None \<Rightarrow> [] | Some d \<Rightarrow> d)"

definition GetMachineAndDomain :: "machine_facts \<Rightarrow> wstr \<times> wstr \<times> bool" where
  "GetMachineAndDomain mf =
     (let nb = (case mf_computer mf of None \<Rightarrow> [] | Some n \<Rightarrow> n);
          netBios = (if nb = [] then (case mf_computer_ex mf of None \<Rightarrow> [] | Some n \<Rightarrow> n) else nb)
      in case mf_join mf of
           Some (True, Some d) \<Rightarrow> (netBios, d, True)
         | _ \<Rightarrow> (netBios, [], False))"

definition EffectiveDomain :: "machine_facts \<Rightarrow> wstr \<Rightarrow> wstr \<Rightarrow> wstr" where
  "EffectiveDomain mf domain user =
     (let (netBios, joinedDomain, isDomainJoined) = GetMachineAndDomain mf;
          d1 = (if domain = [46] \<or> domain = [92] then netBios else domain);
          d2 = (if d1 = [] then
                  (if isDomainJoined then (if mf_sam_user mf user then netBios else joinedDomain)
                   else if netBios \<noteq> [] then netBios else d1)
                else d1)
      in if d2 = [] then (if netBios = [] then [46] else netBios) else d2)"

text \<open>A password that was protected with \<open>CredProtect\<close>: the type query, the size query and the
  decryption; in every other case the password is used as it is.\<close>

record cred_protection =
  cp_protected :: bool
  cp_size :: "nat option"
  cp_plain :: "wstr option"

definition GetPlainPassword :: "(wstr \<Rightarrow> cred_protection) \<Rightarrow> wstr \<Rightarrow> wstr" where
  "GetPlainPassword protection pass =
     (if pass = [] then []
      else let p = protection pass
           in if cp_protected p
              then (case cp_size p of
                      None \<Rightarrow> pass
                    | Some n \<Rightarrow> if 0 < n
                                then (case cp_plain p of
                                        None \<Rightarrow> pass
                                      | Some r \<Rightarrow> takeWhile (\<lambda>c. c \<noteq> 0) (take n r))
                                else pass)
              else pass)"

subsection \<open>The authentication package\<close>

record pkg_cache =
  g_authPkgId :: u32
  g_authPkgValid :: bool
  s_resolved :: bool

definition pkg_cache_init :: pkg_cache where
  "pkg_cache_init = \<lparr>g_authPkgId = 0, g_authPkgValid = False, s_resolved = False\<rparr>"

text \<open>\<open>LsaConnectUntrusted\<close> fails, or each of the three package names is looked up.\<close>

datatype lsa_answer = LsaConnectFailed | LsaLookups "u32 option list"

fun lsa_lookup :: "u32 option list \<Rightarrow> u32 option" where
  "lsa_lookup [] = None"
| "lsa_lookup (Some i # r) = Some i"
| "lsa_lookup (None # r) = lsa_lookup r"

definition GetNegotiateAuthPackage :: "lsa_answer \<Rightarrow> pkg_cache \<Rightarrow> pkg_cache \<times> u32" where
  "GetNegotiateAuthPackage lsa pc =
     (if s_resolved pc then (pc, g_authPkgId pc)
      else case lsa of
        LsaConnectFailed \<Rightarrow> (pc, g_authPkgId pc)
      | LsaLookups rs \<Rightarrow>
          (case lsa_lookup (take 3 rs) of
             Some i \<Rightarrow> (\<lparr>g_authPkgId = i, g_authPkgValid = True, s_resolved = True\<rparr>, i)
           | None \<Rightarrow> (pc\<lparr>g_authPkgId := 0, s_resolved := g_authPkgValid pc\<rparr>, 0)))"

definition pkg_cache_wf :: "pkg_cache \<Rightarrow> bool" where
  "pkg_cache_wf pc \<longleftrightarrow> (s_resolved pc \<longleftrightarrow> g_authPkgValid pc)"

subsection \<open>The blob for the logon screen\<close>

record serialization =
  cs_authPackage :: u32
  cs_blob :: bytes

text \<open>A \<open>UNICODE_STRING\<close> on x64: two lengths, padding, and the buffer as an offset from the
  start of the blob.\<close>

definition ustr_field :: "nat \<Rightarrow> nat \<Rightarrow> bytes" where
  "ustr_field len off = le_bytes 2 len @ le_bytes 2 len @ le_bytes 4 0 @ le_bytes 8 off"

text \<open>\<open>sizeof(KERB_INTERACTIVE_UNLOCK_LOGON)\<close>\<close>

definition kiul_size :: nat where "kiul_size = 64"

definition kiul_header :: "nat \<Rightarrow> nat \<Rightarrow> nat \<Rightarrow> nat \<Rightarrow> bytes" where
  "kiul_header msgType db ub pb =
     le_bytes 4 msgType @ le_bytes 4 0 @ ustr_field db kiul_size @ ustr_field ub (kiul_size + db)
     @ ustr_field pb (kiul_size + db + ub) @ le_bytes 8 0"

definition KerbInteractiveLogonPack ::
    "machine_facts \<Rightarrow> (wstr \<Rightarrow> cred_protection) \<Rightarrow> lsa_answer \<Rightarrow> bool \<Rightarrow> pkg_cache \<Rightarrow> bool
     \<Rightarrow> wstr \<Rightarrow> wstr \<Rightarrow> wstr \<Rightarrow> pkg_cache \<times> (hresult + serialization)" where
  "KerbInteractiveLogonPack mf protection lsa alloc pc unlock domain user password =
     (let effDomain = EffectiveDomain mf domain user;
          plainPassword = GetPlainPassword protection password;
          domainBytes = 2 * length effDomain mod 2 ^ 32;
          userBytes = 2 * length user mod 2 ^ 32;
          passBytes = 2 * length plainPassword mod 2 ^ 32
      in if domainBytes > 0xFFFF \<or> userBytes > 0xFFFF \<or> passBytes > 0xFFFF
         then (pc, Inl E_INVALIDARG)
         else if \<not> alloc then (pc, Inl E_OUTOFMEMORY)
         else
           let blob = kiul_header (if unlock then 7 else 2) domainBytes userBytes passBytes
                        @ take domainBytes (wstr_bytes effDomain)
                        @ take userBytes (wstr_bytes user)
                        @ take passBytes (wstr_bytes plainPassword);
               (pc', authPkg) = GetNegotiateAuthPackage lsa pc
           in if \<not> g_authPkgValid pc' then (pc', Inl E_FAIL)
              else (pc', Inr \<lparr>cs_authPackage = authPkg, cs_blob = blob\<rparr>))"

subsection \<open>The packed buffer for CredUI hosts\<close>

text \<open>The two calls of \<open>CredPackAuthenticationBufferW\<close>: whether the size query succeeded, whether
  its error was \<open>ERROR_INSUFFICIENT_BUFFER\<close>, the size, and the second call's bytes.\<close>

record cred_pack =
  pk_first_ok :: bool
  pk_insufficient :: bool
  pk_size :: nat
  pk_bytes :: "bytes option"

definition CredUiUser :: "wstr \<Rightarrow> wstr \<Rightarrow> wstr \<Rightarrow> wstr" where
  "CredUiUser usernameRaw domain username =
     (if usernameRaw \<noteq> [] then usernameRaw
      else if domain = [] then username else domain @ [92] @ username)"

definition CredUiPackAuthentication ::
    "(bool \<Rightarrow> wstr \<Rightarrow> wstr \<Rightarrow> cred_pack) \<Rightarrow> lsa_answer \<Rightarrow> bool \<Rightarrow> pkg_cache \<Rightarrow> bool \<Rightarrow> wstr \<Rightarrow> wstr
     \<Rightarrow> pkg_cache \<times> (hresult + serialization)" where
  "CredUiPackAuthentication pack lsa alloc pc wow user password =
     (let p = pack wow user password
      in if pk_first_ok p then (pc, Inl E_FAIL)
         else if \<not> pk_insufficient p \<or> pk_size p = 0 then (pc, Inl E_FAIL)
         else if \<not> alloc then (pc, Inl E_OUTOFMEMORY)
         else case pk_bytes p of
           None \<Rightarrow> (pc, Inl E_FAIL)
         | Some b \<Rightarrow>
             (let (pc', authPkg) = GetNegotiateAuthPackage lsa pc
              in if \<not> g_authPkgValid pc' then (pc', Inl E_FAIL)
                 else (pc', Inr \<lparr>cs_authPackage = authPkg, cs_blob = b\<rparr>)))"

subsection \<open>The reader of the specification\<close>

definition read_ustr :: "bytes \<Rightarrow> nat \<Rightarrow> wstr" where
  "read_ustr b off =
     bytes_wstr (take (le_value (take 2 (drop off b))) (drop (le_value (take 8 (drop (off + 8) b))) b))"

definition read_kiul :: "bytes \<Rightarrow> nat \<times> wstr \<times> wstr \<times> wstr" where
  "read_kiul b = (le_value (take 4 b), read_ustr b 8, read_ustr b 24, read_ustr b 40)"

lemma EffectiveDomain_nonempty: "EffectiveDomain mf d u \<noteq> []"
  by (auto simp: EffectiveDomain_def Let_def split: prod.splits)

lemma EffectiveDomain_given:
  "d \<noteq> [] \<Longrightarrow> d \<noteq> [46] \<Longrightarrow> d \<noteq> [92] \<Longrightarrow> EffectiveDomain mf d u = d"
  by (auto simp: EffectiveDomain_def Let_def split: prod.splits)

lemma GetNegotiateAuthPackage_wf:
  "pkg_cache_wf pc \<Longrightarrow> GetNegotiateAuthPackage lsa pc = (pc', i) \<Longrightarrow> pkg_cache_wf pc' \<and> i = g_authPkgId pc'"
  by (auto simp: GetNegotiateAuthPackage_def pkg_cache_wf_def split: if_splits lsa_answer.splits option.splits)

text \<open>Only a successful lookup is cached: a failed one is tried again by the next call.\<close>

lemma GetNegotiateAuthPackage_cache:
  "pkg_cache_wf pc \<Longrightarrow> GetNegotiateAuthPackage lsa pc = (pc', i) \<Longrightarrow>
   g_authPkgValid pc' \<longleftrightarrow> g_authPkgValid pc \<or> (\<exists>rs. lsa = LsaLookups rs \<and> lsa_lookup (take 3 rs) \<noteq> None)"
  by (auto simp: GetNegotiateAuthPackage_def pkg_cache_wf_def split: if_splits lsa_answer.splits option.splits)

lemma length_kiul_header [simp]: "length (kiul_header m d u p) = kiul_size"
  by (simp add: kiul_header_def ustr_field_def kiul_size_def)

lemma kiul_header_fields:
  assumes "m < 256" "d < 65536" "u < 65536" "p < 65536"
  shows "le_value (take 4 (kiul_header m d u p @ r)) = m"
    "le_value (take 2 (drop 8 (kiul_header m d u p @ r))) = d"
    "le_value (take 8 (drop 16 (kiul_header m d u p @ r))) = kiul_size"
    "le_value (take 2 (drop 24 (kiul_header m d u p @ r))) = u"
    "le_value (take 8 (drop 32 (kiul_header m d u p @ r))) = kiul_size + d"
    "le_value (take 2 (drop 40 (kiul_header m d u p @ r))) = p"
    "le_value (take 8 (drop 48 (kiul_header m d u p @ r))) = kiul_size + d + u"
  using assms by (simp_all add: kiul_header_def ustr_field_def kiul_size_def le_value_le_bytes)

lemma read_kiul_header:
  assumes "m < 256" "length D < 65536" "length U < 65536" "length P < 65536"
  shows "read_kiul (kiul_header m (length D) (length U) (length P) @ D @ U @ P)
    = (m, bytes_wstr D, bytes_wstr U, bytes_wstr P)"
proof -
  let ?b = "kiul_header m (length D) (length U) (length P) @ D @ U @ P"
  have d: "drop kiul_size ?b = D @ U @ P"
    "drop (kiul_size + length D) ?b = U @ P"
    "drop (kiul_size + length D + length U) ?b = P"
    by simp_all
  have o: "8 + 8 = (16 :: nat)" "24 + 8 = (32 :: nat)" "40 + 8 = (48 :: nat)" by simp_all
  show ?thesis
    unfolding read_kiul_def read_ustr_def o kiul_header_fields [OF assms] d by simp
qed


definition demo_machine :: machine_facts where
  "demo_machine = \<lparr>mf_computer = Some (wide ''PC''), mf_computer_ex = None, mf_dns_domain = None,
     mf_join = Some (True, Some (wide ''CORP'')), mf_sam_user = (\<lambda>u. u = wide ''admin'')\<rparr>"

definition demo_protection :: "wstr \<Rightarrow> cred_protection" where
  "demo_protection w = \<lparr>cp_protected = False, cp_size = None, cp_plain = None\<rparr>"

lemma demo_pack:
  "KerbInteractiveLogonPack demo_machine demo_protection (LsaLookups [None, Some 2]) True pkg_cache_init
     False [] (wide ''bob'') (wide ''pw'') =
   (\<lparr>g_authPkgId = 2, g_authPkgValid = True, s_resolved = True\<rparr>,
    Inr \<lparr>cs_authPackage = 2, cs_blob = kiul_header 2 8 6 4 @ wstr_bytes (wide ''CORP'')
           @ wstr_bytes (wide ''bob'') @ wstr_bytes (wide ''pw'')\<rparr>)"
  by (simp add: KerbInteractiveLogonPack_def EffectiveDomain_def GetMachineAndDomain_def
      GetPlainPassword_def GetNegotiateAuthPackage_def pkg_cache_init_def demo_machine_def
      demo_protection_def wide_def Let_def)


text \<open>Errors: which refusal is returned when.\<close>

lemma KerbInteractiveLogonPack_errors [outcome_facts]:
  "snd (KerbInteractiveLogonPack mf protection lsa alloc pc unlock d u pw) = Inl e \<Longrightarrow>
   e \<in> {E_INVALIDARG, E_OUTOFMEMORY, E_FAIL}"
  by (auto simp: KerbInteractiveLogonPack_def Let_def split: if_splits prod.splits)

lemma CredUiPackAuthentication_errors [outcome_facts]:
  "snd (CredUiPackAuthentication pack lsa alloc pc wow u pw) = Inl e \<Longrightarrow>
   e \<in> {E_OUTOFMEMORY, E_FAIL}"
  by (auto simp: CredUiPackAuthentication_def Let_def split: if_splits prod.splits option.splits)

text \<open>A blob is only handed out with a package id that a lookup found.\<close>

lemma pack_needs_package:
  "KerbInteractiveLogonPack mf protection lsa alloc pc unlock d u pw = (pc', Inr cs) \<Longrightarrow>
     g_authPkgValid pc'"
  "CredUiPackAuthentication pack lsa alloc pc wow u pw = (pc', Inr cs) \<Longrightarrow> g_authPkgValid pc'"
  by (auto simp: KerbInteractiveLogonPack_def CredUiPackAuthentication_def Let_def
      split: if_splits prod.splits option.splits)

end
