(* ===== verification/CredentialSerialization.thy ===== *)
theory CredentialSerialization
  imports CredentialFrame KerbPack
begin

text \<open>
  \<open>GetSerialization\<close>, \<open>PackAndFinish\<close> and \<open>ReportResult\<close> of
  \<open>credential_provider/LigamentCredential.cpp\<close>: the answer of the tile to a submit, branch by
  branch, and the clean-up after a logon attempt.  The process-wide cache of the
  authentication package is threaded through.
\<close>

datatype serialization_response = CPGSR_NO_CREDENTIAL_NOT_FINISHED | CPGSR_RETURN_CREDENTIAL_FINISHED
datatype status_icon = CPSI_NONE | CPSI_ERROR | CPSI_WARNING

record ser_result =
  sr_response :: serialization_response
  sr_credential :: "serialization option"
  sr_text :: "status_text option"
  sr_icon :: status_icon

record pack_env =
  pe_machine :: machine_facts
  pe_protection :: "wstr \<Rightarrow> cred_protection"
  pe_lsa :: lsa_answer
  pe_alloc :: bool
  pe_credpack :: "bool \<Rightarrow> wstr \<Rightarrow> wstr \<Rightarrow> cred_pack"

definition not_finished :: "status_text option \<Rightarrow> status_icon \<Rightarrow> ser_result" where
  "not_finished txt icon = \<lparr>sr_response = CPGSR_NO_CREDENTIAL_NOT_FINISHED, sr_credential = None,
     sr_text = txt, sr_icon = icon\<rparr>"

subsection \<open>Packing\<close>

text \<open>\<open>CREDUIWIN_PACK_32_WOW\<close> is bit 28 of the provider flags.\<close>

definition pack_wow :: "LigamentCredential \<Rightarrow> bool" where
  "pack_wow c \<longleftrightarrow> m_providerFlags c AND 0x10000000 \<noteq> 0"

definition PackAndFinish :: "pack_env \<Rightarrow> pkg_cache \<Rightarrow> LigamentCredential \<Rightarrow> pkg_cache \<times> ser_result" where
  "PackAndFinish pe pc c =
     (let (pc', r) =
        (if m_cpus c = CPUS_CREDUI
         then CredUiPackAuthentication (pe_credpack pe) (pe_lsa pe) (pe_alloc pe) pc (pack_wow c)
                (CredUiUser (m_usernameRaw c) (m_domain c) (m_username c)) (m_password c)
         else KerbInteractiveLogonPack (pe_machine pe) (pe_protection pe) (pe_lsa pe) (pe_alloc pe) pc
                (m_cpus c = CPUS_UNLOCK_WORKSTATION) (m_domain c) (m_username c) (m_password c))
      in case r of
           Inr cs \<Rightarrow> (pc', \<lparr>sr_response = CPGSR_RETURN_CREDENTIAL_FINISHED, sr_credential = Some cs,
                          sr_text = None, sr_icon = CPSI_NONE\<rparr>)
         | Inl _ \<Rightarrow> (pc', not_finished (Some StInternalError) CPSI_ERROR))"

subsection \<open>The factor modes\<close>

text \<open>The transport failure on which a logon may go on without the second factor.\<close>

definition fail_open :: "LigamentCredential \<Rightarrow> string \<Rightarrow> bool" where
  "fail_open c err \<longleftrightarrow> \<not> failClose (m_config c) \<and> err = ''network_error''"

type_synonym ser_outcome = "pkg_cache \<times> LigamentCredential \<times> ser_result"

definition finish_with :: "pack_env \<Rightarrow> pkg_cache \<Rightarrow> LigamentCredential \<Rightarrow> ser_outcome" where
  "finish_with pe pc c = (case PackAndFinish pe pc c of (pc', r) \<Rightarrow> (pc', c, r))"

definition show_status :: "status_text \<Rightarrow> LigamentCredential \<Rightarrow> LigamentCredential" where
  "show_status st c = (if m_pEvents c then emit [FieldString FID_STATUS_TEXT (StatusText st)] c else c)"

definition SerializeOtp :: "ui_env \<Rightarrow> pack_env \<Rightarrow> pkg_cache \<Rightarrow> LigamentCredential \<Rightarrow> ser_outcome" where
  "SerializeOtp ue pe pc c =
     (if m_otpCode c = [] then (pc, c, not_finished (Some StOtpSix) CPSI_NONE)
      else if \<not> m_hPollThread c
      then (case StartWorkerJob ue JobVerifyOtp StCheckingCode c of
              (c', True) \<Rightarrow> (pc, c', not_finished None CPSI_NONE)
            | (c', False) \<Rightarrow> (pc, c', not_finished (Some StCodeStartFailed) CPSI_ERROR))
      else
        let w = m_worker c; beginOk = (w_beginDone w \<and> w_beginOk w); err = w_beginError w
        in if \<not> w_done w then (pc, c, not_finished None CPSI_NONE)
           else
             let c = JoinPollThread c
             in if beginOk then finish_with pe pc (c\<lparr>m_authenticated := True\<rparr>)
                else if fail_open c err then finish_with pe pc c
                else (pc, c, not_finished
                       (Some (StLoginRejected (DescribeServerError err (w_retryAfterSec w)))) CPSI_ERROR))"

text \<open>Phase 1 failed.\<close>

definition SerializePushFailed :: "ui_env \<Rightarrow> pack_env \<Rightarrow> pkg_cache \<Rightarrow> LigamentCredential \<Rightarrow> ser_outcome" where
  "SerializePushFailed ue pe pc c =
     (let w = m_worker c; err = w_beginError w;
          c = (JoinPollThread c)\<lparr>m_numberMatch := []\<rparr>
      in if fail_open c err then finish_with pe pc c
         else
           let msg = StPushFailed (DescribeServerError err (w_retryAfterSec w));
               c = c\<lparr>m_statusText := msg\<rparr>;
               c = (if m_pEvents c then show_status msg (NotifyFields ue [FID_NUMBER_MATCH, FID_LARGE_TEXT] c) else c)
           in (pc, c, not_finished (Some msg) CPSI_ERROR))"

text \<open>The number is shown once.\<close>

definition apply_push_begin :: "ui_env \<Rightarrow> LigamentCredential \<Rightarrow> LigamentCredential" where
  "apply_push_begin ue c =
     (let w = m_worker c
      in if w_beginDone w \<and> w_beginOk w \<and> \<not> m_beginApplied c
         then NotifyFields ue [FID_STATUS_TEXT, FID_NUMBER_MATCH, FID_LARGE_TEXT]
                (c\<lparr>m_beginApplied := True, m_numberMatch := w_numberMatch w,
                   m_statusText := (if w_numberMatch w \<noteq> [] then StNumberPrompt else StPushSent)\<rparr>)
         else c)"

definition SerializePush :: "ui_env \<Rightarrow> pack_env \<Rightarrow> pkg_cache \<Rightarrow> LigamentCredential \<Rightarrow> ser_outcome" where
  "SerializePush ue pe pc c =
     (if \<not> m_hPollThread c
      then (case StartWorkerJob ue JobStartPush StSendingPush c of
              (c', True) \<Rightarrow> (pc, c', not_finished None CPSI_NONE)
            | (c', False) \<Rightarrow> (pc, c', not_finished (Some StPushStartFailed) CPSI_ERROR))
      else
        let w = m_worker c
        in if w_beginDone w \<and> \<not> w_beginOk w then SerializePushFailed ue pe pc c
           else
             let c = apply_push_begin ue c
             in if \<not> w_done w then (pc, c, not_finished None CPSI_NONE)
                else if w_status w = wide ''approved'' \<or> m_authenticated c
                then finish_with pe pc (show_status StApproved
                       ((JoinPollThread c)\<lparr>m_numberMatch := [], m_authenticated := True, m_statusText := StApproved\<rparr>))
                else
                  let (msg, icon) =
                        (if w_status w = wide ''denied'' then (StDenied, CPSI_ERROR)
                         else if w_status w = wide ''expired'' then (StExpired, CPSI_WARNING)
                         else (StTimeout, CPSI_WARNING));
                      c = (JoinPollThread c)\<lparr>m_numberMatch := [], m_statusText := msg\<rparr>;
                      c = (if m_pEvents c then show_status msg (NotifyFields ue [FID_NUMBER_MATCH, FID_LARGE_TEXT] c) else c)
                  in (pc, c, not_finished (Some msg) icon))"

text \<open>The QR code is drawn once, if the worker has not drawn it.\<close>

definition apply_passkey_begin :: "utf8_codec \<Rightarrow> ui_env \<Rightarrow> LigamentCredential \<Rightarrow> LigamentCredential" where
  "apply_passkey_begin cv ue c =
     (let w = m_worker c
      in if w_beginDone w \<and> w_beginOk w \<and> \<not> m_beginApplied c
         then (let c = c\<lparr>m_beginApplied := True\<rparr>
               in if m_hQrBmp c = None \<and> w_qrUrl w \<noteq> []
                  then NotifyQrChanged ue (UpdateFieldStates ue
                         (c\<lparr>m_hQrBmp := ue_qr ue (WideToUtf8 cv (w_qrUrl w)), m_statusText := StScanQr\<rparr>))
                  else c)
         else c)"

definition SerializeFido2 :: "utf8_codec \<Rightarrow> ui_env \<Rightarrow> pack_env \<Rightarrow> pkg_cache \<Rightarrow> LigamentCredential \<Rightarrow> ser_outcome" where
  "SerializeFido2 cv ue pe pc c =
     (if \<not> m_hPollThread c
      then (let c = TriggerFIDO2Auth ue c
            in if m_authenticated c then finish_with pe pc c else (pc, c, not_finished None CPSI_NONE))
      else
        let w = m_worker c
        in if w_beginDone w \<and> \<not> w_beginOk w
           then (let msg = StPasskeyError (DescribeServerError (w_beginError w) (w_retryAfterSec w));
                     c = (ClearQrBitmap ue (JoinPollThread c))\<lparr>m_statusText := msg\<rparr>
                 in (pc, NotifyFields ue [FID_STATUS_TEXT, FID_LOGO] c, not_finished (Some msg) CPSI_ERROR))
           else
             let c = apply_passkey_begin cv ue c
             in if \<not> w_done w then (pc, c, not_finished None CPSI_NONE)
                else if w_status w = wide ''approved'' \<or> m_authenticated c
                then finish_with pe pc (show_status StApproved
                       ((ClearQrBitmap ue (JoinPollThread c))\<lparr>m_authenticated := True, m_statusText := StApproved\<rparr>))
                else
                  let (msg, icon) =
                        (if w_status w = wide ''denied'' then (StPasskeyDenied, CPSI_ERROR)
                         else if w_status w = wide ''expired'' then (StPasskeyExpiredClick, CPSI_WARNING)
                         else (StPasskeyTimeout, CPSI_WARNING));
                      c = (ClearQrBitmap ue (JoinPollThread c))\<lparr>m_statusText := msg\<rparr>
                  in (pc, show_status msg c, not_finished (Some msg) icon))"

definition GetSerialization ::
    "utf8_codec \<Rightarrow> ui_env \<Rightarrow> pack_env \<Rightarrow> pkg_cache \<Rightarrow> LigamentCredential \<Rightarrow> ser_outcome" where
  "GetSerialization cv ue pe pc c =
     (if m_username c = [] \<or> m_password c = []
      then (pc, c, not_finished (Some StEnterCredentials) CPSI_NONE)
      else if IsBypassAccount (m_config c) (m_username c) (m_domain c) then finish_with pe pc c
      else if m_authenticated c
      then finish_with pe pc ((ClearQrBitmap ue (JoinPollThread c))\<lparr>m_numberMatch := []\<rparr>)
      else case m_currentMode c of
        MODE_OTP \<Rightarrow> SerializeOtp ue pe pc c
      | MODE_PUSH \<Rightarrow> SerializePush ue pe pc c
      | MODE_FIDO2 \<Rightarrow> SerializeFido2 cv ue pe pc c)"

subsection \<open>After the attempt\<close>

text \<open>The diagnostic probes: the domains \<open>LogonUserW\<close> is called with, until one succeeds.\<close>

fun sam_probe_loop :: "(wstr \<Rightarrow> bool) \<Rightarrow> wstr list \<Rightarrow> wstr list" where
  "sam_probe_loop logon [] = []"
| "sam_probe_loop logon (d # ds) =
     (if d = [] then sam_probe_loop logon ds
      else d # (if logon d then [] else sam_probe_loop logon ds))"

definition sam_probes :: "machine_facts \<Rightarrow> (wstr \<Rightarrow> bool) \<Rightarrow> u32 \<Rightarrow> LigamentCredential \<Rightarrow> wstr list" where
  "sam_probes mf logon ntsStatus c =
     (if samProbeEnabled (m_config c) \<and> ntsStatus \<noteq> 0 \<and> m_password c \<noteq> [] \<and> m_username c \<noteq> []
      then (let (nb, dd) = GetMachineNames mf in sam_probe_loop logon [[46], nb, dd])
      else [])"

definition ReportResult_begin :: "ui_env \<Rightarrow> LigamentCredential \<Rightarrow> LigamentCredential" where
  "ReportResult_begin ue c = ResetAuthState_begin ue (c\<lparr>m_password := [], m_otpCode := []\<rparr>)"

definition ReportResult :: "ui_env \<Rightarrow> LigamentCredential \<Rightarrow> LigamentCredential" where
  "ReportResult ue c = ResetAuthState ue (c\<lparr>m_password := [], m_otpCode := []\<rparr>)"

subsection \<open>Outcomes\<close>

lemma PackAndFinish_finished [outcome_facts]:
  "PackAndFinish pe pc c = (pc', r) \<Longrightarrow> sr_response r = CPGSR_RETURN_CREDENTIAL_FINISHED \<longleftrightarrow> sr_credential r \<noteq> None"
  by (auto simp: PackAndFinish_def not_finished_def split: prod.splits sum.splits)

lemma not_finished_sel [simp]:
  "sr_response (not_finished t i) = CPGSR_NO_CREDENTIAL_NOT_FINISHED"
  "sr_credential (not_finished t i) = None"
  "sr_text (not_finished t i) = t"
  by (simp_all add: not_finished_def)

lemma finish_with_sel [simp]:
  "fst (snd (finish_with pe pc c)) = c" "snd (snd (finish_with pe pc c)) = snd (PackAndFinish pe pc c)"
  by (simp_all add: finish_with_def split: prod.split)

lemma finish_with_eq: "finish_with pe pc c = (pc', c', r) \<Longrightarrow> c' = c \<and> PackAndFinish pe pc c = (pc', r)"
  by (simp add: finish_with_def split: prod.splits)

lemma sam_probes_bound: "length (sam_probes mf logon st c) \<le> 3"
  by (simp add: sam_probes_def split: prod.split)

end
