(* ===== verification/CredentialSystem.thy ===== *)
theory CredentialSystem
  imports CredentialSerialization
begin

text \<open>
  The tile as a system of two threads: LogonUI's calls and the worker, interleaved.  A call of
  LogonUI is one step, except where it voids the second factor: \<open>ResetAuthState\<close> clears the
  result first and raises the stop flag later, and the steps \<open>edit_begin\<close>/\<open>edit_end\<close> and
  \<open>report_begin\<close>/\<open>report_end\<close> leave that window open.  The flag \<open>race\<close> of the step relation says
  whether the worker may run inside the window, the flag \<open>reinit\<close> whether the provider may
  initialise a live tile again.

  Three fields are ghosts: \<open>s_job\<close>, the account and password of the last job, \<open>s_approved\<close>,
  those of the job whose second factor was confirmed last, and \<open>s_begin\<close>, the job a worker put to
  the server last, with the network it ran in.
\<close>

datatype ui_pc = UIdle | UEditWindow FIELD_ID wstr | UReportWindow

type_synonym job_identity = "wstr \<times> wstr \<times> wstr" \<comment> \<open>user, domain, password\<close>

record sys =
  s_cred :: LigamentCredential
  s_pc :: worker_pc
  s_cache :: pkg_cache
  s_ui :: ui_pc
  s_job :: job_identity
  s_approved :: "job_identity option"
  s_begin :: "(worker_env \<times> job_locals) option"

definition sys_init :: "ui_env \<Rightarrow> Config \<Rightarrow> bool \<Rightarrow> usage_scenario \<Rightarrow> u32 \<Rightarrow> sys" where
  "sys_init ue cfg remote cpus flags =
     \<lparr>s_cred = Initialize ue cfg remote cpus flags LigamentCredential_new, s_pc = WEnded,
      s_cache = pkg_cache_init, s_ui = UIdle, s_job = ([], [], []), s_approved = None, s_begin = None\<rparr>"

text \<open>The worker thread after a call of LogonUI: joined, freshly started (its job is not taken
  yet), or where it was.\<close>

definition after_ui :: "sys \<Rightarrow> LigamentCredential \<Rightarrow> sys" where
  "after_ui s c' =
     (if \<not> m_hPollThread c' then s\<lparr>s_cred := c', s_pc := WEnded\<rparr>
      else if m_job c' \<noteq> JobNone
      then s\<lparr>s_cred := c', s_pc := WFetch, s_job := (m_jobUser c', m_jobDomain c', m_jobPass c')\<rparr>
      else s\<lparr>s_cred := c'\<rparr>)"

inductive sys_step :: "bool \<Rightarrow> bool \<Rightarrow> sys \<Rightarrow> sys \<Rightarrow> bool" for race reinit where
  worker: "s_pc s \<noteq> WEnded \<Longrightarrow> race \<or> s_ui s = UIdle \<Longrightarrow> worker_step we (s_pc s) (s_cred s) = (pc', c') \<Longrightarrow>
    sys_step race reinit s (s\<lparr>s_pc := pc', s_cred := c',
      s_approved := (if m_authenticated c' \<and> \<not> m_authenticated (s_cred s) then Some (s_job s)
                     else s_approved s),
      s_begin := (case s_pc s of WBegin l \<Rightarrow> Some (we, l) | _ \<Rightarrow> s_begin s)\<rparr>)"
| edit_keep: "s_ui s = UIdle \<Longrightarrow> \<not> edit_resets fid txt (s_cred s) \<Longrightarrow>
    sys_step race reinit s (after_ui s (edit_assign fid txt (s_cred s)))"
| edit_begin: "s_ui s = UIdle \<Longrightarrow> edit_resets fid txt (s_cred s) \<Longrightarrow>
    sys_step race reinit s
      (s\<lparr>s_cred := ResetAuthState_begin ue (s_cred s), s_ui := UEditWindow fid txt\<rparr>)"
| edit_end: "s_ui s = UEditWindow fid txt \<Longrightarrow>
    sys_step race reinit s
      (after_ui (s\<lparr>s_ui := UIdle\<rparr>) (edit_assign fid txt (ResetAuthState_end ue (s_cred s))))"
| report_begin: "s_ui s = UIdle \<Longrightarrow>
    sys_step race reinit s (s\<lparr>s_cred := ReportResult_begin ue (s_cred s), s_ui := UReportWindow\<rparr>)"
| report_end: "s_ui s = UReportWindow \<Longrightarrow>
    sys_step race reinit s (after_ui (s\<lparr>s_ui := UIdle\<rparr>) (ResetAuthState_end ue (s_cred s)))"
| deselect: "s_ui s = UIdle \<Longrightarrow> sys_step race reinit s (after_ui s (SetDeselected ue (s_cred s)))"
| click: "s_ui s = UIdle \<Longrightarrow>
    sys_step race reinit s (after_ui s (CommandLinkClicked ue fid (s_cred s)))"
| submit: "s_ui s = UIdle \<Longrightarrow> GetSerialization cv ue pe (s_cache s) (s_cred s) = (cache', c', r) \<Longrightarrow>
    sys_step race reinit s (after_ui (s\<lparr>s_cache := cache'\<rparr>) c')"
| events: "s_ui s = UIdle \<Longrightarrow>
    sys_step race reinit s (s\<lparr>s_cred := (s_cred s)\<lparr>m_pEvents := b\<rparr>\<rparr>)"
| provider_events: "s_ui s = UIdle \<Longrightarrow>
    sys_step race reinit s
      (s\<lparr>s_cred := (s_cred s)\<lparr>m_pProviderEvents := b, m_providerAdviseContext := ctx\<rparr>\<rparr>)"
| initialize: "reinit \<Longrightarrow> s_ui s = UIdle \<Longrightarrow>
    sys_step race reinit s (s\<lparr>s_cred := Initialize ue cfg remote cpus flags (s_cred s)\<rparr>)"

inductive reachable :: "bool \<Rightarrow> bool \<Rightarrow> sys \<Rightarrow> bool" for race reinit where
  start: "reachable race reinit (sys_init ue cfg remote cpus flags)"
| step: "reachable race reinit s \<Longrightarrow> sys_step race reinit s s' \<Longrightarrow> reachable race reinit s'"

inductive_cases sys_step_cases: "sys_step race reinit s s'"

subsection \<open>Accounts\<close>

text \<open>The account a domain and a user name stand for, up to case and leading backslashes.\<close>

definition fold_pair :: "wstr \<times> wstr \<Rightarrow> wstr \<times> wstr" where
  "fold_pair p = (map fold_wchar (fst p), map fold_wchar (snd p))"

definition account_key :: "wstr \<Rightarrow> wstr \<Rightarrow> wstr \<times> wstr" where
  "account_key d u = fold_pair (if d \<noteq> [] then (d, u) else SplitUserName (dropWhile (\<lambda>c. c = 92) u))"

definition ident :: "LigamentCredential \<Rightarrow> (wstr \<times> wstr) \<times> wstr" where
  "ident c = (account_key (m_domain c) (m_username c), m_password c)"

definition job_ident :: "job_identity \<Rightarrow> (wstr \<times> wstr) \<times> wstr" where
  "job_ident j = (case j of (u, d, p) \<Rightarrow> (account_key d u, p))"

lemma fold_wchar_fix: "fold_wchar c = 92 \<longleftrightarrow> c = 92" "fold_wchar c = 64 \<longleftrightarrow> c = 64"
proof -
  have "fold_wchar c = 92 \<longleftrightarrow> c = 92" if "65 \<le> c" "c \<le> 90"
  proof -
    have "unat (c + 32) = unat c + 32" using that by (simp add: word_le_nat_alt unat_add_lem [THEN iffD1])
    then show ?thesis using that by (auto simp: fold_wchar_def word_le_nat_alt)
  qed
  then show "fold_wchar c = 92 \<longleftrightarrow> c = 92" by (auto simp: fold_wchar_def)
  have "fold_wchar c = 64 \<longleftrightarrow> c = 64" if "65 \<le> c" "c \<le> 90"
  proof -
    have "unat (c + 32) = unat c + 32" using that by (simp add: word_le_nat_alt unat_add_lem [THEN iffD1])
    then show ?thesis using that by (auto simp: fold_wchar_def word_le_nat_alt)
  qed
  then show "fold_wchar c = 64 \<longleftrightarrow> c = 64" by (auto simp: fold_wchar_def)
qed

lemma find_if_fold: "(\<And>c. P (fold_wchar c) = P c) \<Longrightarrow> find_if P (map fold_wchar s) i = find_if P s i"
  by (induction s arbitrary: i) auto

lemma chr_find_fold:
  "chr_find (map fold_wchar s) 92 0 = chr_find s 92 0" "chr_find (map fold_wchar s) 64 0 = chr_find s 64 0"
  by (simp_all add: chr_find_def find_if_fold fold_wchar_fix)

lemma fold_SplitUserName: "fold_pair (SplitUserName raw) = SplitUserName (map fold_wchar raw)"
  by (auto simp: SplitUserName_def fold_pair_def chr_find_fold take_map drop_map split: option.splits)

lemma SplitUserName_no_slash: "92 \<notin> set (fst (SplitUserName raw))"
proof (cases "chr_find raw 92 0")
  case None
  then have "92 \<notin> set raw" by (auto simp: chr_find_def find_if_None)
  then have "92 \<notin> set (drop n raw)" for n by (meson in_set_dropD)
  with None show ?thesis by (auto simp: SplitUserName_def split: option.splits)
next
  case (Some k)
  then have "92 \<notin> set (take k raw)"
    using chr_find_Some [OF Some] by (auto simp: in_set_conv_nth)
  with Some show ?thesis by (simp add: SplitUserName_def)
qed

lemma SplitUserName_slash: "92 \<notin> set d \<Longrightarrow> SplitUserName (d @ 92 # u) = (d, u)"
proof -
  assume "92 \<notin> set d"
  then have "find_if (\<lambda>x. x = 92) (d @ 92 # u) 0 = Some (length d)"
    using find_if_append [of d "\<lambda>x. x = 92" 92 u 0] by auto
  then have "chr_find (d @ 92 # u) 92 0 = Some (length d)" by (simp add: chr_find_def)
  then show ?thesis by (simp add: SplitUserName_def)
qed

lemma SplitUserName_no_domain: "SplitUserName raw = ([], u) \<Longrightarrow> u = raw \<or> raw = 92 # u"
proof -
  assume a: "SplitUserName raw = ([], u)"
  show ?thesis
  proof (cases "chr_find raw 92 0")
    case None
    with a show ?thesis by (auto simp: SplitUserName_def split: option.splits if_splits)
  next
    case (Some k)
    with a have "take k raw = []" "u = drop (k + 1) raw" by (simp_all add: SplitUserName_def)
    moreover have "k < length raw" "raw ! k = 92" using chr_find_Some [OF Some] by auto
    ultimately show ?thesis by (cases raw) auto
  qed
qed

lemma account_key_fold:
  "account_key [] u = SplitUserName (dropWhile (\<lambda>c. c = 92) (map fold_wchar u))"
proof -
  have "dropWhile (\<lambda>c. c = 92) (map fold_wchar u) = map fold_wchar (dropWhile (\<lambda>c. c = 92) u)"
    by (simp add: dropWhile_map o_def fold_wchar_fix)
  then show ?thesis by (simp add: account_key_def fold_SplitUserName)
qed

lemma account_key_split: "account_key (fst (SplitUserName raw)) (snd (SplitUserName raw)) = account_key [] raw"
proof (cases "fst (SplitUserName raw) = []")
  case True
  then obtain u where u: "SplitUserName raw = ([], u)" by (cases "SplitUserName raw") simp
  from SplitUserName_no_domain [OF u] show ?thesis using u by (auto simp: account_key_def)
next
  case False
  have "hd raw \<noteq> 92 \<or> raw = []"
    using False SplitUserName_slash [of "[]" "tl raw"] by (cases raw) auto
  then have "dropWhile (\<lambda>c. c = 92) raw = raw" by (cases raw) auto
  with False show ?thesis by (simp add: account_key_def)
qed

text \<open>An edit of the name that does not void the result names the same account.\<close>

lemma edit_same_account:
  assumes "wcsieq raw (prevRaw c)" and "m_domain c \<noteq> [] \<longrightarrow> 92 \<notin> set (m_domain c)"
  shows "account_key (fst (SplitUserName raw)) (snd (SplitUserName raw))
    = account_key (m_domain c) (m_username c)"
proof (cases "m_domain c = []")
  case True
  then have "map fold_wchar raw = map fold_wchar (m_username c)"
    using assms(1) by (simp add: prevRaw_def wcsieq_def)
  then show ?thesis unfolding account_key_split using True by (simp only: account_key_fold)
next
  case False
  let ?d = "m_domain c" and ?u = "m_username c"
  have "fold_wchar 92 = 92" using fold_wchar_fix(1) by blast
  then have "map fold_wchar raw = map fold_wchar ?d @ 92 # map fold_wchar ?u"
    using assms(1) False by (simp add: prevRaw_def wcsieq_def)
  moreover have "92 \<notin> set (map fold_wchar ?d)" using assms(2) False fold_wchar_fix by auto
  ultimately have f: "fold_pair (SplitUserName raw) = (map fold_wchar ?d, map fold_wchar ?u)"
    by (simp add: fold_SplitUserName SplitUserName_slash)
  then have "fst (SplitUserName raw) \<noteq> []" using False by (auto simp: fold_pair_def)
  with f False show ?thesis by (simp add: account_key_def fold_pair_def)
qed

end
