(* ===== verification/CredentialSafety.thy ===== *)
theory CredentialSafety
  imports CredentialSystem
begin

text \<open>
  The invariant of the tile's two threads, kept by every step in which the worker does not run
  inside the reset window, and what it gives: a finished credential names the account and the
  password whose second factor was confirmed, unless the account is on the bypass list or the
  logon fails open.
\<close>

subsection \<open>The invariant\<close>

definition thread_wf :: "worker_pc \<Rightarrow> job_identity \<Rightarrow> LigamentCredential \<Rightarrow> bool" where
  "thread_wf pc j c \<longleftrightarrow>
     (\<not> m_hPollThread c \<longrightarrow> pc = WEnded) \<and>
     (m_job c \<noteq> JobNone \<longrightarrow> pc = WFetch) \<and>
     (pc = WFetch \<longrightarrow> m_job c \<noteq> JobNone \<and> j = (m_jobUser c, m_jobDomain c, m_jobPass c)) \<and>
     (\<forall>l. pc = WGate l \<or> pc = WBegin l \<longrightarrow> j = (l_user l, l_domain l, l_pass l)) \<and>
     (m_currentMode c = MODE_OTP \<longrightarrow> (pc = WFetch \<longrightarrow> m_job c = JobVerifyOtp) \<and>
        (\<forall>l. pc = WGate l \<or> pc = WBegin l \<longrightarrow> l_job l = JobVerifyOtp) \<and> (\<forall>l i. pc \<noteq> WPoll l i)) \<and>
     \<not> w_stop (m_worker c) \<and>
     (m_domain c \<noteq> [] \<longrightarrow> 92 \<notin> set (m_domain c))"

definition auth_wf :: "worker_pc \<Rightarrow> job_identity \<Rightarrow> job_identity option \<Rightarrow> LigamentCredential \<Rightarrow> bool" where
  "auth_wf pc j ap c \<longleftrightarrow>
     (pc \<noteq> WEnded \<longrightarrow> job_ident j = ident c \<and> \<not> m_authenticated c \<and> \<not> w_done (m_worker c)
        \<and> (w_beginDone (m_worker c) \<longrightarrow> w_beginOk (m_worker c))) \<and>
     (m_authenticated c \<longrightarrow> (\<exists>a. ap = Some a \<and> job_ident a = ident c)) \<and>
     (w_status (m_worker c) = wide ''approved'' \<longrightarrow> m_authenticated c) \<and>
     (m_currentMode c = MODE_OTP \<and> m_hPollThread c \<and> w_done (m_worker c) \<and> w_beginOk (m_worker c)
        \<longrightarrow> m_authenticated c)"

definition sys_wf :: "sys \<Rightarrow> bool" where
  "sys_wf s \<longleftrightarrow> thread_wf (s_pc s) (s_job s) (s_cred s) \<and>
     (if s_ui s = UIdle then auth_wf (s_pc s) (s_job s) (s_approved s) (s_cred s)
      else \<not> m_authenticated (s_cred s))"

subsection \<open>The worker\<close>

definition worker_frame :: "LigamentCredential \<Rightarrow> LigamentCredential \<Rightarrow> bool" where
  "worker_frame c c' \<longleftrightarrow> m_config c' = m_config c \<and> m_cpus c' = m_cpus c \<and> m_username c' = m_username c
     \<and> m_domain c' = m_domain c \<and> m_usernameRaw c' = m_usernameRaw c \<and> m_password c' = m_password c
     \<and> m_otpCode c' = m_otpCode c \<and> m_currentMode c' = m_currentMode c
     \<and> m_hPollThread c' = m_hPollThread c \<and> m_beginApplied c' = m_beginApplied c
     \<and> w_stop (m_worker c') = w_stop (m_worker c)"

lemmas step_defs = gate_step_def push_step_def webauthn_step_def otp_step_def poll_step_def
  poll_timeout_def poll_terminal_def begin_result_def Let_def

lemma gate_step_frame: "gate_step we l c = (pc', c') \<Longrightarrow> worker_frame c c' \<and> m_job c' = m_job c"
  by (auto simp: gate_step_def worker_frame_def split: if_splits)

lemma begin_step_frame: "begin_step we l c = (pc', c') \<Longrightarrow> worker_frame c c' \<and> m_job c' = m_job c"
  by (auto simp: begin_step_def push_step_def webauthn_step_def otp_step_def begin_result_def Let_def
      worker_frame_def split: WorkerJob.splits prod.splits sum.splits if_splits)

lemma poll_step_frame: "poll_step we l i c = (pc', c') \<Longrightarrow> worker_frame c c' \<and> m_job c' = m_job c"
  by (auto simp: poll_step_def poll_terminal_def poll_timeout_def worker_frame_def
      split: prod.splits sum.splits if_splits)

lemma fetch_step_frame: "worker_frame c (snd (fetch_job c))"
  by (simp add: fetch_job_def worker_frame_def)

lemma ident_frame: "worker_frame c c' \<Longrightarrow> ident c' = ident c"
  by (simp add: worker_frame_def ident_def)

text \<open>What each kind of step does to the authentication state.\<close>

definition approves_or_keeps :: "worker_pc \<Rightarrow> LigamentCredential \<Rightarrow> LigamentCredential \<Rightarrow> bool" where
  "approves_or_keeps pc' c c' \<longleftrightarrow>
     (m_authenticated c' \<longrightarrow> m_authenticated c \<or> pc' = WEnded) \<and>
     (w_status (m_worker c') = wide ''approved'' \<longrightarrow> w_status (m_worker c) = wide ''approved'' \<or> m_authenticated c') \<and>
     (m_authenticated c \<longrightarrow> m_authenticated c') \<and>
     (pc' \<noteq> WEnded \<and> \<not> w_done (m_worker c) \<and> (w_beginDone (m_worker c) \<longrightarrow> w_beginOk (m_worker c)) \<longrightarrow>
        \<not> w_done (m_worker c') \<and> (w_beginDone (m_worker c') \<longrightarrow> w_beginOk (m_worker c')))"

lemma wide_neq [simp]: "wide ''timeout'' \<noteq> wide ''approved''" "wide ''denied'' \<noteq> wide ''approved''"
  "wide ''expired'' \<noteq> wide ''approved''" "[] \<noteq> wide ''approved''" "wide ''approved'' \<noteq> []"
  by (simp_all add: wide_def)

lemma gate_step_auth: "gate_step we l c = (pc', c') \<Longrightarrow> approves_or_keeps pc' c c'"
  by (auto simp: gate_step_def approves_or_keeps_def split: if_splits)

lemma begin_step_auth: "begin_step we l c = (pc', c') \<Longrightarrow> approves_or_keeps pc' c c'"
  by (auto simp: begin_step_def push_step_def webauthn_step_def otp_step_def begin_result_def Let_def
      approves_or_keeps_def split: WorkerJob.splits prod.splits sum.splits if_splits)

lemma poll_step_auth: "poll_step we l i c = (pc', c') \<Longrightarrow> approves_or_keeps pc' c c'"
  by (auto simp: poll_step_def poll_terminal_def poll_timeout_def approves_or_keeps_def
      split: prod.splits sum.splits if_splits)

text \<open>A code job only reports success together with the result.\<close>

lemma otp_begin_step:
  "begin_step we l c = (pc', c') \<Longrightarrow> l_job l = JobVerifyOtp \<Longrightarrow> \<not> w_stop (m_worker c) \<Longrightarrow>
   pc' = WEnded \<and> (w_beginOk (m_worker c') \<longrightarrow> m_authenticated c')"
  by (auto simp: begin_step_def otp_step_def begin_result_def Let_def split: prod.splits if_splits)

lemma gate_step_pc: "gate_step we l c = (pc', c') \<Longrightarrow> pc' = WBegin l \<and> c' = c \<or>
    pc' = WEnded \<and> (w_stop (m_worker c) \<or> m_authenticated c')"
  by (auto simp: gate_step_def split: if_splits)

lemma begin_step_pc: "begin_step we l c = (pc', c') \<Longrightarrow> pc' = WEnded \<or> (\<exists>l'. pc' = WPoll l' 0)"
  by (auto simp: begin_step_def push_step_def webauthn_step_def otp_step_def Let_def
      split: WorkerJob.splits prod.splits sum.splits if_splits)

lemma poll_step_pc: "poll_step we l i c = (pc', c') \<Longrightarrow> pc' = WEnded \<or> pc' = WPoll l (Suc i)"
  by (auto simp: poll_step_def split: sum.splits prod.splits if_splits)

lemma worker_step_facts:
  assumes "worker_step we pc c = (pc', c')" "pc \<noteq> WEnded"
  shows "worker_frame c c'" "approves_or_keeps pc' c c'"
    "pc \<noteq> WFetch \<longrightarrow> m_job c' = m_job c"
proof -
  have fetch: "pc = WFetch \<Longrightarrow> pc' = WGate (fst (fetch_job c)) \<and> c' = snd (fetch_job c)"
    using assms(1) by (simp add: worker_step_def)
  show "worker_frame c c'"
    using assms fetch gate_step_frame begin_step_frame poll_step_frame fetch_step_frame
    by (cases pc) (auto simp: worker_step_def)
  show "approves_or_keeps pc' c c'"
    using assms fetch gate_step_auth begin_step_auth poll_step_auth
    by (cases pc) (auto simp: worker_step_def approves_or_keeps_def fetch_job_def)
  show "pc \<noteq> WFetch \<longrightarrow> m_job c' = m_job c"
    using assms gate_step_frame begin_step_frame poll_step_frame
    by (cases pc) (auto simp: worker_step_def)
qed

lemma worker_step_thread:
  assumes wf: "thread_wf pc j c" and pc: "pc \<noteq> WEnded" and st: "worker_step we pc c = (pc', c')"
  shows "thread_wf pc' j c'"
proof -
  note f = worker_step_facts [OF st pc]
  have h: "m_hPollThread c" using wf pc by (auto simp: thread_wf_def)
  show ?thesis
  proof (cases pc)
    case WFetch
    with st have "pc' = WGate (fst (fetch_job c))" "c' = snd (fetch_job c)" by (simp_all add: worker_step_def)
    with WFetch wf h show ?thesis by (auto simp: thread_wf_def fetch_job_def)
  next
    case (WGate l)
    with st have g: "gate_step we l c = (pc', c')" by (simp add: worker_step_def)
    show ?thesis
      using wf h WGate f gate_step_pc [OF g] by (auto simp: thread_wf_def worker_frame_def)
  next
    case (WBegin l)
    with st have g: "begin_step we l c = (pc', c')" by (simp add: worker_step_def)
    have "l_job l = JobVerifyOtp \<longrightarrow> pc' = WEnded"
      using otp_begin_step [OF g] wf by (auto simp: thread_wf_def)
    then show ?thesis
      using wf h WBegin f begin_step_pc [OF g] by (auto simp: thread_wf_def worker_frame_def)
  next
    case (WPoll l i)
    with st have g: "poll_step we l i c = (pc', c')" by (simp add: worker_step_def)
    show ?thesis
      using wf h WPoll f poll_step_pc [OF g] by (auto simp: thread_wf_def worker_frame_def)
  next
    case WEnded
    with pc show ?thesis by simp
  qed
qed

lemma worker_step_otp:
  assumes wf: "thread_wf pc j c" and au: "auth_wf pc j ap c" and pc: "pc \<noteq> WEnded"
    and st: "worker_step we pc c = (pc', c')"
    and otp: "m_currentMode c = MODE_OTP" and d: "w_done (m_worker c')" "w_beginOk (m_worker c')"
  shows "m_authenticated c'"
proof (cases pc)
  case WFetch
  with st have "c' = snd (fetch_job c)" by (simp add: worker_step_def)
  then have "w_done (m_worker c)" using d by (simp add: fetch_job_def)
  with au pc show ?thesis by (simp add: auth_wf_def)
next
  case (WGate l)
  with st have g: "gate_step we l c = (pc', c')" by (simp add: worker_step_def)
  show ?thesis
    using gate_step_pc [OF g] au pc d wf by (auto simp: auth_wf_def thread_wf_def)
next
  case (WBegin l)
  with st have g: "begin_step we l c = (pc', c')" by (simp add: worker_step_def)
  show ?thesis
    using otp_begin_step [OF g] d wf otp WBegin by (auto simp: thread_wf_def)
next
  case (WPoll l i)
  with wf otp show ?thesis by (auto simp: thread_wf_def)
qed (use pc in simp)

lemma worker_step_auth:
  assumes wf: "thread_wf pc j c" and au: "auth_wf pc j ap c" and pc: "pc \<noteq> WEnded"
    and st: "worker_step we pc c = (pc', c')"
  shows "auth_wf pc' j (if m_authenticated c' \<and> \<not> m_authenticated c then Some j else ap) c'"
proof -
  note f = worker_step_facts [OF st pc]
  have a: "job_ident j = ident c" "\<not> m_authenticated c" "\<not> w_done (m_worker c)"
    "w_beginDone (m_worker c) \<longrightarrow> w_beginOk (m_worker c)" "w_status (m_worker c) \<noteq> wide ''approved''"
    using au pc by (auto simp: auth_wf_def)
  have k: "m_currentMode c' = m_currentMode c" using f(1) by (simp add: worker_frame_def)
  show ?thesis
    unfolding auth_wf_def using a f(2) ident_frame [OF f(1)] worker_step_otp [OF wf au pc st] k
    by (auto simp: approves_or_keeps_def)
qed

subsection \<open>LogonUI's calls\<close>

definition untouched :: "LigamentCredential \<Rightarrow> LigamentCredential \<Rightarrow> bool" where
  "untouched c c' \<longleftrightarrow> m_hPollThread c' = m_hPollThread c \<and> m_worker c' = m_worker c \<and> m_job c' = m_job c
     \<and> m_jobUser c' = m_jobUser c \<and> m_jobDomain c' = m_jobDomain c \<and> m_jobPass c' = m_jobPass c
     \<and> m_currentMode c' = m_currentMode c \<and> m_config c' = m_config c \<and> m_cpus c' = m_cpus c"

definition joined :: "LigamentCredential \<Rightarrow> bool" where
  "joined c' \<longleftrightarrow> \<not> m_hPollThread c' \<and> m_worker c' = WorkerState_init \<and> m_job c' = JobNone"

definition started :: "LigamentCredential \<Rightarrow> bool" where
  "started c' \<longleftrightarrow> m_hPollThread c' \<and> m_worker c' = WorkerState_init \<and> m_job c' \<noteq> JobNone
     \<and> m_jobUser c' = m_username c' \<and> m_jobDomain c' = m_domain c' \<and> m_jobPass c' = m_password c'
     \<and> \<not> m_authenticated c' \<and> (m_currentMode c' = MODE_OTP \<longrightarrow> m_job c' = JobVerifyOtp)"

definition ui_shape :: "LigamentCredential \<Rightarrow> LigamentCredential \<Rightarrow> bool" where
  "ui_shape c c' \<longleftrightarrow> ident c' = ident c \<and> m_domain c' = m_domain c
     \<and> (m_authenticated c' \<longrightarrow> m_authenticated c)
     \<and> (untouched c c' \<and> m_authenticated c' = m_authenticated c \<or> joined c' \<or> started c')"

lemma WorkerState_init_sel [simp]:
  "w_stop WorkerState_init = False" "w_done WorkerState_init = False"
  "w_beginDone WorkerState_init = False" "w_beginOk WorkerState_init = False"
  "w_status WorkerState_init = []"
  by (simp_all add: WorkerState_init_def)

lemma after_ui_wf:
  assumes t: "thread_wf (s_pc s) (s_job s) c" and a: "auth_wf (s_pc s) (s_job s) (s_approved s) c"
    and u: "s_ui s = UIdle" and sh: "ui_shape c c'"
  shows "sys_wf (after_ui s c')"
proof -
  have i: "ident c' = ident c" and d: "m_domain c' = m_domain c"
    and au: "m_authenticated c' \<longrightarrow> m_authenticated c"
    using sh by (simp_all add: ui_shape_def)
  have f: "s_cred (after_ui s c') = c'" "s_ui (after_ui s c') = UIdle" "s_approved (after_ui s c') = s_approved s"
    using u by (simp_all add: after_ui_def)
  from sh consider (untouched) "untouched c c'" "m_authenticated c' = m_authenticated c"
    | (joined) "joined c'" | (started) "started c'"
    by (auto simp: ui_shape_def)
  then show ?thesis
  proof cases
    case untouched
    have x: "m_hPollThread c' = m_hPollThread c" "m_job c' = m_job c"
      "m_jobUser c' = m_jobUser c" "m_jobDomain c' = m_jobDomain c" "m_jobPass c' = m_jobPass c"
      using untouched(1) by (simp_all add: untouched_def)
    have t': "\<not> m_hPollThread c \<Longrightarrow> s_pc s = WEnded" "m_job c \<noteq> JobNone \<Longrightarrow> s_pc s = WFetch"
      "s_pc s = WFetch \<Longrightarrow> s_job s = (m_jobUser c, m_jobDomain c, m_jobPass c)"
      using t by (simp_all add: thread_wf_def)
    have e: "s_pc (after_ui s c') = s_pc s" "s_job (after_ui s c') = s_job s"
      by (cases "m_hPollThread c"; cases "m_job c = JobNone"; simp add: after_ui_def x t')+
    have y: "m_worker c' = m_worker c" "m_currentMode c' = m_currentMode c"
      using untouched(1) by (simp_all add: untouched_def)
    have "thread_wf (s_pc s) (s_job s) c'"
      using t unfolding thread_wf_def x y d .
    moreover have "auth_wf (s_pc s) (s_job s) (s_approved s) c'"
      using a unfolding auth_wf_def x y i untouched(2) .
    ultimately show ?thesis by (simp add: sys_wf_def f e)
  next
    case joined
    then have e: "s_pc (after_ui s c') = WEnded" by (simp add: after_ui_def joined_def)
    have "thread_wf WEnded (s_job (after_ui s c')) c'"
      using t joined d unfolding thread_wf_def joined_def by simp
    moreover have "auth_wf WEnded (s_job (after_ui s c')) (s_approved s) c'"
      using a joined i au unfolding auth_wf_def joined_def by simp
    ultimately show ?thesis by (simp add: sys_wf_def f e)
  next
    case started
    then have e: "s_pc (after_ui s c') = WFetch"
      "s_job (after_ui s c') = (m_jobUser c', m_jobDomain c', m_jobPass c')"
      by (simp_all add: after_ui_def started_def)
    from started have j: "job_ident (m_jobUser c', m_jobDomain c', m_jobPass c') = ident c'"
      by (simp add: started_def job_ident_def ident_def)
    have "thread_wf WFetch (m_jobUser c', m_jobDomain c', m_jobPass c') c'"
      using t started d unfolding thread_wf_def started_def by simp
    moreover have "auth_wf WFetch (m_jobUser c', m_jobDomain c', m_jobPass c') (s_approved s) c'"
      using started j unfolding auth_wf_def started_def by simp
    ultimately show ?thesis by (simp add: sys_wf_def f e)
  qed
qed

lemma ident_cong:
  "m_domain c' = m_domain c \<Longrightarrow> m_username c' = m_username c \<Longrightarrow> m_password c' = m_password c \<Longrightarrow> ident c' = ident c"
  by (simp add: ident_def)

lemma StartWorkerJob_shape:
  assumes "StartWorkerJob ue job st c = (c', ok)" "job \<noteq> JobNone" "\<not> m_authenticated c"
    "m_currentMode c = MODE_OTP \<longrightarrow> job = JobVerifyOtp"
  shows "ident c' = ident c \<and> m_domain c' = m_domain c \<and> \<not> m_authenticated c' \<and> m_currentMode c' = m_currentMode c
    \<and> (if ok then started c' else joined c')"
  using assms by (auto simp: StartWorkerJob_def Let_def started_def joined_def ident_def split: if_splits)

lemma TriggerFIDO2Auth_shape:
  assumes "m_currentMode c = MODE_FIDO2"
  shows "ui_shape c (TriggerFIDO2Auth ue c) \<and> m_authenticated (TriggerFIDO2Auth ue c) = m_authenticated c"
proof (cases "m_username c = [] \<or> m_password c = [] \<or> m_authenticated c")
  case True
  then show ?thesis
    by (auto simp: TriggerFIDO2Auth_def ui_shape_def untouched_def ident_def)
next
  case False
  obtain c' ok where st: "StartWorkerJob ue JobWebAuthnBegin StPasskeyGenerating c = (c', ok)"
    by fastforce
  have "ident c' = ident c \<and> m_domain c' = m_domain c \<and> \<not> m_authenticated c' \<and> m_currentMode c' = m_currentMode c
    \<and> (if ok then started c' else joined c')"
    using StartWorkerJob_shape [OF st] False assms by simp
  with False st show ?thesis
    by (auto simp: TriggerFIDO2Auth_def ui_shape_def joined_def ident_def)
qed

lemma ui_shape_trans_joined:
  "ident c1 = ident c \<Longrightarrow> m_domain c1 = m_domain c \<Longrightarrow> m_authenticated c1 = m_authenticated c \<Longrightarrow> joined c1 \<Longrightarrow>
   ui_shape c1 c2 \<Longrightarrow> ui_shape c c2"
  by (auto simp: ui_shape_def joined_def untouched_def)

lemma SwitchToMode_shape: "ui_shape c (SwitchToMode ue m c)"
proof (cases "m = MODE_FIDO2 \<and> \<not> Fido2Allowed c \<or> m_currentMode c = m")
  case True
  then show ?thesis by (auto simp: SwitchToMode_def ui_shape_def untouched_def)
next
  case False
  define c1 where "c1 = UpdateFieldStates ue
    (let c = (ClearQrBitmap ue (StopPollThread c))\<lparr>m_currentMode := m, m_numberMatch := []\<rparr>
     in c\<lparr>m_statusText := (case m of
                    MODE_PUSH \<Rightarrow> StPressToPush
                  | MODE_OTP \<Rightarrow> StOtpOnce
                  | MODE_FIDO2 \<Rightarrow> if m_username c \<noteq> [] \<and> m_password c \<noteq> [] then StPasskeyGenerating
                                  else StPasskeyEnter)\<rparr>)"
  have c1: "ident c1 = ident c" "m_domain c1 = m_domain c" "m_authenticated c1 = m_authenticated c"
    "joined c1" "m_currentMode c1 = m"
    by (simp_all add: c1_def Let_def ident_def joined_def)
  have e: "SwitchToMode ue m c =
      (if m_currentMode c1 = MODE_FIDO2 \<and> m_username c1 \<noteq> [] \<and> m_password c1 \<noteq> []
       then TriggerFIDO2Auth ue c1 else c1)"
  proof -
    have n: "\<not> (m = MODE_FIDO2 \<and> \<not> Fido2Allowed c)" "m_currentMode c \<noteq> m" using False by simp_all
    show ?thesis unfolding SwitchToMode_def c1_def Let_def by (simp only: n if_False)
  qed
  have "ui_shape c1 (SwitchToMode ue m c)"
    unfolding e using TriggerFIDO2Auth_shape [of c1 ue]
    by (auto simp: ui_shape_def untouched_def)
  with c1 show ?thesis by (intro ui_shape_trans_joined [of c1 c])
qed

lemma ui_shape_refl: "ui_shape c c"
  by (simp add: ui_shape_def untouched_def)

lemma CommandLinkClicked_shape: "ui_shape c (CommandLinkClicked ue fid c)"
  by (simp add: CommandLinkClicked_def SwitchToMode_shape ui_shape_refl)

lemma SetDeselected_shape: "ui_shape c (SetDeselected ue c)"
proof (cases "\<not> m_hPollThread c \<and> \<not> m_authenticated c")
  case True
  then have e: "SetDeselected ue c = ResetAuthState_end ue (ResetAuthState_begin ue c)"
    by (simp add: SetDeselected_def ResetAuthState_def)
  have "joined (SetDeselected ue c)" unfolding e joined_def by simp
  moreover have "ident (SetDeselected ue c) = ident c" "m_domain (SetDeselected ue c) = m_domain c"
    "\<not> m_authenticated (SetDeselected ue c)"
    unfolding e ident_def by simp_all
  ultimately show ?thesis by (simp add: ui_shape_def)
next
  case False
  then have "SetDeselected ue c = c" by (subst SetDeselected_def, intro if_not_P)
  then show ?thesis by (simp add: ui_shape_refl)
qed

end
