(* ===== verification/CredentialFinish.thy ===== *)
theory CredentialFinish
  imports CredentialSafety
begin

text \<open>
  Submitting the tile keeps the invariant, and what a finished credential rests on; then the
  invariant for the whole system.
\<close>

lemma finish_with_shape: "finish_with pe pc c0 = (pc', c', r) \<Longrightarrow> c' = c0"
  by (simp add: finish_with_def split: prod.splits)

lemma show_status_sel [simp]:
  "m_username (show_status st c) = m_username c" "m_domain (show_status st c) = m_domain c"
  "m_password (show_status st c) = m_password c" "m_authenticated (show_status st c) = m_authenticated c"
  "m_hPollThread (show_status st c) = m_hPollThread c" "m_worker (show_status st c) = m_worker c"
  "m_job (show_status st c) = m_job c" "m_config (show_status st c) = m_config c" "m_cpus (show_status st c) = m_cpus c"
  by (simp_all add: show_status_def)

lemma joined_shape:
  "joined c' \<Longrightarrow> m_username c' = m_username c \<Longrightarrow> m_domain c' = m_domain c \<Longrightarrow> m_password c' = m_password c \<Longrightarrow>
   (m_authenticated c' \<longrightarrow> m_authenticated c) \<Longrightarrow> ui_shape c c'"
  by (simp add: ui_shape_def ident_def)

lemma started_shape:
  assumes "StartWorkerJob ue job st c = (c', ok)" "job \<noteq> JobNone" "\<not> m_authenticated c"
    "m_currentMode c = MODE_OTP \<longrightarrow> job = JobVerifyOtp"
  shows "ui_shape c c'"
  using StartWorkerJob_shape [OF assms] by (auto simp: ui_shape_def split: if_splits)

subsection \<open>The code mode\<close>

lemma SerializeOtp_shape:
  assumes st: "SerializeOtp ue pe pc c = (pc', c', r)" and m: "m_currentMode c = MODE_OTP"
    and na: "\<not> m_authenticated c"
    and a4: "m_hPollThread c \<and> w_done (m_worker c) \<and> w_beginOk (m_worker c) \<longrightarrow> m_authenticated c"
  shows "ui_shape c c' \<and> (sr_response r = CPGSR_RETURN_CREDENTIAL_FINISHED \<longrightarrow>
    m_hPollThread c \<and> fail_open c (w_beginError (m_worker c)) \<and> \<not> w_beginOk (m_worker c))"
proof (cases "m_otpCode c = []")
  case True
  with st show ?thesis by (auto simp: SerializeOtp_def ui_shape_refl)
next
  case code: False
  show ?thesis
  proof (cases "m_hPollThread c")
    case False
    obtain c1 ok where s1: "StartWorkerJob ue JobVerifyOtp StCheckingCode c = (c1, ok)" by fastforce
    with st code False have "c' = c1" "sr_response r = CPGSR_NO_CREDENTIAL_NOT_FINISHED"
      by (auto simp: SerializeOtp_def split: bool.splits)
    then show ?thesis using started_shape [OF s1] na by simp
  next
    case live: True
    show ?thesis
    proof (cases "w_done (m_worker c)")
      case False
      with st code live show ?thesis by (auto simp: SerializeOtp_def Let_def ui_shape_refl)
    next
      case True
      with a4 na live have nb: "\<not> w_beginOk (m_worker c)" by simp
      have j: "ui_shape c (JoinPollThread c)" by (rule joined_shape) (simp_all add: joined_def)
      have fo: "fail_open (JoinPollThread c) e = fail_open c e" for e by (simp add: fail_open_def)
      show ?thesis
      proof (cases "fail_open c (w_beginError (m_worker c))")
        case f: True
        with st code live True nb have "finish_with pe pc (JoinPollThread c) = (pc', c', r)"
          by (simp add: SerializeOtp_def Let_def fo)
        then have "c' = JoinPollThread c" by (rule finish_with_shape)
        with j f nb live show ?thesis by simp
      next
        case False
        with st code live True nb have "c' = JoinPollThread c" "sr_response r = CPGSR_NO_CREDENTIAL_NOT_FINISHED"
          by (auto simp: SerializeOtp_def Let_def fo)
        with j show ?thesis by simp
      qed
    qed
  qed
qed

subsection \<open>The push mode\<close>

lemma apply_push_begin_sel [simp]:
  "m_username (apply_push_begin ue c) = m_username c" "m_domain (apply_push_begin ue c) = m_domain c"
  "m_password (apply_push_begin ue c) = m_password c" "m_authenticated (apply_push_begin ue c) = m_authenticated c"
  "m_hPollThread (apply_push_begin ue c) = m_hPollThread c" "m_worker (apply_push_begin ue c) = m_worker c"
  "m_job (apply_push_begin ue c) = m_job c" "m_jobUser (apply_push_begin ue c) = m_jobUser c"
  "m_jobDomain (apply_push_begin ue c) = m_jobDomain c" "m_jobPass (apply_push_begin ue c) = m_jobPass c"
  "m_currentMode (apply_push_begin ue c) = m_currentMode c" "m_config (apply_push_begin ue c) = m_config c" "m_cpus (apply_push_begin ue c) = m_cpus c"
  by (simp_all add: apply_push_begin_def Let_def)

lemma SerializePushFailed_shape:
  assumes "SerializePushFailed ue pe pc c = (pc', c', r)" "\<not> m_authenticated c"
  shows "ui_shape c c' \<and> (sr_response r = CPGSR_RETURN_CREDENTIAL_FINISHED \<longrightarrow>
    fail_open c (w_beginError (m_worker c)))"
proof (cases "fail_open c (w_beginError (m_worker c))")
  case True
  then have "c' = (JoinPollThread c)\<lparr>m_numberMatch := []\<rparr>"
    using assms(1) by (auto simp: SerializePushFailed_def Let_def fail_open_def dest: finish_with_shape)
  with True show ?thesis by (auto intro!: joined_shape simp: joined_def assms(2))
next
  case False
  then have "joined c' \<and> m_username c' = m_username c \<and> m_domain c' = m_domain c \<and> m_password c' = m_password c
      \<and> \<not> m_authenticated c' \<and> sr_response r = CPGSR_NO_CREDENTIAL_NOT_FINISHED"
    using assms by (cases "m_pEvents c") (auto simp: SerializePushFailed_def Let_def fail_open_def joined_def)
  then show ?thesis by (auto intro!: joined_shape)
qed

lemma SerializePush_shape:
  assumes st: "SerializePush ue pe pc c = (pc', c', r)" and m: "m_currentMode c = MODE_PUSH"
    and na: "\<not> m_authenticated c" and a3: "w_status (m_worker c) \<noteq> wide ''approved''"
  shows "ui_shape c c' \<and> (sr_response r = CPGSR_RETURN_CREDENTIAL_FINISHED \<longrightarrow>
    m_hPollThread c \<and> fail_open c (w_beginError (m_worker c)) \<and> \<not> w_beginOk (m_worker c))"
proof (cases "m_hPollThread c")
  case False
  obtain c1 ok where s1: "StartWorkerJob ue JobStartPush StSendingPush c = (c1, ok)" by fastforce
  with st False have "c' = c1" "sr_response r = CPGSR_NO_CREDENTIAL_NOT_FINISHED"
    by (auto simp: SerializePush_def split: bool.splits)
  then show ?thesis using started_shape [OF s1] na m by simp
next
  case live: True
  show ?thesis
  proof (cases "w_beginDone (m_worker c) \<and> \<not> w_beginOk (m_worker c)")
    case True
    with st live have "SerializePushFailed ue pe pc c = (pc', c', r)" by (simp add: SerializePush_def)
    from SerializePushFailed_shape [OF this na] True live show ?thesis by simp
  next
    case False
    have n: "\<not> (w_status (m_worker c) = wide ''approved'' \<or> m_authenticated (apply_push_begin ue c))"
      using a3 na by simp
    have "sr_response r = CPGSR_NO_CREDENTIAL_NOT_FINISHED"
      using st live False n by (auto simp: SerializePush_def Let_def split: prod.splits if_splits)
    moreover have "ui_shape c c'"
    proof (cases "w_done (m_worker c)")
      case d: False
      then have "c' = apply_push_begin ue c" using st live False by (auto simp: SerializePush_def Let_def)
      then show ?thesis by (simp add: ui_shape_def untouched_def ident_def)
    next
      case True
      then have "joined c' \<and> m_username c' = m_username c \<and> m_domain c' = m_domain c
          \<and> m_password c' = m_password c \<and> \<not> m_authenticated c'"
        using st live False n na
        by (auto simp: SerializePush_def Let_def joined_def split: prod.splits if_splits)
      then show ?thesis by (auto intro!: joined_shape)
    qed
    ultimately show ?thesis by simp
  qed
qed

subsection \<open>The passkey mode\<close>

lemma apply_passkey_begin_sel [simp]:
  "m_username (apply_passkey_begin cv ue c) = m_username c" "m_domain (apply_passkey_begin cv ue c) = m_domain c"
  "m_password (apply_passkey_begin cv ue c) = m_password c"
  "m_authenticated (apply_passkey_begin cv ue c) = m_authenticated c"
  "m_hPollThread (apply_passkey_begin cv ue c) = m_hPollThread c" "m_worker (apply_passkey_begin cv ue c) = m_worker c"
  "m_job (apply_passkey_begin cv ue c) = m_job c" "m_jobUser (apply_passkey_begin cv ue c) = m_jobUser c"
  "m_jobDomain (apply_passkey_begin cv ue c) = m_jobDomain c" "m_jobPass (apply_passkey_begin cv ue c) = m_jobPass c"
  "m_currentMode (apply_passkey_begin cv ue c) = m_currentMode c" "m_config (apply_passkey_begin cv ue c) = m_config c" "m_cpus (apply_passkey_begin cv ue c) = m_cpus c"
  by (simp_all add: apply_passkey_begin_def Let_def)

lemma SerializeFido2_shape:
  assumes st: "SerializeFido2 cv ue pe pc c = (pc', c', r)" and m: "m_currentMode c = MODE_FIDO2"
    and na: "\<not> m_authenticated c" and a3: "w_status (m_worker c) \<noteq> wide ''approved''"
  shows "ui_shape c c' \<and> sr_response r = CPGSR_NO_CREDENTIAL_NOT_FINISHED"
proof (cases "m_hPollThread c")
  case False
  have t: "ui_shape c (TriggerFIDO2Auth ue c)" "\<not> m_authenticated (TriggerFIDO2Auth ue c)"
    using TriggerFIDO2Auth_shape [OF m, of ue] na by simp_all
  with st False have "c' = TriggerFIDO2Auth ue c" "sr_response r = CPGSR_NO_CREDENTIAL_NOT_FINISHED"
    by (auto simp: SerializeFido2_def Let_def)
  with t show ?thesis by simp
next
  case live: True
  show ?thesis
  proof (cases "w_beginDone (m_worker c) \<and> \<not> w_beginOk (m_worker c)")
    case True
    then have "joined c' \<and> m_username c' = m_username c \<and> m_domain c' = m_domain c
          \<and> m_password c' = m_password c \<and> \<not> m_authenticated c' \<and> sr_response r = CPGSR_NO_CREDENTIAL_NOT_FINISHED"
      using st live na by (auto simp: SerializeFido2_def Let_def joined_def)
    then show ?thesis by (auto intro!: joined_shape)
  next
    case False
    have n: "\<not> (w_status (m_worker c) = wide ''approved'' \<or> m_authenticated (apply_passkey_begin cv ue c))"
      using a3 na by simp
    have "sr_response r = CPGSR_NO_CREDENTIAL_NOT_FINISHED"
      using st live False n by (auto simp: SerializeFido2_def Let_def split: prod.splits if_splits)
    moreover have "ui_shape c c'"
    proof (cases "w_done (m_worker c)")
      case d: False
      then have "c' = apply_passkey_begin cv ue c" using st live False by (auto simp: SerializeFido2_def Let_def)
      then show ?thesis by (simp add: ui_shape_def untouched_def ident_def)
    next
      case True
      then have "joined c' \<and> m_username c' = m_username c \<and> m_domain c' = m_domain c
          \<and> m_password c' = m_password c \<and> \<not> m_authenticated c'"
        using st live False n na
        by (auto simp: SerializeFido2_def Let_def joined_def split: prod.splits if_splits)
      then show ?thesis by (auto intro!: joined_shape)
    qed
    ultimately show ?thesis by simp
  qed
qed

end
