(* ===== verification/CredentialInvariant.thy ===== *)
theory CredentialInvariant
  imports CredentialFinish
begin

text \<open>
  The invariant of the tile's two threads over whole runs, and what a finished credential rests
  on; where the error \<open>network_error\<close>, on which the tile may fail open, comes from.
\<close>

lemma GetSerialization_shape:
  assumes a: "auth_wf pcw j ap c" and g: "GetSerialization cv ue pe pc c = (pc', c', r)"
  shows "ui_shape c c' \<and> (sr_response r = CPGSR_RETURN_CREDENTIAL_FINISHED \<longrightarrow>
    IsBypassAccount (m_config c) (m_username c) (m_domain c) \<or> m_authenticated c \<or>
    m_hPollThread c \<and> fail_open c (w_beginError (m_worker c)) \<and> \<not> w_beginOk (m_worker c))"
proof (cases "m_username c = [] \<or> m_password c = []")
  case True
  with g show ?thesis by (auto simp: GetSerialization_def ui_shape_refl)
next
  case named: False
  show ?thesis
  proof (cases "IsBypassAccount (m_config c) (m_username c) (m_domain c)")
    case True
    with g named have "finish_with pe pc c = (pc', c', r)" by (simp add: GetSerialization_def)
    then have "c' = c" by (rule finish_with_shape)
    with True show ?thesis by (simp add: ui_shape_refl)
  next
    case nb: False
    show ?thesis
    proof (cases "m_authenticated c")
      case True
      with g named nb have "finish_with pe pc ((ClearQrBitmap ue (JoinPollThread c))\<lparr>m_numberMatch := []\<rparr>) = (pc', c', r)"
        by (simp add: GetSerialization_def)
      then have "c' = (ClearQrBitmap ue (JoinPollThread c))\<lparr>m_numberMatch := []\<rparr>" by (rule finish_with_shape)
      with True show ?thesis by (auto intro!: joined_shape simp: joined_def)
    next
      case na: False
      have ap: "w_status (m_worker c) \<noteq> wide ''approved''" using a na by (auto simp: auth_wf_def)
      show ?thesis
      proof (cases "m_currentMode c")
        case MODE_OTP
        with g named nb na have "SerializeOtp ue pe pc c = (pc', c', r)" by (simp add: GetSerialization_def)
        from SerializeOtp_shape [OF this MODE_OTP na] a MODE_OTP show ?thesis by (simp add: auth_wf_def)
      next
        case MODE_PUSH
        with g named nb na have "SerializePush ue pe pc c = (pc', c', r)" by (simp add: GetSerialization_def)
        from SerializePush_shape [OF this MODE_PUSH na ap] show ?thesis by simp
      next
        case MODE_FIDO2
        with g named nb na have "SerializeFido2 cv ue pe pc c = (pc', c', r)" by (simp add: GetSerialization_def)
        from SerializeFido2_shape [OF this MODE_FIDO2 na ap] show ?thesis by simp
      qed
    qed
  qed
qed

subsection \<open>Edits\<close>

lemma joined_wf:
  assumes "joined c" "\<not> m_authenticated c" "m_domain c \<noteq> [] \<longrightarrow> 92 \<notin> set (m_domain c)"
    "s_ui s = UIdle"
  shows "sys_wf (after_ui s c)"
  using assms by (simp add: sys_wf_def after_ui_def joined_def thread_wf_def auth_wf_def)

lemma reset_end_joined: "joined (ResetAuthState_end ue c)"
  by (simp add: joined_def)

lemma edit_assign_keeps [simp]:
  "m_hPollThread (edit_assign fid txt c) = m_hPollThread c" "m_worker (edit_assign fid txt c) = m_worker c"
  "m_job (edit_assign fid txt c) = m_job c" "m_authenticated (edit_assign fid txt c) = m_authenticated c"
  "m_jobUser (edit_assign fid txt c) = m_jobUser c" "m_jobDomain (edit_assign fid txt c) = m_jobDomain c"
  "m_jobPass (edit_assign fid txt c) = m_jobPass c" "m_currentMode (edit_assign fid txt c) = m_currentMode c"
  by (simp_all add: edit_assign_def assign_username_def)

lemma edit_assign_domain:
  assumes "m_domain c \<noteq> [] \<longrightarrow> 92 \<notin> set (m_domain c)"
  shows "m_domain (edit_assign fid txt c) \<noteq> [] \<longrightarrow> 92 \<notin> set (m_domain (edit_assign fid txt c))"
  using assms SplitUserName_no_slash by (simp add: edit_assign_def assign_username_def)

lemma edit_keep_ident:
  assumes "\<not> edit_resets fid txt c" "m_domain c \<noteq> [] \<longrightarrow> 92 \<notin> set (m_domain c)"
  shows "ident (edit_assign fid txt c) = ident c"
proof (cases "fid = FID_USERNAME")
  case True
  with assms(1) have "wcsieq txt (prevRaw c)" by (simp add: edit_resets_def)
  from edit_same_account [OF this assms(2)] True show ?thesis
    by (simp add: ident_def edit_assign_def assign_username_def)
next
  case False
  with assms(1) show ?thesis by (auto simp: ident_def edit_assign_def edit_resets_def)
qed

lemma thread_wf_domain: "thread_wf pc j c \<Longrightarrow> m_domain c \<noteq> [] \<longrightarrow> 92 \<notin> set (m_domain c)"
  by (simp add: thread_wf_def)

lemma sys_wf_idle:
  "sys_wf s \<Longrightarrow> s_ui s = UIdle \<Longrightarrow>
   thread_wf (s_pc s) (s_job s) (s_cred s) \<and> auth_wf (s_pc s) (s_job s) (s_approved s) (s_cred s)"
  by (simp add: sys_wf_def)

lemma sys_wf_window:
  "sys_wf s \<Longrightarrow> s_ui s \<noteq> UIdle \<Longrightarrow> thread_wf (s_pc s) (s_job s) (s_cred s) \<and> \<not> m_authenticated (s_cred s)
     \<and> (m_domain (s_cred s) \<noteq> [] \<longrightarrow> 92 \<notin> set (m_domain (s_cred s)))"
  using thread_wf_domain [of "s_pc s" "s_job s" "s_cred s"] by (simp add: sys_wf_def)

lemma events_wf [simp]:
  "thread_wf pc j (c\<lparr>m_pEvents := b\<rparr>) = thread_wf pc j c"
  "auth_wf pc j ap (c\<lparr>m_pEvents := b\<rparr>) = auth_wf pc j ap c"
  "thread_wf pc j (c\<lparr>m_pProviderEvents := b, m_providerAdviseContext := ctx\<rparr>) = thread_wf pc j c"
  "auth_wf pc j ap (c\<lparr>m_pProviderEvents := b, m_providerAdviseContext := ctx\<rparr>) = auth_wf pc j ap c"
  by (simp_all add: thread_wf_def auth_wf_def ident_def)

lemma thread_wf_wipe:
  "thread_wf pc j (c\<lparr>m_password := [], m_otpCode := []\<rparr>) = thread_wf pc j c"
  by (simp add: thread_wf_def)

lemma reset_begin_wf:
  assumes "thread_wf (s_pc s) (s_job s) c" "s_ui s \<noteq> UIdle" "s_cred s = ResetAuthState_begin ue c"
  shows "sys_wf s"
proof -
  have "thread_wf (s_pc s) (s_job s) (ResetAuthState_begin ue c) = thread_wf (s_pc s) (s_job s) c"
    by (simp add: thread_wf_def)
  with assms show ?thesis by (simp add: sys_wf_def)
qed

lemma edit_keep_wf:
  assumes wf: "sys_wf s" and u: "s_ui s = UIdle" and k: "\<not> edit_resets fid txt (s_cred s)"
  shows "sys_wf (after_ui s (edit_assign fid txt (s_cred s)))"
proof -
  let ?c = "s_cred s" and ?e = "edit_assign fid txt (s_cred s)"
  have t: "thread_wf (s_pc s) (s_job s) ?c" and a: "auth_wf (s_pc s) (s_job s) (s_approved s) ?c"
    using wf u by (simp_all add: sys_wf_def)
  have d: "m_domain ?c \<noteq> [] \<longrightarrow> 92 \<notin> set (m_domain ?c)" using t by (simp add: thread_wf_def)
  have t': "thread_wf (s_pc s) (s_job s) ?e"
    using t edit_assign_domain [OF d, of fid "txt"] unfolding thread_wf_def edit_assign_keeps by blast
  have a': "auth_wf (s_pc s) (s_job s) (s_approved s) ?e"
    using a unfolding auth_wf_def edit_assign_keeps edit_keep_ident [OF k d] .
  show ?thesis by (rule after_ui_wf [OF t' a' u ui_shape_refl])
qed

subsection \<open>Every step\<close>

lemma sys_step_wf:
  assumes "sys_step False False s s'" "sys_wf s"
  shows "sys_wf s'"
  using assms
proof (cases rule: sys_step.cases)
  case (worker we pc' c')
  then have u: "s_ui s = UIdle" by simp
  have t: "thread_wf (s_pc s) (s_job s) (s_cred s)" and a: "auth_wf (s_pc s) (s_job s) (s_approved s) (s_cred s)"
    using assms(2) u by (simp_all add: sys_wf_def)
  show ?thesis
    using worker_step_thread [OF t worker(2) worker(4)] worker_step_auth [OF t a worker(2) worker(4)] u
    unfolding worker(1) by (simp add: sys_wf_def)
next
  case (edit_keep fid tx)
  then show ?thesis using edit_keep_wf assms(2) by simp
next
  case (edit_begin fid tx ue)
  then have "thread_wf (s_pc s) (s_job s) (s_cred s)" using assms(2) by (simp add: sys_wf_def)
  then show ?thesis
    using reset_begin_wf [of s' "s_cred s" ue] unfolding edit_begin(1) by simp
next
  case (edit_end fid tx ue)
  have d: "m_domain (s_cred s) \<noteq> [] \<longrightarrow> 92 \<notin> set (m_domain (s_cred s))" and na: "\<not> m_authenticated (s_cred s)"
    using sys_wf_window [OF assms(2)] edit_end(2) by auto
  show ?thesis
    unfolding edit_end(1) using edit_assign_domain [of "ResetAuthState_end ue (s_cred s)" fid tx] d na
    by (intro joined_wf) (simp_all add: joined_def)
next
  case (report_begin ue)
  have "thread_wf (s_pc s) (s_job s) ((s_cred s)\<lparr>m_password := [], m_otpCode := []\<rparr>)"
    using sys_wf_idle [OF assms(2) report_begin(2)] by (simp add: thread_wf_wipe)
  then show ?thesis
    using reset_begin_wf [of s' "(s_cred s)\<lparr>m_password := [], m_otpCode := []\<rparr>" ue]
    unfolding report_begin(1) ReportResult_begin_def by simp
next
  case (report_end ue)
  have d: "m_domain (s_cred s) \<noteq> [] \<longrightarrow> 92 \<notin> set (m_domain (s_cred s))" and na: "\<not> m_authenticated (s_cred s)"
    using sys_wf_window [OF assms(2)] report_end(2) by auto
  show ?thesis unfolding report_end(1) using d na by (intro joined_wf) (simp_all add: joined_def)
next
  case (deselect ue)
  then show ?thesis using sys_wf_idle [OF assms(2)] after_ui_wf [OF _ _ _ SetDeselected_shape] by simp
next
  case (click ue fid)
  then show ?thesis using sys_wf_idle [OF assms(2)] after_ui_wf [OF _ _ _ CommandLinkClicked_shape] by simp
next
  case (submit cv ue pe cache' c' r)
  have t: "thread_wf (s_pc s) (s_job s) (s_cred s)" and a: "auth_wf (s_pc s) (s_job s) (s_approved s) (s_cred s)"
    using sys_wf_idle [OF assms(2) submit(2)] by simp_all
  have "ui_shape (s_cred s) c'" using GetSerialization_shape [OF a submit(3)] by simp
  with t a submit(2) show ?thesis unfolding submit(1) by (intro after_ui_wf [where c = "s_cred s"]) simp_all
next
  case (events b)
  then show ?thesis using sys_wf_idle [OF assms(2)] by (simp add: sys_wf_def)
next
  case (provider_events b ctx)
  then show ?thesis using sys_wf_idle [OF assms(2)] by (simp add: sys_wf_def)
next
  case (initialize ue cfg remote cpus flags)
  then show ?thesis by simp
qed

lemma Initialize_sel [simp]:
  "m_hPollThread (Initialize ue cfg remote cpus flags c) = m_hPollThread c"
  "m_worker (Initialize ue cfg remote cpus flags c) = m_worker c"
  "m_job (Initialize ue cfg remote cpus flags c) = m_job c"
  "m_authenticated (Initialize ue cfg remote cpus flags c) = m_authenticated c"
  "m_domain (Initialize ue cfg remote cpus flags c) = m_domain c"
  "m_username (Initialize ue cfg remote cpus flags c) = m_username c"
  "m_password (Initialize ue cfg remote cpus flags c) = m_password c"
  by (simp_all add: Initialize_def Let_def)

lemma sys_init_wf: "sys_wf (sys_init ue cfg remote cpus flags)"
  by (simp add: sys_wf_def sys_init_def thread_wf_def auth_wf_def LigamentCredential_new_def)

lemma reachable_wf: "reachable False False s \<Longrightarrow> sys_wf s"
proof (induction rule: reachable.induct)
  case (start ue cfg remote cpus flags)
  show ?case by (rule sys_init_wf)
next
  case (step s s')
  then show ?case using sys_step_wf by blast
qed

subsection \<open>A failed attempt\<close>

text \<open>The answers a job got when it was put to the servers: the push, the passkey, or the code, which
  goes to the relay if the core server gave no answer or one of 500 and above.\<close>

definition attempt_answers :: "worker_env \<Rightarrow> job_locals \<Rightarrow> LigamentCredential \<Rightarrow> exchange list" where
  "attempt_answers we l c =
     (let cl = job_client we c
      in case l_job l of
           JobStartPush \<Rightarrow> [push_exchange (we_cv we) (we_hf we) (we_net we) cl (l_user l) (l_pass l)]
         | JobWebAuthnBegin \<Rightarrow> [webauthn_exchange (we_cv we) (we_hf we) (we_net we) cl (l_user l) (l_pass l)]
         | JobVerifyOtp \<Rightarrow>
             (let x = combined_exchange (we_cv we) (we_hf we) (we_net we) cl (l_user l) (l_pass l) (l_otp l)
              in x # (if (\<not> x_ok x \<or> x_status x \<ge> 500) \<and> m_relayHost cl \<noteq> []
                      then [relay_exchange (we_cv we) (we_net we) cl (l_user l) (l_pass l) (l_otp l)] else []))
         | JobNone \<Rightarrow> [])"

text \<open>No server answered, or one of the answers is itself the error \<open>network_error\<close>.\<close>

definition attempt_failed :: "worker_env \<Rightarrow> job_locals \<Rightarrow> LigamentCredential \<Rightarrow> bool" where
  "attempt_failed we l c \<longleftrightarrow> attempt_answers we l c \<noteq> [] \<and>
     ((\<forall>x \<in> set (attempt_answers we l c). \<not> x_ok x) \<or>
      (\<exists>x \<in> set (attempt_answers we l c). x_ok x \<and> ExtractJsonString (x_response x) ''error'' = ''network_error''))"

lemma server_error_network:
  "server_error x = ''network_error'' \<longleftrightarrow> ExtractJsonString (x_response x) ''error'' = ''network_error''"
  by (auto simp: server_error_def Let_def)

lemma StartPush_network_error:
  "StartPush cv hf net cl u p = (cl', Inl ''network_error'', sent) \<Longrightarrow>
   x = push_exchange cv hf net cl u p \<Longrightarrow>
   \<not> x_ok x \<or> ExtractJsonString (x_response x) ''error'' = ''network_error''"
  by (auto simp: StartPush_def Let_def server_error_network [symmetric] split: if_splits)

lemma WebAuthnBegin_network_error:
  "WebAuthnBegin cv hf net cl u p = (cl', r, sent) \<Longrightarrow> wb_error r = ''network_error'' \<Longrightarrow>
   x = webauthn_exchange cv hf net cl u p \<Longrightarrow>
   \<not> x_ok x \<or> ExtractJsonString (x_response x) ''error'' = ''network_error''"
  by (auto simp: WebAuthnBegin_def Let_def server_error_network [symmetric] split: if_splits)

lemma VerifyCombined_network_error:
  assumes "VerifyCombined cv hf net cl u p code = (cl', Some ''network_error'', sent)"
    and x: "x = combined_exchange cv hf net cl u p code" and y: "y = relay_exchange cv net cl u p code"
  shows "\<not> x_ok x \<and> (m_relayHost cl \<noteq> [] \<longrightarrow> \<not> x_ok y)
    \<or> x_ok x \<and> ExtractJsonString (x_response x) ''error'' = ''network_error''
    \<or> (\<not> x_ok x \<or> x_status x \<ge> 500) \<and> m_relayHost cl \<noteq> [] \<and> x_ok y
        \<and> ExtractJsonString (x_response y) ''error'' = ''network_error''"
  using assms(1) unfolding VerifyCombined_def Let_def x [symmetric] y [symmetric]
  by (auto simp: server_error_network [symmetric] split: if_splits)

lemma begin_step_network_error:
  assumes b: "begin_step we l c = (pc', c')" and n: "\<not> w_stop (m_worker c)"
    and e: "w_beginError (m_worker c') = ''network_error''" and o: "w_beginError (m_worker c) \<noteq> ''network_error''"
  shows "pc' = WEnded \<and> attempt_failed we l c'"
proof -
  have k: "job_client we c' = job_client we c"
    using begin_step_frame [OF b] by (simp add: worker_frame_def job_client_def Let_def)
  show ?thesis
  proof (cases "l_job l")
    case JobNone
    with b e o show ?thesis by (simp add: begin_step_def)
  next
    case JobStartPush
    obtain cl r sent where s: "StartPush (we_cv we) (we_hf we) (we_net we) (job_client we c) (l_user l) (l_pass l) = (cl, r, sent)"
      using prod_cases3 by blast
    with b n e JobStartPush have "r = Inl ''network_error'' \<and> pc' = WEnded"
      by (auto simp: begin_step_def push_step_def begin_result_def Let_def split: sum.splits prod.splits)
    with s StartPush_network_error [of "we_cv we" "we_hf we" "we_net we" "job_client we c" "l_user l" "l_pass l" cl sent, OF _ refl]
    show ?thesis using JobStartPush by (auto simp: attempt_failed_def attempt_answers_def k Let_def)
  next
    case JobWebAuthnBegin
    obtain cl r sent where s: "WebAuthnBegin (we_cv we) (we_hf we) (we_net we) (job_client we c) (l_user l) (l_pass l) = (cl, r, sent)"
      using prod_cases3 by blast
    have z: "wb_success r \<Longrightarrow> wb_error r = []"
      using s by (auto simp: WebAuthnBegin_def Let_def split: if_splits)
    with s b n e JobWebAuthnBegin have "wb_error r = ''network_error'' \<and> pc' = WEnded"
      by (auto simp: begin_step_def webauthn_step_def begin_result_def Let_def split: if_splits)
    with WebAuthnBegin_network_error [OF s _ refl]
    show ?thesis using JobWebAuthnBegin by (auto simp: attempt_failed_def attempt_answers_def k Let_def)
  next
    case JobVerifyOtp
    obtain cl r sent where s: "VerifyCombined (we_cv we) (we_hf we) (we_net we) (job_client we c) (l_user l) (l_pass l) (l_otp l) = (cl, r, sent)"
      using prod_cases3 by blast
    with b n e JobVerifyOtp have r: "r = Some ''network_error'' \<and> pc' = WEnded"
      by (auto simp: begin_step_def otp_step_def begin_result_def Let_def split: if_splits option.splits)
    from VerifyCombined_network_error [OF s [unfolded conjunct1 [OF r]] refl refl] r
    show ?thesis using JobVerifyOtp by (auto simp: attempt_failed_def attempt_answers_def k Let_def)
  qed
qed

text \<open>An error \<open>network_error\<close> the tile holds is that of the last attempt, which was for the account and
  the password the tile names.\<close>

definition begin_wf :: "sys \<Rightarrow> bool" where
  "begin_wf s \<longleftrightarrow> (s_ui s = UIdle \<and> w_beginError (m_worker (s_cred s)) = ''network_error'' \<longrightarrow>
     s_pc s = WEnded \<and> (\<exists>we l. s_begin s = Some (we, l) \<and>
       job_ident (l_user l, l_domain l, l_pass l) = ident (s_cred s) \<and> attempt_failed we l (s_cred s)))"

lemma attempt_failed_frame:
  "m_config c' = m_config c \<Longrightarrow> m_cpus c' = m_cpus c \<Longrightarrow> attempt_failed we l c' = attempt_failed we l c"
  by (simp add: attempt_failed_def attempt_answers_def job_client_def Let_def)

lemma init_no_error [simp]: "w_beginError WorkerState_init = []"
  by (simp add: WorkerState_init_def)

lemma begin_wf_same:
  assumes "begin_wf s" "s_ui s = UIdle" "thread_wf (s_pc s) (s_job s) (s_cred s)"
    and "s_begin s' = s_begin s" "s_ui s' = UIdle" "s_pc s = WEnded \<longrightarrow> s_pc s' = WEnded"
    and "w_beginError (m_worker (s_cred s')) = w_beginError (m_worker (s_cred s))"
    and "ident (s_cred s') = ident (s_cred s)" "m_config (s_cred s') = m_config (s_cred s)" "m_cpus (s_cred s') = m_cpus (s_cred s)"
  shows "begin_wf s'"
  using assms attempt_failed_frame [of "s_cred s'" "s_cred s"] by (auto simp: begin_wf_def)

lemma after_ui_begin_wf:
  assumes b: "begin_wf s" and t: "thread_wf (s_pc s) (s_job s) (s_cred s)" and u: "s_ui s = UIdle"
    and sh: "ui_shape (s_cred s) c'"
  shows "begin_wf (after_ui (s\<lparr>s_cache := k\<rparr>) c')"
proof -
  have f: "s_cred (after_ui (s\<lparr>s_cache := k\<rparr>) c') = c'" "s_ui (after_ui (s\<lparr>s_cache := k\<rparr>) c') = UIdle"
    "s_begin (after_ui (s\<lparr>s_cache := k\<rparr>) c') = s_begin s"
    using u by (simp_all add: after_ui_def)
  from sh consider "untouched (s_cred s) c'" | "m_worker c' = WorkerState_init"
    by (auto simp: ui_shape_def joined_def started_def)
  then show ?thesis
  proof cases
    case 1
    have p: "s_pc s = WEnded \<longrightarrow> s_pc (after_ui (s\<lparr>s_cache := k\<rparr>) c') = WEnded"
      using t 1 by (auto simp: after_ui_def thread_wf_def untouched_def)
    show ?thesis
      by (rule begin_wf_same [OF b u t f(3,2) p]) (use 1 sh in \<open>simp_all add: f untouched_def ui_shape_def\<close>)
  qed (simp add: begin_wf_def f)
qed

lemma worker_begin_wf:
  assumes b: "begin_wf s" and w: "sys_wf s" and u: "s_ui s = UIdle" and p: "s_pc s \<noteq> WEnded"
    and st: "worker_step we (s_pc s) (s_cred s) = (pc', c')"
    and e: "w_beginError (m_worker c') = ''network_error''"
  shows "pc' = WEnded \<and> (\<exists>l. s_pc s = WBegin l \<and> job_ident (l_user l, l_domain l, l_pass l) = ident c' \<and> attempt_failed we l c')"
proof -
  have o: "w_beginError (m_worker (s_cred s)) \<noteq> ''network_error''" using b u p by (auto simp: begin_wf_def)
  have t: "thread_wf (s_pc s) (s_job s) (s_cred s)" and a: "auth_wf (s_pc s) (s_job s) (s_approved s) (s_cred s)"
    using w u by (simp_all add: sys_wf_def)
  show ?thesis
  proof (cases "s_pc s")
    case (WBegin l)
    with st have g: "begin_step we l (s_cred s) = (pc', c')" by (simp add: worker_step_def)
    have "s_job s = (l_user l, l_domain l, l_pass l)" "\<not> w_stop (m_worker (s_cred s))" using t WBegin by (auto simp: thread_wf_def)
    moreover have "job_ident (s_job s) = ident (s_cred s)" using a p by (simp add: auth_wf_def)
    ultimately show ?thesis
      using begin_step_network_error [OF g _ e o] ident_frame [of "s_cred s" c'] begin_step_frame [OF g] WBegin by simp
  qed (use st e o p in \<open>auto simp: worker_step_def fetch_job_def gate_step_def poll_step_def poll_terminal_def
      poll_timeout_def split: if_splits sum.splits prod.splits\<close>)
qed

lemma sys_step_begin_wf:
  assumes "sys_step False False s s'" "sys_wf s" "begin_wf s"
  shows "begin_wf s'"
  using assms(1)
proof (cases rule: sys_step.cases)
  case (worker we pc' c')
  then have u: "s_ui s = UIdle" by simp
  from worker_begin_wf [OF assms(3,2) u worker(2) worker(4)] show ?thesis
    unfolding worker(1) by (auto simp: begin_wf_def)
next
  case (edit_keep fid tx)
  have t: "thread_wf (s_pc s) (s_job s) (s_cred s)" using sys_wf_idle [OF assms(2) edit_keep(2)] by simp
  have p: "s_pc s = WEnded \<longrightarrow> s_pc s' = WEnded"
    using t by (auto simp: edit_keep(1) after_ui_def thread_wf_def)
  show ?thesis
    by (rule begin_wf_same [OF assms(3) edit_keep(2) t _ _ p])
      (simp_all add: edit_keep(1,2) after_ui_def edit_keep_ident [OF edit_keep(3) thread_wf_domain [OF t]])
next
  case (deselect ue)
  then show ?thesis
    using sys_wf_idle [OF assms(2)] after_ui_begin_wf [OF assms(3) _ _ SetDeselected_shape, where k = "s_cache s"] by simp
next
  case (click ue fid)
  then show ?thesis
    using sys_wf_idle [OF assms(2)] after_ui_begin_wf [OF assms(3) _ _ CommandLinkClicked_shape, where k = "s_cache s"] by simp
next
  case (submit cv ue pe cache' c' r)
  have t: "thread_wf (s_pc s) (s_job s) (s_cred s)" and a: "auth_wf (s_pc s) (s_job s) (s_approved s) (s_cred s)"
    using sys_wf_idle [OF assms(2) submit(2)] by simp_all
  from after_ui_begin_wf [OF assms(3) t submit(2)] GetSerialization_shape [OF a submit(3)] show ?thesis
    unfolding submit(1) by simp
next
  case (events b)
  show ?thesis
    by (rule begin_wf_same [OF assms(3) events(2)])
      (use sys_wf_idle [OF assms(2) events(2)] in \<open>simp_all add: events(1,2) ident_def\<close>)
next
  case (provider_events b ctx)
  show ?thesis
    by (rule begin_wf_same [OF assms(3) provider_events(2)])
      (use sys_wf_idle [OF assms(2) provider_events(2)] in \<open>simp_all add: provider_events(1,2) ident_def\<close>)
qed (simp_all add: begin_wf_def after_ui_def)

lemma reachable_begin_wf: "reachable False False s \<Longrightarrow> begin_wf s"
proof (induction rule: reachable.induct)
  case (start ue cfg remote cpus flags)
  show ?case by (simp add: begin_wf_def sys_init_def LigamentCredential_new_def)
next
  case (step s s')
  then show ?case using sys_step_begin_wf reachable_wf by blast
qed

subsection \<open>The domain\<close>

text \<open>The domain never holds a backslash, whatever the interleaving and however often the tile is
  initialised.\<close>

lemma SetDeselected_domain: "m_domain (SetDeselected ue c) = m_domain c"
  using SetDeselected_shape by (simp add: ui_shape_def)

lemma CommandLinkClicked_domain: "m_domain (CommandLinkClicked ue fid c) = m_domain c"
  using CommandLinkClicked_shape by (simp add: ui_shape_def)

lemma StartWorkerJob_domain: "StartWorkerJob ue job st c = (c', ok) \<Longrightarrow> m_domain c' = m_domain c"
  by (auto simp: StartWorkerJob_def Let_def split: if_splits)

lemma TriggerFIDO2Auth_domain: "m_domain (TriggerFIDO2Auth ue c) = m_domain c"
  by (auto simp: TriggerFIDO2Auth_def dest: StartWorkerJob_domain split: prod.split)

lemma SerializePushFailed_domain: "SerializePushFailed ue pe pc c = (pc', c', r) \<Longrightarrow> m_domain c' = m_domain c"
  by (auto simp: SerializePushFailed_def Let_def dest!: finish_with_shape split: if_splits)

lemma GetSerialization_domain: "GetSerialization cv ue pe pc c = (pc', c', r) \<Longrightarrow> m_domain c' = m_domain c"
  by (auto simp: GetSerialization_def SerializeOtp_def SerializePush_def SerializeFido2_def Let_def TriggerFIDO2Auth_domain
      dest!: finish_with_shape dest: StartWorkerJob_domain SerializePushFailed_domain
      split: if_splits AUTH_FACTOR_MODE.splits prod.splits bool.splits)

lemma worker_step_domain: "worker_step we pc c = (pc', c') \<Longrightarrow> m_domain c' = m_domain c"
  using worker_step_facts(1) [of we pc c pc' c'] by (cases "pc = WEnded") (auto simp: worker_frame_def worker_step_def)

lemma reachable_domain: "reachable race reinit s \<Longrightarrow> m_domain (s_cred s) \<noteq> [] \<longrightarrow> 92 \<notin> set (m_domain (s_cred s))"
proof (induction rule: reachable.induct)
  case (start ue cfg remote cpus flags)
  show ?case by (simp add: sys_init_def LigamentCredential_new_def)
next
  case (step s s')
  have a: "s_cred (after_ui s0 c) = c" for s0 c by (simp add: after_ui_def)
  from step(2) show ?case
  proof (cases rule: sys_step.cases)
    case (edit_end fid tx ue)
    then show ?thesis using step(3) edit_assign_domain [of "ResetAuthState_end ue (s_cred s)" fid tx] by (simp add: a)
  qed (use step(3) edit_assign_domain in \<open>simp_all add: a SetDeselected_domain CommandLinkClicked_domain
      worker_step_domain GetSerialization_domain ReportResult_begin_def\<close>)
qed

end
