(* ===== verification/CredentialRuns.thy ===== *)
theory CredentialRuns
  imports CredentialInvariant
begin

text \<open>
  Whole calls of the tile as runs of the step relation, and the concrete runs the witnesses use:
  the user types a name, a password and a code, the worker has the code verified, and the tile is
  submitted.
\<close>

subsection \<open>Calls as runs\<close>

lemma after_ui_window: "s_ui s = UIdle \<Longrightarrow>
  after_ui (s\<lparr>s_cred := c1, s_ui := UIdle\<rparr>) c = after_ui s c"
  by (cases s) (simp add: after_ui_def)

text \<open>\<open>SetStringValue\<close> is one step, or two with nothing in between.\<close>

lemma reachable_edit:
  assumes "reachable race reinit s" "s_ui s = UIdle"
  shows "reachable race reinit (after_ui s (SetStringValue ue fid (Some x) (s_cred s)))"
proof (cases "edit_resets fid x (s_cred s)")
  case False
  from reachable.step [OF assms(1) edit_keep [where s = s, OF assms(2) False]] False show ?thesis
    by (simp add: SetStringValue_def)
next
  case True
  let ?w = "s\<lparr>s_cred := ResetAuthState_begin ue (s_cred s), s_ui := UEditWindow fid x\<rparr>"
  have "reachable race reinit ?w" by (rule reachable.step [OF assms(1) edit_begin [OF assms(2) True]])
  from reachable.step [OF this edit_end [of ?w fid x]]
  have "reachable race reinit (after_ui (?w\<lparr>s_ui := UIdle\<rparr>)
      (edit_assign fid x (ResetAuthState_end ue (s_cred ?w))))" by simp
  moreover have "SetStringValue ue fid (Some x) (s_cred s)
      = edit_assign fid x (ResetAuthState_end ue (ResetAuthState_begin ue (s_cred s)))"
    using True by (simp add: SetStringValue_def ResetAuthState_def)
  ultimately show ?thesis by (simp add: after_ui_window assms(2))
qed

lemma reachable_submit:
  "reachable race reinit s \<Longrightarrow> s_ui s = UIdle \<Longrightarrow> GetSerialization cv ue pe (s_cache s) (s_cred s) = (k, c', r) \<Longrightarrow>
   reachable race reinit (after_ui (s\<lparr>s_cache := k\<rparr>) c')"
  by (erule reachable.step) (rule submit)

subsection \<open>A tile\<close>

definition demo_ui :: ui_env where
  "demo_ui = \<lparr>ue_pcName = wide ''PC'', ue_events3 = False, ue_copyImage = True, ue_createThread = True,
     ue_qr = (\<lambda>_. None), ue_logo = None\<rparr>"

definition demo_config :: Config where
  "demo_config = Config_default\<lparr>serverUrl := wide ''https://tfa'', defaultFactor := 2\<rparr>"

definition demo_we :: worker_env where
  "demo_we = \<lparr>we_cv = demo_codec, we_hf = demo_host, we_net = (\<lambda>_. demo_answer 200 ok_response),
     we_crack = demo_crack, we_opened = True, we_gate = demo_gate, we_ui = demo_ui\<rparr>"

definition demo_pe :: pack_env where
  "demo_pe = \<lparr>pe_machine = demo_machine, pe_protection = demo_protection, pe_lsa = LsaLookups [None, Some 2],
     pe_alloc = True, pe_credpack = (\<lambda>_ _ _. undefined)\<rparr>"

text \<open>The tile in the code mode, named, with a password and a code, after \<open>n\<close> steps of its worker.\<close>

definition demo_named :: "wstr \<Rightarrow> LigamentCredential" where
  "demo_named u = LigamentCredential_new\<lparr>m_config := demo_config, m_currentMode := MODE_OTP,
     m_statusText := StOtpSix, m_usernameRaw := u, m_username := u, m_password := wide ''pw'',
     m_otpCode := wide ''1''\<rparr>"

definition demo_job :: "wstr \<Rightarrow> LigamentCredential" where
  "demo_job u = (demo_named u)\<lparr>m_hPollThread := True, m_job := JobVerifyOtp, m_jobUser := u,
     m_jobPass := wide ''pw'', m_jobOtp := wide ''1'', m_statusText := StCheckingCode\<rparr>"

definition demo_locals :: "wstr \<Rightarrow> job_locals" where
  "demo_locals u = \<lparr>l_job = JobVerifyOtp, l_user = u, l_domain = [], l_pass = wide ''pw'',
     l_otp = wide ''1'', l_challengeId = []\<rparr>"

definition demo_taken :: "wstr \<Rightarrow> LigamentCredential" where
  "demo_taken u = (demo_job u)\<lparr>m_job := JobNone, m_jobUser := [], m_jobPass := [], m_jobOtp := []\<rparr>"

definition demo_http :: HttpApiClient where
  "demo_http = HttpApiClient_new demo_crack True (wide ''https://tfa'') False 8000 [] False []"

lemma demo_http_fields [simp]:
  "m_hSession demo_http" "m_host demo_http = wide ''tfa''" "m_isHttps demo_http"
  by (simp_all add: demo_http_def HttpApiClient_new_def ParseUrl_def ParseRelayUrl_def
      demo_crack_def wide_def Let_def)

lemma demo_http_accepts [simp]:
  "fst (snd (VerifyCombined cv hf (\<lambda>_. demo_answer 200 ok_response) demo_http u p code)) = None"
  by (simp add: VerifyCombined_def combined_exchange_def SendRequest_def accepts_def Let_def)

lemma demo_init: "Initialize demo_ui demo_config False CPUS_LOGON 0 LigamentCredential_new
    = LigamentCredential_new\<lparr>m_config := demo_config, m_currentMode := MODE_OTP, m_statusText := StOtpSix\<rparr>"
  by (simp add: Initialize_def Let_def demo_config_def Config_default_def demo_ui_def LigamentCredential_new_def)

definition demo_sys :: "LigamentCredential \<Rightarrow> worker_pc \<Rightarrow> job_identity \<Rightarrow> job_identity option
    \<Rightarrow> (worker_env \<times> job_locals) option \<Rightarrow> sys" where
  "demo_sys c pc j ap bg = \<lparr>s_cred = c, s_pc = pc, s_cache = pkg_cache_init, s_ui = UIdle, s_job = j, s_approved = ap, s_begin = bg\<rparr>"

lemma demo_sys_sel [simp]:
  "s_cred (demo_sys c pc j ap bg) = c" "s_pc (demo_sys c pc j ap bg) = pc" "s_ui (demo_sys c pc j ap bg) = UIdle"
  "s_cache (demo_sys c pc j ap bg) = pkg_cache_init" "s_job (demo_sys c pc j ap bg) = j"
  "s_approved (demo_sys c pc j ap bg) = ap" "s_begin (demo_sys c pc j ap bg) = bg"
  by (simp_all add: demo_sys_def)

lemma reset_plain:
  assumes "\<not> m_pEvents c" "m_hQrBmp c = None"
  shows "ResetAuthState ue c = (JoinPollThread c)\<lparr>m_authenticated := False, m_numberMatch := [],
    m_beginApplied := False, m_otpCode := []\<rparr>"
  using assms by (simp add: ResetAuthState_def ResetAuthState_end_def ResetAuthState_begin_def Let_def
      StopPollThread_def JoinPollThread_def ClearQrBitmap_def)

lemma demo_reach_named:
  assumes "SplitUserName u = ([], u)"
  shows "reachable race reinit (demo_sys (demo_named u) WEnded ([], [], []) None None)"
proof -
  let ?c0 = "LigamentCredential_new\<lparr>m_config := demo_config, m_currentMode := MODE_OTP, m_statusText := StOtpSix\<rparr>"
  let ?c1 = "?c0\<lparr>m_usernameRaw := u, m_username := u\<rparr>"
  let ?c2 = "?c1\<lparr>m_password := wide ''pw''\<rparr>"
  have step: "reachable race reinit (demo_sys c' WEnded ([], [], []) None None)"
    if "reachable race reinit (demo_sys c WEnded ([], [], []) None None)"
      "SetStringValue demo_ui fid (Some x) c = c'" "\<not> m_hPollThread c'" for c c' fid x
    using reachable_edit [OF that(1), of demo_ui fid x] that(2,3) by (simp add: after_ui_def demo_sys_def)
  have r0: "reachable race reinit (demo_sys ?c0 WEnded ([], [], []) None None)"
    using reachable.start [of race reinit demo_ui demo_config False CPUS_LOGON 0]
    by (simp add: sys_init_def demo_sys_def demo_init)
  have "reachable race reinit (demo_sys ?c1 WEnded ([], [], []) None None)"
    by (rule step [OF r0, of FID_USERNAME u])
      (simp_all add: SetStringValue_def edit_assign_def assign_username_def assms reset_plain
        LigamentCredential_new_def JoinPollThread_def Let_def)
  then have "reachable race reinit (demo_sys ?c2 WEnded ([], [], []) None None)"
    by (rule step [where fid = FID_PASSWORD and x = "wide ''pw''"])
      (simp_all add: SetStringValue_def edit_assign_def reset_plain LigamentCredential_new_def JoinPollThread_def Let_def)
  then show ?thesis
    by (rule step [where fid = FID_OTP_CODE and x = "wide ''1''"])
      (simp_all add: SetStringValue_def edit_assign_def edit_resets_def demo_named_def LigamentCredential_new_def Let_def)
qed

lemma demo_named_sel [simp]:
  "m_username (demo_named u) = u" "m_domain (demo_named u) = []" "m_password (demo_named u) = wide ''pw''"
  "m_otpCode (demo_named u) = wide ''1''" "m_config (demo_named u) = demo_config" "\<not> m_authenticated (demo_named u)"
  "\<not> m_hPollThread (demo_named u)" "m_currentMode (demo_named u) = MODE_OTP" "m_cpus (demo_named u) = CPUS_LOGON"
  "m_worker (demo_named u) = WorkerState_init" "\<not> m_isRemoteSession (demo_named u)"
  by (simp_all add: demo_named_def LigamentCredential_new_def)

lemma demo_no_bypass [simp]: "\<not> IsBypassAccount demo_config u d"
  by (simp add: IsBypassAccount_def demo_config_def Config_default_def)

lemma demo_submit: "u \<noteq> [] \<Longrightarrow> GetSerialization cv demo_ui pe pc (demo_named u) = (pc, demo_job u, not_finished None CPSI_NONE)"
  by (simp add: GetSerialization_def SerializeOtp_def StartWorkerJob_def Let_def wide_def)
    (simp add: demo_job_def demo_named_def LigamentCredential_new_def StopPollThread_def JoinPollThread_def
      NotifyFieldChanged_def demo_ui_def wide_def)

lemma demo_reach_job:
  assumes "SplitUserName u = ([], u)" "u \<noteq> []"
  shows "reachable race reinit (demo_sys (demo_job u) WFetch (u, [], wide ''pw'') None None)"
proof -
  have "reachable race reinit (after_ui ((demo_sys (demo_named u) WEnded ([], [], []) None None)\<lparr>s_cache := pkg_cache_init\<rparr>) (demo_job u))"
    by (rule reachable_submit [OF demo_reach_named [OF assms(1)], where cv = demo_codec and ue = demo_ui and pe = demo_pe])
      (simp_all add: demo_submit [OF assms(2)])
  then show ?thesis
    by (simp add: after_ui_def demo_sys_def demo_job_def demo_named_def LigamentCredential_new_def)
qed

text \<open>The worker takes the job, passes the gate, and has the code accepted.\<close>

definition demo_approve :: "LigamentCredential \<Rightarrow> LigamentCredential" where
  "demo_approve c = c\<lparr>m_worker := (begin_result True [] 0 (m_worker c))\<lparr>w_done := True\<rparr>,
     m_authenticated := True, m_statusText := StCodeApproved\<rparr>"

lemma demo_we_sel [simp]:
  "we_cv demo_we = demo_codec" "we_hf demo_we = demo_host" "we_net demo_we = (\<lambda>_. demo_answer 200 ok_response)"
  "we_crack demo_we = demo_crack" "we_opened demo_we" "we_ui demo_we = demo_ui"
  by (simp_all add: demo_we_def)

lemma demo_fetch: "worker_step demo_we WFetch (demo_job u) = (WGate (demo_locals u), demo_taken u)"
  by (simp add: worker_step_def fetch_job_def demo_locals_def demo_taken_def demo_job_def demo_named_def
      LigamentCredential_new_def)

lemma demo_gate_step: "\<not> m_isRemoteSession c \<Longrightarrow> worker_step demo_we (WGate l) c = (WBegin l, c)"
  by (simp add: worker_step_def gate_step_def gate_applies_def)

lemma demo_verified: "VerifyCombined demo_codec demo_host (\<lambda>_. demo_answer 200 ok_response) demo_http u p code
  = (cl, r, sent) \<Longrightarrow> r = None \<and> m_lastRetryAfterSec cl = 0"
  using demo_http_accepts [of demo_codec demo_host u p code]
  by (auto simp: VerifyCombined_def Let_def combined_exchange_def SendRequest_def accepts_def split: if_splits)

lemma demo_begin:
  assumes "m_config c = demo_config" "m_cpus c = CPUS_LOGON" "\<not> w_stop (m_worker c)" "\<not> m_pEvents c"
    "\<not> m_pProviderEvents c"
  shows "worker_step demo_we (WBegin (demo_locals u)) c = (WEnded, demo_approve c)"
proof -
  have cl: "job_client demo_we c = demo_http"
    using assms by (simp add: job_client_def demo_config_def Config_default_def demo_http_def Let_def)
  obtain cl' r sent where v: "VerifyCombined demo_codec demo_host (\<lambda>_. demo_answer 200 ok_response) demo_http
      u (wide ''pw'') (wide ''1'') = (cl', r, sent)" by (cases "VerifyCombined demo_codec demo_host (\<lambda>_. demo_answer 200 ok_response) demo_http
      u (wide ''pw'') (wide ''1'')")
  show ?thesis
    using assms(3-5) v demo_verified [OF v]
    by (simp add: worker_step_def begin_step_def otp_step_def cl demo_locals_def demo_approve_def
        NotifyProviderChanged_def NotifyFieldChanged_def Let_def)
qed

lemma demo_taken_sel [simp]:
  "m_config (demo_taken u) = demo_config" "m_cpus (demo_taken u) = CPUS_LOGON" "\<not> m_isRemoteSession (demo_taken u)"
  "\<not> w_stop (m_worker (demo_taken u))" "\<not> m_pEvents (demo_taken u)" "\<not> m_pProviderEvents (demo_taken u)"
  "m_hQrBmp (demo_taken u) = None" "m_username (demo_taken u) = u" "m_domain (demo_taken u) = []"
  "m_password (demo_taken u) = wide ''pw''" "\<not> m_authenticated (demo_taken u)"
  by (simp_all add: demo_taken_def demo_job_def demo_named_def LigamentCredential_new_def)

lemma demo_reach_begin:
  assumes "SplitUserName u = ([], u)" "u \<noteq> []"
  shows "reachable race reinit (demo_sys (demo_taken u) (WBegin (demo_locals u)) (u, [], wide ''pw'') None None)"
proof -
  have step: "reachable race reinit (demo_sys c' pc' j None None)"
    if "reachable race reinit (demo_sys c pc j None None)" "pc \<noteq> WEnded" "worker_step demo_we pc c = (pc', c')"
      "\<not> m_authenticated c'" "\<forall>l. pc \<noteq> WBegin l" for c pc j c' pc'
    using reachable.step [OF that(1) worker [where we = demo_we and pc' = pc' and c' = c']] that(2-5)
    by (cases pc) (simp_all add: demo_sys_def)
  have "reachable race reinit (demo_sys (demo_taken u) (WGate (demo_locals u)) (u, [], wide ''pw'') None None)"
    by (rule step [OF demo_reach_job [OF assms] _ demo_fetch]) simp_all
  then show ?thesis by (rule step) (simp_all add: demo_gate_step)
qed

text \<open>The uninterrupted run.\<close>

definition demo_done :: sys where
  "demo_done = demo_sys (demo_approve (demo_taken (wide ''bob''))) WEnded (wide ''bob'', [], wide ''pw'')
     (Some (wide ''bob'', [], wide ''pw'')) (Some (demo_we, demo_locals (wide ''bob'')))"

lemma split_demo_names [simp]:
  "SplitUserName (wide ''bob'') = ([], wide ''bob'')" "SplitUserName (wide ''alice'') = ([], wide ''alice'')"
  "wide ''bob'' \<noteq> []" "wide ''alice'' \<noteq> []" "wide ''pw'' \<noteq> []"
  by (simp_all add: SplitUserName_def chr_find_def wide_def)

lemma demo_approve_sel [simp]:
  "m_authenticated (demo_approve c)" "m_username (demo_approve c) = m_username c"
  "m_domain (demo_approve c) = m_domain c" "m_password (demo_approve c) = m_password c"
  "m_config (demo_approve c) = m_config c" "m_cpus (demo_approve c) = m_cpus c"
  "m_hQrBmp (demo_approve c) = m_hQrBmp c" "m_pEvents (demo_approve c) = m_pEvents c"
  by (simp_all add: demo_approve_def)

lemma demo_done_reachable: "reachable race reinit demo_done"
  using reachable.step [OF demo_reach_begin [of "wide ''bob''"] worker [where we = demo_we and pc' = WEnded
        and c' = "demo_approve (demo_taken (wide ''bob''))"]]
  by (simp add: demo_begin demo_done_def demo_sys_def)

lemma demo_finish:
  assumes "m_cpus c = CPUS_LOGON" "m_domain c = []" "m_username c = wide ''bob''" "m_password c = wide ''pw''"
  shows "sr_response (snd (PackAndFinish demo_pe pkg_cache_init c)) = CPGSR_RETURN_CREDENTIAL_FINISHED"
  using assms demo_pack by (simp add: PackAndFinish_def demo_pe_def)

lemma demo_serialization:
  assumes "m_authenticated c" "m_config c = demo_config" "m_cpus c = CPUS_LOGON" "m_domain c = []"
    "m_username c = wide ''bob''" "m_password c = wide ''pw''"
  shows "sr_response (snd (snd (GetSerialization cv ue demo_pe pkg_cache_init c))) = CPGSR_RETURN_CREDENTIAL_FINISHED"
proof -
  have "GetSerialization cv ue demo_pe pkg_cache_init c
      = finish_with demo_pe pkg_cache_init ((ClearQrBitmap ue (JoinPollThread c))\<lparr>m_numberMatch := []\<rparr>)"
    using assms by (simp add: GetSerialization_def)
  then show ?thesis using assms by (simp add: demo_finish)
qed

end
