(* ===== verification/CredentialProperties.thy ===== *)
theory CredentialProperties
  imports CredentialRuns
begin

text \<open>
  The properties of the tile: what a finished logon rests on, what an edit or an attempt leaves
  behind, that the worker ends, and the runs in which the guarantees fail.
\<close>

subsection \<open>A finished logon\<close>



text \<open>C2. The tile counts as confirmed only on a server's word: the worker's step that sets it is
  the RDP gate being satisfied, a code the server accepted, or a poll whose answer was
  \<open>approved\<close> for the challenge of this job.\<close>

theorem authenticated_only_by_server:
  assumes "worker_step we pc c = (pc', c')" and "m_authenticated c'" and "\<not> m_authenticated c"
  shows "(\<exists>l. pc = WGate l \<and> gate_applies c (l_job l) \<and>
        g_satisfied (CheckRdpMfaSatisfied (we_cv we) (we_crack we) (we_gate we) (serverUrl (m_config c))
           (l_user l) (ue_pcName (we_ui we)) (allowSelfSigned (m_config c)) (allowHttp (m_config c))))
    \<or> (\<exists>l. pc = WBegin l \<and> l_job l = JobVerifyOtp \<and>
        fst (snd (VerifyCombined (we_cv we) (we_hf we) (we_net we) (job_client we c) (l_user l) (l_pass l) (l_otp l))) = None)
    \<or> (\<exists>l i ticket. pc = WPoll l i \<and>
        fst (PollStatus (we_cv we) (we_net we) (job_client we c) (l_challengeId l)) = Inr (wide ''approved'', ticket))"
proof (cases pc)
  case WFetch
  then show ?thesis using assms by (auto simp: worker_step_def fetch_job_def)
next
  case (WGate l)
  then show ?thesis using assms by (auto simp: worker_step_def gate_step_def split: if_splits)
next
  case (WBegin l)
  then show ?thesis using assms
    by (auto simp: worker_step_def begin_step_def push_step_def webauthn_step_def otp_step_def Let_def
        split: WorkerJob.splits prod.splits sum.splits if_splits)
next
  case (WPoll l i)
  then show ?thesis using assms
    by (auto simp: worker_step_def poll_step_def poll_timeout_def poll_terminal_def
        split: sum.splits prod.splits if_splits)
next
  case WEnded
  then show ?thesis using assms by (simp add: worker_step_def)
qed

theorem authenticated_only_by_server_witness:
  "fst (snd (VerifyCombined demo_codec demo_host (\<lambda>_. demo_answer 200 ok_response)
     (job_client demo_we (demo_taken (wide ''bob''))) (wide ''bob'') (wide ''pw'') (wide ''1''))) = None"
proof -
  have s: "worker_step demo_we (WBegin (demo_locals (wide ''bob''))) (demo_taken (wide ''bob''))
      = (WEnded, demo_approve (demo_taken (wide ''bob'')))"
    by (rule demo_begin) simp_all
  from authenticated_only_by_server [OF s] show ?thesis by (simp add: demo_locals_def)
qed

subsection \<open>Edits and attempts\<close>

text \<open>C6. An edit that makes the tile name another account, or changes the password, leaves no
  confirmation behind and no worker that could still give one, in every state of the tile LogonUI's
  calls and the worker can reach.  The edit is a \<open>SetStringValue\<close> the worker does not interrupt:
  between the two halves of \<open>ResetAuthState\<close> it can confirm the account edited away.\<close>

theorem edit_voids_confirmation:
  assumes "reachable race reinit s" and "s_ui s = UIdle" and "c' = SetStringValue ue fid x (s_cred s)"
    and "ident c' \<noteq> ident (s_cred s)"
  shows "reachable race reinit (after_ui s c') \<and> s_pc (after_ui s c') = WEnded
    \<and> \<not> m_authenticated c' \<and> \<not> m_hPollThread c' \<and> m_worker c' = WorkerState_init
    \<and> (fid = FID_OTP_CODE \<or> m_otpCode c' = [])"
proof -
  let ?c = "s_cred s" and ?s = "case x of None \<Rightarrow> [] | Some t \<Rightarrow> t"
  have x: "c' = SetStringValue ue fid (Some ?s) ?c" using assms(3) by (simp add: SetStringValue_def)
  have "edit_resets fid ?s ?c"
  proof (rule ccontr)
    assume n: "\<not> edit_resets fid ?s ?c"
    then have "c' = edit_assign fid ?s ?c" using assms(3) by (simp add: SetStringValue_def Let_def)
    with edit_keep_ident [OF n reachable_domain [OF assms(1)]] assms(4) show False by simp
  qed
  then have e: "c' = edit_assign fid ?s (ResetAuthState_end ue (ResetAuthState_begin ue ?c))"
    using assms(3) by (simp add: SetStringValue_def Let_def ResetAuthState_def)
  have "m_otpCode (ResetAuthState_end ue (ResetAuthState_begin ue ?c)) = []" by simp
  then have "fid = FID_OTP_CODE \<or> m_otpCode c' = []" unfolding e by (simp add: edit_assign_def assign_username_def)
  moreover have "\<not> m_authenticated c' \<and> \<not> m_hPollThread c' \<and> m_worker c' = WorkerState_init" unfolding e by simp
  moreover have "reachable race reinit (after_ui s c')" unfolding x by (rule reachable_edit [OF assms(1,2)])
  ultimately show ?thesis by (simp add: after_ui_def)
qed

theorem edit_voids_confirmation_witness:
  "m_authenticated (s_cred demo_done)
   \<and> \<not> m_authenticated (SetStringValue demo_ui FID_USERNAME (Some (wide ''alice'')) (s_cred demo_done))"
proof -
  have "ident (SetStringValue demo_ui FID_USERNAME (Some (wide ''alice'')) (s_cred demo_done)) \<noteq> ident (s_cred demo_done)"
    by (simp add: SetStringValue_def Let_def edit_assign_def assign_username_def ident_def account_key_def
        SplitUserName_def chr_find_def wide_def fold_pair_def demo_done_def)
  from edit_voids_confirmation [OF demo_done_reachable _ refl this] show ?thesis by (simp add: demo_done_def)
qed

text \<open>After a logon attempt the tile holds no secret: password, code, the worker's copies, the
  number to match and the confirmation are gone, whatever LogonUI reports.\<close>

lemma ReportResult_wipes:
  "let c' = ReportResult ue c
   in m_password c' = [] \<and> m_otpCode c' = [] \<and> m_numberMatch c' = [] \<and> \<not> m_authenticated c'
      \<and> m_jobPass c' = [] \<and> m_jobOtp c' = [] \<and> \<not> m_hPollThread c' \<and> m_worker c' = WorkerState_init
      \<and> m_username c' = m_username c \<and> m_domain c' = m_domain c"
  by (simp add: ReportResult_def ResetAuthState_def)

subsection \<open>The worker ends\<close>

fun worker_rank :: "nat \<Rightarrow> worker_pc \<Rightarrow> nat" where
  "worker_rank p WFetch = p + 4"
| "worker_rank p (WGate l) = p + 3"
| "worker_rank p (WBegin l) = p + 2"
| "worker_rank p (WPoll l i) = (p - i) + 1"
| "worker_rank p WEnded = 0"

lemma worker_step_rank:
  assumes st: "worker_step we pc c = (pc', c')" and n: "pc \<noteq> WEnded" and p: "nat (pushTimeoutSec (m_config c)) \<le> p"
  shows "worker_rank p pc' < worker_rank p pc"
proof (cases pc)
  case WFetch
  with st show ?thesis by (auto simp: worker_step_def)
next
  case (WGate l)
  with st have "gate_step we l c = (pc', c')" by (simp add: worker_step_def)
  from gate_step_pc [OF this] WGate show ?thesis by auto
next
  case (WBegin l)
  with st have "begin_step we l c = (pc', c')" by (simp add: worker_step_def)
  from begin_step_pc [OF this] WBegin show ?thesis by auto
next
  case (WPoll l i)
  with st have q: "poll_step we l i c = (pc', c')" by (simp add: worker_step_def)
  show ?thesis
  proof (cases "int i < pushTimeoutSec (m_config c)")
    case True
    then have "i < p" using p by simp
    with poll_step_pc [OF q] WPoll show ?thesis by auto
  next
    case False
    with q WPoll show ?thesis by (simp add: poll_step_def)
  qed
qed (use n in simp)

lemma worker_step_config: "worker_step we pc c = (pc', c') \<Longrightarrow> m_config c' = m_config c"
  using worker_step_facts(1) [of we pc c pc' c'] by (cases "pc = WEnded") (auto simp: worker_frame_def worker_step_def)

text \<open>The \<open>n\<close>-th move of one worker thread, with any number of LogonUI's and the provider's calls in
  between.  A call that joins the thread ends it, and one that starts another job starts another
  thread; the calls here are those that leave the thread where it is.  They may initialise the tile
  again: \<open>B\<close> bounds the timeouts of its configurations.\<close>

definition worker_turn :: "bool \<Rightarrow> worker_env \<Rightarrow> sys \<Rightarrow> sys \<Rightarrow> bool" where
  "worker_turn race we s s' \<longleftrightarrow> s_pc s \<noteq> WEnded \<and> (race \<or> s_ui s = UIdle) \<and>
     s_pc s' = fst (worker_step we (s_pc s) (s_cred s)) \<and> s_cred s' = snd (worker_step we (s_pc s) (s_cred s)) \<and>
     s_ui s' = s_ui s"

definition timeout_within :: "nat \<Rightarrow> sys \<Rightarrow> bool" where
  "timeout_within B s \<longleftrightarrow> nat (pushTimeoutSec (m_config (s_cred s))) \<le> B"

inductive worker_moves :: "bool \<Rightarrow> bool \<Rightarrow> nat \<Rightarrow> nat \<Rightarrow> sys \<Rightarrow> sys \<Rightarrow> bool" for race reinit B where
  none: "timeout_within B s \<Longrightarrow> worker_moves race reinit B 0 s s"
| move: "worker_moves race reinit B n s s1 \<Longrightarrow> sys_step race reinit s1 s2 \<Longrightarrow> worker_turn race we s1 s2 \<Longrightarrow>
    worker_moves race reinit B (Suc n) s s2"
| call: "worker_moves race reinit B n s s1 \<Longrightarrow> sys_step race reinit s1 s2 \<Longrightarrow> s_pc s2 = s_pc s1 \<Longrightarrow>
    timeout_within B s2 \<Longrightarrow> worker_moves race reinit B n s s2"

lemma worker_moves_rank:
  "worker_moves race reinit B n s s' \<Longrightarrow> timeout_within B s' \<and> n + worker_rank B (s_pc s') \<le> worker_rank B (s_pc s)"
proof (induction rule: worker_moves.induct)
  case (move n s s1 s2 we)
  obtain pc' c' where st: "worker_step we (s_pc s1) (s_cred s1) = (pc', c')" by fastforce
  with move(3) have e: "s_pc s2 = pc'" "s_cred s2 = c'" "s_pc s1 \<noteq> WEnded" by (simp_all add: worker_turn_def)
  have "nat (pushTimeoutSec (m_config (s_cred s1))) \<le> B" using move(4) by (simp add: timeout_within_def)
  from worker_step_rank [OF st e(3) this] move(4) show ?case
    by (simp add: e timeout_within_def worker_step_config [OF st])
qed simp_all

lemma worker_turn_exists:
  assumes "s_pc s \<noteq> WEnded" "race \<or> s_ui s = UIdle"
  shows "\<exists>s'. sys_step race reinit s s' \<and> worker_turn race we s s'"
  using worker [OF assms surjective_pairing, of reinit we] assms by (force simp: worker_turn_def)

text \<open>C11. The worker ends, if each call to the server and to the pipe returns: a thread that has been
  started takes its job, asks the gate, begins and polls, at most \<open>B + 4\<close> moves, where the timeouts in force
  are at most \<open>B\<close> seconds, whatever the server answers and whatever LogonUI's and the provider's calls between its
  moves do, a new \<open>Initialize\<close> included; and as long as it has not ended it can make its next move.\<close>

theorem worker_terminates:
  assumes "worker_moves race reinit B n s s'" and "s_pc s = WFetch"
  shows "n \<le> B + 4 \<and> (n = B + 4 \<longrightarrow> s_pc s' = WEnded)
    \<and> (s_pc s' \<noteq> WEnded \<and> (race \<or> s_ui s' = UIdle) \<longrightarrow>
         (\<forall>we. \<exists>s''. worker_turn race we s' s'' \<and> worker_moves race reinit B (Suc n) s s''))"
proof -
  have r: "n + worker_rank B (s_pc s') \<le> B + 4" using worker_moves_rank [OF assms(1)] assms(2) by simp
  have "n = B + 4 \<longrightarrow> s_pc s' = WEnded" using r by (cases "s_pc s'") auto
  moreover have "\<exists>s''. worker_turn race we s' s'' \<and> worker_moves race reinit B (Suc n) s s''"
    if "s_pc s' \<noteq> WEnded" "race \<or> s_ui s' = UIdle" for we
    using worker_turn_exists [OF that, of reinit we] move [OF assms(1)] by blast
  ultimately show ?thesis using r by simp
qed

text \<open>The witness: LogonUI turns its events on before the worker takes its job.\<close>

theorem worker_terminates_witness:
  "\<exists>s s''. s_pc s = WFetch \<and> m_pEvents (s_cred s'') \<and> worker_moves False False 45 1 s s''"
proof -
  let ?s = "demo_sys (demo_job (wide ''bob'')) WFetch (wide ''bob'', [], wide ''pw'') None None"
  let ?s1 = "?s\<lparr>s_cred := (s_cred ?s)\<lparr>m_pEvents := True\<rparr>\<rparr>"
  have t: "timeout_within 45 ?s" "timeout_within 45 ?s1"
    by (simp_all add: timeout_within_def demo_job_def demo_config_def Config_default_def)
  have m: "worker_moves False False 45 0 ?s ?s1"
    by (rule call [OF none [OF t(1)] events _ t(2)]) simp_all
  from worker_terminates [OF m, THEN conjunct2, THEN conjunct2] obtain s''
    where n: "worker_turn False demo_we ?s1 s''" "worker_moves False False 45 (Suc 0) ?s s''" by fastforce
  have "m_pEvents (s_cred s'')" using n(1) by (simp add: worker_turn_def worker_step_def fetch_job_def)
  with n(2) show ?thesis by (intro exI [of _ ?s] exI [of _ s'']) simp
qed

text \<open>C12. LogonUI's thread does not wait for the network: a submit while the worker has not come to
  its result leaves the thread and its state as they are, and reports that it is not finished or,
  for an account on the bypass list, goes on without it.\<close>

theorem submit_does_not_wait:
  assumes "reachable False False s" and "s_ui s = UIdle" and "s_pc s \<noteq> WEnded"
    and "GetSerialization cv ue pe (s_cache s) (s_cred s) = (pc', c', r)"
  shows "m_hPollThread c' \<and> m_worker c' = m_worker (s_cred s) \<and> m_job c' = m_job (s_cred s)
    \<and> (sr_response r = CPGSR_RETURN_CREDENTIAL_FINISHED \<longrightarrow>
         IsBypassAccount (m_config (s_cred s)) (m_username (s_cred s)) (m_domain (s_cred s)))"
proof -
  let ?c = "s_cred s"
  have t: "thread_wf (s_pc s) (s_job s) ?c" and a: "auth_wf (s_pc s) (s_job s) (s_approved s) ?c"
    using sys_wf_idle [OF reachable_wf [OF assms(1)] assms(2)] by simp_all
  have f: "m_hPollThread ?c" "\<not> w_done (m_worker ?c)" "\<not> m_authenticated ?c"
    "w_beginDone (m_worker ?c) \<longrightarrow> w_beginOk (m_worker ?c)" "w_status (m_worker ?c) \<noteq> wide ''approved''"
    using t a assms(3) by (auto simp: thread_wf_def auth_wf_def)
  show ?thesis
  proof (cases "IsBypassAccount (m_config ?c) (m_username ?c) (m_domain ?c)")
    case True
    with assms(4) f(1) show ?thesis
      by (auto simp: GetSerialization_def dest: finish_with_shape split: if_splits)
  next
    case False
    then show ?thesis
      using assms(4) f by (cases "m_currentMode ?c")
        (auto simp: GetSerialization_def SerializeOtp_def SerializePush_def SerializeFido2_def Let_def split: if_splits)
  qed
qed

theorem submit_does_not_wait_witness:
  "let s = demo_sys (demo_job (wide ''bob'')) WFetch (wide ''bob'', [], wide ''pw'') None None;
       g = GetSerialization demo_codec demo_ui demo_pe (s_cache s) (s_cred s)
   in s_pc s = WFetch \<and> m_hPollThread (fst (snd g)) \<and> m_worker (fst (snd g)) = m_worker (s_cred s)"
proof -
  have r: "reachable False False (demo_sys (demo_job (wide ''bob'')) WFetch (wide ''bob'', [], wide ''pw'') None None)"
    by (rule demo_reach_job) simp_all
  show ?thesis
    unfolding Let_def using submit_does_not_wait [OF r _ _ surjective_pairing [THEN trans [OF _ arg_cong2 [where f = Pair, OF refl surjective_pairing]]]]
    by simp
qed

subsection \<open>Where the guarantee ends\<close>

definition race_window :: LigamentCredential where
  "race_window = ResetAuthState_begin demo_ui (demo_taken (wide ''alice''))"

definition race_end :: LigamentCredential where
  "race_end = edit_assign FID_USERNAME (wide ''bob'') (ResetAuthState_end demo_ui (demo_approve race_window))"

lemma race_window_sel [simp]:
  "m_config race_window = demo_config" "m_cpus race_window = CPUS_LOGON" "m_password race_window = wide ''pw''"
  "\<not> w_stop (m_worker race_window)" "\<not> m_pEvents race_window" "\<not> m_pProviderEvents race_window"
  "\<not> m_authenticated race_window"
  by (simp_all add: race_window_def ResetAuthState_begin_def ClearQrBitmap_def)

text \<open>C36. The window of \<open>ResetAuthState\<close> is real: the user's edit clears the confirmation, the worker
  confirms \<open>alice\<close> before the stop flag is raised, and the tile, now naming \<open>bob\<close>, finishes as
  confirmed although nobody confirmed \<open>bob\<close>.\<close>

theorem reset_window_confirms_other_account:
  "reachable True False (demo_sys race_end WEnded (wide ''alice'', [], wide ''pw'') (Some (wide ''alice'', [], wide ''pw''))
       (Some (demo_we, demo_locals (wide ''alice''))))
   \<and> m_username race_end = wide ''bob'' \<and> failClose (m_config race_end)
   \<and> \<not> IsBypassAccount (m_config race_end) (m_username race_end) (m_domain race_end)
   \<and> job_ident (wide ''alice'', [], wide ''pw'') \<noteq> ident race_end
   \<and> sr_response (snd (snd (GetSerialization demo_codec demo_ui demo_pe pkg_cache_init race_end)))
       = CPGSR_RETURN_CREDENTIAL_FINISHED"
proof -
  let ?j = "(wide ''alice'', [], wide ''pw'')"
  let ?s0 = "demo_sys (demo_taken (wide ''alice'')) (WBegin (demo_locals (wide ''alice''))) ?j None None"
  let ?s1 = "?s0\<lparr>s_cred := race_window, s_ui := UEditWindow FID_USERNAME (wide ''bob'')\<rparr>"
  let ?s2 = "?s1\<lparr>s_pc := WEnded, s_cred := demo_approve race_window, s_approved := Some ?j,
    s_begin := Some (demo_we, demo_locals (wide ''alice''))\<rparr>"
  have c: "m_authenticated race_end" "m_username race_end = wide ''bob''" "m_domain race_end = []"
    "m_password race_end = wide ''pw''" "m_config race_end = demo_config" "m_cpus race_end = CPUS_LOGON"
    "\<not> m_hPollThread race_end"
    by (simp_all add: race_end_def edit_assign_def assign_username_def)
  have i: "job_ident ?j \<noteq> ident race_end"
    by (simp add: job_ident_def ident_def c account_key_def fold_pair_def)
      (simp add: wide_def fold_wchar_def SplitUserName_def chr_find_def)
  have r0: "reachable True False ?s0" by (rule demo_reach_begin) simp_all
  have e: "edit_resets FID_USERNAME (wide ''bob'') (s_cred ?s0)"
    by (simp add: edit_resets_def prevRaw_def wcsieq_def wide_def)
  have r1: "reachable True False ?s1"
    using reachable.step [OF r0 edit_begin [OF _ e, of True False demo_ui]] by (simp add: race_window_def)
  have "worker_step demo_we (s_pc ?s1) (s_cred ?s1) = (WEnded, demo_approve race_window)"
    using demo_begin [of race_window "wide ''alice''"] by simp
  from reachable.step [OF r1 worker [OF _ _ this, of True False]]
  have r2: "reachable True False ?s2" by (simp add: demo_sys_def)
  from reachable.step [OF r2 edit_end [of ?s2 FID_USERNAME "wide ''bob''" True False demo_ui]]
  have "reachable True False (demo_sys race_end WEnded ?j (Some ?j) (Some (demo_we, demo_locals (wide ''alice''))))"
    by (simp add: after_ui_def demo_sys_def race_end_def [symmetric] c)
  then show ?thesis using i by (simp add: c demo_serialization) (simp add: demo_config_def Config_default_def)
qed

lemma GetSerialization_bypass: "m_username c \<noteq> [] \<Longrightarrow> m_password c \<noteq> [] \<Longrightarrow>
   IsBypassAccount (m_config c) (m_username c) (m_domain c) \<Longrightarrow>
   GetSerialization cv ue pe pc c = finish_with pe pc c"
  by (simp add: GetSerialization_def)

text \<open>The bypass list ignores the domain the user types: the tile splits \<open>DOMAIN\name\<close> before it
  asks, so an entry without a domain, meant for names typed without one, lets \<open>name\<close> of every
  domain in without the second factor.\<close>

lemma bypass_ignores_typed_domain:
  assumes "acc \<in> set (bypassAccounts (m_config c))" and "acc \<noteq> []" and "92 \<notin> set d" and "d \<noteq> []"
    and "c1 = SetStringValue ue FID_USERNAME (Some (d @ 92 # acc)) c"
    and "c2 = SetStringValue ue FID_PASSWORD (Some p) c1" and "p \<noteq> []"
  shows "m_domain c2 = d \<and> m_username c2 = acc \<and> m_password c2 = p
    \<and> GetSerialization cv ue pe pc c2 = finish_with pe pc c2"
proof -
  have e: "m_config (if b then ResetAuthState ue x else x) = m_config x"
    "m_username (if b then ResetAuthState ue x else x) = m_username x"
    "m_domain (if b then ResetAuthState ue x else x) = m_domain x" for b x
    by (simp_all add: ResetAuthState_def)
  have c1: "m_domain c1 = d" "m_username c1 = acc" "m_config c1 = m_config c"
    unfolding assms(5) SetStringValue_def Let_def using SplitUserName_slash [OF assms(3), of acc]
    by (simp_all add: edit_assign_def assign_username_def e)
  have c2: "m_domain c2 = d" "m_username c2 = acc" "m_config c2 = m_config c" "m_password c2 = p"
    unfolding assms(6) SetStringValue_def Let_def by (simp_all add: edit_assign_def e c1)
  have "IsBypassAccount (m_config c2) (m_username c2) (m_domain c2)"
    using assms(1,2) by (intro IsBypassAccount_short [of acc]) (simp_all add: c2 wcsieq_def)
  then have "GetSerialization cv ue pe pc c2 = finish_with pe pc c2"
    using assms(2,7) by (intro GetSerialization_bypass) (simp_all add: c2)
  with c2 show ?thesis by simp
qed

text \<open>The witness: the entry \<open>administrator\<close> and the name \<open>EVIL\administrator\<close>.\<close>

lemma bypass_ignores_typed_domain_example:
  "let c = LigamentCredential_new\<lparr>m_config := demo_config\<lparr>bypassAccounts := [wide ''administrator'']\<rparr>\<rparr>;
       c1 = SetStringValue demo_ui FID_USERNAME (Some (wide ''EVIL'' @ 92 # wide ''administrator'')) c;
       c2 = SetStringValue demo_ui FID_PASSWORD (Some (wide ''pw'')) c1
   in m_domain c2 = wide ''EVIL'' \<and> m_username c2 = wide ''administrator'' \<and> m_password c2 = wide ''pw''
      \<and> GetSerialization demo_codec demo_ui demo_pe pkg_cache_init c2 = finish_with demo_pe pkg_cache_init c2"
  unfolding Let_def
  by (rule bypass_ignores_typed_domain [OF _ _ _ _ refl refl]) (simp_all add: wide_def)

text \<open>C37. A live tile that is initialised again keeps its worker's result: a push the user denied,
  read in the code mode, is taken for an accepted code, and any text in the code field finishes
  the logon.\<close>

theorem reinitialised_tile_accepts_any_code:
  assumes "poll_step we l i c0 = (WEnded, c)" and "\<not> w_stop (m_worker c0)"
    and "int i < pushTimeoutSec (m_config c0)"
    and "fst (PollStatus (we_cv we) (we_net we) (job_client we c0) (l_challengeId l)) = Inr (wide ''denied'', t)"
    and "m_hPollThread c0" and "w_beginDone (m_worker c0)" and "w_beginOk (m_worker c0)" and "\<not> m_authenticated c0"
    and "m_username c0 \<noteq> []" and "m_password c0 \<noteq> []" and "defaultFactor cfg = 2" and "bypassAccounts cfg = []"
    and "c1 = SetStringValue ue FID_OTP_CODE (Some x) (Initialize ue cfg remote CPUS_UNLOCK_WORKSTATION flags c)"
    and "x \<noteq> []"
  shows "\<not> m_authenticated c1 \<and> w_status (m_worker c1) = wide ''denied''
    \<and> GetSerialization cv ue pe pc c1 = finish_with pe pc ((JoinPollThread c1)\<lparr>m_authenticated := True\<rparr>)"
proof -
  have ts: "terminal_status (wide ''denied'')" by (simp add: terminal_status_def)
  have c: "c = poll_terminal we l (wide ''denied'') c0"
    using assms(1-4) ts by (simp add: poll_step_def)
  have k: "m_hPollThread c" "w_done (m_worker c)" "w_beginDone (m_worker c)" "w_beginOk (m_worker c)"
    "\<not> m_authenticated c" "m_username c \<noteq> []" "m_password c \<noteq> []" "w_status (m_worker c) = wide ''denied''"
    using assms(2,5-10) by (simp_all add: c poll_terminal_def)
  have i: "m_currentMode (Initialize ue cfg remote CPUS_UNLOCK_WORKSTATION flags c) = MODE_OTP"
    "m_config (Initialize ue cfg remote CPUS_UNLOCK_WORKSTATION flags c) = cfg"
    using assms(11) by (simp_all add: Initialize_def Let_def)
  have c1: "c1 = (Initialize ue cfg remote CPUS_UNLOCK_WORKSTATION flags c)\<lparr>m_otpCode := x\<rparr>"
    unfolding assms(13) by (simp add: SetStringValue_def edit_resets_def edit_assign_def Let_def)
  have f: "\<not> IsBypassAccount (m_config c1) u d" for u d
    by (simp add: c1 i IsBypassAccount_def assms(12))
  show ?thesis
    using k i f assms(14) by (simp add: c1 GetSerialization_def SerializeOtp_def Let_def)
qed

definition denied_response :: string where
  "denied_response = CHR ''{'' # quote # ''status'' @ quote # CHR '':'' # quote # ''denied'' @ [quote, CHR ''}'']"

definition denied_we :: worker_env where
  "denied_we = demo_we\<lparr>we_net := (\<lambda>_. demo_answer 200 denied_response)\<rparr>"

text \<open>A tile whose push was sent and is being polled.\<close>

definition polling_tile :: LigamentCredential where
  "polling_tile = (demo_taken (wide ''bob''))\<lparr>m_currentMode := MODE_PUSH,
     m_worker := begin_result True [] 0 WorkerState_init\<rparr>"

lemma denied_poll:
  "fst (PollStatus demo_codec (\<lambda>_. demo_answer 200 denied_response) demo_http cid) = Inr (wide ''denied'', [])"
proof -
  have "ExtractJsonString denied_response ''status'' = ''denied''" by code_simp
  moreover have "ExtractJsonString denied_response ''sso_ticket'' = []" by code_simp
  ultimately show ?thesis
    by (simp add: PollStatus_def SendRequest_def Let_def Utf8ToWide_def demo_codec_def wide_def)
qed

theorem reinitialised_tile_accepts_any_code_witness:
  "let c = snd (poll_step denied_we (demo_locals (wide ''bob'')) 0 polling_tile);
       c1 = SetStringValue demo_ui FID_OTP_CODE (Some (wide ''x''))
              (Initialize demo_ui demo_config False CPUS_UNLOCK_WORKSTATION 0 c)
   in w_status (m_worker c1) = wide ''denied''
      \<and> GetSerialization demo_codec demo_ui demo_pe pkg_cache_init c1
          = finish_with demo_pe pkg_cache_init ((JoinPollThread c1)\<lparr>m_authenticated := True\<rparr>)"
proof -
  have cl: "job_client denied_we polling_tile = demo_http"
    by (simp add: job_client_def denied_we_def polling_tile_def demo_config_def Config_default_def demo_http_def Let_def)
  have p: "fst (PollStatus (we_cv denied_we) (we_net denied_we) (job_client denied_we polling_tile)
      (l_challengeId (demo_locals (wide ''bob'')))) = Inr (wide ''denied'', [])"
    unfolding cl using denied_poll by (simp add: denied_we_def)
  have t: "poll_step denied_we (demo_locals (wide ''bob'')) 0 polling_tile
      = (WEnded, snd (poll_step denied_we (demo_locals (wide ''bob'')) 0 polling_tile))"
    using p by (simp add: poll_step_def terminal_status_def polling_tile_def demo_config_def Config_default_def
        begin_result_def)
  have h: "m_hPollThread polling_tile"
    by (simp add: polling_tile_def demo_taken_def demo_job_def)
  show ?thesis
    unfolding Let_def
    using reinitialised_tile_accepts_any_code [OF t _ _ p h _ _ _ _ _ _ _ refl, of demo_config "wide ''x''" demo_ui
        False 0 demo_codec demo_pe pkg_cache_init]
    by (simp add: polling_tile_def begin_result_def demo_config_def Config_default_def wide_def)
qed

end
