(* ===== verification/Provider.thy ===== *)
theory Provider
  imports CredentialProperties
begin

text \<open>
  \<open>credential_provider/LigamentProvider.cpp\<close>: which usage scenarios get the second factor, the
  single tile and its automatic submit, and the filter that hides the stock password provider.
  Registry, session and host process are a \<open>provider_env\<close>.
\<close>

subsection \<open>State\<close>

record provider_env =
  pv_crack :: "wstr \<Rightarrow> url_components option"
  pv_registry :: registry
  pv_remoteMetric :: bool            \<comment> \<open>\<open>GetSystemMetrics(SM_REMOTESESSION) != 0\<close>\<close>
  pv_protocol :: "u16 option option" \<comment> \<open>\<open>WTSClientProtocolType\<close>: the query, and the pointer it gives\<close>
  pv_modulePath :: "wstr option"     \<comment> \<open>the host's path, \<open>None\<close> when it cannot be read\<close>
  pv_ui :: ui_env

record LigamentProvider =
  p_pEvents :: bool
  p_adviseContext :: nat
  p_scenario :: usage_scenario
  p_flags :: u32
  p_config :: Config
  p_isRemoteSession :: bool
  p_shouldEnforce2FA :: bool
  p_pCredential :: "LigamentCredential option"

definition load_config :: "provider_env \<Rightarrow> Config" where
  "load_config e = fst (LoadFromRegistry (pv_crack e) (pv_registry e))"

definition LigamentProvider_new :: "provider_env \<Rightarrow> LigamentProvider" where
  "LigamentProvider_new e = \<lparr>p_pEvents = False, p_adviseContext = 0, p_scenario = CPUS_INVALID, p_flags = 0,
     p_config = load_config e, p_isRemoteSession = False, p_shouldEnforce2FA = False, p_pCredential = None\<rparr>"

subsection \<open>The environment\<close>

text \<open>The path goes through a buffer of \<open>MAX_PATH\<close> units; a path that does not fit counts as none.\<close>

definition CurrentHostProcessName :: "provider_env \<Rightarrow> wstr" where
  "CurrentHostProcessName e = (case pv_modulePath e of
     None \<Rightarrow> []
   | Some path \<Rightarrow> if path = [] \<or> 260 \<le> length path then []
                  else rev (takeWhile (\<lambda>c. c \<noteq> 92 \<and> c \<noteq> 47) (rev path)))"

definition CREDUIWIN_GENERIC :: u32 where "CREDUIWIN_GENERIC = 0x1"
definition CREDUIWIN_ENUMERATE_ADMINS :: u32 where "CREDUIWIN_ENUMERATE_ADMINS = 0x100"

definition IsUacElevationCredUI :: "u32 \<Rightarrow> wstr \<Rightarrow> bool" where
  "IsUacElevationCredUI dwFlags host =
     (if dwFlags AND CREDUIWIN_GENERIC \<noteq> 0 then False
      else if dwFlags AND CREDUIWIN_ENUMERATE_ADMINS \<noteq> 0 then True
      else wcsieq host (wide ''consent.exe'') \<or> wcsieq host (wide ''credentialuibroker.exe'')
           \<or> wcsieq host (wide ''logonui.exe''))"

definition CheckIfRemoteSession :: "provider_env \<Rightarrow> bool" where
  "CheckIfRemoteSession e =
     (if pv_remoteMetric e then True
      else case pv_protocol e of
             None \<Rightarrow> False
           | Some None \<Rightarrow> False
           | Some (Some proto) \<Rightarrow> proto \<noteq> 0)"

subsection \<open>The scenario\<close>

definition SetProviderEvents :: "bool \<Rightarrow> nat \<Rightarrow> LigamentCredential \<Rightarrow> LigamentCredential" where
  "SetProviderEvents pcpe ctx c = c\<lparr>m_pProviderEvents := pcpe, m_providerAdviseContext := ctx\<rparr>"

text \<open>Whether the scenario gets the second factor, from the fields \<open>SetUsageScenario\<close> has just set.\<close>

definition scenario_enforced :: "provider_env \<Rightarrow> usage_scenario \<Rightarrow> u32 \<Rightarrow> LigamentProvider \<Rightarrow> bool" where
  "scenario_enforced e cpus dwFlags p =
     (let cfg = p_config p
      in if cpus = CPUS_CREDUI
         then serverUrlConfigured cfg \<and> elevation2faEnabled cfg
              \<and> IsUacElevationCredUI dwFlags (CurrentHostProcessName e)
         else if serverUrlConfigured cfg \<and> (cpus = CPUS_LOGON \<or> cpus = CPUS_UNLOCK_WORKSTATION)
         then (if p_isRemoteSession p \<and> rdp2faEnabled cfg then True
               else \<not> p_isRemoteSession p \<and> console2faEnabled cfg)
         else False)"

definition SetUsageScenario ::
    "provider_env \<Rightarrow> usage_scenario \<Rightarrow> u32 \<Rightarrow> LigamentProvider \<Rightarrow> hresult \<times> LigamentProvider" where
  "SetUsageScenario e cpus dwFlags p =
     (let scenarioChanged = (p_scenario p \<noteq> cpus);
          p = p\<lparr>p_scenario := cpus, p_flags := dwFlags, p_isRemoteSession := CheckIfRemoteSession e,
                p_config := load_config e\<rparr>;
          p = p\<lparr>p_shouldEnforce2FA := scenario_enforced e cpus dwFlags p\<rparr>
      in if cpus = CPUS_CREDUI \<and> \<not> p_shouldEnforce2FA p then (E_NOTIMPL, p)
         else if p_shouldEnforce2FA p
         then (let (c, changed) = (case p_pCredential p of
                      None \<Rightarrow> (LigamentCredential_new, True)
                    | Some c \<Rightarrow> (c, scenarioChanged));
                   c = (if changed
                        then Initialize (pv_ui e) (p_config p) (p_isRemoteSession p) cpus dwFlags c else c);
                   c = (if p_pEvents p then SetProviderEvents True (p_adviseContext p) c else c)
               in (S_OK, p\<lparr>p_pCredential := Some c\<rparr>))
         else (S_OK, p))"

definition SetSerialization :: "LigamentProvider \<Rightarrow> hresult \<times> LigamentProvider" where
  "SetSerialization p = (E_NOTIMPL, p)"

definition UpdateRemoteCredential :: "LigamentProvider \<Rightarrow> hresult \<times> LigamentProvider" where
  "UpdateRemoteCredential p = (E_NOTIMPL, p)"

definition provider_Advise :: "bool \<Rightarrow> nat \<Rightarrow> LigamentProvider \<Rightarrow> hresult \<times> LigamentProvider" where
  "provider_Advise pcpe ctx p =
     (S_OK, p\<lparr>p_pEvents := pcpe, p_adviseContext := ctx,
              p_pCredential := map_option (SetProviderEvents pcpe ctx) (p_pCredential p)\<rparr>)"

definition provider_UnAdvise :: "LigamentProvider \<Rightarrow> hresult \<times> LigamentProvider" where
  "provider_UnAdvise p =
     (S_OK, p\<lparr>p_pEvents := False, p_adviseContext := 0,
              p_pCredential := map_option (SetProviderEvents False 0) (p_pCredential p)\<rparr>)"

subsection \<open>Fields and tiles\<close>

datatype field_type = CPFT_TILE_IMAGE | CPFT_LARGE_TEXT | CPFT_EDIT_TEXT | CPFT_PASSWORD_TEXT
  | CPFT_SUBMIT_BUTTON | CPFT_SMALL_TEXT | CPFT_COMMAND_LINK

record field_descriptor =
  fd_id :: FIELD_ID
  fd_type :: field_type
  fd_isLogo :: bool \<comment> \<open>\<open>CPFG_CREDENTIAL_PROVIDER_LOGO\<close>\<close>

definition s_Fields :: "field_descriptor list" where
  "s_Fields = map (\<lambda>(i, t, g). \<lparr>fd_id = i, fd_type = t, fd_isLogo = g\<rparr>)
     [(FID_LOGO, CPFT_TILE_IMAGE, True), (FID_LARGE_TEXT, CPFT_LARGE_TEXT, False),
      (FID_USERNAME, CPFT_EDIT_TEXT, False), (FID_PASSWORD, CPFT_PASSWORD_TEXT, False),
      (FID_SUBMIT, CPFT_SUBMIT_BUTTON, False), (FID_STATUS_TEXT, CPFT_SMALL_TEXT, False),
      (FID_NUMBER_MATCH, CPFT_LARGE_TEXT, False), (FID_FIDO2_BTN, CPFT_COMMAND_LINK, False),
      (FID_OTP_CODE, CPFT_EDIT_TEXT, False), (FID_SWITCH_FACTOR_BTN, CPFT_COMMAND_LINK, False)]"

definition field_count :: nat where "field_count = 10" \<comment> \<open>\<open>FID_NUM_FIELDS\<close>\<close>

text \<open>The two pointers of the calls: whether the caller's is non-null, and whether the allocation
  succeeds.\<close>

definition GetFieldDescriptorCount :: "bool \<Rightarrow> hresult \<times> nat option" where
  "GetFieldDescriptorCount ptr = (if \<not> ptr then (E_POINTER, None) else (S_OK, Some field_count))"

definition GetFieldDescriptorAt :: "bool \<Rightarrow> bool \<Rightarrow> nat \<Rightarrow> hresult \<times> field_descriptor option" where
  "GetFieldDescriptorAt ptr alloc i =
     (if \<not> ptr then (E_POINTER, None)
      else if field_count \<le> i then (E_INVALIDARG, None)
      else if \<not> alloc then (E_OUTOFMEMORY, None)
      else (S_OK, Some (s_Fields ! i)))"

text \<open>The count, the default tile (none is \<open>CREDENTIAL_PROVIDER_NO_DEFAULT\<close>) and the automatic
  submit.\<close>

definition GetCredentialCount :: "LigamentProvider \<Rightarrow> nat \<times> nat option \<times> bool" where
  "GetCredentialCount p =
     (case p_pCredential p of
        Some c \<Rightarrow> if p_shouldEnforce2FA p then (1, Some 0, m_authenticated c) else (0, None, False)
      | None \<Rightarrow> (0, None, False))"

definition GetCredentialAt :: "bool \<Rightarrow> nat \<Rightarrow> LigamentProvider \<Rightarrow> hresult \<times> LigamentCredential option" where
  "GetCredentialAt ptr i p =
     (if \<not> ptr then (E_POINTER, None)
      else if i \<noteq> 0 \<or> p_pCredential p = None then (E_INVALIDARG, None)
      else (S_OK, p_pCredential p))"

subsection \<open>The filter\<close>

type_synonym guid = "u32 \<times> u16 \<times> u16 \<times> u8 list"

definition CLSID_PasswordProvider :: guid where
  "CLSID_PasswordProvider = (0x60b78e88, 0xead8, 0x445c, [0x9c, 0xfd, 0x0b, 0x87, 0xf7, 0x4e, 0xa6, 0xcd])"

fun suppress_stock :: "guid list \<Rightarrow> bool list \<Rightarrow> bool list" where
  "suppress_stock (g # gs) (a # al) = (if g = CLSID_PasswordProvider then False else a) # suppress_stock gs al"
| "suppress_stock _ al = al"

definition filter_enforced :: "provider_env \<Rightarrow> usage_scenario \<Rightarrow> u32 \<Rightarrow> bool" where
  "filter_enforced e cpus dwFlags =
     (let isRemote = CheckIfRemoteSession e; cfg = load_config e
      in if cpus = CPUS_LOGON \<or> cpus = CPUS_UNLOCK_WORKSTATION
         then serverUrlConfigured cfg \<and> (isRemote \<and> rdp2faEnabled cfg \<or> \<not> isRemote \<and> console2faEnabled cfg)
         else if cpus = CPUS_CREDUI
         then dwFlags AND CREDUIWIN_GENERIC = 0 \<and> serverUrlConfigured cfg \<and> elevation2faEnabled cfg
              \<and> IsUacElevationCredUI dwFlags (CurrentHostProcessName e)
         else False)"

definition Filter :: "provider_env \<Rightarrow> usage_scenario \<Rightarrow> u32 \<Rightarrow> guid list \<Rightarrow> bool list \<Rightarrow> hresult \<times> bool list" where
  "Filter e cpus dwFlags clsids allow =
     (S_OK, if filter_enforced e cpus dwFlags then suppress_stock clsids allow else allow)"

subsection \<open>Facts\<close>

lemma suppress_stock_length [simp]: "length (suppress_stock gs al) = length al"
  by (induction gs al rule: suppress_stock.induct) simp_all

lemma suppress_stock_nth:
  "i < length gs \<Longrightarrow> i < length al \<Longrightarrow>
   suppress_stock gs al ! i = (al ! i \<and> gs ! i \<noteq> CLSID_PasswordProvider)"
proof (induction gs al arbitrary: i rule: suppress_stock.induct)
  case (1 g gs a al)
  then show ?case by (cases i) auto
qed simp_all

lemma uac_not_generic: "IsUacElevationCredUI dwFlags host \<Longrightarrow> dwFlags AND CREDUIWIN_GENERIC = 0"
  by (simp add: IsUacElevationCredUI_def split: if_splits)

lemma enforced_agree:
  "scenario_enforced e cpus dwFlags (p\<lparr>p_scenario := cpus, p_flags := dwFlags,
      p_isRemoteSession := CheckIfRemoteSession e, p_config := load_config e\<rparr>) = filter_enforced e cpus dwFlags"
  using uac_not_generic [of dwFlags] by (auto simp: scenario_enforced_def filter_enforced_def Let_def)

lemma SetUsageScenario_sel:
  assumes "SetUsageScenario e cpus dwFlags p = (hr, p')"
  shows "p_shouldEnforce2FA p' = filter_enforced e cpus dwFlags" "p_scenario p' = cpus"
    "p_shouldEnforce2FA p' \<Longrightarrow> hr = S_OK \<and> p_pCredential p' \<noteq> None"
    "p_config p' = load_config e"
  using assms enforced_agree [of e cpus dwFlags p]
  by (auto simp: SetUsageScenario_def Let_def split: if_splits prod.splits option.splits)

text \<open>C4. The user is never left without a tile, and the second factor cannot be walked around: in
  every scenario, the stock password provider is hidden exactly when Ligament offers its tile,
  and no other provider is touched.\<close>

theorem tile_iff_stock_hidden:
  assumes "SetUsageScenario e cpus dwFlags p = (hr, p')" and "length clsids = length allow"
    and "i < length clsids"
  shows "snd (Filter e cpus dwFlags clsids allow) ! i =
     (allow ! i \<and> \<not> (clsids ! i = CLSID_PasswordProvider \<and> fst (GetCredentialCount p') = 1))
   \<and> length (snd (Filter e cpus dwFlags clsids allow)) = length allow"
proof -
  have "(fst (GetCredentialCount p') = 1) = filter_enforced e cpus dwFlags"
    using SetUsageScenario_sel(1,3) [OF assms(1)] by (auto simp: GetCredentialCount_def split: option.splits)
  then show ?thesis using assms(2,3) by (auto simp: Filter_def suppress_stock_nth)
qed

definition demo_env :: provider_env where
  "demo_env = \<lparr>pv_crack = demo_crack,
     pv_registry = \<lparr>hkPolicy = None, hkLocal = Some [''ServerURL'' \<mapsto> RegSz (wide ''https://tfa''),
                      ''RDP2FAEnabled'' \<mapsto> RegDword 1]\<rparr>,
     pv_remoteMetric = False, pv_protocol = Some (Some 2), pv_modulePath = Some (wide ''C:/LogonUI.exe''),
     pv_ui = demo_ui\<rparr>"

lemma demo_env_config:
  "serverUrlConfigured (load_config demo_env)" "rdp2faEnabled (load_config demo_env)"
  by code_simp+

lemma demo_env_enforced: "filter_enforced demo_env CPUS_LOGON 0"
  using demo_env_config by (simp add: filter_enforced_def CheckIfRemoteSession_def demo_env_def)

theorem tile_iff_stock_hidden_witness:
  "snd (Filter demo_env CPUS_LOGON 0 [CLSID_PasswordProvider, (1, 2, 3, [])] [True, True]) ! 0
     = (True \<and> \<not> (CLSID_PasswordProvider = CLSID_PasswordProvider
          \<and> fst (GetCredentialCount (snd (SetUsageScenario demo_env CPUS_LOGON 0 (LigamentProvider_new demo_env)))) = 1))
   \<and> p_shouldEnforce2FA (snd (SetUsageScenario demo_env CPUS_LOGON 0 (LigamentProvider_new demo_env)))"
proof -
  have s: "SetUsageScenario demo_env CPUS_LOGON 0 (LigamentProvider_new demo_env)
      = (fst (SetUsageScenario demo_env CPUS_LOGON 0 (LigamentProvider_new demo_env)),
         snd (SetUsageScenario demo_env CPUS_LOGON 0 (LigamentProvider_new demo_env)))" by simp
  show ?thesis
    using tile_iff_stock_hidden [OF s, of "[CLSID_PasswordProvider, (1, 2, 3, [])]" "[True, True]" 0]
      SetUsageScenario_sel(1) [OF s] demo_env_enforced by simp
qed

text \<open>Dialogs of applications are left alone: the second factor is only asked for with a
  configured server, at logon, unlock or elevation, never in a generic credential dialog and never
  in a password change.\<close>

lemma enforced_only_where_it_belongs:
  assumes "SetUsageScenario e cpus dwFlags p = (hr, p')" and "fst (GetCredentialCount p') \<noteq> 0"
  shows "serverUrlConfigured (load_config e)
    \<and> (cpus = CPUS_LOGON \<or> cpus = CPUS_UNLOCK_WORKSTATION \<or> cpus = CPUS_CREDUI)
    \<and> (if cpus = CPUS_CREDUI
       then elevation2faEnabled (load_config e) \<and> dwFlags AND CREDUIWIN_GENERIC = 0
       else if CheckIfRemoteSession e then rdp2faEnabled (load_config e) else console2faEnabled (load_config e))"
proof -
  have "filter_enforced e cpus dwFlags"
    using SetUsageScenario_sel(1) [OF assms(1)] assms(2) by (auto simp: GetCredentialCount_def split: option.splits if_splits)
  then show ?thesis by (auto simp: filter_enforced_def Let_def split: if_splits)
qed

lemma enforced_only_where_it_belongs_example:
  "serverUrlConfigured (load_config demo_env)
    \<and> (CPUS_LOGON = CPUS_LOGON \<or> CPUS_LOGON = CPUS_UNLOCK_WORKSTATION \<or> CPUS_LOGON = CPUS_CREDUI)
    \<and> (if CPUS_LOGON = CPUS_CREDUI
       then elevation2faEnabled (load_config demo_env) \<and> (0 :: u32) AND CREDUIWIN_GENERIC = 0
       else if CheckIfRemoteSession demo_env then rdp2faEnabled (load_config demo_env)
       else console2faEnabled (load_config demo_env))"
proof -
  obtain hr p' where s: "SetUsageScenario demo_env CPUS_LOGON 0 (LigamentProvider_new demo_env) = (hr, p')" by fastforce
  have "fst (GetCredentialCount p') \<noteq> 0"
    using SetUsageScenario_sel(1,3) [OF s] demo_env_enforced by (auto simp: GetCredentialCount_def)
  from enforced_only_where_it_belongs [OF s this] show ?thesis .
qed

subsection \<open>The provider and the tile\<close>

lemma cred_update_same: "s\<lparr>s_cred := s_cred s\<rparr> = s"
  by simp

lemma reachable_provider_events:
  "reachable race reinit s \<Longrightarrow> s_ui s = UIdle \<Longrightarrow>
   reachable race reinit (s\<lparr>s_cred := SetProviderEvents b ctx (s_cred s)\<rparr>)"
  unfolding SetProviderEvents_def by (erule reachable.step) (rule provider_events)

lemma reachable_provider_initialize:
  assumes "reachable race reinit s" "s_ui s = UIdle" "b \<longrightarrow> reinit"
  shows "reachable race reinit (s\<lparr>s_cred := (if b then Initialize ue cfg remote cpus dwFlags (s_cred s) else s_cred s)\<rparr>)"
  using reachable.step [OF assms(1) initialize [OF _ assms(2), of reinit race ue cfg remote cpus dwFlags]] assms by simp

text \<open>The tile as \<open>SetUsageScenario\<close> leaves it, with the events \<open>Advise\<close> left in the provider.\<close>

definition with_events :: "LigamentProvider \<Rightarrow> LigamentCredential \<Rightarrow> LigamentCredential" where
  "with_events p c = (if p_pEvents p then SetProviderEvents True (p_adviseContext p) c else c)"

lemma reachable_with_events:
  "reachable race reinit s \<Longrightarrow> s_ui s = UIdle \<Longrightarrow> reachable race reinit (s\<lparr>s_cred := with_events p (s_cred s)\<rparr>)"
  by (simp add: with_events_def reachable_provider_events)

lemma SetUsageScenario_live:
  "p_pCredential p = Some c \<Longrightarrow> p_pCredential (snd (SetUsageScenario e cpus dwFlags p)) =
     Some (if p_shouldEnforce2FA (snd (SetUsageScenario e cpus dwFlags p))
           then with_events p (if p_scenario p \<noteq> cpus
             then Initialize (pv_ui e) (load_config e) (CheckIfRemoteSession e) cpus dwFlags c else c)
           else c)"
  by (auto simp: SetUsageScenario_def with_events_def Let_def)

lemma SetUsageScenario_fresh:
  "p_pCredential p = None \<Longrightarrow> p_pCredential (snd (SetUsageScenario e cpus dwFlags p)) =
     (if p_shouldEnforce2FA (snd (SetUsageScenario e cpus dwFlags p))
      then Some (with_events p (s_cred (sys_init (pv_ui e) (load_config e) (CheckIfRemoteSession e) cpus dwFlags)))
      else None)"
  by (auto simp: SetUsageScenario_def with_events_def sys_init_def Let_def)

lemma provider_live_tile:
  assumes "p_pCredential p = Some (s_cred s)" and "reachable race reinit s" and "s_ui s = UIdle"
    and "p' \<in> {snd (SetUsageScenario e cpus dwFlags p), snd (provider_Advise b ctx p), snd (provider_UnAdvise p)}"
    and "p_scenario p \<noteq> cpus \<longrightarrow> reinit"
  shows "\<exists>c'. p_pCredential p' = Some c' \<and> reachable race reinit (s\<lparr>s_cred := c'\<rparr>)"
proof -
  note ev = reachable_provider_events [OF assms(2,3)]
  from assms(4) consider "p' = snd (provider_Advise b ctx p)" | "p' = snd (provider_UnAdvise p)"
    | "p' = snd (SetUsageScenario e cpus dwFlags p)" by auto
  then show ?thesis
  proof cases
    case 3
    note i = reachable_provider_initialize [OF assms(2,3,5), of "pv_ui e" "load_config e" "CheckIfRemoteSession e" cpus dwFlags]
    show ?thesis
      using 3 SetUsageScenario_live [OF assms(1), of e cpus dwFlags] reachable_with_events [OF i] assms(2,3) by simp
  qed (use assms(1) ev in \<open>auto simp: provider_Advise_def provider_UnAdvise_def\<close>)
qed

text \<open>C14. The provider's calls are steps of the tile's system.  A tile made by \<open>SetUsageScenario\<close> is in the
  initial state of the system, for the provider's configuration, session and scenario, but for the
  events \<open>Advise\<close> may have left: it is not confirmed, names no account, and no worker runs.  On a live
  tile, \<open>Advise\<close>, \<open>UnAdvise\<close> and a \<open>SetUsageScenario\<close> of the same scenario change nothing but
  its events, and every call leads to a state the system can reach; a \<open>SetUsageScenario\<close> of another scenario is the
  only call that initialises the tile again.\<close>

theorem provider_calls_are_steps:
  assumes "p' \<in> {snd (SetUsageScenario e cpus dwFlags p), snd (provider_Advise b ctx p), snd (provider_UnAdvise p)}"
  shows "(p_pCredential p = None \<and> p_pCredential p' = Some c' \<longrightarrow>
           (\<exists>s. s = sys_init (pv_ui e) (load_config e) (CheckIfRemoteSession e) cpus dwFlags
              \<and> c' = (s_cred s)\<lparr>m_pProviderEvents := m_pProviderEvents c', m_providerAdviseContext := m_providerAdviseContext c'\<rparr>
              \<and> (m_pProviderEvents c' \<longrightarrow> p_pEvents p \<and> m_providerAdviseContext c' = p_adviseContext p)
              \<and> reachable race reinit (s\<lparr>s_cred := c'\<rparr>)
              \<and> \<not> m_authenticated c' \<and> m_username c' = [] \<and> m_password c' = [] \<and> \<not> m_hPollThread c'))
    \<and> (\<forall>s. p_pCredential p = Some (s_cred s) \<and> reachable race reinit s \<and> s_ui s = UIdle
         \<and> (p_scenario p \<noteq> cpus \<longrightarrow> reinit) \<longrightarrow>
           (\<exists>c1. p_pCredential p' = Some c1 \<and> reachable race reinit (s\<lparr>s_cred := c1\<rparr>)
              \<and> (p_scenario p = cpus \<or> p' \<noteq> snd (SetUsageScenario e cpus dwFlags p) \<longrightarrow>
                   c1 = (s_cred s)\<lparr>m_pProviderEvents := m_pProviderEvents c1, m_providerAdviseContext := m_providerAdviseContext c1\<rparr>)))"
proof (intro conjI allI impI)
  assume n: "p_pCredential p = None \<and> p_pCredential p' = Some c'"
  let ?s = "sys_init (pv_ui e) (load_config e) (CheckIfRemoteSession e) cpus dwFlags"
  have "p' = snd (SetUsageScenario e cpus dwFlags p)"
    using n assms by (auto simp: provider_Advise_def provider_UnAdvise_def)
  then have c: "c' = with_events p (s_cred ?s)"
    using n SetUsageScenario_fresh [of p e cpus dwFlags] by (auto split: if_splits)
  have r: "reachable race reinit (?s\<lparr>s_cred := c'\<rparr>)"
    unfolding c by (rule reachable_with_events [OF start]) (simp add: sys_init_def)
  have f: "\<not> m_pProviderEvents (s_cred ?s)" "\<not> m_authenticated (s_cred ?s)" "m_username (s_cred ?s) = []"
    "m_password (s_cred ?s) = []" "\<not> m_hPollThread (s_cred ?s)"
    by (simp_all add: sys_init_def Initialize_def Let_def LigamentCredential_new_def)
  have k: "with_events p c = c\<lparr>m_pProviderEvents := m_pProviderEvents (with_events p c),
      m_providerAdviseContext := m_providerAdviseContext (with_events p c)\<rparr>" for c
    by (simp add: with_events_def SetProviderEvents_def)
  show "\<exists>s. s = ?s
      \<and> c' = (s_cred s)\<lparr>m_pProviderEvents := m_pProviderEvents c', m_providerAdviseContext := m_providerAdviseContext c'\<rparr>
      \<and> (m_pProviderEvents c' \<longrightarrow> p_pEvents p \<and> m_providerAdviseContext c' = p_adviseContext p)
      \<and> reachable race reinit (s\<lparr>s_cred := c'\<rparr>)
      \<and> \<not> m_authenticated c' \<and> m_username c' = [] \<and> m_password c' = [] \<and> \<not> m_hPollThread c'"
    using r f k [of "s_cred ?s"] by (auto simp: c with_events_def SetProviderEvents_def)
next
  fix s
  assume l: "p_pCredential p = Some (s_cred s) \<and> reachable race reinit s \<and> s_ui s = UIdle \<and> (p_scenario p \<noteq> cpus \<longrightarrow> reinit)"
  then obtain c1 where c: "p_pCredential p' = Some c1" "reachable race reinit (s\<lparr>s_cred := c1\<rparr>)"
    using provider_live_tile [OF _ _ _ assms, of s race reinit] by blast
  moreover have "c1 = (s_cred s)\<lparr>m_pProviderEvents := m_pProviderEvents c1, m_providerAdviseContext := m_providerAdviseContext c1\<rparr>"
    if "p_scenario p = cpus \<or> p' \<noteq> snd (SetUsageScenario e cpus dwFlags p)"
    using that assms c(1) l SetUsageScenario_live [of p "s_cred s" e cpus dwFlags]
    by (auto simp: provider_Advise_def provider_UnAdvise_def with_events_def SetProviderEvents_def split: if_splits)
  ultimately show "\<exists>c1. p_pCredential p' = Some c1 \<and> reachable race reinit (s\<lparr>s_cred := c1\<rparr>)
      \<and> (p_scenario p = cpus \<or> p' \<noteq> snd (SetUsageScenario e cpus dwFlags p) \<longrightarrow>
           c1 = (s_cred s)\<lparr>m_pProviderEvents := m_pProviderEvents c1, m_providerAdviseContext := m_providerAdviseContext c1\<rparr>)"
    by blast
qed

text \<open>The witness: the first logon scenario makes a tile.\<close>

theorem provider_calls_are_steps_witness:
  "\<exists>c'. p_pCredential (snd (SetUsageScenario demo_env CPUS_LOGON 0 (LigamentProvider_new demo_env))) = Some c'
     \<and> \<not> m_authenticated c' \<and> \<not> m_hPollThread c'"
proof -
  let ?p = "LigamentProvider_new demo_env"
  have s: "SetUsageScenario demo_env CPUS_LOGON 0 ?p = (fst (SetUsageScenario demo_env CPUS_LOGON 0 ?p),
      snd (SetUsageScenario demo_env CPUS_LOGON 0 ?p))" by simp
  from SetUsageScenario_sel(1,3) [OF s] demo_env_enforced
  obtain c' where "p_pCredential (snd (SetUsageScenario demo_env CPUS_LOGON 0 ?p)) = Some c'" by auto
  with provider_calls_are_steps [where p = ?p and e = demo_env and cpus = CPUS_LOGON and dwFlags = 0 and c' = c'
      and b = True and ctx = 7 and race = False and reinit = False, OF insertI1]
  show ?thesis by (auto simp: LigamentProvider_new_def)
qed

text \<open>Every field LogonUI asks about has its own descriptor: the table has one entry per field, in
  the order of the ids, and the calls answer past its end with an error.\<close>

lemma field_table_complete:
  "GetFieldDescriptorCount True = (S_OK, Some (length s_Fields))
   \<and> map fd_id s_Fields = [FID_LOGO, FID_LARGE_TEXT, FID_USERNAME, FID_PASSWORD, FID_SUBMIT, FID_STATUS_TEXT,
        FID_NUMBER_MATCH, FID_FIDO2_BTN, FID_OTP_CODE, FID_SWITCH_FACTOR_BTN]
   \<and> (GetFieldDescriptorAt True True i = (S_OK, Some (s_Fields ! i)) \<longleftrightarrow> i < length s_Fields)
   \<and> list_all (\<lambda>d. fd_type d = CPFT_EDIT_TEXT \<or> fd_type d = CPFT_PASSWORD_TEXT
        \<longleftrightarrow> fd_id d = FID_USERNAME \<or> fd_id d = FID_PASSWORD \<or> fd_id d = FID_OTP_CODE) s_Fields"
  by (simp add: GetFieldDescriptorCount_def GetFieldDescriptorAt_def field_count_def s_Fields_def)

end
