(* ===== verification/ComServer.thy ===== *)
theory ComServer
  imports Prelude
begin

text \<open>
  The COM server of the credential provider DLL: \<open>credential_provider/dllmain.cpp\<close>,
  \<open>ClassFactory.cpp\<close> and the reference counts of \<open>LigamentProvider\<close> and \<open>LigamentCredential\<close>.
  Objects live in a heap of handles; \<open>g_cRefDll\<close> is the count the DLL is unloaded by.  Two ghosts
  record what the client holds: \<open>c_client\<close>, its references to each object, and \<open>c_locks\<close>, its
  locks of the server.
\<close>

subsection \<open>Objects\<close>

datatype com_object =
    Factory
  | ProviderObject "nat option" \<comment> \<open>\<open>m_pCredential\<close>\<close>
  | CredentialObject

record com =
  c_heap :: "nat \<rightharpoonup> com_object \<times> nat"
  c_next :: nat
  g_cRefDll :: int
  c_client :: "nat \<Rightarrow> nat"
  c_locks :: nat

definition com_init :: com where
  "com_init = \<lparr>c_heap = Map.empty, c_next = 0, g_cRefDll = 0, c_client = (\<lambda>_. 0), c_locks = 0\<rparr>"

text \<open>The constructors start with one reference and count in the DLL's references.\<close>

definition construct :: "com_object \<Rightarrow> com \<Rightarrow> nat \<times> com" where
  "construct k c = (c_next c, c\<lparr>c_heap := (c_heap c)(c_next c \<mapsto> (k, 1)), c_next := c_next c + 1,
     g_cRefDll := g_cRefDll c + 1\<rparr>)"

definition AddRef :: "nat \<Rightarrow> com \<Rightarrow> com" where
  "AddRef i c = (case c_heap c i of
     None \<Rightarrow> c | Some (k, n) \<Rightarrow> c\<lparr>c_heap := (c_heap c)(i \<mapsto> (k, n + 1))\<rparr>)"

text \<open>\<open>Release\<close>: the last reference runs the destructor; a provider's releases its tile.\<close>

definition drop_reference :: "nat \<Rightarrow> com \<Rightarrow> com" where
  "drop_reference i c = (case c_heap c i of
     None \<Rightarrow> c
   | Some (k, n) \<Rightarrow>
       if n = 1 then c\<lparr>c_heap := (c_heap c)(i := None), g_cRefDll := g_cRefDll c - 1\<rparr>
       else c\<lparr>c_heap := (c_heap c)(i \<mapsto> (k, n - 1))\<rparr>)"

definition Release :: "nat \<Rightarrow> com \<Rightarrow> com" where
  "Release i c = (case c_heap c i of
     Some (ProviderObject (Some cr), n) \<Rightarrow>
       if n = 1 then drop_reference cr (drop_reference i c) else drop_reference i c
   | _ \<Rightarrow> drop_reference i c)"

subsection \<open>The exports and the factory\<close>

definition query_and_release :: "bool \<Rightarrow> nat \<Rightarrow> com \<Rightarrow> hresult \<times> nat option \<times> com" where
  "query_and_release riidOk i c =
     (if riidOk then (S_OK, Some i, Release i (AddRef i c)) else (E_NOINTERFACE, None, Release i c))"

definition DllGetClassObject :: "bool \<Rightarrow> bool \<Rightarrow> bool \<Rightarrow> com \<Rightarrow> hresult \<times> nat option \<times> com" where
  "DllGetClassObject ppv clsidOk riidOk c =
     (if \<not> ppv then (E_POINTER, None, c)
      else if clsidOk then (case construct Factory c of (i, c') \<Rightarrow> query_and_release riidOk i c')
      else (CLASS_E_CLASSNOTAVAILABLE, None, c))"

definition CreateInstance :: "bool \<Rightarrow> bool \<Rightarrow> bool \<Rightarrow> com \<Rightarrow> hresult \<times> nat option \<times> com" where
  "CreateInstance outer ppv riidOk c =
     (if outer then (CLASS_E_NOAGGREGATION, None, c)
      else if \<not> ppv then (E_POINTER, None, c)
      else (case construct (ProviderObject None) c of (i, c') \<Rightarrow> query_and_release riidOk i c'))"

definition LockServer :: "bool \<Rightarrow> com \<Rightarrow> com" where
  "LockServer fLock c = c\<lparr>g_cRefDll := (if fLock then g_cRefDll c + 1 else g_cRefDll c - 1)\<rparr>"

definition DllCanUnloadNow :: "com \<Rightarrow> hresult" where
  "DllCanUnloadNow c = (if g_cRefDll c = 0 then S_OK else S_FALSE)"

text \<open>\<open>SetUsageScenario\<close> makes the provider's tile once; \<open>GetCredentialAt\<close> hands it out.\<close>

definition make_tile :: "nat \<Rightarrow> com \<Rightarrow> com" where
  "make_tile p c = (case c_heap c p of
     Some (ProviderObject None, n) \<Rightarrow>
       (case construct CredentialObject c of
          (i, c') \<Rightarrow> c'\<lparr>c_heap := (c_heap c')(p \<mapsto> (ProviderObject (Some i), n))\<rparr>)
   | _ \<Rightarrow> c)"

definition hand_out_tile :: "nat \<Rightarrow> com \<Rightarrow> hresult \<times> nat option \<times> com" where
  "hand_out_tile p c = (case c_heap c p of
     Some (ProviderObject (Some cr), n) \<Rightarrow> (S_OK, Some cr, AddRef cr c)
   | _ \<Rightarrow> (E_INVALIDARG, None, c))"

subsection \<open>Clients\<close>

text \<open>A reference handed to the client is its own.\<close>

definition given :: "hresult \<times> nat option \<times> com \<Rightarrow> com" where
  "given r = (case r of (_, None, c) \<Rightarrow> c | (_, Some i, c) \<Rightarrow> c\<lparr>c_client := (c_client c)(i := c_client c i + 1)\<rparr>)"

inductive com_step :: "com \<Rightarrow> com \<Rightarrow> bool" where
  get_class: "com_step c (given (DllGetClassObject ppv clsidOk riidOk c))"
| create: "com_step c (given (CreateInstance outer ppv riidOk c))"
| lock: "com_step c ((LockServer True c)\<lparr>c_locks := c_locks c + 1\<rparr>)"
| unlock: "0 < c_locks c \<Longrightarrow> com_step c ((LockServer False c)\<lparr>c_locks := c_locks c - 1\<rparr>)"
| addref: "0 < c_client c i \<Longrightarrow> com_step c ((AddRef i c)\<lparr>c_client := (c_client c)(i := c_client c i + 1)\<rparr>)"
| release: "0 < c_client c i \<Longrightarrow> com_step c ((Release i c)\<lparr>c_client := (c_client c)(i := c_client c i - 1)\<rparr>)"
| scenario: "0 < c_client c p \<Longrightarrow> com_step c (make_tile p c)"
| tile: "0 < c_client c p \<Longrightarrow> com_step c (given (hand_out_tile p c))"

inductive com_reachable :: "com \<Rightarrow> bool" where
  start: "com_reachable com_init"
| step: "com_reachable c \<Longrightarrow> com_step c c' \<Longrightarrow> com_reachable c'"

subsection \<open>The invariant\<close>

definition owns :: "com \<Rightarrow> nat \<Rightarrow> nat \<Rightarrow> bool" where
  "owns c p i \<longleftrightarrow> (\<exists>n. c_heap c p = Some (ProviderObject (Some i), n))"

definition owned :: "com \<Rightarrow> nat \<Rightarrow> nat" where
  "owned c i = (if \<exists>p. owns c p i then 1 else 0)"

text \<open>Every count is the client's references plus the provider's one, tiles have one provider, and
  the DLL's count is that of the live objects and locks.\<close>

definition com_wf :: "com \<Rightarrow> bool" where
  "com_wf c \<longleftrightarrow>
     (\<forall>i. c_next c \<le> i \<longrightarrow> c_heap c i = None) \<and>
     (\<forall>i. c_heap c i = None \<longrightarrow> c_client c i = 0) \<and>
     (\<forall>i k n. c_heap c i = Some (k, n) \<longrightarrow> n = c_client c i + owned c i \<and> 1 \<le> n) \<and>
     (\<forall>p i. owns c p i \<longrightarrow> (\<exists>n. c_heap c i = Some (CredentialObject, n))) \<and>
     (\<forall>p q i. owns c p i \<and> owns c q i \<longrightarrow> p = q) \<and>
     g_cRefDll c = int (card (dom (c_heap c))) + int (c_locks c)"

lemma com_wf_finite: "com_wf c \<Longrightarrow> finite (dom (c_heap c))"
proof -
  assume "com_wf c"
  then have "dom (c_heap c) \<subseteq> {..<c_next c}" by (auto simp: com_wf_def) (metis not_le option.distinct(1))
  then show ?thesis by (rule finite_subset) simp
qed

lemma com_wf_fresh: "com_wf c \<Longrightarrow> c_heap c (c_next c) = None \<and> c_client c (c_next c) = 0 \<and> \<not> owns c p (c_next c)
    \<and> \<not> owns c (c_next c) i"
  by (fastforce simp: com_wf_def owns_def)

lemma query_and_release_construct:
  assumes "com_wf c" "k \<noteq> ProviderObject (Some cr)" "\<And>x. k \<noteq> ProviderObject (Some x)"
  shows "query_and_release True (c_next c) (snd (construct k c)) = (S_OK, Some (c_next c), snd (construct k c))"
    "query_and_release False (c_next c) (snd (construct k c)) = (E_NOINTERFACE, None, c\<lparr>c_next := c_next c + 1\<rparr>)"
proof -
  have n: "c_heap c (c_next c) = None" using com_wf_fresh [OF assms(1)] by simp
  have u: "(c_heap c)(c_next c := None) = c_heap c" using n by (rule fun_upd_idem)
  have r: "Release (c_next c) x = drop_reference (c_next c) x"
    if "c_heap x (c_next c) = Some (k, m)" for x m
    using that assms(3) by (auto simp: Release_def split: com_object.splits option.splits)
  show "query_and_release True (c_next c) (snd (construct k c)) = (S_OK, Some (c_next c), snd (construct k c))"
    using r [of "AddRef (c_next c) (snd (construct k c))" 2]
    by (simp add: query_and_release_def construct_def AddRef_def drop_reference_def)
  show "query_and_release False (c_next c) (snd (construct k c)) = (E_NOINTERFACE, None, c\<lparr>c_next := c_next c + 1\<rparr>)"
    using r [of "snd (construct k c)" 1] u
    by (simp add: query_and_release_def construct_def drop_reference_def)
qed

lemma com_wf_next: "com_wf c \<Longrightarrow> com_wf (c\<lparr>c_next := c_next c + 1\<rparr>)"
  by (simp add: com_wf_def owns_def owned_def)

lemma com_wf_construct:
  assumes w: "com_wf c" and k: "\<And>x. k \<noteq> ProviderObject (Some x)"
  shows "com_wf (given (S_OK, Some (c_next c), snd (construct k c)))"
proof -
  let ?c = "given (S_OK, Some (c_next c), snd (construct k c))"
  have h: "c_heap ?c = (c_heap c)(c_next c \<mapsto> (k, 1))" "c_next ?c = c_next c + 1"
    "c_client ?c = (c_client c)(c_next c := 1)" "g_cRefDll ?c = g_cRefDll c + 1" "c_locks ?c = c_locks c"
    using com_wf_fresh [OF w] by (simp_all add: given_def construct_def)
  have o: "owns ?c p i = owns c p i" for p i
    using k com_wf_fresh [OF w] by (auto simp: owns_def h)
  have od: "owned ?c i = owned c i" for i by (simp only: owned_def o)
  have "owned c (c_next c) = 0" using com_wf_fresh [OF w] by (simp add: owned_def)
  moreover have "card (dom ((c_heap c)(c_next c \<mapsto> (k, 1)))) = card (dom (c_heap c)) + 1"
    using com_wf_finite [OF w] com_wf_fresh [OF w] by (simp add: domIff)
  moreover have "\<exists>n. ((c_heap c)(c_next c \<mapsto> (k, 1))) i = Some (CredentialObject, n)" if "owns c p i" for p i
    using w that com_wf_fresh [OF w] by (auto simp: com_wf_def)
  ultimately show ?thesis
    using w unfolding com_wf_def o od h by auto
qed

lemma com_wf_recount:
  assumes w: "com_wf c" and h: "c_heap c i = Some (k, n)" and n: "1 \<le> n'" "n' = m + owned c i"
  shows "com_wf (c\<lparr>c_heap := (c_heap c)(i \<mapsto> (k, n')), c_client := (c_client c)(i := m)\<rparr>)"
proof -
  let ?c = "c\<lparr>c_heap := (c_heap c)(i \<mapsto> (k, n')), c_client := (c_client c)(i := m)\<rparr>"
  have o: "owns ?c p j = owns c p j" for p j using h by (auto simp: owns_def)
  have od: "owned ?c j = owned c j" for j by (simp only: owned_def o)
  have d: "dom (c_heap ?c) = dom (c_heap c)" using h by (auto simp: dom_def)
  have cr: "\<exists>n. c_heap ?c j = Some (CredentialObject, n)" if "owns c p j" for p j
    using w that h by (fastforce simp: com_wf_def)
  have "i < c_next c" using w h by (fastforce simp: com_wf_def not_less [symmetric])
  then show ?thesis
    using w n cr unfolding com_wf_def o od d by (simp add: fun_upd_def)
qed

lemma com_wf_count: "com_wf c \<Longrightarrow> c_heap c i = Some (k, n) \<Longrightarrow> n = c_client c i + owned c i \<and> 1 \<le> n"
  by (simp add: com_wf_def)

lemma com_wf_unique: "com_wf c \<Longrightarrow> owns c p i \<Longrightarrow> owns c q i \<Longrightarrow> p = q"
  unfolding com_wf_def by blast

lemma com_wf_remove:
  assumes w: "com_wf c" and h: "c_heap c i = Some (k, 1)" and k: "\<And>x. k \<noteq> ProviderObject (Some x)"
    and cl: "0 < c_client c i"
  shows "com_wf (c\<lparr>c_heap := (c_heap c)(i := None), g_cRefDll := g_cRefDll c - 1, c_client := (c_client c)(i := c_client c i - 1)\<rparr>)"
proof -
  let ?c = "c\<lparr>c_heap := (c_heap c)(i := None), g_cRefDll := g_cRefDll c - 1, c_client := (c_client c)(i := c_client c i - 1)\<rparr>"
  have n: "c_client c i = 1" "owned c i = 0" using com_wf_count [OF w h] cl by simp_all
  have o: "owns ?c p j = owns c p j" for p j using h k by (auto simp: owns_def)
  have od: "owned ?c j = owned c j" for j by (simp only: owned_def o)
  have no: "\<not> owns c p i" for p using n(2) by (auto simp: owned_def split: if_splits)
  have "card (dom ((c_heap c)(i := None))) = card (dom (c_heap c)) - 1" "0 < card (dom (c_heap c))"
    using com_wf_finite [OF w] h by (simp_all add: domIff card_gt_0_iff) (auto simp: dom_def)
  moreover have "\<exists>n. ((c_heap c)(i := None)) j = Some (CredentialObject, n)" if "owns c p j" for p j
    using w that no by (auto simp: com_wf_def)
  ultimately show ?thesis
    using w n unfolding com_wf_def o od by auto
qed

lemma com_wf_make_tile:
  assumes w: "com_wf c"
  shows "com_wf (make_tile p c)"
proof (cases "\<exists>n. c_heap c p = Some (ProviderObject None, n)")
  case False
  then have "make_tile p c = c" by (auto simp: make_tile_def split: option.splits com_object.splits)
  with w show ?thesis by simp
next
  case True
  then obtain n where p: "c_heap c p = Some (ProviderObject None, n)" ..
  let ?i = "c_next c" and ?c = "make_tile p c"
  note f = com_wf_fresh [OF w]
  have ne: "p \<noteq> ?i" using p f by auto
  have h: "c_heap ?c = (c_heap c)(?i \<mapsto> (CredentialObject, 1), p \<mapsto> (ProviderObject (Some ?i), n))"
    "c_next ?c = ?i + 1" "c_client ?c = c_client c" "g_cRefDll ?c = g_cRefDll c + 1" "c_locks ?c = c_locks c"
    using p by (simp_all add: make_tile_def construct_def)
  have o: "owns ?c q j \<longleftrightarrow> owns c q j \<or> q = p \<and> j = ?i" for q j
    using p f ne by (auto simp: owns_def h)
  have od: "owned ?c j = (if j = ?i then 1 else owned c j)" for j
    by (auto simp: owned_def o)
  have "dom (c_heap ?c) = insert ?i (dom (c_heap c))" using p by (auto simp: h)
  then have card: "card (dom (c_heap ?c)) = card (dom (c_heap c)) + 1"
    using com_wf_finite [OF w] f by (simp add: domIff)
  have "\<exists>m. c_heap ?c j = Some (CredentialObject, m)" if "owns ?c q j" for q j
    using w that f p by (fastforce simp: h o com_wf_def)
  moreover have "p < ?i" using w p by (fastforce simp: com_wf_def not_less [symmetric])
  moreover have "q = q'" if "owns ?c q j" "owns ?c q' j" for q q' j
    using com_wf_unique [OF w] that f by (auto simp: o)
  moreover have "m = c_client ?c j + owned ?c j \<and> 1 \<le> m" if "c_heap ?c j = Some (k, m)" for j k m
    using that com_wf_count [OF w] p ne f by (auto simp: h od split: if_splits)
  moreover have "g_cRefDll c = int (card (dom (c_heap c))) + int (c_locks c)" using w by (simp add: com_wf_def)
  moreover have "\<forall>j. c_heap c j = None \<longrightarrow> c_client c j = 0" "\<forall>j. ?i \<le> j \<longrightarrow> c_heap c j = None"
    using w by (simp_all add: com_wf_def)
  ultimately show ?thesis
    unfolding com_wf_def using card by (auto simp: h)
qed

text \<open>The destructor of a provider with a tile.\<close>

lemma com_wf_remove_provider:
  assumes w: "com_wf c" and h: "c_heap c p = Some (ProviderObject (Some cr), 1)" and cl: "0 < c_client c p"
  shows "com_wf ((drop_reference cr (drop_reference p c))\<lparr>c_client := (c_client c)(p := c_client c p - 1)\<rparr>)"
proof -
  have oc: "owns c p cr" using h by (auto simp: owns_def)
  then obtain m where m: "c_heap c cr = Some (CredentialObject, m)" using w by (fastforce simp: com_wf_def)
  have ne: "p \<noteq> cr" using h m by auto
  have n: "c_client c p = 1" "owned c p = 0" using com_wf_count [OF w h] cl by simp_all
  have mc: "m = c_client c cr + 1" using com_wf_count [OF w m] oc by (auto simp: owned_def)
  let ?H = "(c_heap c)(p := None, cr := (if m = 1 then None else Some (CredentialObject, m - 1)))"
  define d where "d = (drop_reference cr (drop_reference p c))\<lparr>c_client := (c_client c)(p := c_client c p - 1)\<rparr>"
  have f: "c_heap d = ?H" "c_next d = c_next c" "c_client d = (c_client c)(p := 0)"
    "g_cRefDll d = g_cRefDll c - (if m = 1 then 2 else 1)" "c_locks d = c_locks c"
    using h m ne n by (simp_all add: drop_reference_def d_def)
  have u: "owns c q cr \<Longrightarrow> q = p" for q using com_wf_unique [OF w _ oc] .
  have o: "owns d q j \<longleftrightarrow> owns c q j \<and> q \<noteq> p" for q j
    using m ne by (auto simp: owns_def f)
  have oj: "owns c p j \<Longrightarrow> j = cr" for j using h by (auto simp: owns_def)
  have ocr: "owned d cr = 0" using u by (auto simp: owned_def o)
  have od: "owned d j = owned c j" if "j \<noteq> cr" for j
    using that oj by (auto simp: owned_def o)
  have card: "int (card (dom ?H)) = int (card (dom (c_heap c))) - (if m = 1 then 2 else 1)"
  proof -
    have fin: "finite (dom (c_heap c))" by (rule com_wf_finite [OF w])
    have dH: "dom ?H = dom (c_heap c) - (if m = 1 then {p, cr} else {p})" using m ne by (auto split: if_splits)
    have s: "(if m = 1 then {p, cr} else {p}) \<subseteq> dom (c_heap c)" using h m by auto
    have "card (dom ?H) = card (dom (c_heap c)) - card (if m = 1 then {p, cr} else {p})"
      unfolding dH using s by (intro card_Diff_subset) (auto intro: finite_subset [OF _ fin])
    moreover have "card (if m = 1 then {p, cr} else {p}) \<le> card (dom (c_heap c))"
      using s fin by (rule card_mono [rotated])
    ultimately show ?thesis using ne by (auto split: if_splits)
  qed
  have "\<exists>k. c_heap d j = Some (CredentialObject, k)" if "owns d q j" for q j
  proof -
    have "owns c q j" "q \<noteq> p" using that by (simp_all add: o)
    then have "j \<noteq> cr" using u by auto
    moreover have "j \<noteq> p" using n(2) \<open>owns c q j\<close> by (auto simp: owned_def split: if_splits)
    ultimately show ?thesis using w \<open>owns c q j\<close> by (auto simp: com_wf_def f)
  qed
  moreover have "x = c_client d j + owned d j \<and> 1 \<le> x" if "c_heap d j = Some (k, x)" for j k x
    using that com_wf_count [OF w] mc ocr od [of j] ne by (cases "j = cr") (auto simp: f split: if_splits)
  moreover have "c_client d j = 0" if "c_heap d j = None" for j
    using w that mc ne by (auto simp: f com_wf_def split: if_splits)
  moreover have "\<forall>j. c_next c \<le> j \<longrightarrow> c_heap d j = None"
    using w m by (fastforce simp: f com_wf_def)
  moreover have "q = q'" if "owns d q j" "owns d q' j" for q q' j
    using com_wf_unique [OF w] that by (auto simp: o)
  moreover have "g_cRefDll d = int (card (dom (c_heap d))) + int (c_locks d)"
    using w card unfolding f com_wf_def by simp
  ultimately show ?thesis unfolding d_def [symmetric] com_wf_def by (auto simp: f(2))
qed

lemma given_none [simp]: "given (hr, None, c) = c"
  by (simp add: given_def)

lemma com_wf_query:
  assumes "com_wf c" "\<And>x. k \<noteq> ProviderObject (Some x)"
  shows "com_wf (given (case construct k c of (i, c') \<Rightarrow> query_and_release riidOk i c'))"
proof -
  have k: "k \<noteq> ProviderObject (Some 0)" by (rule assms(2))
  have e: "construct k c = (c_next c, snd (construct k c))" by (simp add: construct_def)
  note q = query_and_release_construct [OF assms(1) k assms(2)]
  show ?thesis
  proof (cases riidOk)
    case True
    then show ?thesis using q(1) com_wf_construct [OF assms] by (subst e) simp
  next
    case False
    then show ?thesis using q(2) com_wf_next [OF assms(1)] by (subst e) simp
  qed
qed

lemma com_wf_release:
  assumes w: "com_wf c" and cl: "0 < c_client c i"
  shows "com_wf ((Release i c)\<lparr>c_client := (c_client c)(i := c_client c i - 1)\<rparr>)"
proof -
  from w cl obtain k n where h: "c_heap c i = Some (k, n)" by (cases "c_heap c i") (auto simp: com_wf_def)
  note n = com_wf_count [OF w h]
  show ?thesis
  proof (cases "n = 1")
    case False
    then have "Release i c = c\<lparr>c_heap := (c_heap c)(i \<mapsto> (k, n - 1))\<rparr>"
      using h by (simp add: Release_def drop_reference_def split: com_object.split option.split)
    then show ?thesis using com_wf_recount [OF w h, of "n - 1" "c_client c i - 1"] n False cl by simp
  next
    case one: True
    show ?thesis
    proof (cases "\<exists>cr. k = ProviderObject (Some cr)")
      case True
      then obtain cr where "k = ProviderObject (Some cr)" ..
      then show ?thesis using com_wf_remove_provider [OF w, of i cr] h one cl by (simp add: Release_def)
    next
      case False
      then have "Release i c = c\<lparr>c_heap := (c_heap c)(i := None), g_cRefDll := g_cRefDll c - 1\<rparr>"
        using h one by (auto simp: Release_def drop_reference_def split: com_object.split option.split)
      then show ?thesis using com_wf_remove [OF w, of i k] h one cl False by simp
    qed
  qed
qed

lemma com_wf_addref:
  assumes w: "com_wf c" and h: "c_heap c i = Some (k, n)"
  shows "com_wf ((AddRef i c)\<lparr>c_client := (c_client c)(i := c_client c i + 1)\<rparr>)"
  using com_wf_recount [OF w h, of "n + 1" "c_client c i + 1"] com_wf_count [OF w h] h
  by (simp add: AddRef_def)

lemma com_step_wf: "com_step c c' \<Longrightarrow> com_wf c \<Longrightarrow> com_wf c'"
proof (induction rule: com_step.induct)
  case (get_class c ppv clsidOk riidOk)
  then show ?case using com_wf_query [of c Factory riidOk] by (auto simp: DllGetClassObject_def)
next
  case (create c outer ppv riidOk)
  then show ?case using com_wf_query [of c "ProviderObject None" riidOk] by (auto simp: CreateInstance_def)
next
  case (lock c)
  then show ?case by (simp add: LockServer_def com_wf_def owns_def owned_def)
next
  case (unlock c)
  then show ?case by (auto simp: LockServer_def com_wf_def owns_def owned_def)
next
  case (addref c i)
  then obtain k n where "c_heap c i = Some (k, n)" by (cases "c_heap c i") (auto simp: com_wf_def)
  with addref show ?case by (intro com_wf_addref)
next
  case (release c i)
  then show ?case by (intro com_wf_release)
next
  case (scenario c p)
  then show ?case by (intro com_wf_make_tile)
next
  case (tile c p)
  show ?case
  proof (cases "\<exists>cr n. c_heap c p = Some (ProviderObject (Some cr), n)")
    case True
    then obtain cr n where p: "c_heap c p = Some (ProviderObject (Some cr), n)" by blast
    then have "owns c p cr" by (auto simp: owns_def)
    then obtain m where m: "c_heap c cr = Some (CredentialObject, m)" using tile(2) by (fastforce simp: com_wf_def)
    from com_wf_addref [OF tile(2) m] p m show ?thesis
      by (simp add: hand_out_tile_def given_def AddRef_def)
  next
    case False
    then have "hand_out_tile p c = (E_INVALIDARG, None, c)"
      by (auto simp: hand_out_tile_def split: option.split com_object.split)
    with tile(2) show ?thesis by simp
  qed
qed

lemma com_reachable_wf: "com_reachable c \<Longrightarrow> com_wf c"
proof (induction rule: com_reachable.induct)
  case start
  show ?case by (simp add: com_wf_def com_init_def owns_def)
next
  case (step c c')
  then show ?case using com_step_wf by blast
qed

lemma com_wf_idle: "com_wf c \<Longrightarrow> (\<And>i. c_client c i = 0) \<Longrightarrow> c_heap c = Map.empty"
proof
  fix i
  assume w: "com_wf c" and z: "\<And>i. c_client c i = 0"
  show "c_heap c i = None"
  proof (rule ccontr)
    assume "c_heap c i \<noteq> None"
    then obtain k n where "c_heap c i = Some (k, n)" by auto
    from com_wf_count [OF w this] z obtain p where p: "owns c p i" by (auto simp: owned_def split: if_splits)
    then obtain m where m: "c_heap c p = Some (ProviderObject (Some i), m)" by (auto simp: owns_def)
    from com_wf_count [OF w m] z obtain q where "owns c q p" by (auto simp: owned_def split: if_splits)
    then show False using w m by (fastforce simp: com_wf_def)
  qed
qed

subsection \<open>Unloading\<close>

text \<open>C15. COM may unload the DLL exactly when the client holds no reference and no lock: no object is
  leaked by the factory, the provider or the tile, whatever interfaces were refused on the way, and
  none is destroyed while it is held.\<close>

theorem unload_iff_released:
  assumes "com_reachable c"
  shows "(DllCanUnloadNow c = S_OK \<longleftrightarrow> (\<forall>i. c_client c i = 0) \<and> c_locks c = 0)
    \<and> (0 < c_client c i \<longrightarrow> c_heap c i \<noteq> None)"
proof -
  have w: "com_wf c" by (rule com_reachable_wf [OF assms])
  have g: "g_cRefDll c = int (card (dom (c_heap c))) + int (c_locks c)"
    and n: "\<forall>i. c_heap c i = None \<longrightarrow> c_client c i = 0" using w by (simp_all add: com_wf_def)
  have "card (dom (c_heap c)) = 0 \<longleftrightarrow> c_heap c = Map.empty" using com_wf_finite [OF w] by simp
  then have "DllCanUnloadNow c = S_OK \<longleftrightarrow> (\<forall>i. c_client c i = 0) \<and> c_locks c = 0"
    using g n com_wf_idle [OF w] by (auto simp: DllCanUnloadNow_def)
  moreover have "0 < c_client c i \<longrightarrow> c_heap c i \<noteq> None" using n by (metis less_irrefl)
  ultimately show ?thesis by simp
qed

text \<open>The witness: a factory makes a provider, whose tile is made, and one factory reference is
  given back.\<close>

definition demo_com :: com where
  "demo_com =
     (let c1 = given (DllGetClassObject True True True com_init);
          c2 = given (CreateInstance False True True c1);
          c3 = make_tile 1 c2
      in (Release 0 c3)\<lparr>c_client := (c_client c3)(0 := c_client c3 0 - 1)\<rparr>)"

lemma demo_com_eval:
  "c_client demo_com = (\<lambda>_. 0)(1 := 1)" "c_locks demo_com = 0" "g_cRefDll demo_com = 2"
  by (simp_all add: demo_com_def given_def DllGetClassObject_def CreateInstance_def make_tile_def com_init_def
      construct_def query_and_release_def AddRef_def Release_def drop_reference_def Let_def fun_eq_iff)

lemma demo_com_reachable: "com_reachable demo_com"
proof -
  let ?c1 = "given (DllGetClassObject True True True com_init)"
  let ?c2 = "given (CreateInstance False True True ?c1)"
  let ?c3 = "make_tile 1 ?c2"
  have r2: "com_reachable ?c2"
    by (rule com_reachable.step [OF com_reachable.step [OF com_reachable.start get_class] create])
  have e: "c_client ?c2 1 = 1" "c_client ?c3 0 = 1"
    by (simp_all add: given_def DllGetClassObject_def CreateInstance_def make_tile_def com_init_def
      construct_def query_and_release_def AddRef_def Release_def drop_reference_def)
  have "com_step ?c2 ?c3" by (rule scenario) (simp only: e zero_less_one)
  then have r3: "com_reachable ?c3" by (rule com_reachable.step [OF r2])
  have "com_step ?c3 ((Release 0 ?c3)\<lparr>c_client := (c_client ?c3)(0 := c_client ?c3 0 - 1)\<rparr>)"
    by (rule release) (simp only: e zero_less_one)
  from com_reachable.step [OF r3 this] show ?thesis by (simp only: demo_com_def Let_def)
qed

theorem unload_iff_released_witness:
  "DllCanUnloadNow demo_com = S_FALSE \<and> c_heap demo_com 1 \<noteq> None"
  using unload_iff_released [OF demo_com_reachable, of 1] demo_com_eval
  by (auto simp: DllCanUnloadNow_def)

end
