(* ===== verification/DllRegistration.thy ===== *)
theory DllRegistration
  imports Std_Strings "HOL-Library.AList"
begin

text \<open>
  Registration of the DLL, \<open>credential_provider/dllmain.cpp\<close>: the keys \<open>DllRegisterServer\<close> writes
  and \<open>DllUnregisterServer\<close> deletes.  The registry is the list of its keys with their values; a
  key is a root and its path.  Which keys this process may write is a parameter.
\<close>

subsection \<open>The registry\<close>

datatype hive = HKEY_CLASSES_ROOT | HKEY_LOCAL_MACHINE

type_synonym reg_path = "hive \<times> string list"
type_synonym reg_keys = "(reg_path \<times> (string \<times> wstr) list) list"

definition key_exists :: "reg_path \<Rightarrow> reg_keys \<Rightarrow> bool" where
  "key_exists k r \<longleftrightarrow> list_ex (\<lambda>e. fst e = k) r"

text \<open>\<open>RegCreateKeyExW\<close> makes the missing keys on the way.\<close>

definition create_path :: "reg_path \<Rightarrow> reg_keys \<Rightarrow> reg_keys" where
  "create_path k r = (case k of (h, path) \<Rightarrow>
     foldl (\<lambda>r p. if key_exists (h, p) r then r else ((h, p), []) # r) r (tl (prefixes path)))"

definition set_value :: "reg_path \<Rightarrow> string \<Rightarrow> wstr \<Rightarrow> reg_keys \<Rightarrow> reg_keys" where
  "set_value k n v r = map (\<lambda>(k', vs). (k', if k' = k then AList.update n v vs else vs)) r"

text \<open>\<open>RegDeleteKeyW\<close> refuses a key that has subkeys.\<close>

definition RegDeleteKey :: "reg_path \<Rightarrow> reg_keys \<Rightarrow> reg_keys" where
  "RegDeleteKey k r =
     (if list_ex (\<lambda>e. fst (fst e) = fst k \<and> strict_prefix (snd k) (snd (fst e))) r then r
      else filter (\<lambda>e. fst e \<noteq> k) r)"

subsection \<open>The exports\<close>

definition HRESULT_FROM_WIN32 :: "u32 \<Rightarrow> u32" where
  "HRESULT_FROM_WIN32 x = (if sint x \<le> 0 then x else (x AND 0xFFFF) OR 0x80070000)"

definition ERROR_ACCESS_DENIED :: u32 where "ERROR_ACCESS_DENIED = 5"

definition CreateRegKeyAndValue :: "(reg_path \<Rightarrow> bool) \<Rightarrow> reg_path \<Rightarrow> string \<Rightarrow> wstr \<Rightarrow> reg_keys \<Rightarrow> u32 \<times> reg_keys" where
  "CreateRegKeyAndValue allowed k n v r =
     (if \<not> allowed k then (HRESULT_FROM_WIN32 ERROR_ACCESS_DENIED, r)
      else (HRESULT_FROM_WIN32 0, set_value k n v (create_path k r)))"

definition s_szCLSID :: string where "s_szCLSID = ''{7B896B21-8B35-4E7B-A350-9E17E5E3D10A}''"
definition s_szProviderName :: wstr where "s_szProviderName = wide ''Ligament 2FA Credential Provider''"

definition clsidKey :: reg_path where "clsidKey = (HKEY_CLASSES_ROOT, [''CLSID'', s_szCLSID])"
definition inprocKey :: reg_path where "inprocKey = (HKEY_CLASSES_ROOT, [''CLSID'', s_szCLSID, ''InprocServer32''])"

definition authentication :: "string list" where
  "authentication = [''SOFTWARE'', ''Microsoft'', ''Windows'', ''CurrentVersion'', ''Authentication'']"

definition cpKey :: reg_path where
  "cpKey = (HKEY_LOCAL_MACHINE, authentication @ [''Credential Providers'', s_szCLSID])"
definition filterKey :: reg_path where
  "filterKey = (HKEY_LOCAL_MACHINE, authentication @ [''Credential Provider Filters'', s_szCLSID])"

text \<open>The DLL's path as \<open>GetModuleFileNameW\<close> gives it, or the error it left.\<close>

definition DllRegisterServer :: "(reg_path \<Rightarrow> bool) \<Rightarrow> u32 + wstr \<Rightarrow> reg_keys \<Rightarrow> u32 \<times> reg_keys" where
  "DllRegisterServer allowed dllPath r = (case dllPath of
     Inl err \<Rightarrow> (HRESULT_FROM_WIN32 err, r)
   | Inr path \<Rightarrow>
       (let r = snd (CreateRegKeyAndValue allowed clsidKey [] s_szProviderName r);
            r = snd (CreateRegKeyAndValue allowed inprocKey [] path r);
            r = snd (CreateRegKeyAndValue allowed inprocKey ''ThreadingModel'' (wide ''Apartment'') r);
            r = snd (CreateRegKeyAndValue allowed cpKey [] s_szProviderName r);
            r = snd (CreateRegKeyAndValue allowed filterKey [] s_szProviderName r)
        in (0, r)))"

definition DllUnregisterServer :: "reg_keys \<Rightarrow> u32 \<times> reg_keys" where
  "DllUnregisterServer r =
     (0, RegDeleteKey filterKey (RegDeleteKey cpKey (RegDeleteKey clsidKey (RegDeleteKey inprocKey r))))"

subsection \<open>Facts\<close>

lemma key_exists_Cons [simp]: "key_exists k (e # r) \<longleftrightarrow> fst e = k \<or> key_exists k r"
  by (simp add: key_exists_def)

lemma set_value_Cons [simp]:
  "set_value k n v ((k', vs) # r) = (k', if k' = k then AList.update n v vs else vs) # set_value k n v r"
  by (simp add: set_value_def)

lemma set_value_absent: "\<not> key_exists k r \<Longrightarrow> set_value k n v r = r"
  unfolding set_value_def by (rule map_idI) (auto simp: key_exists_def list_ex_iff)

lemma exists_set_value [simp]: "key_exists k' (set_value k n v r) = key_exists k' r"
  by (induction r) (auto simp: set_value_def key_exists_def)

lemma create_path_last:
  assumes "k = (h, p @ [x])" "list_all (\<lambda>q. key_exists (h, q) r) (tl (prefixes p))"
  shows "create_path k r = (if key_exists k r then r else (k, []) # r)"
proof -
  have keep: "foldl (\<lambda>r p. if key_exists (h, p) r then r else ((h, p), []) # r) r qs = r"
    if "list_all (\<lambda>q. key_exists (h, q) r) qs" for qs
    using that by (induction qs) auto
  have "tl (prefixes (p @ [x])) = tl (prefixes p) @ [p @ [x]]"
    by (cases p) (simp_all add: prefixes_snoc)
  then show ?thesis using assms keep [OF assms(2)] by (simp add: create_path_def)
qed

text \<open>Where the keys go exists, and nothing is there yet.\<close>

definition clean_for_install :: "reg_keys \<Rightarrow> bool" where
  "clean_for_install r \<longleftrightarrow>
     key_exists (HKEY_CLASSES_ROOT, [''CLSID'']) r
     \<and> list_all (\<lambda>q. key_exists (HKEY_LOCAL_MACHINE, q) r) (tl (prefixes (authentication @ [''Credential Providers''])))
     \<and> key_exists (HKEY_LOCAL_MACHINE, authentication @ [''Credential Provider Filters'']) r
     \<and> list_all (\<lambda>e. fst (fst e) \<noteq> HKEY_CLASSES_ROOT \<or> \<not> prefix (snd clsidKey) (snd (fst e))) r
     \<and> list_all (\<lambda>e. fst (fst e) \<noteq> HKEY_LOCAL_MACHINE
         \<or> \<not> prefix (snd cpKey) (snd (fst e)) \<and> \<not> prefix (snd filterKey) (snd (fst e))) r"

lemma clean_absent:
  assumes "clean_for_install r"
  shows "\<not> key_exists clsidKey r" "\<not> key_exists inprocKey r" "\<not> key_exists cpKey r" "\<not> key_exists filterKey r"
  using assms by (auto simp: clean_for_install_def key_exists_def list_ex_iff list_all_iff clsidKey_def
      inprocKey_def cpKey_def filterKey_def)

lemma keys_distinct [simp]:
  "clsidKey \<noteq> inprocKey" "inprocKey \<noteq> clsidKey" "cpKey \<noteq> clsidKey" "cpKey \<noteq> inprocKey" "clsidKey \<noteq> cpKey"
  "inprocKey \<noteq> cpKey" "filterKey \<noteq> clsidKey" "filterKey \<noteq> inprocKey" "clsidKey \<noteq> filterKey"
  "inprocKey \<noteq> filterKey" "cpKey \<noteq> filterKey" "filterKey \<noteq> cpKey"
  by (simp_all add: clsidKey_def inprocKey_def cpKey_def filterKey_def)

text \<open>What a registration writes into a clean registry.\<close>

definition registered :: "wstr \<Rightarrow> reg_keys" where
  "registered path = [(filterKey, [([], s_szProviderName)]), (cpKey, [([], s_szProviderName)]),
     (inprocKey, [([], path), (''ThreadingModel'', wide ''Apartment'')]), (clsidKey, [([], s_szProviderName)])]"

lemma register_clean:
  assumes "clean_for_install r"
  shows "DllRegisterServer (\<lambda>_. True) (Inr path) r = (0, registered path @ r)"
proof -
  note a = clean_absent [OF assms]
  have p: "key_exists (HKEY_CLASSES_ROOT, [''CLSID'']) r"
    "list_all (\<lambda>q. key_exists (HKEY_LOCAL_MACHINE, q) r) (tl (prefixes (authentication @ [''Credential Providers''])))"
    "list_all (\<lambda>q. key_exists (HKEY_LOCAL_MACHINE, q) r) (tl (prefixes (authentication @ [''Credential Provider Filters''])))"
    using assms by (simp_all add: clean_for_install_def authentication_def)
  have more: "list_all (\<lambda>q. key_exists (h, q) (xs @ r)) qs" if "list_all (\<lambda>q. key_exists (h, q) r) qs" for h xs qs
    using that by (auto simp: list_all_iff key_exists_def)
  have c1: "create_path clsidKey r = (clsidKey, []) # r"
    using create_path_last [of clsidKey HKEY_CLASSES_ROOT "[''CLSID'']" s_szCLSID r] p(1) a(1)
    by (simp add: clsidKey_def)
  have c2: "create_path inprocKey ((clsidKey, v) # r) = (inprocKey, []) # (clsidKey, v) # r" for v
    using create_path_last [of inprocKey HKEY_CLASSES_ROOT "[''CLSID'', s_szCLSID]" "''InprocServer32''" "(clsidKey, v) # r"] p(1) a(2)
    by (simp add: clsidKey_def inprocKey_def)
  have c3: "create_path inprocKey ((inprocKey, w) # (clsidKey, v) # r) = (inprocKey, w) # (clsidKey, v) # r" for v w
    using create_path_last [of inprocKey HKEY_CLASSES_ROOT "[''CLSID'', s_szCLSID]" "''InprocServer32''" "(inprocKey, w) # (clsidKey, v) # r"] p(1)
    by (simp add: clsidKey_def inprocKey_def)
  have c4: "create_path cpKey (xs @ r) = (cpKey, []) # xs @ r" if "\<not> key_exists cpKey xs" for xs
    using create_path_last [of cpKey HKEY_LOCAL_MACHINE "authentication @ [''Credential Providers'']" s_szCLSID "xs @ r"]
      more [OF p(2)] a(3) that by (auto simp: cpKey_def key_exists_def)
  have c5: "create_path filterKey (xs @ r) = (filterKey, []) # xs @ r" if "\<not> key_exists filterKey xs" for xs
    using create_path_last [of filterKey HKEY_LOCAL_MACHINE "authentication @ [''Credential Provider Filters'']" s_szCLSID "xs @ r"]
      more [OF p(3)] a(4) that by (auto simp: filterKey_def key_exists_def)
  have none: "\<not> key_exists k []" for k by (simp add: key_exists_def)
  have c4': "create_path cpKey ((inprocKey, w) # (clsidKey, v) # r) = (cpKey, []) # (inprocKey, w) # (clsidKey, v) # r" for v w
    using c4 [of "[(inprocKey, w), (clsidKey, v)]"] by (simp add: none)
  have c5': "create_path filterKey ((cpKey, u) # (inprocKey, w) # (clsidKey, v) # r)
      = (filterKey, []) # (cpKey, u) # (inprocKey, w) # (clsidKey, v) # r" for u v w
    using c5 [of "[(cpKey, u), (inprocKey, w), (clsidKey, v)]"] by (simp add: none)
  show ?thesis
    by (simp add: DllRegisterServer_def CreateRegKeyAndValue_def c1 c2 c3 c4' c5' set_value_absent a registered_def)
qed

lemma delete_last: "\<not> list_ex (\<lambda>e. fst (fst e) = fst k \<and> strict_prefix (snd k) (snd (fst e))) r \<Longrightarrow>
    \<not> key_exists k r \<Longrightarrow> RegDeleteKey k r = r"
  by (auto simp: RegDeleteKey_def key_exists_def list_ex_iff intro: filter_True)

lemma no_subkeys:
  assumes "clean_for_install r" "k \<in> {clsidKey, inprocKey, cpKey, filterKey}"
  shows "\<not> list_ex (\<lambda>e. fst (fst e) = fst k \<and> strict_prefix (snd k) (snd (fst e))) r"
proof -
  have "prefix [''CLSID'', s_szCLSID] x" if "prefix [''CLSID'', s_szCLSID, ''InprocServer32''] x" for x
    using that by (auto simp: prefix_def)
  then show ?thesis
    using assms by (fastforce simp: clean_for_install_def list_ex_iff list_all_iff strict_prefix_def
        clsidKey_def inprocKey_def cpKey_def filterKey_def)
qed

text \<open>Registration undoes itself: on a machine without the provider, unregistering after a
  registration gives back the registry as it was, key for key; the class key goes although it has
  a subkey, because that one is deleted first.\<close>

lemma unregister_undoes_register:
  assumes "clean_for_install r"
  shows "DllUnregisterServer (snd (DllRegisterServer (\<lambda>_. True) (Inr path) r)) = (0, r)"
proof -
  note a = clean_absent [OF assms] and n = no_subkeys [OF assms]
  have f: "filter (\<lambda>e. fst e \<noteq> k) r = r" if "\<not> key_exists k r" for k
    using that by (auto simp: key_exists_def list_ex_iff intro: filter_True)
  have d1: "RegDeleteKey inprocKey (registered path @ r)
      = [(filterKey, [([], s_szProviderName)]), (cpKey, [([], s_szProviderName)]), (clsidKey, [([], s_szProviderName)])] @ r"
    using n [of inprocKey] f [OF a(2)] unfolding RegDeleteKey_def registered_def
    by (auto simp: strict_prefix_def) (auto simp: inprocKey_def clsidKey_def cpKey_def filterKey_def)
  have d2: "RegDeleteKey clsidKey ([(filterKey, u), (cpKey, v), (clsidKey, w)] @ r) = [(filterKey, u), (cpKey, v)] @ r" for u v w
    using n [of clsidKey] f [OF a(1)] unfolding RegDeleteKey_def
    by (auto simp: strict_prefix_def) (auto simp: inprocKey_def clsidKey_def cpKey_def filterKey_def)
  have d3: "RegDeleteKey cpKey ([(filterKey, u), (cpKey, v)] @ r) = [(filterKey, u)] @ r" for u v
    using n [of cpKey] f [OF a(3)] unfolding RegDeleteKey_def
    by (auto simp: strict_prefix_def) (auto simp: cpKey_def filterKey_def)
  have d4: "RegDeleteKey filterKey ([(filterKey, u)] @ r) = r" for u
    using n [of filterKey] f [OF a(4)] unfolding RegDeleteKey_def
    by (auto simp: strict_prefix_def)
  show ?thesis
    unfolding register_clean [OF assms] DllUnregisterServer_def snd_conv d1 d2 d3 d4 by simp
qed

definition demo_keys :: reg_keys where
  "demo_keys = map (\<lambda>k. (k, [])) ([(HKEY_CLASSES_ROOT, [''CLSID'']), (HKEY_CLASSES_ROOT, [''CLSID'', ''{1}''])]
     @ map (\<lambda>p. (HKEY_LOCAL_MACHINE, p)) (tl (prefixes (authentication @ [''Credential Providers'']))
         @ [authentication @ [''Credential Provider Filters'']]))"

lemma unregister_undoes_register_example:
  "DllUnregisterServer (snd (DllRegisterServer (\<lambda>_. True) (Inr (wide ''C:'')) demo_keys)) = (0, demo_keys)"
  by (rule unregister_undoes_register)
    (simp add: clean_for_install_def demo_keys_def authentication_def clsidKey_def cpKey_def filterKey_def s_szCLSID_def key_exists_def)

text \<open>Registration reports success whatever happened: with every key refused it answers
  \<open>S_OK\<close> and has written nothing.\<close>

lemma register_hides_failures:
  "DllRegisterServer (\<lambda>_. False) (Inr path) r = (0, r)"
  by (simp add: DllRegisterServer_def CreateRegKeyAndValue_def)

end
