(* ===== verification/PngImage.thy ===== *)
theory PngImage
  imports Prelude
begin

text \<open>
  The PNG encoder of \<open>credential_provider/credential_image.h\<close>, which hands the QR code to LogonUI:
  CRC, Adler-32, stored DEFLATE blocks, chunks.  Beside it stand a decoder written after the PNG,
  zlib and DEFLATE formats, restricted to what a stored RGBA image uses, and the textbook
  definitions of the two checksums.
\<close>

subsection \<open>Bytes\<close>

definition AppendBigEndian :: "bytes \<Rightarrow> u32 \<Rightarrow> bytes" where
  "AppendBigEndian bs v = bs @ [ucast (drop_bit 24 v), ucast (drop_bit 16 v), ucast (drop_bit 8 v), ucast v]"

text \<open>One byte's eight rounds, the mask being all ones when the low bit is set.\<close>

fun crc_rounds :: "nat \<Rightarrow> u32 \<Rightarrow> u32" where
  "crc_rounds 0 crc = crc"
| "crc_rounds (Suc k) crc =
     (let mask = 0 - (crc AND 1) in crc_rounds k (drop_bit 1 crc XOR (0xEDB88320 AND mask)))"

fun crc_loop :: "bytes \<Rightarrow> u32 \<Rightarrow> u32" where
  "crc_loop [] crc = crc"
| "crc_loop (b # bs) crc = crc_loop bs (crc_rounds 8 (crc XOR ucast b))"

definition PngCrc32 :: "bytes \<Rightarrow> u32" where
  "PngCrc32 bs = NOT (crc_loop bs 0xFFFFFFFF)"

definition AppendPngChunk :: "bytes \<Rightarrow> bytes \<Rightarrow> bytes \<Rightarrow> bytes" where
  "AppendPngChunk png type data =
     AppendBigEndian (AppendBigEndian png (of_nat (length data)) @ type @ data) (PngCrc32 (type @ data))"

subsection \<open>The encoder\<close>

fun encode_pixels :: "u32 list \<Rightarrow> bytes option" where
  "encode_pixels [] = Some []"
| "encode_pixels (p # ps) =
     (if drop_bit 24 p \<noteq> 255 then None
      else map_option (\<lambda>bs. ucast (drop_bit 16 p) # ucast (drop_bit 8 p) # ucast p # 255 # bs) (encode_pixels ps))"

text \<open>The filter byte and the pixels of each row; \<open>None\<close> at the first pixel that is not opaque.\<close>

fun encode_rows :: "u32 list list \<Rightarrow> bytes option" where
  "encode_rows [] = Some []"
| "encode_rows (row # rows) =
     (case encode_pixels row of
        None \<Rightarrow> None
      | Some bs \<Rightarrow> map_option (\<lambda>r. 0 # bs @ r) (encode_rows rows))"

definition image_rows :: "u32 list \<Rightarrow> nat \<Rightarrow> nat \<Rightarrow> nat \<Rightarrow> u32 list list" where
  "image_rows pixels width height stride = map (\<lambda>y. map (\<lambda>x. pixels ! (y * stride + x)) [0..<width]) [0..<height]"

fun adler_loop :: "bytes \<Rightarrow> u32 \<Rightarrow> u32 \<Rightarrow> u32 \<times> u32" where
  "adler_loop [] a b = (a, b)"
| "adler_loop (c # cs) a b =
     (let a' = (a + ucast c) mod 65521; b' = (b + a') mod 65521 in adler_loop cs a' b')"

definition kBlockSize :: nat where "kBlockSize = 65535"

function stored_blocks :: "bytes \<Rightarrow> bytes" where
  "stored_blocks raw =
     (if raw = [] then []
      else let remaining = length raw;
               n = (if remaining < kBlockSize then remaining else kBlockSize);
               len = of_nat n :: u16;
               inv = NOT len
           in [if remaining \<le> kBlockSize then 1 else 0, ucast len, ucast (drop_bit 8 len), ucast inv,
               ucast (drop_bit 8 inv)] @ take n raw @ stored_blocks (drop n raw))"
  by pat_completeness auto
termination by (relation "measure length") (auto simp: kBlockSize_def)

declare stored_blocks.simps [simp del]

definition adler32 :: "bytes \<Rightarrow> u32" where
  "adler32 raw = (let (a, b) = adler_loop raw 1 0 in push_bit 16 b OR a)"

definition zlib_stored :: "bytes \<Rightarrow> bytes" where
  "zlib_stored raw = AppendBigEndian ([0x78, 0x01] @ stored_blocks raw) (adler32 raw)"

definition png_signature :: bytes where "png_signature = [137, 80, 78, 71, 13, 10, 26, 10]"

definition IHDR :: bytes where "IHDR = [73, 72, 68, 82]"
definition IDAT :: bytes where "IDAT = [73, 68, 65, 84]"
definition IEND :: bytes where "IEND = [73, 69, 78, 68]"

definition kMaxDimension :: nat where "kMaxDimension = 4096"
definition kMaxSourcePixels :: nat where "kMaxSourcePixels = kMaxDimension * kMaxDimension"

definition dimensions_ok :: "nat \<Rightarrow> nat \<Rightarrow> nat \<Rightarrow> bool" where
  "dimensions_ok width height stride \<longleftrightarrow>
     width \<noteq> 0 \<and> height \<noteq> 0 \<and> width \<le> kMaxDimension \<and> height \<le> kMaxDimension \<and> width \<le> stride
     \<and> (height - 1 = 0 \<or> stride \<le> (kMaxSourcePixels - width) div (height - 1))
     \<and> (height - 1) * stride + width \<le> kMaxSourcePixels"

text \<open>A null pointer is \<open>None\<close>; \<open>alloc\<close> says whether the allocations succeed.\<close>

definition EncodeOpaqueBgraPng :: "bool \<Rightarrow> u32 list option \<Rightarrow> nat \<Rightarrow> nat \<Rightarrow> nat \<Rightarrow> bytes" where
  "EncodeOpaqueBgraPng alloc pixels width height stride = (case pixels of
     None \<Rightarrow> []
   | Some px \<Rightarrow>
       if \<not> dimensions_ok width height stride \<or> \<not> alloc then []
       else case encode_rows (image_rows px width height stride) of
              None \<Rightarrow> []
            | Some raw \<Rightarrow>
                if 2 + length raw + (length raw + kBlockSize - 1) div kBlockSize * 5 + 4 > 0xFFFFFFFF then []
                else
                  let ihdr = AppendBigEndian (AppendBigEndian [] (of_nat width)) (of_nat height) @ [8, 6, 0, 0, 0]
                  in AppendPngChunk (AppendPngChunk (AppendPngChunk png_signature IHDR ihdr)
                       IDAT (zlib_stored raw)) IEND [])"

subsection \<open>The decoder\<close>

definition be32 :: "u8 \<Rightarrow> u8 \<Rightarrow> u8 \<Rightarrow> u8 \<Rightarrow> u32" where
  "be32 a b c d = push_bit 24 (ucast a) OR push_bit 16 (ucast b) OR push_bit 8 (ucast c) OR ucast d"

text \<open>The chunks of a PNG file, each with a correct CRC, to the end of the file.\<close>

function png_chunks :: "bytes \<Rightarrow> (bytes \<times> bytes) list option" where
  "png_chunks bs = (case bs of
     [] \<Rightarrow> Some []
   | a # b # c # d # rest \<Rightarrow>
       (let n = unat (be32 a b c d); body = take (4 + n) rest; tail = drop (4 + n) rest
        in if length body \<noteq> 4 + n then None
           else (case tail of
                   e # f # g # h # tail' \<Rightarrow>
                     if be32 e f g h \<noteq> PngCrc32 body then None
                     else map_option (Cons (take 4 body, drop 4 body)) (png_chunks tail')
                 | _ \<Rightarrow> None))
   | _ \<Rightarrow> None)"
  by pat_completeness auto
termination
  by (relation "measure length")
    (auto dest!: arg_cong [where f = length] simp del: drop_drop)

declare png_chunks.simps [simp del]

definition le16 :: "u8 \<Rightarrow> u8 \<Rightarrow> nat" where "le16 a b = unat a + 256 * unat b"

text \<open>Stored blocks up to the final one, and what follows them.\<close>

function inflate_stored :: "bytes \<Rightarrow> (bytes \<times> bytes) option" where
  "inflate_stored bs = (case bs of
     h # l0 # l1 # n0 # n1 # rest \<Rightarrow>
       (let len = le16 l0 l1
        in if h \<noteq> 0 \<and> h \<noteq> 1 \<or> le16 n0 n1 + len \<noteq> 65535 \<or> length rest < len then None
           else if h = 1 then Some (take len rest, drop len rest)
           else map_option (\<lambda>(out, r). (take len rest @ out, r)) (inflate_stored (drop len rest)))
   | _ \<Rightarrow> None)"
  by pat_completeness auto
termination by (relation "measure length") auto

declare inflate_stored.simps [simp del]

definition zlib_decode :: "bytes \<Rightarrow> bytes option" where
  "zlib_decode bs = (case bs of
     cmf # flg # rest \<Rightarrow>
       if cmf \<noteq> 0x78 \<or> (unat cmf * 256 + unat flg) mod 31 \<noteq> 0 \<or> flg AND 0x20 \<noteq> 0 then None
       else (case inflate_stored rest of
               Some (out, [e, f, g, h]) \<Rightarrow> if be32 e f g h = adler32 out then Some out else None
             | _ \<Rightarrow> None)
   | _ \<Rightarrow> None)"

fun decode_pixels :: "bytes \<Rightarrow> u32 list option" where
  "decode_pixels [] = Some []"
| "decode_pixels (r # g # b # a # bs) = map_option (Cons (be32 a r g b)) (decode_pixels bs)"
| "decode_pixels _ = None"

fun decode_rows :: "nat \<Rightarrow> nat \<Rightarrow> bytes \<Rightarrow> u32 list list option" where
  "decode_rows 0 w bs = (if bs = [] then Some [] else None)"
| "decode_rows (Suc h) w bs = (case bs of
     ftype # rest \<Rightarrow>
       if ftype \<noteq> 0 \<or> length rest < 4 * w then None
       else (case decode_pixels (take (4 * w) rest) of
               None \<Rightarrow> None
             | Some row \<Rightarrow> map_option (Cons row) (decode_rows h w (drop (4 * w) rest)))
   | [] \<Rightarrow> None)"

text \<open>Width, height and rows (ARGB) of a stored, non-interlaced RGBA image.\<close>

definition png_decode :: "bytes \<Rightarrow> (nat \<times> nat \<times> u32 list list) option" where
  "png_decode bs =
     (if take 8 bs \<noteq> png_signature then None
      else case png_chunks (drop 8 bs) of
        Some [(t1, [w0, w1, w2, w3, h0, h1, h2, h3, dep, col, cmp, flt, lace]), (t2, z), (t3, [])] \<Rightarrow>
          if [dep, col, cmp, flt, lace] \<noteq> [8, 6, 0, 0, 0] \<or> t1 \<noteq> IHDR \<or> t2 \<noteq> IDAT \<or> t3 \<noteq> IEND then None
          else (case zlib_decode z of
                  None \<Rightarrow> None
                | Some raw \<Rightarrow>
                    let w = unat (be32 w0 w1 w2 w3); h = unat (be32 h0 h1 h2 h3)
                    in map_option (\<lambda>rows. (w, h, rows)) (decode_rows h w raw))
      | _ \<Rightarrow> None)"

subsection \<open>Words and bytes\<close>

lemma be32_bytes [simp]:
  "be32 (ucast (drop_bit 24 v)) (ucast (drop_bit 16 v)) (ucast (drop_bit 8 v)) (ucast v) = v"
proof (rule bit_word_eqI)
  fix n assume "n < LENGTH(32)"
  then consider "n < 8" | "8 \<le> n" "n < 16" | "16 \<le> n" "n < 24" | "24 \<le> n" "n < 32" by fastforce
  then show "bit (be32 (ucast (drop_bit 24 v)) (ucast (drop_bit 16 v)) (ucast (drop_bit 8 v)) (ucast v)) n = bit v n"
    by cases (auto simp: be32_def bit_simps)
qed

lemma AppendBigEndian_def': "AppendBigEndian bs v = bs @ AppendBigEndian [] v"
  by (simp add: AppendBigEndian_def)

lemma AppendBigEndian_length [simp]: "length (AppendBigEndian bs v) = length bs + 4"
  by (simp add: AppendBigEndian_def)

lemma le16_bytes:
  "le16 (ucast w) (ucast (drop_bit 8 w)) = unat (w :: u16)"
proof -
  have "unat (ucast w :: u8) = unat w mod 256" by (simp add: unsigned_ucast_eq take_bit_eq_mod)
  moreover have "unat (ucast (drop_bit 8 w) :: u8) = unat w div 256"
  proof -
    have "unat w < 65536" by simp
    then have "unat w div 256 < 256" by linarith
    then show ?thesis by (simp add: unsigned_ucast_eq unat_drop_bit_eq drop_bit_eq_div take_bit_eq_mod unat_div)
  qed
  ultimately show ?thesis by (simp add: le16_def)
qed

lemma unat_NOT_u16: "unat (NOT w :: u16) + unat w = 65535"
proof -
  have "unat (NOT w :: u16) = unat (- w - 1)" by (simp add: not_eq_complement)
  also have "\<dots> = 65535 - unat w"
  proof -
    have "- w - 1 = (65535 :: u16) - w" by simp
    moreover have "unat ((65535 :: u16) - w) = 65535 - unat w"
      using unat_u16_less [of w] by (subst unat_sub) (simp_all add: word_le_nat_alt less_Suc_eq_le [symmetric])
    ultimately show ?thesis by (simp only:)
  qed
  finally show ?thesis using unat_u16_less [of w] by linarith
qed

subsection \<open>DEFLATE\<close>

lemma inflate_stored_blocks: "raw \<noteq> [] \<Longrightarrow> inflate_stored (stored_blocks raw @ rest) = Some (raw, rest)"
proof (induction raw rule: stored_blocks.induct)
  case (1 raw)
  let ?n = "if length raw < kBlockSize then length raw else kBlockSize"
  let ?len = "of_nat ?n :: u16"
  have n: "?n \<le> 65535" "?n \<le> length raw" by (simp_all add: kBlockSize_def)
  then have u: "unat ?len = ?n" by (simp add: unat_of_nat_u16)
  have l: "le16 (ucast ?len) (ucast (drop_bit 8 ?len)) = ?n" by (simp only: le16_bytes u)
  have i: "le16 (ucast (NOT ?len)) (ucast (drop_bit 8 (NOT ?len))) + ?n = 65535"
    using unat_NOT_u16 [of ?len] by (simp only: le16_bytes u)
  show ?case
  proof (cases "length raw \<le> kBlockSize")
    case True
    then have "stored_blocks (drop ?n raw) = []" by (simp add: stored_blocks.simps)
    then show ?thesis
      using 1(2) True n l i by (subst stored_blocks.simps) (simp add: inflate_stored.simps Let_def del: of_nat_diff)
  next
    case False
    then have ne: "drop ?n raw \<noteq> []" by simp
    from 1(1) [OF 1(2) refl refl refl refl ne]
    have "inflate_stored (stored_blocks (drop ?n raw) @ rest) = Some (drop ?n raw, rest)" .
    then show ?thesis
      using 1(2) False n l i by (subst stored_blocks.simps) (simp add: inflate_stored.simps Let_def)
  qed
qed

lemma zlib_roundtrip: "raw \<noteq> [] \<Longrightarrow> zlib_decode (zlib_stored raw) = Some raw"
proof -
  assume r: "raw \<noteq> []"
  have "(0x01 :: u8) AND 0x20 = 0" by simp
  moreover have "zlib_stored raw = 0x78 # 0x01 # (stored_blocks raw @ AppendBigEndian [] (adler32 raw))"
    by (simp add: zlib_stored_def AppendBigEndian_def)
  ultimately show ?thesis
    using inflate_stored_blocks [OF r, of "AppendBigEndian [] (adler32 raw)"]
    by (simp add: zlib_decode_def) (simp add: AppendBigEndian_def)
qed

subsection \<open>Chunks\<close>

lemma png_chunks_append:
  assumes "length type = 4" "length data < 2 ^ 32"
  shows "png_chunks (AppendPngChunk [] type data @ rest) = map_option (Cons (type, data)) (png_chunks rest)"
proof -
  let ?n = "of_nat (length data) :: u32"
  have n: "unat ?n = length data" using assms(2) by (simp add: unat_of_nat_u32)
  have e: "AppendPngChunk [] type data @ rest = AppendBigEndian [] ?n @ (type @ data) @ AppendBigEndian [] (PngCrc32 (type @ data)) @ rest"
    by (simp add: AppendPngChunk_def AppendBigEndian_def)
  have t: "take (4 + length data) ((type @ data) @ y) = type @ data" "drop (4 + length data) ((type @ data) @ y) = y" for y
    using assms(1) by simp_all
  show ?thesis
    unfolding e by (subst AppendBigEndian_def, subst png_chunks.simps)
      (simp add: Let_def n t [unfolded append_assoc] assms(1), simp add: AppendBigEndian_def assms(1) n)
qed

lemma AppendPngChunk_append: "AppendPngChunk png type data = png @ AppendPngChunk [] type data"
  by (simp add: AppendPngChunk_def AppendBigEndian_def)

subsection \<open>Pixels\<close>

lemma decode_encode_pixels: "encode_pixels ps = Some bs \<Longrightarrow> decode_pixels bs = Some ps \<and> length bs = 4 * length ps"
proof (induction ps arbitrary: bs)
  case (Cons p ps)
  then obtain bs' where o: "drop_bit 24 p = 255" and e: "encode_pixels ps = Some bs'"
    and bs: "bs = ucast (drop_bit 16 p) # ucast (drop_bit 8 p) # ucast p # 255 # bs'"
    by (auto split: if_splits)
  have "be32 255 (ucast (drop_bit 16 p)) (ucast (drop_bit 8 p)) (ucast p) = p"
    using be32_bytes [of p] o by simp
  with Cons.IH [OF e] bs show ?case by simp
qed simp

lemma decode_encode_rows:
  "encode_rows rows = Some raw \<Longrightarrow> list_all (\<lambda>r. length r = w) rows \<Longrightarrow>
   decode_rows (length rows) w raw = Some rows \<and> length raw = length rows * (4 * w + 1)"
proof (induction rows arbitrary: raw)
  case (Cons row rows)
  then obtain bs r where b: "encode_pixels row = Some bs" and e: "encode_rows rows = Some r"
    and raw: "raw = 0 # bs @ r" by (auto split: option.splits)
  have l: "length row = w" and "list_all (\<lambda>r. length r = w) rows" using Cons.prems(2) by simp_all
  with Cons.IH [OF e] decode_encode_pixels [OF b] raw show ?case by simp
qed simp

lemma encode_pixels_None: "encode_pixels ps = None \<longleftrightarrow> list_ex (\<lambda>p. drop_bit 24 p \<noteq> 255) ps"
  by (induction ps) auto

lemma encode_rows_None: "encode_rows rows = None \<longleftrightarrow> list_ex (list_ex (\<lambda>p. drop_bit 24 p \<noteq> 255)) rows"
proof (induction rows)
  case (Cons row rows)
  then show ?case using encode_pixels_None [of row] by (auto split: option.split)
qed simp

lemma image_rows_shape: "length (image_rows px w h s) = h" "list_all (\<lambda>r. length r = w) (image_rows px w h s)"
  by (simp_all add: image_rows_def list_all_iff)

lemma stored_blocks_length:
  "length (stored_blocks raw) = length raw + (length raw + kBlockSize - 1) div kBlockSize * 5"
proof (induction raw rule: stored_blocks.induct)
  case (1 raw)
  let ?n = "if length raw < kBlockSize then length raw else kBlockSize"
  show ?case
  proof (cases "raw = []")
    case True
    then show ?thesis by (simp add: stored_blocks.simps kBlockSize_def)
  next
    case False
    have l: "length (stored_blocks raw) = 5 + ?n + length (stored_blocks (drop ?n raw))"
      using False by (subst stored_blocks.simps) (simp add: Let_def)
    from 1 [OF False refl refl refl refl]
    have ih: "length (stored_blocks (drop ?n raw))
      = length raw - ?n + (length raw - ?n + kBlockSize - 1) div kBlockSize * 5" by simp
    show ?thesis
    proof (cases "length raw \<le> kBlockSize")
      case True
      then have n: "?n = length raw" by simp
      have "1 \<le> length raw" using False by (cases raw) simp_all
      then have "(length raw + kBlockSize - 1) div kBlockSize = 1"
        using True unfolding kBlockSize_def by (intro div_nat_eqI) simp_all
      then show ?thesis using l ih unfolding n by (simp add: kBlockSize_def)
    next
      case c: False
      then have n: "?n = kBlockSize" by simp
      have "(length raw + kBlockSize - 1) div kBlockSize = (length raw - kBlockSize + kBlockSize - 1) div kBlockSize + 1"
        using c by (simp add: kBlockSize_def)
      then show ?thesis using l ih c unfolding n by simp
    qed
  qed
qed

subsection \<open>The image\<close>

lemma encoder_image:
  "EncodeOpaqueBgraPng alloc pixels width height stride \<noteq> [] \<longleftrightarrow>
     (alloc \<and> dimensions_ok width height stride \<and>
      (case pixels of None \<Rightarrow> False | Some px \<Rightarrow>
        list_all (list_all (\<lambda>p. drop_bit 24 p = 255)) (image_rows px width height stride)
        \<and> png_decode (EncodeOpaqueBgraPng alloc pixels width height stride)
            = Some (width, height, image_rows px width height stride)))"
proof (cases "alloc \<and> dimensions_ok width height stride \<and> pixels \<noteq> None")
  case False
  then show ?thesis by (cases pixels) (auto simp: EncodeOpaqueBgraPng_def)
next
  case True
  then obtain px where px: "pixels = Some px" and al: alloc and d: "dimensions_ok width height stride" by auto
  let ?rows = "image_rows px width height stride"
  have none: "encode_rows ?rows = None \<longleftrightarrow> \<not> list_all (list_all (\<lambda>p. drop_bit 24 p = 255)) ?rows"
    unfolding encode_rows_None by (auto simp: list_all_iff list_ex_iff)
  show ?thesis
  proof (cases "encode_rows ?rows")
    case None
    then show ?thesis using none px d by (simp add: EncodeOpaqueBgraPng_def)
  next
    case (Some raw)
    have r: "decode_rows height width raw = Some ?rows" "length raw = height * (4 * width + 1)"
      using decode_encode_rows [OF Some image_rows_shape(2)] by (simp_all add: image_rows_shape)
    have wh: "1 \<le> width" "width \<le> 4096" "1 \<le> height" "height \<le> 4096"
      using d by (simp_all add: dimensions_ok_def kMaxDimension_def)
    then have "height * (4 * width + 1) \<le> 4096 * (4 * 4096 + 1)" by (intro mult_le_mono) simp_all
    then have len: "length raw \<le> 67112960" using r(2) by simp
    have ne: "raw \<noteq> []" using r(2) wh by auto
    have sz: "2 + length raw + (length raw + kBlockSize - 1) div kBlockSize * 5 + 4 \<le> 0xFFFFFFFF"
      using len by (simp add: kBlockSize_def)
    then have zl: "length (zlib_stored raw) < 2 ^ 32"
      using stored_blocks_length [of raw] by (simp add: zlib_stored_def kBlockSize_def)
    let ?ihdr = "AppendBigEndian (AppendBigEndian [] (of_nat width)) (of_nat height) @ [8, 6, 0, 0, 0]"
    have enc: "EncodeOpaqueBgraPng alloc pixels width height stride
        = png_signature @ AppendPngChunk [] IHDR ?ihdr @ AppendPngChunk [] IDAT (zlib_stored raw) @ AppendPngChunk [] IEND [] @ []"
      using px al d Some sz
      by (simp add: EncodeOpaqueBgraPng_def Let_def AppendPngChunk_append [of "png_signature"]
          AppendPngChunk_append [of "png_signature @ x" for x] del: append_assoc)
        (simp add: AppendPngChunk_append [of "png_signature @ x" for x])
    have t: "length IHDR = 4" "length IDAT = 4" "length IEND = 4" by (simp_all add: IHDR_def IDAT_def IEND_def)
    have c: "png_chunks (AppendPngChunk [] IHDR ?ihdr @ AppendPngChunk [] IDAT (zlib_stored raw) @ AppendPngChunk [] IEND [] @ [])
        = Some [(IHDR, ?ihdr), (IDAT, zlib_stored raw), (IEND, [])]"
    proof -
      have "png_chunks (AppendPngChunk [] IEND [] @ []) = Some [(IEND, [])]"
        using png_chunks_append [OF t(3), of "[]" "[]"] by (simp add: png_chunks.simps [of "[]"])
      moreover have "length ?ihdr < 2 ^ 32" by simp
      ultimately show ?thesis
        unfolding png_chunks_append [OF t(1) \<open>length ?ihdr < 2 ^ 32\<close>] png_chunks_append [OF t(2) zl] by simp
    qed
    have w: "unat (of_nat width :: u32) = width" "unat (of_nat height :: u32) = height"
      using wh by (simp_all add: unat_of_nat_u32)
    have i: "?ihdr = [ucast (drop_bit 24 (of_nat width :: u32)), ucast (drop_bit 16 (of_nat width :: u32)),
        ucast (drop_bit 8 (of_nat width :: u32)), ucast (of_nat width :: u32),
        ucast (drop_bit 24 (of_nat height :: u32)), ucast (drop_bit 16 (of_nat height :: u32)),
        ucast (drop_bit 8 (of_nat height :: u32)), ucast (of_nat height :: u32), 8, 6, 0, 0, 0]"
      by (simp add: AppendBigEndian_def)
    have "png_decode (EncodeOpaqueBgraPng alloc pixels width height stride) = Some (width, height, ?rows)"
      unfolding png_decode_def enc using c [unfolded i] r(1) w zlib_roundtrip [OF ne]
      by (simp add: png_signature_def i)
    then show ?thesis using none Some px al d enc by (auto simp: png_signature_def)
  qed
qed


subsection \<open>The checksums\<close>

text \<open>The CRC as a shift register fed bit by bit, least significant first; Adler-32 as its two
  sums.\<close>

fun crc_register :: "bool list \<Rightarrow> u32 \<Rightarrow> u32" where
  "crc_register [] crc = crc"
| "crc_register (b # bs) crc =
     crc_register bs (if bit crc 0 \<noteq> b then drop_bit 1 crc XOR 0xEDB88320 else drop_bit 1 crc)"

definition byte_bits :: "u8 \<Rightarrow> bool list" where
  "byte_bits b = map (bit b) [0..<8]"

definition adler_s1 :: "bytes \<Rightarrow> nat" where "adler_s1 bs = 1 + sum_list (map unat bs)"
definition adler_s2 :: "bytes \<Rightarrow> nat" where "adler_s2 bs = (\<Sum>k = 1..length bs. adler_s1 (take k bs))"

lemma crc_mask: "(0 :: u32) - (x AND 1) = (if bit x 0 then - 1 else 0)"
  by (simp add: and_one_eq bit_0 odd_iff_mod_2_eq_one)

lemma crc_rounds_register:
  "take_bit k w = w \<Longrightarrow> crc_rounds k (crc XOR w) = crc_register (map (bit w) [0..<k]) crc"
proof (induction k arbitrary: crc w)
  case (Suc k)
  let ?w = "drop_bit 1 w"
  have w: "take_bit k ?w = ?w"
    using arg_cong [OF Suc.prems, of "drop_bit 1"] by (simp add: drop_bit_take_bit)
  have m: "map (bit w) [0..<Suc k] = bit w 0 # map (bit ?w) [0..<k]"
    by (simp add: upt_rec [of 0 "Suc k"] map_Suc_upt [symmetric] bit_drop_bit_eq del: upt_Suc)
  have d: "drop_bit 1 (crc XOR w) XOR z = (drop_bit 1 crc XOR z) XOR ?w" for z
    by (simp add: drop_bit_xor ac_simps)
  show ?case
    unfolding m crc_rounds.simps Let_def d crc_mask using Suc.IH [OF w]
    by (simp add: bit_xor_iff)
qed simp

lemma crc_loop_register: "crc_loop bs crc = crc_register (concat (map byte_bits bs)) crc"
proof (induction bs arbitrary: crc)
  case (Cons b bs)
  have app: "crc_register (xs @ ys) c = crc_register ys (crc_register xs c)" for xs ys c
    by (induction xs arbitrary: c) simp_all
  have "take_bit 8 (ucast b :: u32) = ucast b"
    by (rule bit_word_eqI) (auto simp: bit_simps dest: bit_imp_le_length)
  moreover have "map (bit (ucast b :: u32)) [0..<8] = byte_bits b"
    unfolding byte_bits_def by (rule map_cong) (auto simp: bit_simps)
  ultimately have "crc_rounds 8 (crc XOR ucast b) = crc_register (byte_bits b) crc"
    using crc_rounds_register [of 8 "ucast b" crc] by simp
  then show ?case by (simp only: crc_loop.simps Cons.IH app list.map concat.simps)
qed simp

fun running_sums :: "nat \<Rightarrow> bytes \<Rightarrow> nat" where
  "running_sums a [] = 0"
| "running_sums a (c # cs) = (a + unat c) + running_sums (a + unat c) cs"

lemma running_sums_eq: "running_sums a bs = (\<Sum>k = 1..length bs. a + sum_list (map unat (take k bs)))"
proof (induction bs arbitrary: a)
  case (Cons c cs)
  have "(\<Sum>k = 1..length (c # cs). a + sum_list (map unat (take k (c # cs))))
      = (a + unat c) + (\<Sum>k = 1..length cs. a + unat c + sum_list (map unat (take k cs)))"
    by (simp add: sum.atLeast_Suc_atMost sum.shift_bounds_cl_Suc_ivl add.assoc del: sum.cl_ivl_Suc)
  with Cons.IH [of "a + unat c"] show ?case by simp
qed simp

lemma unat_mod_65521: "unat ((x :: u32) mod 65521) = unat x mod 65521"
  by (simp add: unat_mod)

lemma running_sums_cong: "m mod 65521 = n mod 65521 \<Longrightarrow> running_sums m cs mod 65521 = running_sums n cs mod 65521"
proof (induction cs arbitrary: m n)
  case (Cons c cs)
  have "(m + unat c) mod 65521 = (n + unat c) mod 65521" using Cons.prems by (rule mod_add_cong) (rule refl)
  from mod_add_cong [OF this Cons.IH [OF this]] show ?case unfolding running_sums.simps .
qed simp

lemma adler_loop_sums:
  assumes "unat a < 65521" "unat b < 65521"
  shows "adler_loop cs a b = (of_nat ((unat a + sum_list (map unat cs)) mod 65521),
    of_nat ((unat b + running_sums (unat a) cs) mod 65521))"
  using assms
proof (induction cs arbitrary: a b)
  case Nil
  then show ?case by simp
next
  case (Cons c cs)
  let ?a = "(a + ucast c) mod 65521" let ?b = "(b + ?a) mod 65521"
  have ua: "unat ?a = (unat a + unat c) mod 65521"
  proof -
    have "unat (a + ucast c) = unat a + unat c"
      using Cons.prems(1) unat_u8_less [of c] by (subst unat_add_lem [THEN iffD1]) (simp_all add: unsigned_ucast_eq take_bit_eq_mod del: unat_u8_less)
    then show ?thesis by (simp only: unat_mod_65521)
  qed
  have al: "unat ?a < 65521" using ua by simp
  have ub: "unat ?b = (unat b + unat ?a) mod 65521"
  proof -
    have "unat (b + ?a) = unat b + unat ?a"
      using Cons.prems(2) al by (subst unat_add_lem [THEN iffD1]) simp_all
    then show ?thesis by (simp only: unat_mod_65521)
  qed
  have bl: "unat ?b < 65521" using ub by simp
  have r: "running_sums ((unat a + unat c) mod 65521) cs mod 65521 = running_sums (unat a + unat c) cs mod 65521"
    by (rule running_sums_cong) simp
  have s1: "((unat a + unat c) mod 65521 + sum_list (map unat cs)) mod 65521
      = (unat a + sum_list (map unat (c # cs))) mod 65521"
    by (simp add: mod_add_left_eq add.assoc)
  have "((unat b + (unat a + unat c) mod 65521) mod 65521 + running_sums ((unat a + unat c) mod 65521) cs) mod 65521
      = ((unat b + (unat a + unat c)) + running_sums (unat a + unat c) cs) mod 65521"
    by (rule mod_add_cong) (simp_all only: r mod_mod_trivial mod_add_right_eq)
  then have s2: "((unat b + (unat a + unat c) mod 65521) mod 65521 + running_sums ((unat a + unat c) mod 65521) cs) mod 65521
      = (unat b + running_sums (unat a) (c # cs)) mod 65521"
    by (simp only: running_sums.simps add.assoc)
  show ?case
    unfolding adler_loop.simps Let_def Cons.IH [OF al bl] ua ub by (simp only: s1 s2)
qed

text \<open>The two checksums are the standard ones: the CRC is the reflected CRC-32 shift register fed
  with the bits of the bytes, and Adler-32 is the pair of sums modulo 65521, computed without
  overflow.\<close>

lemma checksums_standard:
  "PngCrc32 bs = NOT (crc_register (concat (map byte_bits bs)) 0xFFFFFFFF)
   \<and> adler32 bs = push_bit 16 (of_nat (adler_s2 bs mod 65521)) OR of_nat (adler_s1 bs mod 65521)"
proof
  show "PngCrc32 bs = NOT (crc_register (concat (map byte_bits bs)) 0xFFFFFFFF)"
    by (simp add: PngCrc32_def crc_loop_register)
  have "running_sums 1 bs = adler_s2 bs"
    by (simp add: running_sums_eq adler_s2_def adler_s1_def)
  then show "adler32 bs = push_bit 16 (of_nat (adler_s2 bs mod 65521)) OR of_nat (adler_s1 bs mod 65521)"
    using adler_loop_sums [of 1 0 bs] by (simp add: adler32_def adler_s1_def)
qed

end
