(* ===== verification/CredentialBitmap.thy ===== *)
theory CredentialBitmap
  imports PngImage Credential "HOL-Library.Signed_Division"
begin

text \<open>
  The tile's pictures, \<open>credential_provider/LigamentCredential.cpp\<close>: the logo scaled into a DIB, the
  QR code drawn into one, its copy, and the PNG buffer LogonUI asks for.  A bitmap is the list of
  its pixels, row by row; the QR encoder (a vendored library) and the logo's data are parameters.
\<close>

subsection \<open>Drawing\<close>

definition targetSize :: nat where "targetSize = 256"

definition white :: u32 where "white = 0xFFFFFFFF"
definition slate_dark :: u32 where "slate_dark = 0xFF0A0F1D"
definition slate_ring :: u32 where "slate_ring = 0xFFCBD5E1"

text \<open>\<open>CreateDIBSection\<close> may fail.\<close>

definition CreateLogoBitmap :: "bool \<Rightarrow> u32 list \<Rightarrow> nat \<Rightarrow> bitmap option" where
  "CreateLogoBitmap dib logo ts =
     (if \<not> dib then None
      else Some (concat (map (\<lambda>y.
        let srcY = (let s = y * 256 div ts in if 256 \<le> s then 255 else s)
        in map (\<lambda>x. let srcX = (let s = x * 256 div ts in if 256 \<le> s then 255 else s)
                     in logo ! (srcY * 256 + srcX)) [0..<ts]) [0..<ts])))"

definition paint :: "u32 \<Rightarrow> nat list \<Rightarrow> bitmap \<Rightarrow> bitmap" where
  "paint colour is px = foldl (\<lambda>px i. px[i := colour]) px is"

text \<open>A QR code: its size and its modules.\<close>

record qr_code =
  qr_size :: nat
  qr_module :: "nat \<Rightarrow> nat \<Rightarrow> bool"

definition module_scale :: "nat \<Rightarrow> nat" where
  "module_scale qrSize = (let s = 160 div qrSize in if s < 1 then 1 else s)"

definition qr_start :: "nat \<Rightarrow> nat \<Rightarrow> int" where
  "qr_start ts actual = (int ts - int actual) sdiv 2"

definition in_range :: "nat \<Rightarrow> int \<Rightarrow> int \<Rightarrow> bool" where
  "in_range ts y x \<longleftrightarrow> 0 \<le> y \<and> y < int ts \<and> 0 \<le> x \<and> x < int ts"

text \<open>The pixels of one module, and of all dark ones.\<close>

definition module_pixels :: "nat \<Rightarrow> nat \<Rightarrow> int \<Rightarrow> nat \<Rightarrow> nat \<Rightarrow> nat list" where
  "module_pixels ts scale start qx qy = concat (map (\<lambda>dy. concat (map (\<lambda>dx.
     let visualY = start + int (qy * scale) + int dy; visualX = start + int (qx * scale) + int dx
     in if in_range ts visualY visualX then [nat (visualY * int ts + visualX)] else []) [0..<scale])) [0..<scale])"

definition dark_pixels :: "nat \<Rightarrow> nat \<Rightarrow> int \<Rightarrow> qr_code \<Rightarrow> nat list" where
  "dark_pixels ts scale start qr = concat (map (\<lambda>qy. concat (map (\<lambda>qx.
     if qr_module qr qx qy then module_pixels ts scale start qx qy else []) [0..<qr_size qr])) [0..<qr_size qr])"

definition on_ring :: "nat \<Rightarrow> nat \<Rightarrow> nat \<Rightarrow> bool" where
  "on_ring ts y x \<longleftrightarrow>
     (let dy = int y - int (ts div 2); dx = int x - int (ts div 2); distSq = dx * dx + dy * dy
      in distSq \<le> 126 * 126 \<and> 123 * 123 \<le> distSq)"

definition ring_pixels :: "nat \<Rightarrow> nat list" where
  "ring_pixels ts = concat (map (\<lambda>y. concat (map (\<lambda>x. if on_ring ts y x then [y * ts + x] else []) [0..<ts])) [0..<ts])"

text \<open>\<open>encode\<close> is the QR encoder, \<open>None\<close> when it throws.\<close>

definition CreateQrBitmap :: "(string \<Rightarrow> qr_code option) \<Rightarrow> bool \<Rightarrow> string \<Rightarrow> nat \<Rightarrow> bitmap option" where
  "CreateQrBitmap encode dib txt ts = (case encode txt of
     None \<Rightarrow> None
   | Some qr \<Rightarrow>
       if qr_size qr = 0 \<or> \<not> dib then None
       else
         let scale = module_scale (qr_size qr);
             start = qr_start ts (qr_size qr * scale);
             px = replicate (ts * ts) white;
             px = paint slate_dark (dark_pixels ts scale start qr) px
         in Some (paint slate_ring (ring_pixels ts) px))"

text \<open>\<open>CloneAlphaDIB\<close>: a new DIB with the same pixels, else \<open>CopyImage\<close>'s copy.\<close>

definition CloneAlphaDIB :: "bool \<Rightarrow> bool \<Rightarrow> (bitmap \<Rightarrow> bitmap option) \<Rightarrow> bitmap option \<Rightarrow> bitmap option" where
  "CloneAlphaDIB isDib dib copyImage src = (case src of
     None \<Rightarrow> None
   | Some px \<Rightarrow> if isDib \<and> dib then Some px else copyImage px)"

text \<open>The buffer: the QR's PNG, or the stock logo's.  \<open>dib\<close> gives the bits, size and stride GDI
  reports for the bitmap.\<close>

record dib_section =
  dib_bits :: "u32 list option"
  dib_bitsPixel :: nat
  dib_width :: nat
  dib_height :: nat
  dib_widthBytes :: nat

definition GetBitmapBufferValue ::
    "(bitmap \<Rightarrow> dib_section option) \<Rightarrow> bool \<Rightarrow> bytes \<Rightarrow> bool \<Rightarrow> FIELD_ID \<Rightarrow> LigamentCredential \<Rightarrow> hresult \<times> bytes option" where
  "GetBitmapBufferValue getObject alloc logoPng ptr fid c =
     (if \<not> ptr then (E_POINTER, None)
      else if fid \<noteq> FID_LOGO then (E_INVALIDARG, None)
      else
        let qr = (case m_hQrBmp c of
              None \<Rightarrow> Inr []
            | Some bmp \<Rightarrow>
                (case getObject bmp of
                   None \<Rightarrow> Inl E_FAIL
                 | Some d \<Rightarrow>
                     if dib_bits d = None \<or> dib_bitsPixel d \<noteq> 32 then Inl E_FAIL
                     else (let png = EncodeOpaqueBgraPng alloc (dib_bits d) (dib_width d) (dib_height d) (dib_widthBytes d div 4)
                           in if png = [] then Inl E_FAIL else Inr png)))
        in case qr of
             Inl hr \<Rightarrow> (hr, None)
           | Inr qrPng \<Rightarrow>
               if \<not> alloc then (E_OUTOFMEMORY, None)
               else (S_OK, Some (if qrPng = [] then logoPng else qrPng)))"

subsection \<open>What is drawn\<close>

lemma paint_length [simp]: "length (paint c is px) = length px"
  unfolding paint_def by (induction "is" arbitrary: px) simp_all

lemma paint_nth: "i < length px \<Longrightarrow> paint c is px ! i = (if i \<in> set is then c else px ! i)"
proof (induction "is" arbitrary: px)
  case (Cons j js)
  have "paint c (j # js) px = paint c js (px[j := c])" by (simp add: paint_def)
  then show ?case using Cons.IH [of "px[j := c]"] Cons.prems by (auto simp: nth_list_update)
qed (simp add: paint_def)

lemma pixel_index:
  "x < (ts :: nat) \<Longrightarrow> x' < ts \<Longrightarrow> y * ts + x = y' * ts + x' \<longleftrightarrow> y = y' \<and> x = x'"
proof
  assume a: "x < ts" "x' < ts" "y * ts + x = y' * ts + x'"
  have "(y * ts + x) div ts = y" "(y' * ts + x') div ts = y'" using a(1,2) by simp_all
  with a show "y = y' \<and> x = x'" by simp
qed simp

lemma ring_pixels_set:
  "x < ts \<Longrightarrow> y < ts \<Longrightarrow> y * ts + x \<in> set (ring_pixels ts) \<longleftrightarrow> on_ring ts y x"
  unfolding ring_pixels_def by (auto simp: pixel_index)

lemma in_nested_loops:
  "i \<in> set (concat (map (\<lambda>a. concat (map (\<lambda>b. f a b) [0..<m])) [0..<n])) \<longleftrightarrow> (\<exists>a<n. \<exists>b<m. i \<in> set (f a b))"
  by (simp add: Bex_def atLeast0LessThan)

lemma in_guarded: "i \<in> set (if P then xs else []) \<longleftrightarrow> P \<and> i \<in> set xs"
  by simp

lemma grid_index:
  assumes "in_range ts v u" "x < ts"
  shows "nat (v * int ts + u) = y * ts + x \<longleftrightarrow> v = int y \<and> u = int x"
proof -
  obtain a b where ab: "v = int a" "u = int b" "b < ts"
    using assms(1) by (metis in_range_def nonneg_int_cases of_nat_less_iff)
  have "nat (v * int ts + u) = a * ts + b" unfolding ab by (metis nat_int of_nat_add of_nat_mult)
  then show ?thesis using pixel_index [OF ab(3) assms(2)] by (simp add: ab)
qed

lemma module_pixels_set:
  assumes x: "x < ts" and y: "y < ts"
  shows "y * ts + x \<in> set (module_pixels ts scale start qx qy) \<longleftrightarrow>
    (\<exists>dx dy. dx < scale \<and> dy < scale
       \<and> int y = start + int (qy * scale) + int dy \<and> int x = start + int (qx * scale) + int dx)"
    (is "_ \<longleftrightarrow> ?r")
proof -
  have ir: "in_range ts (int y) (int x)" using x y by (simp add: in_range_def)
  have "y * ts + x \<in> set (module_pixels ts scale start qx qy) \<longleftrightarrow>
      (\<exists>dy < scale. \<exists>dx < scale. in_range ts (start + int (qy * scale) + int dy) (start + int (qx * scale) + int dx)
         \<and> nat ((start + int (qy * scale) + int dy) * int ts + (start + int (qx * scale) + int dx)) = y * ts + x)"
    unfolding module_pixels_def Let_def in_nested_loops in_guarded by (simp add: eq_commute)
  also have "\<dots> \<longleftrightarrow> ?r" using grid_index [OF _ x] ir by metis
  finally show ?thesis .
qed

lemma dark_pixels_set:
  assumes "x < ts" and "y < ts"
  shows "y * ts + x \<in> set (dark_pixels ts scale start qr) \<longleftrightarrow>
    (\<exists>qx qy. qx < qr_size qr \<and> qy < qr_size qr \<and> qr_module qr qx qy \<and>
      (\<exists>dx dy. dx < scale \<and> dy < scale
       \<and> int y = start + int (qy * scale) + int dy \<and> int x = start + int (qx * scale) + int dx))"
  unfolding module_pixels_set [OF assms, symmetric] unfolding dark_pixels_def in_nested_loops in_guarded
  by blast

text \<open>The final picture, pixel by pixel.\<close>

lemma CreateQrBitmap_pixel:
  assumes "CreateQrBitmap encode dib txt ts = Some px" "encode txt = Some qr" "x < ts" "y < ts"
  shows "length px = ts * ts" "px ! (y * ts + x) =
    (if on_ring ts y x then slate_ring
     else if y * ts + x \<in> set (dark_pixels ts (module_scale (qr_size qr))
            (qr_start ts (qr_size qr * module_scale (qr_size qr))) qr) then slate_dark
     else white)"
proof -
  have px: "px = paint slate_ring (ring_pixels ts) (paint slate_dark (dark_pixels ts (module_scale (qr_size qr))
            (qr_start ts (qr_size qr * module_scale (qr_size qr))) qr) (replicate (ts * ts) white))"
    using assms(1,2) by (simp add: CreateQrBitmap_def Let_def split: if_splits)
  have "y * ts + x < Suc y * ts" using assms(3) by simp
  also have "\<dots> \<le> ts * ts" using assms(4) by (intro mult_le_mono1) simp
  finally have i: "y * ts + x < ts * ts" .
  show "length px = ts * ts" by (simp add: px)
  show "px ! (y * ts + x) =
    (if on_ring ts y x then slate_ring
     else if y * ts + x \<in> set (dark_pixels ts (module_scale (qr_size qr))
            (qr_start ts (qr_size qr * module_scale (qr_size qr))) qr) then slate_dark
     else white)"
    using i by (simp add: px paint_nth ring_pixels_set [OF assms(3,4)])
qed

lemma qr_fits:
  assumes "0 < n" "n \<le> 160"
  shows "1 \<le> module_scale n" "n * module_scale n \<le> 160"
proof -
  have "\<not> 160 div n < 1" using assms by (simp add: div_eq_0_iff)
  then show "1 \<le> module_scale n" "n * module_scale n \<le> 160" by (simp_all add: module_scale_def Let_def)
qed

lemma ring_outside:
  assumes "48 \<le> x" "x < 208" "48 \<le> y" "y < 208"
  shows "\<not> on_ring 256 y x"
proof -
  let ?u = "int x - 128" and ?v = "int y - 128"
  have "\<bar>?u\<bar> \<le> \<bar>80\<bar>" "\<bar>?v\<bar> \<le> \<bar>80\<bar>" using assms by auto
  then have "?u * ?u \<le> 80 * 80" "?v * ?v \<le> 80 * 80"
    unfolding abs_le_square_iff power2_eq_square by simp_all
  then show ?thesis by (simp add: on_ring_def Let_def)
qed

text \<open>The QR code on the tile is the code that was encoded: for a code of at most 160 modules a
  side, module by module, every pixel of a module's square has the module's colour; squares do not
  overlap, the code is centred, and the decorative ring touches none of it.\<close>

lemma CreateQrBitmap_draws_code:
  assumes "CreateQrBitmap encode dib txt 256 = Some px" and "encode txt = Some qr"
    and "0 < qr_size qr" "qr_size qr \<le> 160" and "qx < qr_size qr" "qy < qr_size qr"
    and "sc = module_scale (qr_size qr)" and "dx < sc" "dy < sc"
    and "st = (256 - qr_size qr * sc) div 2"
  shows "px ! ((st + qy * sc + dy) * 256 + (st + qx * sc + dx)) = (if qr_module qr qx qy then slate_dark else white)
    \<and> st + qr_size qr * sc \<le> 208 \<and> 48 \<le> st"
proof -
  let ?n = "qr_size qr"
  have fit: "1 \<le> sc" "?n * sc \<le> 160" using qr_fits [OF assms(3,4)] assms(7) by simp_all
  have start: "qr_start 256 (?n * sc) = int st"
  proof -
    have "(int 256 - int (?n * sc)) sdiv 2 = int ((256 - ?n * sc) div 2)"
    proof -
      have "int (?n * sc) \<le> 160" using fit(2) by linarith
      then show ?thesis using fit(2)
        by (simp only: signed_divide_int_def sgn_if zdiv_int of_nat_diff) (simp add: of_nat_diff)
    qed
    then show ?thesis unfolding qr_start_def assms(10) .
  qed
  have st: "48 \<le> st" "st + ?n * sc \<le> 208" using fit(2) assms(10) by auto
  have q: "q * sc + d < ?n * sc" if "q < ?n" "d < sc" for q d
  proof -
    have "q * sc + d < Suc q * sc" using that(2) by simp
    also have "\<dots> \<le> ?n * sc" using that(1) by (intro mult_le_mono1) simp
    finally show ?thesis .
  qed
  let ?x = "st + qx * sc + dx" and ?y = "st + qy * sc + dy"
  have x: "48 \<le> ?x" "?x < 208" and y: "48 \<le> ?y" "?y < 208"
    using st q [OF assms(5,8)] q [OF assms(6,9)] by simp_all
  have inj: "q' = q" if "st + q * sc + d = st + q' * sc + d'" "d < sc" "d' < sc" for q q' d d'
    using that pixel_index [of d sc d' q q'] by auto
  have dark: "?y * 256 + ?x \<in> set (dark_pixels 256 sc (int st) qr) \<longleftrightarrow> qr_module qr qx qy"
  proof -
    have e: "int a = int st + int (k * sc) + int d \<longleftrightarrow> a = st + k * sc + d" for a k d by linarith
    have l: "?x < 256" "?y < 256" using x y by simp_all
    show ?thesis
      unfolding dark_pixels_set [OF l] e
      using assms(5,6,8,9) inj [of qx dx] inj [of qy dy] by metis
  qed
  have "px ! (?y * 256 + ?x) = (if qr_module qr qx qy then slate_dark else white)"
    using CreateQrBitmap_pixel(2) [OF assms(1,2), of ?x ?y] x y ring_outside [OF x y] dark
    by (simp add: assms(7) [symmetric] start)
  with st show ?thesis by simp
qed

definition demo_qr :: qr_code where
  "demo_qr = \<lparr>qr_size = 21, qr_module = (\<lambda>x y. x = y)\<rparr>"

lemma CreateQrBitmap_draws_code_example:
  "let px = the (CreateQrBitmap (\<lambda>_. Some demo_qr) True ''u'' 256)
   in px ! ((54 + 3 * 7 + 2) * 256 + (54 + 3 * 7 + 6)) = slate_dark"
proof -
  have c: "CreateQrBitmap (\<lambda>_. Some demo_qr) True ''u'' 256 = Some (the (CreateQrBitmap (\<lambda>_. Some demo_qr) True ''u'' 256))"
    by (simp add: CreateQrBitmap_def demo_qr_def Let_def)
  have sc: "(7 :: nat) = module_scale (qr_size demo_qr)" by (simp add: module_scale_def demo_qr_def)
  show ?thesis
    using CreateQrBitmap_draws_code [OF c refl _ _ _ _ sc, of 3 3 6 2 54] by (simp add: demo_qr_def)
qed

lemma CreateQrBitmap_opaque:
  assumes "CreateQrBitmap encode dib txt 256 = Some px"
  shows "list_all (list_all (\<lambda>p. drop_bit 24 p = 255)) (image_rows px 256 256 256)"
proof -
  from assms obtain qr where qr: "encode txt = Some qr" by (auto simp: CreateQrBitmap_def split: option.splits)
  have c: "drop_bit 24 white = 255" "drop_bit 24 slate_dark = 255" "drop_bit 24 slate_ring = 255"
    by (simp_all add: white_def slate_dark_def slate_ring_def)
  have "drop_bit 24 (px ! (y * 256 + x)) = 255" if "x < 256" "y < 256" for x y
    using CreateQrBitmap_pixel(2) [OF assms qr that] c by (simp split: if_splits)
  then show ?thesis by (auto simp: image_rows_def list_all_iff)
qed

text \<open>The QR code reaches LogonUI unharmed: asked for the tile's image, the provider answers with
  a PNG that decodes to exactly the pixels of the QR bitmap; the encoder's refusal of transparent
  pixels never strikes.  The hypothesis on GDI is what \<open>GetObject\<close> reports for a 256 by 256 DIB
  of 32 bits.\<close>

lemma qr_png_reaches_logonui:
  assumes "CreateQrBitmap encode dib txt 256 = Some px" and "m_hQrBmp c = Some px"
    and "getObject px = Some \<lparr>dib_bits = Some px, dib_bitsPixel = 32, dib_width = 256, dib_height = 256, dib_widthBytes = 1024\<rparr>"
  shows "\<exists>png. GetBitmapBufferValue getObject True logoPng True FID_LOGO c = (S_OK, Some png)
    \<and> png_decode png = Some (256, 256, image_rows px 256 256 256)"
proof -
  let ?png = "EncodeOpaqueBgraPng True (Some px) 256 256 256"
  have d: "dimensions_ok 256 256 256"
    by (simp add: dimensions_ok_def kMaxDimension_def kMaxSourcePixels_def)
  have ne: "?png \<noteq> []"
  proof
    assume e: "?png = []"
    have "encode_rows (image_rows px 256 256 256) \<noteq> None"
      using CreateQrBitmap_opaque [OF assms(1)] unfolding encode_rows_None
      by (fastforce simp: list_all_iff list_ex_iff)
    then obtain raw where r: "encode_rows (image_rows px 256 256 256) = Some raw" by auto
    have "length raw = 256 * (4 * 256 + 1)"
      using decode_encode_rows [OF r image_rows_shape(2)] by (simp add: image_rows_shape)
    then show False
      using e d r by (simp add: EncodeOpaqueBgraPng_def AppendPngChunk_def AppendBigEndian_def kBlockSize_def Let_def)
  qed
  then have "png_decode ?png = Some (256, 256, image_rows px 256 256 256)"
    unfolding encoder_image by simp
  with assms(2,3) ne show ?thesis by (simp add: GetBitmapBufferValue_def Let_def)
qed

lemma qr_png_reaches_logonui_example:
  "let px = the (CreateQrBitmap (\<lambda>_. Some demo_qr) True ''u'' 256);
       d = (\<lambda>px. Some \<lparr>dib_bits = Some px, dib_bitsPixel = 32, dib_width = 256, dib_height = 256, dib_widthBytes = 1024\<rparr>)
   in \<exists>png. GetBitmapBufferValue d True [] True FID_LOGO (LigamentCredential_new\<lparr>m_hQrBmp := Some px\<rparr>) = (S_OK, Some png)
        \<and> png_decode png = Some (256, 256, image_rows px 256 256 256)"
proof -
  have c: "CreateQrBitmap (\<lambda>_. Some demo_qr) True ''u'' 256 = Some (the (CreateQrBitmap (\<lambda>_. Some demo_qr) True ''u'' 256))"
    by (simp add: CreateQrBitmap_def demo_qr_def Let_def)
  show ?thesis unfolding Let_def by (rule qr_png_reaches_logonui [OF c]) simp_all
qed

end
