(* ===== verification/Base64Url.thy ===== *)
theory Base64Url
  imports Std_Strings
begin

text \<open>
  \<open>Base64UrlEncode\<close> and \<open>Base64UrlDecode\<close> of \<open>credential_provider/common.h\<close>, with the
  32-bit \<open>int\<close> accumulator kept at its width: it is shifted left for every byte and never
  masked, so its high bits wrap around, and it is read back through an arithmetic right shift
  (\<^const>\<open>signed_drop_bit\<close>).  The reference is RFC 4648's unpadded base64url on groups of three
  bytes; both routines are proved equal to it for every input, and the two to be inverse.
\<close>

definition b64_alphabet :: string where
  "b64_alphabet = ''ABCDEFGHIJKLMNOPQRSTUVWXYZabcdefghijklmnopqrstuvwxyz0123456789-_''"

definition b64_char :: "nat \<Rightarrow> char" where
  "b64_char n = b64_alphabet ! n"

text \<open>\<open>T[c]\<close>, with \<open>None\<close> for -1.\<close>

definition b64_index :: "char \<Rightarrow> nat option" where
  "b64_index c = find_if (\<lambda>x. x = c) b64_alphabet 0"

subsection \<open>The encoder\<close>

text \<open>The inner loop \<open>while (valb >= 0)\<close>.\<close>

function enc_drain :: "u32 \<Rightarrow> int \<Rightarrow> string \<Rightarrow> string \<times> int" where
  "enc_drain val valb out =
     (if 0 \<le> valb
      then enc_drain val (valb - 6) (out @ [b64_char (unat (signed_drop_bit (nat valb) val AND 0x3F))])
      else (out, valb))"
  by pat_completeness auto
termination
  by (relation "measure (\<lambda>(val, valb, out). nat (valb + 6))") auto

declare enc_drain.simps [simp del]

fun enc_loop :: "bytes \<Rightarrow> u32 \<Rightarrow> int \<Rightarrow> string \<Rightarrow> string \<times> u32 \<times> int" where
  "enc_loop [] val valb out = (out, val, valb)"
| "enc_loop (d # ds) val valb out =
     (let val' = push_bit 8 val + ucast d;
          (out', valb') = enc_drain val' (valb + 8) out
      in enc_loop ds val' valb' out')"

definition Base64UrlEncode :: "bytes \<Rightarrow> string" where
  "Base64UrlEncode data =
     (let (out, val, valb) = enc_loop data 0 (- 6) []
      in if valb > - 6
         then out @ [b64_char (unat (signed_drop_bit (nat (valb + 8)) (push_bit 8 val) AND 0x3F))]
         else out)"

subsection \<open>The decoder\<close>

fun dec_loop :: "string \<Rightarrow> u32 \<Rightarrow> int \<Rightarrow> bytes \<Rightarrow> bytes" where
  "dec_loop [] val valb out = out"
| "dec_loop (c # cs) val valb out =
     (case b64_index c of
        None \<Rightarrow> out
      | Some t \<Rightarrow>
        (let val' = push_bit 6 val + of_nat t; valb' = valb + 6
         in if 0 \<le> valb'
            then dec_loop cs val' (valb' - 8) (out @ [ucast (signed_drop_bit (nat valb') val' AND 0xFF)])
            else dec_loop cs val' valb' out))"

definition Base64UrlDecode :: "string \<Rightarrow> bytes" where
  "Base64UrlDecode s = dec_loop s 0 (- 8) []"

subsection \<open>The reference\<close>

fun sextets :: "nat list \<Rightarrow> nat list" where
  "sextets (a # b # c # r) =
     a div 4 # (a mod 4 * 16 + b div 16) # (b mod 16 * 4 + c div 64) # c mod 64 # sextets r"
| "sextets [a, b] = [a div 4, a mod 4 * 16 + b div 16, b mod 16 * 4]"
| "sextets [a] = [a div 4, a mod 4 * 16]"
| "sextets [] = []"

fun octets :: "nat list \<Rightarrow> nat list" where
  "octets (w # x # y # z # r) =
     (w * 4 + x div 16) # (x mod 16 * 16 + y div 4) # (y mod 4 * 64 + z) # octets r"
| "octets [w, x, y] = [w * 4 + x div 16, x mod 16 * 16 + y div 4]"
| "octets [w, x] = [w * 4 + x div 16]"
| "octets _ = []"

lemma octets_sextets: "list_all (\<lambda>n. n < 256) ns \<Longrightarrow> octets (sextets ns) = ns"
proof (induction ns rule: sextets.induct)
  case (1 a b c r)
  have "b div 16 < 16" "c div 64 < 4" using 1 by auto
  then have "b div 16 div 16 = 0" "c div 64 div 4 = 0" by (simp_all only: div_less)
  moreover from this have "a div 4 * 4 + (a mod 4 * 16 + b div 16) div 16 = a" by simp
  moreover have "(a mod 4 * 16 + b div 16) mod 16 * 16 + (b mod 16 * 4 + c div 64) div 4 = b"
    using \<open>b div 16 < 16\<close> \<open>c div 64 div 4 = 0\<close> by simp
  moreover have "(b mod 16 * 4 + c div 64) mod 4 * 64 + c mod 64 = c"
    using \<open>c div 64 < 4\<close> by simp
  ultimately show ?case using 1 by simp
qed (auto simp: div_mult_mod_eq)

lemma sextets_less: "list_all (\<lambda>n. n < 256) ns \<Longrightarrow> list_all (\<lambda>n. n < 64) (sextets ns)"
  by (induction ns rule: sextets.induct) auto

lemma length_sextets: "length (sextets ns) = (4 * length ns + 2) div 3"
  by (induction ns rule: sextets.induct) auto

subsection \<open>Reading the accumulator\<close>

lemma and63: "unat (w AND 63 :: u32) = unat w mod 64"
proof -
  have "unat (w AND 63) = unat w AND 63" by (simp add: unsigned_and_eq)
  also have "\<dots> = take_bit 6 (unat w)"
    by (simp only: take_bit_eq_mask) (simp add: mask_eq_exp_minus_1)
  finally show ?thesis by (simp add: take_bit_eq_mod)
qed

lemma and255: "unat (w AND 255 :: u32) = unat w mod 256"
proof -
  have "unat (w AND 255) = unat w AND 255" by (simp add: unsigned_and_eq)
  also have "\<dots> = take_bit 8 (unat w)"
    by (simp only: take_bit_eq_mask) (simp add: mask_eq_exp_minus_1)
  finally show ?thesis by (simp add: take_bit_eq_mod)
qed

text \<open>Below the sign, an arithmetic and a logical right shift read the same bits.\<close>

lemma take_signed_drop:
  "n + k \<le> 32 \<Longrightarrow> take_bit k (signed_drop_bit n (w :: u32)) = take_bit k (drop_bit n w)"
  by (rule bit_eqI) (auto simp: bit_take_bit_iff bit_signed_drop_bit_iff bit_drop_bit_eq)

lemma unat_shift: "unat (drop_bit n (w :: u32)) = unat w div 2 ^ n"
proof -
  have "unat (drop_bit n w) = drop_bit n (unat w)" by (rule unat_drop_bit_eq)
  also have "\<dots> = unat w div 2 ^ n" by (simp add: drop_bit_eq_div)
  finally show ?thesis .
qed

lemma signed_shift_63: "n \<le> 26 \<Longrightarrow> unat (signed_drop_bit n (w :: u32) AND 63) = unat w div 2 ^ n mod 64"
proof -
  assume "n \<le> 26"
  then have "take_bit 6 (signed_drop_bit n w) = take_bit 6 (drop_bit n w)"
    by (intro take_signed_drop) simp
  then have "signed_drop_bit n w AND mask 6 = drop_bit n w AND mask 6"
    by (simp only: take_bit_eq_mask)
  then have "signed_drop_bit n w AND 63 = drop_bit n w AND 63"
    by (simp only: mask_eq_exp_minus_1) simp
  then have "unat (signed_drop_bit n w AND 63) = unat (drop_bit n w AND 63)" by (rule arg_cong)
  also have "\<dots> = unat w div 2 ^ n mod 64" by (simp only: and63 unat_shift)
  finally show ?thesis .
qed

lemma signed_shift_255: "n \<le> 24 \<Longrightarrow> unat (signed_drop_bit n (w :: u32) AND 255) = unat w div 2 ^ n mod 256"
proof -
  assume "n \<le> 24"
  then have "take_bit 8 (signed_drop_bit n w) = take_bit 8 (drop_bit n w)"
    by (intro take_signed_drop) simp
  then have "signed_drop_bit n w AND mask 8 = drop_bit n w AND mask 8"
    by (simp only: take_bit_eq_mask)
  then have "signed_drop_bit n w AND 255 = drop_bit n w AND 255"
    by (simp only: mask_eq_exp_minus_1) simp
  then have "unat (signed_drop_bit n w AND 255) = unat (drop_bit n w AND 255)" by (rule arg_cong)
  also have "\<dots> = unat w div 2 ^ n mod 256" by (simp only: and255 unat_shift)
  finally show ?thesis .
qed

lemma unat_push_add:
  assumes "k + m \<le> 32" "d < 2 ^ m"
  shows "unat (push_bit m (v :: u32) + of_nat d) mod 2 ^ (k + m) = (unat v mod 2 ^ k) * 2 ^ m + d"
proof -
  have e: "push_bit m v + of_nat d = (of_nat (unat v * 2 ^ m + d) :: u32)"
    by (simp add: push_bit_eq_mult)
  have dv: "(2 :: nat) ^ (k + m) dvd 2 ^ 32" using assms(1) by (rule le_imp_power_dvd)
  have "unat (push_bit m v + of_nat d) mod 2 ^ (k + m) = (unat v * 2 ^ m + d) mod 2 ^ (k + m)"
    unfolding e unat_of_nat using dv by (simp add: mod_mod_cancel)
  also have "\<dots> = (unat v mod 2 ^ k) * 2 ^ m + d"
  proof -
    have *: "(q * 2 ^ k + r) * 2 ^ m + d = 2 ^ (k + m) * q + (r * 2 ^ m + d)" for q r :: nat
      by (simp add: power_add algebra_simps)
    have "unat v * 2 ^ m + d = 2 ^ (k + m) * (unat v div 2 ^ k) + ((unat v mod 2 ^ k) * 2 ^ m + d)"
      using * [of "unat v div 2 ^ k" "unat v mod 2 ^ k"] by (simp only: div_mult_mod_eq)
    moreover have "(unat v mod 2 ^ k) * 2 ^ m + d < 2 ^ (k + m)"
    proof -
      have "unat v mod 2 ^ k + 1 \<le> 2 ^ k" by (simp add: Suc_leI)
      then have "(unat v mod 2 ^ k + 1) * 2 ^ m \<le> 2 ^ k * 2 ^ m" by (rule mult_le_mono1)
      with assms(2) show ?thesis by (simp add: power_add algebra_simps)
    qed
    ultimately show ?thesis by (simp only: mod_mult_self4 mod_less)
  qed
  finally show ?thesis .
qed

text \<open>Reading bits \<open>[n, n+6)\<close> only needs the value modulo a higher power.\<close>

lemma div_mod_window:
  assumes "n + b \<le> k"
  shows "(v :: nat) div 2 ^ n mod 2 ^ b = v mod 2 ^ k div 2 ^ n mod 2 ^ b"
proof -
  have "take_bit b (drop_bit n v) = take_bit b (drop_bit n (take_bit k v))"
    using assms by (intro bit_eqI) (auto simp: bit_take_bit_iff bit_drop_bit_eq)
  then show ?thesis by (simp only: take_bit_eq_mod drop_bit_eq_div)
qed

subsection \<open>The encoder equals the reference\<close>

lemma ucast_u8_u32: "(ucast (d :: u8) :: u32) = of_nat (unat d)"
  by simp

text \<open>One accumulation step, kept opaque in the proofs.\<close>

definition acc8 :: "u32 \<Rightarrow> u8 \<Rightarrow> u32" where
  "acc8 v d = push_bit 8 v + ucast d"

lemma acc8_push:
  "k + 8 \<le> 32 \<Longrightarrow> unat (acc8 v d) mod 2 ^ (k + 8) = (unat v mod 2 ^ k) * 2 ^ 8 + unat d"
  unfolding acc8_def ucast_u8_u32 by (rule unat_push_add) simp_all

lemma window_div:
  "((m :: nat) * 256 + b) div 16 = m * 16 + b div 16"
  "(m * 256 + b) div 64 = m * 4 + b div 64"
  "(m * 64 + b) div 16 = m * 4 + b div 16"
  "(m * 64 + b) div 4 = m * 16 + b div 4"
  by simp_all

lemma acc8_window:
  "unat (acc8 v d) mod 256 = unat d"
  "unat (acc8 v d) mod 1024 = (unat v mod 4) * 256 + unat d"
  "unat (acc8 v d) mod 4096 = (unat v mod 16) * 256 + unat d"
  using acc8_push [of 0 v d] acc8_push [of 2 v d] acc8_push [of 4 v d] by simp_all

lemma acc8_mod:
  "unat (acc8 v d) mod 4 = unat d mod 4"
  "unat (acc8 v d) mod 16 = unat d mod 16"
  "unat (acc8 v d) mod 64 = unat d mod 64"
proof -
  have *: "unat (acc8 v d) mod m = unat d mod m" if "m dvd 256" for m
    using acc8_window(1) [of v d] mod_mod_cancel [OF that, of "unat (acc8 v d)"] by simp
  show "unat (acc8 v d) mod 4 = unat d mod 4"
    "unat (acc8 v d) mod 16 = unat d mod 16"
    "unat (acc8 v d) mod 64 = unat d mod 64"
    by (simp_all add: *)
qed

lemma enc_loop_Cons:
  "enc_loop (d # ds) val valb out =
     (case enc_drain (acc8 val d) (valb + 8) out of (out', valb') \<Rightarrow>
        enc_loop ds (acc8 val d) valb' out')"
  by (simp add: acc8_def Let_def)

lemma enc_drain_steps:
  "enc_drain v 2 out = (out @ [b64_char (unat v mod 256 div 4)], - 4)"
  "enc_drain v 4 out = (out @ [b64_char (unat v mod 1024 div 16)], - 2)"
  "enc_drain v 6 out = (out @ [b64_char (unat v mod 4096 div 64), b64_char (unat v mod 64)], - 6)"
proof -
  have "unat (signed_drop_bit 2 v AND 63) = unat v mod 256 div 4"
    using signed_shift_63 [of 2 v] div_mod_window [of 2 6 8 "unat v"]
      less_mult_imp_div_less [of "unat v mod 256" 64 4] by simp
  then show "enc_drain v 2 out = (out @ [b64_char (unat v mod 256 div 4)], - 4)"
    by (subst enc_drain.simps) (simp add: enc_drain.simps)
  have "unat (signed_drop_bit 4 v AND 63) = unat v mod 1024 div 16"
    using signed_shift_63 [of 4 v] div_mod_window [of 4 6 10 "unat v"]
      less_mult_imp_div_less [of "unat v mod 1024" 64 16] by simp
  then show "enc_drain v 4 out = (out @ [b64_char (unat v mod 1024 div 16)], - 2)"
    by (subst enc_drain.simps) (simp add: enc_drain.simps)
  have a: "unat (signed_drop_bit 6 v AND 63) = unat v mod 4096 div 64"
    using signed_shift_63 [of 6 v] div_mod_window [of 6 6 12 "unat v"]
      less_mult_imp_div_less [of "unat v mod 4096" 64 64] by simp
  have b: "unat (signed_drop_bit 0 v AND 63) = unat v mod 64"
    using signed_shift_63 [of 0 v] by simp
  show "enc_drain v 6 out
      = (out @ [b64_char (unat v mod 4096 div 64), b64_char (unat v mod 64)], - 6)"
    using a b by (subst enc_drain.simps, subst enc_drain.simps) (simp add: enc_drain.simps)
qed

definition enc_finish :: "string \<times> u32 \<times> int \<Rightarrow> string" where
  "enc_finish r = (case r of (out, val, valb) \<Rightarrow>
     if valb > - 6
     then out @ [b64_char (unat (signed_drop_bit (nat (valb + 8)) (push_bit 8 val) AND 0x3F))]
     else out)"

lemma enc_finish_steps:
  "enc_finish (out, v, - 6) = out"
  "enc_finish (out, v, - 4) = out @ [b64_char (unat v mod 4 * 16)]"
  "enc_finish (out, v, - 2) = out @ [b64_char (unat v mod 16 * 4)]"
proof -
  show "enc_finish (out, v, - 6) = out" by (simp add: enc_finish_def)
  have "unat (signed_drop_bit 4 (push_bit 8 v) AND 63) = unat v mod 4 * 256 div 16 mod 64"
    using signed_shift_63 [of 4 "push_bit 8 v"] div_mod_window [of 4 6 10 "unat (push_bit 8 v)"]
      unat_push_add [of 2 8 0 v] by simp
  also have "\<dots> = unat v mod 4 * 16" by simp
  finally show "enc_finish (out, v, - 4) = out @ [b64_char (unat v mod 4 * 16)]"
    by (simp add: enc_finish_def)
  have "unat (signed_drop_bit 6 (push_bit 8 v) AND 63) = unat v mod 16 * 256 div 64 mod 64"
    using signed_shift_63 [of 6 "push_bit 8 v"] div_mod_window [of 6 6 12 "unat (push_bit 8 v)"]
      unat_push_add [of 4 8 0 v] by simp
  also have "\<dots> = unat v mod 16 * 4" by simp
  finally show "enc_finish (out, v, - 2) = out @ [b64_char (unat v mod 16 * 4)]"
    by (simp add: enc_finish_def)
qed

lemma enc_loop_sextets:
  "enc_finish (enc_loop data v (- 6) out) = out @ map b64_char (sextets (map unat data))"
proof (induction data arbitrary: v out rule: list_induct_block3)
  case (4 a b c r)
  then show ?case
    by (simp add: enc_loop_Cons enc_drain_steps acc8_window acc8_mod window_div del: enc_loop.simps(2))
qed (simp_all add: enc_loop_Cons enc_drain_steps enc_finish_steps acc8_window acc8_mod window_div
       del: enc_loop.simps(2))

theorem Base64UrlEncode_sextets: "Base64UrlEncode data = map b64_char (sextets (map unat data))"
  using enc_loop_sextets [of data 0 "[]"] by (simp add: Base64UrlEncode_def enc_finish_def)

lemma b64_char_in: "n < 64 \<Longrightarrow> b64_char n \<in> set b64_alphabet"
proof -
  have "length b64_alphabet = 64" by code_simp
  then show "n < 64 \<Longrightarrow> ?thesis" unfolding b64_char_def by (intro nth_mem) simp
qed

subsection \<open>The decoder equals the reference\<close>

lemma b64_index_less: "b64_index c = Some t \<Longrightarrow> t < 64"
  using find_if_Some [of "\<lambda>x. x = c" b64_alphabet 0 t]
  by (auto simp: b64_index_def b64_alphabet_def)

lemma b64_index_char: "n < 64 \<Longrightarrow> b64_index (b64_char n) = Some n"
proof -
  have "\<forall>n \<in> set [0..<64]. b64_index (b64_char n) = Some n" by code_simp
  then show "n < 64 \<Longrightarrow> ?thesis" by auto
qed

text \<open>The character before the first one outside the alphabet, as numbers.\<close>

definition b64_values :: "string \<Rightarrow> nat list" where
  "b64_values s = map (the \<circ> b64_index) (takeWhile (\<lambda>c. b64_index c \<noteq> None) s)"

definition acc6 :: "u32 \<Rightarrow> nat \<Rightarrow> u32" where
  "acc6 v t = push_bit 6 v + of_nat t"

lemma acc6_window:
  assumes "t < 64"
  shows "unat (acc6 v t) mod 256 = (unat v mod 4) * 64 + t"
    "unat (acc6 v t) mod 1024 = (unat v mod 16) * 64 + t"
    "unat (acc6 v t) mod 4096 = (unat v mod 64) * 64 + t"
    "unat (acc6 v t) mod 64 = t"
  using unat_push_add [of 0 6 t v] unat_push_add [of 2 6 t v] unat_push_add [of 4 6 t v]
    unat_push_add [of 6 6 t v] assms unfolding acc6_def [symmetric] by simp_all

lemma acc6_mod:
  assumes "t < 64"
  shows "unat (acc6 v t) mod 4 = t mod 4" "unat (acc6 v t) mod 16 = t mod 16"
proof -
  have *: "unat (acc6 v t) mod m = t mod m" if "m dvd 64" for m
    using acc6_window(4) [OF assms, of v] mod_mod_cancel [OF that, of "unat (acc6 v t)"] by simp
  show "unat (acc6 v t) mod 4 = t mod 4" "unat (acc6 v t) mod 16 = t mod 16"
    by (simp_all add: *)
qed

lemma emit_byte:
  assumes "n \<le> 24"
  shows "(ucast (signed_drop_bit n (v :: u32) AND 255) :: u8) = of_nat (unat v mod 2 ^ (n + 8) div 2 ^ n)"
proof -
  have "(ucast (signed_drop_bit n v AND 255) :: u8) = of_nat (unat (signed_drop_bit n v AND 255))"
    by simp
  also have "unat (signed_drop_bit n v AND 255) = unat v mod 2 ^ (n + 8) div 2 ^ n mod 256"
    using signed_shift_255 [OF assms, of v] div_mod_window [of n 8 "n + 8" "unat v"] by simp
  also have "unat v mod 2 ^ (n + 8) div 2 ^ n mod 256 = unat v mod 2 ^ (n + 8) div 2 ^ n"
    using less_mult_imp_div_less [of "unat v mod 2 ^ (n + 8)" 256 "2 ^ n"]
    by (simp add: power_add mult.commute)
  finally show ?thesis .
qed

lemma dec_loop_Cons:
  "dec_loop (c # cs) val valb out =
     (case b64_index c of
        None \<Rightarrow> out
      | Some t \<Rightarrow> if 0 \<le> valb + 6
                  then dec_loop cs (acc6 val t) (valb - 2)
                         (out @ [ucast (signed_drop_bit (nat (valb + 6)) (acc6 val t) AND 0xFF)])
                  else dec_loop cs (acc6 val t) (valb + 6) out)"
  by (simp add: acc6_def Let_def split: option.splits)

lemma emit_bytes:
  "(ucast (signed_drop_bit 4 (v :: u32) AND 255) :: u8) = of_nat (unat v mod 4096 div 16)"
  "(ucast (signed_drop_bit 2 v AND 255) :: u8) = of_nat (unat v mod 1024 div 4)"
  "(ucast (acc6 u t AND 255) :: u8) = of_nat (unat (acc6 u t) mod 256)"
  using emit_byte [of 4 v] emit_byte [of 2 v] emit_byte [of 0 "acc6 u t"] by simp_all

lemmas dec_steps = dec_loop_Cons emit_bytes acc6_window acc6_mod window_div b64_index_less

lemma dec_loop_octets:
  "dec_loop s v (- 8) out = out @ map of_nat (octets (b64_values s))"
proof (induction s arbitrary: v out rule: list_induct_block4)
  case 1
  then show ?case by (simp add: b64_values_def)
next
  case (2 a)
  then show ?case
    by (simp add: b64_values_def dec_loop_Cons del: dec_loop.simps(2) split: option.split)
next
  case (3 a b)
  then show ?case
    by (cases "b64_index a"; cases "b64_index b")
      (simp_all add: b64_values_def dec_steps del: dec_loop.simps(2) of_nat_add of_nat_mult)
next
  case (4 a b c)
  then show ?case
    by (cases "b64_index a"; cases "b64_index b"; cases "b64_index c")
      (simp_all add: b64_values_def dec_steps del: dec_loop.simps(2) of_nat_add of_nat_mult)
next
  case (5 a b c d r)
  then show ?case
    by (cases "b64_index a"; cases "b64_index b"; cases "b64_index c"; cases "b64_index d")
      (simp_all add: b64_values_def dec_steps del: dec_loop.simps(2) of_nat_add of_nat_mult)
qed

lemma Base64UrlDecode_octets: "Base64UrlDecode s = map of_nat (octets (b64_values s))"
  using dec_loop_octets [of s 0 "[]"] by (simp add: Base64UrlDecode_def)

lemma b64_values_chars: "list_all (\<lambda>n. n < 64) ts \<Longrightarrow> b64_values (map b64_char ts) = ts"
  by (induction ts) (auto simp: b64_values_def b64_index_char)

text \<open>C18. Decoding what the encoder wrote gives the bytes back, whatever their number: the
  accumulator's overflow is never visible.\<close>

theorem Base64Url_roundtrip: "Base64UrlDecode (Base64UrlEncode data) = data"
proof -
  have "list_all (\<lambda>n. n < 256) (map unat data)" by (simp add: list_all_iff)
  then show ?thesis
    by (simp add: Base64UrlDecode_octets Base64UrlEncode_sextets b64_values_chars sextets_less
        octets_sextets o_def map_idI)
qed

text \<open>The encoder's text is as long as RFC 4648 says, uses only the 64 URL-safe characters
  and needs no JSON escape.\<close>

lemma Base64UrlEncode_text:
  "length (Base64UrlEncode data) = (4 * length data + 2) div 3
   \<and> set (Base64UrlEncode data) \<subseteq> set b64_alphabet"
proof -
  have "list_all (\<lambda>n. n < 64) (sextets (map unat data))"
    by (intro sextets_less) (simp add: list_all_iff)
  then have "set (map b64_char (sextets (map unat data))) \<subseteq> set b64_alphabet"
    by (auto simp: list_all_iff b64_char_in)
  then show ?thesis by (simp add: Base64UrlEncode_sextets length_sextets)
qed

text \<open>The decoder stops at the first character outside the alphabet and ignores the rest.\<close>

lemma takeWhile_stop: "\<not> P c \<Longrightarrow> takeWhile P (s @ c # r) = takeWhile P s"
  by (induction s) auto

lemma Base64UrlDecode_prefix:
  "b64_index c = None \<Longrightarrow> Base64UrlDecode (s @ c # r) = Base64UrlDecode s"
  by (simp add: Base64UrlDecode_octets b64_values_def takeWhile_stop)

end
