(* ===== verification/LossyQueue.thy ===== *)
theory LossyQueue
  imports Prelude
begin

text \<open>
  The contract of a queue that may drop events to stay short: what is left keeps its order, and
  the events of a chosen kind are never dropped.  \<open>queue_run\<close> runs a queue through a sequence of
  insertions and removals; the locale's lemmas say what a consumer is left with.
\<close>

datatype 't queue_event = Put 't | Take

fun queue_run :: "('t \<Rightarrow> 't list \<Rightarrow> 't list) \<Rightarrow> 't queue_event list \<Rightarrow> 't list \<times> 't list \<Rightarrow> 't list \<times> 't list" where
  "queue_run enq [] s = s"
| "queue_run enq (Put t # es) (taken, q) = queue_run enq es (taken, enq t q)"
| "queue_run enq (Take # es) (taken, q) =
     queue_run enq es (case q of [] \<Rightarrow> (taken, q) | t # ts \<Rightarrow> (taken @ [t], ts))"

fun puts :: "'t queue_event list \<Rightarrow> 't list" where
  "puts [] = []"
| "puts (Put t # es) = t # puts es"
| "puts (Take # es) = puts es"

lemma queue_run_append: "queue_run enq (es @ fs) s = queue_run enq fs (queue_run enq es s)"
  by (induction enq es s rule: queue_run.induct) simp_all

lemma puts_append [simp]: "puts (es @ fs) = puts es @ puts fs"
  by (induction es rule: puts.induct) simp_all

locale lossy_queue =
  fixes enq :: "'t \<Rightarrow> 't list \<Rightarrow> 't list"
    and keep :: "'t \<Rightarrow> bool"
  assumes enq_order: "subseq (enq t q) (q @ [t])"
    and enq_keeps: "filter keep (enq t q) = filter keep (q @ [t])"
    and enq_last: "enq t q \<noteq> [] \<and> last (enq t q) = t"
begin

lemma run_order: "queue_run enq es (taken, q) = (taken', q') \<Longrightarrow> subseq (taken' @ q') (taken @ q @ puts es)"
proof (induction es arbitrary: taken q)
  case (Cons e es)
  show ?case
  proof (cases e)
    case (Put t)
    with Cons.prems have "queue_run enq es (taken, enq t q) = (taken', q')" by simp
    from Cons.IH [OF this] have "subseq (taken' @ q') (taken @ enq t q @ puts es)" .
    moreover have "subseq (taken @ enq t q @ puts es) (taken @ (q @ [t]) @ puts es)"
      using list_emb_append_mono [OF enq_order subseq_order.refl, of t q "puts es"]
      by (simp only: append_assoc subseq_append')
    ultimately show ?thesis using Put by (auto intro: subseq_order.trans)
  next
    case Take
    with Cons.prems Cons.IH [of taken q] Cons.IH [of "taken @ [hd q]" "tl q"] show ?thesis
      by (cases q) simp_all
  qed
qed simp

lemma run_keeps:
  "queue_run enq es (taken, q) = (taken', q') \<Longrightarrow>
     filter keep (taken' @ q') = filter keep (taken @ q @ puts es)"
proof (induction es arbitrary: taken q)
  case (Cons e es)
  show ?case
  proof (cases e)
    case (Put t)
    with Cons.prems Cons.IH [of taken "enq t q"] show ?thesis by (simp add: enq_keeps)
  next
    case Take
    with Cons.prems Cons.IH [of taken q] Cons.IH [of "taken @ [hd q]" "tl q"] show ?thesis
      by (cases q) simp_all
  qed
qed simp

lemma run_last: "queue_run enq (es @ [Put t]) (taken, q) = (taken', q') \<Longrightarrow> q' \<noteq> [] \<and> last q' = t"
  by (cases "queue_run enq es (taken, q)") (auto simp: queue_run_append enq_last)

text \<open>Taken one after another, the queued events reach the consumer in their order.\<close>

lemma run_drains: "queue_run enq (replicate (length q) Take) (taken, q) = (taken @ q, [])"
  by (induction q arbitrary: taken) simp_all

end

end
