(* ===== verification/InputQueue.thy ===== *)
theory InputQueue
  imports LossyQueue
begin

text \<open>
  The queue of remote input of \<open>runner/input_block.cpp\<close>: the tasks the exports build, and
  \<open>EnqueueNativeInput\<close>, which merges mouse moves and makes room when 512 tasks wait.
\<close>

subsection \<open>Tasks\<close>

datatype input_kind = kUnicode | kVk | kMouse | kSas

record NativeInputTask =
  t_kind :: input_kind
  t_ch :: wchar
  t_vk :: u16
  t_is_down :: bool
  t_abs_x :: int
  t_abs_y :: int
  t_norm_vx :: int
  t_norm_vy :: int
  t_mouse_flags :: u32
  t_mouse_data :: u32

definition task_init :: "input_kind \<Rightarrow> NativeInputTask" where
  "task_init k = \<lparr>t_kind = k, t_ch = 0, t_vk = 0, t_is_down = False, t_abs_x = 0, t_abs_y = 0,
     t_norm_vx = 0, t_norm_vy = 0, t_mouse_flags = 0, t_mouse_data = 0\<rparr>"

definition unicode_task :: "wchar \<Rightarrow> bool \<Rightarrow> NativeInputTask" where
  "unicode_task ch down = (task_init kUnicode)\<lparr>t_ch := ch, t_is_down := down\<rparr>"

definition vk_task :: "u16 \<Rightarrow> bool \<Rightarrow> NativeInputTask" where
  "vk_task vk down = (task_init kVk)\<lparr>t_vk := vk, t_is_down := down\<rparr>"

definition mouse_task :: "int \<Rightarrow> int \<Rightarrow> int \<Rightarrow> int \<Rightarrow> u32 \<Rightarrow> u32 \<Rightarrow> NativeInputTask" where
  "mouse_task abs_x abs_y norm_vx norm_vy flags mouse_data =
     (task_init kMouse)\<lparr>t_abs_x := abs_x, t_abs_y := abs_y, t_norm_vx := norm_vx, t_norm_vy := norm_vy,
       t_mouse_flags := flags, t_mouse_data := mouse_data\<rparr>"

text \<open>\<open>MOUSEEVENTF_MOVE | MOUSEEVENTF_ABSOLUTE | MOUSEEVENTF_VIRTUALDESK\<close>, and the flags of a
  released button.\<close>

definition move_flags :: u32 where "move_flags = 0xC001"
definition release_flags :: u32 where "release_flags = 0x0004 OR 0x0010 OR 0x0040 OR 0x0100"

definition is_move :: "NativeInputTask \<Rightarrow> bool" where
  "is_move t \<longleftrightarrow> t_kind t = kMouse \<and> t_mouse_flags t = move_flags"

definition is_key_up :: "NativeInputTask \<Rightarrow> bool" where
  "is_key_up t \<longleftrightarrow> (t_kind t = kVk \<or> t_kind t = kUnicode) \<and> \<not> t_is_down t"

definition is_mouse_up :: "NativeInputTask \<Rightarrow> bool" where
  "is_mouse_up t \<longleftrightarrow> t_kind t = kMouse \<and> t_mouse_flags t AND release_flags \<noteq> 0"

definition is_release :: "NativeInputTask \<Rightarrow> bool" where
  "is_release t \<longleftrightarrow> is_key_up t \<or> is_mouse_up t"

subsection \<open>The queue\<close>

definition queue_limit :: nat where "queue_limit = 512"

text \<open>One erasing loop; \<open>n\<close> is the size of the whole queue.\<close>

fun evict :: "(NativeInputTask \<Rightarrow> bool) \<Rightarrow> nat \<Rightarrow> NativeInputTask list \<Rightarrow> NativeInputTask list" where
  "evict P n [] = []"
| "evict P n (t # ts) =
     (if n < queue_limit then t # ts else if P t then evict P (n - 1) ts else t # evict P n ts)"

definition make_room :: "NativeInputTask list \<Rightarrow> NativeInputTask list" where
  "make_room q =
     (if length q < queue_limit then q
      else let q1 = evict is_move (length q) q
           in if length q1 < queue_limit then q1 else evict (\<lambda>t. \<not> is_release t) (length q1) q1)"

definition merges :: "NativeInputTask \<Rightarrow> NativeInputTask list \<Rightarrow> bool" where
  "merges t q \<longleftrightarrow> is_move t \<and> q \<noteq> [] \<and> t_kind (last q) = kMouse \<and> t_mouse_flags (last q) = t_mouse_flags t"

definition EnqueueNativeInput :: "NativeInputTask \<Rightarrow> NativeInputTask list \<Rightarrow> NativeInputTask list" where
  "EnqueueNativeInput t q = (if merges t q then butlast q @ [t] else make_room q @ [t])"

subsection \<open>Facts\<close>

lemma is_move_not_release [simp]: "is_move t \<Longrightarrow> \<not> is_release t"
  by (auto simp: is_move_def is_release_def is_key_up_def is_mouse_up_def move_flags_def release_flags_def)

lemma subseq_evict: "subseq (evict P n q) q"
  by (induction P n q rule: evict.induct) auto

lemma evict_keeps: "(\<And>t. P t \<Longrightarrow> \<not> R t) \<Longrightarrow> filter R (evict P n q) = filter R q"
  by (induction P n q rule: evict.induct) auto

lemma evict_length:
  "length q \<le> n \<Longrightarrow>
   length (evict P n q) + (n - length q) =
     (if n < queue_limit then n else max (queue_limit - 1) (n - length (filter P q)))"
proof (induction P n q rule: evict.induct)
  case (2 P n t ts)
  have c: "length (filter P ts) \<le> length ts" by simp
  show ?case
  proof (cases "n < queue_limit")
    case False
    show ?thesis
    proof (cases "P t")
      case True
      with 2 False c show ?thesis by (cases "n - 1 < queue_limit") (auto simp: queue_limit_def)
    next
      case no: False
      with 2 False c show ?thesis by (auto simp: queue_limit_def)
    qed
  qed (use 2 in auto)
qed (auto simp: queue_limit_def)

lemma make_room_order: "subseq (make_room q) q"
  unfolding make_room_def Let_def
  by (auto intro: subseq_evict subseq_order.trans [OF subseq_evict subseq_evict])

lemma make_room_keeps: "filter is_release (make_room q) = filter is_release q"
  by (simp add: make_room_def Let_def evict_keeps)

lemma make_room_length: "length (make_room q) \<le> max (queue_limit - 1) (length (filter is_release q))"
proof (cases "length q < queue_limit")
  case False
  define q1 where "q1 = evict is_move (length q) q"
  have f: "filter is_release q1 = filter is_release q" by (simp add: q1_def evict_keeps)
  have n: "length q1 - length (filter (\<lambda>t. \<not> is_release t) q1) = length (filter is_release q1)"
    using sum_length_filter_compl [of is_release q1] by simp
  from False show ?thesis
    using evict_length [of q1 "length q1" "\<lambda>t. \<not> is_release t"] n f
    by (auto simp: make_room_def Let_def q1_def [symmetric])
qed (auto simp: make_room_def)

lemma enqueue_order: "subseq (EnqueueNativeInput t q) (q @ [t])"
proof -
  have "subseq (butlast q) q" by (cases q rule: rev_cases) auto
  moreover note make_room_order [of q]
  ultimately have "subseq (butlast q @ [t]) (q @ [t])" "subseq (make_room q @ [t]) (q @ [t])"
    by (auto intro: list_emb_append_mono)
  then show ?thesis by (simp add: EnqueueNativeInput_def)
qed

lemma enqueue_keeps: "filter is_release (EnqueueNativeInput t q) = filter is_release (q @ [t])"
proof (cases "merges t q")
  case True
  then have "is_move (last q)" and q: "q = butlast q @ [last q]"
    by (simp_all add: merges_def is_move_def)
  from this(1) have "filter is_release q = filter is_release (butlast q)"
    by (subst q) (simp del: append_butlast_last_id)
  with True show ?thesis by (simp add: EnqueueNativeInput_def)
qed (simp add: EnqueueNativeInput_def make_room_keeps)

lemma enqueue_last: "EnqueueNativeInput t q \<noteq> [] \<and> last (EnqueueNativeInput t q) = t"
  by (simp add: EnqueueNativeInput_def)

interpretation input: lossy_queue EnqueueNativeInput is_release
  by unfold_locales (use enqueue_order enqueue_keeps enqueue_last in auto)

text \<open>The bound: 512 tasks, or one more than the releases that wait.\<close>

definition queue_ok :: "NativeInputTask list \<Rightarrow> bool" where
  "queue_ok q \<longleftrightarrow> length q \<le> max queue_limit (Suc (length (filter is_release q)))"

lemma queue_ok_enqueue: "queue_ok q \<Longrightarrow> queue_ok (EnqueueNativeInput t q)"
proof (cases "merges t q")
  case True
  assume "queue_ok q"
  moreover have "length (filter is_release (EnqueueNativeInput t q)) = length (filter is_release q) + (if is_release t then 1 else 0)"
    by (simp add: enqueue_keeps)
  ultimately show ?thesis using True
    by (cases q rule: rev_cases) (auto simp: queue_ok_def EnqueueNativeInput_def)
next
  case False
  have "length (filter is_release (make_room q)) = length (filter is_release q)" by (simp add: make_room_keeps)
  with False make_room_length [of q] show ?thesis
    by (auto simp: queue_ok_def EnqueueNativeInput_def queue_limit_def)
qed

lemma queue_ok_tl: "queue_ok (t # q) \<Longrightarrow> queue_ok q"
  by (auto simp: queue_ok_def queue_limit_def split: if_splits)

lemma queue_run_ok: "queue_ok q \<Longrightarrow> queue_ok (snd (queue_run EnqueueNativeInput es (taken, q)))"
proof (induction es arbitrary: taken q)
  case (Cons e es)
  then show ?case
    by (cases e; cases q) (auto intro: queue_ok_enqueue queue_ok_tl)
qed simp

lemma make_room_short [simp]: "length q < queue_limit \<Longrightarrow> make_room q = q"
  by (simp add: make_room_def)

lemma make_room_releases: "list_all is_release q \<Longrightarrow> make_room q = q"
proof -
  assume r: "list_all is_release q"
  then have "filter is_release q = q" by (simp add: filter_id_conv list_all_iff)
  with make_room_keeps [of q] have "length q \<le> length (make_room q)"
    by (metis length_filter_le)
  with make_room_order [of q] show ?thesis
    by (metis list_emb_length order_antisym subseq_same_length)
qed

subsection \<open>What the worker is left with\<close>

text \<open>C25. Whatever the exports queue and the worker takes, in whatever order, the input keeps its
  order, and no released key and no released mouse button is ever dropped: the viewer's releases
  reach the worker one for one, so that no key and no button stays pressed.\<close>

theorem remote_input_order:
  assumes "queue_run EnqueueNativeInput es ([], []) = (taken, q)"
  shows "subseq (taken @ q) (puts es) \<and> filter is_release (taken @ q) = filter is_release (puts es)"
  using input.run_order [OF assms] input.run_keeps [OF assms] by simp

definition demo_input :: "NativeInputTask queue_event list" where
  "demo_input = [Put (vk_task 65 True), Put (mouse_task 1 1 1 1 move_flags 0), Take,
     Put (mouse_task 2 2 2 2 move_flags 0), Put (vk_task 65 False)]"

theorem remote_input_order_witness:
  "filter is_release ([vk_task 65 True] @ [mouse_task 2 2 2 2 move_flags 0, vk_task 65 False])
     = filter is_release (puts demo_input)"
proof -
  have "queue_run EnqueueNativeInput demo_input ([], [])
      = ([vk_task 65 True], [mouse_task 2 2 2 2 move_flags 0, vk_task 65 False])"
    by (simp add: demo_input_def EnqueueNativeInput_def merges_def is_move_def vk_task_def mouse_task_def
        task_init_def queue_limit_def)
  from remote_input_order [OF this] show ?thesis by simp
qed

text \<open>The queue holds at most 512 tasks, or one more than the releases that wait in it; and
  since releases are never dropped, that second bound is reached: with the worker stalled, any
  number of released keys is kept, past the limit.\<close>

lemma input_queue_bounds:
  "length (snd (queue_run EnqueueNativeInput es ([], [])))
     \<le> max 512 (Suc (length (filter is_release (snd (queue_run EnqueueNativeInput es ([], []))))))
   \<and> length (snd (queue_run EnqueueNativeInput (replicate n (Put (vk_task 65 False))) ([], []))) = n"
proof
  show "length (snd (queue_run EnqueueNativeInput es ([], [])))
     \<le> max 512 (Suc (length (filter is_release (snd (queue_run EnqueueNativeInput es ([], []))))))"
    using queue_run_ok [of "[]" es "[]"] by (simp add: queue_ok_def queue_limit_def)
  have r: "is_release (vk_task 65 False)" by (simp add: is_release_def is_key_up_def vk_task_def task_init_def)
  have m: "\<not> merges (vk_task 65 False) q" for q by (simp add: merges_def is_move_def vk_task_def task_init_def)
  have "queue_run EnqueueNativeInput (replicate n (Put (vk_task 65 False))) ([], q) = ([], q @ replicate n (vk_task 65 False))"
    if "list_all is_release q" for q
    using that
  proof (induction n arbitrary: q)
    case (Suc n)
    then show ?case using r m by (simp add: EnqueueNativeInput_def make_room_releases)
  qed simp
  from this [of "[]"] show "length (snd (queue_run EnqueueNativeInput (replicate n (Put (vk_task 65 False))) ([], []))) = n"
    by simp
qed

end
