(* ===== verification/InputWorker.thy ===== *)
theory InputWorker
  imports InputQueue Std_Strings
begin

text \<open>
  The input thread of \<open>runner/input_block.cpp\<close>: \<open>DesktopInputWorkerLoop\<close> follows the desktop
  that receives input and injects the queued tasks into it, except into the secure desktop of an
  interactive session.

  Desktop handles are kept in a table: the handles that are open, the desktop each stands for, and
  the handle the thread is attached to, which \<open>CloseDesktop\<close> refuses to close.  What the system
  answers during one iteration (which desktops open, which receives input, whether an injection
  is taken) is an argument of the iteration.  An iteration is one step; the exports, which other
  threads call, are the other steps.
\<close>

subsection \<open>Desktops\<close>

record desktop_env =
  de_input :: "wstr option" \<comment> \<open>the desktop \<open>OpenInputDesktop\<close> opens\<close>
  de_openable :: "wstr \<Rightarrow> bool"
  de_receives :: "wstr \<Rightarrow> bool"
  de_named :: "wstr \<Rightarrow> bool" \<comment> \<open>the query of the name succeeds\<close>
  de_attachable :: "wstr \<Rightarrow> bool"
  de_winsta :: bool \<comment> \<open>\<open>winsta0\<close> opens\<close>

record desktops =
  d_open :: "nat \<rightharpoonup> wstr"
  d_next :: nat
  d_thread :: "nat option"

definition desktops_init :: desktops where
  "desktops_init = \<lparr>d_open = Map.empty, d_next = 0, d_thread = None\<rparr>"

definition open_desktop :: "wstr \<Rightarrow> desktops \<Rightarrow> nat \<times> desktops" where
  "open_desktop n d = (d_next d, d\<lparr>d_open := (d_open d)(d_next d \<mapsto> n), d_next := Suc (d_next d)\<rparr>)"

definition CloseDesktop :: "nat \<Rightarrow> desktops \<Rightarrow> desktops" where
  "CloseDesktop h d = (if d_thread d = Some h then d else d\<lparr>d_open := (d_open d)(h := None)\<rparr>)"

definition SetThreadDesktop :: "desktop_env \<Rightarrow> nat \<Rightarrow> desktops \<Rightarrow> desktops \<times> bool" where
  "SetThreadDesktop e h d = (case d_open d h of
     Some n \<Rightarrow> if de_attachable e n then (d\<lparr>d_thread := Some h\<rparr>, True) else (d, False)
   | None \<Rightarrow> (d, False))"

definition IsSecureDesktop :: "wstr \<Rightarrow> bool" where
  "IsSecureDesktop name \<longleftrightarrow>
     name \<noteq> [] \<and> (wcsieq name (wide ''Winlogon'') \<or> wcsieq name (wide ''Screen-saver''))"

definition QueryDesktopName :: "desktop_env \<Rightarrow> desktops \<Rightarrow> nat option \<Rightarrow> wstr" where
  "QueryDesktopName e d desk = (case Option.bind desk (d_open d) of
     Some n \<Rightarrow> if de_named e n then n else [] | None \<Rightarrow> [])"

definition IsDesktopReceivingInput :: "desktop_env \<Rightarrow> desktops \<Rightarrow> nat option \<Rightarrow> bool" where
  "IsDesktopReceivingInput e d desk = (case Option.bind desk (d_open d) of
     Some n \<Rightarrow> de_receives e n | None \<Rightarrow> False)"

definition desktop_candidates :: "wstr list" where
  "desktop_candidates = [wide ''Default'', wide ''Winlogon'', wide ''Screen-saver'']"

fun try_candidates :: "desktop_env \<Rightarrow> wstr list \<Rightarrow> nat option \<Rightarrow> desktops \<Rightarrow> nat option \<times> desktops" where
  "try_candidates e [] fallback d = (fallback, d)"
| "try_candidates e (n # ns) fallback d =
     (if \<not> de_openable e n then try_candidates e ns fallback d
      else case open_desktop n d of (h, d1) \<Rightarrow>
        if IsDesktopReceivingInput e d1 (Some h)
        then (Some h, case fallback of Some f \<Rightarrow> if f \<noteq> h then CloseDesktop f d1 else d1 | None \<Rightarrow> d1)
        else if fallback = None \<and> n = wide ''Default'' then try_candidates e ns (Some h) d1
        else try_candidates e ns fallback (CloseDesktop h d1))"

definition FindActiveInputDesktop :: "desktop_env \<Rightarrow> desktops \<Rightarrow> nat option \<times> desktops" where
  "FindActiveInputDesktop e d = (case de_input e of
     Some n \<Rightarrow> (case open_desktop n d of (h, d1) \<Rightarrow>
       if IsDesktopReceivingInput e d1 (Some h) then (Some h, d1)
       else try_candidates e desktop_candidates (Some h) d1)
   | None \<Rightarrow> try_candidates e desktop_candidates None d)"

subsection \<open>The state\<close>

record input_state =
  g_input_queue :: "NativeInputTask list"
  g_input_worker_started :: bool
  g_keep_awake :: bool
  g_desktop_changed :: bool
  g_system_console_allowed :: bool
  g_last_desktop_name :: wstr
  g_winsta0 :: bool
  i_desktops :: desktops
  active_desk :: "nat option"
  last_awake_tick :: int \<comment> \<open>milliseconds\<close>
  last_desktop_check :: int
  i_sas_policy :: "(u32 \<times> bytes) option" \<comment> \<open>the value \<open>SoftwareSASGeneration\<close>: type and data\<close>

definition input_init :: "int \<Rightarrow> (u32 \<times> bytes) option \<Rightarrow> input_state" where
  "input_init now policy = \<lparr>g_input_queue = [], g_input_worker_started = False, g_keep_awake = False,
     g_desktop_changed = False, g_system_console_allowed = False, g_last_desktop_name = [],
     g_winsta0 = False, i_desktops = desktops_init, active_desk = None,
     last_awake_tick = now - 30000, last_desktop_check = now - 250, i_sas_policy = policy\<rparr>"

definition EnsureProcessWindowStation :: "desktop_env \<Rightarrow> input_state \<Rightarrow> input_state" where
  "EnsureProcessWindowStation e s = (if \<not> g_winsta0 s then s\<lparr>g_winsta0 := de_winsta e\<rparr> else s)"

definition AttachCurrentInputDesktop :: "desktop_env \<Rightarrow> input_state \<Rightarrow> input_state" where
  "AttachCurrentInputDesktop e s0 =
     (if IsDesktopReceivingInput e (i_desktops s0) (active_desk s0) then s0
      else
        let s = EnsureProcessWindowStation e s0
        in case FindActiveInputDesktop e (i_desktops s) of
          (None, d) \<Rightarrow> s\<lparr>i_desktops := d\<rparr>
        | (Some target, d) \<Rightarrow>
            (let name = QueryDesktopName e d (Some target);
                 changed = (name \<noteq> [] \<and> name \<noteq> g_last_desktop_name s)
             in case SetThreadDesktop e target d of
                  (d1, True) \<Rightarrow>
                    s\<lparr>i_desktops := (case active_desk s of Some old \<Rightarrow> CloseDesktop old d1 | None \<Rightarrow> d1),
                      active_desk := Some target,
                      g_desktop_changed := (changed \<and> g_last_desktop_name s \<noteq> [] \<or> g_desktop_changed s),
                      g_last_desktop_name := (if changed then name else g_last_desktop_name s)\<rparr>
                | (d1, False) \<Rightarrow> s\<lparr>i_desktops := CloseDesktop target d1\<rparr>))"

subsection \<open>Injection\<close>

text \<open>An event the system is asked to inject: virtual key, scan code and flags, or mouse data.  It
  is sent by \<open>SendInput\<close>, by the older call when \<open>SendInput\<close> takes nothing, or not at all.\<close>

datatype injected =
    KeyInput u16 u16 u32
  | MouseInput int int u32 u32
  | SecureAttention "(u32 \<times> bytes) option"

datatype injection = Sent injected | Legacy injected | Lost injected | Awake

record inject_env =
  ie_scan :: "u16 \<Rightarrow> u16"
  ie_sends :: "injected \<Rightarrow> bool"
  ie_pressed :: "u16 \<Rightarrow> bool"
  ie_policyKey :: bool
  ie_sasDll :: bool

definition KEYEVENTF_EXTENDEDKEY :: u32 where "KEYEVENTF_EXTENDEDKEY = 1"
definition KEYEVENTF_KEYUP :: u32 where "KEYEVENTF_KEYUP = 2"
definition KEYEVENTF_UNICODE :: u32 where "KEYEVENTF_UNICODE = 4"

definition try_send :: "inject_env \<Rightarrow> injected \<Rightarrow> injected option \<Rightarrow> injection" where
  "try_send ie i legacy =
     (if ie_sends ie i then Sent i else case legacy of None \<Rightarrow> Lost i | Some l \<Rightarrow> Legacy l)"

definition modifier_keys :: "u16 list" where
  "modifier_keys = [0xA2, 0xA3, 0x11, 0xA4, 0xA5, 0x12, 0xA0, 0xA1, 0x10, 0x5B, 0x5C]"

definition ReleaseModifierKeys :: "inject_env \<Rightarrow> injection list" where
  "ReleaseModifierKeys ie =
     map (\<lambda>vk. try_send ie (KeyInput vk (ie_scan ie vk) KEYEVENTF_KEYUP) None) (filter (ie_pressed ie) modifier_keys)"

definition is_extended :: "u16 \<Rightarrow> bool" where
  "is_extended vk \<longleftrightarrow> vk \<in> {0xA3, 0xA5, 0x2D, 0x2E, 0x24, 0x23, 0x21, 0x22} \<or> 0x25 \<le> vk \<and> vk \<le> 0x28"

definition ExecuteSendVk :: "inject_env \<Rightarrow> u16 \<Rightarrow> bool \<Rightarrow> injection" where
  "ExecuteSendVk ie vk down =
     (let flags = (if down then 0 else KEYEVENTF_KEYUP) OR (if is_extended vk then KEYEVENTF_EXTENDEDKEY else 0);
          scan = ie_scan ie vk
      in try_send ie (KeyInput vk scan flags) (Some (KeyInput (vk AND 0xFF) (scan AND 0xFF) flags)))"

definition ExecuteSendUnicode :: "inject_env \<Rightarrow> wchar \<Rightarrow> bool \<Rightarrow> injection" where
  "ExecuteSendUnicode ie ch down =
     try_send ie (KeyInput 0 ch (KEYEVENTF_UNICODE OR (if down then 0 else KEYEVENTF_KEYUP))) None"

definition ExecuteSendMouse :: "inject_env \<Rightarrow> NativeInputTask \<Rightarrow> injection" where
  "ExecuteSendMouse ie t =
     (let i = MouseInput (t_norm_vx t) (t_norm_vy t) (t_mouse_flags t) (t_mouse_data t) in try_send ie i (Some i))"

text \<open>The policy value is set to the \<open>REG_DWORD\<close> 3 for the call and put back: only a value the
  four-byte query could read is known afterwards, padded to four bytes.\<close>

definition REG_DWORD :: u32 where "REG_DWORD = 4"

definition pad4 :: "bytes \<Rightarrow> bytes" where
  "pad4 data = take 4 (data @ [0, 0, 0, 0])"

definition restored_policy :: "(u32 \<times> bytes) option \<Rightarrow> (u32 \<times> bytes) option" where
  "restored_policy policy = (case policy of
     Some (ty, data) \<Rightarrow> if length data \<le> 4 then Some (ty, pad4 data) else None
   | None \<Rightarrow> None)"

definition ExecuteSendSas ::
    "inject_env \<Rightarrow> (u32 \<times> bytes) option \<Rightarrow> (u32 \<times> bytes) option \<times> injection list" where
  "ExecuteSendSas ie policy =
     (let during = (if ie_policyKey ie then Some (REG_DWORD, [3, 0, 0, 0]) else policy);
          outs = (if ie_sasDll ie then [Sent (SecureAttention during)] else [])
      in (if ie_policyKey ie then restored_policy policy else policy, outs))"

subsection \<open>The loop\<close>

record iteration_env =
  it_now :: int
  it_desktop :: desktop_env
  it_inject :: inject_env

definition pop_task :: "input_state \<Rightarrow> NativeInputTask option \<times> input_state" where
  "pop_task s = (case g_input_queue s of
     [] \<Rightarrow> (None, s) | t # ts \<Rightarrow> (Some t, s\<lparr>g_input_queue := ts\<rparr>))"

definition follow_desktop :: "iteration_env \<Rightarrow> input_state \<Rightarrow> input_state" where
  "follow_desktop e s =
     (if it_now e - last_desktop_check s \<ge> 250
      then AttachCurrentInputDesktop (it_desktop e)
             (s\<lparr>last_desktop_check := it_now e\<rparr>)
      else s)"

definition stay_awake :: "iteration_env \<Rightarrow> input_state \<Rightarrow> injection list \<times> input_state" where
  "stay_awake e s =
     (if g_keep_awake s \<and> it_now e - last_awake_tick s \<ge> 15000
      then ([Awake, try_send (it_inject e) (MouseInput 0 0 1 0) None], s\<lparr>last_awake_tick := it_now e\<rparr>)
      else ([], s))"

definition execute_task :: "iteration_env \<Rightarrow> NativeInputTask \<Rightarrow> input_state \<Rightarrow> injection list \<times> input_state" where
  "execute_task e t s =
     (let ie = it_inject e
      in if IsSecureDesktop (g_last_desktop_name s) \<and> \<not> g_system_console_allowed s
         then (ReleaseModifierKeys ie, s)
         else case t_kind t of
           kUnicode \<Rightarrow> ([ExecuteSendUnicode ie (t_ch t) (t_is_down t)], s)
         | kVk \<Rightarrow> ([ExecuteSendVk ie (t_vk t) (t_is_down t)], s)
         | kMouse \<Rightarrow> ([ExecuteSendMouse ie t], s)
         | kSas \<Rightarrow> if g_system_console_allowed s
                   then (case ExecuteSendSas ie (i_sas_policy s) of (p, outs) \<Rightarrow> (outs, s\<lparr>i_sas_policy := p\<rparr>))
                   else ([], s))"

definition DesktopInputWorkerLoop :: "iteration_env \<Rightarrow> input_state \<Rightarrow> injection list \<times> input_state" where
  "DesktopInputWorkerLoop e s =
     (let (task, s1) = pop_task s;
          (outs, s2) = stay_awake e (follow_desktop e s1)
      in case task of
           None \<Rightarrow> (outs, s2)
         | Some t \<Rightarrow> (case execute_task e t s2 of (outs2, s3) \<Rightarrow> (outs @ outs2, s3)))"

subsection \<open>The exports\<close>

definition ligament_enqueue :: "NativeInputTask \<Rightarrow> input_state \<Rightarrow> input_state" where
  "ligament_enqueue t s =
     s\<lparr>g_input_worker_started := True, g_input_queue := EnqueueNativeInput t (g_input_queue s)\<rparr>"

definition ligament_send_unicode_char :: "wchar \<Rightarrow> bool \<Rightarrow> input_state \<Rightarrow> input_state" where
  "ligament_send_unicode_char ch down = ligament_enqueue (unicode_task ch down)"

definition ligament_send_vk :: "u16 \<Rightarrow> bool \<Rightarrow> input_state \<Rightarrow> input_state" where
  "ligament_send_vk vk down = ligament_enqueue (vk_task vk down)"

definition ligament_send_mouse :: "int \<Rightarrow> int \<Rightarrow> int \<Rightarrow> int \<Rightarrow> u32 \<Rightarrow> u32 \<Rightarrow> input_state \<Rightarrow> input_state" where
  "ligament_send_mouse ax ay vx vy flags dat = ligament_enqueue (mouse_task ax ay vx vy flags dat)"

definition ligament_send_sas :: "input_state \<Rightarrow> input_state" where
  "ligament_send_sas = ligament_enqueue (task_init kSas)"

definition ligament_set_keep_awake :: "bool \<Rightarrow> input_state \<Rightarrow> input_state" where
  "ligament_set_keep_awake active s = s\<lparr>g_keep_awake := active, g_input_worker_started := True\<rparr>"

definition ligament_set_desktop_scope :: "string option \<Rightarrow> input_state \<Rightarrow> input_state" where
  "ligament_set_desktop_scope scope s = s\<lparr>g_system_console_allowed := (scope = Some ''system_console'')\<rparr>"

definition ligament_consume_desktop_changed :: "input_state \<Rightarrow> int \<times> input_state" where
  "ligament_consume_desktop_changed s =
     (if g_desktop_changed s then 1 else 0, s\<lparr>g_desktop_changed := False\<rparr>)"

end
