(* ===== verification/InputSafety.thy ===== *)
theory InputSafety
  imports InputWorker
begin

text \<open>
  The invariant of the input thread and the properties of the whole: no handle of a desktop is
  leaked, the name the guard tests is the name of the desktop the thread injects into, and so
  nothing of an interactive session reaches the secure desktop.
\<close>

subsection \<open>Handles\<close>

text \<open>Besides the handles \<open>A\<close> that were open before, only \<open>f\<close> is.\<close>

definition tracked :: "nat set \<Rightarrow> nat option \<Rightarrow> desktops \<Rightarrow> bool" where
  "tracked A f d \<longleftrightarrow> (\<forall>h. d_open d h \<noteq> None \<longleftrightarrow> h \<in> A \<or> f = Some h)
     \<and> (\<forall>h. h \<in> A \<longrightarrow> f \<noteq> Some h) \<and> (\<forall>h. h \<in> A \<or> f = Some h \<longrightarrow> h < d_next d)
     \<and> (\<forall>h. d_thread d = Some h \<longrightarrow> h \<in> A)"

definition same_names :: "nat set \<Rightarrow> desktops \<Rightarrow> desktops \<Rightarrow> bool" where
  "same_names A d d' \<longleftrightarrow> d_open d' |` A = d_open d |` A \<and> d_thread d' = d_thread d"

lemma same_names_refl [simp]: "same_names A d d"
  by (simp add: same_names_def)

lemma same_names_trans: "same_names A d d' \<Longrightarrow> same_names A d' d'' \<Longrightarrow> same_names A d d''"
  by (simp add: same_names_def)

lemma open_desktop_tracked:
  assumes "tracked A f d" "open_desktop n d = (h, d1)"
  shows "tracked (A \<union> set_option f) (Some h) d1 \<and> same_names (A \<union> set_option f) d d1 \<and> d_open d1 h = Some n"
  using assms by (fastforce simp: tracked_def open_desktop_def same_names_def restrict_map_def fun_eq_iff less_Suc_eq)

lemma close_desktop_tracked:
  "tracked A (Some h) d \<Longrightarrow> tracked A None (CloseDesktop h d) \<and> same_names A d (CloseDesktop h d)"
  by (auto simp: tracked_def CloseDesktop_def same_names_def restrict_map_def fun_eq_iff)

lemma tracked_shift: "tracked A f d \<Longrightarrow> set_option (d_thread d) \<subseteq> A \<Longrightarrow> tracked (A \<union> set_option f) None d"
  by (auto simp: tracked_def)

lemma tracked_fallback:
  assumes "tracked A (Some f) d" "open_desktop n d = (h, d1)"
  shows "tracked A (Some h) (CloseDesktop f d1) \<and> same_names A d (CloseDesktop f d1) \<and> f \<noteq> h"
  using assms
  by (fastforce simp: tracked_def open_desktop_def CloseDesktop_def same_names_def restrict_map_def fun_eq_iff less_Suc_eq)

lemma try_candidates_tracked:
  "try_candidates e ns f d = (r, d') \<Longrightarrow> tracked A f d \<Longrightarrow> tracked A r d' \<and> same_names A d d'"
proof (induction e ns f d arbitrary: r d' rule: try_candidates.induct)
  case (2 e n ns f d)
  show ?case
  proof (cases "de_openable e n")
    case False
    with 2 show ?thesis by simp
  next
    case opens: True
    obtain h d1 where o: "open_desktop n d = (h, d1)" by fastforce
    note t = open_desktop_tracked [OF 2(5) o]
    show ?thesis
    proof (cases "IsDesktopReceivingInput e d1 (Some h)")
      case True
      with 2(4) opens o have "r = Some h" "d' = (case f of Some f \<Rightarrow> if f \<noteq> h then CloseDesktop f d1 else d1 | None \<Rightarrow> d1)"
        by simp_all
      with t tracked_fallback 2(5) o show ?thesis by (cases f) fastforce+
    next
      case idle: False
      show ?thesis
      proof (cases "f = None \<and> n = wide ''Default''")
        case True
        with 2(4) opens o idle have "try_candidates e ns (Some h) d1 = (r, d')" by simp
        from 2(2) [OF _ o [symmetric] idle True this] opens t True show ?thesis
          by (auto intro: same_names_trans)
      next
        case False
        with 2(4) opens o idle have c: "try_candidates e ns f (CloseDesktop h d1) = (r, d')" by (simp split: if_splits)
        have "tracked A f (CloseDesktop h d1)" "same_names A d (CloseDesktop h d1)"
          using 2(5) o by (auto simp: tracked_def open_desktop_def CloseDesktop_def same_names_def restrict_map_def fun_eq_iff)
        with 2(3) [OF _ o [symmetric] idle False c] opens show ?thesis by (auto intro: same_names_trans)
      qed
    qed
  qed
qed simp

lemma FindActive_tracked:
  assumes "FindActiveInputDesktop e d = (r, d')" "tracked A None d"
  shows "tracked A r d' \<and> same_names A d d'"
proof (cases "de_input e")
  case None
  with assms try_candidates_tracked show ?thesis by (simp add: FindActiveInputDesktop_def)
next
  case (Some n)
  obtain h d1 where o: "open_desktop n d = (h, d1)" by fastforce
  from open_desktop_tracked [OF assms(2) o] have t: "tracked A (Some h) d1" "same_names A d d1" by simp_all
  from assms(1) Some o t try_candidates_tracked [OF _ t(1)] show ?thesis
    by (auto simp: FindActiveInputDesktop_def split: if_splits intro: same_names_trans)
qed

subsection \<open>The invariant\<close>

definition desk_wf :: "input_state \<Rightarrow> bool" where
  "desk_wf s \<longleftrightarrow> d_thread (i_desktops s) = active_desk s \<and> tracked (set_option (active_desk s)) None (i_desktops s)"

text \<open>The name the guard tests is the name of the desktop the thread is attached to.\<close>

definition name_wf :: "input_state \<Rightarrow> bool" where
  "name_wf s \<longleftrightarrow> (\<forall>h n. active_desk s = Some h \<and> d_open (i_desktops s) h = Some n \<and> n \<noteq> [] \<longrightarrow>
     n = g_last_desktop_name s)"

definition names_known :: "desktop_env \<Rightarrow> bool" where
  "names_known e \<longleftrightarrow> (\<forall>n. de_named e n)"

lemma Attach_wf:
  assumes w: "desk_wf s"
  shows "desk_wf (AttachCurrentInputDesktop e s)
    \<and> (names_known e \<and> name_wf s \<longrightarrow> name_wf (AttachCurrentInputDesktop e s))"
proof (cases "IsDesktopReceivingInput e (i_desktops s) (active_desk s)")
  case True
  with w show ?thesis by (simp add: AttachCurrentInputDesktop_def)
next
  case no: False
  define s1 where "s1 = EnsureProcessWindowStation e s"
  have s1: "i_desktops s1 = i_desktops s" "active_desk s1 = active_desk s" "g_last_desktop_name s1 = g_last_desktop_name s"
    by (simp_all add: s1_def EnsureProcessWindowStation_def)
  obtain r d where f: "FindActiveInputDesktop e (i_desktops s1) = (r, d)" by fastforce
  have t: "tracked (set_option (active_desk s)) r d" "same_names (set_option (active_desk s)) (i_desktops s) d"
    using FindActive_tracked [OF f, of "set_option (active_desk s)"] w s1 by (simp_all add: desk_wf_def)
  have th: "d_thread d = active_desk s" using t(2) w by (simp add: same_names_def desk_wf_def)
  have nm: "d_open d h = d_open (i_desktops s) h" if "active_desk s = Some h" for h
    using t(2) that by (auto simp: same_names_def restrict_map_def fun_eq_iff split: if_splits)
  show ?thesis
  proof (cases r)
    case None
    with no f t th nm s1 w show ?thesis
      by (auto simp: AttachCurrentInputDesktop_def s1_def [symmetric] Let_def desk_wf_def name_wf_def)
  next
    case (Some h)
    with t(1) have hd: "d_open d h \<noteq> None" "h \<notin> set_option (active_desk s)" by (auto simp: tracked_def)
    then obtain n where n: "d_open d h = Some n" by auto
    show ?thesis
    proof (cases "de_attachable e n")
      case False
      then have "AttachCurrentInputDesktop e s = s1\<lparr>i_desktops := CloseDesktop h d\<rparr>"
        using no f Some n by (simp add: AttachCurrentInputDesktop_def s1_def [symmetric] Let_def SetThreadDesktop_def)
      with close_desktop_tracked [of "set_option (active_desk s)" h d] t(1) Some th nm s1 w show ?thesis
        by (auto simp: desk_wf_def name_wf_def same_names_def CloseDesktop_def split: if_splits)
    next
      case True
      define d1 where "d1 = (case active_desk s of Some old \<Rightarrow> CloseDesktop old (d\<lparr>d_thread := Some h\<rparr>)
          | None \<Rightarrow> d\<lparr>d_thread := Some h\<rparr>)"
      have a: "i_desktops (AttachCurrentInputDesktop e s) = d1" "active_desk (AttachCurrentInputDesktop e s) = Some h"
        "g_last_desktop_name (AttachCurrentInputDesktop e s) =
           (let name = (if de_named e n then n else []) in
            if name \<noteq> [] \<and> name \<noteq> g_last_desktop_name s then name else g_last_desktop_name s)"
        using no f Some n True s1
        by (auto simp: AttachCurrentInputDesktop_def s1_def [symmetric] Let_def SetThreadDesktop_def d1_def QueryDesktopName_def)
      have "d_thread d1 = Some h" "d_open d1 k \<noteq> None \<longleftrightarrow> k = h" "h < d_next d1" "d_open d1 h = Some n" for k
        using t(1) Some hd n by (auto simp: d1_def CloseDesktop_def tracked_def split: option.splits)
      with a show ?thesis
        by (auto simp: desk_wf_def tracked_def name_wf_def names_known_def Let_def)
    qed
  qed
qed

subsection \<open>Every step\<close>

inductive input_reachable :: "(desktop_env \<Rightarrow> bool) \<Rightarrow> input_state \<Rightarrow> bool" for P where
  start: "input_reachable P (input_init now policy)"
| iterate: "input_reachable P s \<Longrightarrow> P (it_desktop e) \<Longrightarrow> DesktopInputWorkerLoop e s = (outs, s') \<Longrightarrow>
    input_reachable P s'"
| enqueue: "input_reachable P s \<Longrightarrow> input_reachable P (ligament_enqueue t s)"
| keep_awake: "input_reachable P s \<Longrightarrow> input_reachable P (ligament_set_keep_awake b s)"
| scope: "input_reachable P s \<Longrightarrow> input_reachable P (ligament_set_desktop_scope sc s)"
| consume: "input_reachable P s \<Longrightarrow> input_reachable P (snd (ligament_consume_desktop_changed s))"

text \<open>What an iteration leaves alone.\<close>

lemma stay_awake_frame [frame_facts]:
  "stay_awake e s = (outs, s') \<Longrightarrow> i_desktops s' = i_desktops s \<and> active_desk s' = active_desk s
     \<and> g_last_desktop_name s' = g_last_desktop_name s \<and> g_system_console_allowed s' = g_system_console_allowed s
     \<and> g_input_queue s' = g_input_queue s \<and> i_sas_policy s' = i_sas_policy s"
  by (auto simp: stay_awake_def split: if_splits)

lemma execute_task_frame [frame_facts]:
  "execute_task e t s = (outs, s') \<Longrightarrow> i_desktops s' = i_desktops s \<and> active_desk s' = active_desk s
     \<and> g_last_desktop_name s' = g_last_desktop_name s \<and> g_system_console_allowed s' = g_system_console_allowed s
     \<and> g_input_queue s' = g_input_queue s"
  by (auto simp: execute_task_def Let_def split: if_splits input_kind.splits prod.splits)

lemma Attach_frame [frame_facts]:
  "g_system_console_allowed (AttachCurrentInputDesktop e s) = g_system_console_allowed s"
  "g_input_queue (AttachCurrentInputDesktop e s) = g_input_queue s"
  "i_sas_policy (AttachCurrentInputDesktop e s) = i_sas_policy s"
  by (auto simp: AttachCurrentInputDesktop_def EnsureProcessWindowStation_def Let_def
      split: option.splits prod.splits bool.splits)

lemma follow_desktop_frame [frame_facts]:
  "g_system_console_allowed (follow_desktop e s) = g_system_console_allowed s"
  "g_input_queue (follow_desktop e s) = g_input_queue s" "i_sas_policy (follow_desktop e s) = i_sas_policy s"
  by (simp_all add: follow_desktop_def frame_facts)

lemma pop_task_frame [frame_facts]:
  "pop_task s = (t, s') \<Longrightarrow> i_desktops s' = i_desktops s \<and> active_desk s' = active_desk s
     \<and> g_last_desktop_name s' = g_last_desktop_name s \<and> g_system_console_allowed s' = g_system_console_allowed s
     \<and> i_sas_policy s' = i_sas_policy s"
  by (auto simp: pop_task_def split: list.splits)

text \<open>One iteration, taken apart.\<close>

lemma iteration_parts:
  assumes "DesktopInputWorkerLoop e s = (outs, s')"
  obtains t s1 outs1 s2 where "pop_task s = (t, s1)" "stay_awake e (follow_desktop e s1) = (outs1, s2)"
    "case t of None \<Rightarrow> outs = outs1 \<and> s' = s2
       | Some t \<Rightarrow> \<exists>outs2. execute_task e t s2 = (outs2, s') \<and> outs = outs1 @ outs2"
proof -
  obtain t s1 where p: "pop_task s = (t, s1)" by fastforce
  obtain outs1 s2 where a: "stay_awake e (follow_desktop e s1) = (outs1, s2)" by fastforce
  have l: "DesktopInputWorkerLoop e s = (case t of None \<Rightarrow> (outs1, s2)
      | Some t \<Rightarrow> (case execute_task e t s2 of (outs2, s3) \<Rightarrow> (outs1 @ outs2, s3)))"
    unfolding DesktopInputWorkerLoop_def p by (simp only: a Let_def prod.case)
  have x: "case t of None \<Rightarrow> outs = outs1 \<and> s' = s2
       | Some t \<Rightarrow> \<exists>outs2. execute_task e t s2 = (outs2, s') \<and> outs = outs1 @ outs2"
  proof (cases t)
    case (Some u)
    obtain outs2 s3 where x: "execute_task e u s2 = (outs2, s3)" by fastforce
    have "(outs, s') = (outs1 @ outs2, s3)"
      unfolding assms [symmetric] l Some option.case x prod.case ..
    with x Some show ?thesis by auto
  next
    case None
    have "(outs, s') = (outs1, s2)" unfolding assms [symmetric] l None option.case ..
    with None show ?thesis by simp
  qed
  show thesis by (rule that [OF p a x])
qed

definition input_wf :: "bool \<Rightarrow> input_state \<Rightarrow> bool" where
  "input_wf known s \<longleftrightarrow> desk_wf s \<and> (known \<longrightarrow> name_wf s)"

lemma input_wf_cong:
  "i_desktops s' = i_desktops s \<Longrightarrow> active_desk s' = active_desk s \<Longrightarrow>
   g_last_desktop_name s' = g_last_desktop_name s \<Longrightarrow> input_wf known s' = input_wf known s"
  by (simp add: input_wf_def desk_wf_def name_wf_def)

lemma follow_desktop_wf:
  "input_wf known s \<Longrightarrow> (known \<longrightarrow> names_known (it_desktop e)) \<Longrightarrow> input_wf known (follow_desktop e s)"
proof -
  assume w: "input_wf known s" and k: "known \<longrightarrow> names_known (it_desktop e)"
  have "input_wf known (s\<lparr>last_desktop_check := it_now e\<rparr>)" using w by (subst input_wf_cong [of _ s]) simp_all
  with Attach_wf [of "s\<lparr>last_desktop_check := it_now e\<rparr>" "it_desktop e"] w k show ?thesis
    by (auto simp: follow_desktop_def input_wf_def)
qed

lemma iteration_wf:
  assumes "DesktopInputWorkerLoop e s = (outs, s')" "input_wf known s" "known \<longrightarrow> names_known (it_desktop e)"
  shows "input_wf known s'"
proof -
  from assms(1) obtain t s1 outs1 s2 where p: "pop_task s = (t, s1)"
    and a: "stay_awake e (follow_desktop e s1) = (outs1, s2)"
    and x: "case t of None \<Rightarrow> outs = outs1 \<and> s' = s2
       | Some t \<Rightarrow> \<exists>outs2. execute_task e t s2 = (outs2, s') \<and> outs = outs1 @ outs2" by (rule iteration_parts)
  have "input_wf known s1" using assms(2) pop_task_frame [OF p] input_wf_cong by blast
  then have "input_wf known (follow_desktop e s1)" using assms(3) by (rule follow_desktop_wf)
  then have w2: "input_wf known s2" using stay_awake_frame [OF a] input_wf_cong by blast
  show ?thesis
  proof (cases t)
    case (Some t)
    with x obtain outs2 where "execute_task e t s2 = (outs2, s')" by auto
    with w2 show ?thesis using execute_task_frame input_wf_cong by blast
  qed (use x w2 in simp)
qed

lemma input_reachable_wf:
  "input_reachable P s \<Longrightarrow> (\<And>e. known \<Longrightarrow> P e \<Longrightarrow> names_known e) \<Longrightarrow> input_wf known s"
proof (induction rule: input_reachable.induct)
  case (start now policy)
  then show ?case
    by (simp add: input_wf_def desk_wf_def name_wf_def input_init_def desktops_init_def tracked_def)
next
  case (iterate s e outs s')
  then show ?case by (intro iteration_wf [OF iterate(3)]) auto
qed (auto simp: input_wf_def desk_wf_def name_wf_def ligament_enqueue_def ligament_set_keep_awake_def
    ligament_set_desktop_scope_def ligament_consume_desktop_changed_def)

subsection \<open>The secure desktop\<close>

text \<open>What is harmless there, by the answers of the system and whether the display is kept awake: letting
  go of a modifier key that is down, and the mouse move by nothing.\<close>

fun harmless_input :: "inject_env \<Rightarrow> bool \<Rightarrow> injected \<Rightarrow> bool" where
  "harmless_input ie awake (KeyInput vk sc fl) \<longleftrightarrow>
     vk \<in> set modifier_keys \<and> ie_pressed ie vk \<and> sc = ie_scan ie vk \<and> fl = KEYEVENTF_KEYUP"
| "harmless_input ie awake (MouseInput dx dy fl dat) \<longleftrightarrow> awake \<and> dx = 0 \<and> dy = 0 \<and> fl = 1 \<and> dat = 0"
| "harmless_input ie awake (SecureAttention p) \<longleftrightarrow> False"

fun harmless :: "inject_env \<Rightarrow> bool \<Rightarrow> injection \<Rightarrow> bool" where
  "harmless ie awake Awake \<longleftrightarrow> awake"
| "harmless ie awake (Lost i) \<longleftrightarrow> harmless_input ie awake i"
| "harmless ie awake (Legacy i) \<longleftrightarrow> False"
| "harmless ie awake (Sent i) \<longleftrightarrow> harmless_input ie awake i"

lemma harmless_release: "list_all (harmless ie awake) (ReleaseModifierKeys ie)"
  by (auto simp: ReleaseModifierKeys_def list_all_iff try_send_def)

lemma harmless_awake: "stay_awake e s = (outs, s') \<Longrightarrow> list_all (harmless ie (g_keep_awake s)) outs"
  by (auto simp: stay_awake_def try_send_def split: if_splits)

lemma Attach_keep_awake [frame_facts]: "g_keep_awake (AttachCurrentInputDesktop e s) = g_keep_awake s"
  by (auto simp: AttachCurrentInputDesktop_def EnsureProcessWindowStation_def Let_def
      split: option.splits prod.splits bool.splits)

lemma follow_keep_awake [frame_facts]: "g_keep_awake (follow_desktop e s) = g_keep_awake s"
  by (simp add: follow_desktop_def frame_facts)

lemma pop_keep_awake: "pop_task s = (t, s1) \<Longrightarrow> g_keep_awake s1 = g_keep_awake s"
  by (auto simp: pop_task_def split: list.splits)

lemma stay_keep_awake: "stay_awake e s = (outs, s2) \<Longrightarrow> g_keep_awake s2 = g_keep_awake s"
  by (auto simp: stay_awake_def split: if_splits)

text \<open>C24. An interactive session cannot act on the secure desktop: while the input thread is attached
  to the logon or screen-saver desktop and the session is not a system console, an iteration takes
  the first of the queued tasks without carrying it out, and all that it injects or tries to inject
  is the release of modifier keys that are held down and, if the display is to be kept awake, the
  empty mouse move.  (The name of a desktop must be readable.)\<close>

theorem secure_desktop_untouched:
  assumes "input_reachable names_known s" and "names_known (it_desktop e)"
    and "DesktopInputWorkerLoop e s = (outs, s')" and "\<not> g_system_console_allowed s"
    and "active_desk s' = Some h" and "d_open (i_desktops s') h = Some n" and "IsSecureDesktop n"
  shows "list_all (harmless (it_inject e) (g_keep_awake s)) outs \<and> g_input_queue s' = tl (g_input_queue s)"
proof -
  from assms(3) obtain t s1 outs1 s2 where p: "pop_task s = (t, s1)"
    and a: "stay_awake e (follow_desktop e s1) = (outs1, s2)"
    and x: "case t of None \<Rightarrow> outs = outs1 \<and> s' = s2
       | Some t \<Rightarrow> \<exists>outs2. execute_task e t s2 = (outs2, s') \<and> outs = outs1 @ outs2" by (rule iteration_parts)
  have "input_wf True s'"
    using iteration_wf [OF assms(3) input_reachable_wf [OF assms(1)]] assms(2) by simp
  then have n: "IsSecureDesktop (g_last_desktop_name s')"
    using assms(5,6,7) by (auto simp: input_wf_def name_wf_def IsSecureDesktop_def)
  have g: "\<not> g_system_console_allowed s2"
    using stay_awake_frame [OF a] pop_task_frame [OF p] assms(4) by (simp add: frame_facts)
  have q: "g_input_queue s2 = tl (g_input_queue s)"
    using stay_awake_frame [OF a] p by (auto simp: follow_desktop_frame pop_task_def split: list.splits)
  have k: "g_keep_awake (follow_desktop e s1) = g_keep_awake s" by (simp add: follow_keep_awake pop_keep_awake [OF p])
  note aw = harmless_awake [OF a, of "it_inject e", unfolded k]
  show ?thesis
  proof (cases t)
    case None
    with x aw q show ?thesis by simp
  next
    case (Some t)
    with x obtain outs2 where e2: "execute_task e t s2 = (outs2, s')" "outs = outs1 @ outs2" by auto
    have "IsSecureDesktop (g_last_desktop_name s2)" using n execute_task_frame [OF e2(1)] by simp
    with e2 g have "outs2 = ReleaseModifierKeys (it_inject e)" by (simp add: execute_task_def Let_def)
    with e2 aw q harmless_release execute_task_frame [OF e2(1)] show ?thesis by simp
  qed
qed

text \<open>The witness: the screen is locked while a key waits.\<close>

definition quiet_inject :: inject_env where
  "quiet_inject = \<lparr>ie_scan = (\<lambda>_. 30), ie_sends = (\<lambda>_. True), ie_pressed = (\<lambda>vk. vk = 0x10),
     ie_policyKey = True, ie_sasDll = True\<rparr>"

definition on_desktop :: "string \<Rightarrow> int \<Rightarrow> iteration_env" where
  "on_desktop n now = \<lparr>it_now = now,
     it_desktop = \<lparr>de_input = Some (wide n), de_openable = (\<lambda>_. True), de_receives = (\<lambda>m. m = wide n),
                  de_named = (\<lambda>_. True), de_attachable = (\<lambda>_. True), de_winsta = True\<rparr>,
     it_inject = quiet_inject\<rparr>"

lemma on_desktop_known: "names_known (it_desktop (on_desktop n now))"
  by (simp add: names_known_def on_desktop_def)

definition locked_state :: input_state where
  "locked_state = ligament_send_vk 65 True (input_init 0 None)"

lemma locked_state_reachable: "input_reachable P locked_state"
  unfolding locked_state_def ligament_send_vk_def by (rule input_reachable.enqueue [OF input_reachable.start])

text \<open>The definitions the witnesses unfold: building a state, and following the desktop.\<close>

lemmas queue_eval = ligament_send_vk_def ligament_send_sas_def ligament_enqueue_def ligament_set_desktop_scope_def
  input_init_def EnqueueNativeInput_def merges_def is_move_def vk_task_def task_init_def queue_limit_def

lemmas desktop_eval = follow_desktop_def on_desktop_def AttachCurrentInputDesktop_def IsDesktopReceivingInput_def
  EnsureProcessWindowStation_def FindActiveInputDesktop_def open_desktop_def desktops_init_def
  QueryDesktopName_def SetThreadDesktop_def

definition attached :: "string \<Rightarrow> input_state \<Rightarrow> input_state" where
  "attached n s = s\<lparr>g_winsta0 := True, g_last_desktop_name := wide n, active_desk := Some 0,
     i_desktops := \<lparr>d_open = [0 \<mapsto> wide n], d_next = 1, d_thread = Some 0\<rparr>, last_desktop_check := 0\<rparr>"

lemma follow_first:
  assumes "i_desktops s = desktops_init" "active_desk s = None" "last_desktop_check s = -250"
    "g_last_desktop_name s = []" "\<not> g_desktop_changed s" "n \<noteq> []" "\<not> g_winsta0 s"
  shows "follow_desktop (on_desktop n 0) s = attached n s"
proof -
  have "wide n \<noteq> []" using assms(6) by (simp add: wide_def)
  then show ?thesis using assms by (simp add: desktop_eval attached_def Let_def)
qed

lemma locked_iteration:
  "DesktopInputWorkerLoop (on_desktop ''Winlogon'' 0) locked_state =
     ([Sent (KeyInput 0x10 30 KEYEVENTF_KEYUP)], attached ''Winlogon'' (locked_state\<lparr>g_input_queue := []\<rparr>))"
proof -
  have p: "pop_task locked_state = (Some (vk_task 65 True), locked_state\<lparr>g_input_queue := []\<rparr>)"
    by (simp add: pop_task_def locked_state_def queue_eval)
  have f: "follow_desktop (on_desktop ''Winlogon'' 0) (locked_state\<lparr>g_input_queue := []\<rparr>)
      = attached ''Winlogon'' (locked_state\<lparr>g_input_queue := []\<rparr>)"
    by (rule follow_first) (simp_all add: locked_state_def queue_eval)
  have a: "stay_awake e (attached ''Winlogon'' (locked_state\<lparr>g_input_queue := []\<rparr>))
      = ([], attached ''Winlogon'' (locked_state\<lparr>g_input_queue := []\<rparr>))" for e
    by (simp add: stay_awake_def attached_def locked_state_def queue_eval)
  have x: "execute_task (on_desktop ''Winlogon'' 0) t (attached ''Winlogon'' (locked_state\<lparr>g_input_queue := []\<rparr>))
      = ([Sent (KeyInput 0x10 30 KEYEVENTF_KEYUP)], attached ''Winlogon'' (locked_state\<lparr>g_input_queue := []\<rparr>))" for t
    by (simp add: execute_task_def attached_def locked_state_def queue_eval IsSecureDesktop_def on_desktop_def
        quiet_inject_def ReleaseModifierKeys_def modifier_keys_def try_send_def wide_def)
  show ?thesis unfolding DesktopInputWorkerLoop_def p by (simp add: f a x)
qed

theorem secure_desktop_untouched_witness:
  "list_all (harmless (it_inject (on_desktop ''Winlogon'' 0)) (g_keep_awake locked_state)) [Sent (KeyInput 0x10 30 KEYEVENTF_KEYUP)]
   \<and> g_input_queue (attached ''Winlogon'' (locked_state\<lparr>g_input_queue := []\<rparr>)) = tl (g_input_queue locked_state)"
  by (rule secure_desktop_untouched [OF locked_state_reachable on_desktop_known locked_iteration, where h = 0 and n = "wide ''Winlogon''"])
    (simp_all add: locked_state_def queue_eval IsSecureDesktop_def wide_def attached_def)

text \<open>The thread follows the desktops without leaking their handles: whatever opens, receives
  input or can be attached to, the one desktop handle that is open between two iterations is the
  one the thread is attached to.\<close>

lemma desktop_handles_bounded:
  assumes "input_reachable P s"
  shows "dom (d_open (i_desktops s)) = set_option (active_desk s) \<and> d_thread (i_desktops s) = active_desk s"
proof -
  have w: "desk_wf s" using input_reachable_wf [OF assms, of False] by (simp add: input_wf_def)
  then have t: "d_thread (i_desktops s) = active_desk s" "tracked (set_option (active_desk s)) None (i_desktops s)"
    unfolding desk_wf_def by blast+
  from t(2) have "h \<in> dom (d_open (i_desktops s)) \<longleftrightarrow> h \<in> set_option (active_desk s)" for h
    unfolding tracked_def domIff by blast
  then have "dom (d_open (i_desktops s)) = set_option (active_desk s)" by blast
  with t(1) show ?thesis by blast
qed

lemma desktop_handles_bounded_example:
  "dom (d_open (i_desktops (snd (DesktopInputWorkerLoop (on_desktop ''Winlogon'' 0) locked_state)))) = {0}"
proof -
  have r: "input_reachable (\<lambda>_. True) locked_state" by (rule locked_state_reachable)
  note locked_iteration
  from input_reachable.iterate [OF r TrueI this]
  have "input_reachable (\<lambda>_. True) (attached ''Winlogon'' (locked_state\<lparr>g_input_queue := []\<rparr>))" .
  from desktop_handles_bounded [OF this] show ?thesis by (simp add: locked_iteration attached_def)
qed

subsection \<open>Delivery\<close>

fun run_input :: "iteration_env list \<Rightarrow> input_state \<Rightarrow> injection list \<times> input_state" where
  "run_input [] s = ([], s)"
| "run_input (e # es) s = (case DesktopInputWorkerLoop e s of (outs, s1) \<Rightarrow>
     (case run_input es s1 of (outs', s2) \<Rightarrow> (outs @ outs', s2)))"

definition task_injection :: "inject_env \<Rightarrow> NativeInputTask \<Rightarrow> injection" where
  "task_injection ie t = (case t_kind t of
     kUnicode \<Rightarrow> ExecuteSendUnicode ie (t_ch t) (t_is_down t)
   | kVk \<Rightarrow> ExecuteSendVk ie (t_vk t) (t_is_down t)
   | _ \<Rightarrow> ExecuteSendMouse ie t)"

text \<open>What the tasks come to, iteration by iteration; a secure attention sequence changes the policy value
  for itself and leaves what \<open>ExecuteSendSas\<close> puts back.\<close>

definition task_outcome :: "inject_env \<Rightarrow> NativeInputTask \<Rightarrow> (u32 \<times> bytes) option \<Rightarrow> injection list \<times> (u32 \<times> bytes) option" where
  "task_outcome ie t policy =
     (if t_kind t = kSas then prod.swap (ExecuteSendSas ie policy) else ([task_injection ie t], policy))"

fun outcomes :: "inject_env list \<Rightarrow> NativeInputTask list \<Rightarrow> (u32 \<times> bytes) option \<Rightarrow> injection list list" where
  "outcomes (ie # ies) (t # ts) policy =
     (case task_outcome ie t policy of (outs, policy) \<Rightarrow> outs # outcomes ies ts policy)"
| "outcomes _ _ policy = []"

text \<open>What an iteration may inject beside its task.\<close>

definition awake_move :: "inject_env \<Rightarrow> injection list" where
  "awake_move ie = [Awake, try_send ie (MouseInput 0 0 1 0) None]"

lemma iteration_delivers:
  assumes "g_input_queue s = t # ts" "g_system_console_allowed s"
  obtains s' aw where "DesktopInputWorkerLoop e s = (aw @ fst (task_outcome (it_inject e) t (i_sas_policy s)), s')"
    "aw = [] \<or> g_keep_awake s \<and> aw = awake_move (it_inject e)" "g_input_queue s' = ts" "g_system_console_allowed s'"
    "g_keep_awake s' = g_keep_awake s" "i_sas_policy s' = snd (task_outcome (it_inject e) t (i_sas_policy s))"
proof -
  define s1 where "s1 = follow_desktop e (s\<lparr>g_input_queue := ts\<rparr>)"
  have s1: "g_input_queue s1 = ts" "g_system_console_allowed s1" "g_keep_awake s1 = g_keep_awake s"
    "i_sas_policy s1 = i_sas_policy s"
    using assms by (simp_all add: s1_def frame_facts)
  obtain aw s2 where a: "stay_awake e s1 = (aw, s2)" by fastforce
  have aw: "aw = [] \<or> g_keep_awake s \<and> aw = awake_move (it_inject e)"
    using a s1(3) by (auto simp: stay_awake_def awake_move_def split: if_splits)
  have s2: "g_input_queue s2 = ts" "g_system_console_allowed s2" "g_keep_awake s2 = g_keep_awake s"
    "i_sas_policy s2 = i_sas_policy s"
    using stay_awake_frame [OF a] stay_keep_awake [OF a] s1 by simp_all
  obtain outs s3 where x: "execute_task e t s2 = (outs, s3)" by fastforce
  have s3: "outs = fst (task_outcome (it_inject e) t (i_sas_policy s))" "g_keep_awake s3 = g_keep_awake s"
    "i_sas_policy s3 = snd (task_outcome (it_inject e) t (i_sas_policy s))"
    using x s2 by (auto simp: execute_task_def task_outcome_def task_injection_def Let_def split: input_kind.splits prod.splits)
  have p: "pop_task s = (Some t, s\<lparr>g_input_queue := ts\<rparr>)" using assms(1) by (simp add: pop_task_def)
  have "DesktopInputWorkerLoop e s = (aw @ fst (task_outcome (it_inject e) t (i_sas_policy s)), s3)"
    unfolding DesktopInputWorkerLoop_def p by (simp add: s1_def [symmetric] a x s3(1))
  from that [OF this aw] show thesis using execute_task_frame [OF x] s2 s3 by simp
qed

text \<open>C26. In a system console the worker catches up: once nothing new is queued, as many iterations
  as tasks are waiting carry them all out, each exactly once and in their order, whichever desktop
  is in front: a key, character or mouse task is injected, and a secure attention sequence is sent
  where the system has the means, with the policy value set for it.  Nothing else is injected but
  the mouse move that keeps the display awake, and that only if it is to be kept so.\<close>

theorem worker_delivers_in_order:
  assumes "g_system_console_allowed s" and "length es = length (g_input_queue s)"
  shows "\<exists>aws. length aws = length es
    \<and> fst (run_input es s) = concat (map2 (@) aws (outcomes (map it_inject es) (g_input_queue s) (i_sas_policy s)))
    \<and> list_all2 (\<lambda>e aw. aw = [] \<or> g_keep_awake s \<and> aw = awake_move (it_inject e)) es aws
    \<and> g_input_queue (snd (run_input es s)) = []"
  using assms
proof (induction es arbitrary: s)
  case (Cons e es)
  then obtain t ts where q: "g_input_queue s = t # ts" by (cases "g_input_queue s") simp_all
  from q Cons.prems(1) obtain s' aw where
    d: "DesktopInputWorkerLoop e s = (aw @ fst (task_outcome (it_inject e) t (i_sas_policy s)), s')"
    and aw: "aw = [] \<or> g_keep_awake s \<and> aw = awake_move (it_inject e)"
    and s': "g_input_queue s' = ts" "g_system_console_allowed s'" "g_keep_awake s' = g_keep_awake s"
      "i_sas_policy s' = snd (task_outcome (it_inject e) t (i_sas_policy s))" by (rule iteration_delivers)
  from Cons.IH [OF s'(2)] Cons.prems(2) q s'(1) obtain aws where w: "length aws = length es"
    "fst (run_input es s') = concat (map2 (@) aws (outcomes (map it_inject es) ts (i_sas_policy s')))"
    "list_all2 (\<lambda>e aw. aw = [] \<or> g_keep_awake s' \<and> aw = awake_move (it_inject e)) es aws"
    "g_input_queue (snd (run_input es s')) = []" by auto
  show ?case
    using w aw d q s'
    by (cases "task_outcome (it_inject e) t (i_sas_policy s)"; cases "run_input es s'")
      (intro exI [of _ "aw # aws"], simp)
qed simp

theorem worker_delivers_in_order_witness:
  "g_input_queue (snd (run_input [on_desktop ''Winlogon'' 0] (ligament_set_keep_awake True
     (ligament_set_desktop_scope (Some ''system_console'') locked_state)))) = []"
  using worker_delivers_in_order [of "ligament_set_keep_awake True (ligament_set_desktop_scope (Some ''system_console'') locked_state)"
    "[on_desktop ''Winlogon'' 0]"]
  by (auto simp: queue_eval locked_state_def ligament_set_keep_awake_def)

subsection \<open>The secure attention sequence\<close>

text \<open>The secure attention sequence is sent for a system console only, with the policy value that
  allows it in force, and the value is put back as it was if it has the four bytes of a
  \<open>REG_DWORD\<close>; a longer value is deleted.\<close>

lemma secure_attention_guarded:
  assumes "DesktopInputWorkerLoop e s = (outs, s')" and "Sent (SecureAttention p) \<in> set outs"
  shows "g_system_console_allowed s \<and> p = (if ie_policyKey (it_inject e) then Some (REG_DWORD, [3, 0, 0, 0]) else i_sas_policy s)
    \<and> i_sas_policy s' = (if ie_policyKey (it_inject e) then restored_policy (i_sas_policy s) else i_sas_policy s)
    \<and> restored_policy (Some (ty, [a, b, c, d])) = Some (ty, [a, b, c, d])
    \<and> restored_policy (Some (ty, [a, b, c, d] @ x # xs)) = None"
proof -
  from assms(1) obtain t s1 outs1 s2 where pp: "pop_task s = (t, s1)"
    and a: "stay_awake e (follow_desktop e s1) = (outs1, s2)"
    and x: "case t of None \<Rightarrow> outs = outs1 \<and> s' = s2
       | Some t \<Rightarrow> \<exists>outs2. execute_task e t s2 = (outs2, s') \<and> outs = outs1 @ outs2" by (rule iteration_parts)
  have n: "Sent (SecureAttention p) \<notin> set outs1" using harmless_awake [OF a, of "it_inject e"] by (force simp: list_all_iff)
  with assms(2) x obtain u outs2 where e2: "execute_task e u s2 = (outs2, s')" "Sent (SecureAttention p) \<in> set outs2"
    by (cases t) auto
  have s2: "g_system_console_allowed s2 = g_system_console_allowed s" "i_sas_policy s2 = i_sas_policy s"
    using stay_awake_frame [OF a] pop_task_frame [OF pp] by (simp_all add: frame_facts)
  have "Sent (SecureAttention p) \<notin> set (ReleaseModifierKeys (it_inject e))"
    using harmless_release [of "it_inject e" True] by (force simp: list_all_iff)
  with e2 s2 show ?thesis
    by (auto simp: execute_task_def Let_def ExecuteSendSas_def ExecuteSendUnicode_def ExecuteSendVk_def
        ExecuteSendMouse_def try_send_def restored_policy_def pad4_def split: if_splits input_kind.splits)
qed

lemma secure_attention_guarded_example:
  "restored_policy (Some (REG_DWORD, [1, 0, 0, 0])) = Some (REG_DWORD, [1, 0, 0, 0])"
proof -
  define s0 where "s0 = ligament_set_desktop_scope (Some ''system_console'') (input_init 0 None)"
  define s where "s = ligament_send_sas s0"
  let ?r = "DesktopInputWorkerLoop (on_desktop ''Default'' 0) s"
  have p: "pop_task s = (Some (task_init kSas), s\<lparr>g_input_queue := []\<rparr>)"
    by (simp add: pop_task_def s_def s0_def queue_eval)
  have f: "follow_desktop (on_desktop ''Default'' 0) (s\<lparr>g_input_queue := []\<rparr>)
      = attached ''Default'' (s\<lparr>g_input_queue := []\<rparr>)"
    by (rule follow_first) (simp_all add: s_def s0_def queue_eval)
  have a: "stay_awake e (attached ''Default'' (s\<lparr>g_input_queue := []\<rparr>)) = ([], attached ''Default'' (s\<lparr>g_input_queue := []\<rparr>))" for e
    by (simp add: stay_awake_def attached_def s_def s0_def queue_eval)
  have x: "fst (execute_task (on_desktop ''Default'' 0) (task_init kSas) (attached ''Default'' (s\<lparr>g_input_queue := []\<rparr>)))
      = [Sent (SecureAttention (Some (REG_DWORD, [3, 0, 0, 0])))]"
    by (simp add: execute_task_def attached_def s_def s0_def queue_eval on_desktop_def quiet_inject_def
        ExecuteSendSas_def Let_def)
  have "Sent (SecureAttention (Some (REG_DWORD, [3, 0, 0, 0]))) \<in> set (fst ?r)"
    unfolding DesktopInputWorkerLoop_def p using x by (auto simp: f a split: prod.splits)
  from secure_attention_guarded [OF surjective_pairing this, of REG_DWORD 1 0 0 0 0 "[]"] show ?thesis by simp
qed

end
