(* ===== verification/InputBlock.thy ===== *)
theory InputBlock
  imports Prelude
begin

text \<open>
  The block on physical input of \<open>runner/input_block.cpp\<close>: the two low-level hooks, the thread
  that owns them and the exports that switch the block on and off.

  The hook thread runs beside the caller of \<open>ligament_install_input_block\<close>, which waits for it at
  most two seconds; \<open>hook_thread_runs\<close> is the step in which it sets the hooks.
\<close>

record input_block =
  g_blocked :: bool
  g_kbd_hook :: bool
  g_mouse_hook :: bool
  g_thread :: bool
  b_pending :: bool \<comment> \<open>the thread exists and has not set its hooks yet\<close>

definition input_block_init :: input_block where
  "input_block_init = \<lparr>g_blocked = False, g_kbd_hook = False, g_mouse_hook = False, g_thread = False,
     b_pending = False\<rparr>"

text \<open>What the system answers: whether the thread is created, whether it comes to its hooks while the
  caller waits, and whether each hook can be set.\<close>

record hook_env =
  he_thread :: bool
  he_inTime :: bool
  he_kbd :: bool
  he_mouse :: bool

definition InputBlockThread :: "hook_env \<Rightarrow> input_block \<Rightarrow> input_block" where
  "InputBlockThread e b =
     (if b_pending b then b\<lparr>g_kbd_hook := he_kbd e, g_mouse_hook := he_mouse e, b_pending := False\<rparr> else b)"

definition EnsureThread :: "hook_env \<Rightarrow> input_block \<Rightarrow> input_block" where
  "EnsureThread e b =
     (if g_thread b then b
      else
        let b = b\<lparr>g_thread := he_thread e, b_pending := he_thread e\<rparr>
        in if he_inTime e then InputBlockThread e b else b)"

definition ligament_install_input_block :: "hook_env \<Rightarrow> input_block \<Rightarrow> int \<times> input_block" where
  "ligament_install_input_block e b =
     (let b = (EnsureThread e b)\<lparr>g_blocked := True\<rparr>
      in (if g_kbd_hook b \<and> g_mouse_hook b then 0 else -1, b))"

definition ligament_remove_input_block :: "input_block \<Rightarrow> int \<times> input_block" where
  "ligament_remove_input_block b = (0, b\<lparr>g_blocked := False\<rparr>)"

subsection \<open>The hooks\<close>

definition LLKHF_INJECTED :: u32 where "LLKHF_INJECTED = 0x10"
definition LLMHF_INJECTED :: u32 where "LLMHF_INJECTED = 0x01"

text \<open>Whether a hook procedure swallows its event instead of passing it on.\<close>

definition KeyboardLLProc :: "int \<Rightarrow> u32 \<Rightarrow> input_block \<Rightarrow> bool" where
  "KeyboardLLProc n_code flags b \<longleftrightarrow> 0 \<le> n_code \<and> g_blocked b \<and> flags AND LLKHF_INJECTED = 0"

definition MouseLLProc :: "int \<Rightarrow> u32 \<Rightarrow> input_block \<Rightarrow> bool" where
  "MouseLLProc n_code flags b \<longleftrightarrow> 0 \<le> n_code \<and> g_blocked b \<and> flags AND LLMHF_INJECTED = 0"

text \<open>A procedure is called for the events of its device only while its hook is set.\<close>

definition key_swallowed :: "u32 \<Rightarrow> input_block \<Rightarrow> bool" where
  "key_swallowed flags b \<longleftrightarrow> g_kbd_hook b \<and> KeyboardLLProc 0 flags b"

definition mouse_swallowed :: "u32 \<Rightarrow> input_block \<Rightarrow> bool" where
  "mouse_swallowed flags b \<longleftrightarrow> g_mouse_hook b \<and> MouseLLProc 0 flags b"

subsection \<open>Runs\<close>

datatype block_call = Install hook_env | Remove | HookThread hook_env

fun block_step :: "block_call \<Rightarrow> input_block \<Rightarrow> input_block" where
  "block_step (Install e) b = snd (ligament_install_input_block e b)"
| "block_step Remove b = snd (ligament_remove_input_block b)"
| "block_step (HookThread e) b = InputBlockThread e b"

definition block_run :: "block_call list \<Rightarrow> input_block" where
  "block_run cs = fold block_step cs input_block_init"

definition hooks_set :: "input_block \<Rightarrow> bool" where
  "hooks_set b \<longleftrightarrow> g_kbd_hook b \<and> g_mouse_hook b"

text \<open>Whether the block is on after the calls.\<close>

fun wanted :: "block_call list \<Rightarrow> bool \<Rightarrow> bool" where
  "wanted [] w = w"
| "wanted (Install e # cs) w = wanted cs True"
| "wanted (Remove # cs) w = wanted cs False"
| "wanted (HookThread e # cs) w = wanted cs w"

lemma block_step_blocked:
  "g_blocked (block_step c b) = (case c of Install e \<Rightarrow> True | Remove \<Rightarrow> False | HookThread e \<Rightarrow> g_blocked b)"
  by (cases c) (simp_all add: ligament_install_input_block_def ligament_remove_input_block_def
      InputBlockThread_def Let_def)

lemma fold_blocked: "g_blocked (fold block_step cs b) = wanted cs (g_blocked b)"
proof (induction cs arbitrary: b)
  case (Cons c cs)
  then show ?case by (cases c) (simp_all add: block_step_blocked del: block_step.simps)
qed simp

text \<open>Once the thread has tried to set its hooks, they stay as they are.\<close>

definition settled :: "input_block \<Rightarrow> bool" where
  "settled b \<longleftrightarrow> g_thread b \<and> \<not> b_pending b"

lemma block_step_settled:
  "settled b \<Longrightarrow> settled (block_step c b) \<and> g_kbd_hook (block_step c b) = g_kbd_hook b
     \<and> g_mouse_hook (block_step c b) = g_mouse_hook b"
  by (cases c) (auto simp: settled_def ligament_install_input_block_def ligament_remove_input_block_def
      InputBlockThread_def EnsureThread_def Let_def)

lemma fold_settled:
  "settled b \<Longrightarrow> g_kbd_hook (fold block_step cs b) = g_kbd_hook b \<and> g_mouse_hook (fold block_step cs b) = g_mouse_hook b"
proof (induction cs arbitrary: b)
  case (Cons c cs)
  with block_step_settled [OF Cons.prems, of c] show ?case by simp
qed simp

lemma block_run_append: "block_run (cs @ ds) = fold block_step ds (block_run cs)"
  by (simp add: block_run_def)

text \<open>C34. While the block is on, the operator works and the user does not: if installing it reported
  success, then after any further calls physical keys and mouse events are swallowed exactly until
  the block is removed, and injected input always passes.\<close>

theorem block_spares_injected:
  assumes "ligament_install_input_block e (block_run cs) = (0, b)"
  shows "key_swallowed flags (fold block_step ds b) = (wanted ds True \<and> flags AND LLKHF_INJECTED = 0)
    \<and> mouse_swallowed mflags (fold block_step ds b) = (wanted ds True \<and> mflags AND LLMHF_INJECTED = 0)"
proof -
  have inv: "(g_kbd_hook c \<longrightarrow> settled c) \<and> (g_mouse_hook c \<longrightarrow> settled c) \<and> (b_pending c \<longrightarrow> g_thread c)"
    if "c = fold block_step cs c0" "(g_kbd_hook c0 \<longrightarrow> settled c0) \<and> (g_mouse_hook c0 \<longrightarrow> settled c0) \<and> (b_pending c0 \<longrightarrow> g_thread c0)" for c c0 cs
    using that
  proof (induction cs arbitrary: c0)
    case (Cons x xs)
    have "(g_kbd_hook (block_step x c0) \<longrightarrow> settled (block_step x c0)) \<and> (g_mouse_hook (block_step x c0) \<longrightarrow> settled (block_step x c0))
      \<and> (b_pending (block_step x c0) \<longrightarrow> g_thread (block_step x c0))"
      using Cons.prems(2) by (cases x) (auto simp: settled_def ligament_install_input_block_def
          ligament_remove_input_block_def InputBlockThread_def EnsureThread_def Let_def)
    with Cons.IH [of "block_step x c0"] Cons.prems(1) show ?case by simp
  qed simp
  have b: "b = block_run (cs @ [Install e])" using assms by (simp add: block_run_append)
  have h: "g_kbd_hook b" "g_mouse_hook b" "g_blocked b"
    using assms by (auto simp: ligament_install_input_block_def Let_def split: if_splits)
  have "settled b"
    using inv [of b "cs @ [Install e]" input_block_init] h(1) b
    by (simp add: block_run_def input_block_init_def)
  from fold_settled [OF this, of ds] h fold_blocked [of ds b] show ?thesis
    by (simp add: key_swallowed_def mouse_swallowed_def KeyboardLLProc_def MouseLLProc_def)
qed

theorem block_spares_injected_witness:
  "key_swallowed 0 (snd (ligament_install_input_block \<lparr>he_thread = True, he_inTime = True, he_kbd = True, he_mouse = True\<rparr> input_block_init))"
proof -
  let ?e = "\<lparr>he_thread = True, he_inTime = True, he_kbd = True, he_mouse = True\<rparr>"
  have "ligament_install_input_block ?e (block_run []) = (0, snd (ligament_install_input_block ?e (block_run [])))"
    by (simp add: ligament_install_input_block_def EnsureThread_def InputBlockThread_def block_run_def input_block_init_def)
  from block_spares_injected [OF this, of 0 "[]"] show ?thesis by (simp add: block_run_def)
qed

text \<open>A failed hook is final: when the first installation could not set a hook, every later one
  reports failure too, although it turns the block on, and the user's input of that device is
  never swallowed; the thread that would try again is made only once.\<close>

lemma failed_hook_is_final:
  assumes "he_thread e" and "he_inTime e" and "\<not> he_kbd e"
  shows "\<not> key_swallowed flags (fold block_step ds (snd (ligament_install_input_block e input_block_init)))
    \<and> fst (ligament_install_input_block e2 (fold block_step ds (snd (ligament_install_input_block e input_block_init)))) = -1"
proof -
  let ?b = "snd (ligament_install_input_block e input_block_init)"
  have "settled ?b" "\<not> g_kbd_hook ?b"
    using assms by (simp_all add: ligament_install_input_block_def EnsureThread_def InputBlockThread_def
        input_block_init_def settled_def Let_def)
  from fold_settled [OF this(1), of ds] fold_settled [OF this(1), of "ds @ [Install e2]"] this(2)
  show ?thesis by (simp add: key_swallowed_def ligament_install_input_block_def Let_def)
qed

lemma failed_hook_is_final_example:
  "let e = \<lparr>he_thread = True, he_inTime = True, he_kbd = False, he_mouse = True\<rparr>;
       ok = \<lparr>he_thread = True, he_inTime = True, he_kbd = True, he_mouse = True\<rparr>
   in fst (ligament_install_input_block ok (snd (ligament_install_input_block e input_block_init))) = -1"
  using failed_hook_is_final [of "\<lparr>he_thread = True, he_inTime = True, he_kbd = False, he_mouse = True\<rparr>" 0 "[]"
      "\<lparr>he_thread = True, he_inTime = True, he_kbd = True, he_mouse = True\<rparr>"]
  by (simp add: Let_def)

end
