(* ===== verification/Displays.thy ===== *)
theory Displays
  imports Std_Strings
begin

text \<open>
  The rectangle of a monitor by its index, the two exports of \<open>runner/input_block.cpp\<close>: by the
  order of \<open>EnumDisplayMonitors\<close>, and by the order of \<open>EnumDisplayDevices\<close>, in which the screen
  capturer numbers its sources.  The system's two enumerations are arguments.
\<close>

record rect =
  r_left :: int
  r_top :: int
  r_right :: int
  r_bottom :: int

record monitor =
  mo_device :: wstr
  mo_rect :: "rect option" \<comment> \<open>\<open>GetMonitorInfoW\<close> fails: \<open>None\<close>\<close>

record dev_mode =
  dm_x :: int
  dm_y :: int
  dm_width :: nat
  dm_height :: nat

record display_device =
  dd_name :: wstr
  dd_attached :: bool
  dd_settings :: "dev_mode option"

definition mode_rect :: "dev_mode \<Rightarrow> rect" where
  "mode_rect m = \<lparr>r_left = dm_x m, r_top = dm_y m, r_right = dm_x m + int (dm_width m),
     r_bottom = dm_y m + int (dm_height m)\<rparr>"

definition usable_mode :: "display_device \<Rightarrow> dev_mode option" where
  "usable_mode d = (case dd_settings d of
     Some m \<Rightarrow> if 0 < dm_width m \<and> 0 < dm_height m then Some m else None | None \<Rightarrow> None)"

text \<open>The callback counts a monitor whose information it cannot read and goes on, also past the
  one it looks for.\<close>

fun enum_monitors :: "nat \<Rightarrow> nat \<Rightarrow> monitor list \<Rightarrow> rect option" where
  "enum_monitors target current [] = None"
| "enum_monitors target current (m # ms) =
     (if current = target \<and> mo_rect m \<noteq> None then mo_rect m else enum_monitors target (Suc current) ms)"

text \<open>The attached device with a given number among the attached ones.\<close>

fun nth_attached :: "nat \<Rightarrow> nat \<Rightarrow> display_device list \<Rightarrow> display_device option" where
  "nth_attached target active [] = None"
| "nth_attached target active (d # ds) =
     (if \<not> dd_attached d then nth_attached target active ds
      else if active = target then Some d
      else nth_attached target (Suc active) ds)"

text \<open>\<open>ptrs\<close>: the four result pointers are given.  \<open>None\<close> is the result -1.\<close>

definition ligament_get_monitor_rect_by_index ::
    "monitor list \<Rightarrow> display_device list \<Rightarrow> bool \<Rightarrow> int \<Rightarrow> rect option" where
  "ligament_get_monitor_rect_by_index ms ds ptrs index =
     (if \<not> ptrs \<or> index < 0 then None
      else case enum_monitors (nat index) 0 ms of
        Some r \<Rightarrow> Some r
      | None \<Rightarrow> map_option mode_rect (Option.bind (nth_attached (nat index) 0 ds) usable_mode))"

definition device_for :: "display_device list \<Rightarrow> nat \<Rightarrow> display_device option" where
  "device_for ds i =
     (if i < length ds \<and> dd_attached (ds ! i) then Some (ds ! i) else nth_attached i 0 ds)"

fun named_monitor :: "wstr \<Rightarrow> monitor list \<Rightarrow> rect option" where
  "named_monitor want [] = None"
| "named_monitor want (m # ms) =
     (if mo_rect m \<noteq> None \<and> mo_device m = want then mo_rect m else named_monitor want ms)"

definition ligament_get_monitor_rect_by_device_index ::
    "monitor list \<Rightarrow> display_device list \<Rightarrow> bool \<Rightarrow> int \<Rightarrow> rect option" where
  "ligament_get_monitor_rect_by_device_index ms ds ptrs device_index =
     (if \<not> ptrs \<or> device_index < 0 then None
      else case device_for ds (nat device_index) of
        None \<Rightarrow> None
      | Some d \<Rightarrow> (case usable_mode d of
          Some m \<Rightarrow> Some (mode_rect m)
        | None \<Rightarrow> named_monitor (dd_name d) ms))"

subsection \<open>Facts\<close>

lemma enum_monitors_nth:
  "list_all (\<lambda>m. mo_rect m \<noteq> None) ms \<Longrightarrow>
   enum_monitors t c ms = (if c \<le> t \<and> t < c + length ms then mo_rect (ms ! (t - c)) else None)"
proof (induction t c ms rule: enum_monitors.induct)
  case (2 target current m ms)
  then show ?case by (auto simp: nth_Cons' Suc_diff_Suc split: if_splits)
qed auto

lemma nth_attached_filter:
  "nth_attached t c ds = (let as = filter dd_attached ds in
     if c \<le> t \<and> t < c + length as then Some (as ! (t - c)) else None)"
proof (induction t c ds rule: nth_attached.induct)
  case (2 target active d ds)
  then show ?case by (auto simp: nth_Cons' Let_def split: if_splits)
qed auto

text \<open>A monitor and the device it shows.\<close>

definition shows_device :: "monitor \<Rightarrow> display_device \<Rightarrow> bool" where
  "shows_device m d \<longleftrightarrow> mo_device m = dd_name d \<and>
     (\<exists>k. dd_settings d = Some k \<and> 0 < dm_width k \<and> 0 < dm_height k \<and> mo_rect m = Some (mode_rect k))"

text \<open>The two numberings meet: where every device in front is attached and the system
  enumerates the monitors in the order of their devices, both exports give the same rectangle for
  every index, and none for an index past the last.\<close>

lemma monitor_numberings_agree:
  assumes "list_all2 shows_device ms as" and "ds = as @ bs" and "list_all dd_attached as"
    and "list_all (\<lambda>d. \<not> dd_attached d) bs" and "0 \<le> i"
  shows "ligament_get_monitor_rect_by_index ms ds True i = ligament_get_monitor_rect_by_device_index ms ds True i
    \<and> (ligament_get_monitor_rect_by_index ms ds True i = None \<longleftrightarrow> int (length ms) \<le> i)"
proof -
  have len: "length ms = length as" using assms(1) by (rule list_all2_lengthD)
  have shown: "shows_device (ms ! k) (as ! k)" if "k < length ms" for k
    using assms(1) that by (rule list_all2_nthD)
  have rects: "list_all (\<lambda>m. mo_rect m \<noteq> None) ms"
    using shown by (auto simp: list_all_length shows_device_def)
  have f: "filter dd_attached ds = as"
    using assms(2-4) by (auto simp: filter_id_conv filter_empty_conv list_all_iff)
  show ?thesis
  proof (cases "nat i < length ms")
    case True
    obtain k where "dd_settings (as ! nat i) = Some k" "0 < dm_width k" "0 < dm_height k"
      "mo_rect (ms ! nat i) = Some (mode_rect k)" using shown [OF True] by (auto simp: shows_device_def)
    moreover have "dd_attached (as ! nat i)" using True len assms(3) by (simp add: list_all_length)
    moreover have "ds ! nat i = as ! nat i" "nat i < length ds" using assms(2) True len by (simp_all add: nth_append)
    ultimately show ?thesis
      using True assms(5) enum_monitors_nth [OF rects, of "nat i" 0]
      by (simp add: ligament_get_monitor_rect_by_index_def ligament_get_monitor_rect_by_device_index_def
          device_for_def usable_mode_def)
  next
    case False
    then have "nth_attached (nat i) 0 ds = None" using len f by (simp add: nth_attached_filter Let_def)
    moreover have "\<not> (nat i < length ds \<and> dd_attached (ds ! nat i))"
      using False len assms(2,4) by (auto simp: nth_append list_all_length)
    ultimately show ?thesis
      using False assms(5) enum_monitors_nth [OF rects, of "nat i" 0]
      by (auto simp: ligament_get_monitor_rect_by_index_def ligament_get_monitor_rect_by_device_index_def device_for_def)
  qed
qed

definition demo_device :: "string \<Rightarrow> int \<Rightarrow> display_device" where
  "demo_device n x = \<lparr>dd_name = wide n, dd_attached = True,
     dd_settings = Some \<lparr>dm_x = x, dm_y = 0, dm_width = 1920, dm_height = 1080\<rparr>\<rparr>"

definition demo_monitor :: "string \<Rightarrow> int \<Rightarrow> monitor" where
  "demo_monitor n x = \<lparr>mo_device = wide n,
     mo_rect = Some \<lparr>r_left = x, r_top = 0, r_right = x + 1920, r_bottom = 1080\<rparr>\<rparr>"

lemma monitor_numberings_agree_example:
  "ligament_get_monitor_rect_by_index [demo_monitor ''A'' 0, demo_monitor ''B'' (-1920)]
      [demo_device ''A'' 0, demo_device ''B'' (-1920), (demo_device ''C'' 0)\<lparr>dd_attached := False\<rparr>] True 1
   = ligament_get_monitor_rect_by_device_index [demo_monitor ''A'' 0, demo_monitor ''B'' (-1920)]
      [demo_device ''A'' 0, demo_device ''B'' (-1920), (demo_device ''C'' 0)\<lparr>dd_attached := False\<rparr>] True 1"
proof -
  have "list_all2 shows_device [demo_monitor ''A'' 0, demo_monitor ''B'' (-1920)] [demo_device ''A'' 0, demo_device ''B'' (-1920)]"
    by (simp add: shows_device_def demo_monitor_def demo_device_def mode_rect_def)
  from monitor_numberings_agree [OF this, of _ "[(demo_device ''C'' 0)\<lparr>dd_attached := False\<rparr>]" 1]
  show ?thesis by (simp add: demo_device_def)
qed

end
