(* ===== verification/Doubles.thy ===== *)
theory Doubles
  imports Complex_Main Prelude
begin

text \<open>
  The double precision numbers of C++, as far as the sources compute with them: positive values in the
  normal range.  Such a value is a rational; an operation is the exact one followed by \<open>to_double\<close>, the
  rounding to 53 significant bits, to the nearest and at a tie to the even one.
\<close>

fun floor_log2 :: "nat \<Rightarrow> nat" where
  "floor_log2 n = (if n < 2 then 0 else Suc (floor_log2 (n div 2)))"

declare floor_log2.simps [simp del]

lemma floor_log2_bounds: "0 < n \<Longrightarrow> 2 ^ floor_log2 n \<le> n \<and> n < 2 * 2 ^ floor_log2 n"
proof (induction n rule: floor_log2.induct)
  case (1 n)
  show ?case
  proof (cases "n < 2")
    case True
    with 1(2) show ?thesis by (simp add: floor_log2.simps [of n])
  next
    case False
    with 1(1) have "2 ^ floor_log2 (n div 2) \<le> n div 2 \<and> n div 2 < 2 * 2 ^ floor_log2 (n div 2)" by simp
    with False show ?thesis by (simp add: floor_log2.simps [of n]) linarith
  qed
qed

text \<open>The exponent of a positive number.\<close>

definition binary_exp :: "rat \<Rightarrow> int" where
  "binary_exp q =
     (case quotient_of q of (n, d) \<Rightarrow>
        let e = int (floor_log2 (nat n)) - int (floor_log2 (nat d)) in if 2 powi e \<le> q then e else e - 1)"

definition round_even :: "rat \<Rightarrow> int" where
  "round_even x =
     (let n = \<lfloor>x\<rfloor>; r = x - of_int n
      in if r < 1 / 2 then n else if 1 / 2 < r then n + 1 else if even n then n else n + 1)"

definition to_double :: "rat \<Rightarrow> rat" where
  "to_double q = (let u = 2 powi (binary_exp q - 52) in of_int (round_even (q / u)) * u)"

lemma floor_log2_rat:
  assumes "0 < (n :: int)"
  shows "(2::rat) ^ floor_log2 (nat n) \<le> of_int n \<and> of_int n < 2 * (2::rat) ^ floor_log2 (nat n)"
proof -
  have b: "2 ^ floor_log2 (nat n) \<le> nat n" "nat n < 2 * 2 ^ floor_log2 (nat n)"
    using floor_log2_bounds [of "nat n"] assms by simp_all
  have e: "of_int n = (of_nat (nat n) :: rat)" using assms by simp
  have "of_nat (2 ^ floor_log2 (nat n)) \<le> (of_nat (nat n) :: rat)" using b(1) by (simp only: of_nat_le_iff)
  moreover have "(of_nat (nat n) :: rat) < of_nat (2 * 2 ^ floor_log2 (nat n))" using b(2) by (simp only: of_nat_less_iff)
  ultimately show ?thesis unfolding e by simp
qed

lemma binary_exp_bounds:
  assumes "0 < q"
  shows "2 powi binary_exp q \<le> q \<and> q < 2 powi (binary_exp q + 1)"
proof -
  obtain n d where nd: "quotient_of q = (n, d)" by fastforce
  then have d: "0 < d" and q: "q = of_int n / of_int d"
    by (simp_all add: quotient_of_denom_pos quotient_of_div)
  with assms have n: "0 < n" by (simp add: zero_less_divide_iff)
  define a b where "a = floor_log2 (nat n)" and "b = floor_log2 (nat d)"
  have r: "(2::rat) ^ a \<le> of_int n" "of_int n < 2 * (2::rat) ^ a" "(2::rat) ^ b \<le> of_int d" "of_int d < 2 * (2::rat) ^ b"
    using floor_log2_rat [OF n] floor_log2_rat [OF d] by (simp_all add: a_def b_def)
  have p: "(2::rat) powi (int a - int b) = 2 ^ a / 2 ^ b" by (simp add: power_int_diff)
  have hi: "q < 2 * (2 ^ a / 2 ^ b)"
  proof -
    have "of_int n / of_int d < (2 * 2 ^ a) / (of_int d :: rat)" using r(2) d by (simp add: divide_strict_right_mono)
    also have "\<dots> \<le> (2 * 2 ^ a) / (2 ^ b :: rat)" using r(3) d by (intro divide_left_mono) simp_all
    finally show ?thesis by (simp add: q)
  qed
  have lo: "2 ^ a / 2 ^ b < 2 * q"
  proof -
    have "(2::rat) ^ a / (2 * 2 ^ b) < 2 ^ a / of_int d" using r(4) d by (intro divide_strict_left_mono) simp_all
    also have "\<dots> \<le> of_int n / of_int d" using r(1) d by (simp add: divide_right_mono)
    finally show ?thesis by (simp add: q field_simps)
  qed
  have "2 powi (int a - int b - 1) = (2::rat) ^ a / 2 ^ b / 2" "2 powi (int a - int b + 1) = 2 * ((2::rat) ^ a / 2 ^ b)"
    by (simp_all add: power_int_diff power_int_add p)
  then show ?thesis
    using hi lo by (auto simp: binary_exp_def nd Let_def a_def [symmetric] b_def [symmetric] p)
qed

lemma round_even_le: "x \<le> of_int n \<Longrightarrow> round_even x \<le> n"
proof -
  assume x: "x \<le> of_int n"
  then have f: "\<lfloor>x\<rfloor> \<le> n" by (simp add: floor_le_iff)
  show ?thesis
  proof (cases "\<lfloor>x\<rfloor> = n")
    case True
    with x have "x = of_int n" by (metis antisym of_int_floor_le)
    then show ?thesis by (simp add: round_even_def)
  next
    case False
    with f show ?thesis by (auto simp: round_even_def Let_def)
  qed
qed

lemma round_even_error: "\<bar>of_int (round_even x) - x\<bar> \<le> 1 / 2"
proof -
  have "of_int \<lfloor>x\<rfloor> \<le> x" "x < of_int \<lfloor>x\<rfloor> + 1" by linarith+
  then show ?thesis by (auto simp: round_even_def Let_def abs_le_iff)
qed

text \<open>Rounding does not pass a number that is a double itself, here any with less than 53 bits.\<close>

lemma to_double_le:
  assumes "0 < q" "q \<le> of_int m * 2 powi z" "m < 2 ^ 53"
  shows "to_double q \<le> of_int m * 2 powi z"
proof -
  define e where "e = binary_exp q"
  define u :: rat where "u = 2 powi (e - 52)"
  have u: "0 < u" by (simp add: u_def)
  have eq: "2 powi e \<le> q" using binary_exp_bounds [OF assms(1)] by (simp add: e_def)
  have "e - 52 \<le> z"
  proof (rule ccontr)
    assume "\<not> e - 52 \<le> z"
    then have "(2::rat) powi (53 + z) \<le> 2 powi e" by (intro power_int_increasing) simp_all
    moreover have "(2::rat) powi (53 + z) = 2 ^ 53 * 2 powi z" by (simp add: power_int_add)
    moreover have "of_int m * 2 powi z < (2::rat) ^ 53 * 2 powi z"
      using assms(3) by (metis mult_strict_right_mono of_int_less_iff of_int_numeral of_int_power zero_less_numeral zero_less_power_int)
    ultimately show False using eq assms(2) by linarith
  qed
  then obtain k where k: "z = e - 52 + int k" by (metis zle_iff_zadd)
  have m: "of_int m * 2 powi z = of_int (m * 2 ^ k) * u" by (simp add: k u_def power_int_add)
  have "q / u \<le> of_int (m * 2 ^ k)" using assms(2) u unfolding m by (simp add: divide_le_eq)
  then have "round_even (q / u) \<le> m * 2 ^ k" by (rule round_even_le)
  then have "of_int (round_even (q / u)) * u \<le> of_int (m * 2 ^ k) * u"
    using u by (intro mult_right_mono) (simp_all del: of_int_mult)
  then show ?thesis by (simp add: m to_double_def e_def [symmetric] u_def [symmetric] Let_def del: of_int_mult)
qed

text \<open>The relative error.\<close>

lemma to_double_error:
  assumes "0 < q"
  shows "\<bar>to_double q - q\<bar> \<le> q / 2 ^ 53"
proof -
  define u :: rat where "u = 2 powi (binary_exp q - 52)"
  have u: "0 < u" by (simp add: u_def)
  have "u * 2 ^ 52 = 2 powi binary_exp q" by (simp add: u_def power_int_diff)
  then have q: "u * 2 ^ 52 \<le> q" using binary_exp_bounds [OF assms] by simp
  have "\<bar>of_int (round_even (q / u)) - q / u\<bar> * u \<le> 1 / 2 * u"
    using round_even_error u by (intro mult_right_mono) simp_all
  moreover have "\<bar>of_int (round_even (q / u)) - q / u\<bar> * u = \<bar>of_int (round_even (q / u)) * u - q\<bar>"
    using u by (simp add: abs_mult_pos left_diff_distrib)
  ultimately have "\<bar>to_double q - q\<bar> \<le> u / 2"
    by (simp add: to_double_def u_def [symmetric] Let_def)
  with q show ?thesis by simp
qed

lemma to_double_pos: "0 < q \<Longrightarrow> 0 < to_double q"
proof -
  assume q: "0 < q"
  from to_double_error [OF q] have "q - q / 2 ^ 53 \<le> to_double q" by linarith
  moreover have "0 < q - q / 2 ^ 53" using q by simp
  ultimately show ?thesis by linarith
qed

lemma to_double_upper: "0 < q \<Longrightarrow> to_double q \<le> q + q / 2 ^ 53"
  using to_double_error [of q] by linarith

end
