(* ===== verification/ScreenCapture.thy ===== *)
theory ScreenCapture
  imports Bytes Doubles
begin

text \<open>
  \<open>ligament_capture_desktop_rect_bmp\<close> of \<open>runner/input_block.cpp\<close>: the size of the picture, the
  blits with their fallbacks, the JPEG encoding with the BMP as a last resort, and the handles of
  the system that are taken and given back on every path.

  The answers of GDI, GDI+ and the desktop calls are arguments.  The scaled size is computed in
  double precision, with the rounding of each operation.  All other sizes are computed in 32-bit signed integers; where the
  code would copy outside the caller's buffer, the outcome is \<open>OutOfBounds\<close>.
\<close>

definition wrap32 :: "int \<Rightarrow> int" where
  "wrap32 x = sint (word_of_int x :: u32)"

lemma wrap32_id: "- 2147483648 \<le> x \<Longrightarrow> x < 2147483648 \<Longrightarrow> wrap32 x = x"
  by (simp add: wrap32_def signed_of_int signed_take_bit_int_eq_self)

subsection \<open>The system\<close>

datatype resource = RDesk | RScreenDC | RMemDC | RDib | RSrcDC | RSrcDib | RMonDC | RStream

datatype resource_use = Acquire resource | Release resource

record capture_device =
  cd_attached :: bool
  cd_pos :: "(int \<times> int) option"
  cd_dc :: bool
  cd_blt :: bool

record capture_env =
  ce_lock :: bool
  ce_desk :: bool
  ce_attach :: bool
  ce_screenDC :: bool
  ce_metrics :: "int \<times> int"
  ce_memDC :: bool
  ce_dib :: bool
  ce_bits :: bool
  ce_blt :: bool \<comment> \<open>one of the two \<open>BitBlt\<close>s from the screen succeeds\<close>
  ce_devices :: "capture_device list"
  ce_srcDC :: bool
  ce_srcDib :: bool
  ce_srcBits :: bool
  ce_stretch :: bool
  ce_stream :: bool
  ce_jpeg :: "bytes option"
  ce_rows :: "bytes list" \<comment> \<open>the picture as it was drawn, top row first\<close>

text \<open>The handles a sequence of uses leaves; \<open>CloseDesktop\<close> fails for the thread's own desktop.\<close>

fun held :: "capture_env \<Rightarrow> resource_use list \<Rightarrow> resource list \<Rightarrow> resource list" where
  "held e [] rs = rs"
| "held e (Acquire r # us) rs = held e us (r # rs)"
| "held e (Release r # us) rs = held e us (if r = RDesk \<and> ce_attach e then rs else remove1 r rs)"

subsection \<open>Sizes\<close>

text \<open>Quotient and products of doubles; the conversion to \<open>int\<close> drops the fraction.\<close>

definition scaled_target :: "int \<Rightarrow> int \<Rightarrow> int \<Rightarrow> int \<Rightarrow> int \<times> int" where
  "scaled_target max_w max_h w h =
     (if 0 < max_w \<and> 0 < max_h \<and> (max_w < w \<or> max_h < h)
      then let scale = min (to_double (of_int max_w / of_int w)) (to_double (of_int max_h / of_int h));
               tw = \<lfloor>to_double (of_int w * scale)\<rfloor>;
               th = \<lfloor>to_double (of_int h * scale)\<rfloor>
           in (if tw < 1 then 1 else tw, if th < 1 then 1 else th)
      else (w, h))"

definition row_stride :: "int \<Rightarrow> int" where
  "row_stride tw = wrap32 (wrap32 (wrap32 (tw * 32) + 31) div 32 * 4)"

definition pixel_data_size :: "int \<Rightarrow> int \<Rightarrow> int" where
  "pixel_data_size tw th = wrap32 (row_stride tw * th)"

definition total_bmp_size :: "int \<Rightarrow> int \<Rightarrow> int" where
  "total_bmp_size tw th = wrap32 (54 + pixel_data_size tw th)"

subsection \<open>The picture\<close>

fun monitor_fallback :: "int \<Rightarrow> int \<Rightarrow> capture_device list \<Rightarrow> bool \<times> resource_use list" where
  "monitor_fallback x y [] = (False, [])"
| "monitor_fallback x y (d # ds) =
     (if cd_attached d \<and> cd_pos d = Some (x, y)
      then (if cd_dc d then (cd_blt d, [Acquire RMonDC, Release RMonDC]) else (False, []))
      else monitor_fallback x y ds)"

definition captureOneToOne :: "capture_env \<Rightarrow> int \<Rightarrow> int \<Rightarrow> bool \<times> resource_use list" where
  "captureOneToOne e x y = (if ce_blt e then (True, []) else monitor_fallback x y (ce_devices e))"

definition draw :: "capture_env \<Rightarrow> int \<Rightarrow> int \<Rightarrow> int \<Rightarrow> int \<Rightarrow> int \<Rightarrow> int \<Rightarrow> bool \<times> resource_use list" where
  "draw e x y w h tw th =
     (if tw = w \<and> th = h then captureOneToOne e x y
      else if ce_srcDC e
      then (let (ok, us) = (if ce_srcDib e \<and> ce_srcBits e
              then (case captureOneToOne e x y of (ok, us) \<Rightarrow>
                      (ok \<and> ce_stretch e, [Acquire RSrcDib] @ us @ [Release RSrcDib]))
              else if ce_srcDib e then (False, [Acquire RSrcDib, Release RSrcDib]) else (False, []))
            in (ok, [Acquire RSrcDC] @ us @ [Release RSrcDC]))
      else (False, []))"

text \<open>\<open>BITMAPFILEHEADER\<close> and \<open>BITMAPINFOHEADER\<close> with the positive height of the fallback.\<close>

definition bmp_header :: "nat \<Rightarrow> nat \<Rightarrow> nat \<Rightarrow> bytes" where
  "bmp_header fsize tw th =
     [0x42, 0x4D] @ le_bytes 4 fsize @ le_bytes 4 0 @ le_bytes 4 54
     @ le_bytes 4 40 @ le_bytes 4 tw @ le_bytes 4 th @ le_bytes 2 1 @ le_bytes 2 32 @ replicate 24 0"

datatype capture_outcome = Captured bytes int int | Failed int | OutOfBounds

definition bmp_fallback :: "capture_env \<Rightarrow> int \<Rightarrow> int \<Rightarrow> capture_outcome" where
  "bmp_fallback e tw th =
     (let px = pixel_data_size tw th
      in if px < 0 then OutOfBounds
         else Captured (bmp_header (nat (total_bmp_size tw th)) (nat tw) (nat th)
                          @ take (nat px) (concat (ce_rows e))) tw th)"

text \<open>\<open>GetEncoderClsid\<close>: GDI+ lists its encoders by MIME type with a class each; \<open>None\<close>: the list has no
  size.  The loop answers the index of the first that fits, with its class.\<close>

fun encoder_loop :: "string \<Rightarrow> (string \<times> nat) list \<Rightarrow> int \<Rightarrow> int \<times> nat option" where
  "encoder_loop format [] j = (-1, None)"
| "encoder_loop format ((mime, clsid) # es) j =
     (if mime = format then (j, Some clsid) else encoder_loop format es (j + 1))"

definition GetEncoderClsid :: "string \<Rightarrow> (string \<times> nat) list option \<Rightarrow> int \<times> nat option" where
  "GetEncoderClsid format encoders = (case encoders of None \<Rightarrow> (-1, None) | Some es \<Rightarrow> encoder_loop format es 0)"

lemma encoder_loop_first:
  "encoder_loop format es j = (r, Some c) \<Longrightarrow>
     \<exists>pre post. es = pre @ (format, c) # post \<and> format \<notin> fst ` set pre \<and> r = j + int (length pre)"
proof (induction format es j rule: encoder_loop.induct)
  case (2 format mime clsid es j)
  show ?case
  proof (cases "mime = format")
    case True
    then show ?thesis using 2(2) by - (rule exI [of _ "[]"], simp)
  next
    case False
    with 2 obtain pre post where "es = pre @ (format, c) # post" "format \<notin> fst ` set pre" "r = j + 1 + int (length pre)" by auto
    with False show ?thesis by - (rule exI [of _ "(mime, clsid) # pre"], auto)
  qed
qed simp

lemma encoder_loop_found: "0 \<le> j \<Longrightarrow> 0 \<le> fst (encoder_loop format es j) \<longleftrightarrow> format \<in> fst ` set es"
  by (induction format es j rule: encoder_loop.induct) auto

lemma GetEncoderClsid_found:
  "0 \<le> fst (GetEncoderClsid format encoders) \<longleftrightarrow> (\<exists>es. encoders = Some es \<and> format \<in> fst ` set es)"
  by (auto simp: GetEncoderClsid_def encoder_loop_found split: option.split)

definition encode_picture :: "capture_env \<Rightarrow> int \<Rightarrow> int \<Rightarrow> int \<Rightarrow> capture_outcome" where
  "encode_picture e buf_size tw th =
     (case (if ce_stream e then ce_jpeg e else None) of
        Some j \<Rightarrow> if 0 < length j \<and> int (length j) \<le> buf_size then Captured j tw th else bmp_fallback e tw th
      | None \<Rightarrow> bmp_fallback e tw th)"

subsection \<open>The capture\<close>

text \<open>The drawing and encoding once the size is known, and the body of the capture thread from the
  screen's device context on.\<close>

definition capture_sized ::
    "capture_env \<Rightarrow> int \<Rightarrow> int \<Rightarrow> int \<Rightarrow> int \<Rightarrow> int \<Rightarrow> int \<Rightarrow> int \<Rightarrow> capture_outcome \<times> resource_use list" where
  "capture_sized e x y w h tw th buf_size =
     (if buf_size < total_bmp_size tw th then (Failed (-4), [])
      else if \<not> ce_memDC e then (Failed (-5), [])
      else if \<not> ce_dib e then (Failed (-6), [Acquire RMemDC, Release RMemDC])
      else if \<not> ce_bits e
      then (Failed (-6), [Acquire RMemDC, Acquire RDib, Release RDib, Release RMemDC])
      else
        let (ok, us) = draw e x y w h tw th;
            st = (if ok \<and> ce_stream e then [Acquire RStream, Release RStream] else [])
        in (if ok then encode_picture e buf_size tw th else Failed (-7),
            [Acquire RMemDC, Acquire RDib] @ us @ st @ [Release RDib, Release RMemDC]))"

definition source_rect :: "capture_env \<Rightarrow> int \<Rightarrow> int \<Rightarrow> int \<Rightarrow> int \<Rightarrow> int \<times> int \<times> int \<times> int" where
  "source_rect e src_x src_y src_w src_h =
     (if src_w \<le> 0 \<or> src_h \<le> 0 then (0, 0, fst (ce_metrics e), snd (ce_metrics e))
      else (src_x, src_y, src_w, src_h))"

definition capture_screen ::
    "capture_env \<Rightarrow> int \<Rightarrow> int \<Rightarrow> int \<Rightarrow> int \<Rightarrow> int \<Rightarrow> int \<Rightarrow> int \<Rightarrow> capture_outcome \<times> resource_use list" where
  "capture_screen e src_x src_y src_w src_h max_w max_h buf_size =
     (case source_rect e src_x src_y src_w src_h of (x, y, w, h) \<Rightarrow>
        if w \<le> 0 \<or> h \<le> 0 then (Failed (-3), [])
        else (case scaled_target max_w max_h w h of (tw, th) \<Rightarrow> capture_sized e x y w h tw th buf_size))"

definition capture_thread ::
    "capture_env \<Rightarrow> int \<Rightarrow> int \<Rightarrow> int \<Rightarrow> int \<Rightarrow> int \<Rightarrow> int \<Rightarrow> int \<Rightarrow> capture_outcome \<times> resource_use list" where
  "capture_thread e src_x src_y src_w src_h max_w max_h buf_size =
     (let (r, us) = (if ce_screenDC e
            then (case capture_screen e src_x src_y src_w src_h max_w max_h buf_size of (r, us) \<Rightarrow>
                    (r, [Acquire RScreenDC] @ us @ [Release RScreenDC]))
            else (Failed (-2), []))
      in (r, (if ce_desk e then [Acquire RDesk] else []) @ us @ (if ce_desk e then [Release RDesk] else [])))"

text \<open>\<open>ptrs\<close>: the buffer and the three result pointers are given.\<close>

definition ligament_capture_desktop_rect_bmp ::
    "capture_env \<Rightarrow> bool \<Rightarrow> int \<Rightarrow> int \<Rightarrow> int \<Rightarrow> int \<Rightarrow> int \<Rightarrow> int \<Rightarrow> int \<Rightarrow> capture_outcome \<times> resource_use list" where
  "ligament_capture_desktop_rect_bmp e ptrs src_x src_y src_w src_h max_w max_h buf_size =
     (if \<not> ptrs \<or> buf_size \<le> 54 then (Failed (-1), [])
      else if \<not> ce_lock e then (Failed (-98), [])
      else capture_thread e src_x src_y src_w src_h max_w max_h buf_size)"

definition ligament_capture_desktop_bmp ::
    "capture_env \<Rightarrow> bool \<Rightarrow> int \<Rightarrow> int \<Rightarrow> int \<Rightarrow> capture_outcome \<times> resource_use list" where
  "ligament_capture_desktop_bmp e ptrs max_w max_h buf_size =
     ligament_capture_desktop_rect_bmp e ptrs 0 0 0 0 max_w max_h buf_size"

subsection \<open>Handles\<close>

definition balanced :: "capture_env \<Rightarrow> resource_use list \<Rightarrow> bool" where
  "balanced e us \<longleftrightarrow> (\<forall>rs. held e us rs = rs)"

lemma held_append: "held e (us @ vs) rs = held e vs (held e us rs)"
  by (induction e us rs rule: held.induct) simp_all

lemma balanced_Nil [simp, intro]: "balanced e []"
  by (simp add: balanced_def)

lemma balanced_append [intro]: "balanced e us \<Longrightarrow> balanced e vs \<Longrightarrow> balanced e (us @ vs)"
  by (simp add: balanced_def held_append)

lemma balanced_pair [intro]: "r \<noteq> RDesk \<Longrightarrow> balanced e us \<Longrightarrow> balanced e (Acquire r # us @ [Release r])"
  by (simp add: balanced_def held_append)

lemma balanced_two [simp]: "r \<noteq> RDesk \<Longrightarrow> balanced e [Acquire r, Release r]"
  by (simp add: balanced_def)

lemma captureOneToOne_balanced: "balanced e (snd (captureOneToOne e x y))"
proof -
  have "balanced e (snd (monitor_fallback x y ds))" for ds
    by (induction x y ds rule: monitor_fallback.induct) simp_all
  then show ?thesis by (simp add: captureOneToOne_def)
qed

lemma balanced_nested:
  assumes "balanced e us" "q \<noteq> RDesk" "r \<noteq> RDesk"
  shows "balanced e (Acquire q # Acquire r # us @ [Release r, Release q])"
  using assms by (simp add: balanced_def held_append)

lemma draw_balanced: "balanced e (snd (draw e x y w h tw th))"
proof -
  obtain ok us where o: "captureOneToOne e x y = (ok, us)" by fastforce
  then have "balanced e us" using captureOneToOne_balanced [of e x y] by simp
  then show ?thesis
    using o balanced_nested [of e us RSrcDC RSrcDib] balanced_nested [of e "[]" RSrcDC RSrcDib]
    by (simp add: draw_def)
qed

lemma capture_sized_balanced: "balanced e (snd (capture_sized e x y w h tw th n))"
proof -
  obtain ok us where d: "draw e x y w h tw th = (ok, us)" by fastforce
  define st where "st = (if ok \<and> ce_stream e then [Acquire RStream, Release RStream] else [])"
  have "balanced e us" using draw_balanced [of e x y w h tw th] d by simp
  moreover have "balanced e st" by (simp add: st_def)
  ultimately have "balanced e (us @ st)" by (rule balanced_append)
  then show ?thesis
    using d balanced_nested [of e "us @ st" RMemDC RDib] balanced_nested [of e "[]" RMemDC RDib]
    by (simp add: capture_sized_def st_def [symmetric] Let_def)
qed

lemma capture_screen_balanced: "balanced e (snd (capture_screen e x y w h mw mh n))"
  using capture_sized_balanced by (simp add: capture_screen_def split: prod.split)

text \<open>The capture gives back every handle it takes, on each of its error paths as on success,
  with one exception: it closes the desktop while its thread is still attached to it, which the
  system refuses, so that a capture leaves one desktop handle open in the process each time.\<close>

lemma capture_leaves_desktop_handle:
  "held e (snd (ligament_capture_desktop_rect_bmp e ptrs x y w h mw mh n)) [] =
     (if ptrs \<and> 54 < n \<and> ce_lock e \<and> ce_desk e \<and> ce_attach e then [RDesk] else [])"
proof -
  have b: "held e (snd (capture_screen e x y w h mw mh n)) rs = rs" for rs
    using capture_screen_balanced [of e x y w h mw mh n] by (simp add: balanced_def)
  have "held e (snd (capture_thread e x y w h mw mh n)) [] = (if ce_desk e \<and> ce_attach e then [RDesk] else [])"
    using b by (auto simp: capture_thread_def Let_def held_append split: prod.split) 
  then show ?thesis by (auto simp: ligament_capture_desktop_rect_bmp_def)
qed

subsection \<open>The caller's buffer\<close>

lemma sizes_exact:
  assumes "1 \<le> tw" "tw \<le> 16384" "1 \<le> th" "th \<le> 16384"
  shows "row_stride tw = 4 * tw" "pixel_data_size tw th = 4 * tw * th" "total_bmp_size tw th = 54 + 4 * tw * th"
    "4 * tw * th \<le> 1073741824"
proof -
  have "wrap32 (tw * 32) = tw * 32" using assms by (intro wrap32_id) auto
  moreover have "wrap32 (tw * 32 + 31) = tw * 32 + 31" using assms by (intro wrap32_id) auto
  moreover have "(tw * 32 + 31) div 32 = tw" by simp
  moreover have "wrap32 (tw * 4) = tw * 4" using assms by (intro wrap32_id) auto
  ultimately show r: "row_stride tw = 4 * tw" by (simp add: row_stride_def)
  have "tw * th \<le> 16384 * 16384" using assms by (intro mult_mono) auto
  then have p: "0 \<le> tw * th" "tw * th \<le> 268435456" "0 \<le> th * tw" "th * tw \<le> 268435456"
    using assms by (simp_all add: mult.commute)
  then show "4 * tw * th \<le> 1073741824" by simp
  have "wrap32 (4 * tw * th) = 4 * tw * th" using p by (intro wrap32_id) auto
  then show q: "pixel_data_size tw th = 4 * tw * th" by (simp add: pixel_data_size_def r)
  have "wrap32 (54 + 4 * tw * th) = 54 + 4 * tw * th" using p by (intro wrap32_id) auto
  then show "total_bmp_size tw th = 54 + 4 * tw * th" by (simp add: total_bmp_size_def q)
qed

lemma length_bmp_header [simp]: "length (bmp_header n w h) = 54"
  by (simp add: bmp_header_def)

text \<open>A side scaled down to \<open>m\<close>: the quotient and the product are both rounded, and still the side ends
  at no more than \<open>m\<close> and no less than \<open>m - 1\<close>; a side scaled with a factor of at most one does not grow.\<close>

lemma scaled_side_upper:
  assumes "0 < m" "m < 2 ^ 31" "0 < w" "0 < s" "s \<le> to_double (of_int m / of_int w)"
  shows "\<lfloor>to_double (of_int w * s)\<rfloor> \<le> m"
proof -
  let ?q = "of_int m / of_int w :: rat"
  have q: "0 < ?q" "of_int w * ?q = of_int m" using assms(1,3) by simp_all
  have "of_int w * s \<le> of_int w * (?q + ?q / 2 ^ 53)"
    using assms(3,5) to_double_upper [OF q(1)] by (intro mult_left_mono) simp_all
  also have "\<dots> = of_int m + of_int m / 2 ^ 53" using assms(3) by (simp add: distrib_left)
  also have "\<dots> \<le> of_int (2 * m + 1) * 2 powi (- 1)"
  proof -
    have "(of_int m :: rat) \<le> of_int (2 ^ 31)" using assms(2) by (simp only: of_int_le_iff)
    then show ?thesis by (simp add: power_int_minus)
  qed
  finally have "to_double (of_int w * s) \<le> of_int (2 * m + 1) * 2 powi (- 1)"
    using assms(2-4) by (intro to_double_le) simp_all
  also have "\<dots> < of_int m + 1" by (simp add: power_int_minus)
  finally show ?thesis by (simp add: floor_le_iff)
qed

lemma scaled_side_lower:
  assumes "0 < m" "m < 2 ^ 31" "0 < w"
  shows "m \<le> \<lfloor>to_double (of_int w * to_double (of_int m / of_int w))\<rfloor> + 1"
proof -
  let ?q = "of_int m / of_int w :: rat"
  let ?p = "of_int w * to_double ?q"
  have q: "0 < ?q" "of_int w * ?q = of_int m" using assms(1,3) by simp_all
  have "of_int w * (?q - ?q / 2 ^ 53) \<le> ?p"
    using assms(3) to_double_error [OF q(1)] by (intro mult_left_mono) linarith+
  moreover have "of_int w * (?q - ?q / 2 ^ 53) = of_int m - of_int m / 2 ^ 53"
    using assms(3) by (simp add: right_diff_distrib)
  moreover have p: "0 < ?p" using assms(3) to_double_pos [OF q(1)] by simp
  moreover have "?p - ?p / 2 ^ 53 \<le> to_double ?p" using to_double_error [OF p] by linarith
  moreover have "(of_int m :: rat) \<le> of_int (2 ^ 31)" using assms(2) by (simp only: of_int_le_iff)
  ultimately have "of_int m - 1 \<le> to_double ?p" by (simp add: field_simps)
  then have "m - 1 \<le> \<lfloor>to_double ?p\<rfloor>" by (simp add: le_floor_iff)
  then show ?thesis by simp
qed

lemma scaled_side_shrinks:
  assumes "0 < w" "w < 2 ^ 31" "0 < s" "s \<le> 1"
  shows "\<lfloor>to_double (of_int w * s)\<rfloor> \<le> w"
proof -
  have "of_int w * s \<le> of_int w * 2 powi 0" using assms by (simp add: mult_left_le)
  then have "to_double (of_int w * s) \<le> of_int w * 2 powi 0" using assms by (intro to_double_le) simp_all
  then show ?thesis by (simp add: floor_le_iff)
qed

lemma to_double_le_one: "0 < q \<Longrightarrow> q \<le> 1 \<Longrightarrow> to_double q \<le> 1"
  using to_double_le [of q 1 0] by simp

text \<open>The size asked for: within the screen, within the maximum where one is given, and where the
  picture is scaled one side is within a pixel of its maximum.\<close>

definition fits_screen :: "int \<Rightarrow> int \<Rightarrow> int \<Rightarrow> int \<Rightarrow> int \<Rightarrow> int \<Rightarrow> bool" where
  "fits_screen mw mh w h tw th \<longleftrightarrow>
     1 \<le> tw \<and> tw \<le> w \<and> 1 \<le> th \<and> th \<le> h \<and>
     (if 0 < mw \<and> 0 < mh then tw \<le> mw \<and> th \<le> mh \<and> ((tw, th) = (w, h) \<or> mw \<le> tw + 1 \<or> mh \<le> th + 1)
      else (tw, th) = (w, h))"

lemma scaled_target_bounds:
  assumes "1 \<le> w" "1 \<le> h" "w < 2 ^ 31" "h < 2 ^ 31" "mw < 2 ^ 31" "mh < 2 ^ 31" "scaled_target mw mh w h = (tw, th)"
  shows "fits_screen mw mh w h tw th"
proof (cases "0 < mw \<and> 0 < mh \<and> (mw < w \<or> mh < h)")
  case True
  define p q :: rat where "p = of_int mw / of_int w" and "q = of_int mh / of_int h"
  define s where "s = min (to_double p) (to_double q)"
  have pq: "0 < p" "0 < q" using True assms by (simp_all add: p_def q_def)
  have s: "0 < s" "s \<le> to_double p" "s \<le> to_double q" "s = to_double p \<or> s = to_double q"
    using to_double_pos pq by (auto simp: s_def min_def)
  have "p \<le> 1 \<or> q \<le> 1" using True assms by (auto simp: p_def q_def)
  then have s1: "s \<le> 1" using s(2,3) to_double_le_one pq by (meson order_trans)
  let ?a = "\<lfloor>to_double (of_int w * s)\<rfloor>" and ?b = "\<lfloor>to_double (of_int h * s)\<rfloor>"
  have t: "tw = max 1 ?a" "th = max 1 ?b"
    using True assms(7) by (auto simp: scaled_target_def Let_def p_def [symmetric] q_def [symmetric] s_def [symmetric])
  have "?a \<le> mw" "?b \<le> mh"
    using scaled_side_upper [of mw w s] scaled_side_upper [of mh h s] True assms s by (simp_all add: p_def q_def)
  moreover have "?a \<le> w" "?b \<le> h"
    using scaled_side_shrinks [of w s] scaled_side_shrinks [of h s] assms s s1 by simp_all
  moreover have "mw \<le> ?a + 1 \<or> mh \<le> ?b + 1"
    using s(4) scaled_side_lower [of mw w] scaled_side_lower [of mh h] True assms by (auto simp: p_def q_def)
  ultimately show ?thesis using True assms(1,2) by (auto simp: t fits_screen_def)
next
  case False
  then show ?thesis using assms by (auto simp: scaled_target_def fits_screen_def split: if_splits)
qed

lemma encode_picture_bounds:
  assumes "1 \<le> tw" "tw \<le> 16384" "1 \<le> th" "th \<le> 16384" "total_bmp_size tw th \<le> n"
  shows "encode_picture e n tw th \<noteq> OutOfBounds \<and>
    (encode_picture e n tw th = Captured d cw ch \<longrightarrow> int (length d) \<le> n \<and> cw = tw \<and> ch = th)"
proof -
  note x = sizes_exact [OF assms(1-4)]
  have "bmp_fallback e tw th \<noteq> OutOfBounds \<and>
    (bmp_fallback e tw th = Captured d cw ch \<longrightarrow> int (length d) \<le> n \<and> cw = tw \<and> ch = th)"
  proof -
    have z: "0 \<le> 4 * tw * th" using assms by simp
    have "int (min k (nat (4 * tw * th))) \<le> int (nat (4 * tw * th))" for k by (simp only: of_nat_mono min.cobounded2)
    then have "int (min k (nat (4 * tw * th))) \<le> 4 * tw * th" for k by (simp only: int_nat_eq z if_True)
    moreover have "54 + 4 * tw * th \<le> n" using assms(5) x by simp
    ultimately have "54 + int (min k (nat (4 * tw * th))) \<le> n" for k by (meson add_left_mono order_trans)
    then show ?thesis using z x by (auto simp: bmp_fallback_def Let_def)
  qed
  then show ?thesis by (auto simp: encode_picture_def split: option.splits)
qed


definition demo_capture :: capture_env where
  "demo_capture = \<lparr>ce_lock = True, ce_desk = True, ce_attach = True, ce_screenDC = True, ce_metrics = (2, 2),
     ce_memDC = True, ce_dib = True, ce_bits = True, ce_blt = True,
     ce_devices = [], ce_srcDC = True, ce_srcDib = True, ce_srcBits = True, ce_stretch = True,
     ce_stream = False, ce_jpeg = None, ce_rows = [[1, 1, 1, 0], [2, 2, 2, 0]]\<rparr>"


text \<open>Past that size the 32-bit arithmetic overflows: the size of a picture of 40000 by 20000 pixels
  is negative, so it fits every buffer.\<close>

lemma capture_size_overflows:
  "fst (ligament_capture_desktop_rect_bmp demo_capture True 0 0 40000 20000 0 0 100) = OutOfBounds"
proof -
  have t: "total_bmp_size 40000 20000 = -1094967242" "pixel_data_size 40000 20000 = -1094967296"
    by (simp_all add: total_bmp_size_def pixel_data_size_def row_stride_def wrap32_def)
  show ?thesis
    by (simp add: ligament_capture_desktop_rect_bmp_def capture_thread_def capture_screen_def source_rect_def
        scaled_target_def capture_sized_def draw_def captureOneToOne_def encode_picture_def bmp_fallback_def
        demo_capture_def t)
qed

subsection \<open>The fallback picture\<close>

text \<open>A reader of 32-bit BMP files: rows are stored from the bottom if the height is positive.\<close>

fun chunks :: "nat \<Rightarrow> nat \<Rightarrow> bytes \<Rightarrow> bytes list" where
  "chunks k 0 bs = []"
| "chunks k (Suc n) bs = take k bs # chunks k n (drop k bs)"

definition bmp_decode :: "bytes \<Rightarrow> (nat \<times> bytes list) option" where
  "bmp_decode f =
     (if length f < 54 \<or> take 2 f \<noteq> [0x42, 0x4D] then None
      else let off = le_value (take 4 (drop 10 f));
               w = le_value (take 4 (drop 18 f));
               h = le_value (take 4 (drop 22 f))
           in if h < 2 ^ 31 then Some (w, rev (chunks (4 * w) h (drop off f)))
              else Some (w, chunks (4 * w) (2 ^ 32 - h) (drop off f)))"

lemma chunks_concat:
  "(\<forall>r \<in> set rows. length r = k) \<Longrightarrow> chunks k (length rows) (concat rows) = rows"
  by (induction rows) auto

lemma bmp_header_fields:
  assumes "w < 2 ^ 31" "h < 2 ^ 31"
  shows "take 2 (bmp_header n w h @ xs) = [0x42, 0x4D]"
    "le_value (take 4 (drop 10 (bmp_header n w h @ xs))) = 54"
    "le_value (take 4 (drop 18 (bmp_header n w h @ xs))) = w"
    "le_value (take 4 (drop 22 (bmp_header n w h @ xs))) = h"
proof -
  have e: "bmp_header n w h @ xs = [0x42, 0x4D] @ le_bytes 4 n @ le_bytes 4 0 @ le_bytes 4 54
     @ le_bytes 4 40 @ le_bytes 4 w @ le_bytes 4 h @ (le_bytes 2 1 @ le_bytes 2 32 @ replicate 24 0 @ xs)"
    by (simp add: bmp_header_def)
  show "take 2 (bmp_header n w h @ xs) = [0x42, 0x4D]" by (simp add: bmp_header_def)
  have d: "drop 10 (bmp_header n w h @ xs) = le_bytes 4 54
     @ le_bytes 4 40 @ le_bytes 4 w @ le_bytes 4 h @ (le_bytes 2 1 @ le_bytes 2 32 @ replicate 24 0 @ xs)"
    unfolding e by simp
  show "le_value (take 4 (drop 10 (bmp_header n w h @ xs))) = 54"
    unfolding d by (simp add: le_value_le_bytes)
  have "drop 18 (bmp_header n w h @ xs) = drop 8 (drop 10 (bmp_header n w h @ xs))" by simp
  then have d18: "drop 18 (bmp_header n w h @ xs) = le_bytes 4 w @ le_bytes 4 h @ (le_bytes 2 1 @ le_bytes 2 32 @ replicate 24 0 @ xs)"
    unfolding d by simp
  show "le_value (take 4 (drop 18 (bmp_header n w h @ xs))) = w"
    unfolding d18 using assms(1) by (simp add: le_value_le_bytes)
  have "drop 22 (bmp_header n w h @ xs) = drop 4 (drop 18 (bmp_header n w h @ xs))" by simp
  then show "le_value (take 4 (drop 22 (bmp_header n w h @ xs))) = h"
    unfolding d18 using assms(2) by (simp add: le_value_le_bytes)
qed

text \<open>The fallback stores the picture upside down: the rows were drawn top row first and are
  written under a header with a positive height, which says that the bottom row comes first; a
  reader of the file sees the captured rows in reverse order.\<close>

lemma bmp_fallback_upside_down:
  assumes "tw \<in> {1..16384}" and "th \<in> {1..16384}" and "length (ce_rows e) = nat th"
    and "\<forall>r \<in> set (ce_rows e). length r = nat (4 * tw)"
  shows "\<exists>f. bmp_fallback e tw th = Captured f tw th \<and> bmp_decode f = Some (nat tw, rev (ce_rows e))"
proof -
  have x: "pixel_data_size tw th = 4 * tw * th" "0 \<le> 4 * tw * th"
    using sizes_exact [of tw th] assms(1,2) by auto
  have "(\<Sum>r\<leftarrow>ce_rows e. length r) = (\<Sum>r\<leftarrow>ce_rows e. nat (4 * tw))"
    using assms(4) by (intro arg_cong [where f = sum_list] map_cong) auto
  then have "length (concat (ce_rows e)) = nat th * nat (4 * tw)"
    using assms(3) by (simp add: length_concat sum_list_triv)
  then have l: "take (nat (4 * tw * th)) (concat (ce_rows e)) = concat (ce_rows e)"
    using assms(1,2) by (simp add: nat_mult_distrib ac_simps)
  let ?f = "bmp_header (nat (total_bmp_size tw th)) (nat tw) (nat th) @ concat (ce_rows e)"
  have "bmp_fallback e tw th = Captured ?f tw th"
    using x l by (simp add: bmp_fallback_def Let_def)
  moreover have "bmp_decode ?f = Some (nat tw, rev (ce_rows e))"
  proof -
    have lt: "nat tw < 2 ^ 31" "nat th < 2 ^ 31" using assms(1,2) by auto
    note h = bmp_header_fields [OF lt]
    have "chunks (4 * nat tw) (nat th) (concat (ce_rows e)) = ce_rows e"
      using chunks_concat [of "ce_rows e" "4 * nat tw"] assms(1,3,4) by (simp add: nat_mult_distrib)
    then show ?thesis using lt(2) h [where xs = "[]"] by (simp add: bmp_decode_def Let_def)
  qed
  ultimately show ?thesis by blast
qed

lemma bmp_fallback_upside_down_example:
  "\<exists>f. bmp_fallback demo_capture 1 2 = Captured f 1 2 \<and> bmp_decode f = Some (1, [[2, 2, 2, 0], [1, 1, 1, 0]])"
  using bmp_fallback_upside_down [of 1 2 demo_capture] by (simp add: demo_capture_def)

end
