(* ===== verification/DebugLogFields.thy ===== *)
theory DebugLogFields
  imports Std_Strings
begin

text \<open>
  The rules of \<open>runner/debug_log.h\<close> for what may enter the diagnostic log: events, levels, error
  fields and the context, a list of \<open>key=value\<close> fields with a rule for each key.

  The loops of the code are recursive functions over the text; the lemmas relate them to the
  grammars they stand for, and bound the characters that can reach a line of the log.
\<close>

subsection \<open>Characters and fields\<close>

definition char_in :: "char \<Rightarrow> char \<Rightarrow> char \<Rightarrow> bool" where
  "char_in a b c \<longleftrightarrow> (of_char a :: nat) \<le> of_char c \<and> (of_char c :: nat) \<le> of_char b"

definition field_char :: "bool \<Rightarrow> bool \<Rightarrow> char \<Rightarrow> bool" where
  "field_char uppercase hyphen c \<longleftrightarrow>
     char_in CHR ''a'' CHR ''z'' c \<or> char_in CHR ''0'' CHR ''9'' c \<or> c = CHR ''_'' \<or> c = CHR ''.''
     \<or> uppercase \<and> char_in CHR ''A'' CHR ''Z'' c \<or> hyphen \<and> c = CHR ''-''"

definition ValidField :: "string \<Rightarrow> nat \<Rightarrow> bool \<Rightarrow> bool \<Rightarrow> bool" where
  "ValidField v limit uppercase hyphen \<longleftrightarrow>
     v \<noteq> [] \<and> length v \<le> limit \<and> list_all (field_char uppercase hyphen) v"

definition ValidEvent :: "string \<Rightarrow> bool" where
  "ValidEvent v = ValidField v 80 False True"

definition ValidLevel :: "string \<Rightarrow> bool" where
  "ValidLevel v \<longleftrightarrow> v = ''INFO'' \<or> v = ''WARN'' \<or> v = ''ERROR''"

definition ValidErrorType :: "string \<Rightarrow> bool" where
  "ValidErrorType v = ValidField v 64 True False"

definition ValidErrorCode :: "string \<Rightarrow> bool" where
  "ValidErrorCode v = ValidField v 64 True True"

subsection \<open>Values\<close>

fun number_loop :: "string \<Rightarrow> bool \<Rightarrow> bool \<Rightarrow> bool" where
  "number_loop [] digit dot = digit"
| "number_loop (c # cs) digit dot =
     (if is_digit c then number_loop cs True dot
      else if c = CHR ''.'' \<and> \<not> dot \<and> digit \<and> cs \<noteq> [] then number_loop cs digit True
      else False)"

definition ValidNumber :: "string \<Rightarrow> bool" where
  "ValidNumber v =
     (if v = [] \<or> length v > 32 then False
      else number_loop (if hd v = CHR ''-'' then tl v else v) False False)"

definition hex_char :: "char \<Rightarrow> bool" where
  "hex_char c \<longleftrightarrow> char_in CHR ''0'' CHR ''9'' c \<or> char_in CHR ''a'' CHR ''f'' c \<or> char_in CHR ''A'' CHR ''F'' c"

definition ValidUuid :: "string \<Rightarrow> bool" where
  "ValidUuid v \<longleftrightarrow> length v = 36 \<and>
     list_all (\<lambda>i. if i = 8 \<or> i = 13 \<or> i = 18 \<or> i = 23 then v ! i = CHR ''-'' else hex_char (v ! i)) [0..<36]"

definition LooksLikeSecret :: "string \<Rightarrow> bool" where
  "LooksLikeSecret v \<longleftrightarrow> \<not> length v < 32 \<and> list_all hex_char v"

definition number_keys :: "string list" where
  "number_keys = [''request_id'', ''attempt'', ''duration_ms'', ''elapsed_ms'', ''count'', ''bytes'',
     ''response_bytes'', ''sent_bytes'', ''received_bytes'', ''width'', ''height'', ''frames'', ''rtt_ms'',
     ''queue_bytes'', ''acked_seq'', ''seq'', ''cursor'', ''ice_servers'', ''candidates'', ''tracks'',
     ''timeout_ms'', ''code'', ''http_status'', ''fps'', ''step'', ''monitor'', ''restarts'']"

definition boolean_keys :: "string list" where
  "boolean_keys = [''connected'', ''frame_ready'', ''control_ready'', ''owner'', ''recorder_enabled'',
     ''mandatory'', ''first_frame_acked'', ''is_relay'']"

definition label_keys :: "string list" where
  "label_keys = [''phase'', ''origin'', ''reason'', ''state'', ''ice_state'', ''pc_state'', ''dc_state'',
     ''message_type'', ''transport'', ''operation'', ''result'', ''status'', ''codec'', ''channel'', ''component'']"

definition uuid_keys :: "string list" where
  "uuid_keys = [''session_id'', ''agent_id'', ''challenge_id'', ''target_id'']"

definition method_names :: "string list" where
  "method_names = [''GET'', ''POST'', ''PUT'', ''PATCH'', ''DELETE'', ''HEAD'', ''OPTIONS'']"

definition server_char :: "char \<Rightarrow> bool" where
  "server_char c \<longleftrightarrow> field_char True True c \<or> c = CHR ''['' \<or> c = CHR '']'' \<or> c = CHR '':''"

definition route_char :: "char \<Rightarrow> bool" where
  "route_char c \<longleftrightarrow> field_char True True c \<or> c = CHR ''/'' \<or> c = CHR ''{'' \<or> c = CHR ''}'' \<or> c = CHR '':''"

definition ValidContextValue :: "string \<Rightarrow> string \<Rightarrow> bool" where
  "ValidContextValue key v =
     (if key \<in> set number_keys then ValidNumber v
      else if key \<in> set boolean_keys then v = ''true'' \<or> v = ''false''
      else if key \<in> set uuid_keys then ValidUuid v
      else if key \<in> set label_keys then ValidErrorCode v \<and> \<not> LooksLikeSecret v
      else if key = ''method'' then v \<in> set method_names
      else if key = ''server'' then v \<noteq> [] \<and> length v \<le> 253 \<and> list_all server_char v
      else if key = ''route''
      then v \<noteq> [] \<and> hd v = CHR ''/'' \<and> length v \<le> 240 \<and> list_all route_char v
      else False)"

subsection \<open>The context\<close>

definition valid_token :: "string \<Rightarrow> bool" where
  "valid_token token = (case chr_find token CHR ''='' 0 of
     None \<Rightarrow> False
   | Some e \<Rightarrow> ValidContextValue (take e token) (drop (e + 1) token))"

function context_loop :: "nat \<Rightarrow> string \<Rightarrow> bool" where
  "context_loop fields ctx =
     (if ctx = [] then True
      else if Suc fields > 64 then False
      else case chr_find ctx CHR '' '' 0 of
        None \<Rightarrow> valid_token ctx
      | Some space \<Rightarrow>
          valid_token (take space ctx) \<and> drop (space + 1) ctx \<noteq> []
          \<and> context_loop (Suc fields) (drop (space + 1) ctx))"
  by pat_completeness auto
termination by (relation "measure (\<lambda>(fields, ctx). length ctx)") auto

declare context_loop.simps [simp del]

definition ValidContext :: "string \<Rightarrow> bool" where
  "ValidContext ctx = (if length ctx > 4096 then False else context_loop 0 ctx)"

subsection \<open>Numbers as a grammar\<close>

definition all_digits :: "string \<Rightarrow> bool" where
  "all_digits v \<longleftrightarrow> v \<noteq> [] \<and> list_all is_digit v"

text \<open>Digits, and after a dot more digits.\<close>

definition number_shape :: "string \<Rightarrow> bool" where
  "number_shape v \<longleftrightarrow> all_digits v \<or> (\<exists>ds fs. v = ds @ CHR ''.'' # fs \<and> all_digits ds \<and> all_digits fs)"

lemma dot_no_digit [simp]: "\<not> is_digit CHR ''.''"
  by (simp add: is_digit_def)

lemma number_loop_dot: "number_loop v True True \<longleftrightarrow> list_all is_digit v"
  by (induction v) simp_all

definition decimal :: "string \<Rightarrow> bool" where
  "decimal v \<longleftrightarrow> list_all is_digit v \<or> (\<exists>ds fs. v = ds @ CHR ''.'' # fs \<and> list_all is_digit ds \<and> all_digits fs)"

lemma decimal_Nil [simp]: "decimal []"
  by (simp add: decimal_def)

lemma decimal_digit: "is_digit c \<Longrightarrow> decimal (c # cs) \<longleftrightarrow> decimal cs"
proof
  assume d: "is_digit c" and "decimal (c # cs)"
  then consider "list_all is_digit cs"
    | ds fs where "c # cs = ds @ CHR ''.'' # fs" "list_all is_digit ds" "all_digits fs"
    unfolding decimal_def by auto
  then show "decimal cs"
  proof cases
    case 2
    moreover have "c \<noteq> CHR ''.''" using d by auto
    ultimately obtain ds' where "ds = c # ds'" "cs = ds' @ CHR ''.'' # fs" by (cases ds) auto
    with 2 show ?thesis unfolding decimal_def by auto
  qed (simp add: decimal_def)
next
  assume d: "is_digit c" and "decimal cs"
  then consider "list_all is_digit cs"
    | ds fs where "cs = ds @ CHR ''.'' # fs" "list_all is_digit ds" "all_digits fs"
    unfolding decimal_def by auto
  then show "decimal (c # cs)"
  proof cases
    case 2
    then have "c # cs = (c # ds) @ CHR ''.'' # fs" "list_all is_digit (c # ds)" using d by simp_all
    with 2(3) show ?thesis unfolding decimal_def by blast
  qed (use d in \<open>simp add: decimal_def\<close>)
qed

lemma decimal_other: "\<not> is_digit c \<Longrightarrow> decimal (c # cs) \<longleftrightarrow> c = CHR ''.'' \<and> all_digits cs"
proof -
  assume n: "\<not> is_digit c"
  have "ds = []" if "c # cs = ds @ CHR ''.'' # fs" "list_all is_digit ds" for ds fs
    using that n by (cases ds) auto
  then have ds: "ds = []" if "c # cs = ds @ CHR ''.'' # fs \<and> list_all is_digit ds \<and> all_digits fs" for ds fs
    using that by blast
  show ?thesis
  proof
    assume "decimal (c # cs)"
    then obtain ds fs where e: "c # cs = ds @ CHR ''.'' # fs \<and> list_all is_digit ds \<and> all_digits fs"
      using n unfolding decimal_def by auto
    with ds [OF e] show "c = CHR ''.'' \<and> all_digits cs" by simp
  next
    assume "c = CHR ''.'' \<and> all_digits cs"
    then have "c # cs = [] @ CHR ''.'' # cs \<and> list_all is_digit [] \<and> all_digits cs" by simp
    then show "decimal (c # cs)" unfolding decimal_def by blast
  qed
qed

lemma number_loop_digit: "number_loop v True False \<longleftrightarrow> decimal v"
proof (induction v)
  case (Cons c cs)
  then show ?case
    by (cases "is_digit c") (auto simp: decimal_digit decimal_other number_loop_dot all_digits_def)
qed simp

lemma number_shape_Cons: "number_shape (c # cs) \<longleftrightarrow> is_digit c \<and> decimal cs"
proof (cases "is_digit c")
  case True
  have c: "c \<noteq> CHR ''.''" using True by auto
  have "number_shape (c # cs) \<longleftrightarrow> decimal (c # cs)"
  proof
    assume "decimal (c # cs)"
    then consider "list_all is_digit cs"
      | ds fs where "c # cs = ds @ CHR ''.'' # fs" "list_all is_digit ds" "all_digits fs"
      unfolding decimal_def by auto
    then show "number_shape (c # cs)"
    proof cases
      case 2
      then have "all_digits ds" using c by (cases ds) (auto simp: all_digits_def)
      with 2 show ?thesis unfolding number_shape_def by blast
    qed (use True in \<open>simp add: number_shape_def all_digits_def\<close>)
  qed (auto simp: number_shape_def decimal_def all_digits_def)
  with True show ?thesis by (simp add: decimal_digit)
next
  case False
  have "\<not> all_digits ds" if "c # cs = ds @ CHR ''.'' # fs" for ds fs
    using that False by (cases ds) (auto simp: all_digits_def)
  with False show ?thesis by (auto simp: number_shape_def all_digits_def)
qed

lemma number_loop_shape: "number_loop v False False \<longleftrightarrow> number_shape v"
  by (cases v) (auto simp: number_shape_Cons number_loop_digit, simp_all add: number_shape_def all_digits_def)

lemma ValidNumber_shape:
  "ValidNumber v \<longleftrightarrow> length v \<le> 32 \<and> (number_shape v \<or> (\<exists>w. v = CHR ''-'' # w \<and> number_shape w))"
proof (cases v)
  case (Cons c cs)
  have "\<not> number_shape (CHR ''-'' # cs)" by (simp add: number_shape_Cons is_digit_def)
  with Cons show ?thesis by (auto simp: ValidNumber_def number_loop_shape)
qed (simp add: ValidNumber_def number_shape_def all_digits_def)

subsection \<open>The context as a list of fields\<close>

fun split_on :: "char \<Rightarrow> string \<Rightarrow> string list" where
  "split_on s [] = [[]]"
| "split_on s (c # cs) =
     (if c = s then [] # split_on s cs else case split_on s cs of w # ws \<Rightarrow> (c # w) # ws | [] \<Rightarrow> [[c]])"

lemma split_on_nonempty [simp]: "split_on s v \<noteq> []"
  by (induction v) (auto split: list.split)

lemma split_on_none: "s \<notin> set v \<Longrightarrow> split_on s v = [v]"
  by (induction v) auto

lemma split_on_at: "s \<notin> set u \<Longrightarrow> split_on s (u @ s # v) = u # split_on s v"
  by (induction u) auto

lemma chr_find_0_split:
  "chr_find v c 0 = Some i \<Longrightarrow> v = take i v @ c # drop (i + 1) v \<and> c \<notin> set (take i v)"
proof -
  assume "chr_find v c 0 = Some i"
  from chr_find_Some [OF this] have i: "i < length v" "v ! i = c" "\<forall>k < i. v ! k \<noteq> c" by auto
  then have "v = take i v @ c # drop (i + 1) v" by (metis Suc_eq_plus1 id_take_nth_drop)
  moreover have "c \<notin> set (take i v)" using i by (auto simp: in_set_conv_nth)
  ultimately show ?thesis by simp
qed

lemma chr_find_0_None: "chr_find v c 0 = None \<longleftrightarrow> c \<notin> set v"
  by (auto simp: chr_find_def find_if_None)

lemma context_loop_fields:
  "context_loop n ctx \<longleftrightarrow> ctx = [] \<or> (n + length (split_on CHR '' '' ctx) \<le> 64 \<and> list_all valid_token (split_on CHR '' '' ctx))"
proof (induction n ctx rule: context_loop.induct)
  case (1 n ctx)
  show ?case
  proof (cases "chr_find ctx CHR '' '' 0")
    case None
    then have "split_on CHR '' '' ctx = [ctx]" by (simp add: split_on_none chr_find_0_None)
    with None show ?thesis by (subst context_loop.simps) auto
  next
    case (Some i)
    define u v where "u = take i ctx" and "v = drop (i + 1) ctx"
    have c: "ctx = u @ CHR '' '' # v" "CHR '' '' \<notin> set u"
      using chr_find_0_split [OF Some] by (simp_all add: u_def v_def)
    have ne: "ctx \<noteq> []" unfolding c(1) by simp
    have ih: "context_loop (Suc n) v \<longleftrightarrow> v = [] \<or> (Suc n + length (split_on CHR '' '' v) \<le> 64 \<and> list_all valid_token (split_on CHR '' '' v))"
      if "\<not> Suc n > 64" unfolding v_def by (rule 1 [OF ne that Some])
    have nt: "\<not> valid_token []" by (simp add: valid_token_def chr_find_def)
    have l: "1 \<le> length (split_on CHR '' '' v)" by (simp add: Suc_le_eq)
    have e: "context_loop n ctx \<longleftrightarrow> Suc n \<le> 64 \<and> valid_token u \<and> v \<noteq> [] \<and> context_loop (Suc n) v"
    proof -
      show ?thesis unfolding u_def v_def by (subst context_loop.simps) (auto simp: ne Some)
    qed
    show ?thesis
    proof (cases "n < 64")
      case True
      then have "context_loop (Suc n) v \<longleftrightarrow> v = [] \<or> (Suc n + length (split_on CHR '' '' v) \<le> 64 \<and> list_all valid_token (split_on CHR '' '' v))"
        using ih by simp
      moreover have "split_on CHR '' '' ctx = u # split_on CHR '' '' v" using c by (simp add: split_on_at)
      moreover have "v = [] \<Longrightarrow> \<not> list_all valid_token (split_on CHR '' '' v)" using nt by simp
      ultimately show ?thesis using c(1) True nt unfolding e by (cases "v = []") auto
    next
      case False
      moreover have "split_on CHR '' '' ctx = u # split_on CHR '' '' v" using c by (simp add: split_on_at)
      ultimately show ?thesis using c(1) unfolding e by simp
    qed
  qed
qed

subsection \<open>What can be logged\<close>

text \<open>Visible ASCII, which excludes line breaks, blanks and every control character.\<close>

definition visible :: "char \<Rightarrow> bool" where
  "visible c \<longleftrightarrow> 33 \<le> (of_char c :: nat) \<and> (of_char c :: nat) \<le> 126"

lemma visible_field: "field_char up hy c \<Longrightarrow> visible c"
  by (auto simp: field_char_def char_in_def visible_def)

lemma visible_digit: "is_digit c \<Longrightarrow> visible c"
  by (simp add: is_digit_def visible_def)

lemma visible_hex: "hex_char c \<Longrightarrow> visible c"
  by (auto simp: hex_char_def char_in_def visible_def)

lemma ValidField_visible: "ValidField v n up hy \<Longrightarrow> list_all visible v"
  by (auto simp: ValidField_def list_all_iff dest: visible_field)

lemma ValidNumber_visible: "ValidNumber v \<Longrightarrow> list_all visible v"
  by (auto simp: ValidNumber_shape number_shape_def all_digits_def list_all_iff visible_digit)
    (simp_all add: visible_def)

lemma ValidUuid_visible: "ValidUuid v \<Longrightarrow> list_all visible v"
proof -
  assume u: "ValidUuid v"
  have d: "visible CHR ''-''" by (simp add: visible_def)
  have "visible (v ! i)" if "i < 36" for i
  proof -
    have "\<forall>i \<in> set [0..<36]. if i = 8 \<or> i = 13 \<or> i = 18 \<or> i = 23 then v ! i = CHR ''-'' else hex_char (v ! i)"
      using u unfolding ValidUuid_def list_all_iff by blast
    moreover have "i \<in> set [0..<36]" using that by (simp only: set_upt atLeastLessThan_iff) simp
    ultimately have "if i = 8 \<or> i = 13 \<or> i = 18 \<or> i = 23 then v ! i = CHR ''-'' else hex_char (v ! i)" by blast
    then show ?thesis using d visible_hex by (metis (full_types))
  qed
  moreover have "length v = 36" using u by (simp add: ValidUuid_def)
  ultimately show ?thesis by (simp add: list_all_length)
qed

lemma method_visible: "v \<in> set method_names \<Longrightarrow> list_all visible v"
proof -
  have "list_all (list_all visible) method_names" by (simp add: method_names_def visible_def)
  then show "v \<in> set method_names \<Longrightarrow> list_all visible v" by (rule list_all_setD)
qed

lemma url_chars_visible: "list_all server_char v \<or> list_all route_char v \<Longrightarrow> list_all visible v"
proof -
  have "visible c" if "server_char c \<or> route_char c" for c
    using that visible_field by (auto simp: server_char_def route_char_def visible_def)
  then show "list_all server_char v \<or> list_all route_char v \<Longrightarrow> list_all visible v" by (auto simp: list_all_iff)
qed

lemma context_key:
  "ValidContextValue k v \<Longrightarrow> k \<in> set (number_keys @ boolean_keys @ uuid_keys @ label_keys @ [''method'', ''server'', ''route''])"
  unfolding ValidContextValue_def by (simp split: if_splits) 

lemma ValidContextValue_visible:
  assumes "ValidContextValue k v"
  shows "list_all visible k \<and> list_all visible v"
proof
  have b: "list_all visible ''true''" "list_all visible ''false''" by (simp_all add: visible_def)
  consider "ValidNumber v" | "v = ''true'' \<or> v = ''false''" | "ValidUuid v" | "ValidErrorCode v"
    | "v \<in> set method_names" | "list_all server_char v \<or> list_all route_char v"
    using assms unfolding ValidContextValue_def by (auto split: if_splits)
  then show "list_all visible v"
  proof cases
    case 6
    then show ?thesis by (rule url_chars_visible)
  qed (use b in \<open>auto dest: ValidNumber_visible ValidUuid_visible ValidField_visible method_visible
      simp: ValidErrorCode_def\<close>)
  have "list_all (list_all visible) (number_keys @ boolean_keys @ uuid_keys @ label_keys @ [''method'', ''server'', ''route''])"
    by (simp add: number_keys_def boolean_keys_def uuid_keys_def label_keys_def visible_def)
  then show "list_all visible k" using context_key [OF assms] by (rule list_all_setD)
qed

lemma valid_token_visible: "valid_token t \<Longrightarrow> list_all visible t"
proof -
  assume t: "valid_token t"
  then obtain e where e: "chr_find t CHR ''='' 0 = Some e" "ValidContextValue (take e t) (drop (e + 1) t)"
    by (auto simp: valid_token_def split: option.splits)
  have "t = take e t @ CHR ''='' # drop (e + 1) t" using chr_find_0_split [OF e(1)] by blast
  moreover have "list_all visible (take e t @ CHR ''='' # drop (e + 1) t)"
    using ValidContextValue_visible [OF e(2)] by (simp add: visible_def [of "CHR ''=''"])
  ultimately show ?thesis by metis
qed

lemma split_on_all: "list_all (list_all P) (split_on s v) \<Longrightarrow> list_all (\<lambda>c. P c \<or> c = s) v"
proof (induction v)
  case (Cons c cs)
  obtain w ws where "split_on s cs = w # ws" by (cases "split_on s cs") simp_all
  with Cons show ?case by (auto split: if_splits)
qed simp

lemma context_fields_visible:
  assumes "ValidContext ctx" "ctx \<noteq> []"
  shows "list_all (list_all visible) (split_on CHR '' '' ctx)"
proof -
  from assms have "list_all valid_token (split_on CHR '' '' ctx)"
    by (simp add: ValidContext_def context_loop_fields split: if_splits)
  then show ?thesis
    unfolding list_all_iff [of valid_token] list_all_iff [of "list_all visible"] using valid_token_visible by blast
qed

text \<open>C33. The loop over the context is the grammar it stands for: at most 4096 characters, at most 64
  fields separated by single blanks, and each field a known key, an equals sign and a value the
  key's rule accepts; the rule for numbers is a decimal literal of at most 32 characters.\<close>

theorem context_is_fields:
  "(ValidContext ctx \<longleftrightarrow> length ctx \<le> 4096 \<and>
      (ctx = [] \<or> (length (split_on CHR '' '' ctx) \<le> 64 \<and> list_all valid_token (split_on CHR '' '' ctx))))
   \<and> (ValidNumber n \<longleftrightarrow> length n \<le> 32 \<and> (number_shape n \<or> (\<exists>w. n = CHR ''-'' # w \<and> number_shape w)))"
  by (auto simp: ValidContext_def context_loop_fields ValidNumber_shape)

lemma valid_token_field: "CHR ''='' \<notin> set k \<Longrightarrow> valid_token (k @ CHR ''='' # v) \<longleftrightarrow> ValidContextValue k v"
proof -
  assume k: "CHR ''='' \<notin> set k"
  have "find_if (\<lambda>x. x = CHR ''='') (k @ CHR ''='' # v) 0 = Some (0 + length k)"
    by (rule find_if_append) (use k in auto)
  then show ?thesis by (simp add: valid_token_def chr_find_def)
qed

end
