(* ===== verification/DebugLogSecurity.thy ===== *)
theory DebugLogSecurity
  imports Prelude
begin

text \<open>
  \<open>CheckHandle\<close> of \<open>runner/debug_log.cpp\<close> and the decisions of \<open>runner/debug_log.h\<close> it rests on:
  whether an opened directory or file may hold the log of a privileged process.

  What the system reports of the object (attributes, owner, the entries of its access list) is an
  argument, once as it is found and once as it is after the list has been replaced.
\<close>

datatype log_status =
    LogOk | LogAccessDenied | LogInvalidAcl | LogInvalidOwner | LogWin32 | LogWriteFault | LogReadFault
  | LogPathNotFound | LogInvalidData | LogInvalidParameter | LogNotReady

datatype trustee = TrusteeSystem | TrusteeAdmins | TrusteeOther

datatype ace_type = AceAllowed | AceDenied | AceOtherType

record ace =
  ace_type :: ace_type
  ace_flags :: u8
  ace_sized :: bool \<comment> \<open>the entry is long enough for its SID, and the SID is valid\<close>
  ace_sid :: trustee
  ace_mask :: u32

record file_object =
  fo_info :: "(bool \<times> bool \<times> nat) option" \<comment> \<open>reparse point, directory, number of links\<close>
  fo_security :: bool \<comment> \<open>owner and access list can be read\<close>
  fo_aclValid :: bool \<comment> \<open>the list is present and valid\<close>
  fo_protected :: bool
  fo_owner :: "trustee option" \<comment> \<open>\<open>None\<close>: no valid owner\<close>
  fo_sids :: bool \<comment> \<open>the well-known SIDs can be made\<close>
  fo_aces :: "ace list"

subsection \<open>Decisions\<close>

definition kParentReadOnlyAccess :: u32 where "kParentReadOnlyAccess = 0x001200a9 OR 0xa0000000"
definition kFileAllAccess :: u32 where "kFileAllAccess = 0x001f01ff"
definition kPrivateAceFlags :: u8 where "kPrivateAceFlags = 0x03"
definition INHERIT_ONLY_ACE :: u8 where "INHERIT_ONLY_ACE = 0x08"
definition known_ace_flags :: u8 where "known_ace_flags = 0x1F"

definition SafeParentAllow :: "bool \<Rightarrow> bool \<Rightarrow> u32 \<Rightarrow> bool" where
  "SafeParentAllow privileged inherit_only access \<longleftrightarrow>
     privileged \<or> inherit_only \<or> access AND NOT kParentReadOnlyAccess = 0"

definition PrivateAllow :: "bool \<Rightarrow> u32 \<Rightarrow> u8 \<Rightarrow> bool" where
  "PrivateAllow allow access flags \<longleftrightarrow>
     allow \<and> access = kFileAllAccess \<and> flags AND NOT kPrivateAceFlags = 0"

datatype security_use = UseParent | UseLogDirectory | UseLogFile
datatype security_decision = Reject | Accept | Tighten

definition DecideSecurity :: "security_use \<Rightarrow> bool \<Rightarrow> bool \<Rightarrow> bool \<Rightarrow> bool \<Rightarrow> security_decision" where
  "DecideSecurity use safe_object privileged_owner safe_parent_acl private_acl =
     (if \<not> safe_object \<or> \<not> privileged_owner then Reject
      else if use = UseParent then (if safe_parent_acl then Accept else Reject)
      else if private_acl then Accept
      else if use = UseLogDirectory \<and> safe_parent_acl then Tighten else Reject)"

subsection \<open>The access list\<close>

record acl_scan =
  sc_private :: bool
  sc_safeParent :: bool
  sc_system :: bool
  sc_admin :: bool

definition scan_ace :: "ace \<Rightarrow> acl_scan \<Rightarrow> acl_scan" where
  "scan_ace a sc =
     (let allow = (ace_type a = AceAllowed);
          is_system = (ace_sid a = TrusteeSystem);
          is_admin = (ace_sid a = TrusteeAdmins);
          sc = (if allow \<and> \<not> SafeParentAllow (is_system \<or> is_admin) (ace_flags a AND INHERIT_ONLY_ACE \<noteq> 0) (ace_mask a)
                then sc\<lparr>sc_safeParent := False\<rparr> else sc);
          sc = (if \<not> PrivateAllow allow (ace_mask a) (ace_flags a) then sc\<lparr>sc_private := False\<rparr> else sc)
      in if is_system \<and> \<not> sc_system sc then sc\<lparr>sc_system := True\<rparr>
         else if is_admin \<and> \<not> sc_admin sc then sc\<lparr>sc_admin := True\<rparr>
         else sc\<lparr>sc_private := False\<rparr>)"

definition ace_readable :: "ace \<Rightarrow> bool" where
  "ace_readable a \<longleftrightarrow> ace_type a \<noteq> AceOtherType \<and> ace_flags a AND NOT known_ace_flags = 0 \<and> ace_sized a"

fun scan_acl :: "ace list \<Rightarrow> acl_scan \<Rightarrow> acl_scan option" where
  "scan_acl [] sc = Some sc"
| "scan_acl (a # as) sc = (if ace_readable a then scan_acl as (scan_ace a sc) else None)"

definition check_object :: "bool \<Rightarrow> security_use \<Rightarrow> file_object \<Rightarrow> log_status + security_decision" where
  "check_object worker use ob =
     (case fo_info ob of
        None \<Rightarrow> Inl LogWin32
      | Some (reparse, directory, links) \<Rightarrow>
          if reparse \<or> directory \<noteq> (use \<noteq> UseLogFile) \<or> links \<noteq> 1 then Inl LogAccessDenied
          else if \<not> worker then Inr Accept
          else if \<not> fo_security ob then Inl LogWin32
          else if \<not> fo_aclValid ob then Inl LogInvalidAcl
          else case fo_owner ob of
            None \<Rightarrow> Inl LogInvalidOwner
          | Some owner \<Rightarrow>
              if \<not> fo_sids ob then Inl LogWin32
              else case scan_acl (fo_aces ob) \<lparr>sc_private = (fo_protected ob \<and> length (fo_aces ob) = 2),
                       sc_safeParent = True, sc_system = False, sc_admin = False\<rparr> of
                None \<Rightarrow> Inl LogInvalidAcl
              | Some sc \<Rightarrow>
                  Inr (DecideSecurity use True (owner = TrusteeSystem \<or> owner = TrusteeAdmins)
                         (sc_safeParent sc) (sc_private sc \<and> sc_system sc \<and> sc_admin sc)))"

text \<open>\<open>repair_acl\<close>: the caller brings a list to tighten the object with; \<open>repaired\<close>: setting it
  succeeds.  The second component says whether the list was replaced.\<close>

definition CheckHandle ::
    "bool \<Rightarrow> security_use \<Rightarrow> bool \<Rightarrow> bool \<Rightarrow> file_object \<Rightarrow> file_object \<Rightarrow> log_status \<times> bool" where
  "CheckHandle worker use repair_acl repaired ob after =
     (case check_object worker use ob of
        Inl e \<Rightarrow> (e, False)
      | Inr Accept \<Rightarrow> (LogOk, False)
      | Inr d \<Rightarrow>
          if d \<noteq> Tighten \<or> \<not> repair_acl then (LogAccessDenied, False)
          else if \<not> repaired then (LogWin32, False)
          else (case check_object worker use after of
                  Inl e \<Rightarrow> (e, True)
                | Inr Accept \<Rightarrow> (LogOk, True)
                | Inr _ \<Rightarrow> (LogAccessDenied, True)))"

subsection \<open>What an accepted object is\<close>

text \<open>Nobody but the system and the administrators can write to the object.\<close>

definition read_only_for_others :: "file_object \<Rightarrow> bool" where
  "read_only_for_others ob \<longleftrightarrow> list_all (\<lambda>a. ace_type a = AceAllowed \<and> ace_sid a = TrusteeOther
      \<and> ace_flags a AND INHERIT_ONLY_ACE = 0 \<longrightarrow> ace_mask a AND NOT kParentReadOnlyAccess = 0) (fo_aces ob)"

definition full_access :: "trustee \<Rightarrow> ace \<Rightarrow> bool" where
  "full_access t a \<longleftrightarrow> ace_type a = AceAllowed \<and> ace_sid a = t \<and> ace_mask a = kFileAllAccess
     \<and> ace_flags a AND NOT kPrivateAceFlags = 0"

text \<open>The list holds exactly the two entries of the system and the administrators.\<close>

definition private_object :: "file_object \<Rightarrow> bool" where
  "private_object ob \<longleftrightarrow> fo_protected ob \<and>
     (\<exists>a b. fo_aces ob = [a, b] \<and> (full_access TrusteeSystem a \<and> full_access TrusteeAdmins b
        \<or> full_access TrusteeAdmins a \<and> full_access TrusteeSystem b))"

definition own_plain_object :: "security_use \<Rightarrow> file_object \<Rightarrow> bool" where
  "own_plain_object use ob \<longleftrightarrow> fo_info ob = Some (False, use \<noteq> UseLogFile, 1)
     \<and> (fo_owner ob = Some TrusteeSystem \<or> fo_owner ob = Some TrusteeAdmins)"

lemma scan_ace_mono:
  "\<not> sc_private sc \<Longrightarrow> \<not> sc_private (scan_ace a sc)" "\<not> sc_safeParent sc \<Longrightarrow> \<not> sc_safeParent (scan_ace a sc)"
  by (simp_all add: scan_ace_def Let_def)

lemma scan_acl_mono:
  "scan_acl as sc = Some sc' \<Longrightarrow> (sc_private sc' \<longrightarrow> sc_private sc) \<and> (sc_safeParent sc' \<longrightarrow> sc_safeParent sc)"
proof (induction as arbitrary: sc)
  case (Cons a as)
  then have "scan_acl as (scan_ace a sc) = Some sc'" by (simp split: if_splits)
  from Cons.IH [OF this] scan_ace_mono show ?case by blast
qed simp

lemma scan_ace_safe:
  "sc_safeParent (scan_ace a sc) \<Longrightarrow> ace_type a = AceAllowed \<Longrightarrow>
   SafeParentAllow (ace_sid a \<noteq> TrusteeOther) (ace_flags a AND INHERIT_ONLY_ACE \<noteq> 0) (ace_mask a)"
  by (cases "ace_sid a") (auto simp: scan_ace_def Let_def split: if_splits)

lemma scan_acl_safe:
  "scan_acl as sc = Some sc' \<Longrightarrow> sc_safeParent sc' \<Longrightarrow> a \<in> set as \<Longrightarrow> ace_type a = AceAllowed \<Longrightarrow>
   SafeParentAllow (ace_sid a \<noteq> TrusteeOther) (ace_flags a AND INHERIT_ONLY_ACE \<noteq> 0) (ace_mask a)"
proof (induction as arbitrary: sc)
  case (Cons x xs)
  then have s: "scan_acl xs (scan_ace x sc) = Some sc'" by (simp split: if_splits)
  show ?case
  proof (cases "a = x")
    case True
    with scan_acl_mono [OF s] Cons.prems(2,4) scan_ace_safe show ?thesis by blast
  next
    case False
    with Cons.IH [OF s] Cons.prems show ?thesis by simp
  qed
qed simp

lemma scan_private:
  assumes "scan_acl as \<lparr>sc_private = p, sc_safeParent = q, sc_system = False, sc_admin = False\<rparr> = Some sc"
    and "sc_private sc" and "length as = 2"
  shows "\<exists>a b. as = [a, b] \<and> (full_access TrusteeSystem a \<and> full_access TrusteeAdmins b
        \<or> full_access TrusteeAdmins a \<and> full_access TrusteeSystem b)"
proof -
  obtain a b where as: "as = [a, b]" using assms(3) by (auto simp: numeral_2_eq_2 length_Suc_conv)
  let ?s = "\<lparr>sc_private = p, sc_safeParent = q, sc_system = False, sc_admin = False\<rparr>"
  have sc: "sc = scan_ace b (scan_ace a ?s)" using assms(1) as by (simp split: if_splits)
  with assms(2) have pa: "sc_private (scan_ace a ?s)" using scan_ace_mono by blast
  have "full_access (ace_sid a) a" "ace_sid a = TrusteeSystem \<or> ace_sid a = TrusteeAdmins"
    using pa by (auto simp: scan_ace_def Let_def full_access_def PrivateAllow_def split: if_splits)
  moreover have "sc_system (scan_ace a ?s) = (ace_sid a = TrusteeSystem)" "sc_admin (scan_ace a ?s) = (ace_sid a = TrusteeAdmins)"
    by (cases "ace_sid a"; simp add: scan_ace_def Let_def)+
  moreover have "full_access (ace_sid b) b"
    "ace_sid b = TrusteeSystem \<and> \<not> sc_system (scan_ace a ?s) \<or> ace_sid b = TrusteeAdmins \<and> \<not> sc_admin (scan_ace a ?s)"
    using assms(2) unfolding sc by (auto simp: scan_ace_def [of b] Let_def full_access_def PrivateAllow_def split: if_splits)
  ultimately show ?thesis using as by auto
qed

lemma check_object_error: "check_object worker use ob \<noteq> Inl LogOk"
  by (auto simp: check_object_def split: option.splits if_splits)

lemma check_object_accept:
  assumes "check_object True use ob = Inr Accept"
  shows "own_plain_object use ob \<and> (if use = UseParent then read_only_for_others ob else private_object ob)"
proof -
  obtain reparse directory links where i: "fo_info ob = Some (reparse, directory, links)"
    using assms by (cases "fo_info ob") (auto simp: check_object_def)
  obtain owner where o: "fo_owner ob = Some owner"
    using assms i by (cases "fo_owner ob") (auto simp: check_object_def split: if_splits)
  let ?s = "\<lparr>sc_private = (fo_protected ob \<and> length (fo_aces ob) = 2), sc_safeParent = True, sc_system = False, sc_admin = False\<rparr>"
  obtain sc where s: "scan_acl (fo_aces ob) ?s = Some sc"
    using assms i o by (cases "scan_acl (fo_aces ob) ?s") (auto simp: check_object_def split: if_splits)
  have d: "DecideSecurity use True (owner = TrusteeSystem \<or> owner = TrusteeAdmins) (sc_safeParent sc)
      (sc_private sc \<and> sc_system sc \<and> sc_admin sc) = Accept" and pl: "\<not> reparse" "directory = (use \<noteq> UseLogFile)" "links = 1"
    using assms i o s by (auto simp: check_object_def split: if_splits)
  have own: "own_plain_object use ob"
    using i o pl d by (auto simp: own_plain_object_def DecideSecurity_def split: if_splits)
  show ?thesis
  proof (cases "use = UseParent")
    case True
    with d have sp: "sc_safeParent sc" by (auto simp: DecideSecurity_def split: if_splits)
    have "ace_mask a AND NOT kParentReadOnlyAccess = 0"
      if "a \<in> set (fo_aces ob)" "ace_type a = AceAllowed" "ace_sid a = TrusteeOther" "ace_flags a AND INHERIT_ONLY_ACE = 0" for a
      using scan_acl_safe [OF s sp that(1,2)] that by (simp add: SafeParentAllow_def)
    with True own show ?thesis by (auto simp: read_only_for_others_def list_all_iff)
  next
    case False
    with d have p: "sc_private sc" by (auto simp: DecideSecurity_def split: if_splits)
    with scan_acl_mono [OF s] have "fo_protected ob" "length (fo_aces ob) = 2" by auto
    with False own scan_private [OF s p] show ?thesis by (simp add: private_object_def)
  qed
qed

text \<open>C30. A privileged process writes its log only where nobody else can tamper with it: an object that
  passes is a plain file or directory with one name, owned by the system or the administrators;
  others may at most read the parent directory, and the access list of the log directory and of
  each log file is exactly the two full-access entries of the system and the administrators, if
  need be after it was tightened, which is done for the log directory only.\<close>

theorem accepted_object_is_private:
  assumes "CheckHandle True use repair repaired ob after = (LogOk, tightened)"
  shows "own_plain_object use (if tightened then after else ob)
    \<and> (if use = UseParent then read_only_for_others ob else private_object (if tightened then after else ob))
    \<and> (tightened \<longrightarrow> use = UseLogDirectory \<and> own_plain_object use ob \<and> read_only_for_others ob)"
proof -
  consider "check_object True use ob = Inr Accept" "\<not> tightened"
    | "check_object True use ob = Inr Tighten" "check_object True use after = Inr Accept" "tightened"
    using assms check_object_error
    by (auto simp: CheckHandle_def split: sum.splits security_decision.splits if_splits)
  then show ?thesis
  proof cases
    case 1
    with check_object_accept [OF 1(1)] show ?thesis by auto
  next
    case 2
    have t: "use = UseLogDirectory \<and> check_object True UseParent ob = Inr Accept"
      using 2(1) by (auto simp: check_object_def DecideSecurity_def split: option.splits if_splits prod.splits)
    with check_object_accept [OF 2(2)] check_object_accept [of UseParent ob] 2(3) show ?thesis
      by (auto simp: own_plain_object_def)
  qed
qed

definition private_file :: "bool \<Rightarrow> file_object" where
  "private_file directory = \<lparr>fo_info = Some (False, directory, 1), fo_security = True, fo_aclValid = True,
     fo_protected = True, fo_owner = Some TrusteeSystem, fo_sids = True,
     fo_aces = [\<lparr>ace_type = AceAllowed, ace_flags = 3, ace_sized = True, ace_sid = TrusteeSystem, ace_mask = kFileAllAccess\<rparr>,
                \<lparr>ace_type = AceAllowed, ace_flags = 3, ace_sized = True, ace_sid = TrusteeAdmins, ace_mask = kFileAllAccess\<rparr>]\<rparr>"

lemma private_file_accepted: "check_object True UseLogFile (private_file False) = Inr Accept"
  by (simp add: check_object_def private_file_def ace_readable_def scan_ace_def Let_def SafeParentAllow_def
      PrivateAllow_def DecideSecurity_def known_ace_flags_def kPrivateAceFlags_def)

theorem accepted_object_is_private_witness: "private_object (private_file False)"
proof -
  have "CheckHandle True UseLogFile False False (private_file False) (private_file False) = (LogOk, False)"
    by (simp add: CheckHandle_def private_file_accepted)
  from accepted_object_is_private [OF this] show ?thesis by simp
qed

end
