(* ===== verification/DebugLogFile.thy ===== *)
theory DebugLogFile
  imports DebugLogSecurity
begin

text \<open>
  The bytes of the log file and its backup: \<open>WriteAll\<close>, \<open>Rotate\<close> and the writing half of \<open>Append\<close>
  of \<open>runner/debug_log.cpp\<close>.  Both files are open exclusively, so that their content changes only
  here.  How many bytes a read or write moves, and whether a seek, a truncation or a flush
  succeeds, is an argument.
\<close>

definition kMaxBytes :: nat where "kMaxBytes = 2 * 1024 * 1024"
definition kCopyBuffer :: nat where "kCopyBuffer = 16 * 1024"

record log_files =
  lf_current :: string
  lf_backup :: string

record log_io =
  io_write :: "string \<Rightarrow> nat option" \<comment> \<open>bytes written of the data that is left\<close>
  io_read :: "nat \<Rightarrow> nat option" \<comment> \<open>bytes read at a position\<close>
  io_backupOpen :: bool
  io_backupCheck :: log_status
  io_seekBackup :: bool
  io_truncateBackup :: bool
  io_seekTail :: bool
  io_flushBackup :: bool
  io_seekStart :: bool
  io_truncate :: bool
  io_size :: bool
  io_seekEnd :: bool
  io_flush :: bool

subsection \<open>Writing\<close>

text \<open>The result, and the bytes that were written before it.\<close>

function WriteAll :: "(string \<Rightarrow> nat option) \<Rightarrow> string \<Rightarrow> log_status \<times> string" where
  "WriteAll wr d =
     (if d = [] then (LogOk, [])
      else case wr d of
        None \<Rightarrow> (LogWin32, [])
      | Some n \<Rightarrow>
          if n = 0 then (LogWriteFault, [])
          else (case WriteAll wr (drop n d) of (st, w) \<Rightarrow> (st, take n d @ w)))"
  by pat_completeness auto
termination by (relation "measure (\<lambda>(wr, d). length d)") auto

declare WriteAll.simps [simp del]

lemma WriteAll_prefix: "WriteAll wr d = (st, w) \<Longrightarrow> (\<exists>r. d = w @ r) \<and> (st = LogOk \<longleftrightarrow> w = d)"
proof (induction wr d arbitrary: st w rule: WriteAll.induct)
  case (1 wr d)
  show ?case
  proof (cases "d = []")
    case True
    with 1(2) show ?thesis by (simp add: WriteAll.simps)
  next
    case ne: False
    show ?thesis
    proof (cases "wr d")
      case None
      with 1(2) ne show ?thesis by (auto simp: WriteAll.simps [of wr d])
    next
      case (Some n)
      show ?thesis
      proof (cases "n = 0")
        case True
        with 1(2) ne Some show ?thesis by (auto simp: WriteAll.simps [of wr d])
      next
        case n: False
        obtain st' w' where w: "WriteAll wr (drop n d) = (st', w')" by fastforce
        with 1(2) ne Some n have e: "st = st'" "w = take n d @ w'" by (auto simp: WriteAll.simps [of wr d])
        from 1(1) [OF ne Some n w] obtain r where "drop n d = w' @ r" "st' = LogOk \<longleftrightarrow> w' = drop n d" by auto
        with e show ?thesis by (metis append_assoc append_take_drop_id same_append_eq)
      qed
    qed
  qed
qed

subsection \<open>Rotation\<close>

text \<open>The copying loop, from a position of the current file: the result and the bytes that reached
  the backup.\<close>

function copy_tail :: "log_io \<Rightarrow> string \<Rightarrow> nat \<Rightarrow> nat \<Rightarrow> log_status \<times> string" where
  "copy_tail io cur pos remaining =
     (if remaining = 0 then (LogOk, [])
      else
        let wanted = (if remaining < kCopyBuffer then remaining else kCopyBuffer)
        in case io_read io pos of
             None \<Rightarrow> (LogWin32, [])
           | Some k \<Rightarrow>
               let n = min k wanted
               in if n = 0 then (LogReadFault, [])
                  else (case WriteAll (io_write io) (take n (drop pos cur)) of
                          (LogOk, w) \<Rightarrow> (case copy_tail io cur (pos + n) (remaining - n) of
                                           (st, w') \<Rightarrow> (st, w @ w'))
                        | (st, w) \<Rightarrow> (st, w)))"
  by pat_completeness auto
termination by (relation "measure (\<lambda>(io, cur, pos, remaining). remaining)") auto

declare copy_tail.simps [simp del]

definition Rotate :: "log_io \<Rightarrow> log_files \<Rightarrow> log_status \<times> log_files" where
  "Rotate io f =
     (let size = length (lf_current f)
      in if \<not> io_backupOpen io then (LogWin32, f)
         else if io_backupCheck io \<noteq> LogOk then (io_backupCheck io, f)
         else if \<not> io_seekBackup io then (LogWin32, f)
         else if \<not> io_truncateBackup io then (LogWin32, f)
         else
           let f = f\<lparr>lf_backup := []\<rparr>
           in if \<not> io_seekTail io then (LogWin32, f)
              else case copy_tail io (lf_current f) (if size > kMaxBytes then size - kMaxBytes else 0)
                         (if size > kMaxBytes then kMaxBytes else size) of
                (st, w) \<Rightarrow>
                  (let f = f\<lparr>lf_backup := w\<rparr>
                   in if st \<noteq> LogOk then (st, f)
                      else if \<not> io_flushBackup io then (LogWin32, f)
                      else if \<not> io_seekStart io then (LogWin32, f)
                      else if io_truncate io then (LogOk, f\<lparr>lf_current := []\<rparr>) else (LogWin32, f)))"

text \<open>The part of \<open>Append\<close> that works on the open file.\<close>

definition append_line :: "log_io \<Rightarrow> string \<Rightarrow> log_files \<Rightarrow> log_status \<times> log_files" where
  "append_line io line f =
     (if line = [] \<or> length line > kMaxBytes then (LogInvalidData, f)
      else if \<not> io_size io then (LogWin32, f)
      else case (if length (lf_current f) > kMaxBytes - length line then Rotate io f
                 else (if io_seekEnd io then LogOk else LogWin32, f)) of
        (LogOk, f) \<Rightarrow>
          (case WriteAll (io_write io) line of
             (st, w) \<Rightarrow>
               (let f = f\<lparr>lf_current := lf_current f @ w\<rparr>
                in if st \<noteq> LogOk then (st, f) else if io_flush io then (LogOk, f) else (LogWin32, f)))
      | (st, f) \<Rightarrow> (st, f))"

subsection \<open>Facts\<close>

lemma copy_tail_ok:
  "copy_tail io cur pos remaining = (st, w) \<Longrightarrow>
     (\<exists>r. take remaining (drop pos cur) = w @ r) \<and> (st = LogOk \<longrightarrow> w = take remaining (drop pos cur))"
proof (induction io cur pos remaining arbitrary: st w rule: copy_tail.induct)
  case (1 io cur pos remaining)
  show ?case
  proof (cases "remaining = 0")
    case True
    with 1(2) show ?thesis by (simp add: copy_tail.simps [of io cur pos])
  next
    case ne: False
    define wanted where "wanted = (if remaining < kCopyBuffer then remaining else kCopyBuffer)"
    show ?thesis
    proof (cases "io_read io pos")
      case None
      with 1(2) ne show ?thesis by (auto simp: copy_tail.simps [of io cur pos] Let_def)
    next
      case (Some k)
      define n where "n = min k wanted"
      show ?thesis
      proof (cases "n = 0")
        case True
        with 1(2) ne Some show ?thesis
          by (auto simp: copy_tail.simps [of io cur pos] Let_def n_def wanted_def split: if_splits)
      next
        case n: False
        have le: "n \<le> remaining" by (auto simp: n_def wanted_def min_def)
        obtain st1 w1 where w1: "WriteAll (io_write io) (take n (drop pos cur)) = (st1, w1)" by fastforce
        obtain st2 w2 where w2: "copy_tail io cur (pos + n) (remaining - n) = (st2, w2)" by fastforce
        have e: "copy_tail io cur pos remaining = (if st1 = LogOk then (st2, w1 @ w2) else (st1, w1))"
        proof -
          have "copy_tail io cur pos remaining = (if n = 0 then (LogReadFault, [])
              else case WriteAll (io_write io) (take n (drop pos cur)) of
                (LogOk, w) \<Rightarrow> (case copy_tail io cur (pos + n) (remaining - n) of (st, w') \<Rightarrow> (st, w @ w'))
              | (st, w) \<Rightarrow> (st, w))"
            unfolding n_def wanted_def
            by (subst copy_tail.simps) (simp only: Let_def ne Some if_False option.case)
          then show ?thesis using n w1 w2 by (cases st1) simp_all
        qed
        have sp: "take remaining (drop pos cur) = take n (drop pos cur) @ take (remaining - n) (drop (pos + n) cur)"
          using le take_add [of n "remaining - n" "drop pos cur"] by (simp add: add.commute)
        note p = WriteAll_prefix [OF w1]
        show ?thesis
        proof (cases "st1 = LogOk")
          case True
          with p have "w1 = take n (drop pos cur)" by simp
          moreover have "(\<exists>r. take (remaining - n) (drop (pos + n) cur) = w2 @ r)
              \<and> (st2 = LogOk \<longrightarrow> w2 = take (remaining - n) (drop (pos + n) cur))"
            by (rule 1(1) [OF ne wanted_def Some n_def n w1 [symmetric] True w2])
          ultimately show ?thesis using e 1(2) True sp by auto
        next
          case False
          with e 1(2) p sp show ?thesis by auto
        qed
      qed
    qed
  qed
qed

text \<open>The last \<open>kMaxBytes\<close> of a file.\<close>

definition log_tail :: "string \<Rightarrow> string" where
  "log_tail cur = drop (length cur - kMaxBytes) cur"

lemma tail_copied:
  "take (if length cur > kMaxBytes then kMaxBytes else length cur)
     (drop (if length cur > kMaxBytes then length cur - kMaxBytes else 0) cur) = log_tail cur"
  by (auto simp: log_tail_def)

lemma length_log_tail: "length (log_tail cur) \<le> kMaxBytes"
  by (simp add: log_tail_def)

lemma Rotate_cases:
  assumes "Rotate io f = (st, f')"
  shows "(st = LogOk \<and> lf_current f' = [] \<and> lf_backup f' = log_tail (lf_current f))
    \<or> (st \<noteq> LogOk \<and> lf_current f' = lf_current f \<and>
        (lf_backup f' = lf_backup f \<or> (\<exists>r. log_tail (lf_current f) = lf_backup f' @ r)))"
proof -
  obtain st1 w where c: "copy_tail io (lf_current f) (if length (lf_current f) > kMaxBytes then length (lf_current f) - kMaxBytes else 0)
      (if length (lf_current f) > kMaxBytes then kMaxBytes else length (lf_current f)) = (st1, w)" by fastforce
  note t = copy_tail_ok [OF c, unfolded tail_copied]
  show ?thesis
    using assms t c unfolding Rotate_def Let_def
    by (auto split: if_splits)
qed

text \<open>C31. Rotation loses nothing: it empties the log file only after the last two megabytes of it are
  in the backup, complete; on every failure the log file is untouched, and the backup holds what
  it held or the first bytes of what was being copied.\<close>

theorem rotation_loses_nothing:
  assumes "Rotate io f = (st, f')"
  shows "(st = LogOk \<longrightarrow> lf_current f' = [] \<and> lf_backup f' = log_tail (lf_current f))
    \<and> (st \<noteq> LogOk \<longrightarrow> lf_current f' = lf_current f \<and>
         (lf_backup f' = lf_backup f \<or> prefix (lf_backup f') (log_tail (lf_current f))))"
  using Rotate_cases [OF assms] by (auto simp: prefix_def)

text \<open>A disk that moves at most 5000 bytes at a time.\<close>

definition slow_io :: log_io where
  "slow_io = \<lparr>io_write = (\<lambda>d. Some (min 5000 (length d))), io_read = (\<lambda>_. Some 5000), io_backupOpen = True,
     io_backupCheck = LogOk, io_seekBackup = True, io_truncateBackup = True, io_seekTail = True, io_flushBackup = True,
     io_seekStart = True, io_truncate = True, io_size = True, io_seekEnd = True, io_flush = True\<rparr>"

theorem rotation_loses_nothing_witness:
  "lf_backup (snd (Rotate slow_io \<lparr>lf_current = ''old'', lf_backup = []\<rparr>)) = log_tail ''old''"
proof -
  have "Rotate slow_io \<lparr>lf_current = ''old'', lf_backup = []\<rparr> = (LogOk, snd (Rotate slow_io \<lparr>lf_current = ''old'', lf_backup = []\<rparr>))"
    by (simp add: Rotate_def slow_io_def copy_tail.simps WriteAll.simps kMaxBytes_def kCopyBuffer_def Let_def)
  from rotation_loses_nothing [OF this] show ?thesis by simp
qed

definition files_bounded :: "log_files \<Rightarrow> bool" where
  "files_bounded f \<longleftrightarrow> length (lf_current f) \<le> kMaxBytes \<and> length (lf_backup f) \<le> kMaxBytes"

lemma append_line_bounded:
  assumes "append_line io line f = (st, f')" "files_bounded f"
  shows "files_bounded f'"
proof -
  obtain st0 f0 where r: "(if length (lf_current f) > kMaxBytes - length line then Rotate io f
                 else (if io_seekEnd io then LogOk else LogWin32, f)) = (st0, f0)" by fastforce
  obtain st1 w where w: "WriteAll (io_write io) line = (st1, w)" by fastforce
  have lw: "length w \<le> length line" using WriteAll_prefix [OF w] by auto
  have f0: "files_bounded f0 \<and> (st0 = LogOk \<longrightarrow> length (lf_current f0) + length line \<le> kMaxBytes \<or> length line > kMaxBytes)"
  proof (cases "length (lf_current f) > kMaxBytes - length line")
    case True
    with r have "Rotate io f = (st0, f0)" by simp
    from Rotate_cases [OF this] assms(2) length_log_tail [of "lf_current f"] show ?thesis
      by (auto simp: files_bounded_def)
  next
    case False
    with r assms(2) show ?thesis by (auto simp: files_bounded_def split: if_splits)
  qed
  show ?thesis
    using assms(1,2) f0 lw w unfolding append_line_def r
    by (cases st0) (auto simp: files_bounded_def Let_def split: if_splits)
qed

lemma append_line_ok:
  assumes "append_line io line f = (LogOk, f')"
  shows "lf_current f' = (if length (lf_current f) + length line > kMaxBytes then line else lf_current f @ line)
    \<and> lf_backup f' = (if length (lf_current f) + length line > kMaxBytes then log_tail (lf_current f) else lf_backup f)
    \<and> length (lf_current f') \<le> kMaxBytes"
proof -
  obtain st0 f0 where r: "(if length (lf_current f) > kMaxBytes - length line then Rotate io f
                 else (if io_seekEnd io then LogOk else LogWin32, f)) = (st0, f0)" by fastforce
  obtain st1 w where w: "WriteAll (io_write io) line = (st1, w)" by fastforce
  have l: "line \<noteq> []" "length line \<le> kMaxBytes" using assms by (auto simp: append_line_def split: if_splits)
  have ok: "st0 = LogOk" "st1 = LogOk" "f' = f0\<lparr>lf_current := lf_current f0 @ w\<rparr>"
    using assms w unfolding append_line_def r by (cases st0; auto simp: Let_def split: if_splits)+
  have "w = line" using WriteAll_prefix [OF w] ok(2) by simp
  moreover have "length (lf_current f) > kMaxBytes - length line \<longleftrightarrow> length (lf_current f) + length line > kMaxBytes"
    using l by auto
  moreover have "length (lf_current f) > kMaxBytes - length line \<Longrightarrow> Rotate io f = (LogOk, f0)"
    "\<not> length (lf_current f) > kMaxBytes - length line \<Longrightarrow> f0 = f" using r ok(1) by (auto split: if_splits)
  ultimately show ?thesis using ok(3) l Rotate_cases [of io f LogOk f0] by (auto split: if_splits)
qed

end
