(* ===== verification/DebugLog.thy ===== *)
theory DebugLog
  imports DebugLogFields DebugLogFile
begin

text \<open>
  The diagnostic log of the runner, \<open>runner/debug_log.cpp\<close>: the line a call writes, the checks on
  its way to the file, and the calls \<open>Initialize\<close>, \<open>GetState\<close>, \<open>SetEnabled\<close> and \<open>Write\<close>.

  The registry, the clock, the objects in the file system and the known folders are arguments; the
  state is the module's variables and the two files.  Each call keeps the thread's last error, by
  a guard object, and runs under one mutex; neither is modelled.
\<close>

subsection \<open>The line\<close>

datatype zone_state = ZoneInvalid | ZoneUnknown | ZoneStandard | ZoneDaylight

record line_env =
  le_year :: nat
  le_month :: nat
  le_day :: nat
  le_hour :: nat
  le_minute :: nat
  le_second :: nat
  le_ms :: nat
  le_zone :: zone_state
  le_bias :: int
  le_standardBias :: int
  le_daylightBias :: int
  le_pid :: nat
  le_tid :: nat
  le_version :: "string option" \<comment> \<open>\<open>FLUTTER_VERSION\<close>, if the build defines it\<close>

definition pad :: "nat \<Rightarrow> nat \<Rightarrow> string" where
  "pad w n = replicate (w - length (digits_of n)) CHR ''0'' @ digits_of n"

definition ends_with :: "string \<Rightarrow> string \<Rightarrow> bool" where
  "ends_with t s \<longleftrightarrow> length t \<le> length s \<and> drop (length s - length t) s = t"

definition resolved_level :: "string \<Rightarrow> string \<Rightarrow> string \<Rightarrow> string \<Rightarrow> int option \<Rightarrow> string \<Rightarrow> string" where
  "resolved_level level event error_type error_code os_error ctx =
     (if level = [] \<or> \<not> ValidLevel level
      then if error_type \<noteq> [] \<or> error_code \<noteq> [] \<or> os_error \<noteq> None
              \<or> ends_with ''.failed'' event \<or> ends_with ''.error'' event
           then ''ERROR''
           else if list_ex (\<lambda>p. occurs p event) [''.blocked'', ''.cancelled'', ''.timeout'', ''.retry'', ''.dropped'']
              \<or> list_ex (\<lambda>p. occurs p ctx) [''result=http_error'', ''http_status=4'', ''http_status=5'']
           then ''WARN'' else ''INFO''
      else level)"

definition utc_offset :: "line_env \<Rightarrow> int" where
  "utc_offset e = - (le_bias e + (if le_zone e = ZoneDaylight then le_daylightBias e
     else if le_zone e = ZoneStandard then le_standardBias e else 0))"

definition timestamp :: "line_env \<Rightarrow> string" where
  "timestamp e =
     (let a = nat \<bar>utc_offset e\<bar>
      in pad 4 (le_year e) @ ''-'' @ pad 2 (le_month e) @ ''-'' @ pad 2 (le_day e) @ ''T'' @ pad 2 (le_hour e)
         @ '':'' @ pad 2 (le_minute e) @ '':'' @ pad 2 (le_second e) @ ''.'' @ pad 3 (le_ms e)
         @ (if utc_offset e < 0 then ''-'' else ''+'') @ pad 2 (a div 60) @ '':'' @ pad 2 (a mod 60))"

definition line_prefix :: "line_env \<Rightarrow> string \<Rightarrow> string" where
  "line_prefix e level = timestamp e @ '' pid='' @ digits_of (le_pid e) @ '' tid='' @ digits_of (le_tid e)
     @ '' level='' @ level @ '' event=''"

definition safe_version :: "string \<Rightarrow> bool" where
  "safe_version v \<longleftrightarrow> v \<noteq> [] \<and> length v \<le> 64 \<and> list_all (\<lambda>c. c = CHR ''+'' \<or> field_char True True c) v"

definition line_fields :: "line_env \<Rightarrow> string \<Rightarrow> string \<Rightarrow> int option \<Rightarrow> string \<Rightarrow> string" where
  "line_fields e error_type error_code os_error ctx =
     (case le_version e of Some v \<Rightarrow> if safe_version v then '' version='' @ v else [] | None \<Rightarrow> [])
     @ (if error_type \<noteq> [] then '' error_type='' @ error_type else [])
     @ (if error_code \<noteq> [] then '' error_code='' @ error_code else [])
     @ (case os_error of Some n \<Rightarrow> '' os_error='' @ to_string n | None \<Rightarrow> [])
     @ (if ctx \<noteq> [] then '' '' @ ctx else [])"

definition crlf :: string where "crlf = [CHR 0x0D, CHR 0x0A]"

definition Line :: "line_env \<Rightarrow> string \<Rightarrow> string \<Rightarrow> string \<Rightarrow> string \<Rightarrow> int option \<Rightarrow> string \<Rightarrow> string" where
  "Line e event level error_type error_code os_error ctx =
     (let pre = line_prefix e (resolved_level level event error_type error_code os_error ctx)
      in if le_zone e = ZoneInvalid then []
         else if length pre \<ge> 180 then []
         else pre @ event @ line_fields e error_type error_code os_error ctx @ crlf)"

subsection \<open>The module\<close>

datatype Mode = ModeGui | ModeLinkHost

record debug_log =
  dl_mode :: Mode
  dl_initialized :: bool
  dl_base :: wstr
  dl_file :: wstr
  dl_path :: wstr
  dl_files :: log_files

definition debug_log_init :: "log_files \<Rightarrow> debug_log" where
  "debug_log_init f = \<lparr>dl_mode = ModeGui, dl_initialized = False, dl_base = [], dl_file = [], dl_path = [],
     dl_files = f\<rparr>"

definition Worker :: "debug_log \<Rightarrow> bool" where
  "Worker l \<longleftrightarrow> dl_mode l \<noteq> ModeGui"

definition Utf8 :: "(wstr \<Rightarrow> string option) \<Rightarrow> wstr \<Rightarrow> string" where
  "Utf8 convert v =
     (if v = [] \<or> length v > 2147483647 then [] else case convert v of Some s \<Rightarrow> s | None \<Rightarrow> [])"

text \<open>\<open>DebugLogsEnabled\<close> in the machine's, the user's and, by SID, another user's settings; and the SID
  of the session's user, if a worker can get at it.\<close>

record log_registry =
  rv_machine :: "u32 option"
  rv_user :: "u32 option"
  rv_users :: "wstr \<Rightarrow> u32 option"
  rv_sessionSid :: "wstr option"

definition kSettingsKey :: wstr where
  "kSettingsKey = wide (''Software'' @ [CHR 92] @ ''Ligament'' @ [CHR 92] @ ''2FA'')"

definition ReadRegistry :: "u32 option \<Rightarrow> bool" where
  "ReadRegistry v \<longleftrightarrow> v = Some 1"

definition ReadEnabled :: "log_registry \<Rightarrow> debug_log \<Rightarrow> bool" where
  "ReadEnabled rv l =
     (if \<not> dl_initialized l then False
      else if ReadRegistry (rv_machine rv) then True
      else if \<not> Worker l then ReadRegistry (rv_user rv)
      else case rv_sessionSid rv of
        None \<Rightarrow> False
      | Some sid \<Rightarrow> ReadRegistry (rv_users rv (sid @ [92] @ kSettingsKey)))"

definition Initialize_log :: "(bool \<Rightarrow> wstr option) \<Rightarrow> Mode \<Rightarrow> debug_log \<Rightarrow> debug_log" where
  "Initialize_log folder mode l0 =
     (let l = l0\<lparr>dl_mode := mode, dl_initialized := True, dl_base := [], dl_path := [],
               dl_file := wide (if mode = ModeGui then ''app-debug.log'' else ''link-debug.log'')\<rparr>
      in case folder (Worker l) of
           None \<Rightarrow> l
         | Some p \<Rightarrow> l\<lparr>dl_base := p,
             dl_path := p @ wide ([CHR 92] @ ''Ligament'' @ [CHR 92] @ ''Logs'' @ [CHR 92]) @ dl_file l\<rparr>)"

definition GetState :: "(wstr \<Rightarrow> string option) \<Rightarrow> log_registry \<Rightarrow> debug_log \<Rightarrow> bool \<times> string" where
  "GetState convert rv l = (ReadEnabled rv l, Utf8 convert (dl_path l))"

definition IsWorker :: "debug_log \<Rightarrow> bool" where
  "IsWorker l = Worker l"

subsection \<open>Appending\<close>

record append_env =
  ae_descriptor :: bool
  ae_dacl :: bool
  ae_appMade :: bool \<comment> \<open>created, or there already\<close>
  ae_appOpen :: bool
  ae_app :: file_object
  ae_dirMade :: bool
  ae_dirOpen :: bool
  ae_dir :: file_object
  ae_dirAfter :: file_object
  ae_repaired :: bool
  ae_fileOpen :: bool
  ae_file :: file_object
  ae_backup :: file_object
  ae_io :: log_io
  ae_line :: line_env

text \<open>The checks before the line is built: \<open>LogOk\<close> if all pass.\<close>

definition append_checks :: "append_env \<Rightarrow> debug_log \<Rightarrow> log_status" where
  "append_checks ae l =
     (let w = Worker l;
          app = fst (CheckHandle w UseParent False False (ae_app ae) (ae_app ae));
          dir = fst (CheckHandle w UseLogDirectory w (ae_repaired ae) (ae_dir ae) (ae_dirAfter ae));
          file = fst (CheckHandle w UseLogFile False False (ae_file ae) (ae_file ae))
      in if dl_base l = [] \<or> dl_path l = [] then LogPathNotFound
         else if w \<and> \<not> ae_descriptor ae then LogWin32
         else if w \<and> \<not> ae_dacl ae then LogInvalidAcl
         else if \<not> ae_appMade ae then LogWin32
         else if \<not> ae_appOpen ae then LogWin32
         else if app \<noteq> LogOk then app
         else if \<not> ae_dirMade ae then LogWin32
         else if \<not> ae_dirOpen ae then LogWin32
         else if dir \<noteq> LogOk then dir
         else if \<not> ae_fileOpen ae then LogWin32
         else file)"

definition append_io :: "append_env \<Rightarrow> debug_log \<Rightarrow> log_io" where
  "append_io ae l = (ae_io ae)\<lparr>io_backupCheck := fst (CheckHandle (Worker l) UseLogFile False False (ae_backup ae) (ae_backup ae))\<rparr>"

definition Append ::
    "append_env \<Rightarrow> string \<Rightarrow> string \<Rightarrow> string \<Rightarrow> int option \<Rightarrow> string \<Rightarrow> string \<Rightarrow> debug_log \<Rightarrow> log_status \<times> debug_log" where
  "Append ae event error_type error_code os_error ctx level l =
     (if append_checks ae l \<noteq> LogOk then (append_checks ae l, l)
      else case append_line (append_io ae l) (Line (ae_line ae) event level error_type error_code os_error ctx) (dl_files l) of
        (st, f) \<Rightarrow> (st, l\<lparr>dl_files := f\<rparr>))"

definition write_args_valid :: "string \<Rightarrow> string \<Rightarrow> string \<Rightarrow> string \<Rightarrow> string \<Rightarrow> bool" where
  "write_args_valid event error_type error_code ctx level \<longleftrightarrow>
     \<not> (\<not> ValidEvent event \<or> (level \<noteq> [] \<and> \<not> ValidLevel level) \<or> (error_type \<noteq> [] \<and> \<not> ValidErrorType error_type)
        \<or> (error_code \<noteq> [] \<and> \<not> ValidErrorCode error_code) \<or> \<not> ValidContext ctx)"

definition Write ::
    "append_env \<Rightarrow> log_registry \<Rightarrow> string \<Rightarrow> string \<Rightarrow> string \<Rightarrow> int option \<Rightarrow> string \<Rightarrow> string \<Rightarrow> debug_log
     \<Rightarrow> log_status \<times> debug_log" where
  "Write ae rv event error_type error_code os_error ctx level l =
     (if \<not> write_args_valid event error_type error_code ctx level then (LogInvalidParameter, l)
      else if \<not> ReadEnabled rv l then (LogNotReady, l)
      else Append ae event error_type error_code os_error ctx level l)"

text \<open>The results of creating the key and of setting the value; the registry is returned.\<close>

definition SetEnabled ::
    "append_env \<Rightarrow> bool \<Rightarrow> bool \<Rightarrow> bool \<Rightarrow> log_registry \<Rightarrow> debug_log \<Rightarrow> log_status \<times> log_registry \<times> debug_log" where
  "SetEnabled ae keyOk setOk enabled rv l =
     (if \<not> dl_initialized l \<or> Worker l then (LogAccessDenied, rv, l)
      else if \<not> keyOk then (LogWin32, rv, l)
      else
        let previously = ReadEnabled rv l
        in if \<not> setOk then (LogWin32, rv, l)
           else
             let rv' = rv\<lparr>rv_user := Some (if enabled then 1 else 0)\<rparr>
             in (LogOk, rv',
                 if enabled \<and> ReadEnabled rv' l then snd (Append ae ''debug.enabled'' [] [] None [] [] l)
                 else if \<not> enabled \<and> previously then snd (Append ae ''debug.disabled'' [] [] None [] [] l)
                 else l))"

subsection \<open>One line, one record\<close>

lemma visible_digits: "list_all visible (digits_of n)"
  by (auto simp: list_all_iff visible_digit dest: digits_of_digits)

lemma visible_pad: "list_all visible (pad w n)"
proof -
  have "visible CHR ''0''" by (simp add: visible_def)
  then show ?thesis using visible_digits [of n] by (simp add: pad_def)
qed

lemma visible_to_string: "list_all visible (to_string n)"
  using visible_digits by (auto simp: to_string_def visible_def [of "CHR ''-''"])

lemma visible_timestamp: "list_all visible (timestamp e)"
proof -
  have "list_all visible ''-''" "list_all visible ''T''" "list_all visible '':''" "list_all visible ''.''" "list_all visible ''+''"
    by (simp_all add: visible_def)
  then show ?thesis using visible_pad by (simp add: timestamp_def Let_def)
qed

lemma visible_no_blank: "list_all visible v \<Longrightarrow> CHR '' '' \<notin> set v"
  by (auto simp: list_all_iff visible_def)

lemma split_on_field: "list_all visible u \<Longrightarrow> split_on CHR '' '' (u @ CHR '' '' # v) = u # split_on CHR '' '' v"
  by (rule split_on_at) (rule visible_no_blank)

lemma split_on_word: "list_all visible u \<Longrightarrow> split_on CHR '' '' u = [u]"
  by (rule split_on_none) (rule visible_no_blank)

text \<open>The words of a line: every argument of the call is a word of its own, or, for the context, the
  words it consists of.\<close>

definition line_words :: "line_env \<Rightarrow> string \<Rightarrow> string \<Rightarrow> string \<Rightarrow> string \<Rightarrow> int option \<Rightarrow> string \<Rightarrow> string list" where
  "line_words e event level error_type error_code os_error ctx =
     [timestamp e, ''pid='' @ digits_of (le_pid e), ''tid='' @ digits_of (le_tid e),
      ''level='' @ resolved_level level event error_type error_code os_error ctx, ''event='' @ event]
     @ (case le_version e of Some v \<Rightarrow> if safe_version v then [''version='' @ v] else [] | None \<Rightarrow> [])
     @ (if error_type \<noteq> [] then [''error_type='' @ error_type] else [])
     @ (if error_code \<noteq> [] then [''error_code='' @ error_code] else [])
     @ (case os_error of Some n \<Rightarrow> [''os_error='' @ to_string n] | None \<Rightarrow> [])
     @ (if ctx \<noteq> [] then split_on CHR '' '' ctx else [])"

text \<open>The line without its end is the words, joined by blanks.\<close>

fun join_words :: "string list \<Rightarrow> string" where
  "join_words [] = []"
| "join_words [u] = u"
| "join_words (u # v # us) = u @ CHR '' '' # join_words (v # us)"

lemma split_join: "us \<noteq> [] \<Longrightarrow> list_all (list_all visible) us \<Longrightarrow> split_on CHR '' '' (join_words us) = us"
  by (induction us rule: join_words.induct) (simp_all add: split_on_field split_on_word)

lemma join_split: "join_words (split_on CHR '' '' v) = v"
proof (induction v)
  case (Cons c v)
  obtain u us where "split_on CHR '' '' v = u # us" by (cases "split_on CHR '' '' v") simp_all
  with Cons.IH show ?case by (cases us) auto
qed simp

text \<open>Every word preceded by a blank.\<close>

definition blank_words :: "string list \<Rightarrow> string" where
  "blank_words us = concat (map ((#) CHR '' '') us)"

lemma blank_words_simps [simp]:
  "blank_words [] = []" "blank_words (u # us) = CHR '' '' # u @ blank_words us"
  "blank_words (us @ vs) = blank_words us @ blank_words vs"
  by (simp_all add: blank_words_def)

lemma join_words_Cons: "join_words (u # us) = u @ blank_words us"
  by (induction us arbitrary: u) simp_all

lemma blank_words_join: "us \<noteq> [] \<Longrightarrow> blank_words us = CHR '' '' # join_words us"
  by (cases us) (simp_all add: join_words_Cons)

lemma join_words_visible:
  "list_all (list_all visible) us \<Longrightarrow> list_all (\<lambda>c. visible c \<or> c = CHR '' '') (join_words us)"
  by (induction us rule: join_words.induct) (auto simp: list_all_iff)

lemma level_visible:
  "list_all visible (resolved_level level event error_type error_code os_error ctx)"
proof -
  have w: "list_all visible ''ERROR''" "list_all visible ''WARN''" "list_all visible ''INFO''"
    by (simp_all add: visible_def)
  show ?thesis
  proof (cases "level = [] \<or> \<not> ValidLevel level")
    case True
    with w show ?thesis by (simp only: resolved_level_def if_True split: if_split) blast
  next
    case False
    with w show ?thesis by (auto simp: resolved_level_def ValidLevel_def simp del: list.pred_inject)
  qed
qed

lemma version_visible: "safe_version v \<Longrightarrow> list_all visible v"
proof -
  assume v: "safe_version v"
  have plus: "visible CHR ''+''" by (simp add: visible_def)
  have "visible c" if "c \<in> set v" for c
  proof -
    from v that have "c = CHR ''+'' \<or> field_char True True c" by (simp add: safe_version_def list_all_iff)
    then show ?thesis using plus visible_field by blast
  qed
  then show ?thesis by (simp add: list_all_iff)
qed

lemma Line_words:
  assumes "Line e event level error_type error_code os_error ctx \<noteq> []"
  shows "Line e event level error_type error_code os_error ctx
     = join_words (line_words e event level error_type error_code os_error ctx) @ crlf"
proof -
  have "blank_words (split_on CHR '' '' ctx) = CHR '' '' # ctx"
    by (simp add: blank_words_join join_split)
  then have "join_words (line_words e event level error_type error_code os_error ctx)
      = line_prefix e (resolved_level level event error_type error_code os_error ctx) @ event
        @ line_fields e error_type error_code os_error ctx"
    by (simp add: line_words_def line_prefix_def line_fields_def join_words_Cons split: option.split)
  with assms show ?thesis by (auto simp: Line_def Let_def split: if_splits)
qed

lemma line_words_visible:
  assumes "write_args_valid event error_type error_code ctx level"
  shows "list_all (list_all visible) (line_words e event level error_type error_code os_error ctx)"
proof -
  have lit: "list_all visible ''pid=''" "list_all visible ''tid=''" "list_all visible ''level=''"
    "list_all visible ''event=''" "list_all visible ''version=''" "list_all visible ''error_type=''"
    "list_all visible ''error_code=''" "list_all visible ''os_error=''"
    by (simp_all add: visible_def)
  have args: "list_all visible event" "error_type \<noteq> [] \<Longrightarrow> list_all visible error_type"
    "error_code \<noteq> [] \<Longrightarrow> list_all visible error_code"
    using assms by (auto simp: write_args_valid_def ValidEvent_def ValidErrorType_def ValidErrorCode_def intro: ValidField_visible)
  have "list_all (list_all visible) (split_on CHR '' '' ctx)" if "ctx \<noteq> []"
    using assms that by (auto simp: write_args_valid_def context_fields_visible)
  then have "list_all (list_all visible) (if ctx \<noteq> [] then split_on CHR '' '' ctx else [])" by simp
  moreover have "list_all (list_all visible) (case os_error of Some n \<Rightarrow> [''os_error='' @ to_string n] | None \<Rightarrow> [])"
    using lit(8) visible_to_string by (cases os_error) (simp_all only: option.case list_all_append list.pred_inject simp_thms)
  moreover have "list_all (list_all visible) (if error_type \<noteq> [] then [''error_type='' @ error_type] else [])"
    "list_all (list_all visible) (if error_code \<noteq> [] then [''error_code='' @ error_code] else [])"
    using lit(6,7) args(2,3) by (simp_all only: list_all_append list.pred_inject simp_thms split: if_split) blast+
  moreover have "list_all (list_all visible) (case le_version e of Some v \<Rightarrow> if safe_version v then [''version='' @ v] else [] | None \<Rightarrow> [])"
    using lit(5) version_visible
    by (cases "le_version e") (simp_all only: option.case list_all_append list.pred_inject simp_thms split: if_split, blast)
  ultimately show ?thesis
    using lit(1-4) args(1) visible_timestamp visible_digits level_visible
    unfolding line_words_def by (simp only: list_all_append list.pred_inject simp_thms)
qed

lemma Write_ok:
  assumes "Write ae rv event error_type error_code os_error ctx level l = (LogOk, l')"
  shows "write_args_valid event error_type error_code ctx level" "ReadEnabled rv l"
    "append_checks ae l = LogOk"
    "append_line (append_io ae l) (Line (ae_line ae) event level error_type error_code os_error ctx) (dl_files l)
       = (LogOk, dl_files l')"
  using assms unfolding Write_def Append_def by (auto split: if_splits prod.splits)

lemma append_line_nonempty: "append_line io v f = (LogOk, f') \<Longrightarrow> v \<noteq> []"
  by (auto simp: append_line_def)

text \<open>C29. A call that reports success has added exactly one line to the log, after moving the log away
  if it would have outgrown two megabytes.  The line is the timestamp, the process, the thread, the
  level, the event and the call's fields, one word each, and ends with CR LF; it consists of
  visible characters and blanks, so that no argument can start a second line or forge another field,
  and a reader that splits it at the blanks gets the words back.\<close>

theorem written_line_is_one_record:
  assumes "Write ae rv event error_type error_code os_error ctx level l = (LogOk, l')"
  shows "let words = line_words (ae_line ae) event level error_type error_code os_error ctx;
             body = join_words words;
             full = length (lf_current (dl_files l)) + length (body @ crlf) > kMaxBytes
         in lf_current (dl_files l') = (if full then [] else lf_current (dl_files l)) @ body @ crlf
          \<and> (full \<longrightarrow> lf_backup (dl_files l') = log_tail (lf_current (dl_files l)))
          \<and> list_all (\<lambda>c. visible c \<or> c = CHR '' '') body \<and> split_on CHR '' '' body = words"
proof -
  note w = Write_ok [OF assms]
  note v = line_words_visible [OF w(1), of "ae_line ae" os_error]
  have ne: "line_words (ae_line ae) event level error_type error_code os_error ctx \<noteq> []"
    by (simp add: line_words_def)
  show ?thesis
    using append_line_ok [OF w(4)] Line_words [OF append_line_nonempty [OF w(4)]]
      join_words_visible [OF v] split_join [OF ne v]
    by (simp add: Let_def)
qed

text \<open>A runner in a user's session, with plain directories and an empty log, on a slow disk.\<close>

definition plain_object :: "bool \<Rightarrow> file_object" where
  "plain_object directory = \<lparr>fo_info = Some (False, directory, 1), fo_security = True, fo_aclValid = True,
     fo_protected = False, fo_owner = Some TrusteeOther, fo_sids = True, fo_aces = []\<rparr>"

definition sample_time :: line_env where
  "sample_time = \<lparr>le_year = 2025, le_month = 3, le_day = 30, le_hour = 2, le_minute = 59, le_second = 7, le_ms = 41,
     le_zone = ZoneStandard, le_bias = 210, le_standardBias = 0, le_daylightBias = - 60, le_pid = 812, le_tid = 4,
     le_version = Some ''1.0+3''\<rparr>"

definition sample_append :: append_env where
  "sample_append = \<lparr>ae_descriptor = False, ae_dacl = False, ae_appMade = True, ae_appOpen = True, ae_app = plain_object True,
     ae_dirMade = True, ae_dirOpen = True, ae_dir = plain_object True, ae_dirAfter = plain_object True,
     ae_repaired = False, ae_fileOpen = True, ae_file = plain_object False, ae_backup = plain_object False,
     ae_io = slow_io, ae_line = sample_time\<rparr>"

definition sample_log :: debug_log where
  "sample_log = Initialize_log (\<lambda>_. Some (wide ''C:'')) ModeGui (debug_log_init \<lparr>lf_current = [], lf_backup = []\<rparr>)"

definition logging_on :: log_registry where
  "logging_on = \<lparr>rv_machine = Some 1, rv_user = None, rv_users = (\<lambda>_. None), rv_sessionSid = None\<rparr>"

lemma sample_checks: "append_checks sample_append sample_log = LogOk"
  by (simp add: append_checks_def sample_append_def sample_log_def Initialize_log_def debug_log_init_def plain_object_def
      CheckHandle_def check_object_def Worker_def wide_def Let_def)

lemma sample_line:
  "Line sample_time ''app.start'' [] [] [] None [] =
     ''2025-03-30T02:59:07.041-03:30 pid=812 tid=4 level=INFO event=app.start version=1.0+3'' @ crlf"
  by code_simp

lemma sample_write:
  "Write sample_append logging_on ''app.start'' [] [] None [] [] sample_log
     = (LogOk, sample_log\<lparr>dl_files := \<lparr>lf_current =
          ''2025-03-30T02:59:07.041-03:30 pid=812 tid=4 level=INFO event=app.start version=1.0+3'' @ crlf,
          lf_backup = []\<rparr>\<rparr>)"
proof -
  have v: "write_args_valid ''app.start'' [] [] [] []" by code_simp
  have r: "ReadEnabled logging_on sample_log"
    by (simp add: ReadEnabled_def logging_on_def sample_log_def Initialize_log_def debug_log_init_def ReadRegistry_def Let_def)
  have f: "dl_files sample_log = \<lparr>lf_current = [], lf_backup = []\<rparr>" "ae_line sample_append = sample_time"
    by (simp_all add: sample_log_def Initialize_log_def debug_log_init_def sample_append_def Let_def)
  have a: "append_line (append_io sample_append sample_log)
      (''2025-03-30T02:59:07.041-03:30 pid=812 tid=4 level=INFO event=app.start version=1.0+3'' @ crlf)
      \<lparr>lf_current = [], lf_backup = []\<rparr>
    = (LogOk, \<lparr>lf_current = ''2025-03-30T02:59:07.041-03:30 pid=812 tid=4 level=INFO event=app.start version=1.0+3'' @ crlf,
         lf_backup = []\<rparr>)"
    by (simp add: append_line_def append_io_def sample_append_def slow_io_def kMaxBytes_def crlf_def WriteAll.simps Let_def)
  show ?thesis by (simp only: Write_def v r Append_def sample_checks f sample_line a simp_thms if_True if_False prod.case)
qed

theorem written_line_is_one_record_witness:
  "split_on CHR '' '' (join_words (line_words sample_time ''app.start'' [] [] [] None []))
     = [''2025-03-30T02:59:07.041-03:30'', ''pid=812'', ''tid=4'', ''level=INFO'', ''event=app.start'', ''version=1.0+3'']"
proof -
  have "ae_line sample_append = sample_time" by (simp add: sample_append_def)
  moreover have "line_words sample_time ''app.start'' [] [] [] None []
     = [''2025-03-30T02:59:07.041-03:30'', ''pid=812'', ''tid=4'', ''level=INFO'', ''event=app.start'', ''version=1.0+3'']"
    by code_simp
  ultimately show ?thesis using written_line_is_one_record [OF sample_write] by (simp only: Let_def)
qed

subsection \<open>Sequences of calls\<close>

datatype log_call =
    CallSetEnabled append_env bool bool bool log_registry
  | CallWrite append_env log_registry string string string "int option" string string

fun apply_call :: "log_call \<Rightarrow> debug_log \<Rightarrow> debug_log" where
  "apply_call (CallSetEnabled ae keyOk setOk enabled rv) l = snd (snd (SetEnabled ae keyOk setOk enabled rv l))"
| "apply_call (CallWrite ae rv event error_type error_code os_error ctx level) l
     = snd (Write ae rv event error_type error_code os_error ctx level l)"

definition log_calls :: "log_call list \<Rightarrow> debug_log \<Rightarrow> debug_log" where
  "log_calls cs l = fold apply_call cs l"

lemma Append_bounded:
  "files_bounded (dl_files l) \<Longrightarrow>
     files_bounded (dl_files (snd (Append ae event error_type error_code os_error ctx level l)))"
  using append_line_bounded [of "append_io ae l" "Line (ae_line ae) event level error_type error_code os_error ctx" "dl_files l"]
  by (auto simp: Append_def split: prod.splits)

lemma apply_call_bounded: "files_bounded (dl_files l) \<Longrightarrow> files_bounded (dl_files (apply_call c l))"
  by (cases c) (auto simp: SetEnabled_def Write_def Let_def Append_bounded)

lemma Append_config:
  "dl_mode (snd (Append ae event error_type error_code os_error ctx level l)) = dl_mode l
   \<and> dl_initialized (snd (Append ae event error_type error_code os_error ctx level l)) = dl_initialized l
   \<and> dl_path (snd (Append ae event error_type error_code os_error ctx level l)) = dl_path l"
  by (auto simp: Append_def split: prod.splits)

text \<open>Whatever is written, by whichever calls, and however reads, writes and flushes fail on the way:
  the log and its backup never exceed two megabytes each.\<close>

lemma log_stays_bounded:
  assumes "files_bounded (dl_files l)"
  shows "files_bounded (dl_files (log_calls cs l))"
  using assms unfolding log_calls_def by (induction cs arbitrary: l) (simp_all add: apply_call_bounded)

lemma log_stays_bounded_example:
  "files_bounded (dl_files (log_calls [CallSetEnabled sample_append True True True logging_on,
     CallWrite sample_append logging_on ''app.start'' [] [] None [] []] sample_log))"
  by (rule log_stays_bounded) (simp add: sample_log_def Initialize_log_def debug_log_init_def files_bounded_def Let_def)

text \<open>The switch of the log.  Only the application in the user's session can turn it: a worker that
  runs as the system, and a process that has not set up its log, are refused and change nothing.
  Otherwise the call reports success exactly if the setting was written, with the value asked for
  and nothing else changed in the registry, whatever becomes of the line it logs.\<close>

lemma toggle_is_user_setting:
  "case SetEnabled ae keyOk setOk enabled rv l of (st, rv', l') \<Rightarrow>
     (st = LogOk \<longleftrightarrow> dl_initialized l \<and> dl_mode l = ModeGui \<and> keyOk \<and> setOk)
   \<and> rv' = (if st = LogOk then rv\<lparr>rv_user := Some (if enabled then 1 else 0)\<rparr> else rv)
   \<and> (st \<noteq> LogOk \<longrightarrow> l' = l)
   \<and> (st = LogOk \<longrightarrow> (ReadEnabled rv' l' \<longleftrightarrow> enabled \<or> rv_machine rv = Some 1))"
  by (simp add: SetEnabled_def Worker_def ReadEnabled_def ReadRegistry_def Append_config Let_def)

lemma toggle_is_user_setting_example:
  "ReadEnabled (fst (snd (SetEnabled sample_append True True True logging_on sample_log)))
     (snd (snd (SetEnabled sample_append True True True logging_on sample_log)))
   \<and> rv_user (fst (snd (SetEnabled sample_append True True True logging_on sample_log))) = Some 1"
proof -
  have "dl_initialized sample_log" "dl_mode sample_log = ModeGui"
    by (simp_all add: sample_log_def Initialize_log_def debug_log_init_def Let_def)
  with toggle_is_user_setting [where ae = sample_append and keyOk = True and setOk = True and enabled = True and rv = logging_on
      and l = sample_log] show ?thesis
    by (simp split: prod.splits)
qed

end
