(* ===== verification/Service.thy ===== *)
theory Service
  imports Config
begin

text \<open>
  The watchdog service, \<open>service/service.cpp\<close>: the policy it reads, the search for the client in a
  session, its relaunch, the working loop with the lock of the updater and the cooldown, and the
  service's states.

  One turn of the loop takes a \<open>watch_turn\<close>: what the system answers during it, session by session.
  A formatted path that does not fit its buffer ends the process, because \<open>swprintf_s\<close> calls the
  invalid-parameter handler; such a result is \<open>None\<close>.  The service's own log lines are
  left out here; \<open>ServiceLog\<close> has the log.
\<close>

definition kAppExe :: wstr where "kAppExe = wide ''ligament_authenticator.exe''"
definition kRelaunchCooldownMs :: u64 where "kRelaunchCooldownMs = 60000"
definition kMaxLockAge100ns :: u64 where "kMaxLockAge100ns = 9000000000"
definition MAX_PATH :: nat where "MAX_PATH = 260"

subsection \<open>Policy and path\<close>

definition allow_exit_value :: "reg_key option \<Rightarrow> u32 option" where
  "allow_exit_value hk = (case fst (reg_query hk ''AllowExit'' 4) of Some (RegDword d) \<Rightarrow> Some d | _ \<Rightarrow> None)"

definition PolicyAllowExit :: "registry \<Rightarrow> bool" where
  "PolicyAllowExit reg =
     (case allow_exit_value (hkPolicy reg) of
        Some d \<Rightarrow> d \<noteq> 0
      | None \<Rightarrow> (case allow_exit_value (hkLocal reg) of Some d \<Rightarrow> d \<noteq> 0 | None \<Rightarrow> True))"

definition exe_folder :: "wstr \<Rightarrow> wstr option" where
  "exe_folder exe = (case find_last_of exe [92] of None \<Rightarrow> None | Some i \<Rightarrow> Some (take (i + 1) exe))"

text \<open>\<open>exe\<close>: what \<open>GetModuleFileNameW\<close> reports of the service's own file.  \<open>Some []\<close> is the empty
  result.\<close>

definition InstalledAppPath :: "wstr \<Rightarrow> wstr option" where
  "InstalledAppPath exe =
     (if exe = [] \<or> MAX_PATH \<le> length exe then Some []
      else case exe_folder exe of
        None \<Rightarrow> Some []
      | Some d \<Rightarrow> if length (d @ kAppExe) < MAX_PATH then Some (d @ kAppExe) else None)"

subsection \<open>Is the client running\<close>

record process_entry =
  pe_exeFile :: wstr
  pe_session :: "u32 option"
  pe_open :: bool
  pe_image :: "wstr option"

definition is_client :: "wstr \<Rightarrow> u32 \<Rightarrow> process_entry \<Rightarrow> bool" where
  "is_client installed sid pe \<longleftrightarrow>
     wcsieq (pe_exeFile pe) kAppExe \<and> pe_session pe = Some sid \<and> pe_open pe
     \<and> (case pe_image pe of Some p \<Rightarrow> wcsieq p installed | None \<Rightarrow> False)"

fun find_client :: "wstr \<Rightarrow> u32 \<Rightarrow> process_entry list \<Rightarrow> bool" where
  "find_client installed sid [] = False"
| "find_client installed sid (pe # pes) = (if is_client installed sid pe then True else find_client installed sid pes)"

definition AppRunningInSession :: "wstr \<Rightarrow> process_entry list option \<Rightarrow> u32 \<Rightarrow> bool option" where
  "AppRunningInSession exe snap sid =
     (case InstalledAppPath exe of
        None \<Rightarrow> None
      | Some installed \<Rightarrow>
          if installed = [] then Some True
          else (case snap of None \<Rightarrow> Some True | Some pes \<Rightarrow> Some (find_client installed sid pes)))"

subsection \<open>One turn of the loop\<close>

record session_turn =
  ss_active :: bool
  ss_id :: u32
  ss_snapshot :: "process_entry list option"
  ss_tick :: u64
  ss_token :: bool
  ss_created :: bool

datatype launch =
    TokenFailed | NoPath
  | Created wstr wstr bool \<comment> \<open>application, command line, and whether the process came up\<close>

datatype watch_action = LockRemoved | Relaunch u32 u64 launch

definition LaunchAppInSession :: "wstr \<Rightarrow> session_turn \<Rightarrow> launch option" where
  "LaunchAppInSession exe s =
     (if \<not> ss_token s then Some TokenFailed
      else case InstalledAppPath exe of
        None \<Rightarrow> None
      | Some p \<Rightarrow>
          if p = [] then Some NoPath
          else Some (Created p ([34] @ p @ wide [CHR 34] @ wide '' --minimized'') (ss_created s)))"

text \<open>The times of the last attempts, by session; an entry that is not there reads as 0.\<close>

type_synonym launches = "u32 \<Rightarrow> u64"

definition cooling :: "launches \<Rightarrow> session_turn \<Rightarrow> bool" where
  "cooling m s \<longleftrightarrow> m (ss_id s) \<noteq> 0 \<and> ss_tick s - m (ss_id s) < kRelaunchCooldownMs"

definition watch_session :: "wstr \<Rightarrow> session_turn \<Rightarrow> launches \<Rightarrow> (watch_action list \<times> launches) option" where
  "watch_session exe s m =
     (if \<not> ss_active s then Some ([], m)
      else if ss_id s = 0 then Some ([], m)
      else case AppRunningInSession exe (ss_snapshot s) (ss_id s) of
        None \<Rightarrow> None
      | Some True \<Rightarrow> Some ([], m)
      | Some False \<Rightarrow>
          if cooling m s then Some ([], m)
          else (case LaunchAppInSession exe s of
                  None \<Rightarrow> None
                | Some l \<Rightarrow> Some ([Relaunch (ss_id s) (ss_tick s) l], m(ss_id s := ss_tick s))))"

fun watch_sessions :: "wstr \<Rightarrow> session_turn list \<Rightarrow> launches \<Rightarrow> (watch_action list \<times> launches) option" where
  "watch_sessions exe [] m = Some ([], m)"
| "watch_sessions exe (s # ss) m =
     (case watch_session exe s m of
        None \<Rightarrow> None
      | Some (as1, m1) \<Rightarrow>
          (case watch_sessions exe ss m1 of None \<Rightarrow> None | Some (as2, m2) \<Rightarrow> Some (as1 @ as2, m2)))"

record watch_turn =
  wt_registry :: registry
  wt_progData :: bool
  wt_lock :: "u64 option" \<comment> \<open>last write of the updater's lock file, if it is there\<close>
  wt_now :: u64
  wt_sessions :: "session_turn list option"

text \<open>\<open>None\<close>: no lock, or none that can be looked for; \<open>Some\<close>: there is one, and it is stale.\<close>

definition lock_state :: "watch_turn \<Rightarrow> bool option" where
  "lock_state w =
     (if wt_progData w
      then map_option (\<lambda>t. wt_now w > t \<and> wt_now w - t > kMaxLockAge100ns) (wt_lock w)
      else None)"

definition watch_step :: "wstr \<Rightarrow> watch_turn \<Rightarrow> launches \<Rightarrow> (watch_action list \<times> launches) option" where
  "watch_step exe w m =
     (if PolicyAllowExit (wt_registry w) then Some ([], m)
      else if lock_state w = Some False then Some ([], m)
      else
        let pre = (if lock_state w = Some True then [LockRemoved] else [])
        in case wt_sessions w of
             None \<Rightarrow> Some (pre, m)
           | Some ss \<Rightarrow> (case watch_sessions exe ss m of None \<Rightarrow> None | Some (as, m') \<Rightarrow> Some (pre @ as, m')))"

text \<open>The loop over the turns that pass before the stop event is set or waiting fails.\<close>

fun WorkerLoop :: "wstr \<Rightarrow> watch_turn list \<Rightarrow> launches \<Rightarrow> (watch_action list \<times> launches) option" where
  "WorkerLoop exe [] m = Some ([], m)"
| "WorkerLoop exe (w # ws) m =
     (case watch_step exe w m of
        None \<Rightarrow> None
      | Some (as1, m1) \<Rightarrow>
          (case WorkerLoop exe ws m1 of None \<Rightarrow> None | Some (as2, m2) \<Rightarrow> Some (as1 @ as2, m2)))"

subsection \<open>The service's states\<close>

datatype svc_state = SvcNone | SvcStartPending | SvcRunning | SvcStopPending | SvcStopped

datatype svc_phase = PhEntry | PhRegistered | PhPending | PhEvent | PhLoop | PhLeft | PhDone

record svc =
  sv_phase :: svc_phase
  sv_status :: svc_state
  sv_stop :: "bool option" \<comment> \<open>the stop event: not made, made, set\<close>

definition svc_init :: svc where
  "svc_init = \<lparr>sv_phase = PhEntry, sv_status = SvcNone, sv_stop = None\<rparr>"

text \<open>\<open>stop\<close>: the control is a stop or a shutdown.\<close>

definition SvcHandler :: "bool \<Rightarrow> svc \<Rightarrow> svc" where
  "SvcHandler stop s =
     (if stop then s\<lparr>sv_status := SvcStopPending, sv_stop := map_option (\<lambda>_. True) (sv_stop s)\<rparr> else s)"

text \<open>\<open>SvcMain\<close>, one step at a time; \<open>ok\<close> is the answer to the call a step makes.  The loop leaves
  when its wait reports the event or, without an event, fails.\<close>

definition SvcMain :: "bool \<Rightarrow> svc \<Rightarrow> svc" where
  "SvcMain ok s = (case sv_phase s of
     PhEntry \<Rightarrow> s\<lparr>sv_phase := (if ok then PhRegistered else PhDone)\<rparr>
   | PhRegistered \<Rightarrow> s\<lparr>sv_status := SvcStartPending, sv_phase := PhPending\<rparr>
   | PhPending \<Rightarrow> s\<lparr>sv_stop := (if ok then Some False else None), sv_phase := PhEvent\<rparr>
   | PhEvent \<Rightarrow> s\<lparr>sv_status := SvcRunning, sv_phase := PhLoop\<rparr>
   | PhLoop \<Rightarrow> if sv_stop s = Some False then s else s\<lparr>sv_phase := PhLeft\<rparr>
   | PhLeft \<Rightarrow> s\<lparr>sv_status := SvcStopped, sv_phase := PhDone\<rparr>
   | PhDone \<Rightarrow> s)"

subsection \<open>When the client is relaunched\<close>

text \<open>The client is wanted in a session: the session is a user's and active, and its client is missing.\<close>

definition client_missing :: "wstr \<Rightarrow> session_turn \<Rightarrow> bool" where
  "client_missing exe s \<longleftrightarrow> ss_active s \<and> ss_id s \<noteq> 0
     \<and> (\<exists>p pes. InstalledAppPath exe = Some p \<and> p \<noteq> [] \<and> ss_snapshot s = Some pes
          \<and> (\<forall>pe \<in> set pes. \<not> is_client p (ss_id s) pe))"

lemma find_client_iff: "find_client p sid pes \<longleftrightarrow> (\<exists>pe \<in> set pes. is_client p sid pe)"
  by (induction pes) auto

lemma running_iff:
  "ss_active s \<Longrightarrow> ss_id s \<noteq> 0 \<Longrightarrow> AppRunningInSession exe (ss_snapshot s) (ss_id s) = Some r \<Longrightarrow> client_missing exe s \<longleftrightarrow> \<not> r"
  by (auto simp: AppRunningInSession_def client_missing_def find_client_iff split: option.splits if_splits)

lemma watch_session_cases:
  assumes "watch_session exe s m = Some (acts, m')"
  shows "if client_missing exe s \<and> \<not> cooling m s
    then (\<exists>l. LaunchAppInSession exe s = Some l \<and> acts = [Relaunch (ss_id s) (ss_tick s) l]) \<and> m' = m(ss_id s := ss_tick s)
    else acts = [] \<and> m' = m"
proof (cases "ss_active s \<and> ss_id s \<noteq> 0")
  case True
  with assms obtain r where r: "AppRunningInSession exe (ss_snapshot s) (ss_id s) = Some r"
    by (auto simp: watch_session_def split: option.splits)
  show ?thesis
    using assms True r running_iff [OF _ _ r]
    by (cases r) (auto simp: watch_session_def split: option.splits if_splits)
next
  case False
  with assms show ?thesis by (auto simp: watch_session_def client_missing_def split: if_splits)
qed

text \<open>The last attempts after a list of attempts.\<close>

definition attempts :: "watch_action list \<Rightarrow> (u32 \<times> u64) list" where
  "attempts acts = concat (map (\<lambda>a. case a of LockRemoved \<Rightarrow> [] | Relaunch sid t l \<Rightarrow> [(sid, t)]) acts)"

lemma attempts_simps [simp]:
  "attempts [] = []" "attempts (LockRemoved # acts) = attempts acts"
  "attempts (Relaunch sid t l # acts) = (sid, t) # attempts acts"
  "attempts (xs @ ys) = attempts xs @ attempts ys"
  by (simp_all add: attempts_def)

definition record_all :: "(u32 \<times> u64) list \<Rightarrow> launches \<Rightarrow> launches" where
  "record_all rs m = fold (\<lambda>(sid, t) m. m(sid := t)) rs m"

lemma record_all_simps [simp]:
  "record_all [] m = m" "record_all (r # rs) m = record_all rs (m(fst r := snd r))"
  "record_all (xs @ ys) m = record_all ys (record_all xs m)"
  by (simp_all add: record_all_def split_def)

text \<open>Attempts in the same session lie a minute apart.\<close>

fun spaced :: "launches \<Rightarrow> (u32 \<times> u64) list \<Rightarrow> bool" where
  "spaced m [] \<longleftrightarrow> True"
| "spaced m ((sid, t) # rs) \<longleftrightarrow> (m sid \<noteq> 0 \<longrightarrow> unat (m sid) + 60000 \<le> unat t) \<and> spaced (m(sid := t)) rs"

lemma spaced_append: "spaced m (xs @ ys) \<longleftrightarrow> spaced m xs \<and> spaced (record_all xs m) ys"
  by (induction m xs rule: spaced.induct) (auto simp del: fun_upd_apply)

text \<open>The clock: ticks never go back, and never back before an attempt that is recorded.\<close>

definition session_ticks :: "watch_turn list \<Rightarrow> u64 list" where
  "session_ticks ws = map ss_tick (concat (map (\<lambda>w. case wt_sessions w of None \<Rightarrow> [] | Some ss \<Rightarrow> ss) ws))"

definition ticks_after :: "launches \<Rightarrow> u64 list \<Rightarrow> bool" where
  "ticks_after m ts \<longleftrightarrow> sorted ts \<and> (\<forall>t \<in> set ts. \<forall>sid. m sid \<le> t)"

lemma not_cooling: "m (ss_id s) \<le> ss_tick s \<Longrightarrow> \<not> cooling m s \<Longrightarrow> m (ss_id s) \<noteq> 0 \<Longrightarrow> unat (m (ss_id s)) + 60000 \<le> unat (ss_tick s)"
  by (simp add: cooling_def kRelaunchCooldownMs_def word_less_nat_alt unat_sub_if' word_le_nat_alt)

lemma watch_session_spaced:
  assumes "watch_session exe s m = Some (acts, m')" "\<And>sid. m sid \<le> ss_tick s"
  shows "spaced m (attempts acts) \<and> m' = record_all (attempts acts) m \<and> (\<forall>sid. m' sid \<le> ss_tick s)"
  using watch_session_cases [OF assms(1)] not_cooling [of m s] assms(2)
  by (cases "client_missing exe s \<and> \<not> cooling m s") auto

lemma ticks_after_Cons: "ticks_after m (t # ts) \<Longrightarrow> (\<And>sid. m' sid \<le> t) \<Longrightarrow> ticks_after m' ts"
  by (auto simp: ticks_after_def intro: order_trans)

lemma watch_sessions_spaced:
  assumes "watch_sessions exe ss m = Some (acts, m')" "ticks_after m (map ss_tick ss @ ts)"
  shows "spaced m (attempts acts) \<and> m' = record_all (attempts acts) m \<and> ticks_after m' ts"
  using assms
proof (induction ss arbitrary: m acts)
  case (Cons s ss)
  then obtain as1 m1 as2 where 1: "watch_session exe s m = Some (as1, m1)"
    "watch_sessions exe ss m1 = Some (as2, m')" "acts = as1 @ as2" by (auto split: option.splits)
  have "\<And>sid. m sid \<le> ss_tick s" using Cons.prems(2) by (simp add: ticks_after_def)
  note w = watch_session_spaced [OF 1(1) this]
  then have "ticks_after m1 (map ss_tick ss @ ts)" using Cons.prems(2) ticks_after_Cons by auto
  from Cons.IH [OF 1(2) this] w 1(3) show ?case by (auto simp: spaced_append)
qed simp

lemma watch_step_spaced:
  assumes "watch_step exe w m = Some (acts, m')"
    "ticks_after m (map ss_tick (case wt_sessions w of None \<Rightarrow> [] | Some ss \<Rightarrow> ss) @ ts)"
  shows "spaced m (attempts acts) \<and> m' = record_all (attempts acts) m \<and> ticks_after m' ts"
proof -
  have idle: "ticks_after m ts" using assms(2) by (auto simp: ticks_after_def sorted_append)
  have pre: "attempts (if lock_state w = Some True then [LockRemoved] else []) = []" by simp
  show ?thesis
  proof (cases "PolicyAllowExit (wt_registry w) \<or> lock_state w = Some False \<or> wt_sessions w = None")
    case True
    with assms(1) idle show ?thesis by (auto simp: watch_step_def Let_def split: if_splits option.splits)
  next
    case False
    then obtain ss as1 where "watch_sessions exe ss m = Some (as1, m')" "wt_sessions w = Some ss"
      "acts = (if lock_state w = Some True then [LockRemoved] else []) @ as1"
      using assms(1) by (auto simp: watch_step_def Let_def split: option.splits)
    with watch_sessions_spaced [of exe ss m as1 m' ts] assms(2) show ?thesis by (simp add: pre split: if_splits)
  qed
qed

lemma session_ticks_Cons:
  "session_ticks (w # ws) = map ss_tick (case wt_sessions w of None \<Rightarrow> [] | Some ss \<Rightarrow> ss) @ session_ticks ws"
  by (simp add: session_ticks_def)

lemma WorkerLoop_spaced:
  "WorkerLoop exe ws m = Some (acts, m') \<Longrightarrow> ticks_after m (session_ticks ws) \<Longrightarrow> spaced m (attempts acts)"
proof (induction ws arbitrary: m acts)
  case (Cons w ws)
  then obtain as1 m1 as2 where w: "watch_step exe w m = Some (as1, m1)" "WorkerLoop exe ws m1 = Some (as2, m')" "acts = as1 @ as2"
    by (auto split: option.splits)
  note s1 = watch_step_spaced [OF w(1) Cons.prems(2) [unfolded session_ticks_Cons]]
  then have "spaced (record_all (attempts as1) m) (attempts as2)" using Cons.IH [OF w(2)] by blast
  with s1 w(3) show ?case by (simp add: spaced_append)
qed simp

lemma spaced_far:
  "spaced m (ys @ (sid, t2) # zs) \<Longrightarrow> m sid \<noteq> 0 \<Longrightarrow> unat (m sid) + 60000 \<le> unat t2"
proof (induction ys arbitrary: m)
  case (Cons y ys)
  obtain sid' t where y: "y = (sid', t)" by (cases y)
  show ?case
  proof (cases "sid' = sid")
    case True
    with Cons.prems y have t: "unat (m sid) + 60000 \<le> unat t" "spaced (m(sid := t)) (ys @ (sid, t2) # zs)" by simp_all
    then have "t \<noteq> 0" by auto
    then have "unat t + 60000 \<le> unat t2" using Cons.IH [OF t(2)] by simp
    with t(1) show ?thesis by simp
  next
    case False
    with Cons.prems y have "spaced (m(sid' := t)) (ys @ (sid, t2) # zs)" "(m(sid' := t)) sid \<noteq> 0" by simp_all
    from Cons.IH [OF this] False show ?thesis by simp
  qed
qed simp

text \<open>C27. However often the client dies, the watchdog starts it in a session at most once a minute: in
  any run of the loop, with a clock that does not go back, two attempts in the same session are at
  least sixty seconds apart.\<close>

theorem relaunches_spaced:
  assumes "WorkerLoop exe ws (\<lambda>_. 0) = Some (acts, m')" "sorted (session_ticks ws)"
    "attempts acts = xs @ (sid, t1) # ys @ (sid, t2) # zs" "t1 \<noteq> 0"
  shows "unat t1 + 60000 \<le> unat t2"
proof -
  have "spaced (\<lambda>_. 0) (attempts acts)" 
    by (rule WorkerLoop_spaced [OF assms(1)]) (simp add: ticks_after_def assms(2))
  then have "spaced ((record_all xs (\<lambda>_. 0))(sid := t1)) (ys @ (sid, t2) # zs)"
    by (simp add: assms(3) spaced_append)
  from spaced_far [OF this] assms(4) show ?thesis by simp
qed

lemma watch_sessions_exact:
  assumes "watch_sessions exe ss m = Some (acts, m')" "distinct (map ss_id ss)"
  shows "attempts acts = map (\<lambda>s. (ss_id s, ss_tick s)) (filter (\<lambda>s. client_missing exe s \<and> \<not> cooling m s) ss)"
  using assms
proof (induction ss arbitrary: m acts)
  case (Cons s ss)
  then obtain as1 m1 as2 where 1: "watch_session exe s m = Some (as1, m1)"
    "watch_sessions exe ss m1 = Some (as2, m')" "acts = as1 @ as2" by (auto split: option.splits)
  note c = watch_session_cases [OF 1(1)]
  then have "m1 = m \<or> m1 = m(ss_id s := ss_tick s)" by (auto split: if_splits)
  then have same: "filter (\<lambda>x. client_missing exe x \<and> \<not> cooling m1 x) ss = filter (\<lambda>x. client_missing exe x \<and> \<not> cooling m x) ss"
  proof (intro filter_cong refl)
    fix x
    assume "x \<in> set ss"
    then have "ss_id x \<in> ss_id ` set ss" by simp
    with Cons.prems(2) have "ss_id x \<noteq> ss_id s" by force
    with \<open>m1 = m \<or> m1 = m(ss_id s := ss_tick s)\<close> have "m1 (ss_id x) = m (ss_id x)" by auto
    then show "(client_missing exe x \<and> \<not> cooling m1 x) = (client_missing exe x \<and> \<not> cooling m x)" by (simp add: cooling_def)
  qed
  have "attempts as2 = map (\<lambda>s. (ss_id s, ss_tick s)) (filter (\<lambda>s. client_missing exe s \<and> \<not> cooling m s) ss)"
    using Cons.IH [OF 1(2)] Cons.prems(2) same by simp
  with c 1(3) show ?case by (cases "client_missing exe s \<and> \<not> cooling m s") auto
qed simp

text \<open>What one turn of the watchdog does: nothing while the policy lets users quit the client or an
  update holds its lock; otherwise it starts the client in exactly those sessions that are a user's,
  are active, have no process of the installed client and have not been tried within the last
  minute, in the order in which the system lists them.\<close>

lemma watchdog_relaunches_exactly:
  assumes "watch_step exe w m = Some (acts, m')" "wt_sessions w = Some ss" "distinct (map ss_id ss)"
  shows "attempts acts =
    (if PolicyAllowExit (wt_registry w) \<or> lock_state w = Some False then []
     else map (\<lambda>s. (ss_id s, ss_tick s)) (filter (\<lambda>s. client_missing exe s \<and> \<not> cooling m s) ss))"
proof (cases "PolicyAllowExit (wt_registry w) \<or> lock_state w = Some False")
  case True
  with assms(1) show ?thesis by (auto simp: watch_step_def split: if_splits)
next
  case False
  have pre: "attempts (if lock_state w = Some True then [LockRemoved] else []) = []" by simp
  from False assms(1,2) obtain as1 where "watch_sessions exe ss m = Some (as1, m')"
    "acts = (if lock_state w = Some True then [LockRemoved] else []) @ as1"
    by (auto simp: watch_step_def Let_def split: option.splits)
  with watch_sessions_exact [OF _ assms(3)] False show ?thesis by (simp add: pre split: if_splits)
qed

text \<open>The lock of an update.  A stale lock is removed in the turn that finds it.  A lock whose time
  lies in the future, after the clock was set back, counts as fresh until the clock has caught up.\<close>

lemma stale_lock_removed:
  "watch_step exe w m = Some (acts, m') \<Longrightarrow> \<not> PolicyAllowExit (wt_registry w) \<Longrightarrow> lock_state w = Some True \<Longrightarrow> \<exists>r. acts = LockRemoved # r"
  by (auto simp: watch_step_def Let_def split: option.splits)

lemma future_lock_blocks:
  "wt_progData w \<Longrightarrow> wt_lock w = Some t \<Longrightarrow> wt_now w \<le> t \<Longrightarrow> watch_step exe w m = Some ([], m)"
  by (auto simp: watch_step_def lock_state_def)

lemma launch_command:
  "LaunchAppInSession exe s = Some (Created p cmd up) \<Longrightarrow>
     InstalledAppPath exe = Some p \<and> p \<noteq> [] \<and> cmd = [34] @ p @ [34] @ wide '' --minimized''"
  by (auto simp: LaunchAppInSession_def wide_def split: option.splits if_splits)

subsection \<open>A client that keeps dying\<close>

definition demo_exe :: wstr where
  "demo_exe = wide (''C:'' @ [CHR 92] @ ''L'' @ [CHR 92] @ ''svc.exe'')"

definition dead_session :: "u64 \<Rightarrow> session_turn" where
  "dead_session t = \<lparr>ss_active = True, ss_id = 2, ss_snapshot = Some [], ss_tick = t, ss_token = True, ss_created = True\<rparr>"

definition no_exit :: registry where
  "no_exit = \<lparr>hkPolicy = Some [''AllowExit'' \<mapsto> RegDword 0], hkLocal = None\<rparr>"

definition dead_turn :: "u64 \<Rightarrow> watch_turn" where
  "dead_turn t = \<lparr>wt_registry = no_exit, wt_progData = True, wt_lock = None, wt_now = 0, wt_sessions = Some [dead_session t]\<rparr>"

definition demo_launch :: launch where
  "demo_launch = the (LaunchAppInSession demo_exe (dead_session 1))"

lemma demo_installed: "InstalledAppPath demo_exe = Some (wide (''C:'' @ [CHR 92] @ ''L'' @ [CHR 92] @ ''ligament_authenticator.exe''))"
  by code_simp

lemma dead_turn_step:
  "watch_step demo_exe (dead_turn t) m =
     Some (if cooling m (dead_session t) then ([], m) else ([Relaunch 2 t demo_launch], m(2 := t)))"
  by (simp add: watch_step_def dead_turn_def PolicyAllowExit_def allow_exit_value_def no_exit_def reg_query_def lock_state_def
      watch_session_def AppRunningInSession_def demo_installed wide_def dead_session_def demo_launch_def LaunchAppInSession_def)

lemma watchdog_relaunches_exactly_example:
  "attempts (fst (the (watch_step demo_exe (dead_turn 90000) (\<lambda>_. 0)))) = [(2, 90000)]"
proof -
  have c: "\<not> cooling (\<lambda>_. 0) (dead_session 90000)" by (simp add: cooling_def)
  have st: "watch_step demo_exe (dead_turn 90000) (\<lambda>_. 0) = Some ([Relaunch 2 90000 demo_launch], (\<lambda>_. 0)(2 := 90000))"
    by (simp only: dead_turn_step c if_False)
  note w = watchdog_relaunches_exactly [OF st, of "[dead_session 90000]"]
  have ss: "wt_sessions (dead_turn 90000) = Some [dead_session 90000]" "ss_id (dead_session 90000) = 2" "ss_tick (dead_session 90000) = 90000"
    by (simp_all add: dead_turn_def dead_session_def)
  have "client_missing demo_exe (dead_session 90000)"
    by (simp add: client_missing_def dead_session_def demo_installed wide_def)
  moreover have "\<not> PolicyAllowExit (wt_registry (dead_turn 90000))" "lock_state (dead_turn 90000) = None"
    by (simp_all add: dead_turn_def PolicyAllowExit_def allow_exit_value_def no_exit_def reg_query_def lock_state_def)
  ultimately have "attempts [Relaunch 2 90000 demo_launch] = [(2, 90000)]" using w ss c by simp
  then show ?thesis unfolding st by simp
qed

text \<open>Dead at 15 s, at 30 s and at 75 s after the start: tried twice.\<close>

lemma demo_run:
  "WorkerLoop demo_exe [dead_turn 15000, dead_turn 30000, dead_turn 75000] (\<lambda>_. 0)
     = Some ([Relaunch 2 15000 demo_launch, Relaunch 2 75000 demo_launch], (\<lambda>_. 0)(2 := 15000, 2 := 75000))"
  by (simp add: dead_turn_step cooling_def dead_session_def kRelaunchCooldownMs_def del: fun_upd_upd)

theorem relaunches_spaced_witness: "unat (15000 :: u64) + 60000 \<le> unat (75000 :: u64)"
  by (rule relaunches_spaced [OF demo_run, of "[]" 2 15000 "[]" 75000 "[]"])
     (simp_all add: session_ticks_def dead_turn_def dead_session_def)

subsection \<open>Stopping\<close>

text \<open>Controls reach a service that has reported itself as running; they and the steps of the main
  function come in any order.\<close>

inductive svc_reachable :: "svc \<Rightarrow> bool" where
  svc_start: "svc_reachable svc_init"
| svc_main: "svc_reachable s \<Longrightarrow> svc_reachable (SvcMain ok s)"
| svc_control: "svc_reachable s \<Longrightarrow> sv_status s = SvcRunning \<Longrightarrow> svc_reachable (SvcHandler stop s)"

definition svc_inv :: "svc \<Rightarrow> bool" where
  "svc_inv s \<longleftrightarrow>
     (sv_status s = SvcStopPending \<longrightarrow> sv_phase s \<in> {PhLoop, PhLeft} \<and> sv_stop s \<noteq> Some False)
   \<and> (sv_status s = SvcRunning \<longrightarrow> sv_phase s \<in> {PhLoop, PhLeft})
   \<and> (sv_status s = SvcStopped \<longrightarrow> sv_phase s = PhDone)
   \<and> (sv_phase s \<in> {PhEntry, PhRegistered} \<longrightarrow> sv_status s = SvcNone)"

lemma svc_reachable_inv: "svc_reachable s \<Longrightarrow> svc_inv s"
proof (induction rule: svc_reachable.induct)
  case (svc_main s ok)
  then show ?case by (cases "sv_phase s"; cases "sv_status s") (auto simp: svc_inv_def SvcMain_def)
qed (auto simp: svc_inv_def svc_init_def SvcHandler_def)

text \<open>A stopped service has left its loop; a service told to stop while it runs is done two steps of
  its main function later, and reports it.\<close>

lemma stop_is_obeyed:
  assumes "svc_reachable s" "sv_status s = SvcRunning"
  shows "sv_status (SvcMain a (SvcMain b (SvcHandler True s))) = SvcStopped
    \<or> (sv_phase s = PhLeft \<and> sv_status (SvcMain b (SvcHandler True s)) = SvcStopped)"
  using svc_reachable_inv [OF assms(1)] assms(2)
  by (cases "sv_stop s"; cases "sv_phase s") (auto simp: svc_inv_def SvcMain_def SvcHandler_def)

end
