(* ===== verification/LogUtils.thy ===== *)
theory LogUtils
  imports DebugLog
begin

text \<open>
  The text logs of the service and of the credential provider: \<open>service/log_utils.h\<close>, the logging
  functions of \<open>service/service.cpp\<close> and those of \<open>credential_provider/common.h\<close>.

  The state is the log file, its backup and the files set aside because they lack the byte order
  mark; the answers of the file system are arguments, one record per call.
\<close>

subsection \<open>Lines\<close>

definition FormatLogTimestamp :: "line_env \<Rightarrow> wstr" where
  "FormatLogTimestamp e =
     (let offset = - (le_bias e + (if le_zone e = ZoneDaylight then le_daylightBias e else 0));
          a = nat \<bar>offset\<bar>
      in wide (pad 4 (le_year e) @ ''-'' @ pad 2 (le_month e) @ ''-'' @ pad 2 (le_day e) @ ''T'' @ pad 2 (le_hour e)
         @ '':'' @ pad 2 (le_minute e) @ '':'' @ pad 2 (le_second e) @ ''.'' @ pad 3 (le_ms e)
         @ (if offset \<ge> 0 then ''+'' else ''-'') @ pad 2 (a div 60) @ '':'' @ pad 2 (a mod 60)))"

text \<open>The Russian words the levels are inferred from, in UTF-16.\<close>

definition word_oshibka :: wstr where "word_oshibka = [0x43E, 0x448, 0x438, 0x431, 0x43A, 0x430]"
definition word_otkaz :: wstr where "word_otkaz = [0x43E, 0x442, 0x43A, 0x430, 0x437]"
definition word_otklonen :: wstr where "word_otklonen = [0x43E, 0x442, 0x43A, 0x43B, 0x43E, 0x43D, 0x451, 0x43D]"

definition infer_level :: "wstr list \<Rightarrow> wstr list \<Rightarrow> wstr \<Rightarrow> wstr" where
  "infer_level errors warnings t =
     (if list_ex (\<lambda>p. occurs p t) errors then wide ''ERROR''
      else if list_ex (\<lambda>p. occurs p t) warnings then wide ''WARN'' else wide ''INFO'')"

definition InferServiceLogLevel :: "wstr \<Rightarrow> wstr" where
  "InferServiceLogLevel = infer_level
     [wide ''failed'', wide ''FAIL'', word_oshibka, wide ''error'', wide ''Error'', wide ''CRITICAL'']
     [wide ''WARN'', wide ''warn'', wide ''Warning'', wide ''timeout'']"

definition InferCPLogLevel :: "wstr \<Rightarrow> wstr" where
  "InferCPLogLevel = infer_level
     [wide ''CRITICAL'', wide ''ERR'', wide ''err='', wide ''failed'', wide ''FAIL'', word_otkaz, wide ''error'', wide ''Error'']
     [wide ''WARN'', wide ''warn'', wide ''Warning'', wide ''timeout'', word_otklonen]"

text \<open>\<open>text\<close>: the formatted message; \<open>_vsnwprintf_s\<close> cuts it to its buffer.  \<open>None\<close>: the line does not
  fit its own buffer, and \<open>swprintf_s\<close> ends the process.\<close>

definition service_line :: "line_env \<Rightarrow> wstr \<Rightarrow> wstr option" where
  "service_line e msg =
     (let body = take 511 msg;
          line = wide ''['' @ FormatLogTimestamp e @ wide ''] level='' @ InferServiceLogLevel body
                 @ wide '' comp=service '' @ body @ [13, 10]
      in if length (FormatLogTimestamp e) < 32 \<and> length line < 600 then Some line else None)"

definition cp_line :: "line_env \<Rightarrow> wstr \<Rightarrow> wstr option" where
  "cp_line e msg =
     (let buf = take 1023 msg;
          line = wide ''['' @ FormatLogTimestamp e @ wide '' tid='' @ wide (digits_of (le_tid e)) @ wide ''] level=''
                 @ InferCPLogLevel buf @ wide '' comp=cp '' @ buf @ [13, 10]
      in if length (FormatLogTimestamp e) < 32 \<and> length line < 1200 then Some line else None)"

subsection \<open>Appending\<close>

definition bom :: bytes where "bom = [0xEF, 0xBB, 0xBF]"
definition kMaxLogBytes :: nat where "kMaxLogBytes = 2 * 1024 * 1024"

record text_log =
  tl_file :: "bytes option"
  tl_backup :: "bytes option"
  tl_legacy :: "bytes list"

record text_io =
  tx_open :: bool
  tx_size :: bool
  tx_bytes :: bytes \<comment> \<open>the line in UTF-8\<close>
  tx_delete :: bool
  tx_move :: bool
  tx_open2 :: bool
  tx_bom :: "bool \<times> nat" \<comment> \<open>success of the write of the mark, and the bytes written\<close>
  tx_read :: bool
  tx_moveLegacy :: bool
  tx_open3 :: bool
  tx_written :: nat

text \<open>\<open>OPEN_ALWAYS\<close>: a file that is not there is made.\<close>

definition open_always :: "text_log \<Rightarrow> text_log" where
  "open_always s = s\<lparr>tl_file := Some (case tl_file s of None \<Rightarrow> [] | Some b \<Rightarrow> b)\<rparr>"

definition append_bytes :: "bytes \<Rightarrow> text_log \<Rightarrow> text_log" where
  "append_bytes b s = s\<lparr>tl_file := map_option (\<lambda>c. c @ b) (tl_file s)\<rparr>"

definition WriteLogBom :: "text_io \<Rightarrow> text_log \<Rightarrow> bool \<times> text_log" where
  "WriteLogBom e s = (fst (tx_bom e) \<and> snd (tx_bom e) = 3, append_bytes (take (snd (tx_bom e)) bom) s)"

definition tl_content :: "text_log \<Rightarrow> bytes" where
  "tl_content s = (case tl_file s of None \<Rightarrow> [] | Some b \<Rightarrow> b)"

text \<open>The rotation: whether to go on, the state, and the size the file is taken to have.\<close>

definition rotate_text :: "text_io \<Rightarrow> text_log \<Rightarrow> bool \<times> text_log \<times> nat" where
  "rotate_text e s =
     (let sz = length (tl_content s)
      in if sz + length (tx_bytes e) > kMaxLogBytes
         then
           let s1 = (if tx_delete e then s\<lparr>tl_backup := None\<rparr> else s)
           in if tx_move e
              then
                let s2 = s1\<lparr>tl_backup := tl_file s1, tl_file := None\<rparr>
                in if \<not> tx_open2 e then (False, s2, sz)
                   else (case WriteLogBom e (open_always s2) of (ok, s3) \<Rightarrow> (ok, s3, 3))
              else if \<not> tx_open2 e then (False, s1, sz) else (True, open_always s1, sz)
         else (True, s, sz))"

text \<open>The byte order mark: written into an empty file, checked in every other one.\<close>

definition ensure_bom :: "text_io \<Rightarrow> nat \<Rightarrow> text_log \<Rightarrow> bool \<times> text_log" where
  "ensure_bom e sz s =
     (if sz = 0 then WriteLogBom e s
      else if \<not> tx_read e then (False, s)
      else if take 3 (tl_content s) \<noteq> bom
      then (if \<not> tx_moveLegacy e then (False, s)
            else
              let s1 = s\<lparr>tl_legacy := tl_content s # tl_legacy s, tl_file := None\<rparr>
              in if \<not> tx_open3 e then (False, s1) else WriteLogBom e (open_always s1))
      else (True, s))"

definition AppendUtf8LogLine :: "text_io \<Rightarrow> text_log \<Rightarrow> text_log" where
  "AppendUtf8LogLine e s =
     (if \<not> tx_open e then s
      else
        let s = open_always s
        in if \<not> tx_size e then s
           else if tx_bytes e = [] then s
           else case rotate_text e s of (go, s, sz) \<Rightarrow>
             if \<not> go then s
             else case ensure_bom e sz s of (go, s) \<Rightarrow>
               if \<not> go then s else append_bytes (take (tx_written e) (tx_bytes e)) s)"

subsection \<open>The log stays readable\<close>

text \<open>A reader can tell the encoding: the file starts with the mark, or holds no more than a part of
  it.\<close>

definition marked :: "text_log \<Rightarrow> bool" where
  "marked s \<longleftrightarrow> prefix (tl_content s) bom \<or> prefix bom (tl_content s)"

lemma marked_simps [simp]:
  "marked (open_always s) \<longleftrightarrow> marked s"
  "tl_content (open_always s) = tl_content s"
  by (auto simp: marked_def tl_content_def open_always_def split: option.splits)

lemma content_append: "tl_file s \<noteq> None \<Longrightarrow> tl_content (append_bytes b s) = tl_content s @ b"
  by (auto simp: tl_content_def append_bytes_def)

lemma append_bytes_fields [simp]:
  "tl_backup (append_bytes b s) = tl_backup s" "tl_legacy (append_bytes b s) = tl_legacy s"
  by (simp_all add: append_bytes_def)

lemma open_always_Some [simp]: "tl_file (open_always s) \<noteq> None"
  by (simp add: open_always_def)

lemma open_always_ex [simp]: "\<exists>b. tl_file (open_always s) = Some b"
  by (simp add: open_always_def)

lemma WriteLogBom_empty:
  assumes "WriteLogBom e s = (ok, s')" "tl_content s = []" "tl_file s \<noteq> None"
  shows "marked s' \<and> (ok \<longrightarrow> tl_content s' = bom) \<and> tl_file s' \<noteq> None \<and> prefix (tl_content s') bom"
proof -
  from assms have "tl_content s' = take (snd (tx_bom e)) bom" "ok = (fst (tx_bom e) \<and> snd (tx_bom e) = 3)"
    by (auto simp: WriteLogBom_def content_append)
  then show ?thesis using assms by (auto simp: marked_def take_is_prefix bom_def WriteLogBom_def append_bytes_def)
qed

lemma open_always_fields [simp]: "tl_backup (open_always s) = tl_backup s" "tl_legacy (open_always s) = tl_legacy s"
  by (simp_all add: open_always_def)

lemma WriteLogBom_fields: "WriteLogBom e s = (ok, s') \<Longrightarrow> tl_backup s' = tl_backup s \<and> tl_legacy s' = tl_legacy s"
  by (auto simp: WriteLogBom_def append_bytes_def)

lemma rotate_text_cases:
  assumes "rotate_text e s = (go, s', n)" "tl_file s \<noteq> None"
  shows "(length (tl_content s) + length (tx_bytes e) \<le> kMaxLogBytes \<and> go \<and> s' = s \<and> n = length (tl_content s))
   \<or> (length (tl_content s) + length (tx_bytes e) > kMaxLogBytes \<and> tx_move e \<and> tl_backup s' = Some (tl_content s)
        \<and> tl_legacy s' = tl_legacy s \<and> prefix (tl_content s') bom
        \<and> (go \<longrightarrow> tl_content s' = bom \<and> n = 3 \<and> tl_file s' \<noteq> None))
   \<or> (length (tl_content s) + length (tx_bytes e) > kMaxLogBytes \<and> \<not> tx_move e \<and> tl_backup s' \<in> {tl_backup s, None}
        \<and> tl_legacy s' = tl_legacy s \<and> tl_content s' = tl_content s
        \<and> (go \<longrightarrow> n = length (tl_content s) \<and> tl_file s' \<noteq> None))"
proof -
  define s1 where "s1 = (if tx_delete e then s\<lparr>tl_backup := None\<rparr> else s)"
  define s2 where "s2 = s1\<lparr>tl_backup := tl_file s1, tl_file := None\<rparr>"
  have s1: "tl_content s1 = tl_content s" "tl_file s1 = tl_file s" "tl_legacy s1 = tl_legacy s" "tl_backup s1 \<in> {tl_backup s, None}"
    by (auto simp: s1_def tl_content_def)
  have s2: "tl_content s2 = []" "tl_backup s2 = Some (tl_content s)" "tl_legacy s2 = tl_legacy s"
    using assms(2) s1 by (auto simp: s2_def tl_content_def)
  obtain ok s3 where w: "WriteLogBom e (open_always s2) = (ok, s3)" by fastforce
  note w1 = WriteLogBom_empty [OF w] and w2 = WriteLogBom_fields [OF w]
  show ?thesis
    using assms(1) s1 s2 w w1 w2
    unfolding rotate_text_def Let_def s1_def [symmetric] s2_def [symmetric]
    by (auto split: if_splits)
qed

lemma ensure_bom_cases:
  assumes "ensure_bom e (length (tl_content s)) s = (go, s')" "tl_file s \<noteq> None"
  shows "tl_backup s' = tl_backup s \<and> (go \<longrightarrow> prefix bom (tl_content s') \<and> tl_file s' \<noteq> None) \<and>
    ((tl_legacy s' = tl_legacy s \<and> (if tl_content s = [] then prefix (tl_content s') bom else tl_content s' = tl_content s))
     \<or> (\<not> prefix bom (tl_content s) \<and> tl_legacy s' = tl_content s # tl_legacy s \<and> prefix (tl_content s') bom))"
proof -
  define s1 where "s1 = s\<lparr>tl_legacy := tl_content s # tl_legacy s, tl_file := None\<rparr>"
  have s1: "tl_content s1 = []" "tl_backup s1 = tl_backup s" "tl_legacy s1 = tl_content s # tl_legacy s"
    by (simp_all add: s1_def tl_content_def)
  obtain ok1 s2 where w: "WriteLogBom e (open_always s1) = (ok1, s2)" by fastforce
  obtain ok0 s0 where v: "WriteLogBom e s = (ok0, s0)" by fastforce
  note w1 = WriteLogBom_empty [OF w] and w2 = WriteLogBom_fields [OF w]
    and v1 = WriteLogBom_empty [OF v] and v2 = WriteLogBom_fields [OF v]
  have t: "take 3 c = bom \<longleftrightarrow> prefix bom c" for c
    by (auto simp: bom_def prefix_def) (metis append_take_drop_id append_Cons append_Nil)
  show ?thesis
    using assms s1 w w1 w2 v v1 v2
    unfolding ensure_bom_def Let_def t s1_def [symmetric]
    by (auto split: if_splits)
qed

text \<open>What one call does to the log: \<open>w\<close> is what reaches the file of the new line, \<open>p\<close> what is written of
  the mark before it.\<close>

definition log_extended :: "bytes \<Rightarrow> text_log \<Rightarrow> text_log \<Rightarrow> bool" where
  "log_extended line s s' \<longleftrightarrow>
     (\<exists>p w. tl_content s' = tl_content s @ p @ w \<and> prefix w line \<and> (p = [] \<or> tl_content s = [] \<and> prefix p bom))
     \<and> tl_legacy s' = tl_legacy s \<and> tl_backup s' \<in> {tl_backup s, None}"

definition log_rotated :: "bytes \<Rightarrow> text_log \<Rightarrow> text_log \<Rightarrow> bool" where
  "log_rotated line s s' \<longleftrightarrow>
     (\<exists>p w. tl_content s' = p @ w \<and> prefix w line \<and> prefix p bom)
     \<and> tl_legacy s' = tl_legacy s \<and> tl_backup s' = Some (tl_content s)
     \<and> length (tl_content s) + length line > kMaxLogBytes"

definition log_set_aside :: "bytes \<Rightarrow> text_log \<Rightarrow> text_log \<Rightarrow> bool" where
  "log_set_aside line s s' \<longleftrightarrow>
     (\<exists>p w. tl_content s' = p @ w \<and> prefix w line \<and> prefix p bom)
     \<and> tl_legacy s' = tl_content s # tl_legacy s \<and> tl_backup s' \<in> {tl_backup s, None} \<and> \<not> prefix bom (tl_content s)"

lemma append_step:
  fixes k :: nat
  assumes "tl_file s \<noteq> None" "rotate_text e s = (go, s1, n)" "ensure_bom e n s1 = (go2, s2)"
  defines "line \<equiv> tx_bytes e"
  defines "s' \<equiv> (if \<not> go then s1 else if \<not> go2 then s2 else append_bytes (take k line) s2)"
  shows "(log_extended line s s' \<or> log_rotated line s s' \<or> log_set_aside line s s') \<and> (marked s \<longrightarrow> marked s')"
proof (cases go)
  case False
  have "log_rotated line s s1" if "tl_backup s1 = Some (tl_content s)" "tl_legacy s1 = tl_legacy s" "prefix (tl_content s1) bom"
    "length (tl_content s) + length line > kMaxLogBytes"
    unfolding log_rotated_def using that by (intro conjI exI [of _ "tl_content s1"] exI [of _ "[]"]) simp_all
  moreover have "log_extended line s s1" if "tl_content s1 = tl_content s" "tl_legacy s1 = tl_legacy s" "tl_backup s1 \<in> {tl_backup s, None}"
    unfolding log_extended_def using that by (intro conjI exI [of _ "[]"]) simp_all
  ultimately show ?thesis using rotate_text_cases [OF assms(2,1)] False
    by (auto simp: s'_def line_def marked_def)
next
  case True
  note r = rotate_text_cases [OF assms(2,1)]
  then have n: "n = length (tl_content s1)" "tl_file s1 \<noteq> None" using True assms(1) by (auto simp: bom_def)
  note b = ensure_bom_cases [OF assms(3) [unfolded n(1)] n(2)]
  have c: "tl_content s' = tl_content s2 @ (if go2 then take k line else [])" "tl_legacy s' = tl_legacy s2" "tl_backup s' = tl_backup s2"
    using b True by (auto simp: s'_def content_append)
  have w: "prefix (if go2 then take k line else []) line" by (simp add: take_is_prefix)
  have m: "marked s'" if "marked s"
  proof (cases go2)
    case True
    with b c show ?thesis by (auto simp: marked_def intro: prefix_order.trans)
  next
    case False
    with b c r \<open>go\<close> that show ?thesis by (auto simp: marked_def split: if_splits)
  qed
  have "log_extended line s s' \<or> log_rotated line s s' \<or> log_set_aside line s s'"
  proof (cases "tl_content s1 = tl_content s \<and> tl_legacy s1 = tl_legacy s \<and> tl_backup s1 \<in> {tl_backup s, None}")
    case True
    define wr where "wr = (if go2 then take k line else [])"
    from w have w': "prefix wr line" by (simp add: wr_def)
    from c have c': "tl_content s' = tl_content s2 @ wr" by (simp add: wr_def)
    from b consider
        (same) "tl_legacy s2 = tl_legacy s1" "tl_content s1 = []" "prefix (tl_content s2) bom"
      | (kept) "tl_legacy s2 = tl_legacy s1" "tl_content s2 = tl_content s1"
      | (aside) "\<not> prefix bom (tl_content s1)" "tl_legacy s2 = tl_content s1 # tl_legacy s1" "prefix (tl_content s2) bom"
      by (auto split: if_splits)
    then show ?thesis
    proof cases
      case same
      have "log_extended line s s'"
        unfolding log_extended_def using same True b c c' w'
        by (intro conjI exI [of _ "tl_content s2"] exI [of _ wr]) auto
      then show ?thesis ..
    next
      case kept
      have "log_extended line s s'"
        unfolding log_extended_def using kept True b c c' w' by (intro conjI exI [of _ "[]"] exI [of _ wr]) auto
      then show ?thesis ..
    next
      case aside
      have "log_set_aside line s s'"
        unfolding log_set_aside_def using aside True b c c' w'
        by (intro conjI exI [of _ "tl_content s2"] exI [of _ wr]) auto
      then show ?thesis by blast
    qed
  next
    case False
    with r \<open>go\<close> have s1: "tl_content s1 = bom" "tl_legacy s1 = tl_legacy s" "tl_backup s1 = Some (tl_content s)"
      "length (tl_content s) + length line > kMaxLogBytes" by (auto simp: line_def)
    with b have "tl_content s2 = bom" "tl_legacy s2 = tl_legacy s" by (auto simp: bom_def)
    with s1 b c w have "log_rotated line s s'"
      unfolding log_rotated_def by (intro conjI exI [of _ bom] exI [of _ "if go2 then take k line else []"]) simp_all
    then show ?thesis by simp
  qed
  with m show ?thesis by simp
qed

lemma log_extended_same: "tl_content s' = tl_content s \<Longrightarrow> tl_legacy s' = tl_legacy s \<Longrightarrow> tl_backup s' = tl_backup s \<Longrightarrow> log_extended line s s'"
  by (auto simp: log_extended_def intro: exI [of _ "[]"])

lemma append_outcome:
  "(log_extended (tx_bytes e) s (AppendUtf8LogLine e s) \<or> log_rotated (tx_bytes e) s (AppendUtf8LogLine e s)
      \<or> log_set_aside (tx_bytes e) s (AppendUtf8LogLine e s))
   \<and> (marked s \<longrightarrow> marked (AppendUtf8LogLine e s))"
proof (cases "tx_open e \<and> tx_size e \<and> tx_bytes e \<noteq> []")
  case False
  then have "AppendUtf8LogLine e s \<in> {s, open_always s}" by (auto simp: AppendUtf8LogLine_def Let_def)
  then show ?thesis by (auto intro: log_extended_same)
next
  case True
  obtain go s1 n where r: "rotate_text e (open_always s) = (go, s1, n)" by (metis prod_cases3)
  obtain go2 s2 where b: "ensure_bom e n s1 = (go2, s2)" by fastforce
  have e: "AppendUtf8LogLine e s = (if \<not> go then s1 else if \<not> go2 then s2 else append_bytes (take (tx_written e) (tx_bytes e)) s2)"
    using True r b by (simp add: AppendUtf8LogLine_def)
  from append_step [OF open_always_Some r b, of "tx_written e"] show ?thesis
    unfolding e by (simp add: log_extended_def log_rotated_def log_set_aside_def)
qed

text \<open>C32. Appending to a text log never damages it.  Whatever fails on the way, the call leaves the log
  extended by a first part of the new line (after the byte order mark, if it was empty), or moved to
  the backup as it was because the line no longer fitted, or set aside as it was because it lacked
  the mark; and a log whose encoding a reader could tell stays such a log.\<close>

theorem append_keeps_log:
  "(log_extended (tx_bytes e) s (AppendUtf8LogLine e s) \<or> log_rotated (tx_bytes e) s (AppendUtf8LogLine e s)
      \<or> log_set_aside (tx_bytes e) s (AppendUtf8LogLine e s))
   \<and> (marked s \<longrightarrow> marked (AppendUtf8LogLine e s))"
  by (rule append_outcome)

definition good_io :: "bytes \<Rightarrow> text_io" where
  "good_io b = \<lparr>tx_open = True, tx_size = True, tx_bytes = b, tx_delete = True, tx_move = True, tx_open2 = True,
     tx_bom = (True, 3), tx_read = True, tx_moveLegacy = True, tx_open3 = True, tx_written = length b\<rparr>"

definition no_log :: text_log where
  "no_log = \<lparr>tl_file = None, tl_backup = None, tl_legacy = []\<rparr>"

lemma first_line: "tl_content (AppendUtf8LogLine (good_io [65]) no_log) = bom @ [65]"
  by (simp add: AppendUtf8LogLine_def good_io_def no_log_def open_always_def rotate_text_def ensure_bom_def WriteLogBom_def
      append_bytes_def tl_content_def kMaxLogBytes_def bom_def Let_def)

theorem append_keeps_log_witness:
  "marked (AppendUtf8LogLine (good_io [65]) no_log) \<and> tl_content (AppendUtf8LogLine (good_io [65]) no_log) = bom @ [65]"
proof -
  have "marked no_log" by (simp add: marked_def no_log_def tl_content_def)
  with append_keeps_log [of "good_io [65]" no_log] first_line show ?thesis by blast
qed

text \<open>The size: with files that can be moved, the log stays within two megabytes.  If the log cannot be
  moved, because another process holds it, it grows without a limit, and its backup is gone.\<close>

definition text_bounded :: "text_log \<Rightarrow> bool" where
  "text_bounded s \<longleftrightarrow> length (tl_content s) \<le> kMaxLogBytes"

lemma append_bounded:
  assumes "text_bounded s" "tx_move e" "length (tx_bytes e) + 3 \<le> kMaxLogBytes" "marked s"
  shows "text_bounded (AppendUtf8LogLine e s)"
proof (cases "tx_open e \<and> tx_size e \<and> tx_bytes e \<noteq> []")
  case False
  then have "AppendUtf8LogLine e s \<in> {s, open_always s}" by (auto simp: AppendUtf8LogLine_def Let_def)
  with assms(1) show ?thesis by (auto simp: text_bounded_def)
next
  case True
  obtain go s1 n where r: "rotate_text e (open_always s) = (go, s1, n)" by (metis prod_cases3)
  obtain go2 s2 where b: "ensure_bom e n s1 = (go2, s2)" by fastforce
  have e: "AppendUtf8LogLine e s = (if \<not> go then s1 else if \<not> go2 then s2 else append_bytes (take (tx_written e) (tx_bytes e)) s2)"
    using True r b by (simp add: AppendUtf8LogLine_def)
  have p3: "prefix c bom \<Longrightarrow> length c \<le> 3" for c by (auto simp: bom_def dest: prefix_length_le)
  note rc = rotate_text_cases [OF r open_always_Some]
  show ?thesis
  proof (cases go)
    case False
    with rc assms(2) p3 [of "tl_content s1"] show ?thesis by (auto simp: e text_bounded_def kMaxLogBytes_def)
  next
    case True
    with rc have n: "n = length (tl_content s1)" "tl_file s1 \<noteq> None"
      and l: "tl_content s1 = bom \<or> length (tl_content s1) + length (tx_bytes e) \<le> kMaxLogBytes"
      using assms(2) by (auto simp: bom_def)
    note bc = ensure_bom_cases [OF b [unfolded n(1)] n(2)]
    then have "length (tl_content s2) \<le> 3 \<or> tl_content s2 = tl_content s1"
      using p3 [of "tl_content s2"] by (auto split: if_splits)
    moreover have "length bom = 3" by (simp add: bom_def)
    ultimately have "length (tl_content s2) + length (tx_bytes e) \<le> kMaxLogBytes" using l assms(3) by auto
    with bc show ?thesis by (auto simp: e True text_bounded_def content_append)
  qed
qed

lemma unmovable_log_grows:
  assumes "tl_file s = Some c" "prefix bom c" "length c + length b > kMaxLogBytes" "b \<noteq> []"
  shows "AppendUtf8LogLine ((good_io b)\<lparr>tx_move := False\<rparr>) s = s\<lparr>tl_backup := None, tl_file := Some (c @ b)\<rparr>"
proof -
  have "c \<noteq> []" "take 3 c = bom" using assms(2) by (auto simp: prefix_def bom_def)
  then show ?thesis
    using assms by (simp add: AppendUtf8LogLine_def good_io_def rotate_text_def ensure_bom_def append_bytes_def
        tl_content_def open_always_def Let_def)
qed

subsection \<open>The log of the credential provider\<close>

record cp_log =
  cl_disabled :: bool
  cl_path :: bool
  cl_sa :: "bool option" \<comment> \<open>the descriptor: not asked for yet, or whether it could be made\<close>
  cl_text :: text_log

record cp_io =
  ci_sa :: bool
  ci_folder :: bool
  ci_enforce :: "bool \<Rightarrow> bool" \<comment> \<open>setting owner and list of the directory, or of the file\<close>
  ci_reparse :: bool
  ci_open :: bool
  ci_text :: text_io

definition cp_init :: "text_log \<Rightarrow> cp_log" where
  "cp_init t = \<lparr>cl_disabled = False, cl_path = False, cl_sa = None, cl_text = t\<rparr>"

definition enforceSystemAcl :: "cp_io \<Rightarrow> bool \<Rightarrow> cp_log \<Rightarrow> bool" where
  "enforceSystemAcl e directory s \<longleftrightarrow> cl_sa s = Some True \<and> ci_enforce e directory"

definition LogCPFileLine :: "cp_io \<Rightarrow> cp_log \<Rightarrow> cp_log" where
  "LogCPFileLine e s =
     (if cl_disabled s then s
      else
        let s = (if cl_sa s = None then s\<lparr>cl_sa := Some (ci_sa e)\<rparr> else s)
        in if \<not> cl_path s \<and> \<not> ci_folder e then s\<lparr>cl_disabled := True\<rparr>
           else if \<not> cl_path s \<and> \<not> enforceSystemAcl e True s then s\<lparr>cl_disabled := True\<rparr>
           else
             let s = s\<lparr>cl_path := True\<rparr>
             in if ci_reparse e then s\<lparr>cl_disabled := True\<rparr>
                else if \<not> ci_open e then s
                else s\<lparr>cl_text := AppendUtf8LogLine (ci_text e) (open_always (cl_text s))\<rparr>)"

definition cp_calls :: "cp_io list \<Rightarrow> text_log \<Rightarrow> cp_log" where
  "cp_calls es t = fold LogCPFileLine es (cp_init t)"

text \<open>The state after some calls, as far as it lets the next one write.\<close>

lemma cp_open_state:
  assumes "\<not> cl_disabled (cp_calls es t)"
  shows "list_all (\<lambda>e. \<not> ci_reparse e) es
    \<and> (case es of [] \<Rightarrow> \<not> cl_path (cp_calls es t) \<and> cl_sa (cp_calls es t) = None
       | e # _ \<Rightarrow> ci_sa e \<and> ci_folder e \<and> ci_enforce e True \<and> cl_path (cp_calls es t))"
  using assms
proof (induction es rule: rev_induct)
  case (snoc e es)
  have s: "cp_calls (es @ [e]) t = LogCPFileLine e (cp_calls es t)" by (simp add: cp_calls_def)
  with snoc.prems have d: "\<not> cl_disabled (cp_calls es t)" by (auto simp: LogCPFileLine_def)
  from snoc.IH [OF d] snoc.prems show ?case unfolding s
    by (cases es) (auto simp: LogCPFileLine_def enforceSystemAcl_def Let_def split: if_splits)
qed (simp add: cp_calls_def cp_init_def)

text \<open>The credential provider, which runs as the system, writes its log only into a directory of its
  own.  If a call changes the log, the very first call has made itself owner of the directory and
  replaced its access list, and neither this call nor any before it found a link in place of the
  file; the first failure of either kind ends logging for good.\<close>

lemma cp_log_only_in_own_directory:
  assumes "cl_text (cp_calls (es @ [e]) t) \<noteq> cl_text (cp_calls es t)"
  shows "list_all (\<lambda>e. \<not> ci_reparse e) (es @ [e])
    \<and> ci_sa (hd (es @ [e])) \<and> ci_folder (hd (es @ [e])) \<and> ci_enforce (hd (es @ [e])) True"
proof -
  have s: "cp_calls (es @ [e]) t = LogCPFileLine e (cp_calls es t)" by (simp add: cp_calls_def)
  from assms have "\<not> cl_disabled (cp_calls es t)" "\<not> cl_disabled (cp_calls (es @ [e]) t)"
    unfolding s by (auto simp: LogCPFileLine_def Let_def split: if_splits)
  with cp_open_state [of "es @ [e]" t] show ?thesis by (cases es) auto
qed

definition good_cp_io :: cp_io where
  "good_cp_io = \<lparr>ci_sa = True, ci_folder = True, ci_enforce = (\<lambda>_. True), ci_reparse = False, ci_open = True, ci_text = good_io [65]\<rparr>"

lemma cp_log_only_in_own_directory_example:
  "ci_enforce (hd [good_cp_io]) True \<and> tl_content (cl_text (cp_calls [good_cp_io] no_log)) = bom @ [65]"
proof -
  have "open_always (open_always no_log) = open_always no_log" by (simp add: open_always_def no_log_def)
  then have t: "tl_content (cl_text (cp_calls [good_cp_io] no_log)) = bom @ [65]"
    using first_line by (simp add: cp_calls_def cp_init_def LogCPFileLine_def good_cp_io_def enforceSystemAcl_def AppendUtf8LogLine_def
        good_io_def)
  moreover have "tl_content (cl_text (cp_calls [] no_log)) = []" by (simp add: cp_calls_def cp_init_def no_log_def tl_content_def)
  ultimately have "cl_text (cp_calls ([] @ [good_cp_io]) no_log) \<noteq> cl_text (cp_calls [] no_log)" by (auto simp: bom_def)
  from cp_log_only_in_own_directory [OF this] t show ?thesis by simp
qed

end
