(* ===== verification/LinkBinding.thy ===== *)
theory LinkBinding
  imports JsonText
begin

text \<open>
  Binding this computer to the Link agent service, \<open>runner/link_agent_binding_bridge.cpp\<close>, with the
  session check of \<open>runner/link_pipe_session.h\<close>: the trust decision about the service behind the
  pipe, the request and its answer, and the method channel with the thread it starts per request.

  What the system answers is a \<open>bind_env\<close>; \<open>cmpi\<close> is \<open>lstrcmpiW\<close> (whether two strings are equal).
\<close>

subsection \<open>Pieces\<close>

definition hex_token_char :: "char \<Rightarrow> bool" where
  "hex_token_char c \<longleftrightarrow> is_digit c \<or> (97 \<le> (of_char c :: nat) \<and> (of_char c :: nat) \<le> 102)
     \<or> (65 \<le> (of_char c :: nat) \<and> (of_char c :: nat) \<le> 70)"

definition IsHexToken :: "string \<Rightarrow> bool" where
  "IsHexToken token \<longleftrightarrow> length token = 64 \<and> list_all hex_token_char token"

definition Win32Diagnostic :: "string \<Rightarrow> nat \<Rightarrow> string" where
  "Win32Diagnostic operation error = operation @ '' (Win32 error '' @ digits_of error @ '')''"

datatype LinkPipeSessionStatus = LpTrusted | LpQueryFailed | LpNotSessionZero

definition MAXDWORD :: u32 where "MAXDWORD = 0xFFFFFFFF"

text \<open>\<open>session\<close>: what the query reports, or nothing if it fails with \<open>error\<close>.\<close>

definition CheckLinkPipeSession :: "u32 option \<Rightarrow> nat \<Rightarrow> LinkPipeSessionStatus \<times> u32 \<times> nat" where
  "CheckLinkPipeSession session error =
     (case session of
        None \<Rightarrow> (LpQueryFailed, MAXDWORD, error)
      | Some s \<Rightarrow> (if s = 0 then LpTrusted else LpNotSessionZero, s, 0))"

subsection \<open>Is the service trusted\<close>

record bind_env =
  be_wait :: bool
  be_open :: bool
  be_error :: nat \<comment> \<open>\<open>GetLastError\<close> after the call that fails\<close>
  be_serverPid :: "u32 option"
  be_manager :: bool
  be_service :: bool
  be_status :: "(bool \<times> u32) option" \<comment> \<open>running, and the process\<close>
  be_configSize :: "bool \<times> nat" \<comment> \<open>failed for want of space, and the size needed\<close>
  be_config :: bool
  be_account :: "wstr option"
  be_session :: "u32 option"
  be_written :: "bool \<times> nat"
  be_response :: "string option"

text \<open>The trust error, code and message, or none.\<close>

definition trust_error :: "(wstr \<Rightarrow> wstr \<Rightarrow> bool) \<Rightarrow> bind_env \<Rightarrow> (string \<times> string) option" where
  "trust_error cmpi e =
     (let untrusted = (\<lambda>m. Some (''link_agent_service_untrusted'', m)); diag = (\<lambda>op. Win32Diagnostic op (be_error e))
      in case be_serverPid e of
        None \<Rightarrow> Some (''link_agent_pipe_server_pid_failed'', diag ''Cannot identify named-pipe server'')
      | Some server_pid \<Rightarrow>
          if \<not> be_manager e then untrusted (diag ''Cannot inspect Link service manager'')
          else if \<not> be_service e then untrusted (diag ''Cannot inspect Link service'')
          else (case be_status e of
            None \<Rightarrow> untrusted (diag ''Cannot inspect Link service status'')
          | Some (running, pid) \<Rightarrow>
              if \<not> running \<or> pid \<noteq> server_pid then untrusted ''Named-pipe server is not the running Link service''
              else if \<not> fst (be_configSize e) \<or> snd (be_configSize e) = 0 \<or> snd (be_configSize e) > 65536
              then untrusted ''Cannot size Link service configuration''
              else if \<not> be_config e then untrusted (diag ''Cannot inspect Link service account'')
              else if (case be_account e of None \<Rightarrow> True | Some a \<Rightarrow> \<not> cmpi a (wide ''LocalSystem''))
              then Some (''link_agent_service_sid_mismatch'', ''Link service is not configured as LocalSystem'')
              else (case CheckLinkPipeSession (be_session e) (be_error e) of (st, session, err) \<Rightarrow>
                if st = LpQueryFailed
                then Some (''link_agent_service_session_check_failed'', Win32Diagnostic ''Cannot verify Link service pipe session'' err)
                else if st \<noteq> LpTrusted
                then Some (''link_agent_service_not_session0'', ''Link service pipe is not running in Session 0'')
                else None)))"

subsection \<open>The exchange\<close>

definition bind_request :: "string \<Rightarrow> string \<Rightarrow> string" where
  "bind_request server_url token =
     [CHR ''{'', quote] @ ''version'' @ [quote] @ '':1,'' @ [quote] @ ''server_url'' @ [quote, CHR '':''] @ JsonString server_url
     @ [CHR '','', quote] @ ''enrollment_token'' @ [quote, CHR '':'', quote] @ token @ [quote, CHR ''}'']"

definition ok_prefix :: string where
  "ok_prefix = [CHR ''{'', quote] @ ''ok'' @ [quote] @ '':true,'' @ [quote] @ ''fingerprint'' @ [quote, CHR '':'', quote]"
definition error_prefix :: string where
  "error_prefix = [CHR ''{'', quote] @ ''ok'' @ [quote] @ '':false,'' @ [quote] @ ''error'' @ [quote, CHR '':'', quote]"
definition object_end :: string where "object_end = [quote, CHR ''}'']"

definition starts_with :: "string \<Rightarrow> string \<Rightarrow> bool" where
  "starts_with p s \<longleftrightarrow> take (length p) s = p"

definition finishes_with :: "string \<Rightarrow> string \<Rightarrow> bool" where
  "finishes_with p s \<longleftrightarrow> length p \<le> length s \<and> drop (length s - length p) s = p"

definition known_refusal :: "string \<Rightarrow> (string \<times> string) option" where
  "known_refusal code =
     (if code = ''server_mismatch'' then Some (''link_agent_server_mismatch'', ''App and Windows service use different server URLs'')
      else if code = ''host_already_enrolled'' then Some (''link_agent_host_already_enrolled'', ''This computer is already enrolled'')
      else if code = ''identity_store_failed''
      then Some (''link_agent_identity_store_failed'', ''Windows service could not save the host identity'')
      else if code = ''enrollment_rejected''
      then Some (''link_agent_enrollment_rejected'', ''Server rejected host enrollment; check the Link agent log'')
      else None)"

definition refusal_of :: "string \<Rightarrow> string \<times> string" where
  "refusal_of body =
     (let known = (if length body > length error_prefix + length object_end \<and> starts_with error_prefix body
                       \<and> finishes_with object_end body
                   then known_refusal (substr body (length error_prefix) (length body - length error_prefix - length object_end))
                   else None)
      in case known of Some r \<Rightarrow> r
         | None \<Rightarrow> (''link_agent_enrollment_rejected'', ''Windows Link service rejected host enrollment''))"

definition parse_answer :: "string \<Rightarrow> (string \<times> string) + string" where
  "parse_answer body =
     (if length body \<noteq> length ok_prefix + 64 + length object_end \<or> \<not> starts_with ok_prefix body
         \<or> \<not> finishes_with object_end body
      then Inl (refusal_of body)
      else
        let fingerprint = substr body (length ok_prefix) 64
        in if \<not> IsHexToken fingerprint
           then Inl (''link_agent_invalid_response'', ''Windows Link service returned an invalid fingerprint'')
           else Inr fingerprint)"

text \<open>The result and what is written to the pipe.\<close>

definition BindOverNamedPipe ::
    "(wstr \<Rightarrow> wstr \<Rightarrow> bool) \<Rightarrow> bind_env \<Rightarrow> string \<Rightarrow> string \<Rightarrow> ((string \<times> string) + string) \<times> string list" where
  "BindOverNamedPipe cmpi e server_url token =
     (if \<not> be_wait e then (Inl (''link_agent_service_not_running'', ''Ligament Link Agent service is not running''), [])
      else if \<not> be_open e
      then (Inl (''link_agent_pipe_unavailable'', ''Cannot connect to Ligament Link Agent service pipe''), [])
      else case trust_error cmpi e of
        Some err \<Rightarrow> (Inl err, [])
      | None \<Rightarrow>
          let request = bind_request server_url token
          in if \<not> (fst (be_written e) \<and> snd (be_written e) = length request)
             then (Inl (''link_agent_pipe_communication_failed'', ''Could not send the binding request to Link service''), [request])
             else (case be_response e of
               None \<Rightarrow> (Inl (''link_agent_pipe_communication_failed'', ''Link service did not return a binding result''), [request])
             | Some r \<Rightarrow>
                 if r = [] then (Inl (''link_agent_pipe_communication_failed'', ''Link service did not return a binding result''), [request])
                 else (parse_answer (take 511 r), [request])))"

subsection \<open>The method channel\<close>

datatype channel_answer = ChSuccess string | ChError string string | ChNotImplemented

datatype bind_thread = Working string string | Released channel_answer

record binding =
  bn_busy :: bool
  bn_threads :: "nat \<rightharpoonup> bind_thread"
  bn_answers :: "(nat \<times> channel_answer) list"

definition binding_init :: binding where
  "binding_init = \<lparr>bn_busy = False, bn_threads = (\<lambda>_. None), bn_answers = []\<rparr>"

text \<open>A call of the channel: its number, the method, and the two arguments as far as they are there and
  strings.\<close>

definition bind_call :: "nat \<Rightarrow> string \<Rightarrow> string option \<Rightarrow> string option \<Rightarrow> binding \<Rightarrow> binding" where
  "bind_call i meth token server_url b =
     (let answer = (\<lambda>a. b\<lparr>bn_answers := bn_answers b @ [(i, a)]\<rparr>)
      in if meth \<noteq> ''bindHost'' then answer ChNotImplemented
         else case (token, server_url) of
           (Some t, Some u) \<Rightarrow>
             if \<not> IsHexToken t \<or> u = [] \<or> length u > 2048
             then answer (ChError ''invalid_binding_request'' ''Invalid Link host binding request'')
             else if bn_busy b
             then answer (ChError ''binding_in_progress'' ''A Link host binding is already in progress'')
             else b\<lparr>bn_busy := True, bn_threads := (bn_threads b)(i \<mapsto> Working u t)\<rparr>
         | _ \<Rightarrow> answer (ChError ''invalid_binding_request'' ''Invalid Link host binding request''))"

text \<open>The thread: the exchange and the release of the flag, then the answer.\<close>

definition bind_work :: "(wstr \<Rightarrow> wstr \<Rightarrow> bool) \<Rightarrow> bind_env \<Rightarrow> nat \<Rightarrow> binding \<Rightarrow> binding" where
  "bind_work cmpi e i b =
     (case bn_threads b i of
        Some (Working u t) \<Rightarrow>
          b\<lparr>bn_busy := False,
            bn_threads := (bn_threads b)(i \<mapsto> Released (case fst (BindOverNamedPipe cmpi e u t) of
              Inl (code, msg) \<Rightarrow> ChError code msg | Inr fp \<Rightarrow> ChSuccess fp))\<rparr>
      | _ \<Rightarrow> b)"

definition bind_answer :: "nat \<Rightarrow> binding \<Rightarrow> binding" where
  "bind_answer i b =
     (case bn_threads b i of
        Some (Released a) \<Rightarrow> b\<lparr>bn_threads := (bn_threads b)(i := None), bn_answers := bn_answers b @ [(i, a)]\<rparr>
      | _ \<Rightarrow> b)"

subsection \<open>The token reaches only the service\<close>

lemma trust_error_None:
  "trust_error cmpi e = None \<longleftrightarrow>
     (\<exists>pid a. be_serverPid e = Some pid \<and> be_manager e \<and> be_service e \<and> be_status e = Some (True, pid)
        \<and> fst (be_configSize e) \<and> 0 < snd (be_configSize e) \<and> snd (be_configSize e) \<le> 65536 \<and> be_config e
        \<and> be_account e = Some a \<and> cmpi a (wide ''LocalSystem'')) \<and> be_session e = Some 0"
  by (auto simp: trust_error_def Let_def CheckLinkPipeSession_def split: option.splits if_splits)

lemma parse_answer_Inr:
  assumes "parse_answer body = Inr fp"
  shows "body = ok_prefix @ fp @ object_end \<and> IsHexToken fp"
proof -
  from assms have l: "length body = length ok_prefix + 64 + length object_end" "take (length ok_prefix) body = ok_prefix"
    "drop (length body - length object_end) body = object_end" "fp = substr body (length ok_prefix) 64" "IsHexToken fp"
    by (auto simp: parse_answer_def starts_with_def finishes_with_def Let_def split: if_splits)
  have "body = take (length ok_prefix) body @ take 64 (drop (length ok_prefix) body) @ drop (length ok_prefix + 64) body"
    by (metis append_take_drop_id drop_drop add.commute)
  with l show ?thesis by (simp add: substr_def)
qed

lemma hex_token_plain: "IsHexToken t \<Longrightarrow> plain_key t"
proof -
  have "hex_token_char c \<Longrightarrow> c \<noteq> quote \<and> c \<noteq> backslash \<and> 32 \<le> (of_char c :: nat)" for c
    by (auto simp: hex_token_char_def is_digit_def)
  then show "IsHexToken t \<Longrightarrow> plain_key t" by (auto simp: IsHexToken_def plain_key_def list_all_iff)
qed

text \<open>The members of the request after the version, which is a number.\<close>

definition request_members :: "string \<Rightarrow> (string \<times> string) list option" where
  "request_members request =
     (let v = [CHR ''{'', quote] @ ''version'' @ [quote] @ '':1,''
      in if starts_with v request then read_object (CHR ''{'' # drop (length v) request) else None)"

lemma bind_request_members:
  assumes "IsHexToken t"
  shows "request_members (bind_request u t) = Some [(''server_url'', u), (''enrollment_token'', t)]"
proof -
  have "bind_request u t = ([CHR ''{'', quote] @ ''version'' @ [quote] @ '':1,'') @ json_members [(''server_url'', u), (''enrollment_token'', t)] @ [CHR ''}'']"
    by (simp add: bind_request_def json_member_def JsonString_def JsonString_fold EscapeJson_plain hex_token_plain assms)
  moreover have "read_object (json_object_text [(''server_url'', u), (''enrollment_token'', t)]) = Some [(''server_url'', u), (''enrollment_token'', t)]"
    by (rule read_object_json_object_text) (simp_all add: plain_key_def)
  ultimately show ?thesis
    by (simp add: request_members_def starts_with_def json_object_text_def)
qed

text \<open>C8. The enrollment token leaves the application only for the Link agent service: whatever is
  written to the pipe is written after the pipe's server has been found to be the process of the
  running service, configured to run as the system and living in session zero.  It is then one
  request, which reads back as the server's address and the token, and a success answers with a
  fingerprint of 64 hexadecimal digits, exactly the one in the service's reply.\<close>

theorem token_only_to_service:
  assumes "BindOverNamedPipe cmpi e u t = (r, sent)" "IsHexToken t"
  shows "(sent \<noteq> [] \<longrightarrow>
      (\<exists>pid a. be_serverPid e = Some pid \<and> be_status e = Some (True, pid) \<and> be_account e = Some a \<and> cmpi a (wide ''LocalSystem''))
      \<and> be_session e = Some 0 \<and> map request_members sent = [Some [(''server_url'', u), (''enrollment_token'', t)]])
    \<and> (\<forall>fp. r = Inr fp \<longrightarrow> sent \<noteq> [] \<and> IsHexToken fp \<and> map_option (take 511) (be_response e) = Some (ok_prefix @ fp @ object_end))"
  using assms parse_answer_Inr bind_request_members [OF assms(2)]
  by (auto simp: BindOverNamedPipe_def trust_error_None Let_def split: if_splits option.splits)

definition good_bind :: "string \<Rightarrow> bind_env" where
  "good_bind reply = \<lparr>be_wait = True, be_open = True, be_error = 0, be_serverPid = Some 77, be_manager = True, be_service = True,
     be_status = Some (True, 77), be_configSize = (True, 300), be_config = True, be_account = Some (wide ''localsystem''),
     be_session = Some 0, be_written = (True, 132), be_response = Some reply\<rparr>"

definition demo_token :: string where "demo_token = replicate 64 CHR ''a''"

lemma demo_token_hex: "IsHexToken demo_token"
  by (simp add: IsHexToken_def demo_token_def hex_token_char_def)

lemma demo_bind:
  "BindOverNamedPipe wcsieq (good_bind (ok_prefix @ demo_token @ object_end)) ''https://l.example'' demo_token
     = (Inr demo_token, [bind_request ''https://l.example'' demo_token])"
proof -
  have "length (bind_request ''https://l.example'' demo_token) = 132" by code_simp
  moreover have "trust_error wcsieq (good_bind (ok_prefix @ demo_token @ object_end)) = None"
    unfolding trust_error_None by (simp add: good_bind_def) code_simp
  moreover have "parse_answer (take 511 (ok_prefix @ demo_token @ object_end)) = Inr demo_token" by code_simp
  moreover have "ok_prefix @ demo_token @ object_end \<noteq> []" by (simp add: ok_prefix_def)
  ultimately show ?thesis unfolding BindOverNamedPipe_def by (simp add: good_bind_def Let_def)
qed

theorem token_only_to_service_witness:
  "map request_members [bind_request ''https://l.example'' demo_token] = [Some [(''server_url'', ''https://l.example''), (''enrollment_token'', demo_token)]]"
  using token_only_to_service [OF demo_bind demo_token_hex] by blast

subsection \<open>One binding at a time\<close>

text \<open>Calls with fresh numbers, and the steps of the threads, in any order.\<close>

definition fresh_call :: "nat \<Rightarrow> binding \<Rightarrow> bool" where
  "fresh_call i b \<longleftrightarrow> bn_threads b i = None \<and> i \<notin> fst ` set (bn_answers b)"

inductive binding_reachable :: "(wstr \<Rightarrow> wstr \<Rightarrow> bool) \<Rightarrow> binding \<Rightarrow> bool" for cmpi where
  bn_start: "binding_reachable cmpi binding_init"
| bn_call: "binding_reachable cmpi b \<Longrightarrow> fresh_call i b \<Longrightarrow> binding_reachable cmpi (bind_call i meth t u b)"
| bn_work: "binding_reachable cmpi b \<Longrightarrow> binding_reachable cmpi (bind_work cmpi e i b)"
| bn_answer: "binding_reachable cmpi b \<Longrightarrow> binding_reachable cmpi (bind_answer i b)"

definition working :: "binding \<Rightarrow> nat \<Rightarrow> bool" where
  "working b i \<longleftrightarrow> (\<exists>u t. bn_threads b i = Some (Working u t))"

definition binding_inv :: "binding \<Rightarrow> bool" where
  "binding_inv b \<longleftrightarrow>
     (bn_busy b \<longleftrightarrow> (\<exists>i. working b i)) \<and> (\<forall>i j. working b i \<longrightarrow> working b j \<longrightarrow> i = j)
   \<and> (\<forall>i u t. bn_threads b i = Some (Working u t) \<longrightarrow> IsHexToken t)
   \<and> distinct (map fst (bn_answers b)) \<and> (\<forall>i \<in> fst ` set (bn_answers b). bn_threads b i = None)"

lemma bind_call_answered_or_started:
  "(\<exists>a. bind_call i meth t u b = b\<lparr>bn_answers := bn_answers b @ [(i, a)]\<rparr>)
   \<or> (\<exists>u' t'. IsHexToken t' \<and> \<not> bn_busy b
        \<and> bind_call i meth t u b = b\<lparr>bn_busy := True, bn_threads := (bn_threads b)(i \<mapsto> Working u' t')\<rparr>)"
  unfolding bind_call_def Let_def by (cases t; cases u) auto

lemma bind_call_cases:
  obtains (answered) a where "bind_call i meth t u b = b\<lparr>bn_answers := bn_answers b @ [(i, a)]\<rparr>"
  | (started) u' t' where "IsHexToken t'" "\<not> bn_busy b"
      "bind_call i meth t u b = b\<lparr>bn_busy := True, bn_threads := (bn_threads b)(i \<mapsto> Working u' t')\<rparr>"
  using bind_call_answered_or_started [of i meth t u b] by blast

lemma working_upd [simp]: "working (b\<lparr>bn_answers := as'\<rparr>) i = working b i" "working (b\<lparr>bn_busy := x\<rparr>) i = working b i"
  by (simp_all add: working_def)

lemma binding_inv_call:
  assumes "binding_inv b" "fresh_call i b"
  shows "binding_inv (bind_call i meth t u b)"
proof (cases rule: bind_call_cases [of i meth t u b])
  case (answered a)
  with assms show ?thesis by (auto simp: binding_inv_def fresh_call_def)
next
  case (started u' t')
  with assms show ?thesis by (auto simp: binding_inv_def fresh_call_def working_def)
qed

lemma binding_inv_work: "binding_inv b \<Longrightarrow> binding_inv (bind_work cmpi e i b)"
  by (auto simp: binding_inv_def bind_work_def working_def split: option.split bind_thread.split)

lemma working_answer: "working (bind_answer i b) j = working b j"
  by (auto simp: working_def bind_answer_def split: option.split bind_thread.split)

lemma binding_inv_answer:
  assumes "binding_inv b"
  shows "binding_inv (bind_answer i b)"
proof -
  have 1: "bn_busy (bind_answer i b) = bn_busy b"
    and 2: "\<And>j u t. bn_threads (bind_answer i b) j = Some (Working u t) \<Longrightarrow> bn_threads b j = Some (Working u t)"
    by (auto simp: bind_answer_def split: option.splits bind_thread.splits if_splits)
  have 3: "distinct (map fst (bn_answers (bind_answer i b)))
      \<and> (\<forall>j \<in> fst ` set (bn_answers (bind_answer i b)). bn_threads (bind_answer i b) j = None)"
    using assms by (auto simp: binding_inv_def bind_answer_def split: option.split bind_thread.split)
  have 4: "\<forall>j u t. bn_threads (bind_answer i b) j = Some (Working u t) \<longrightarrow> IsHexToken t"
  proof (intro allI impI)
    fix j u t
    assume "bn_threads (bind_answer i b) j = Some (Working u t)"
    from 2 [OF this] assms show "IsHexToken t" by (simp add: binding_inv_def)
  qed
  from assms have 5: "bn_busy b \<longleftrightarrow> (\<exists>j. working b j)" "\<forall>j k. working b j \<longrightarrow> working b k \<longrightarrow> j = k"
    by (simp_all add: binding_inv_def)
  show ?thesis unfolding binding_inv_def working_answer 1 by (intro conjI 3 [THEN conjunct1] 3 [THEN conjunct2] 4 5)
qed

lemma binding_reachable_inv: "binding_reachable cmpi b \<Longrightarrow> binding_inv b"
proof (induction rule: binding_reachable.induct)
  case bn_start
  show ?case by (simp add: binding_inv_def binding_init_def working_def)
qed (simp_all add: binding_inv_call binding_inv_work binding_inv_answer)

text \<open>One binding at a time, and one answer to each call: in every interleaving of calls and threads
  the busy flag is set exactly while a thread exchanges with the service, there is never a second
  such thread, and no call is answered twice or while its thread still runs.  A call whose thread
  runs is answered once the thread has taken its two steps.\<close>

lemma bindings_exclusive:
  assumes "binding_reachable cmpi b"
  shows "(bn_busy b \<longleftrightarrow> (\<exists>i. working b i)) \<and> (\<forall>i j. working b i \<and> working b j \<longrightarrow> i = j)
    \<and> distinct (map fst (bn_answers b)) \<and> (\<forall>i \<in> fst ` set (bn_answers b). bn_threads b i = None)
    \<and> (\<forall>i e. working b i \<longrightarrow> \<not> bn_busy (bind_work cmpi e i b)
          \<and> (\<exists>a. bn_answers (bind_answer i (bind_work cmpi e i b)) = bn_answers b @ [(i, a)]))"
  using binding_reachable_inv [OF assms]
  by (auto simp: binding_inv_def) (auto simp: working_def bind_work_def bind_answer_def)

lemma bindings_exclusive_example:
  "distinct (map fst (bn_answers (bind_call 1 ''bindHost'' (Some demo_token) (Some ''u'')
     (bind_call 0 ''bindHost'' (Some demo_token) (Some ''u'') binding_init))))
   \<and> bn_answers (bind_call 1 ''bindHost'' (Some demo_token) (Some ''u'')
     (bind_call 0 ''bindHost'' (Some demo_token) (Some ''u'') binding_init))
     = [(1, ChError ''binding_in_progress'' ''A Link host binding is already in progress'')]"
proof -
  let ?b = "bind_call 0 ''bindHost'' (Some demo_token) (Some ''u'') binding_init"
  have "binding_reachable wcsieq ?b" by (rule bn_call [OF bn_start]) (simp add: fresh_call_def binding_init_def)
  then have "binding_reachable wcsieq (bind_call 1 ''bindHost'' (Some demo_token) (Some ''u'') ?b)"
    by (rule bn_call) (simp add: fresh_call_def binding_init_def bind_call_def demo_token_hex)
  from bindings_exclusive [OF this] show ?thesis by (simp add: bind_call_def binding_init_def demo_token_hex)
qed

end
