(* ===== verification/LinkHost.thy ===== *)
theory LinkHost
  imports LinkBinding
begin

text \<open>
  The worker's bridge to the Link service, \<open>runner/link_host_bridge.cpp\<close>: the check of the pipe's name,
  the trust decision about its server, and the calls of the method channel with the one pipe they
  share.  Frames that have arrived wait in the pipe as a list of messages.

  Calls run one at a time, under the bridge's mutex.  The clearing of buffers is left out.
\<close>

definition kFrameLimit :: nat where "kFrameLimit = 512 * 1024"

definition kPipePrefix :: string where
  "kPipePrefix = [CHR 92, CHR 92, CHR ''.'', CHR 92] @ ''pipe'' @ [CHR 92] @ ''LigamentLinkHost-''"

definition lower_hex_char :: "char \<Rightarrow> bool" where
  "lower_hex_char c \<longleftrightarrow> is_digit c \<or> (97 \<le> (of_char c :: nat) \<and> (of_char c :: nat) \<le> 102)"

definition ValidPipeName :: "string \<Rightarrow> wstr option" where
  "ValidPipeName v =
     (if length v \<noteq> length kPipePrefix + 32 then None
      else if take (length kPipePrefix) v \<noteq> kPipePrefix then None
      else if \<not> list_all lower_hex_char (drop (length kPipePrefix) v) then None
      else Some (wide kPipePrefix @ wide (drop (length kPipePrefix) v)))"

subsection \<open>The server\<close>

record host_env =
  he_process :: bool \<comment> \<open>the server's process can be opened\<close>
  he_token :: bool
  he_userSize :: nat
  he_user :: bool
  he_systemSid :: bool
  he_isSystem :: bool \<comment> \<open>the token's user is the system\<close>
  he_session :: "u32 option"
  he_wait :: bool
  he_open :: bool
  he_serverPid :: "u32 option"
  he_clientPid :: "u32 option"
  he_ownPid :: u32
  he_mode :: bool
  he_inbox :: "string list" \<comment> \<open>what has arrived when the pipe is connected\<close>

definition IsSystemProcessInSessionZero :: "host_env \<Rightarrow> bool" where
  "IsSystemProcessInSessionZero e =
     (if \<not> he_process e then False
      else if \<not> he_token e then False
      else 0 < he_userSize e \<and> he_user e \<and> he_systemSid e \<and> he_isSystem e \<and> he_session e = Some 0)"

text \<open>A connected pipe, with the circumstances of its connection.\<close>

record link_pipe =
  lp_name :: wstr
  lp_env :: host_env
  lp_inbox :: "string list"

definition ConnectToService :: "host_env \<Rightarrow> wstr \<Rightarrow> link_pipe option" where
  "ConnectToService e pipe_name =
     (if \<not> he_wait e then None
      else if \<not> he_open e then None
      else if \<not> (he_serverPid e \<noteq> None \<and> he_clientPid e \<noteq> None \<and> he_clientPid e = Some (he_ownPid e)
                 \<and> IsSystemProcessInSessionZero e)
      then None
      else if \<not> he_mode e then None
      else Some \<lparr>lp_name = pipe_name, lp_env = e, lp_inbox = he_inbox e\<rparr>)"

text \<open>A read takes one message off the pipe; it fails for a message longer than the buffer, which is
  then read in part, and for an empty one.  \<open>ok\<close>: the system lets it read.\<close>

definition ReadFrame :: "bool \<Rightarrow> link_pipe \<Rightarrow> string option \<times> link_pipe" where
  "ReadFrame ok p =
     (if \<not> ok then (None, p)
      else case lp_inbox p of
        [] \<Rightarrow> (None, p)
      | f # fs \<Rightarrow>
          if length f > kFrameLimit then (None, p\<lparr>lp_inbox := drop kFrameLimit f # fs\<rparr>)
          else if f = [] then (None, p\<lparr>lp_inbox := fs\<rparr>)
          else (Some f, p\<lparr>lp_inbox := fs\<rparr>))"

subsection \<open>The method channel\<close>

datatype host_value = HvNone | HvText string | HvBool bool
datatype host_answer = HostSuccess host_value | HostError string string | HostNotImplemented

datatype window_action =
    ShowRestored | ShowNormal | JoinForeground | LeaveForeground | MakeTopmost | SetForeground | BringToTop

record window_env =
  wv_window :: bool
  wv_iconic :: bool
  wv_foregroundThread :: u32
  wv_thread :: u32

definition bringToFront :: "window_env \<Rightarrow> window_action list" where
  "bringToFront w =
     (if \<not> wv_window w then []
      else
        let front = [MakeTopmost, SetForeground, BringToTop]
        in (if wv_iconic w then [ShowRestored] else [ShowNormal])
           @ (if wv_foregroundThread w \<noteq> 0 \<and> wv_foregroundThread w \<noteq> wv_thread w
              then [JoinForeground] @ front @ [LeaveForeground] else front))"

datatype host_call =
    BringToFront window_env
  | Bootstrap "string option" host_env bool
  | SendFrame "string option" "bool \<times> nat"
  | ReceiveFrame bool bool
  | ClosePipe
  | OtherMethod

record link_host =
  lh_pipe :: "link_pipe option"
  lh_opened :: nat \<comment> \<open>pipe handles opened and closed so far\<close>
  lh_closed :: nat

definition link_host_init :: link_host where
  "link_host_init = \<lparr>lh_pipe = None, lh_opened = 0, lh_closed = 0\<rparr>"

definition close_pipe :: "link_host \<Rightarrow> link_host" where
  "close_pipe h = (if lh_pipe h = None then h else h\<lparr>lh_pipe := None, lh_closed := lh_closed h + 1\<rparr>)"

text \<open>A connection that is refused after the pipe has been opened closes it again.\<close>

definition host_connect :: "host_env \<Rightarrow> wstr \<Rightarrow> link_host \<Rightarrow> bool \<times> link_host" where
  "host_connect e name h =
     (case ConnectToService e name of
        Some p \<Rightarrow> (True, h\<lparr>lh_pipe := Some p, lh_opened := lh_opened h + 1\<rparr>)
      | None \<Rightarrow> (False, if he_wait e \<and> he_open e then h\<lparr>lh_opened := lh_opened h + 1, lh_closed := lh_closed h + 1\<rparr> else h))"

definition host_bootstrap :: "string option \<Rightarrow> host_env \<Rightarrow> bool \<Rightarrow> link_host \<Rightarrow> host_answer \<times> link_host" where
  "host_bootstrap arg e readOk h =
     (let refused = HostError ''link_worker_pipe_refused'' ''Link worker pipe unavailable''
      in if lh_pipe h \<noteq> None then (refused, h)
         else case Option.bind arg ValidPipeName of
           None \<Rightarrow> (refused, h)
         | Some name \<Rightarrow>
             (case host_connect e name h of
                (False, h) \<Rightarrow> (refused, h)
              | (True, h) \<Rightarrow>
                  (case ReadFrame readOk (the (lh_pipe h)) of
                     (None, p) \<Rightarrow> (HostError ''link_worker_bootstrap_failed'' ''Link worker bootstrap unavailable'', close_pipe h)
                   | (Some f, p) \<Rightarrow> (HostSuccess (HvText f), h\<lparr>lh_pipe := Some p\<rparr>))))"

definition host_send :: "string option \<Rightarrow> bool \<times> nat \<Rightarrow> link_host \<Rightarrow> host_answer \<times> string list" where
  "host_send arg written h =
     (case arg of
        None \<Rightarrow> (HostError ''invalid_link_worker_frame'' ''Invalid Link worker frame'', [])
      | Some f \<Rightarrow>
          if f = [] \<or> length f > kFrameLimit then (HostError ''invalid_link_worker_frame'' ''Invalid Link worker frame'', [])
          else (HostSuccess (HvBool (fst written \<and> snd written = length f)), [f]))"

text \<open>\<open>peekOk\<close>, \<open>readOk\<close>: the pipe can be looked into, and read.\<close>

definition host_receive :: "bool \<Rightarrow> bool \<Rightarrow> link_pipe \<Rightarrow> host_answer \<times> link_pipe" where
  "host_receive peekOk readOk p =
     (let message_size = (case lp_inbox p of [] \<Rightarrow> 0 | f # _ \<Rightarrow> length f)
      in if \<not> peekOk then (HostError ''link_worker_pipe_failed'' ''Link worker pipe closed'', p)
         else if message_size = 0 then (HostSuccess HvNone, p)
         else if message_size > kFrameLimit
         then (HostError ''link_worker_frame_too_large'' ''Link worker frame exceeds limit'', p)
         else (case ReadFrame readOk p of
                 (None, p) \<Rightarrow> (HostError ''link_worker_pipe_failed'' ''Could not read Link worker frame'', p)
               | (Some f, p) \<Rightarrow> (HostSuccess (HvText f), p)))"

text \<open>A call: the answer, what is written to the pipe, and the new state.\<close>

definition link_host_call :: "host_call \<Rightarrow> link_host \<Rightarrow> host_answer \<times> string list \<times> link_host" where
  "link_host_call c h =
     (case c of
        BringToFront w \<Rightarrow> (HostSuccess HvNone, [], h)
      | Bootstrap arg e readOk \<Rightarrow> (case host_bootstrap arg e readOk h of (a, h) \<Rightarrow> (a, [], h))
      | _ \<Rightarrow>
          (case lh_pipe h of
             None \<Rightarrow> (HostError ''link_worker_not_ready'' ''Link worker bootstrap required'', [], h)
           | Some p \<Rightarrow>
               (case c of
                  SendFrame arg written \<Rightarrow> (case host_send arg written h of (a, out) \<Rightarrow> (a, out, h))
                | ReceiveFrame peekOk readOk \<Rightarrow>
                    (case host_receive peekOk readOk p of (a, p) \<Rightarrow> (a, [], h\<lparr>lh_pipe := Some p\<rparr>))
                | ClosePipe \<Rightarrow> (HostSuccess HvNone, [], close_pipe h)
                | _ \<Rightarrow> (HostNotImplemented, [], h))))"

definition destroy_link_host :: "link_host \<Rightarrow> link_host" where
  "destroy_link_host h = close_pipe h"

subsection \<open>The pipe in use is the service's\<close>

definition trusted_pipe :: "link_pipe \<Rightarrow> bool" where
  "trusted_pipe p \<longleftrightarrow> IsSystemProcessInSessionZero (lp_env p) \<and> he_serverPid (lp_env p) \<noteq> None
     \<and> he_clientPid (lp_env p) = Some (he_ownPid (lp_env p)) \<and> (\<exists>v. ValidPipeName v = Some (lp_name p))"

definition host_inv :: "link_host \<Rightarrow> bool" where
  "host_inv h \<longleftrightarrow> (case lh_pipe h of None \<Rightarrow> lh_opened h = lh_closed h
     | Some p \<Rightarrow> trusted_pipe p \<and> lh_opened h = Suc (lh_closed h))"

inductive host_reachable :: "link_host \<Rightarrow> bool" where
  host_start: "host_reachable link_host_init"
| host_call: "host_reachable h \<Longrightarrow> host_reachable (snd (snd (link_host_call c h)))"

lemma ConnectToService_trusted:
  "ConnectToService e n = Some p \<Longrightarrow> ValidPipeName v = Some n \<Longrightarrow> trusted_pipe p \<and> lp_inbox p = he_inbox e"
  by (auto simp: ConnectToService_def trusted_pipe_def split: if_splits)

lemma ReadFrame_pipe: "ReadFrame ok p = (r, p') \<Longrightarrow> lp_env p' = lp_env p \<and> lp_name p' = lp_name p"
  by (auto simp: ReadFrame_def split: if_splits list.splits)

lemma ReadFrame_trusted: "ReadFrame ok p = (r, p') \<Longrightarrow> trusted_pipe p' = trusted_pipe p"
  by (auto simp: trusted_pipe_def dest!: ReadFrame_pipe)

lemma host_receive_trusted: "host_receive pk rd p = (a, p') \<Longrightarrow> trusted_pipe p' = trusted_pipe p"
  by (auto simp: host_receive_def Let_def dest: ReadFrame_trusted split: if_splits prod.splits option.splits)

lemma close_pipe_inv: "host_inv h \<Longrightarrow> host_inv (close_pipe h)"
  by (auto simp: host_inv_def close_pipe_def split: option.splits)

lemma host_bootstrap_inv:
  assumes "host_inv h" "host_bootstrap arg e ok h = (a, h')"
  shows "host_inv h' \<and> (\<forall>f. a = HostSuccess (HvText f) \<longrightarrow>
    (\<exists>p. lh_pipe h' = Some p) \<and> f \<noteq> [] \<and> length f \<le> kFrameLimit)"
proof (cases "lh_pipe h = None \<and> Option.bind arg ValidPipeName \<noteq> None")
  case False
  then have "host_bootstrap arg e ok h = (HostError ''link_worker_pipe_refused'' ''Link worker pipe unavailable'', h)"
    by (auto simp: host_bootstrap_def Let_def)
  with assms have "h' = h" "a = HostError ''link_worker_pipe_refused'' ''Link worker pipe unavailable''" by simp_all
  with assms(1) show ?thesis by simp
next
  case True
  then obtain v n where n: "arg = Some v" "ValidPipeName v = Some n" by (cases arg) auto
  show ?thesis
  proof (cases "ConnectToService e n")
    case None
    with assms True n show ?thesis by (auto simp: host_bootstrap_def host_connect_def host_inv_def split: if_splits option.splits)
  next
    case (Some p)
    define h1 where "h1 = h\<lparr>lh_pipe := Some p, lh_opened := lh_opened h + 1\<rparr>"
    have i1: "host_inv h1" using assms(1) True ConnectToService_trusted [OF Some n(2)] by (simp add: host_inv_def h1_def)
    obtain r p' where r: "ReadFrame ok p = (r, p')" by fastforce
    have eq: "host_bootstrap arg e ok h = (case r of
        None \<Rightarrow> (HostError ''link_worker_bootstrap_failed'' ''Link worker bootstrap unavailable'', close_pipe h1)
      | Some f \<Rightarrow> (HostSuccess (HvText f), h1\<lparr>lh_pipe := Some p'\<rparr>))"
      using True n Some r by (simp add: host_bootstrap_def host_connect_def h1_def split: option.split)
    from r have "trusted_pipe p' = trusted_pipe p" by (rule ReadFrame_trusted)
    with i1 have "host_inv (h1\<lparr>lh_pipe := Some p'\<rparr>)" by (simp add: host_inv_def h1_def)
    moreover have "f \<noteq> [] \<and> length f \<le> kFrameLimit" if "r = Some f" for f
      using r that by (auto simp: ReadFrame_def split: if_splits list.splits)
    ultimately show ?thesis using eq assms(2) close_pipe_inv [OF i1] by (cases r) auto
  qed
qed

lemma link_host_call_inv: "host_inv h \<Longrightarrow> host_inv (snd (snd (link_host_call c h)))"
proof (cases c)
  case (Bootstrap arg e ok)
  assume "host_inv h"
  with Bootstrap host_bootstrap_inv [of h arg e ok] show ?thesis by (auto simp: link_host_call_def split: prod.split)
next
  case (ReceiveFrame pk rd)
  assume h: "host_inv h"
  show ?thesis
  proof (cases "lh_pipe h")
    case (Some p)
    obtain a p' where r: "host_receive pk rd p = (a, p')" by fastforce
    with Some ReceiveFrame h host_receive_trusted [OF r] show ?thesis by (simp add: link_host_call_def host_inv_def)
  qed (use ReceiveFrame h in \<open>simp add: link_host_call_def\<close>)
qed (auto simp: link_host_call_def close_pipe_inv split: option.split prod.split)

lemma host_reachable_inv: "host_reachable h \<Longrightarrow> host_inv h"
proof (induction rule: host_reachable.induct)
  case host_start
  show ?case by (simp add: host_inv_def link_host_init_def)
qed (rule link_host_call_inv)

lemma host_receive_text:
  "host_receive pk rd p = (a, p') \<Longrightarrow>
     (\<exists>f. a = HostSuccess (HvText f) \<and> lp_inbox p = f # lp_inbox p' \<and> f \<noteq> [] \<and> length f \<le> kFrameLimit)
     \<or> ((\<forall>f. a \<noteq> HostSuccess (HvText f)) \<and> p' = p)"
  by (auto simp: host_receive_def ReadFrame_def Let_def split: if_splits list.splits)

text \<open>C9. The worker talks to nobody but the Link service.  In every state the bridge can get into, at most
  one pipe is open, and every other handle it has opened is closed; the open pipe's server has been
  found to run as the system in session zero, the pipe's client end is this process's, and its name
  has the service's form.  Without such a pipe no call writes or returns a frame; the frames it writes
  and those it returns, the first one of the bootstrap included, are not empty and at most half a
  megabyte long.\<close>

theorem frames_only_with_service:
  assumes "host_reachable h" "link_host_call c h = (a, out, h')"
  shows "(lh_pipe h = None \<longrightarrow> lh_opened h = lh_closed h) \<and> (lh_pipe h \<noteq> None \<longrightarrow> lh_opened h = Suc (lh_closed h))
    \<and> (lh_pipe h \<noteq> None \<longrightarrow> trusted_pipe (the (lh_pipe h)))
    \<and> (out \<noteq> [] \<longrightarrow> lh_pipe h \<noteq> None \<and> (\<exists>f. out = [f] \<and> f \<noteq> [] \<and> length f \<le> kFrameLimit))
    \<and> (\<forall>f. a = HostSuccess (HvText f) \<longrightarrow> lh_pipe h' \<noteq> None \<and> trusted_pipe (the (lh_pipe h'))
         \<and> f \<noteq> [] \<and> length f \<le> kFrameLimit)"
proof -
  have i: "host_inv h" "host_inv h'"
    using host_reachable_inv [OF assms(1)] link_host_call_inv [of h c] assms(2) by simp_all
  have o: "out \<noteq> [] \<longrightarrow> lh_pipe h \<noteq> None \<and> (\<exists>f. out = [f] \<and> f \<noteq> [] \<and> length f \<le> kFrameLimit)"
    using assms(2) by (auto simp: link_host_call_def host_send_def split: host_call.splits option.splits prod.splits if_splits)
  have t: "lh_pipe h' \<noteq> None \<and> f \<noteq> [] \<and> length f \<le> kFrameLimit" if "a = HostSuccess (HvText f)" for f
  proof (cases c)
    case (Bootstrap arg e ok)
    with assms(2) host_bootstrap_inv [OF i(1), of arg e ok] that show ?thesis
      by (auto simp: link_host_call_def split: prod.splits)
  next
    case (ReceiveFrame pk rd)
    with assms(2) that host_receive_text show ?thesis by (fastforce simp: link_host_call_def split: option.splits prod.splits)
  qed (use assms(2) that in \<open>auto simp: link_host_call_def host_send_def split: option.splits prod.splits if_splits\<close>)
  show ?thesis using i o t by (auto simp: host_inv_def split: option.splits)
qed

text \<open>Frames arrive in order: the frames a run of receiving calls returns, followed by what still waits,
  is what had arrived.\<close>

fun receive_run :: "(bool \<times> bool) list \<Rightarrow> link_pipe \<Rightarrow> string list \<times> link_pipe" where
  "receive_run [] p = ([], p)"
| "receive_run ((pk, rd) # rs) p =
     (case host_receive pk rd p of (a, p1) \<Rightarrow>
        (case receive_run rs p1 of (fs, p2) \<Rightarrow> ((case a of HostSuccess (HvText f) \<Rightarrow> [f] | _ \<Rightarrow> []) @ fs, p2)))"

lemma receive_in_order: "receive_run rs p = (fs, p') \<Longrightarrow> lp_inbox p = fs @ lp_inbox p'"
proof (induction rs arbitrary: p fs)
  case (Cons r rs)
  obtain pk rd where r: "r = (pk, rd)" by (cases r)
  obtain a p1 where h: "host_receive pk rd p = (a, p1)" by fastforce
  obtain fs2 where "receive_run rs p1 = (fs2, p')" "fs = (case a of HostSuccess (HvText f) \<Rightarrow> [f] | _ \<Rightarrow> []) @ fs2"
    using Cons.prems r h by (auto split: prod.splits)
  with Cons.IH host_receive_text [OF h] show ?case
    by (auto split: host_answer.split host_value.split)
qed simp

text \<open>A message that is empty or too long is never taken off the pipe: it hides all that follow it.\<close>

lemma bad_frame_blocks:
  assumes "lp_inbox p = f # fs" "f = [] \<or> length f > kFrameLimit"
  shows "receive_run rs p = ([], p)"
proof (induction rs)
  case (Cons r rs)
  obtain pk rd where r: "r = (pk, rd)" by (cases r)
  have "\<exists>a. host_receive pk rd p = (a, p) \<and> (\<forall>f. a \<noteq> HostSuccess (HvText f))"
    using assms by (auto simp: host_receive_def Let_def)
  with Cons r show ?case by (auto split: host_answer.split host_value.split)
qed simp

definition good_host_env :: "string list \<Rightarrow> host_env" where
  "good_host_env fs = \<lparr>he_process = True, he_token = True, he_userSize = 44, he_user = True, he_systemSid = True,
     he_isSystem = True, he_session = Some 0, he_wait = True, he_open = True, he_serverPid = Some 8, he_clientPid = Some 9,
     he_ownPid = 9, he_mode = True, he_inbox = fs\<rparr>"

definition demo_pipe :: string where "demo_pipe = kPipePrefix @ replicate 32 CHR ''f''"

definition booted :: link_host where
  "booted = snd (snd (link_host_call (Bootstrap (Some demo_pipe) (good_host_env [''boot'', ''next'']) True) link_host_init))"

lemma demo_pipe_name: "ValidPipeName demo_pipe = Some (wide kPipePrefix @ wide (replicate 32 CHR ''f''))"
  by (simp add: ValidPipeName_def demo_pipe_def lower_hex_char_def)

lemma booted_pipe: "lh_pipe booted = Some \<lparr>lp_name = wide kPipePrefix @ wide (replicate 32 CHR ''f''),
    lp_env = good_host_env [''boot'', ''next''], lp_inbox = [''next'']\<rparr>"
  by (simp add: booted_def link_host_call_def host_bootstrap_def host_connect_def demo_pipe_name ConnectToService_def
      IsSystemProcessInSessionZero_def good_host_env_def link_host_init_def ReadFrame_def kFrameLimit_def)

lemma booted_call: "link_host_call (ReceiveFrame True True) booted = (HostSuccess (HvText ''next''), [],
    snd (snd (link_host_call (ReceiveFrame True True) booted)))"
  by (simp add: link_host_call_def booted_pipe host_receive_def ReadFrame_def kFrameLimit_def)

theorem frames_only_with_service_witness:
  "trusted_pipe (the (lh_pipe (snd (snd (link_host_call (ReceiveFrame True True) booted)))))
   \<and> length ''next'' \<le> kFrameLimit"
proof -
  have "host_reachable booted" unfolding booted_def by (intro host_call host_start)
  from frames_only_with_service [OF this booted_call] show ?thesis by blast
qed

end
