(* ===== verification/RemoteMouse.thy ===== *)
theory RemoteMouse
  imports Prelude
begin

text \<open>
  \<open>runner/remote_mouse_input.h\<close>: injecting mouse events, blocking the local mouse, and the scaling of a
  pixel to the 0..65535 range of absolute coordinates.

  The header is a template over its system calls; here they are a list of calls and their answers.
  The scaling is computed in \<open>double\<close>.  Its product is exact, and a quotient below 65536 is off by
  less than \<open>2 ^ - 36\<close>, less than the distance of any quotient of 32-bit numbers to a half that it does
  not hit; so \<open>std::round\<close> of it is the rounding of the exact quotient, which the model takes.
\<close>

datatype mouse_api = ApiClip | ApiBlock bool | ApiSend u32 u32 int int

definition MOUSEEVENTF_MOVE :: u32 where "MOUSEEVENTF_MOVE = 1"

text \<open>\<open>sent\<close>: what \<open>SendInput\<close> returns.\<close>

definition SendRemoteMouse :: "nat \<Rightarrow> u32 \<Rightarrow> u32 \<Rightarrow> int \<Rightarrow> int \<Rightarrow> bool \<times> mouse_api list" where
  "SendRemoteMouse sent flags dat dx dy =
     (sent = 1, (if flags AND MOUSEEVENTF_MOVE \<noteq> 0 then [ApiClip] else []) @ [ApiSend flags dat dx dy])"

text \<open>\<open>ok\<close>: what \<open>BlockInput\<close> returns.  Result, new value of the flag, calls.\<close>

definition SetRemoteMouseBlocked :: "bool \<Rightarrow> bool \<Rightarrow> bool \<Rightarrow> bool \<times> bool \<times> mouse_api list" where
  "SetRemoteMouseBlocked ok desired blocked =
     (if blocked = desired then (True, blocked, [ApiClip])
      else if \<not> ok then (False, blocked, [ApiClip, ApiBlock desired])
      else (True, desired, [ApiClip, ApiBlock desired]))"

text \<open>Rounding \<open>n / d\<close> to the nearest integer, halves away from zero.\<close>

definition round_div :: "int \<Rightarrow> int \<Rightarrow> int" where
  "round_div n d = (if n \<ge> 0 then (2 * n + d) div (2 * d) else - ((2 * (- n) + d) div (2 * d)))"

definition RemoteMouseAxis :: "int \<Rightarrow> int \<Rightarrow> int \<Rightarrow> int" where
  "RemoteMouseAxis pixel origin extent =
     (if extent \<le> 1 then 0 else max 0 (min 65535 (round_div ((pixel - origin) * 65535) (extent - 1))))"

definition RemoteMouseButton :: "int \<Rightarrow> bool \<Rightarrow> u32" where
  "RemoteMouseButton button down =
     (if down then [0x0002, 0x0020, 0x0008] else [0x0004, 0x0040, 0x0010]) ! nat (max 0 (min 2 button))"

subsection \<open>The scaling\<close>

lemma round_div_nonneg: "0 \<le> n \<Longrightarrow> 0 < d \<Longrightarrow> 0 \<le> round_div n d"
  by (simp add: round_div_def pos_imp_zdiv_nonneg_iff)

lemma round_div_neg: "n < 0 \<Longrightarrow> 0 < d \<Longrightarrow> round_div n d \<le> 0"
  by (simp add: round_div_def pos_imp_zdiv_nonneg_iff)

lemma round_div_mono:
  assumes "m \<le> n" "0 < d"
  shows "round_div m d \<le> round_div n d"
proof -
  consider "0 \<le> m" | "m < 0" "0 \<le> n" | "n < 0" using assms(1) by linarith
  then show ?thesis
  proof cases
    case 1
    with assms show ?thesis by (simp add: round_div_def zdiv_mono1)
  next
    case 2
    with round_div_neg [of m d] round_div_nonneg [of n d] assms(2) show ?thesis by linarith
  next
    case 3
    with assms have "(2 * (- n) + d) div (2 * d) \<le> (2 * (- m) + d) div (2 * d)" by (intro zdiv_mono1) auto
    with 3 assms show ?thesis by (simp add: round_div_def)
  qed
qed

lemma round_div_exact: "0 \<le> k \<Longrightarrow> 0 < d \<Longrightarrow> round_div (k * d) d = k"
proof -
  assume d: "0 < d" "0 \<le> k"
  have "(2 * (k * d) + d) div (2 * d) = (d + k * (2 * d)) div (2 * d)" by (simp add: algebra_simps)
  also have "\<dots> = k + d div (2 * d)" using d by simp
  also have "d div (2 * d) = 0" using d by (simp add: div_pos_pos_trivial)
  finally show ?thesis using d by (simp add: round_div_def)
qed

lemma round_div_close:
  assumes "0 \<le> n" "0 < d"
  shows "2 * \<bar>round_div n d * d - n\<bar> \<le> d"
proof -
  define q where "q = (2 * n + d) div (2 * d)"
  have "2 * d * q \<le> 2 * n + d" "2 * n + d < 2 * d * q + 2 * d"
    using assms(2) mult_div_mod_eq [of "2 * d" "2 * n + d"] pos_mod_sign [of "2 * d" "2 * n + d"]
      pos_mod_bound [of "2 * d" "2 * n + d"] unfolding q_def by linarith+
  then have "2 * (d * q - n) \<le> d" "2 * (n - d * q) \<le> d" by (simp_all add: algebra_simps)
  then have "2 * \<bar>d * q - n\<bar> \<le> d" by (cases "n \<le> d * q") (simp_all add: abs_of_nonneg abs_of_neg)
  moreover have "round_div n d = q" using assms(1) by (simp add: round_div_def q_def)
  ultimately show ?thesis by (simp add: mult.commute)
qed

text \<open>The absolute coordinate of a pixel: the first pixel of the screen is 0 and the last one 65535, a
  pixel further right never gets a smaller coordinate, pixels off the screen get the nearest end,
  and a pixel on the screen is off by at most half a unit from its exact proportion.\<close>

lemma axis_scales_screen:
  assumes "1 < extent"
  shows "RemoteMouseAxis origin origin extent = 0 \<and> RemoteMouseAxis (origin + extent - 1) origin extent = 65535
    \<and> (\<forall>p q. p \<le> q \<longrightarrow> RemoteMouseAxis p origin extent \<le> RemoteMouseAxis q origin extent)
    \<and> (\<forall>p. 0 \<le> RemoteMouseAxis p origin extent \<and> RemoteMouseAxis p origin extent \<le> 65535)
    \<and> (\<forall>p. origin \<le> p \<and> p < origin + extent \<longrightarrow>
          2 * \<bar>RemoteMouseAxis p origin extent * (extent - 1) - (p - origin) * 65535\<bar> \<le> extent - 1)"
proof -
  have last: "round_div ((extent - 1) * 65535) (extent - 1) = 65535"
    using round_div_exact [of 65535 "extent - 1"] assms by (simp add: mult.commute)
  have mono: "round_div ((p - origin) * 65535) (extent - 1) \<le> round_div ((q - origin) * 65535) (extent - 1)" if "p \<le> q" for p q
    using assms that by (intro round_div_mono) auto
  have mid: "RemoteMouseAxis p origin extent = round_div ((p - origin) * 65535) (extent - 1)"
    if "origin \<le> p" "p < origin + extent" for p
  proof -
    have "0 \<le> round_div ((p - origin) * 65535) (extent - 1)" using that assms by (intro round_div_nonneg) auto
    moreover have "round_div ((p - origin) * 65535) (extent - 1) \<le> 65535"
      using mono [of p "origin + extent - 1"] last that by (simp add: algebra_simps)
    ultimately show ?thesis using assms by (simp add: RemoteMouseAxis_def)
  qed
  have close: "2 * \<bar>RemoteMouseAxis p origin extent * (extent - 1) - (p - origin) * 65535\<bar> \<le> extent - 1"
    if "origin \<le> p" "p < origin + extent" for p
    unfolding mid [OF that] using that assms by (intro round_div_close) auto
  show ?thesis
  proof (intro conjI allI impI)
    show "RemoteMouseAxis origin origin extent = 0" using mid [of origin] assms by (simp add: round_div_def)
    show "RemoteMouseAxis (origin + extent - 1) origin extent = 65535"
      using mid [of "origin + extent - 1"] last assms by (simp add: algebra_simps)
  next
    fix p q :: int
    assume "p \<le> q"
    from mono [OF this] show "RemoteMouseAxis p origin extent \<le> RemoteMouseAxis q origin extent"
      using assms by (simp add: RemoteMouseAxis_def max.coboundedI2 min.coboundedI2)
  next
    fix p
    assume "origin \<le> p \<and> p < origin + extent"
    then show "2 * \<bar>RemoteMouseAxis p origin extent * (extent - 1) - (p - origin) * 65535\<bar> \<le> extent - 1" using close by blast
  qed (simp_all add: RemoteMouseAxis_def)
qed

lemma axis_scales_screen_example: "RemoteMouseAxis (-100) (-100) 1920 = 0 \<and> RemoteMouseAxis 1819 (-100) 1920 = 65535"
  using axis_scales_screen [of 1920 "-100"] by simp

subsection \<open>The block\<close>

lemma block_result: "SetRemoteMouseBlocked ok desired b = (r, b', acts) \<Longrightarrow> (r \<longleftrightarrow> b' = desired) \<and> (\<not> r \<longrightarrow> b' = b)"
  by (auto simp: SetRemoteMouseBlocked_def split: if_splits)

text \<open>The system is told only what the flag does not say yet.\<close>

lemma block_only_changes: "SetRemoteMouseBlocked ok desired b = (r, b', acts) \<Longrightarrow> ApiBlock x \<in> set acts \<Longrightarrow> x = desired \<and> x \<noteq> b"
  by (auto simp: SetRemoteMouseBlocked_def split: if_splits)

lemma button_distinct: "RemoteMouseButton a down = RemoteMouseButton b down' \<Longrightarrow> down = down' \<and> max 0 (min 2 a) = max 0 (min 2 b)"
proof -
  have three: "max 0 (min 2 x) = 0 \<or> max 0 (min 2 x) = 1 \<or> max 0 (min 2 x) = 2" for x :: int by (simp add: max_def min_def) linarith
  assume "RemoteMouseButton a down = RemoteMouseButton b down'"
  with three [of a] three [of b] show ?thesis
    by (cases down; cases down') (auto simp: RemoteMouseButton_def)
qed

end
