(* ===== verification/Diagnostics.thy ===== *)
theory Diagnostics
  imports DebugLog
begin

text \<open>
  The diagnostics channel of the window, \<open>runner/flutter_window.cpp\<close>: the calls by which the Dart side
  reads the state of the log, turns it on or off and writes to it.

  A value of the channel is an \<open>enc_value\<close>; a map is the list of its entries, in the order in which the
  code visits them.  Exceptions, which answer \<open>diagnostics_failed\<close>, are left out.
\<close>

datatype enc_value =
    EvNull | EvBool bool | EvInt32 int | EvInt64 int | EvText string
  | EvMap "(enc_value \<times> enc_value) list"

record diag_fields =
  df_event :: "string option"
  df_level :: "string option"
  df_errorType :: "string option"
  df_errorCode :: "string option"
  df_osError :: "int option"
  df_context :: "string option"

definition no_fields :: diag_fields where
  "no_fields = \<lparr>df_event = None, df_level = None, df_errorType = None, df_errorCode = None, df_osError = None, df_context = None\<rparr>"

text \<open>One entry of the map; \<open>None\<close>: the call is refused.\<close>

definition text_field :: "string \<Rightarrow> string \<Rightarrow> diag_fields \<Rightarrow> diag_fields option" where
  "text_field name t d =
     (if name = ''event'' \<and> ValidEvent t then Some (d\<lparr>df_event := Some t\<rparr>)
      else if name = ''level'' \<and> ValidLevel t then Some (d\<lparr>df_level := Some t\<rparr>)
      else if name = ''error_type'' \<and> ValidErrorType t then Some (d\<lparr>df_errorType := Some t\<rparr>)
      else if name = ''error_code'' \<and> ValidErrorCode t then Some (d\<lparr>df_errorCode := Some t\<rparr>)
      else if name = ''context'' \<and> ValidContext t then Some (d\<lparr>df_context := Some t\<rparr>)
      else None)"

definition take_field :: "enc_value \<times> enc_value \<Rightarrow> diag_fields \<Rightarrow> diag_fields option" where
  "take_field f d =
     (case fst f of
        EvText name \<Rightarrow>
          if name = ''os_error''
          then (case snd f of EvInt32 n \<Rightarrow> Some (d\<lparr>df_osError := Some n\<rparr>) | EvInt64 n \<Rightarrow> Some (d\<lparr>df_osError := Some n\<rparr>) | _ \<Rightarrow> None)
          else (case snd f of EvText t \<Rightarrow> text_field name t d | _ \<Rightarrow> None)
      | _ \<Rightarrow> None)"

fun take_fields :: "(enc_value \<times> enc_value) list \<Rightarrow> diag_fields \<Rightarrow> diag_fields option" where
  "take_fields [] d = Some d"
| "take_fields (f # fs) d = (case take_field f d of None \<Rightarrow> None | Some d1 \<Rightarrow> take_fields fs d1)"

definition opt_text :: "string option \<Rightarrow> string" where
  "opt_text t = (case t of Some s \<Rightarrow> s | None \<Rightarrow> [])"

definition diagnostic_fields :: "enc_value option \<Rightarrow> diag_fields option" where
  "diagnostic_fields args =
     (case args of
        Some (EvMap fs) \<Rightarrow> if fs = [] \<or> length fs > 6 then None
          else (case take_fields fs no_fields of
                  Some d \<Rightarrow> if df_event d \<noteq> None then Some d else None
                | None \<Rightarrow> None)
      | _ \<Rightarrow> None)"

definition WriteDiagnostic ::
    "append_env \<Rightarrow> log_registry \<Rightarrow> enc_value option \<Rightarrow> debug_log \<Rightarrow> bool \<times> log_status \<times> debug_log" where
  "WriteDiagnostic ae rv args l =
     (case diagnostic_fields args of
        None \<Rightarrow> (False, LogInvalidParameter, l)
      | Some d \<Rightarrow>
          (case Write ae rv (opt_text (df_event d)) (opt_text (df_errorType d)) (opt_text (df_errorCode d)) (df_osError d)
                  (opt_text (df_context d)) (opt_text (df_level d)) l of
             (st, l') \<Rightarrow> (st = LogOk, st, l')))"

datatype diag_answer = DiagState bool string | DiagBool bool | DiagError string string "log_status option" | DiagNotImplemented

definition DiagnosticsState :: "(wstr \<Rightarrow> string option) \<Rightarrow> log_registry \<Rightarrow> debug_log \<Rightarrow> diag_answer" where
  "DiagnosticsState convert rv l = (case GetState convert rv l of (enabled, path) \<Rightarrow> DiagState enabled path)"

record diag_env =
  de_convert :: "wstr \<Rightarrow> string option"
  de_append :: append_env
  de_keyOk :: bool
  de_setOk :: bool

definition HandleDiagnostics ::
    "diag_env \<Rightarrow> string \<Rightarrow> enc_value option \<Rightarrow> log_registry \<Rightarrow> debug_log \<Rightarrow> diag_answer \<times> log_registry \<times> debug_log" where
  "HandleDiagnostics e meth args rv l =
     (if meth = ''getState'' then (DiagnosticsState (de_convert e) rv l, rv, l)
      else if meth = ''setEnabled''
      then (if IsWorker l then (DiagError ''read_only'' ''Worker diagnostics are read-only.'' None, rv, l)
            else case args of
              Some (EvBool enabled) \<Rightarrow>
                (case SetEnabled (de_append e) (de_keyOk e) (de_setOk e) enabled rv l of
                   (st, rv', l') \<Rightarrow>
                     if st \<noteq> LogOk
                     then (DiagError ''registry_write_failed'' ''Cannot save diagnostics setting.'' (Some st), rv', l')
                     else (DiagnosticsState (de_convert e) rv' l', rv', l'))
            | _ \<Rightarrow> (DiagError ''invalid_arguments'' ''Expected a boolean.'' None, rv, l))
      else if meth = ''write''
      then (case WriteDiagnostic (de_append e) rv args l of
              (written, code, l') \<Rightarrow>
                if \<not> written \<and> code \<noteq> LogNotReady
                then (DiagError ''diagnostic_write_failed'' ''Cannot write diagnostics.'' (Some code), rv, l')
                else (DiagBool written, rv, l'))
      else (DiagNotImplemented, rv, l))"

subsection \<open>Facts\<close>

definition fields_valid :: "diag_fields \<Rightarrow> bool" where
  "fields_valid d \<longleftrightarrow> (\<forall>t. df_event d = Some t \<longrightarrow> ValidEvent t) \<and> (\<forall>t. df_level d = Some t \<longrightarrow> ValidLevel t)
     \<and> (\<forall>t. df_errorType d = Some t \<longrightarrow> ValidErrorType t) \<and> (\<forall>t. df_errorCode d = Some t \<longrightarrow> ValidErrorCode t)
     \<and> (\<forall>t. df_context d = Some t \<longrightarrow> ValidContext t)"

lemma text_field_valid: "text_field name t d = Some d' \<Longrightarrow> fields_valid d \<Longrightarrow> fields_valid d'"
  by (auto simp: text_field_def fields_valid_def split: if_splits)

lemma take_field_valid: "take_field f d = Some d' \<Longrightarrow> fields_valid d \<Longrightarrow> fields_valid d'"
proof -
  assume f: "take_field f d = Some d'" "fields_valid d"
  have upd: "fields_valid (d\<lparr>df_osError := x\<rparr>)" for x using f(2) by (simp add: fields_valid_def)
  show ?thesis using f upd text_field_valid by (auto simp: take_field_def split: enc_value.splits if_splits)
qed

lemma take_fields_valid: "take_fields fs d = Some d' \<Longrightarrow> fields_valid d \<Longrightarrow> fields_valid d'"
proof (induction fs arbitrary: d)
  case (Cons f fs)
  then obtain d1 where d1: "take_field f d = Some d1" "take_fields fs d1 = Some d'" by (auto split: option.splits)
  from Cons.IH [OF d1(2) take_field_valid [OF d1(1) Cons.prems(2)]] show ?case .
qed simp

lemma diagnostic_fields_valid:
  assumes "diagnostic_fields args = Some d"
  shows "write_args_valid (opt_text (df_event d)) (opt_text (df_errorType d)) (opt_text (df_errorCode d))
    (opt_text (df_context d)) (opt_text (df_level d))"
proof -
  from assms obtain fs where "take_fields fs no_fields = Some d" and e: "df_event d \<noteq> None"
    by (auto simp: diagnostic_fields_def split: option.splits enc_value.splits if_splits)
  moreover have "fields_valid no_fields" by (simp add: no_fields_def fields_valid_def)
  ultimately have "fields_valid d" by (blast intro: take_fields_valid)
  moreover have "ValidContext []" by (simp add: ValidContext_def context_loop.simps)
  ultimately show ?thesis using e
    by (auto simp: fields_valid_def write_args_valid_def opt_text_def split: option.split)
qed

text \<open>The channel lets nothing unchecked into the log and hides no failure.  A call to write changes the log
  only if its argument is a map of at most six known, valid fields with an event among them, and
  then it is the log's own write of these fields, which accepts them; it answers true exactly if
  the line was written, false exactly if logging is off, and an error with the reason otherwise.\<close>

lemma diagnostics_write_checked:
  assumes "HandleDiagnostics e ''write'' args rv l = (a, rv', l')"
  shows "rv' = rv \<and> (case diagnostic_fields args of
      None \<Rightarrow> l' = l \<and> a = DiagError ''diagnostic_write_failed'' ''Cannot write diagnostics.'' (Some LogInvalidParameter)
    | Some d \<Rightarrow> (\<exists>st. Write (de_append e) rv (opt_text (df_event d)) (opt_text (df_errorType d)) (opt_text (df_errorCode d))
          (df_osError d) (opt_text (df_context d)) (opt_text (df_level d)) l = (st, l')
        \<and> (a = DiagBool True \<longleftrightarrow> st = LogOk) \<and> (a = DiagBool False \<longleftrightarrow> st = LogNotReady)
        \<and> (\<not> ReadEnabled rv l \<longrightarrow> a = DiagBool False \<and> l' = l)))"
proof (cases "diagnostic_fields args")
  case None
  with assms show ?thesis by (simp add: HandleDiagnostics_def WriteDiagnostic_def)
next
  case (Some d)
  note v = diagnostic_fields_valid [OF Some]
  obtain st l1 where w: "Write (de_append e) rv (opt_text (df_event d)) (opt_text (df_errorType d)) (opt_text (df_errorCode d))
      (df_osError d) (opt_text (df_context d)) (opt_text (df_level d)) l = (st, l1)" by fastforce
  have off: "\<not> ReadEnabled rv l \<Longrightarrow> st = LogNotReady \<and> l1 = l" using w v by (simp add: Write_def)
  from assms Some w off show ?thesis by (auto simp: HandleDiagnostics_def WriteDiagnostic_def split: if_splits)
qed

definition sample_diag :: diag_env where
  "sample_diag = \<lparr>de_convert = (\<lambda>_. None), de_append = sample_append, de_keyOk = True, de_setOk = True\<rparr>"

lemma sample_diag_fields:
  "diagnostic_fields (Some (EvMap [(EvText ''event'', EvText ''app.start'')])) = Some (no_fields\<lparr>df_event := Some ''app.start''\<rparr>)"
  by code_simp

lemma diagnostics_write_checked_example:
  "fst (HandleDiagnostics sample_diag ''write'' (Some (EvMap [(EvText ''event'', EvText ''app.start'')])) logging_on sample_log)
     = DiagBool True"
proof -
  let ?r = "HandleDiagnostics sample_diag ''write'' (Some (EvMap [(EvText ''event'', EvText ''app.start'')])) logging_on sample_log"
  have "?r = (fst ?r, fst (snd ?r), snd (snd ?r))" by simp
  from diagnostics_write_checked [OF this] show ?thesis
    by (auto simp: sample_diag_fields no_fields_def opt_text_def sample_diag_def sample_write)
qed

text \<open>A worker's channel cannot turn the log on or off.\<close>

lemma worker_channel_read_only:
  "dl_mode l \<noteq> ModeGui \<Longrightarrow> HandleDiagnostics e ''setEnabled'' args rv l
     = (DiagError ''read_only'' ''Worker diagnostics are read-only.'' None, rv, l)"
  by (simp add: HandleDiagnostics_def IsWorker_def Worker_def)

end
