(* ===== verification/Startup.thy ===== *)
theory Startup
  imports Std_Strings
begin

text \<open>
  The start of the runner, \<open>runner/main.cpp\<close>: the modes its arguments choose, the single-instance check
  with the clean-up of a stale instance, and the life of the mutex and of COM.

  The system is the list of processes, the list of top-level windows in the order in which they are
  found, and the processes that hold the session's mutex.  Log lines, the window itself and the
  activation of the other window (a sequence of window calls) are left out.
\<close>

definition kWindowClass :: wstr where "kWindowClass = wide ''FLUTTER_RUNNER_WIN32_WINDOW''"
definition kRunnerExe :: wstr where "kRunnerExe = wide ''ligament_authenticator.exe''"

record app_process =
  ap_pid :: u32
  ap_exe :: wstr
  ap_opens :: bool \<comment> \<open>the starting process may terminate it\<close>

record app_window =
  aw_pid :: u32
  aw_class :: wstr
  aw_title :: wstr
  aw_responds :: bool

record app_system =
  sy_processes :: "app_process list"
  sy_windows :: "app_window list"
  sy_mutex :: "u32 set"

subsection \<open>Arguments\<close>

record start_mode =
  sm_linkHost :: bool
  sm_minimized :: bool
  sm_autoshare :: bool

definition mode_of_argument :: "string \<Rightarrow> start_mode \<Rightarrow> start_mode" where
  "mode_of_argument a m =
     (let m = (if prefix ''--link-host='' a then m\<lparr>sm_linkHost := True\<rparr> else m);
          m = (if a = ''--minimized'' then m\<lparr>sm_minimized := True\<rparr> else m)
      in if prefix ''--autoshare='' a then m\<lparr>sm_minimized := True, sm_autoshare := True\<rparr> else m)"

definition start_mode :: "string list \<Rightarrow> start_mode" where
  "start_mode args = fold mode_of_argument args \<lparr>sm_linkHost = False, sm_minimized = False, sm_autoshare = False\<rparr>"

subsection \<open>The other instance\<close>

definition find_window :: "wstr \<Rightarrow> app_window list \<Rightarrow> app_window option" where
  "find_window title ws = find (\<lambda>w. wcsieq (aw_class w) kWindowClass \<and> wcsieq (aw_title w) title) ws"

definition FindExistingAppWindow :: "app_window list \<Rightarrow> app_window option" where
  "FindExistingAppWindow ws =
     (case find_window (wide ''Ligament 2FA Authenticator'') ws of
        Some w \<Rightarrow> Some w
      | None \<Rightarrow>
          (case find_window (wide ''Ligament 2FA'') ws of
             Some w \<Rightarrow> Some w
           | None \<Rightarrow> find (\<lambda>w. aw_class w = kWindowClass \<and> occurs (wide ''Ligament'') (take 255 (aw_title w))) ws))"

text \<open>The processes that end; what they owned goes with them.\<close>

definition orphaned :: "u32 \<Rightarrow> app_process \<Rightarrow> bool" where
  "orphaned me p \<longleftrightarrow> wcsieq (ap_exe p) kRunnerExe \<and> ap_pid p \<noteq> me \<and> ap_opens p"

definition TerminateOrphanedInstances :: "bool \<Rightarrow> u32 \<Rightarrow> app_system \<Rightarrow> app_system" where
  "TerminateOrphanedInstances snapshot me s =
     (if \<not> snapshot then s
      else
        let gone = ap_pid ` set (filter (orphaned me) (sy_processes s))
        in s\<lparr>sy_processes := filter (\<lambda>p. ap_pid p \<notin> gone) (sy_processes s),
             sy_windows := filter (\<lambda>w. aw_pid w \<notin> gone) (sy_windows s),
             sy_mutex := sy_mutex s - gone\<rparr>)"

subsection \<open>The start\<close>

datatype start_outcome = OtherInstance bool | Started bool

text \<open>\<open>create1\<close>, \<open>create2\<close>: a mutex object can be created or opened.  \<open>OtherInstance shown\<close>: this process
  leaves, having activated the other's window or not; \<open>Started held\<close>: it goes on, with the mutex or
  without.\<close>

definition single_instance ::
    "bool \<Rightarrow> bool \<Rightarrow> bool \<Rightarrow> u32 \<Rightarrow> start_mode \<Rightarrow> app_system \<Rightarrow> start_outcome \<times> app_system" where
  "single_instance create1 create2 snapshot me m s =
     (if sm_linkHost m \<or> sm_autoshare m then (Started False, s)
      else if \<not> create1 then (Started False, s)
      else if sy_mutex s = {} then (Started True, s\<lparr>sy_mutex := {me}\<rparr>)
      else case FindExistingAppWindow (sy_windows s) of
        Some w \<Rightarrow>
          if aw_responds w then (OtherInstance (\<not> sm_minimized m), s)
          else
            let s = TerminateOrphanedInstances snapshot me s
            in if create2 then (Started True, s\<lparr>sy_mutex := insert me (sy_mutex s)\<rparr>) else (Started False, s)
      | None \<Rightarrow>
          let s = TerminateOrphanedInstances snapshot me s
          in if create2 then (Started True, s\<lparr>sy_mutex := insert me (sy_mutex s)\<rparr>) else (Started False, s))"

text \<open>The end: the result code of the process, and the balance of COM initialisations.  \<open>com\<close>: COM was
  initialised; \<open>created\<close>: the window was; \<open>loop\<close>: the message loop ended well.\<close>

definition wWinMain :: "bool \<Rightarrow> bool \<Rightarrow> bool \<Rightarrow> u32 \<Rightarrow> start_outcome \<times> app_system \<Rightarrow> nat \<times> int \<times> app_system" where
  "wWinMain com created loop me r =
     (let init = (if com then 1 else 0);
          uninit = (if com then 1 else 0);
          close = (\<lambda>s. s\<lparr>sy_mutex := sy_mutex s - {me}\<rparr>)
      in case r of
           (OtherInstance _, s) \<Rightarrow> (0, init - uninit, s)
         | (Started held, s) \<Rightarrow>
             (if \<not> created \<or> \<not> loop then 1 else 0, init - uninit, if held then close s else s))"

subsection \<open>Facts\<close>

lemma mode_of_argument_cases:
  "mode_of_argument a m = \<lparr>sm_linkHost = sm_linkHost m \<or> prefix ''--link-host='' a,
     sm_minimized = sm_minimized m \<or> a = ''--minimized'' \<or> prefix ''--autoshare='' a,
     sm_autoshare = sm_autoshare m \<or> prefix ''--autoshare='' a\<rparr>"
  by (cases m) (simp add: mode_of_argument_def Let_def)

lemma fold_mode:
  "fold mode_of_argument args m =
     \<lparr>sm_linkHost = sm_linkHost m \<or> list_ex (prefix ''--link-host='') args,
      sm_minimized = sm_minimized m \<or> list_ex (\<lambda>a. a = ''--minimized'' \<or> prefix ''--autoshare='' a) args,
      sm_autoshare = sm_autoshare m \<or> list_ex (prefix ''--autoshare='') args\<rparr>"
proof (induction args arbitrary: m)
  case (Cons a args)
  have "fold mode_of_argument (a # args) m = fold mode_of_argument args (mode_of_argument a m)" by simp
  then show ?case unfolding Cons by (simp add: mode_of_argument_cases [of a m] disj_ac)
qed (cases m, simp)

lemma start_mode_args:
  "start_mode args = \<lparr>sm_linkHost = list_ex (prefix ''--link-host='') args,
     sm_minimized = list_ex (\<lambda>a. a = ''--minimized'' \<or> prefix ''--autoshare='' a) args,
     sm_autoshare = list_ex (prefix ''--autoshare='') args\<rparr>"
  by (simp add: start_mode_def fold_mode)

lemma TerminateOrphaned_subset:
  "set (sy_windows (TerminateOrphanedInstances sn me s)) \<subseteq> set (sy_windows s)
   \<and> sy_mutex (TerminateOrphanedInstances sn me s) \<subseteq> sy_mutex s"
  by (auto simp: TerminateOrphanedInstances_def Let_def)

text \<open>The single-instance check.  A start that gives way leaves everything as it was, and there is
  then another instance, with the mutex and a window of the application that answers.  A start
  that goes on with the mutex, among processes that it may terminate, is the mutex's only holder,
  and workers and share forwarders neither take the mutex nor end anyone.\<close>

lemma single_instance_decides:
  assumes "single_instance create1 create2 snapshot me m s = (r, s')"
  shows "(r = OtherInstance shown \<longrightarrow> s' = s \<and> sy_mutex s \<noteq> {} \<and> shown = (\<not> sm_minimized m)
      \<and> (\<exists>w. FindExistingAppWindow (sy_windows s) = Some w \<and> aw_responds w))
    \<and> (r = Started True \<and> snapshot \<and> sy_mutex s \<subseteq> ap_pid ` set (filter (orphaned me) (sy_processes s)) \<longrightarrow> sy_mutex s' = {me})
    \<and> (sm_linkHost m \<or> sm_autoshare m \<longrightarrow> r = Started False \<and> s' = s)"
  using assms
  by (auto simp: single_instance_def TerminateOrphanedInstances_def Let_def split: if_splits option.splits)

definition two_apps :: app_system where
  "two_apps = \<lparr>sy_processes = [\<lparr>ap_pid = 1, ap_exe = kRunnerExe, ap_opens = True\<rparr>, \<lparr>ap_pid = 2, ap_exe = kRunnerExe, ap_opens = True\<rparr>],
     sy_windows = [], sy_mutex = {1}\<rparr>"

lemma two_apps_start:
  "single_instance True True True 3 (start_mode []) two_apps
     = (Started True, snd (single_instance True True True 3 (start_mode []) two_apps))"
  by (simp add: single_instance_def start_mode_def two_apps_def FindExistingAppWindow_def find_window_def Let_def)

lemma single_instance_decides_example:
  "sy_mutex (snd (single_instance True True True 3 (start_mode []) two_apps)) = {3}"
proof -
  have "sy_mutex two_apps \<subseteq> ap_pid ` set (filter (orphaned 3) (sy_processes two_apps))"
    by (simp add: two_apps_def orphaned_def)
  with single_instance_decides [OF two_apps_start] show ?thesis by blast
qed

text \<open>An instance that has taken the mutex but not made its window yet is taken for a stale one and
  ended, and so is every other process of the application: workers of the Link service, share
  forwarders, and instances in other sessions, if they may be opened.\<close>

lemma starting_instance_ended:
  assumes "\<not> sm_linkHost m" "\<not> sm_autoshare m" "sy_mutex s \<noteq> {}" "FindExistingAppWindow (sy_windows s) = None"
    "p \<in> set (sy_processes s)" "orphaned me p"
  shows "p \<notin> set (sy_processes (snd (single_instance True create2 True me m s)))"
  using assms by (auto simp: single_instance_def TerminateOrphanedInstances_def Let_def)

end
