(* ===== verification/ComEvents.thy ===== *)
theory ComEvents
  imports Prelude
begin

text \<open>
  The interfaces LogonUI hands in for callbacks: who holds a reference, what is registered in the
  global interface table, and the notifications that use them from the worker thread
  (\<open>LigamentCredential.cpp\<close>: \<open>Advise\<close>, \<open>UnAdvise\<close>, \<open>SetProviderEvents\<close>, the destructor, and the first
  and last part of \<open>NotifyFieldChanged\<close> and \<open>NotifyProviderChangedFromWorker\<close>;
  \<open>LigamentProvider.cpp\<close>: \<open>Advise\<close> and \<open>UnAdvise\<close>).

  An interface is a number, and \<open>ev_refs\<close> counts the references this library holds on it, its own
  use of a proxy included.  The steps of the threads are those between which the code does not hold
  the critical section.  \<open>git\<close>: the table exists; it is created once.
\<close>

subsection \<open>State\<close>

record slot =
  sl_ptr :: "nat option"
  sl_cookie :: nat

datatype which_slot = TileEvents | TileProviderEvents

datatype flight = Taken "nat option" nat | Using "nat option"

record ev_state =
  ev_tile :: slot
  ev_tileProvider :: slot
  ev_provider :: "nat option"
  ev_refs :: "nat \<Rightarrow> nat"
  ev_git :: "nat \<rightharpoonup> nat"
  ev_flight :: "flight list"

definition no_slot :: slot where "no_slot = \<lparr>sl_ptr = None, sl_cookie = 0\<rparr>"

definition ev_init :: ev_state where
  "ev_init = \<lparr>ev_tile = no_slot, ev_tileProvider = no_slot, ev_provider = None, ev_refs = (\<lambda>_. 0), ev_git = Map.empty,
     ev_flight = []\<rparr>"

definition AddRef :: "nat option \<Rightarrow> (nat \<Rightarrow> nat) \<Rightarrow> nat \<Rightarrow> nat" where
  "AddRef p r = (case p of None \<Rightarrow> r | Some i \<Rightarrow> r(i := r i + 1))"

definition ReleaseRef :: "nat option \<Rightarrow> (nat \<Rightarrow> nat) \<Rightarrow> nat \<Rightarrow> nat" where
  "ReleaseRef p r = (case p of None \<Rightarrow> r | Some i \<Rightarrow> r(i := r i - 1))"

subsection \<open>Advise\<close>

text \<open>The slot part of the three functions, over the slot, the counts and the table.  \<open>reg\<close>: the cookie the
  table gives, if it registers the interface.\<close>

type_synonym slot_world = "slot \<times> (nat \<Rightarrow> nat) \<times> (nat \<rightharpoonup> nat)"

definition revoke :: "bool \<Rightarrow> slot_world \<Rightarrow> slot_world" where
  "revoke git w = (case w of (sl, r, g) \<Rightarrow>
     if sl_cookie sl \<noteq> 0 \<and> git then (sl\<lparr>sl_cookie := 0\<rparr>, r, g(sl_cookie sl := None)) else w)"

definition advise_slot :: "bool \<Rightarrow> nat option \<Rightarrow> nat option \<Rightarrow> slot_world \<Rightarrow> slot_world" where
  "advise_slot git reg pcpe w =
     (case revoke git w of (sl, r, g) \<Rightarrow>
        let r1 = AddRef pcpe (ReleaseRef (sl_ptr sl) r);
            sl1 = sl\<lparr>sl_ptr := pcpe\<rparr>
        in case (pcpe, reg) of
             (Some p, Some k) \<Rightarrow> if git then (sl1\<lparr>sl_cookie := k\<rparr>, r1, g(k \<mapsto> p)) else (sl1, r1, g)
           | _ \<Rightarrow> (sl1, r1, g))"

definition unadvise_slot :: "bool \<Rightarrow> slot_world \<Rightarrow> slot_world" where
  "unadvise_slot git w =
     (case revoke git w of (sl, r, g) \<Rightarrow> (sl\<lparr>sl_ptr := None\<rparr>, ReleaseRef (sl_ptr sl) r, g))"

definition tile_world :: "ev_state \<Rightarrow> slot_world" where
  "tile_world s = (ev_tile s, ev_refs s, ev_git s)"

definition put_tile :: "slot_world \<Rightarrow> ev_state \<Rightarrow> ev_state" where
  "put_tile w s = s\<lparr>ev_tile := fst w, ev_refs := fst (snd w), ev_git := snd (snd w)\<rparr>"

definition tileProvider_world :: "ev_state \<Rightarrow> slot_world" where
  "tileProvider_world s = (ev_tileProvider s, ev_refs s, ev_git s)"

definition put_tileProvider :: "slot_world \<Rightarrow> ev_state \<Rightarrow> ev_state" where
  "put_tileProvider w s = s\<lparr>ev_tileProvider := fst w, ev_refs := fst (snd w), ev_git := snd (snd w)\<rparr>"

definition tile_Advise :: "bool \<Rightarrow> nat option \<Rightarrow> nat option \<Rightarrow> ev_state \<Rightarrow> ev_state" where
  "tile_Advise git reg pcpce s = put_tile (advise_slot git reg pcpce (tile_world s)) s"

definition tile_UnAdvise :: "bool \<Rightarrow> ev_state \<Rightarrow> ev_state" where
  "tile_UnAdvise git s = put_tile (unadvise_slot git (tile_world s)) s"

definition tile_SetProviderEvents :: "bool \<Rightarrow> nat option \<Rightarrow> nat option \<Rightarrow> ev_state \<Rightarrow> ev_state" where
  "tile_SetProviderEvents git reg pcpe s = put_tileProvider (advise_slot git reg pcpe (tileProvider_world s)) s"

text \<open>The provider's two functions; \<open>tile\<close>: it has a tile.\<close>

definition events_Advise :: "bool \<Rightarrow> bool \<Rightarrow> nat option \<Rightarrow> nat option \<Rightarrow> ev_state \<Rightarrow> ev_state" where
  "events_Advise git tile reg pcpe s =
     (let s1 = s\<lparr>ev_refs := AddRef pcpe (ReleaseRef (ev_provider s) (ev_refs s)), ev_provider := pcpe\<rparr>
      in if tile then tile_SetProviderEvents git reg pcpe s1 else s1)"

definition events_UnAdvise :: "bool \<Rightarrow> bool \<Rightarrow> ev_state \<Rightarrow> ev_state" where
  "events_UnAdvise git tile s =
     (let s1 = (if tile then tile_SetProviderEvents git None None s else s)
      in s1\<lparr>ev_refs := ReleaseRef (ev_provider s1) (ev_refs s1), ev_provider := None\<rparr>)"

text \<open>The tile's destructor, as far as it concerns the two slots.\<close>

definition destroy_events :: "bool \<Rightarrow> ev_state \<Rightarrow> ev_state" where
  "destroy_events git s =
     (let s1 = tile_UnAdvise git s in put_tileProvider (unadvise_slot git (tileProvider_world s1)) s1)"

subsection \<open>Notifications\<close>

text \<open>Under the critical section the cookie is copied and a reference taken; then the interface is fetched
  from the table, if it gives one, and the reference is given up or kept for the call; then the
  call is over.\<close>

definition notify_take :: "which_slot \<Rightarrow> ev_state \<Rightarrow> ev_state" where
  "notify_take w s =
     (let sl = (case w of TileEvents \<Rightarrow> ev_tile s | TileProviderEvents \<Rightarrow> ev_tileProvider s);
          cookie = (if w = TileProviderEvents \<and> sl_ptr sl = None then 0 else sl_cookie sl)
      in s\<lparr>ev_flight := Taken (sl_ptr sl) cookie # ev_flight s, ev_refs := AddRef (sl_ptr sl) (ev_refs s)\<rparr>)"

definition resolve :: "bool \<Rightarrow> bool \<Rightarrow> nat option \<Rightarrow> nat \<Rightarrow> ev_state \<Rightarrow> nat option" where
  "resolve git ok raw cookie s = (if git \<and> cookie \<noteq> 0 \<and> ok \<and> ev_git s cookie \<noteq> None then ev_git s cookie else raw)"

definition notify_fetch :: "bool \<Rightarrow> bool \<Rightarrow> nat \<Rightarrow> ev_state \<Rightarrow> ev_state" where
  "notify_fetch git ok n s =
     (if length (ev_flight s) \<le> n then s
      else case ev_flight s ! n of
        Taken raw cookie \<Rightarrow>
          (let p = resolve git ok raw cookie s
           in s\<lparr>ev_flight := take n (ev_flight s) @ Using p # drop (Suc n) (ev_flight s),
                ev_refs := ReleaseRef raw (AddRef p (ev_refs s))\<rparr>)
      | Using p \<Rightarrow> s)"

definition notify_done :: "nat \<Rightarrow> ev_state \<Rightarrow> ev_state" where
  "notify_done n s =
     (if length (ev_flight s) \<le> n then s
      else case ev_flight s ! n of
        Using p \<Rightarrow> s\<lparr>ev_flight := take n (ev_flight s) @ drop (Suc n) (ev_flight s), ev_refs := ReleaseRef p (ev_refs s)\<rparr>
      | Taken _ _ \<Rightarrow> s)"

subsection \<open>Counting\<close>

definition opt_list :: "'a option \<Rightarrow> 'a list" where
  "opt_list p = (case p of None \<Rightarrow> [] | Some x \<Rightarrow> [x])"

fun flight_ptr :: "flight \<Rightarrow> nat list" where
  "flight_ptr (Taken raw cookie) = opt_list raw"
| "flight_ptr (Using p) = opt_list p"

definition flights :: "ev_state \<Rightarrow> nat list" where
  "flights s = concat (map flight_ptr (ev_flight s))"

text \<open>Everything that holds a reference.\<close>

definition held :: "ev_state \<Rightarrow> nat list" where
  "held s = opt_list (sl_ptr (ev_tile s)) @ opt_list (sl_ptr (ev_tileProvider s)) @ opt_list (ev_provider s) @ flights s"

definition counted :: "ev_state \<Rightarrow> bool" where
  "counted s \<longleftrightarrow> (\<forall>i. ev_refs s i = count_list (held s) i)"

lemma AddRef_count: "AddRef p r i = r i + count_list (opt_list p) i"
  by (auto simp: AddRef_def opt_list_def split: option.split)

lemma ReleaseRef_count: "ReleaseRef p r i = r i - count_list (opt_list p) i"
  by (auto simp: ReleaseRef_def opt_list_def split: option.split)

lemmas count_simps = AddRef_count ReleaseRef_count

text \<open>The table holds the registrations of the two slots and nothing else.\<close>

definition registered :: "bool \<Rightarrow> slot \<Rightarrow> (nat \<rightharpoonup> nat) \<Rightarrow> bool" where
  "registered git sl g \<longleftrightarrow> (sl_cookie sl \<noteq> 0 \<longrightarrow> git \<and> sl_ptr sl \<noteq> None \<and> g (sl_cookie sl) = sl_ptr sl)"

definition slots_ok :: "bool \<Rightarrow> slot \<Rightarrow> slot \<Rightarrow> (nat \<rightharpoonup> nat) \<Rightarrow> bool" where
  "slots_ok git a b g \<longleftrightarrow> registered git a g \<and> registered git b g
     \<and> (sl_cookie a \<noteq> 0 \<longrightarrow> sl_cookie a \<noteq> sl_cookie b) \<and> dom g = {k. k \<noteq> 0 \<and> (k = sl_cookie a \<or> k = sl_cookie b)}"

lemma slots_ok_sym: "slots_ok git a b g \<Longrightarrow> slots_ok git b a g"
  by (auto simp: slots_ok_def)

text \<open>A cookie the table may give: not 0, and not in use.\<close>

definition fresh_cookie :: "nat option \<Rightarrow> (nat \<rightharpoonup> nat) \<Rightarrow> bool" where
  "fresh_cookie reg g \<longleftrightarrow> (\<forall>k. reg = Some k \<longrightarrow> k \<noteq> 0 \<and> g k = None)"

lemma revoke_ok:
  assumes "slots_ok git a b g" "revoke git (a, r, g) = (a', r', g')"
  shows "r' = r \<and> sl_ptr a' = sl_ptr a \<and> sl_cookie a' = 0 \<and> slots_ok git a' b g'"
proof (cases "sl_cookie a = 0")
  case True
  with assms show ?thesis by (auto simp: revoke_def)
next
  case False
  with assms have e: "git" "a' = a\<lparr>sl_cookie := 0\<rparr>" "g' = g(sl_cookie a := None)" "r' = r"
    by (auto simp: revoke_def slots_ok_def registered_def)
  with False assms(1) show ?thesis by (auto simp: slots_ok_def registered_def)
qed

lemma advise_slot_ok:
  assumes "slots_ok git a b g" "advise_slot git reg p (a, r, g) = (a', r', g')" "fresh_cookie reg (snd (snd (revoke git (a, r, g))))"
  shows "r' = AddRef p (ReleaseRef (sl_ptr a) r) \<and> sl_ptr a' = p \<and> slots_ok git a' b g'"
proof -
  obtain a1 r1 g1 where v: "revoke git (a, r, g) = (a1, r1, g1)" by (metis prod_cases3)
  note ok = revoke_ok [OF assms(1) v]
  from assms(2) v ok have "r' = AddRef p (ReleaseRef (sl_ptr a) r) \<and> sl_ptr a' = p"
    by (auto simp: advise_slot_def Let_def split: option.splits if_splits)
  moreover have "slots_ok git a' b g'"
  proof (cases "\<exists>q k. p = Some q \<and> reg = Some k \<and> git")
    case True
    then obtain q k where k: "p = Some q" "reg = Some k" "git" by blast
    with assms(2) v have e: "a' = a1\<lparr>sl_ptr := p, sl_cookie := k\<rparr>" "g' = g1(k \<mapsto> q)" by (auto simp: advise_slot_def Let_def)
    from assms(3) k v have "k \<noteq> 0" "k \<notin> dom g1" by (auto simp: fresh_cookie_def)
    with e ok k show ?thesis by (auto simp: slots_ok_def registered_def)
  next
    case False
    with assms(2) v have e: "a' = a1\<lparr>sl_ptr := p\<rparr>" "g' = g1" by (auto simp: advise_slot_def Let_def split: option.splits if_splits)
    with ok show ?thesis by (auto simp: slots_ok_def registered_def)
  qed
  ultimately show ?thesis by blast
qed

lemma unadvise_slot_ok:
  assumes "slots_ok git a b g" "unadvise_slot git (a, r, g) = (a', r', g')"
  shows "r' = ReleaseRef (sl_ptr a) r \<and> sl_ptr a' = None \<and> sl_cookie a' = 0 \<and> slots_ok git a' b g'"
proof -
  obtain a1 r1 g1 where v: "revoke git (a, r, g) = (a1, r1, g1)" by (metis prod_cases3)
  note ok = revoke_ok [OF assms(1) v]
  from assms(2) v have e: "a' = a1\<lparr>sl_ptr := None\<rparr>" "r' = ReleaseRef (sl_ptr a1) r1" "g' = g1" by (auto simp: unadvise_slot_def)
  with ok show ?thesis by (auto simp: slots_ok_def registered_def)
qed

subsection \<open>A slot in the state\<close>

text \<open>What the two slots of the tile have in common: \<open>rest\<close> is what else holds references, \<open>other\<close> the other
  slot.\<close>

locale event_slot =
  fixes world :: "ev_state \<Rightarrow> slot_world" and put :: "slot_world \<Rightarrow> ev_state \<Rightarrow> ev_state"
    and rest :: "ev_state \<Rightarrow> nat list" and other :: "ev_state \<Rightarrow> slot"
  assumes world_put: "world (put w s) = w"
    and world_refs: "fst (snd (world s)) = ev_refs s"
    and world_git: "snd (snd (world s)) = ev_git s"
    and held_split: "count_list (held s) i = count_list (opt_list (sl_ptr (fst (world s)))) i + count_list (rest s) i"
    and rest_put: "rest (put w s) = rest s"
    and other_put: "other (put w s) = other s"
begin

definition slot_inv :: "bool \<Rightarrow> ev_state \<Rightarrow> bool" where
  "slot_inv git s \<longleftrightarrow> counted s \<and> slots_ok git (fst (world s)) (other s) (ev_git s)"

lemma put_parts: "ev_refs (put w s) = fst (snd w)" "ev_git (put w s) = snd (snd w)" "fst (world (put w s)) = fst w"
  by (simp_all flip: world_refs world_git add: world_put)

lemma world_parts: "world s = (fst (world s), ev_refs s, ev_git s)"
  by (simp flip: world_refs world_git)

lemma replaced_counted:
  assumes "counted s" "fst (snd w) = AddRef p (ReleaseRef (sl_ptr (fst (world s))) (ev_refs s))" "sl_ptr (fst w) = p"
  shows "counted (put w s)"
  using assms by (simp add: counted_def held_split rest_put put_parts count_simps)

lemma advise_inv:
  assumes "slot_inv git s" "fresh_cookie reg (snd (snd (revoke git (world s))))"
  shows "slot_inv git (put (advise_slot git reg p (world s)) s)"
proof -
  obtain a r g where w: "advise_slot git reg p (world s) = (a, r, g)" by (metis prod_cases3)
  have "r = AddRef p (ReleaseRef (sl_ptr (fst (world s))) (ev_refs s)) \<and> sl_ptr a = p \<and> slots_ok git a (other s) g"
    by (rule advise_slot_ok [of git "fst (world s)" _ "ev_git s" reg p "ev_refs s"])
       (use assms w world_parts [of s] in \<open>simp_all add: slot_inv_def\<close>)
  with assms(1) replaced_counted [of s "(a, r, g)" p] show ?thesis
    unfolding w by (simp add: slot_inv_def put_parts other_put)
qed

lemma unadvise_inv:
  assumes "slot_inv git s"
  shows "slot_inv git (put (unadvise_slot git (world s)) s) \<and> sl_ptr (fst (world (put (unadvise_slot git (world s)) s))) = None
    \<and> sl_cookie (fst (world (put (unadvise_slot git (world s)) s))) = 0"
proof -
  obtain a r g where w: "unadvise_slot git (world s) = (a, r, g)" by (metis prod_cases3)
  have "r = ReleaseRef (sl_ptr (fst (world s))) (ev_refs s) \<and> sl_ptr a = None \<and> sl_cookie a = 0 \<and> slots_ok git a (other s) g"
    by (rule unadvise_slot_ok [of git "fst (world s)" _ "ev_git s" "ev_refs s"])
       (use assms w world_parts [of s] in \<open>simp_all add: slot_inv_def\<close>)
  with assms replaced_counted [of s "(a, r, g)" None] show ?thesis
    unfolding w by (simp add: slot_inv_def put_parts other_put AddRef_def)
qed

end

definition tile_rest :: "ev_state \<Rightarrow> nat list" where
  "tile_rest s = opt_list (sl_ptr (ev_tileProvider s)) @ opt_list (ev_provider s) @ flights s"

definition tileProvider_rest :: "ev_state \<Rightarrow> nat list" where
  "tileProvider_rest s = opt_list (sl_ptr (ev_tile s)) @ opt_list (ev_provider s) @ flights s"

interpretation tile: event_slot tile_world put_tile tile_rest ev_tileProvider
  by unfold_locales (auto simp: tile_world_def put_tile_def tile_rest_def held_def flights_def)

interpretation tileProvider: event_slot tileProvider_world put_tileProvider tileProvider_rest ev_tile
  by unfold_locales (auto simp: tileProvider_world_def put_tileProvider_def tileProvider_rest_def held_def flights_def)

subsection \<open>Every interleaving\<close>

definition ev_inv :: "bool \<Rightarrow> ev_state \<Rightarrow> bool" where
  "ev_inv git s \<longleftrightarrow> counted s \<and> slots_ok git (ev_tile s) (ev_tileProvider s) (ev_git s)"

lemma ev_inv_tile: "ev_inv git s \<longleftrightarrow> tile.slot_inv git s"
  by (simp add: ev_inv_def tile.slot_inv_def tile_world_def)

lemma ev_inv_tileProvider: "ev_inv git s \<longleftrightarrow> tileProvider.slot_inv git s"
  using slots_ok_sym by (auto simp: ev_inv_def tileProvider.slot_inv_def tileProvider_world_def)

inductive ev_reachable :: "bool \<Rightarrow> ev_state \<Rightarrow> bool" for git where
  ev_start: "ev_reachable git ev_init"
| ev_advise: "ev_reachable git s \<Longrightarrow> fresh_cookie reg (snd (snd (revoke git (tile_world s)))) \<Longrightarrow> ev_reachable git (tile_Advise git reg p s)"
| ev_unadvise: "ev_reachable git s \<Longrightarrow> ev_reachable git (tile_UnAdvise git s)"
| ev_provider_advise: "ev_reachable git s \<Longrightarrow> fresh_cookie reg (snd (snd (revoke git (tileProvider_world s))))
    \<Longrightarrow> ev_reachable git (events_Advise git t reg p s)"
| ev_provider_unadvise: "ev_reachable git s \<Longrightarrow> ev_reachable git (events_UnAdvise git t s)"
| ev_set_provider: "ev_reachable git s \<Longrightarrow> fresh_cookie reg (snd (snd (revoke git (tileProvider_world s))))
    \<Longrightarrow> ev_reachable git (tile_SetProviderEvents git reg p s)"
| ev_take: "ev_reachable git s \<Longrightarrow> ev_reachable git (notify_take w s)"
| ev_fetch: "ev_reachable git s \<Longrightarrow> ev_reachable git (notify_fetch git ok n s)"
| ev_done: "ev_reachable git s \<Longrightarrow> ev_reachable git (notify_done n s)"

lemma ev_inv_set_provider:
  "ev_inv git s \<Longrightarrow> fresh_cookie reg (snd (snd (revoke git (tileProvider_world s)))) \<Longrightarrow> ev_inv git (tile_SetProviderEvents git reg p s)"
  unfolding ev_inv_tileProvider tile_SetProviderEvents_def by (rule tileProvider.advise_inv)

text \<open>The provider's own pointer.\<close>

definition set_provider_ptr :: "nat option \<Rightarrow> ev_state \<Rightarrow> ev_state" where
  "set_provider_ptr p s = s\<lparr>ev_refs := AddRef p (ReleaseRef (ev_provider s) (ev_refs s)), ev_provider := p\<rparr>"

lemma ev_inv_provider_ptr: "ev_inv git s \<Longrightarrow> ev_inv git (set_provider_ptr p s)"
  by (auto simp: ev_inv_def counted_def held_def flights_def set_provider_ptr_def count_simps)

lemma events_Advise_ptr:
  "events_Advise git t reg p s = (if t then tile_SetProviderEvents git reg p (set_provider_ptr p s) else set_provider_ptr p s)"
  by (simp add: events_Advise_def set_provider_ptr_def Let_def)

lemma events_UnAdvise_ptr:
  "events_UnAdvise git t s = set_provider_ptr None (if t then tile_SetProviderEvents git None None s else s)"
  by (simp add: events_UnAdvise_def set_provider_ptr_def Let_def AddRef_def)

lemma fresh_None [simp]: "fresh_cookie None g"
  by (simp add: fresh_cookie_def)

lemma tileProvider_world_ptr: "snd (snd (revoke git (tileProvider_world (set_provider_ptr p s)))) = snd (snd (revoke git (tileProvider_world s)))"
  by (simp add: tileProvider_world_def set_provider_ptr_def revoke_def)

lemma flights_split:
  assumes "n < length fs"
  shows "count_list (concat (map flight_ptr fs)) i = count_list (flight_ptr (fs ! n)) i
    + count_list (concat (map flight_ptr (take n fs @ drop (Suc n) fs))) i"
proof -
  have "fs = take n fs @ fs ! n # drop (Suc n) fs" using assms by (rule id_take_nth_drop)
  then have "count_list (concat (map flight_ptr fs)) i
      = count_list (concat (map flight_ptr (take n fs @ fs ! n # drop (Suc n) fs))) i" by simp
  then show ?thesis by simp
qed

lemma ev_inv_take: "ev_inv git s \<Longrightarrow> ev_inv git (notify_take w s)"
  by (auto simp: ev_inv_def counted_def held_def flights_def notify_take_def Let_def count_simps)

lemma ev_inv_fetch: "ev_inv git s \<Longrightarrow> ev_inv git (notify_fetch git' ok n s)"
  using flights_split [of n "ev_flight s"]
  by (auto simp: ev_inv_def counted_def held_def flights_def notify_fetch_def Let_def count_simps split: flight.split)

lemma ev_inv_done: "ev_inv git s \<Longrightarrow> ev_inv git (notify_done n s)"
  using flights_split [of n "ev_flight s"]
  by (auto simp: ev_inv_def counted_def held_def flights_def notify_done_def count_simps split: flight.split)

lemma ev_reachable_inv: "ev_reachable git s \<Longrightarrow> ev_inv git s"
proof (induction rule: ev_reachable.induct)
  case ev_start
  show ?case by (simp add: ev_inv_def counted_def held_def flights_def ev_init_def no_slot_def slots_ok_def registered_def opt_list_def) auto
next
  case (ev_advise s reg p)
  then show ?case unfolding ev_inv_tile tile_Advise_def by (intro tile.advise_inv)
next
  case (ev_unadvise s)
  then show ?case unfolding ev_inv_tile tile_UnAdvise_def using tile.unadvise_inv by blast
next
  case (ev_provider_advise s reg t p)
  then show ?case by (simp add: events_Advise_ptr ev_inv_provider_ptr ev_inv_set_provider tileProvider_world_ptr)
next
  case (ev_provider_unadvise s t)
  then show ?case by (simp add: events_UnAdvise_ptr ev_inv_provider_ptr ev_inv_set_provider)
qed (simp_all add: ev_inv_set_provider ev_inv_take ev_inv_fetch ev_inv_done)

lemma advise_None: "sl_ptr (fst (advise_slot git reg None w)) = None"
  by (cases w) (auto simp: advise_slot_def revoke_def Let_def)

lemma UnAdvise_clears:
  "sl_ptr (ev_tileProvider (events_UnAdvise git True s)) = None" "ev_provider (events_UnAdvise git t s) = None"
  "ev_flight (events_UnAdvise git t s) = ev_flight s"
  by (simp_all add: events_UnAdvise_ptr set_provider_ptr_def tile_SetProviderEvents_def put_tileProvider_def advise_None)

text \<open>The destructor gives up both pointers and their registrations, whatever else holds references.\<close>

lemma destroyed_events:
  assumes "ev_inv git s"
  shows "ev_inv git (destroy_events git s)" "sl_ptr (ev_tile (destroy_events git s)) = None"
    "sl_ptr (ev_tileProvider (destroy_events git s)) = None" "ev_provider (destroy_events git s) = ev_provider s"
    "ev_flight (destroy_events git s) = ev_flight s" "ev_git (destroy_events git s) = Map.empty"
    "ev_refs (destroy_events git s) i = count_list (opt_list (ev_provider s) @ flights s) i"
proof -
  define s2 where "s2 = tile_UnAdvise git s"
  define s3 where "s3 = put_tileProvider (unadvise_slot git (tileProvider_world s2)) s2"
  have d: "destroy_events git s = s3" by (simp add: destroy_events_def s2_def s3_def Let_def)
  have t: "ev_inv git s2" "sl_ptr (ev_tile s2) = None" "sl_cookie (ev_tile s2) = 0"
    using tile.unadvise_inv [OF assms [unfolded ev_inv_tile]] unfolding s2_def tile_UnAdvise_def ev_inv_tile
    by (simp_all add: tile_world_def)
  have f2: "ev_provider s2 = ev_provider s" "ev_flight s2 = ev_flight s" by (simp_all add: s2_def tile_UnAdvise_def put_tile_def)
  have u: "ev_inv git s3" "sl_ptr (ev_tileProvider s3) = None" "sl_cookie (ev_tileProvider s3) = 0"
    using tileProvider.unadvise_inv [OF t(1) [unfolded ev_inv_tileProvider]] unfolding s3_def ev_inv_tileProvider
    by (simp_all add: tileProvider_world_def)
  have f3: "ev_provider s3 = ev_provider s" "ev_flight s3 = ev_flight s" "ev_tile s3 = ev_tile s2"
    using f2 by (simp_all add: s3_def put_tileProvider_def)
  have h: "held s3 = opt_list (ev_provider s) @ flights s" using f3 t(2) u(2) by (simp add: held_def flights_def opt_list_def)
  have "dom (ev_git s3) = {}" using u(1,3) t(3) f3(3) by (auto simp: ev_inv_def slots_ok_def)
  then show "ev_git (destroy_events git s) = Map.empty" unfolding d by simp
  show "ev_refs (destroy_events git s) i = count_list (opt_list (ev_provider s) @ flights s) i"
    unfolding d using u(1) h by (simp add: ev_inv_def counted_def)
  show "ev_inv git (destroy_events git s)" "sl_ptr (ev_tile (destroy_events git s)) = None"
    "sl_ptr (ev_tileProvider (destroy_events git s)) = None" "ev_provider (destroy_events git s) = ev_provider s"
    "ev_flight (destroy_events git s) = ev_flight s"
    unfolding d using t(2) u f3 by simp_all
qed

text \<open>The end: the provider lets go, the tile is destroyed.\<close>

lemma unadvised_events_gone:
  assumes "ev_reachable git s" and e: "ev_flight s = []"
  shows "\<forall>i. ev_refs (destroy_events git (events_UnAdvise git True s)) i = 0"
    "ev_git (destroy_events git (events_UnAdvise git True s)) = Map.empty"
proof -
  have i: "ev_inv git (events_UnAdvise git True s)"
    using ev_reachable_inv [OF assms(1)] by (simp add: events_UnAdvise_ptr ev_inv_provider_ptr ev_inv_set_provider)
  have "flights (events_UnAdvise git True s) = []" by (simp add: flights_def UnAdvise_clears e)
  then show "\<forall>i. ev_refs (destroy_events git (events_UnAdvise git True s)) i = 0"
    by (simp add: destroyed_events [OF i] UnAdvise_clears opt_list_def)
qed (rule destroyed_events(6), use ev_reachable_inv [OF assms(1)] in
    \<open>simp add: events_UnAdvise_ptr ev_inv_provider_ptr ev_inv_set_provider\<close>)

text \<open>C10. No callback interface is used after it is gone, and none is leaked.  In every interleaving of
  LogonUI's calls with the worker's notifications the references held on an interface are exactly
  those of the three pointers and of the notifications under way; so a notification that is about
  to call an interface holds a reference to it, even if LogonUI has taken the events back in the
  meantime.  Once the provider has been told to let go and the tile is destroyed, with no
  notification under way, no reference and no registration is left.\<close>

theorem events_never_dangle:
  assumes "ev_reachable git s"
  shows "(\<forall>i. ev_refs s i = count_list (held s) i)
    \<and> (\<forall>p. Using (Some p) \<in> set (ev_flight s) \<longrightarrow> 0 < ev_refs s p)
    \<and> (ev_flight s = [] \<longrightarrow>
        (\<forall>i. ev_refs (destroy_events git (events_UnAdvise git True s)) i = 0)
        \<and> ev_git (destroy_events git (events_UnAdvise git True s)) = Map.empty)"
proof (intro conjI impI)
  have "ev_inv git s" by (rule ev_reachable_inv [OF assms])
  then show c: "\<forall>i. ev_refs s i = count_list (held s) i" by (simp add: ev_inv_def counted_def)
  show "\<forall>p. Using (Some p) \<in> set (ev_flight s) \<longrightarrow> 0 < ev_refs s p"
  proof (intro allI impI)
    fix p
    assume "Using (Some p) \<in> set (ev_flight s)"
    then have "p \<in> set (held s)" by (force simp: held_def flights_def opt_list_def)
    then have "count_list (held s) p \<noteq> 0" by (simp add: count_list_0_iff)
    with c show "0 < ev_refs s p" by simp
  qed
qed (use unadvised_events_gone [OF assms] in simp_all)

text \<open>A notification has fetched the tile's events when LogonUI takes them back: one reference is left,
  the notification's own.\<close>

definition taken_back :: ev_state where
  "taken_back = tile_UnAdvise True (notify_fetch True True 0 (notify_take TileEvents (tile_Advise True (Some 5) (Some 7) ev_init)))"

theorem events_never_dangle_witness:
  "ev_flight taken_back = [Using (Some 7)] \<and> 0 < ev_refs taken_back 7"
proof -
  have "ev_reachable True taken_back"
    unfolding taken_back_def
    by (intro ev_unadvise ev_fetch ev_take ev_advise ev_start) (simp add: fresh_cookie_def ev_init_def tile_world_def no_slot_def revoke_def)
  moreover have "ev_flight taken_back = [Using (Some 7)]"
    by (simp add: taken_back_def tile_UnAdvise_def notify_fetch_def notify_take_def tile_Advise_def ev_init_def tile_world_def
        put_tile_def no_slot_def advise_slot_def revoke_def resolve_def Let_def)
  ultimately show ?thesis using events_never_dangle [of True taken_back] by (metis list.set_intros(1))
qed

end
