(* ===== verification/SsoTicket.thy ===== *)
theory SsoTicket
  imports Std_Strings
begin

text \<open>
  The single sign-on ticket a confirmed logon leaves for the user's own programs:
  \<open>WriteSsoTicketFile\<close> of \<open>credential_provider/common.h\<close>.  The file system is a map of directories
  and a map of files to their contents, both with the access list they were made with; what the
  account database and the file calls answer is a parameter.  The calls behave as they are
  documented: \<open>CreateDirectoryW\<close> makes the last directory of a path only, \<open>CREATE_ALWAYS\<close> empties
  a file that exists and leaves its access list, and a moved file keeps its list.
  The call only logs its errors; log lines are left out.
\<close>

record sso_fs =
  sf_dirs :: "wstr \<Rightarrow> wstr option"
  sf_files :: "wstr \<Rightarrow> (string \<times> wstr) option"

record sso_io =
  so_lookup :: "wstr \<Rightarrow> bytes option"
  so_sidString :: "bytes \<Rightarrow> wstr option"
  so_folder :: "wstr option"
  so_sddl :: bool
  so_mkdir :: bool
  so_create :: bool
  so_write :: "bool \<times> nat"
  so_delete :: bool
  so_move :: bool

subsection \<open>The file system\<close>

definition path_sep :: wchar where "path_sep = 92"

definition parent_dir :: "wstr \<Rightarrow> wstr" where
  "parent_dir p = rev (drop 1 (dropWhile (\<lambda>c. c \<noteq> path_sep) (rev p)))"

lemma parent_dir_append: "path_sep \<notin> set f \<Longrightarrow> parent_dir (d @ path_sep # f) = d"
proof -
  assume "path_sep \<notin> set f"
  then have "dropWhile (\<lambda>c. c \<noteq> path_sep) (rev f @ path_sep # rev d) = path_sep # rev d"
    by (subst dropWhile_append2) auto
  then show ?thesis by (simp add: parent_dir_def)
qed

definition CreateDirectoryW :: "bool \<Rightarrow> wstr \<Rightarrow> wstr \<Rightarrow> sso_fs \<Rightarrow> sso_fs" where
  "CreateDirectoryW granted d sddl fs =
     (if granted \<and> sf_dirs fs (parent_dir d) \<noteq> None \<and> sf_dirs fs d = None
      then fs\<lparr>sf_dirs := (sf_dirs fs)(d \<mapsto> sddl)\<rparr> else fs)"

definition create_always :: "bool \<Rightarrow> wstr \<Rightarrow> wstr \<Rightarrow> sso_fs \<Rightarrow> sso_fs option" where
  "create_always granted p sddl fs =
     (if granted \<and> sf_dirs fs (parent_dir p) \<noteq> None
      then Some (fs\<lparr>sf_files := (sf_files fs)(p \<mapsto> ([], case sf_files fs p of None \<Rightarrow> sddl | Some (_, old) \<Rightarrow> old))\<rparr>)
      else None)"

definition put_content :: "wstr \<Rightarrow> string \<Rightarrow> sso_fs \<Rightarrow> sso_fs" where
  "put_content p s fs =
     (case sf_files fs p of None \<Rightarrow> fs | Some (_, sddl) \<Rightarrow> fs\<lparr>sf_files := (sf_files fs)(p \<mapsto> (s, sddl))\<rparr>)"

definition delete_file :: "bool \<Rightarrow> wstr \<Rightarrow> sso_fs \<Rightarrow> sso_fs" where
  "delete_file ok p fs = (if ok then fs\<lparr>sf_files := (sf_files fs)(p := None)\<rparr> else fs)"

definition move_file :: "wstr \<Rightarrow> wstr \<Rightarrow> sso_fs \<Rightarrow> sso_fs" where
  "move_file p q fs = fs\<lparr>sf_files := (sf_files fs)(q := sf_files fs p, p := None)\<rparr>"

subsection \<open>The ticket\<close>

definition sso_account :: "wstr \<Rightarrow> wstr \<Rightarrow> wstr" where
  "sso_account domain user = (if domain = [] \<or> domain = wide ''.'' then user else domain @ [path_sep] @ user)"

definition sso_root :: "wstr \<Rightarrow> wstr" where
  "sso_root progData = progData @ [path_sep] @ wide ''Ligament'' @ [path_sep] @ wide ''sso''"

definition sso_dir :: "wstr \<Rightarrow> wstr \<Rightarrow> wstr" where
  "sso_dir progData sid = sso_root progData @ [path_sep] @ sid"

definition sso_sddl :: "wstr \<Rightarrow> wstr" where
  "sso_sddl sid = wide ''D:P(A;OICI;FA;;;SY)(A;OICI;FA;;;BA)(A;;FR;;;'' @ sid @ wide '')''"

definition sso_tmp :: "wstr \<Rightarrow> wstr" where
  "sso_tmp dir = dir @ [path_sep] @ wide ''sso.bin.tmp''"

definition sso_dst :: "wstr \<Rightarrow> wstr" where
  "sso_dst dir = dir @ [path_sep] @ wide ''sso.bin''"

definition write_ticket :: "sso_io \<Rightarrow> wstr \<Rightarrow> wstr \<Rightarrow> string \<Rightarrow> sso_fs \<Rightarrow> bool \<times> sso_fs" where
  "write_ticket e dir sddl ticket fs =
     (let tmp = sso_tmp dir; dst = sso_dst dir
      in case create_always (so_create e) tmp sddl fs of
        None \<Rightarrow> (False, fs)
      | Some fs2 \<Rightarrow>
          (let (ok, written) = so_write e; fs3 = put_content tmp (take written ticket) fs2
           in if \<not> ok \<or> written \<noteq> length ticket then (False, delete_file (so_delete e) tmp fs3)
              else if \<not> so_move e then (False, delete_file (so_delete e) tmp fs3)
              else (True, move_file tmp dst fs3)))"

definition WriteSsoTicketFile :: "sso_io \<Rightarrow> wstr \<Rightarrow> wstr \<Rightarrow> string \<Rightarrow> sso_fs \<Rightarrow> bool \<times> sso_fs" where
  "WriteSsoTicketFile e domain user ticketUtf8 fs =
     (if user = [] \<or> ticketUtf8 = [] then (False, fs)
      else case so_lookup e (sso_account domain user) of
        None \<Rightarrow> (False, fs)
      | Some sidBuf \<Rightarrow> (case so_sidString e sidBuf of
          None \<Rightarrow> (False, fs)
        | Some sid \<Rightarrow>
            if sid = [] then (False, fs)
            else (case so_folder e of
              None \<Rightarrow> (False, fs)
            | Some progData \<Rightarrow>
                if \<not> so_sddl e then (False, fs)
                else (let dir = sso_dir progData sid; sddl = sso_sddl sid
                      in write_ticket e dir sddl ticketUtf8 (CreateDirectoryW (so_mkdir e) dir sddl fs)))))"

subsection \<open>What a call leaves behind\<close>

lemma sso_paths:
  "sso_tmp dir \<noteq> sso_dst dir" "parent_dir (sso_tmp dir) = dir" "parent_dir (sso_dst dir) = dir"
  "path_sep \<notin> set sid \<Longrightarrow> parent_dir (sso_dir prog sid) = sso_root prog"
proof -
  have "path_sep \<notin> set (wide ''sso.bin.tmp'')" "path_sep \<notin> set (wide ''sso.bin'')" by code_simp+
  then show "parent_dir (sso_tmp dir) = dir" "parent_dir (sso_dst dir) = dir"
    by (simp_all add: sso_tmp_def sso_dst_def parent_dir_append)
  show "path_sep \<notin> set sid \<Longrightarrow> parent_dir (sso_dir prog sid) = sso_root prog"
    by (simp add: sso_dir_def parent_dir_append)
qed (simp add: sso_tmp_def sso_dst_def wide_def)

lemma CreateDirectoryW_files [frame_facts]: "sf_files (CreateDirectoryW g d s fs) = sf_files fs"
  by (simp add: CreateDirectoryW_def)

lemma write_ticket_cases:
  assumes "write_ticket e dir sddl ticket fs = (ok, fs')"
  shows "(ok \<and> sf_files fs' = (sf_files fs)(sso_dst dir \<mapsto>
             (ticket, case sf_files fs (sso_tmp dir) of None \<Rightarrow> sddl | Some (_, old) \<Rightarrow> old), sso_tmp dir := None))
       \<or> (\<not> ok \<and> (\<forall>p. p \<noteq> sso_tmp dir \<longrightarrow> sf_files fs' p = sf_files fs p))"
  using assms sso_paths(1) [of dir]
  by (auto simp: write_ticket_def create_always_def put_content_def delete_file_def move_file_def Let_def fun_eq_iff
      split: if_splits prod.splits)

definition user_sid :: "sso_io \<Rightarrow> wstr \<Rightarrow> wstr \<Rightarrow> wstr option" where
  "user_sid e domain user = Option.bind (so_lookup e (sso_account domain user)) (so_sidString e)"

text \<open>C28. A ticket is written whole or not at all, and for its user only.  When the call reports success,
  the ticket file in the directory of the user's own SID holds exactly the ticket, under the access
  list that lets the system and administrators in and the user read, unless a temporary file with
  another list was lying there; whatever fails, the ticket file there was before, and every other
  file but that temporary one, stay as they were.\<close>

theorem ticket_written_whole:
  assumes "WriteSsoTicketFile e domain user ticket fs = (ok, fs')"
  shows "(ok \<longrightarrow> ticket \<noteq> [] \<and> (\<exists>sid prog. user_sid e domain user = Some sid \<and> so_folder e = Some prog
            \<and> sf_files fs' = (sf_files fs)(sso_dst (sso_dir prog sid) \<mapsto>
                 (ticket, case sf_files fs (sso_tmp (sso_dir prog sid)) of None \<Rightarrow> sso_sddl sid | Some (_, old) \<Rightarrow> old),
               sso_tmp (sso_dir prog sid) := None)))
    \<and> (\<not> ok \<longrightarrow> (\<forall>p. sf_files fs' p = sf_files fs p
          \<or> (\<exists>sid prog. user_sid e domain user = Some sid \<and> so_folder e = Some prog \<and> p = sso_tmp (sso_dir prog sid))))"
proof (cases "fs' = fs \<and> \<not> ok")
  case False
  from assms False obtain b sid prog where s: "so_lookup e (sso_account domain user) = Some b"
    "so_sidString e b = Some sid" "so_folder e = Some prog" "ticket \<noteq> []"
    and w: "write_ticket e (sso_dir prog sid) (sso_sddl sid) ticket
        (CreateDirectoryW (so_mkdir e) (sso_dir prog sid) (sso_sddl sid) fs) = (ok, fs')"
    by (auto simp: WriteSsoTicketFile_def Let_def split: if_splits option.splits)
  have u: "user_sid e domain user = Some sid" using s by (simp add: user_sid_def)
  from write_ticket_cases [OF w] u s(3,4) show ?thesis unfolding CreateDirectoryW_files by blast
qed simp

definition sso_sample :: sso_io where
  "sso_sample = \<lparr>so_lookup = (\<lambda>_. Some [1]), so_sidString = (\<lambda>_. Some (wide ''S-1-5-21-7'')), so_folder = Some (wide ''C:''),
     so_sddl = True, so_mkdir = True, so_create = True, so_write = (True, 3), so_delete = True, so_move = True\<rparr>"

definition sso_disk :: sso_fs where
  "sso_disk = \<lparr>sf_dirs = [sso_root (wide ''C:'') \<mapsto> []], sf_files = Map.empty\<rparr>"

lemma sso_sample_run:
  "WriteSsoTicketFile sso_sample (wide ''CORP'') (wide ''ann'') ''abc'' sso_disk
     = (True, snd (WriteSsoTicketFile sso_sample (wide ''CORP'') (wide ''ann'') ''abc'' sso_disk))"
proof -
  have "parent_dir (sso_dir (wide ''C:'') (wide ''S-1-5-21-7'')) = sso_root (wide ''C:'')"
    by (rule sso_paths) code_simp
  moreover have "sso_dir (wide ''C:'') (wide ''S-1-5-21-7'') \<noteq> sso_root (wide ''C:'')" by (simp add: sso_dir_def)
  ultimately show ?thesis
    by (simp add: WriteSsoTicketFile_def sso_sample_def sso_disk_def write_ticket_def create_always_def
        CreateDirectoryW_def sso_paths(2) Let_def wide_def)
qed

theorem ticket_written_whole_witness:
  "map_option fst (sf_files (snd (WriteSsoTicketFile sso_sample (wide ''CORP'') (wide ''ann'') ''abc'' sso_disk))
     (sso_dst (sso_dir (wide ''C:'') (wide ''S-1-5-21-7'')))) = Some ''abc''"
  using ticket_written_whole [OF sso_sample_run] sso_paths(1) [symmetric]
  by (auto simp: user_sid_def sso_sample_def)

text \<open>Only the last directory is made.  On a machine where nothing else has made \<open>Ligament\<close> and \<open>sso\<close>
  under it, no ticket is ever written.\<close>

lemma no_ticket_without_parent:
  assumes "so_folder e = Some prog" "sf_dirs fs (sso_root prog) = None"
    and "\<And>sid. sf_dirs fs (sso_dir prog sid) = None" "\<And>b sid. so_sidString e b = Some sid \<Longrightarrow> path_sep \<notin> set sid"
  shows "WriteSsoTicketFile e domain user ticket fs = (False, fs)"
  using assms
  by (auto simp: WriteSsoTicketFile_def write_ticket_def create_always_def CreateDirectoryW_def sso_paths Let_def
      split: option.splits)

end
