(* ===== verification/WebAuthn.thy ===== *)
theory WebAuthn
  imports HttpApi Base64Url
begin

text \<open>
  The client of the system's WebAuthn library, \<open>credential_provider/WebAuthnClient.cpp\<close>: the search
  for the library and its entry points, and one assertion with the JSON text the server expects.
  A loaded library is the set of names it exports; the call to the authenticator is a parameter,
  a function of the client data it is given.  The tile makes a client but never asks it for an
  assertion, so that this component stands alone.
\<close>

subsection \<open>The library\<close>

type_synonym dll = "string \<Rightarrow> bool"

record WebAuthnClient =
  m_hWebAuthn :: "dll option"
  m_pfnGetAssertion :: bool
  m_pfnFreeAssertion :: bool
  m_pfnIsUVPAA :: bool

definition getProc :: "dll \<Rightarrow> string \<Rightarrow> string \<Rightarrow> bool" where
  "getProc h name1 name2 \<longleftrightarrow> (if h name1 then True else h name2)"

text \<open>\<open>load\<close>: what \<open>LoadLibraryW\<close> finds for a path; \<open>sysDir\<close>: the system directory, if it is known.\<close>

definition WebAuthnClient_new :: "wstr option \<Rightarrow> (wstr \<Rightarrow> dll option) \<Rightarrow> WebAuthnClient" where
  "WebAuthnClient_new sysDir load =
     (let h1 = (case sysDir of None \<Rightarrow> None | Some d \<Rightarrow> load (d @ 92 # wide ''webauthn.dll''));
          h = (case h1 of Some l \<Rightarrow> Some l | None \<Rightarrow> load (wide ''webauthn.dll''))
      in case h of
        None \<Rightarrow> \<lparr>m_hWebAuthn = None, m_pfnGetAssertion = False, m_pfnFreeAssertion = False, m_pfnIsUVPAA = False\<rparr>
      | Some l \<Rightarrow>
          \<lparr>m_hWebAuthn = Some l,
           m_pfnGetAssertion = getProc l ''WebAuthNAuthenticatorGetAssertion'' ''WebAuthnAuthenticatorGetAssertion'',
           m_pfnFreeAssertion = getProc l ''WebAuthNFreeAssertion'' ''WebAuthnFreeAssertion'',
           m_pfnIsUVPAA = getProc l ''WebAuthNIsUserVerifyingPlatformAuthenticatorAvailable''
             ''WebAuthnIsUserVerifyingPlatformAuthenticatorAvailable''\<rparr>)"

definition IsAvailable :: "WebAuthnClient \<Rightarrow> bool" where
  "IsAvailable c \<longleftrightarrow> m_pfnGetAssertion c \<and> m_pfnFreeAssertion c"

subsection \<open>One assertion\<close>

record assertion =
  as_credential :: "bytes option"
  as_authData :: bytes
  as_signature :: bytes
  as_userId :: "bytes option"

definition client_data_text :: "string \<Rightarrow> string \<Rightarrow> string" where
  "client_data_text challengeBase64 u8RpId =
     [CHR ''{'', quote] @ ''type'' @ [quote, CHR '':'', quote] @ ''webauthn.get'' @ [quote, CHR '','', quote]
     @ ''challenge'' @ [quote, CHR '':'', quote] @ challengeBase64 @ [quote, CHR '','', quote]
     @ ''origin'' @ [quote, CHR '':'', quote] @ ''https://'' @ u8RpId @ [quote, CHR ''}'']"

definition ERROR_CANCELLED_hr :: u32 where "ERROR_CANCELLED_hr = 0x800704C7"
definition ERROR_TIMEOUT_hr :: u32 where "ERROR_TIMEOUT_hr = 0x800705B4"

definition assertion_error :: "u32 \<Rightarrow> string" where
  "assertion_error hr =
     (if hr = ERROR_CANCELLED_hr then ''cancelled_by_user''
      else if hr = ERROR_TIMEOUT_hr then ''timeout''
      else ''assertion_failed_hr_'' @ to_string (sint hr))"

definition opt_base64 :: "bytes option \<Rightarrow> string" where
  "opt_base64 b = (case b of Some (x # xs) \<Rightarrow> Base64UrlEncode (x # xs) | _ \<Rightarrow> [])"

definition text_bytes :: "string \<Rightarrow> bytes" where
  "text_bytes = map of_char"

definition assertion_text :: "assertion \<Rightarrow> string \<Rightarrow> string" where
  "assertion_text a clientDataStr =
     (let credId = opt_base64 (as_credential a);
          authData = Base64UrlEncode (as_authData a);
          clientDataB64 = Base64UrlEncode (text_bytes clientDataStr);
          signature = Base64UrlEncode (as_signature a);
          userHandle = opt_base64 (as_userId a)
      in [CHR ''{'']
         @ [quote] @ ''id'' @ [quote, CHR '':'', quote] @ credId @ [quote, CHR '','']
         @ [quote] @ ''rawId'' @ [quote, CHR '':'', quote] @ credId @ [quote, CHR '','']
         @ [quote] @ ''type'' @ [quote, CHR '':'', quote] @ ''public-key'' @ [quote, CHR '','']
         @ [quote] @ ''response'' @ [quote, CHR '':'', CHR ''{'']
         @ [quote] @ ''authenticatorData'' @ [quote, CHR '':'', quote] @ authData @ [quote, CHR '','']
         @ [quote] @ ''clientDataJSON'' @ [quote, CHR '':'', quote] @ clientDataB64 @ [quote, CHR '','']
         @ [quote] @ ''signature'' @ [quote, CHR '':'', quote] @ signature @ [quote]
         @ (if userHandle \<noteq> []
            then [CHR '','', quote] @ ''userHandle'' @ [quote, CHR '':'', quote] @ userHandle @ [quote] else [])
         @ ''}}'')"

text \<open>The result and the number of assertions given back to the library.  \<open>get\<close>: the authenticator's
  answer to the client data, a result code and an assertion.\<close>

definition WebAuthn_Authenticate ::
    "utf8_codec \<Rightarrow> (wstr \<Rightarrow> string \<Rightarrow> u32 \<times> assertion option) \<Rightarrow> WebAuthnClient \<Rightarrow> wstr \<Rightarrow> string \<Rightarrow> (string + string) \<times> nat" where
  "WebAuthn_Authenticate cv get c rpId challengeBase64 =
     (if \<not> IsAvailable c then (Inl ''webauthn_dll_not_available'', 0)
      else let clientDataStr = client_data_text challengeBase64 (WideToUtf8 cv rpId)
           in case get rpId clientDataStr of
                (hr, None) \<Rightarrow> (Inl (assertion_error hr), 0)
              | (hr, Some a) \<Rightarrow> if sint hr < 0 then (Inl (assertion_error hr), 0)
                                else (Inr (assertion_text a clientDataStr), 1))"

subsection \<open>Reading the texts back\<close>

lemma Base64Url_plain: "plain_key (Base64UrlEncode data)"
proof -
  have "list_all (\<lambda>c. c \<noteq> quote \<and> c \<noteq> backslash \<and> 32 \<le> (of_char c :: nat)) b64_alphabet" by code_simp
  then show ?thesis using Base64UrlEncode_text [of data] by (auto simp: plain_key_def list_all_iff)
qed

lemma opt_base64_plain: "plain_key (opt_base64 b)"
proof -
  have "plain_key []" by (simp add: plain_key_def)
  then show ?thesis by (auto simp: opt_base64_def Base64Url_plain split: list.split option.split)
qed

lemma plain_append: "plain_key (s @ t) \<longleftrightarrow> plain_key s \<and> plain_key t"
  by (simp add: plain_key_def)

definition outer_members :: "assertion \<Rightarrow> (string \<times> string) list" where
  "outer_members a = [(''id'', opt_base64 (as_credential a)), (''rawId'', opt_base64 (as_credential a)), (''type'', ''public-key'')]"

definition inner_members :: "assertion \<Rightarrow> string \<Rightarrow> (string \<times> string) list" where
  "inner_members a cd =
     [(''authenticatorData'', Base64UrlEncode (as_authData a)), (''clientDataJSON'', Base64UrlEncode (text_bytes cd)),
      (''signature'', Base64UrlEncode (as_signature a))]
     @ (if opt_base64 (as_userId a) \<noteq> [] then [(''userHandle'', opt_base64 (as_userId a))] else [])"

text \<open>The assertion's text is a JSON object: the outer members and a nested object with the response,
  whose members read back as the base64 texts; the client data reads back as the challenge and the
  origin it was made for, if neither needs an escape.\<close>

lemma assertion_text_reads_back:
  "assertion_text a cd = CHR ''{'' # json_members (outer_members a) @ '','' @ [quote] @ ''response'' @ [quote, CHR '':'']
      @ json_object_text (inner_members a cd) @ ''}''
   \<and> read_object (json_object_text (outer_members a)) = Some (outer_members a)
   \<and> read_object (json_object_text (inner_members a cd)) = Some (inner_members a cd)"
proof (intro conjI)
  have "plain_key ''public-key''" by code_simp
  then have e: "EscapeJson ''public-key'' = ''public-key''" by (rule EscapeJson_plain)
  show "assertion_text a cd = CHR ''{'' # json_members (outer_members a) @ '','' @ [quote] @ ''response'' @ [quote, CHR '':'']
      @ json_object_text (inner_members a cd) @ ''}''"
    by (simp del: EscapeJson.simps add: assertion_text_def outer_members_def inner_members_def json_object_text_def
        json_member_def e EscapeJson_plain [OF Base64Url_plain] EscapeJson_plain [OF opt_base64_plain] Let_def)
  have k: "list_all plain_key [''id'', ''rawId'', ''type'', ''authenticatorData'', ''clientDataJSON'', ''signature'', ''userHandle'']"
    by code_simp
  show "read_object (json_object_text (outer_members a)) = Some (outer_members a)"
    by (rule read_object_json_object_text) (use k in \<open>simp_all add: outer_members_def\<close>)
  show "read_object (json_object_text (inner_members a cd)) = Some (inner_members a cd)"
    by (rule read_object_json_object_text) (use k in \<open>simp_all add: inner_members_def\<close>)
qed

lemma client_data_reads_back:
  assumes "plain_key ch" "plain_key rp"
  shows "read_object (client_data_text ch rp)
     = Some [(''type'', ''webauthn.get''), (''challenge'', ch), (''origin'', ''https://'' @ rp)]"
proof -
  let ?ms = "[(''type'', ''webauthn.get''), (''challenge'', ch), (''origin'', ''https://'' @ rp)]"
  have p: "plain_key ''webauthn.get''" "plain_key ''https://''" by code_simp+
  then have o: "EscapeJson (''https://'' @ rp) = ''https://'' @ rp"
    using assms(2) by (intro EscapeJson_plain) (simp only: plain_append)
  have "client_data_text ch rp = json_object_text ?ms"
    unfolding client_data_text_def json_object_text_def json_members.simps json_member_def fst_conv snd_conv o
      EscapeJson_plain [OF assms(1)] EscapeJson_plain [OF p(1)] by simp
  moreover have "list_all plain_key [''type'', ''challenge'', ''origin'']" by code_simp
  then have "list_all (plain_key \<circ> fst) ?ms" by simp
  then have "read_object (json_object_text ?ms) = Some ?ms" by (intro read_object_json_object_text) simp_all
  ultimately show ?thesis by simp
qed

text \<open>An assertion is asked for only with a library that has both entry points, and each one obtained
  is given back.\<close>

lemma Authenticate_result:
  "WebAuthn_Authenticate cv get c rp ch = (r, n) \<Longrightarrow>
     (n = 1 \<longleftrightarrow> (\<exists>json. r = Inr json)) \<and> n \<le> 1
     \<and> (\<forall>json. r = Inr json \<longrightarrow> IsAvailable c
          \<and> (\<exists>hr a. get rp (client_data_text ch (WideToUtf8 cv rp)) = (hr, Some a) \<and> 0 \<le> sint hr
                \<and> json = assertion_text a (client_data_text ch (WideToUtf8 cv rp))))"
  by (auto simp: WebAuthn_Authenticate_def Let_def split: if_splits prod.splits option.splits)

lemma library_found:
  "IsAvailable (WebAuthnClient_new sysDir load) \<Longrightarrow>
     \<exists>path l. load path = Some l \<and> (path = wide ''webauthn.dll'' \<or> (\<exists>d. sysDir = Some d \<and> path = d @ 92 # wide ''webauthn.dll''))"
  by (auto simp: IsAvailable_def WebAuthnClient_new_def Let_def split: option.splits)

end
