(* ===== verification/QrBits.thy ===== *)
theory QrBits
  imports Prelude
begin

text \<open>
  The bottom of the QR encoder the tile is built with, \<open>credential_provider/qrcodegen.cpp\<close>: its errors,
  which are exceptions there, the bit buffer, and numbers as bits with the most significant bit
  first.
\<close>

datatype qr_error =
    DomainError string | InvalidArgument string | LengthError string | DataTooLong string | OutOfRange | LogicError string

definition bindE :: "'e + 'a \<Rightarrow> ('a \<Rightarrow> 'e + 'b) \<Rightarrow> 'e + 'b" where
  "bindE m f = (case m of Inl e \<Rightarrow> Inl e | Inr x \<Rightarrow> f x)"

lemma bindE_simps [simp]: "bindE (Inl e) f = Inl e" "bindE (Inr x) f = f x"
  by (simp_all add: bindE_def)

lemma bindE_cong [fundef_cong]: "m = m' \<Longrightarrow> (\<And>x. m' = Inr x \<Longrightarrow> f x = g x) \<Longrightarrow> bindE m f = bindE m' g"
  by (cases m') simp_all

lemma bindE_Inr: "bindE m f = Inr y \<longleftrightarrow> (\<exists>x. m = Inr x \<and> f x = Inr y)"
  by (cases m) simp_all

type_synonym bits = "bool list"

definition getBit :: "int \<Rightarrow> nat \<Rightarrow> bool" where
  "getBit x i \<longleftrightarrow> drop_bit i x AND 1 \<noteq> 0"

definition appendBits :: "u32 \<Rightarrow> int \<Rightarrow> bits \<Rightarrow> qr_error + bits" where
  "appendBits val len bb =
     (if len < 0 \<or> len > 31 \<or> drop_bit (nat len) val \<noteq> 0 then Inl (DomainError ''Value out of range'')
      else Inr (bb @ map (\<lambda>i. drop_bit i val AND 1 \<noteq> 0) (rev [0..<nat len])))"

subsection \<open>Numbers and bits\<close>

definition bits_of :: "nat \<Rightarrow> nat \<Rightarrow> bits" where
  "bits_of k n = map (bit n) (rev [0..<k])"

definition val_of :: "bits \<Rightarrow> nat" where
  "val_of bs = horner_sum of_bool 2 (rev bs)"

lemma getBit_bit: "getBit x i \<longleftrightarrow> bit x i"
  by (simp add: getBit_def bit_iff_odd_drop_bit and_one_eq odd_iff_mod_2_eq_one)

lemma length_bits_of [simp]: "length (bits_of k n) = k"
  by (simp add: bits_of_def)

lemma val_bits_of: "n < 2 ^ k \<Longrightarrow> val_of (bits_of k n) = n"
  by (simp add: val_of_def bits_of_def rev_map horner_sum_bit_eq_take_bit take_bit_nat_eq_self)

lemma nth_bits_of: "i < k \<Longrightarrow> bits_of k n ! i \<longleftrightarrow> bit n (k - 1 - i)"
  by (simp add: bits_of_def rev_nth)

lemma bits_of_val: "bits_of (length bs) (val_of bs) = bs"
  by (rule nth_equalityI) (auto simp: nth_bits_of val_of_def bit_horner_sum_bit_iff rev_nth)

lemma val_of_less: "val_of bs < 2 ^ length bs"
proof -
  have "val_of bs = horner_sum of_bool (2 :: nat) (rev bs)" by (simp add: val_of_def)
  also have "\<dots> < 2 ^ length (rev bs)" by (rule horner_sum_of_bool_2_less)
  finally show ?thesis by simp
qed

lemma bits_of_Suc: "bits_of (Suc k) n = bit n k # bits_of k n"
  by (simp add: bits_of_def)

lemma appendBits_nat:
  assumes "n < 2 ^ k" "k \<le> 31"
  shows "appendBits (of_nat n) (int k) bb = Inr (bb @ bits_of k n)"
proof -
  have "(2::nat) ^ k \<le> 2 ^ 31" using assms(2) by (intro power_increasing) simp_all
  with assms(1) have n: "unat (of_nat n :: u32) = n" by (simp add: unat_of_nat_u32)
  have "unat (drop_bit k (of_nat n :: u32)) = drop_bit k (unat (of_nat n :: u32))" by (rule unat_drop_bit_eq)
  then have "unat (drop_bit k (of_nat n :: u32)) = drop_bit k n" by (simp only: n)
  then have "unat (drop_bit k (of_nat n :: u32)) = 0" using assms(1) by (simp add: drop_bit_eq_div)
  then have z: "drop_bit k (of_nat n :: u32) = 0" by (simp add: unsigned_eq_0_iff)
  have b: "(drop_bit i (of_nat n :: u32) AND 1 \<noteq> 0) = bit n i" for i
  proof -
    have "(drop_bit i (of_nat n :: u32) AND 1 \<noteq> 0) = bit (of_nat n :: u32) i"
      by (simp add: bit_iff_odd_drop_bit and_one_eq odd_iff_mod_2_eq_one)
    also have "\<dots> = bit (unat (of_nat n :: u32)) i" by (simp add: bit_unsigned_iff)
    finally show ?thesis by (simp only: n)
  qed
  show ?thesis using assms(2) z by (simp add: appendBits_def b bits_of_def)
qed

lemma appendBits_zero: "k \<le> 31 \<Longrightarrow> appendBits 0 (int k) bb = Inr (bb @ replicate k False)"
proof -
  assume "k \<le> 31"
  moreover have "bits_of k 0 = replicate k False" by (induction k) (simp_all add: bits_of_def)
  ultimately show ?thesis using appendBits_nat [of 0 k bb] by simp
qed

lemma bits_eqI: "length xs = length ys \<Longrightarrow> (\<And>i. i < length xs \<Longrightarrow> xs ! i = ys ! i) \<Longrightarrow> xs = (ys :: bits)"
  by (rule nth_equalityI)

text \<open>A byte as eight bits, and a list of bytes as the bits of its bytes.\<close>

definition byte_bits_of :: "u8 \<Rightarrow> bits" where
  "byte_bits_of b = bits_of 8 (unat b)"

definition bytes_bits :: "bytes \<Rightarrow> bits" where
  "bytes_bits bs = concat (map byte_bits_of bs)"

lemma length_byte_bits_of [simp]: "length (byte_bits_of b) = 8"
  by (simp add: byte_bits_of_def)

lemma length_bytes_bits [simp]: "length (bytes_bits bs) = 8 * length bs"
  by (induction bs) (simp_all add: bytes_bits_def)

lemma bytes_bits_append: "bytes_bits (xs @ ys) = bytes_bits xs @ bytes_bits ys"
  by (simp add: bytes_bits_def)

lemma nth_bytes_bits: "i < 8 * length bs \<Longrightarrow> bytes_bits bs ! i \<longleftrightarrow> bit (bs ! (i div 8)) (7 - i mod 8)"
proof (induction bs arbitrary: i)
  case (Cons b bs)
  show ?case
  proof (cases "i < 8")
    case True
    then show ?thesis
      by (simp add: bytes_bits_def nth_append byte_bits_of_def nth_bits_of bit_unsigned_iff)
  next
    case False
    then obtain j where j: "i = 8 + j" using le_Suc_ex by (metis not_less)
    then have "bytes_bits bs ! j \<longleftrightarrow> bit (bs ! (j div 8)) (7 - j mod 8)" using Cons by simp
    moreover have "i div 8 = Suc (j div 8)" using j by linarith
    ultimately show ?thesis using j by (simp add: bytes_bits_def nth_append)
  qed
qed simp

text \<open>Reading bytes: eight bits at a time; what does not fill a byte is dropped.\<close>

fun bytes_of_bits :: "bits \<Rightarrow> bytes" where
  "bytes_of_bits (a # b # c # d # e # f # g # h # r) = of_nat (val_of [a, b, c, d, e, f, g, h]) # bytes_of_bits r"
| "bytes_of_bits _ = []"

lemma byte_split: "length bs = 8 \<Longrightarrow> \<exists>a b c d e f g h. bs = [a, b, c, d, e, f, g, h]"
  by (auto simp: length_Suc_conv numeral_eq_Suc)

lemma bytes_of_bits_step: "length b = 8 \<Longrightarrow> bytes_of_bits (b @ r) = of_nat (val_of b) # bytes_of_bits r"
  using byte_split [of b] by auto

lemma bytes_of_bytes_bits: "length r < 8 \<Longrightarrow> bytes_of_bits (bytes_bits bs @ r) = bs"
proof (induction bs)
  case Nil
  then have "length r = 0 \<or> length r = 1 \<or> length r = 2 \<or> length r = 3 \<or> length r = 4 \<or> length r = 5 \<or> length r = 6 \<or> length r = 7"
    by linarith
  then show ?case by (auto simp: bytes_bits_def length_Suc_conv numeral_eq_Suc)
next
  case (Cons b bs)
  have "(of_nat (val_of (byte_bits_of b)) :: u8) = b" by (simp add: byte_bits_of_def val_bits_of)
  then show ?case using Cons by (simp add: bytes_bits_def bytes_of_bits_step)
qed

lemma bytes_bits_of_bits: "8 dvd length bs \<Longrightarrow> bytes_bits (bytes_of_bits bs) = bs"
proof (induction bs rule: bytes_of_bits.induct)
  case (1 a b c d e f g h r)
  let ?b = "[a, b, c, d, e, f, g, h]"
  have "8 dvd length r" using 1(2) by (simp only: list.size One_nat_def add_0_right) presburger
  then have "bytes_bits (bytes_of_bits r) = r" by (rule 1(1))
  moreover have "val_of ?b < 2 ^ 8" using val_of_less [of ?b] by simp
  then have "unat (of_nat (val_of ?b) :: u8) = val_of ?b" by (simp add: unat_of_nat_u8)
  then have "byte_bits_of (of_nat (val_of ?b)) = bits_of (length ?b) (val_of ?b)" by (simp add: byte_bits_of_def numeral_eq_Suc)
  ultimately show ?case unfolding bits_of_val by (simp add: bytes_bits_def)
qed (auto simp: bytes_bits_def dest: dvd_imp_le)

end
