(* ===== verification/QrSegments.thy ===== *)
theory QrSegments
  imports QrBits Std_Strings
begin

text \<open>
  The segments of a QR code, class \<open>QrSegment\<close> of \<open>credential_provider/qrcodegen.cpp\<close>: the choice of a
  mode for a text, the bits of each mode, and the length of a list of segments.  A C string is the
  list of its characters before the terminator.  Numbers of characters are unbounded; a text of
  two gigabytes, whose count would overflow, is outside the model.

  The reader of a segment is the standard's: it takes the mode, the count and then the characters.
\<close>

subsection \<open>Modes\<close>

record qr_mode =
  modeBits :: nat
  numBitsCharCount :: "nat list"

definition getModeBits :: "qr_mode \<Rightarrow> nat" where "getModeBits m = modeBits m"
definition numCharCountBits :: "qr_mode \<Rightarrow> nat \<Rightarrow> nat" where
  "numCharCountBits m ver = numBitsCharCount m ! ((ver + 7) div 17)"

definition NUMERIC :: qr_mode where "NUMERIC = \<lparr>modeBits = 1, numBitsCharCount = [10, 12, 14]\<rparr>"
definition ALPHANUMERIC :: qr_mode where "ALPHANUMERIC = \<lparr>modeBits = 2, numBitsCharCount = [9, 11, 13]\<rparr>"
definition BYTE :: qr_mode where "BYTE = \<lparr>modeBits = 4, numBitsCharCount = [8, 16, 16]\<rparr>"
definition KANJI :: qr_mode where "KANJI = \<lparr>modeBits = 8, numBitsCharCount = [8, 10, 12]\<rparr>"
definition ECI :: qr_mode where "ECI = \<lparr>modeBits = 7, numBitsCharCount = [0, 0, 0]\<rparr>"

record QrSegment =
  seg_mode :: qr_mode
  seg_numChars :: nat
  seg_data :: bits

definition INT_MAX :: int where "INT_MAX = 2147483647"

subsection \<open>Making segments\<close>

fun append_bytes8 :: "bytes \<Rightarrow> bits \<Rightarrow> qr_error + bits" where
  "append_bytes8 [] bb = Inr bb"
| "append_bytes8 (b # bs) bb = bindE (appendBits (ucast b) 8 bb) (append_bytes8 bs)"

definition makeBytes :: "bytes \<Rightarrow> qr_error + QrSegment" where
  "makeBytes d =
     (if int (length d) > INT_MAX then Inl (LengthError ''Data too long'')
      else bindE (append_bytes8 d []) (\<lambda>bb. Inr \<lparr>seg_mode = BYTE, seg_numChars = length d, seg_data = bb\<rparr>))"

text \<open>The loop's state: what is accumulated, how many characters of it, how many in all, the bits.\<close>

fun numeric_loop :: "string \<Rightarrow> int \<Rightarrow> nat \<Rightarrow> nat \<Rightarrow> bits \<Rightarrow> qr_error + (int \<times> nat \<times> nat \<times> bits)" where
  "numeric_loop [] accumData accumCount charCount bb = Inr (accumData, accumCount, charCount, bb)"
| "numeric_loop (c # digits) accumData accumCount charCount bb =
     (if (of_char c :: int) < 48 \<or> (of_char c :: int) > 57
      then Inl (DomainError ''String contains non-numeric characters'')
      else let accumData = accumData * 10 + (of_char c - 48); accumCount = accumCount + 1
           in if accumCount = 3
              then bindE (appendBits (of_int accumData) 10 bb) (\<lambda>bb. numeric_loop digits 0 0 (charCount + 1) bb)
              else numeric_loop digits accumData accumCount (charCount + 1) bb)"

definition makeNumeric :: "string \<Rightarrow> qr_error + QrSegment" where
  "makeNumeric digits =
     bindE (numeric_loop digits 0 0 0 []) (\<lambda>(accumData, accumCount, charCount, bb).
       bindE (if accumCount > 0 then appendBits (of_int accumData) (int accumCount * 3 + 1) bb else Inr bb) (\<lambda>bb.
         Inr \<lparr>seg_mode = NUMERIC, seg_numChars = charCount, seg_data = bb\<rparr>))"

definition ALPHANUMERIC_CHARSET :: string where
  "ALPHANUMERIC_CHARSET = ''0123456789ABCDEFGHIJKLMNOPQRSTUVWXYZ $%*+-./:''"

definition strchr_charset :: "char \<Rightarrow> nat option" where
  "strchr_charset c = chr_find ALPHANUMERIC_CHARSET c 0"

fun alphanumeric_loop :: "string \<Rightarrow> int \<Rightarrow> nat \<Rightarrow> nat \<Rightarrow> bits \<Rightarrow> qr_error + (int \<times> nat \<times> nat \<times> bits)" where
  "alphanumeric_loop [] accumData accumCount charCount bb = Inr (accumData, accumCount, charCount, bb)"
| "alphanumeric_loop (c # text) accumData accumCount charCount bb =
     (case strchr_charset c of
        None \<Rightarrow> Inl (DomainError ''String contains unencodable characters in alphanumeric mode'')
      | Some temp \<Rightarrow>
          let accumData = accumData * 45 + int temp; accumCount = accumCount + 1
          in if accumCount = 2
             then bindE (appendBits (of_int accumData) 11 bb) (\<lambda>bb. alphanumeric_loop text 0 0 (charCount + 1) bb)
             else alphanumeric_loop text accumData accumCount (charCount + 1) bb)"

definition makeAlphanumeric :: "string \<Rightarrow> qr_error + QrSegment" where
  "makeAlphanumeric text =
     bindE (alphanumeric_loop text 0 0 0 []) (\<lambda>(accumData, accumCount, charCount, bb).
       bindE (if accumCount > 0 then appendBits (of_int accumData) 6 bb else Inr bb) (\<lambda>bb.
         Inr \<lparr>seg_mode = ALPHANUMERIC, seg_numChars = charCount, seg_data = bb\<rparr>))"

fun isNumeric :: "string \<Rightarrow> bool" where
  "isNumeric [] = True"
| "isNumeric (c # text) = (if (of_char c :: int) < 48 \<or> (of_char c :: int) > 57 then False else isNumeric text)"

fun isAlphanumeric :: "string \<Rightarrow> bool" where
  "isAlphanumeric [] = True"
| "isAlphanumeric (c # text) = (if strchr_charset c = None then False else isAlphanumeric text)"

definition makeSegments :: "string \<Rightarrow> qr_error + QrSegment list" where
  "makeSegments text =
     (if text = [] then Inr []
      else if isNumeric text then bindE (makeNumeric text) (\<lambda>s. Inr [s])
      else if isAlphanumeric text then bindE (makeAlphanumeric text) (\<lambda>s. Inr [s])
      else bindE (makeBytes (map of_char text)) (\<lambda>s. Inr [s]))"

definition makeEci :: "int \<Rightarrow> qr_error + QrSegment" where
  "makeEci assignVal =
     bindE (if assignVal < 0 then Inl (DomainError ''ECI assignment value out of range'')
            else if assignVal < 2 ^ 7 then appendBits (of_int assignVal) 8 []
            else if assignVal < 2 ^ 14 then bindE (appendBits 2 2 []) (appendBits (of_int assignVal) 14)
            else if assignVal < 1000000 then bindE (appendBits 6 3 []) (appendBits (of_int assignVal) 21)
            else Inl (DomainError ''ECI assignment value out of range''))
       (\<lambda>bb. Inr \<lparr>seg_mode = ECI, seg_numChars = 0, seg_data = bb\<rparr>)"

subsection \<open>The length of segments\<close>

fun total_bits :: "QrSegment list \<Rightarrow> nat \<Rightarrow> int \<Rightarrow> int" where
  "total_bits [] version result = result"
| "total_bits (seg # segs) version result =
     (let ccbits = numCharCountBits (seg_mode seg) version
      in if int (seg_numChars seg) \<ge> 2 ^ ccbits then -1
         else if 4 + int ccbits > INT_MAX - result then -1
         else let result = result + (4 + int ccbits)
              in if int (length (seg_data seg)) > INT_MAX - result then -1
                 else total_bits segs version (result + int (length (seg_data seg))))"

definition getTotalBits :: "QrSegment list \<Rightarrow> nat \<Rightarrow> int" where
  "getTotalBits segs version = total_bits segs version 0"

text \<open>The bits of all segments behind each other, as \<open>encodeSegments\<close> lays them out.\<close>

fun segments_bits :: "QrSegment list \<Rightarrow> nat \<Rightarrow> bits \<Rightarrow> qr_error + bits" where
  "segments_bits [] version bb = Inr bb"
| "segments_bits (seg # segs) version bb =
     bindE (appendBits (of_nat (getModeBits (seg_mode seg))) 4 bb) (\<lambda>bb.
     bindE (appendBits (of_nat (seg_numChars seg)) (int (numCharCountBits (seg_mode seg) version)) bb) (\<lambda>bb.
       segments_bits segs version (bb @ seg_data seg)))"

subsection \<open>Reading a segment\<close>

definition digit_char :: "nat \<Rightarrow> char" where
  "digit_char d = char_of (48 + d)"

fun read_numeric :: "nat \<Rightarrow> bits \<Rightarrow> string" where
  "read_numeric 0 bs = []"
| "read_numeric (Suc 0) bs = [digit_char (val_of (take 4 bs))]"
| "read_numeric (Suc (Suc 0)) bs = (let v = val_of (take 7 bs) in [digit_char (v div 10), digit_char (v mod 10)])"
| "read_numeric (Suc (Suc (Suc n))) bs =
     (let v = val_of (take 10 bs)
      in digit_char (v div 100) # digit_char (v div 10 mod 10) # digit_char (v mod 10) # read_numeric n (drop 10 bs))"

fun read_alphanumeric :: "nat \<Rightarrow> bits \<Rightarrow> string" where
  "read_alphanumeric 0 bs = []"
| "read_alphanumeric (Suc 0) bs = [ALPHANUMERIC_CHARSET ! val_of (take 6 bs)]"
| "read_alphanumeric (Suc (Suc n)) bs =
     (let v = val_of (take 11 bs)
      in ALPHANUMERIC_CHARSET ! (v div 45) # ALPHANUMERIC_CHARSET ! (v mod 45) # read_alphanumeric n (drop 11 bs))"

fun read_chars :: "nat \<Rightarrow> bits \<Rightarrow> string" where
  "read_chars 0 bs = []"
| "read_chars (Suc n) bs = char_of (val_of (take 8 bs)) # read_chars n (drop 8 bs)"

text \<open>The text of a code with one segment, or with none: the mode, the count, the characters; a mode of
  zero is the terminator.\<close>

definition read_text :: "nat \<Rightarrow> bits \<Rightarrow> string option" where
  "read_text version bs =
     (let m = val_of (take 4 bs);
          body = (\<lambda>mode f. let k = numCharCountBits mode version
                           in Some (f (val_of (take k (drop 4 bs))) (drop k (drop 4 bs))))
      in if m = 0 then Some []
         else if m = 1 then body NUMERIC read_numeric
         else if m = 2 then body ALPHANUMERIC read_alphanumeric
         else if m = 4 then body BYTE read_chars
         else None)"

subsection \<open>What the loops write\<close>

definition digit_val :: "char \<Rightarrow> nat" where
  "digit_val c = of_char c - 48"

lemma of_char_word: "(of_char c :: 'a :: len word) = of_nat (of_char c)"
  by (simp only: of_nat_of_char)

lemma of_char_int: "(of_char c :: int) = int (of_char c)"
  by (simp only: of_nat_of_char)

lemma digit_facts:
  assumes "\<not> (of_char c < (48 :: int) \<or> of_char c > (57 :: int))"
  shows "of_char c - (48 :: int) = int (digit_val c)" "digit_val c < 10" "digit_char (digit_val c) = c"
proof -
  from assms have n: "48 \<le> (of_char c :: nat)" "(of_char c :: nat) \<le> 57" unfolding of_char_int by linarith+
  then show "of_char c - (48 :: int) = int (digit_val c)" "digit_val c < 10"
    unfolding digit_val_def of_char_int by linarith+
  have "48 + digit_val c = of_char c" using n by (simp add: digit_val_def)
  then show "digit_char (digit_val c) = c" by (simp add: digit_char_def)
qed

fun numeric_bits :: "string \<Rightarrow> bits" where
  "numeric_bits [] = []"
| "numeric_bits [a] = bits_of 4 (digit_val a)"
| "numeric_bits [a, b] = bits_of 7 (digit_val a * 10 + digit_val b)"
| "numeric_bits (a # b # c # r) = bits_of 10 (digit_val a * 100 + digit_val b * 10 + digit_val c) @ numeric_bits r"

definition numeric_finish :: "int \<times> nat \<times> nat \<times> bits \<Rightarrow> qr_error + QrSegment" where
  "numeric_finish = (\<lambda>(accumData, accumCount, charCount, bb).
       bindE (if accumCount > 0 then appendBits (of_int accumData) (int accumCount * 3 + 1) bb else Inr bb) (\<lambda>bb.
         Inr \<lparr>seg_mode = NUMERIC, seg_numChars = charCount, seg_data = bb\<rparr>))"

lemma appendBits_value:
  "v = int n \<Longrightarrow> l = int k \<Longrightarrow> n < 2 ^ k \<Longrightarrow> k \<le> 31 \<Longrightarrow> appendBits (of_int v) l bb = Inr (bb @ bits_of k n)"
  using appendBits_nat [of n k bb] by simp

lemma numeric_loop_finish:
  "isNumeric t \<Longrightarrow> bindE (numeric_loop t 0 0 n bb) numeric_finish
     = Inr \<lparr>seg_mode = NUMERIC, seg_numChars = n + length t, seg_data = bb @ numeric_bits t\<rparr>"
proof (induction t arbitrary: n bb rule: list_induct_block3)
  case 1
  then show ?case by (simp add: numeric_finish_def)
next
  case (2 a)
  then have a: "\<not> (of_char a < (48 :: int) \<or> of_char a > (57 :: int))" by (auto split: if_splits)
  note f = digit_facts [OF a]
  have "appendBits (of_int (of_char a - 48)) 4 bb = Inr (bb @ bits_of 4 (digit_val a))"
    by (rule appendBits_value) (use f in auto)
  with a show ?case by (simp add: numeric_finish_def Let_def del: of_int_diff)
next
  case (3 a b)
  then have a: "\<not> (of_char a < (48 :: int) \<or> of_char a > (57 :: int))" "\<not> (of_char b < (48 :: int) \<or> of_char b > (57 :: int))"
    by (auto split: if_splits)
  note f = digit_facts [OF a(1)] digit_facts [OF a(2)]
  have "appendBits (of_int ((of_char a - 48) * 10 + (of_char b - 48))) 7 bb = Inr (bb @ bits_of 7 (digit_val a * 10 + digit_val b))"
    by (rule appendBits_value) (use f in auto)
  with a show ?case by (simp add: numeric_finish_def Let_def del: of_int_diff of_int_add of_int_mult)
next
  case (4 a b c r)
  then have a: "\<not> (of_char a < (48 :: int) \<or> of_char a > (57 :: int))" "\<not> (of_char b < (48 :: int) \<or> of_char b > (57 :: int))"
    "\<not> (of_char c < (48 :: int) \<or> of_char c > (57 :: int))" and r: "isNumeric r"
    by (auto split: if_splits)
  note f = digit_facts [OF a(1)] digit_facts [OF a(2)] digit_facts [OF a(3)]
  have "appendBits (of_int (((of_char a - 48) * 10 + (of_char b - 48)) * 10 + (of_char c - 48))) 10 bb
      = Inr (bb @ bits_of 10 (digit_val a * 100 + digit_val b * 10 + digit_val c))"
    by (rule appendBits_value) (use f in auto)
  with a "4.IH" [OF r, of "Suc (Suc (Suc n))"] show ?case
    by (simp add: Let_def del: of_int_diff of_int_add of_int_mult)
qed

lemma three_digits:
  assumes "a < 10" "b < 10" "c < (10 :: nat)"
  shows "(a * 100 + b * 10 + c) div 100 = a" "(a * 100 + b * 10 + c) div 10 mod 10 = b" "(a * 100 + b * 10 + c) mod 10 = c"
proof -
  have d: "(a * 100 + b * 10 + c) div 10 = b + a * 10"
    by (rule div_nat_eqI) (use assms in simp_all)
  show "(a * 100 + b * 10 + c) div 100 = a" by (rule div_nat_eqI) (use assms in simp_all)
  show "(a * 100 + b * 10 + c) div 10 mod 10 = b" unfolding d mod_mult_self1 using assms by simp
  have "a * 100 + b * 10 + c = c + (b + a * 10) * 10" by simp
  then show "(a * 100 + b * 10 + c) mod 10 = c" using assms by (simp only: mod_mult_self1 mod_less)
qed

lemma read_numeric_bits: "isNumeric t \<Longrightarrow> read_numeric (length t) (numeric_bits t @ r) = t"
proof (induction t rule: list_induct_block3)
  case (2 a)
  then have "\<not> (of_char a < (48 :: int) \<or> of_char a > (57 :: int))" by (auto split: if_splits)
  from digit_facts [OF this] show ?case by (simp add: val_bits_of)
next
  case (3 a b)
  then have a: "\<not> (of_char a < (48 :: int) \<or> of_char a > (57 :: int))" "\<not> (of_char b < (48 :: int) \<or> of_char b > (57 :: int))"
    by (auto split: if_splits)
  note f = digit_facts [OF a(1)] digit_facts [OF a(2)]
  have "val_of (bits_of 7 (digit_val a * 10 + digit_val b)) = digit_val a * 10 + digit_val b"
    by (rule val_bits_of) (use f in auto)
  with f show ?case by (simp add: Let_def numeral_2_eq_2)
next
  case (4 a b c r')
  then have a: "\<not> (of_char a < (48 :: int) \<or> of_char a > (57 :: int))" "\<not> (of_char b < (48 :: int) \<or> of_char b > (57 :: int))"
    "\<not> (of_char c < (48 :: int) \<or> of_char c > (57 :: int))" and r: "isNumeric r'"
    by (auto split: if_splits)
  note f = digit_facts [OF a(1)] digit_facts [OF a(2)] digit_facts [OF a(3)]
  let ?v = "digit_val a * 100 + digit_val b * 10 + digit_val c"
  have v: "val_of (bits_of 10 ?v) = ?v" by (rule val_bits_of) (use f in auto)
  note d = three_digits [OF f(2,5,8)]
  from f d v "4.IH" [OF r] show ?case by (simp add: Let_def)
qed simp

text \<open>The same for the other two modes.\<close>

definition charset_val :: "char \<Rightarrow> nat" where
  "charset_val c = the (strchr_charset c)"

lemma find_if_nth: "find_if P xs i = Some k \<Longrightarrow> i \<le> k \<and> k < i + length xs \<and> P (xs ! (k - i))"
proof (induction xs arbitrary: i)
  case (Cons x xs)
  show ?case
  proof (cases "P x")
    case False
    with Cons.prems have "find_if P xs (Suc i) = Some k" by simp
    from Cons.IH [OF this] have k: "Suc i \<le> k" "k < Suc i + length xs" "P (xs ! (k - Suc i))" by blast+
    then have "k - i = Suc (k - Suc i)" by linarith
    with k show ?thesis by simp
  qed (use Cons.prems in simp)
qed simp

lemma charset_facts:
  assumes "strchr_charset c \<noteq> None"
  shows "strchr_charset c = Some (charset_val c)" "charset_val c < 45" "ALPHANUMERIC_CHARSET ! charset_val c = c"
proof -
  from assms show s: "strchr_charset c = Some (charset_val c)" by (auto simp: charset_val_def)
  have "length ALPHANUMERIC_CHARSET = 45" by (simp add: ALPHANUMERIC_CHARSET_def)
  with find_if_nth [OF s [unfolded strchr_charset_def chr_find_def]]
  show "charset_val c < 45" "ALPHANUMERIC_CHARSET ! charset_val c = c" by simp_all
qed

fun alphanumeric_bits :: "string \<Rightarrow> bits" where
  "alphanumeric_bits [] = []"
| "alphanumeric_bits [a] = bits_of 6 (charset_val a)"
| "alphanumeric_bits (a # b # r) = bits_of 11 (charset_val a * 45 + charset_val b) @ alphanumeric_bits r"

definition alphanumeric_finish :: "int \<times> nat \<times> nat \<times> bits \<Rightarrow> qr_error + QrSegment" where
  "alphanumeric_finish = (\<lambda>(accumData, accumCount, charCount, bb).
       bindE (if accumCount > 0 then appendBits (of_int accumData) 6 bb else Inr bb) (\<lambda>bb.
         Inr \<lparr>seg_mode = ALPHANUMERIC, seg_numChars = charCount, seg_data = bb\<rparr>))"

lemma list_induct_block2:
  "P [] \<Longrightarrow> (\<And>a. P [a]) \<Longrightarrow> (\<And>a b r. P r \<Longrightarrow> P (a # b # r)) \<Longrightarrow> P xs"
  by induction_schema (pat_completeness, lexicographic_order)

lemma isAlphanumeric_iff: "isAlphanumeric t \<longleftrightarrow> (\<forall>c \<in> set t. strchr_charset c \<noteq> None)"
  by (induction t) auto

lemma alphanumeric_loop_finish:
  "isAlphanumeric t \<Longrightarrow> bindE (alphanumeric_loop t 0 0 n bb) alphanumeric_finish
     = Inr \<lparr>seg_mode = ALPHANUMERIC, seg_numChars = n + length t, seg_data = bb @ alphanumeric_bits t\<rparr>"
proof (induction t arbitrary: n bb rule: list_induct_block2)
  case 1
  then show ?case by (simp add: alphanumeric_finish_def)
next
  case (2 a)
  then have "strchr_charset a \<noteq> None" by (simp add: isAlphanumeric_iff)
  note f = charset_facts [OF this]
  have "appendBits (of_int (int (charset_val a))) 6 bb = Inr (bb @ bits_of 6 (charset_val a))"
    by (rule appendBits_value) (use f in auto)
  with f(1) show ?case by (simp add: alphanumeric_finish_def Let_def)
next
  case (3 a b r)
  then have a: "strchr_charset a \<noteq> None" "strchr_charset b \<noteq> None" and r: "isAlphanumeric r"
    by (simp_all add: isAlphanumeric_iff)
  note f = charset_facts [OF a(1)] charset_facts [OF a(2)]
  have "appendBits (of_int (int (charset_val a) * 45 + int (charset_val b))) 11 bb
      = Inr (bb @ bits_of 11 (charset_val a * 45 + charset_val b))"
    by (rule appendBits_value) (use f in auto)
  with f(1,4) "3.IH" [OF r, of "Suc (Suc n)"] show ?case
    by (simp add: Let_def del: of_int_add of_int_mult)
qed

lemma read_alphanumeric_bits: "isAlphanumeric t \<Longrightarrow> read_alphanumeric (length t) (alphanumeric_bits t @ r) = t"
proof (induction t rule: list_induct_block2)
  case (2 a)
  then have "strchr_charset a \<noteq> None" by (simp add: isAlphanumeric_iff)
  from charset_facts [OF this] show ?case by (simp add: val_bits_of)
next
  case (3 a b r')
  then have a: "strchr_charset a \<noteq> None" "strchr_charset b \<noteq> None" and r: "isAlphanumeric r'"
    by (simp_all add: isAlphanumeric_iff)
  note f = charset_facts [OF a(1)] charset_facts [OF a(2)]
  have v: "val_of (bits_of 11 (charset_val a * 45 + charset_val b)) = charset_val a * 45 + charset_val b"
    by (rule val_bits_of) (use f in auto)
  from f v "3.IH" [OF r] show ?case by (simp add: Let_def)
qed simp

lemma append_bytes8_bits: "append_bytes8 bs bb = Inr (bb @ bytes_bits bs)"
proof (induction bs arbitrary: bb)
  case (Cons b bs)
  have "appendBits (of_int (int (unat b))) 8 bb = Inr (bb @ bits_of 8 (unat b))"
    by (rule appendBits_value) simp_all
  then have "appendBits (ucast b) 8 bb = Inr (bb @ byte_bits_of b)" by (simp add: byte_bits_of_def)
  with Cons show ?case by (simp add: bytes_bits_def)
qed (simp add: bytes_bits_def)

lemma read_chars_bytes: "read_chars (length t) (bytes_bits (map of_char t) @ r) = t"
proof (induction t)
  case (Cons c t)
  have "unat (of_char c :: u8) = of_char c"
    unfolding of_char_word by (simp add: unat_of_nat_u8)
  then have "val_of (byte_bits_of (of_char c)) = of_char c" by (simp add: byte_bits_of_def val_bits_of)
  with Cons show ?case by (simp add: bytes_bits_def)
qed simp

subsection \<open>Lengths and the laid-out bits\<close>

text \<open>The modes of the class; their counts have at most sixteen bits.\<close>

definition known_mode :: "qr_mode \<Rightarrow> bool" where
  "known_mode m \<longleftrightarrow> m \<in> {NUMERIC, ALPHANUMERIC, BYTE, KANJI, ECI}"

lemma version_band: "1 \<le> ver \<Longrightarrow> ver \<le> (40 :: nat) \<Longrightarrow> (ver + 7) div 17 \<in> {0, 1, 2}"
proof -
  assume v: "1 \<le> ver" "ver \<le> 40"
  then have "(ver + 7) div 17 < 3" by (simp add: div_less_iff_less_mult)
  then show ?thesis by auto
qed

lemma known_mode_bounds:
  assumes "known_mode m" "1 \<le> ver" "ver \<le> 40"
  shows "getModeBits m < 16 \<and> numCharCountBits m ver \<le> 16"
  using assms(1) version_band [OF assms(2,3)]
  by (auto simp: known_mode_def NUMERIC_def ALPHANUMERIC_def BYTE_def KANJI_def ECI_def getModeBits_def
      numCharCountBits_def)

definition seg_bits :: "nat \<Rightarrow> QrSegment \<Rightarrow> bits" where
  "seg_bits ver s = bits_of 4 (getModeBits (seg_mode s))
     @ bits_of (numCharCountBits (seg_mode s) ver) (seg_numChars s) @ seg_data s"

lemma total_bits_layout:
  assumes "list_all (known_mode \<circ> seg_mode) segs" "1 \<le> ver" "ver \<le> 40"
  shows "0 \<le> r \<Longrightarrow> total_bits segs ver r \<noteq> -1 \<Longrightarrow>
     segments_bits segs ver bb = Inr (bb @ concat (map (seg_bits ver) segs))
     \<and> total_bits segs ver r = r + int (length (concat (map (seg_bits ver) segs)))"
  using assms(1)
proof (induction segs arbitrary: r bb)
  case (Cons s segs)
  let ?cc = "numCharCountBits (seg_mode s) ver"
  have m: "getModeBits (seg_mode s) < 16" "?cc \<le> 16" using known_mode_bounds assms(2,3) Cons.prems(3) by auto
  have t: "\<not> int (seg_numChars s) \<ge> 2 ^ ?cc"
    and e: "total_bits (s # segs) ver r = total_bits segs ver (r + (4 + int ?cc) + int (length (seg_data s)))"
    using Cons.prems(2) by (simp_all add: Let_def split: if_splits)
  have "\<not> int (2 ^ ?cc) \<le> int (seg_numChars s)" using t by simp
  then have n: "seg_numChars s < 2 ^ ?cc" by (simp only: of_nat_le_iff not_le)
  have a1: "appendBits (of_nat (getModeBits (seg_mode s))) 4 b = Inr (b @ bits_of 4 (getModeBits (seg_mode s)))" for b
    using appendBits_nat [of _ 4] m(1) by simp
  have a2: "appendBits (of_nat (seg_numChars s)) (int ?cc) b = Inr (b @ bits_of ?cc (seg_numChars s))" for b
    by (rule appendBits_nat) (use n m(2) in auto)
  from Cons.IH [of "r + (4 + int ?cc) + int (length (seg_data s))"
      "bb @ bits_of 4 (getModeBits (seg_mode s)) @ bits_of ?cc (seg_numChars s) @ seg_data s"] Cons.prems e
  show ?case by (simp add: a1 a2 seg_bits_def del: total_bits.simps)
qed simp

lemma getTotalBits_single:
  assumes "seg_numChars s < 2 ^ numCharCountBits (seg_mode s) ver" "numCharCountBits (seg_mode s) ver \<le> 16"
    "length (seg_data s) \<le> 2000000000"
  shows "getTotalBits [s] ver = int (4 + numCharCountBits (seg_mode s) ver + length (seg_data s))"
proof -
  have "int (seg_numChars s) < int (2 ^ numCharCountBits (seg_mode s) ver)"
    using assms(1) by (simp only: of_nat_less_iff)
  then have "\<not> int (seg_numChars s) \<ge> 2 ^ numCharCountBits (seg_mode s) ver" by simp
  with assms(2,3) show ?thesis by (simp add: getTotalBits_def Let_def INT_MAX_def)
qed

subsection \<open>A text and its segment\<close>

lemma length_numeric_bits: "length (numeric_bits t) \<le> 4 * length t"
  by (induction t rule: numeric_bits.induct) auto

lemma length_alphanumeric_bits: "length (alphanumeric_bits t) \<le> 6 * length t"
  by (induction t rule: alphanumeric_bits.induct) auto

lemma read_text_segment:
  assumes "m \<in> {NUMERIC, ALPHANUMERIC, BYTE}" "n < 2 ^ numCharCountBits m ver" "body = (if m = NUMERIC then read_numeric
      else if m = ALPHANUMERIC then read_alphanumeric else read_chars)"
  shows "read_text ver (seg_bits ver \<lparr>seg_mode = m, seg_numChars = n, seg_data = d\<rparr> @ r) = Some (body n (d @ r))"
proof -
  let ?cc = "numCharCountBits m ver"
  define bs where "bs = seg_bits ver \<lparr>seg_mode = m, seg_numChars = n, seg_data = d\<rparr> @ r"
  have "getModeBits m < 2 ^ 4" using assms(1) by (auto simp: NUMERIC_def ALPHANUMERIC_def BYTE_def getModeBits_def)
  then have "val_of (bits_of 4 (getModeBits m)) = getModeBits m" by (rule val_bits_of)
  then have 1: "val_of (take 4 bs) = getModeBits m" by (simp add: seg_bits_def bs_def)
  have "drop 4 bs = bits_of ?cc n @ d @ r" by (simp add: seg_bits_def bs_def)
  then have 2: "val_of (take ?cc (drop 4 bs)) = n" "drop ?cc (drop 4 bs) = d @ r"
    using val_bits_of [OF assms(2)] by (simp_all del: drop_drop)
  have ne: "ALPHANUMERIC \<noteq> NUMERIC" "BYTE \<noteq> NUMERIC" "BYTE \<noteq> ALPHANUMERIC"
    by (simp_all add: NUMERIC_def ALPHANUMERIC_def BYTE_def)
  consider "m = NUMERIC" "getModeBits m = 1" | "m = ALPHANUMERIC" "getModeBits m = 2" | "m = BYTE" "getModeBits m = 4"
    using assms(1) by (auto simp: getModeBits_def NUMERIC_def ALPHANUMERIC_def BYTE_def)
  then have "read_text ver bs = Some (body n (d @ r))"
    by cases (use 1 2 in \<open>simp_all add: read_text_def assms(3) ne Let_def del: drop_drop\<close>)
  then show ?thesis by (simp only: bs_def)
qed

lemma makeSegments_total: "int (length t) \<le> INT_MAX \<Longrightarrow> \<exists>segs. makeSegments t = Inr segs"
proof -
  assume l: "int (length t) \<le> INT_MAX"
  have "isNumeric t \<Longrightarrow> \<exists>s. makeNumeric t = Inr s"
    using numeric_loop_finish [of t 0 "[]"] by (auto simp: makeNumeric_def numeric_finish_def)
  moreover have "isAlphanumeric t \<Longrightarrow> \<exists>s. makeAlphanumeric t = Inr s"
    using alphanumeric_loop_finish [of t 0 "[]"] by (auto simp: makeAlphanumeric_def alphanumeric_finish_def)
  ultimately show ?thesis using l by (auto simp: makeSegments_def makeBytes_def append_bytes8_bits)
qed

lemma makeSegments_text:
  assumes "t \<noteq> []" "makeSegments t = Inr segs"
  shows "\<exists>m d. segs = [\<lparr>seg_mode = m, seg_numChars = length t, seg_data = d\<rparr>]
     \<and> m \<in> {NUMERIC, ALPHANUMERIC, BYTE} \<and> length d \<le> 8 * length t
     \<and> (\<forall>ver r. length t < 2 ^ numCharCountBits m ver \<longrightarrow>
          read_text ver (seg_bits ver \<lparr>seg_mode = m, seg_numChars = length t, seg_data = d\<rparr> @ r) = Some t)"
proof -
  have ne: "ALPHANUMERIC \<noteq> NUMERIC" "BYTE \<noteq> NUMERIC" "BYTE \<noteq> ALPHANUMERIC"
    by (simp_all add: NUMERIC_def ALPHANUMERIC_def BYTE_def)
  consider (num) "isNumeric t" | (alpha) "\<not> isNumeric t" "isAlphanumeric t" | (bytes) "\<not> isNumeric t" "\<not> isAlphanumeric t"
    by blast
  then show ?thesis
  proof cases
    case num
    have "makeNumeric t = bindE (numeric_loop t 0 0 0 []) numeric_finish"
      by (simp add: makeNumeric_def numeric_finish_def)
    with numeric_loop_finish [OF num, of 0 "[]"]
    have "makeSegments t = Inr [\<lparr>seg_mode = NUMERIC, seg_numChars = length t, seg_data = numeric_bits t\<rparr>]"
      using assms(1) num by (simp add: makeSegments_def)
    with assms(2) length_numeric_bits [of t] show ?thesis
      by (intro exI [of _ NUMERIC] exI [of _ "numeric_bits t"])
        (auto simp: read_text_segment [OF _ _ refl] read_numeric_bits [OF num])
  next
    case alpha
    have "makeAlphanumeric t = bindE (alphanumeric_loop t 0 0 0 []) alphanumeric_finish"
      by (simp add: makeAlphanumeric_def alphanumeric_finish_def)
    with alphanumeric_loop_finish [OF alpha(2), of 0 "[]"]
    have "makeSegments t = Inr [\<lparr>seg_mode = ALPHANUMERIC, seg_numChars = length t, seg_data = alphanumeric_bits t\<rparr>]"
      using assms(1) alpha by (simp add: makeSegments_def)
    with assms(2) length_alphanumeric_bits [of t] show ?thesis
      by (intro exI [of _ ALPHANUMERIC] exI [of _ "alphanumeric_bits t"])
        (auto simp: ne read_text_segment [OF _ _ refl] read_alphanumeric_bits [OF alpha(2)])
  next
    case bytes
    have "\<not> int (length t) > INT_MAX" using assms bytes by (auto simp: makeSegments_def makeBytes_def)
    then have "makeBytes (map of_char t) = Inr \<lparr>seg_mode = BYTE, seg_numChars = length t, seg_data = bytes_bits (map of_char t)\<rparr>"
      by (simp add: makeBytes_def append_bytes8_bits)
    then have "makeSegments t = Inr [\<lparr>seg_mode = BYTE, seg_numChars = length t, seg_data = bytes_bits (map of_char t)\<rparr>]"
      using assms(1) bytes by (simp add: makeSegments_def)
    with assms(2) show ?thesis
      by (intro exI [of _ BYTE] exI [of _ "bytes_bits (map of_char t)"])
        (auto simp: ne read_text_segment [OF _ _ refl] read_chars_bytes)
  qed
qed

lemma read_text_terminator: "read_text ver (replicate 4 False @ r) = Some []"
  by (simp add: read_text_def val_of_def Let_def numeral_eq_Suc)

end
