(* ===== verification/QrReedSolomon.thy ===== *)
theory QrReedSolomon
  imports QrBits
begin

text \<open>
  The error correction of the QR code, in \<open>credential_provider/qrcodegen.cpp\<close>: multiplication in the
  field with 256 elements, the generator polynomial and the remainder.  A polynomial is the list
  of its coefficients, highest first.

  \<open>gf_mul\<close> is the multiplication on bytes, Horner's rule with \<open>xtime\<close>; it is commutative, associative
  and distributes over exclusive or, so that evaluation of polynomials behaves as it should.
\<close>

subsection \<open>The code\<close>

definition rs_step :: "u8 \<Rightarrow> u8 \<Rightarrow> nat \<Rightarrow> int \<Rightarrow> int" where
  "rs_step x y i z =
     (let z = push_bit 1 z XOR (drop_bit 7 z * 0x11D)
      in z XOR (uint (drop_bit i y AND 1) * uint x))"

definition reedSolomonMultiply :: "u8 \<Rightarrow> u8 \<Rightarrow> u8" where
  "reedSolomonMultiply x y = of_int (fold (rs_step x y) (rev [0..<8]) 0)"

text \<open>One pass over the coefficients, in place from the first: each is multiplied by the root and takes
  its old right neighbour.\<close>

fun divisor_pass :: "u8 \<Rightarrow> bytes \<Rightarrow> bytes" where
  "divisor_pass root [] = []"
| "divisor_pass root [c] = [reedSolomonMultiply c root]"
| "divisor_pass root (c # d # r) = (reedSolomonMultiply c root XOR d) # divisor_pass root (d # r)"

fun divisor_loop :: "nat \<Rightarrow> u8 \<Rightarrow> bytes \<Rightarrow> bytes" where
  "divisor_loop 0 root result = result"
| "divisor_loop (Suc n) root result = divisor_loop n (reedSolomonMultiply root 2) (divisor_pass root result)"

definition reedSolomonComputeDivisor :: "int \<Rightarrow> qr_error + bytes" where
  "reedSolomonComputeDivisor degree =
     (if degree < 1 \<or> degree > 255 then Inl (DomainError ''Degree out of range'')
      else Inr (divisor_loop (nat degree) 1 ((replicate (nat degree) 0)[nat degree - 1 := 1])))"

definition remainder_step :: "bytes \<Rightarrow> u8 \<Rightarrow> bytes \<Rightarrow> bytes" where
  "remainder_step divisor factor result = map2 (\<lambda>r d. r XOR reedSolomonMultiply d factor) result divisor"

fun remainder_loop :: "bytes \<Rightarrow> bytes \<Rightarrow> bytes \<Rightarrow> qr_error + bytes" where
  "remainder_loop divisor [] result = Inr result"
| "remainder_loop divisor (b # data) result =
     (case result of
        [] \<Rightarrow> Inl OutOfRange
      | r # rs \<Rightarrow> remainder_loop divisor data (remainder_step divisor (b XOR r) (rs @ [0])))"

definition reedSolomonComputeRemainder :: "bytes \<Rightarrow> bytes \<Rightarrow> qr_error + bytes" where
  "reedSolomonComputeRemainder data divisor = remainder_loop divisor data (replicate (length divisor) 0)"

subsection \<open>The field\<close>

definition xtime :: "u8 \<Rightarrow> u8" where
  "xtime z = push_bit 1 z XOR (if bit z 7 then 0x1D else 0)"

definition gf_step :: "u8 \<Rightarrow> u8 \<Rightarrow> nat \<Rightarrow> u8 \<Rightarrow> u8" where
  "gf_step x y i z = xtime z XOR (if bit y i then x else 0)"

definition gf_mul :: "u8 \<Rightarrow> u8 \<Rightarrow> u8" where
  "gf_mul x y = fold (gf_step x y) (rev [0..<8]) 0"

lemma shift_reduces: "push_bit 1 (uint w) XOR (drop_bit 7 (uint w) * 0x11D) = uint (xtime w)"
proof -
  have "list_all (\<lambda>n. push_bit 1 (int n) XOR (drop_bit 7 (int n) * 0x11D) = uint (xtime (of_nat n))) [0..<256]"
    by code_simp
  from list_all_setD [OF this, of "unat w"]
  have "push_bit 1 (int (unat w)) XOR (drop_bit 7 (int (unat w)) * 0x11D) = uint (xtime (of_nat (unat w)))" by simp
  then show ?thesis by (simp only: uint_nat [symmetric] of_nat_unat_u8)
qed

lemma rs_step_uint: "rs_step x y i (uint z) = uint (gf_step x y i z)"
proof -
  have "uint (drop_bit i y AND 1) = of_bool (bit y i)"
    by (simp add: and_one_eq bit_iff_odd_drop_bit odd_iff_mod_2_eq_one)
  then show ?thesis by (simp only: rs_step_def Let_def shift_reduces) (simp add: gf_step_def unsigned_xor_eq)
qed

lemma rs_fold_uint: "fold (rs_step x y) is (uint z) = uint (fold (gf_step x y) is z)"
  by (induction "is" arbitrary: z) (simp_all add: rs_step_uint)

text \<open>The assertion in the code: the product stays in a byte.\<close>

lemma reedSolomonMultiply_byte: "fold (rs_step x y) (rev [0..<8]) 0 = uint (gf_mul x y)"
  using rs_fold_uint [of x y "rev [0..<8]" 0] by (simp add: gf_mul_def)

lemma reedSolomonMultiply_gf: "reedSolomonMultiply x y = gf_mul x y"
  by (simp add: reedSolomonMultiply_def reedSolomonMultiply_byte)

lemma xtime_xor: "xtime (a XOR b) = xtime a XOR xtime b"
  by (rule bit_eqI) (auto simp: xtime_def bit_xor_iff bit_push_bit_iff)

lemma xtime_zero [simp]: "xtime 0 = 0"
  by (simp add: xtime_def)

text \<open>A map that respects exclusive or and \<open>xtime\<close> passes through a product.\<close>

lemma gf_fold_linear:
  assumes "\<And>a b. f (a XOR b) = f a XOR f b" "\<And>a. f (xtime a) = xtime (f a)"
  shows "f (fold (gf_step x y) is z) = fold (gf_step (f x) y) is (f z)"
proof (induction "is" arbitrary: z)
  case (Cons i "is")
  have "f 0 = 0" using assms(1) [of 0 0] by simp
  then have "f (gf_step x y i z) = gf_step (f x) y i (f z)" by (simp add: gf_step_def assms)
  with Cons show ?case by simp
qed simp

lemma gf_mul_linear:
  assumes "\<And>a b. f (a XOR b) = f a XOR f b" "\<And>a. f (xtime a) = xtime (f a)"
  shows "f (gf_mul x y) = gf_mul (f x) y"
proof -
  have "f 0 = 0" using assms(1) [of 0 0] by simp
  with gf_fold_linear [of f x y _ 0] assms show ?thesis by (simp add: gf_mul_def)
qed

lemma gf_mul_xtime: "gf_mul (xtime x) y = xtime (gf_mul x y)"
  by (rule gf_mul_linear [symmetric]) (simp_all add: xtime_xor)

lemma gf_fold_xor:
  "fold (gf_step (a XOR b) y) is (z XOR w) = fold (gf_step a y) is z XOR fold (gf_step b y) is w"
proof (induction "is" arbitrary: z w)
  case (Cons i "is")
  have "gf_step (a XOR b) y i (z XOR w) = gf_step a y i z XOR gf_step b y i w"
    by (simp add: gf_step_def xtime_xor xor.assoc xor.left_commute)
  with Cons show ?case by simp
qed simp

lemma gf_mul_xor_left: "gf_mul (a XOR b) y = gf_mul a y XOR gf_mul b y"
  using gf_fold_xor [of a b y _ 0 0] by (simp add: gf_mul_def)

lemma gf_fold_one: "k \<le> 8 \<Longrightarrow> fold (gf_step 1 y) (rev [k..<8]) 0 = drop_bit k y"
proof (induction k rule: inc_induct)
  case base
  show ?case by (rule bit_eqI) (simp add: bit_drop_bit_eq bit_imp_le_length)
next
  case (step k)
  have "gf_step 1 y k (drop_bit (Suc k) y) = drop_bit k y"
  proof (rule bit_eqI)
    fix n
    assume n: "possible_bit TYPE(u8) n"
    have "\<not> bit y (Suc k + 7)" by (auto dest: bit_imp_le_length)
    then have x: "xtime (drop_bit (Suc k) y) = push_bit 1 (drop_bit (Suc k) y)"
      by (simp only: xtime_def bit_drop_bit_eq o_def if_False xor.right_neutral)
    show "bit (gf_step 1 y k (drop_bit (Suc k) y)) n = bit (drop_bit k y) n"
      unfolding gf_step_def x bit_xor_iff bit_push_bit_iff bit_drop_bit_eq o_def
      using n by (cases n) (auto simp: bit_1_iff)
  qed
  with step show ?case by (simp add: upt_conv_Cons)
qed

lemma gf_mul_one_left: "gf_mul 1 y = y"
  using gf_fold_one [of 0 y] by (simp add: gf_mul_def)

lemma gf_mul_permute: "gf_mul (gf_mul x y) z = gf_mul (gf_mul x z) y"
  by (rule gf_mul_linear [of "\<lambda>x. gf_mul x z"]) (simp_all add: gf_mul_xor_left gf_mul_xtime)

lemma gf_mul_commute: "gf_mul x y = gf_mul y x"
  using gf_mul_permute [of 1 x y] by (simp add: gf_mul_one_left)

lemma gf_mul_assoc: "gf_mul (gf_mul x y) z = gf_mul x (gf_mul y z)"
  by (metis gf_mul_permute gf_mul_commute)

lemma gf_mul_left_commute: "gf_mul x (gf_mul y z) = gf_mul y (gf_mul x z)"
  by (metis gf_mul_permute gf_mul_commute)

lemma gf_mul_xor_right: "gf_mul x (a XOR b) = gf_mul x a XOR gf_mul x b"
  by (simp add: gf_mul_commute [of x] gf_mul_xor_left)

lemma gf_mul_zero [simp]: "gf_mul 0 y = 0" "gf_mul x 0 = 0"
  using gf_mul_xor_left [of 0 0 y] gf_mul_xor_right [of x 0 0] by simp_all

lemma gf_mul_one [simp]: "gf_mul 1 y = y" "gf_mul x 1 = x"
  using gf_mul_one_left [of y] gf_mul_one_left [of x] gf_mul_commute [of x 1] by simp_all

lemmas gf_mul_distrib = gf_mul_xor_left gf_mul_xor_right
lemmas gf_mul_ac = gf_mul_assoc gf_mul_commute gf_mul_left_commute

end
