(* ===== verification/QrTables.thy ===== *)
theory QrTables
  imports QrBits
begin

text \<open>
  The sizes of a QR code in \<open>credential_provider/qrcodegen.cpp\<close>: versions, error correction levels, the
  tables of the standard, the number of modules that carry data, and the numbers of codewords.
\<close>

datatype Ecc = LOW | MEDIUM | QUARTILE | HIGH

definition ecl_index :: "Ecc \<Rightarrow> nat" where
  "ecl_index ecl = (case ecl of LOW \<Rightarrow> 0 | MEDIUM \<Rightarrow> 1 | QUARTILE \<Rightarrow> 2 | HIGH \<Rightarrow> 3)"

definition getFormatBits :: "Ecc \<Rightarrow> int" where
  "getFormatBits ecl = (case ecl of LOW \<Rightarrow> 1 | MEDIUM \<Rightarrow> 0 | QUARTILE \<Rightarrow> 3 | HIGH \<Rightarrow> 2)"

definition MIN_VERSION :: nat where "MIN_VERSION = 1"
definition MAX_VERSION :: nat where "MAX_VERSION = 40"

text \<open>Version 0 is padding with an illegal value.\<close>

definition ECC_CODEWORDS_PER_BLOCK :: "int list list" where
  "ECC_CODEWORDS_PER_BLOCK =
    [[-1, 7, 10, 15, 20, 26, 18, 20, 24, 30, 18, 20, 24, 26, 30, 22, 24, 28, 30, 28, 28, 28, 28,
      30, 30, 26, 28, 30, 30, 30, 30, 30, 30, 30, 30, 30, 30, 30, 30, 30, 30],
     [-1, 10, 16, 26, 18, 24, 16, 18, 22, 22, 26, 30, 22, 22, 24, 24, 28, 28, 26, 26, 26, 26, 28,
      28, 28, 28, 28, 28, 28, 28, 28, 28, 28, 28, 28, 28, 28, 28, 28, 28, 28],
     [-1, 13, 22, 18, 26, 18, 24, 18, 22, 20, 24, 28, 26, 24, 20, 30, 24, 28, 28, 26, 30, 28, 30,
      30, 30, 30, 28, 30, 30, 30, 30, 30, 30, 30, 30, 30, 30, 30, 30, 30, 30],
     [-1, 17, 28, 22, 16, 22, 28, 26, 26, 24, 28, 24, 28, 22, 24, 24, 30, 28, 28, 26, 28, 30, 24,
      30, 30, 30, 30, 30, 30, 30, 30, 30, 30, 30, 30, 30, 30, 30, 30, 30, 30]]"

definition NUM_ERROR_CORRECTION_BLOCKS :: "int list list" where
  "NUM_ERROR_CORRECTION_BLOCKS =
    [[-1, 1, 1, 1, 1, 1, 2, 2, 2, 2, 4, 4, 4, 4, 4, 6, 6, 6, 6, 7, 8, 8, 9, 9, 10, 12, 12, 12, 13,
      14, 15, 16, 17, 18, 19, 19, 20, 21, 22, 24, 25],
     [-1, 1, 1, 1, 2, 2, 4, 4, 4, 5, 5, 5, 8, 9, 9, 10, 10, 11, 13, 14, 16, 17, 17, 18, 20, 21, 23,
      25, 26, 28, 29, 31, 33, 35, 37, 38, 40, 43, 45, 47, 49],
     [-1, 1, 1, 2, 2, 4, 4, 6, 6, 8, 8, 8, 10, 12, 16, 12, 17, 16, 18, 21, 20, 23, 23, 25, 27, 29,
      34, 34, 35, 38, 40, 43, 45, 48, 51, 53, 56, 59, 62, 65, 68],
     [-1, 1, 1, 2, 4, 4, 4, 5, 6, 8, 8, 11, 11, 16, 16, 18, 16, 19, 21, 25, 25, 25, 34, 30, 32, 35,
      37, 40, 42, 45, 48, 51, 54, 57, 60, 63, 66, 70, 74, 77, 81]]"

definition ecc_per_block :: "Ecc \<Rightarrow> nat \<Rightarrow> int" where
  "ecc_per_block ecl ver = ECC_CODEWORDS_PER_BLOCK ! ecl_index ecl ! ver"

definition num_blocks :: "Ecc \<Rightarrow> nat \<Rightarrow> int" where
  "num_blocks ecl ver = NUM_ERROR_CORRECTION_BLOCKS ! ecl_index ecl ! ver"

definition raw_modules :: "nat \<Rightarrow> int" where
  "raw_modules ver =
     (let v = int ver; result = (16 * v + 128) * v + 64
      in if ver \<ge> 2
         then let numAlign = v div 7 + 2;
                  result = result - ((25 * numAlign - 10) * numAlign - 55)
              in if ver \<ge> 7 then result - 36 else result
         else result)"

definition getNumRawDataModules :: "nat \<Rightarrow> qr_error + int" where
  "getNumRawDataModules ver =
     (if ver < MIN_VERSION \<or> ver > MAX_VERSION then Inl (DomainError ''Version number out of range'')
      else Inr (raw_modules ver))"

definition data_codewords :: "nat \<Rightarrow> Ecc \<Rightarrow> int" where
  "data_codewords ver ecl = raw_modules ver div 8 - ecc_per_block ecl ver * num_blocks ecl ver"

definition getNumDataCodewords :: "nat \<Rightarrow> Ecc \<Rightarrow> qr_error + int" where
  "getNumDataCodewords ver ecl = bindE (getNumRawDataModules ver) (\<lambda>raw.
     Inr (raw div 8 - ecc_per_block ecl ver * num_blocks ecl ver))"

subsection \<open>The tables fit together\<close>

definition valid_version :: "nat \<Rightarrow> bool" where
  "valid_version ver \<longleftrightarrow> 1 \<le> ver \<and> ver \<le> 40"

lemma valid_version_set: "valid_version ver \<longleftrightarrow> ver \<in> set [1..<41]"
  by (auto simp: valid_version_def)

lemma getNumRawDataModules_valid [simp]: "valid_version ver \<Longrightarrow> getNumRawDataModules ver = Inr (raw_modules ver)"
  by (simp add: getNumRawDataModules_def valid_version_def MIN_VERSION_def MAX_VERSION_def)

lemma getNumDataCodewords_valid [simp]: "valid_version ver \<Longrightarrow> getNumDataCodewords ver ecl = Inr (data_codewords ver ecl)"
  by (simp add: getNumDataCodewords_def data_codewords_def)

definition sizes_ok :: "Ecc \<Rightarrow> nat \<Rightarrow> bool" where
  "sizes_ok ecl ver \<longleftrightarrow> 1 \<le> ecc_per_block ecl ver \<and> ecc_per_block ecl ver \<le> 30 \<and> 1 \<le> num_blocks ecl ver
     \<and> (ecc_per_block ecl ver + 1) * num_blocks ecl ver \<le> raw_modules ver div 8
     \<and> 208 \<le> raw_modules ver \<and> raw_modules ver \<le> 29648"

lemma sizes_ok_all: "list_all (\<lambda>ver. list_all (\<lambda>ecl. sizes_ok ecl ver) [LOW, MEDIUM, QUARTILE, HIGH]) [1..<41]"
  by code_simp

lemma sizes_valid: "valid_version ver \<Longrightarrow> sizes_ok ecl ver"
  using sizes_ok_all by (cases ecl) (simp_all add: valid_version_set list_all_iff)

text \<open>The largest code, of medium correction, holds 2334 codewords of data.\<close>

lemma largest_medium: "data_codewords 40 MEDIUM = 2334"
  by code_simp

end
