(* ===== verification/QrGrid.thy ===== *)
theory QrGrid
  imports QrTables
begin

text \<open>
  The grids of a QR code: \<open>vector<vector<bool> >\<close> of \<open>credential_provider/qrcodegen.cpp\<close>, rows of modules.
  What its client relies on is the contract of a two-dimensional array, the locale \<open>cell_array\<close>:
  drawing a list of cells leaves the colour of the last one at each place, and cells at different
  places can be drawn in any order.
\<close>

subsection \<open>The contract\<close>

text \<open>\<open>inside\<close>: the places of an array; \<open>sound\<close>: its well-formedness.\<close>

locale cell_array =
  fixes look :: "'g \<Rightarrow> 'p \<Rightarrow> bool" and put :: "'p \<Rightarrow> bool \<Rightarrow> 'g \<Rightarrow> 'g"
    and inside :: "'p \<Rightarrow> bool" and sound :: "'g \<Rightarrow> bool"
  assumes look_put: "sound g \<Longrightarrow> inside p \<Longrightarrow> inside q \<Longrightarrow> look (put p b g) q = (if q = p then b else look g q)"
    and sound_put: "sound g \<Longrightarrow> inside p \<Longrightarrow> sound (put p b g)"
    and look_ext: "sound g \<Longrightarrow> sound h \<Longrightarrow> (\<And>p. inside p \<Longrightarrow> look g p = look h p) \<Longrightarrow> g = h"
begin

definition put_all :: "('p \<times> bool) list \<Rightarrow> 'g \<Rightarrow> 'g" where
  "put_all cs g = fold (\<lambda>(p, b). put p b) cs g"

lemma put_all_simps [simp]: "put_all [] g = g" "put_all (c # cs) g = put_all cs (put (fst c) (snd c) g)"
  by (simp_all add: put_all_def split_beta)

lemma sound_put_all: "sound g \<Longrightarrow> list_all (inside \<circ> fst) cs \<Longrightarrow> sound (put_all cs g)"
  by (induction cs arbitrary: g) (simp_all add: sound_put)

lemma look_put_all:
  "sound g \<Longrightarrow> list_all (inside \<circ> fst) cs \<Longrightarrow> inside q \<Longrightarrow>
     look (put_all cs g) q = (case map_of (rev cs) q of Some b \<Rightarrow> b | None \<Rightarrow> look g q)"
proof (induction cs arbitrary: g)
  case (Cons c cs)
  then have "look (put_all (c # cs) g) q
      = (case map_of (rev cs) q of Some b \<Rightarrow> b | None \<Rightarrow> look (put (fst c) (snd c) g) q)"
    by (simp add: sound_put)
  with Cons.prems show ?case by (cases c) (auto simp: look_put map_add_def split: option.split)
qed simp

lemma look_put_all_other:
  "sound g \<Longrightarrow> list_all (inside \<circ> fst) cs \<Longrightarrow> inside q \<Longrightarrow> q \<notin> fst ` set cs \<Longrightarrow> look (put_all cs g) q = look g q"
proof -
  assume a: "sound g" "list_all (inside \<circ> fst) cs" "inside q" "q \<notin> fst ` set cs"
  have "map_of (rev cs) q = None" using a(4) by (simp add: map_of_eq_None_iff)
  with look_put_all [OF a(1-3)] show ?thesis by simp
qed

lemma look_put_all_distinct:
  assumes "sound g" "list_all (inside \<circ> fst) cs" "distinct (map fst cs)" "(q, b) \<in> set cs"
  shows "look (put_all cs g) q = b"
proof -
  have "distinct (map fst (rev cs))" using assms(3) by (simp add: rev_map [symmetric])
  then have "map_of (rev cs) q = Some b" using assms(4) by (simp add: map_of_is_SomeI)
  moreover have "inside q" using assms(2,4) by (auto simp: list_all_iff)
  ultimately show ?thesis using look_put_all [OF assms(1,2)] by simp
qed

text \<open>All cells of one colour.\<close>

lemma look_put_all_mark:
  assumes "sound g" "list_all (inside \<circ> fst) cs" "inside q" "list_all snd cs"
  shows "look (put_all cs g) q \<longleftrightarrow> look g q \<or> q \<in> fst ` set cs"
proof (cases "q \<in> fst ` set cs")
  case True
  then obtain b where "map_of (rev cs) q = Some b" by (metis image_set map_of_eq_None_iff not_None_eq rev_map set_rev)
  moreover from map_of_SomeD [OF this] have "b" using assms(4) by (force simp: list_all_iff)
  ultimately show ?thesis using look_put_all [OF assms(1-3)] True by simp
next
  case False
  then show ?thesis using look_put_all_other [OF assms(1-3)] by simp
qed

end

subsection \<open>Rows of modules\<close>

type_synonym grid = "bool list list"

definition blank_grid :: "nat \<Rightarrow> grid" where
  "blank_grid n = replicate n (replicate n False)"

definition at :: "grid \<Rightarrow> nat \<times> nat \<Rightarrow> bool" where
  "at g p = g ! snd p ! fst p"

definition set_at :: "nat \<times> nat \<Rightarrow> bool \<Rightarrow> grid \<Rightarrow> grid" where
  "set_at p b g = g[snd p := (g ! snd p)[fst p := b]]"

definition square :: "nat \<Rightarrow> grid \<Rightarrow> bool" where
  "square n g \<longleftrightarrow> length g = n \<and> list_all (\<lambda>r. length r = n) g"

definition in_grid :: "nat \<Rightarrow> nat \<times> nat \<Rightarrow> bool" where
  "in_grid n p \<longleftrightarrow> fst p < n \<and> snd p < n"

lemma square_blank: "square n (blank_grid n)"
  by (simp add: square_def blank_grid_def)

lemma at_blank: "in_grid n p \<Longrightarrow> \<not> at (blank_grid n) p"
  by (simp add: at_def blank_grid_def in_grid_def)

lemma square_row: "square n g \<Longrightarrow> y < n \<Longrightarrow> length (g ! y) = n"
  by (simp add: square_def list_all_length)

lemma square_set: "square n g \<Longrightarrow> in_grid n p \<Longrightarrow> square n (set_at p b g)"
  by (auto simp: square_def set_at_def in_grid_def list_all_length nth_list_update)

lemma at_set:
  "square n g \<Longrightarrow> in_grid n p \<Longrightarrow> in_grid n q \<Longrightarrow> at (set_at p b g) q = (if q = p then b else at g q)"
proof -
  assume a: "square n g" "in_grid n p" "in_grid n q"
  then have l: "length g = n" "length (g ! snd p) = n" by (simp_all add: square_row square_def in_grid_def)
  show ?thesis
  proof (cases "snd q = snd p")
    case True
    then show ?thesis using a l by (auto simp: at_def set_at_def in_grid_def prod_eq_iff)
  next
    case False
    then show ?thesis by (auto simp: at_def set_at_def)
  qed
qed

lemma grid_ext: "square n g \<Longrightarrow> square n h \<Longrightarrow> (\<And>p. in_grid n p \<Longrightarrow> at g p = at h p) \<Longrightarrow> g = h"
proof -
  assume a: "square n g" "square n h" and e: "\<And>p. in_grid n p \<Longrightarrow> at g p = at h p"
  show ?thesis
  proof (rule nth_equalityI)
    show "length g = length h" using a by (simp add: square_def)
    fix y
    assume "y < length g"
    then have y: "y < n" using a(1) by (simp add: square_def)
    show "g ! y = h ! y"
    proof (rule nth_equalityI)
      show "length (g ! y) = length (h ! y)" using a y by (simp add: square_row)
      fix x
      assume "x < length (g ! y)"
      then have "in_grid n (x, y)" using a(1) y by (simp add: square_row in_grid_def)
      from e [OF this] show "g ! y ! x = h ! y ! x" by (simp add: at_def)
    qed
  qed
qed

interpretation grid: cell_array at set_at "in_grid n" "square n" for n
  by unfold_locales (simp_all add: at_set square_set, rule grid_ext)

end
