(* ===== verification/QrDrawing.thy ===== *)
theory QrDrawing
  imports QrGrid
begin

text \<open>
  The drawing of a QR code, class \<open>QrCode\<close> of \<open>credential_provider/qrcodegen.cpp\<close>: function patterns,
  format and version, the zigzag of the codewords, and the masks.

  A step that sets function modules is the list of the cells it sets, in the order of the code,
  and the loop over it.  An access outside the grid throws \<open>out_of_range\<close> in the code, which ends the
  construction; here it raises \<open>qc_fault\<close>, and the constructor gives no code then.
\<close>

record QrCode =
  qc_version :: nat
  qc_size :: nat
  qc_ecl :: Ecc
  qc_mask :: int
  qc_modules :: grid
  qc_isFunction :: grid
  qc_fault :: bool

subsection \<open>Function modules\<close>

definition setFunctionModule :: "int \<Rightarrow> int \<Rightarrow> bool \<Rightarrow> QrCode \<Rightarrow> QrCode" where
  "setFunctionModule x y isDark q =
     (if 0 \<le> x \<and> x < int (qc_size q) \<and> 0 \<le> y \<and> y < int (qc_size q)
      then q\<lparr>qc_modules := set_at (nat x, nat y) isDark (qc_modules q),
             qc_isFunction := set_at (nat x, nat y) True (qc_isFunction q)\<rparr>
      else q\<lparr>qc_fault := True\<rparr>)"

type_synonym cells = "((int \<times> int) \<times> bool) list"

definition set_cells :: "cells \<Rightarrow> QrCode \<Rightarrow> QrCode" where
  "set_cells cs q = fold (\<lambda>((x, y), isDark). setFunctionModule x y isDark) cs q"

definition timing_cells :: "nat \<Rightarrow> cells" where
  "timing_cells n = concat (map (\<lambda>i. [((6, i), i mod 2 = 0), ((i, 6), i mod 2 = 0)]) [0..int n - 1])"

definition finder_cells :: "nat \<Rightarrow> int \<Rightarrow> int \<Rightarrow> cells" where
  "finder_cells n x y = concat (map (\<lambda>dy. concat (map (\<lambda>dx.
     let dist = max \<bar>dx\<bar> \<bar>dy\<bar>; xx = x + dx; yy = y + dy
     in if 0 \<le> xx \<and> xx < int n \<and> 0 \<le> yy \<and> yy < int n then [((xx, yy), dist \<noteq> 2 \<and> dist \<noteq> 4)] else [])
     [-4..4])) [-4..4])"

definition drawFinderPattern :: "int \<Rightarrow> int \<Rightarrow> QrCode \<Rightarrow> QrCode" where
  "drawFinderPattern x y q = set_cells (finder_cells (qc_size q) x y) q"

definition alignment_cells :: "int \<Rightarrow> int \<Rightarrow> cells" where
  "alignment_cells x y = concat (map (\<lambda>dy. map (\<lambda>dx. ((x + dx, y + dy), max \<bar>dx\<bar> \<bar>dy\<bar> \<noteq> 1)) [-2..2]) [-2..2])"

definition drawAlignmentPattern :: "int \<Rightarrow> int \<Rightarrow> QrCode \<Rightarrow> QrCode" where
  "drawAlignmentPattern x y = set_cells (alignment_cells x y)"

fun alignment_loop :: "nat \<Rightarrow> int \<Rightarrow> int \<Rightarrow> int list \<Rightarrow> int list" where
  "alignment_loop 0 pos step result = result"
| "alignment_loop (Suc n) pos step result = alignment_loop n (pos - step) step (pos # result)"

definition getAlignmentPatternPositions :: "nat \<Rightarrow> int list" where
  "getAlignmentPatternPositions version =
     (if version = 1 then []
      else let numAlign = int version div 7 + 2;
               step = (int version * 8 + numAlign * 3 + 5) div (numAlign * 4 - 4) * 2
           in 6 # alignment_loop (nat (numAlign - 1)) (int version * 4 + 17 - 7) step [])"

text \<open>The centres that get a pattern: all pairs but those at the three finders.\<close>

definition alignment_centres :: "int list \<Rightarrow> (int \<times> int) list" where
  "alignment_centres ps =
     (let numAlign = length ps
      in concat (map (\<lambda>i. concat (map (\<lambda>j.
           if \<not> ((i = 0 \<and> j = 0) \<or> (i = 0 \<and> j = numAlign - 1) \<or> (i = numAlign - 1 \<and> j = 0))
           then [(ps ! i, ps ! j)] else []) [0..<numAlign])) [0..<numAlign]))"

subsection \<open>Format and version\<close>

fun bch_loop :: "nat \<Rightarrow> nat \<Rightarrow> int \<Rightarrow> int \<Rightarrow> int" where
  "bch_loop 0 deg poly rem = rem"
| "bch_loop (Suc n) deg poly rem = bch_loop n deg poly (push_bit 1 rem XOR (drop_bit deg rem * poly))"

definition format_bits :: "Ecc \<Rightarrow> nat \<Rightarrow> int" where
  "format_bits ecl msk =
     (let data = push_bit 3 (getFormatBits ecl) OR int msk; rem = bch_loop 10 9 0x537 data
      in (push_bit 10 data OR rem) XOR 0x5412)"

definition format_cells :: "nat \<Rightarrow> int \<Rightarrow> cells" where
  "format_cells n bits =
     map (\<lambda>i. ((8, int i), getBit bits i)) [0..<6]
     @ [((8, 7), getBit bits 6), ((8, 8), getBit bits 7), ((7, 8), getBit bits 8)]
     @ map (\<lambda>i. ((14 - int i, 8), getBit bits i)) [9..<15]
     @ map (\<lambda>i. ((int n - 1 - int i, 8), getBit bits i)) [0..<8]
     @ map (\<lambda>i. ((8, int n - 15 + int i), getBit bits i)) [8..<15]
     @ [((8, int n - 8), True)]"

definition drawFormatBits :: "nat \<Rightarrow> QrCode \<Rightarrow> QrCode" where
  "drawFormatBits msk q = set_cells (format_cells (qc_size q) (format_bits (qc_ecl q) msk)) q"

definition version_bits :: "nat \<Rightarrow> int" where
  "version_bits version = push_bit 12 (int version) OR bch_loop 12 11 0x1F25 (int version)"

definition version_cells :: "nat \<Rightarrow> int \<Rightarrow> cells" where
  "version_cells n bits = concat (map (\<lambda>i.
     let bt = getBit bits i; a = int n - 11 + int i mod 3; b = int i div 3 in [((a, b), bt), ((b, a), bt)]) [0..<18])"

definition drawVersion :: "QrCode \<Rightarrow> QrCode" where
  "drawVersion q =
     (if qc_version q < 7 then q
      else set_cells (version_cells (qc_size q) (version_bits (qc_version q))) q)"

definition drawFunctionPatterns :: "QrCode \<Rightarrow> QrCode" where
  "drawFunctionPatterns q =
     (let n = int (qc_size q);
          q = set_cells (timing_cells (qc_size q)) q;
          q = drawFinderPattern (n - 4) 3 (drawFinderPattern 3 3 q);
          q = drawFinderPattern 3 (n - 4) q;
          q = fold (\<lambda>(x, y). drawAlignmentPattern x y) (alignment_centres (getAlignmentPatternPositions (qc_version q))) q;
          q = drawFormatBits 0 q
      in drawVersion q)"

subsection \<open>Codewords\<close>

text \<open>The cells in the order of the scan: pairs of columns from the right, without column 6.\<close>

function zigzag_columns :: "int \<Rightarrow> int list" where
  "zigzag_columns right =
     (if right < 1 then [] else let right = (if right = 6 then 5 else right) in right # zigzag_columns (right - 2))"
  by pat_completeness auto
termination by (relation "measure nat") auto

declare zigzag_columns.simps [simp del]

definition zigzag_pair :: "nat \<Rightarrow> int \<Rightarrow> (nat \<times> nat) list" where
  "zigzag_pair n right = concat (map (\<lambda>vert. map (\<lambda>j.
     let x = nat (right - j); upward = (right + 1) AND 2 = 0; y = (if upward then n - 1 - vert else vert)
     in (x, y)) [0, 1]) [0..<n])"

definition zigzag :: "nat \<Rightarrow> (nat \<times> nat) list" where
  "zigzag n = concat (map (zigzag_pair n) (zigzag_columns (int n - 1)))"

definition codeword_step :: "bytes \<Rightarrow> grid \<Rightarrow> nat \<times> nat \<Rightarrow> grid \<times> nat \<Rightarrow> grid \<times> nat" where
  "codeword_step data isFunction p = (\<lambda>(g, i).
     if \<not> at isFunction p \<and> i < length data * 8
     then (set_at p (getBit (uint (data ! (i div 8))) (7 - i mod 8)) g, i + 1) else (g, i))"

definition drawCodewords :: "bytes \<Rightarrow> QrCode \<Rightarrow> qr_error + QrCode" where
  "drawCodewords data q =
     bindE (getNumRawDataModules (qc_version q)) (\<lambda>raw.
       if int (length data) \<noteq> raw div 8 then Inl (InvalidArgument ''Invalid argument'')
       else Inr (q\<lparr>qc_modules := fst (fold (codeword_step data (qc_isFunction q)) (zigzag (qc_size q)) (qc_modules q, 0))\<rparr>))"

subsection \<open>Masks\<close>

definition mask_invert :: "nat \<Rightarrow> nat \<Rightarrow> nat \<Rightarrow> bool" where
  "mask_invert msk x y =
     (if msk = 0 then (x + y) mod 2 = 0
      else if msk = 1 then y mod 2 = 0
      else if msk = 2 then x mod 3 = 0
      else if msk = 3 then (x + y) mod 3 = 0
      else if msk = 4 then (x div 3 + y div 2) mod 2 = 0
      else if msk = 5 then x * y mod 2 + x * y mod 3 = 0
      else if msk = 6 then (x * y mod 2 + x * y mod 3) mod 2 = 0
      else ((x + y) mod 2 + x * y mod 3) mod 2 = 0)"

definition mask_cell :: "nat \<Rightarrow> grid \<Rightarrow> nat \<times> nat \<Rightarrow> grid \<Rightarrow> grid" where
  "mask_cell msk isFunction p g = set_at p (at g p \<noteq> (mask_invert msk (fst p) (snd p) \<and> \<not> at isFunction p)) g"

definition all_cells :: "nat \<Rightarrow> (nat \<times> nat) list" where
  "all_cells n = concat (map (\<lambda>y. map (\<lambda>x. (x, y)) [0..<n]) [0..<n])"

definition applyMask :: "int \<Rightarrow> QrCode \<Rightarrow> qr_error + QrCode" where
  "applyMask msk q =
     (if msk < 0 \<or> msk > 7 then Inl (DomainError ''Mask value out of range'')
      else Inr (q\<lparr>qc_modules := fold (mask_cell (nat msk) (qc_isFunction q)) (all_cells (qc_size q)) (qc_modules q)\<rparr>))"

end
