(* ===== verification/QrBlocks.thy ===== *)
theory QrBlocks
  imports QrReedSolomon QrDrawing
begin

text \<open>
  The codewords of a QR code in \<open>credential_provider/qrcodegen.cpp\<close>: data split into blocks, error
  correction appended to each, and all of them interleaved.

  A block with its error correction is a Reed-Solomon codeword: as a polynomial it vanishes at the
  powers of 2 up to the number of its check bytes.  A reader that puts the bytes back and checks
  that recovers the data.
\<close>

subsection \<open>Polynomials\<close>

definition peval :: "bytes \<Rightarrow> u8 \<Rightarrow> u8" where
  "peval p a = fold (\<lambda>c acc. gf_mul acc a XOR c) p 0"

fun gf_pow :: "u8 \<Rightarrow> nat \<Rightarrow> u8" where
  "gf_pow a 0 = 1"
| "gf_pow a (Suc n) = gf_mul a (gf_pow a n)"

lemma fold_peval: "fold (\<lambda>c acc. gf_mul acc a XOR c) p z = gf_mul z (gf_pow a (length p)) XOR peval p a"
proof (induction p arbitrary: z)
  case Nil
  then show ?case by (simp add: peval_def)
next
  case (Cons c p)
  have "peval (c # p) a = gf_mul c (gf_pow a (length p)) XOR peval p a"
    using Cons [of c] by (simp add: peval_def)
  with Cons [of "gf_mul z a XOR c"] show ?case by (simp add: gf_mul_distrib gf_mul_assoc xor.assoc)
qed

lemma xor_cancel: "(a XOR b) XOR a = (b :: u8)"
  by (simp add: xor.commute xor.left_commute)

lemma xor_zero_eq: "a XOR b = 0 \<Longrightarrow> b = (a :: u8)"
  using xor_cancel [of a b] by simp

lemma peval_Nil [simp]: "peval [] a = 0"
  by (simp add: peval_def)

lemma peval_Cons: "peval (c # p) a = gf_mul c (gf_pow a (length p)) XOR peval p a"
  using fold_peval [of a p c] by (simp add: peval_def)

lemma peval_append: "peval (p @ q) a = gf_mul (peval p a) (gf_pow a (length q)) XOR peval q a"
  using fold_peval [of a q "peval p a"] by (simp add: peval_def)

lemma peval_zeros: "peval (replicate n 0 @ p) a = peval p a"
  by (induction n) (simp_all add: peval_Cons)

lemma peval_xor: "length p = length q \<Longrightarrow> peval (map2 (\<lambda>x y. x XOR gf_mul y k) p q) a = peval p a XOR gf_mul (peval q a) k"
proof (induction p q rule: list_induct2)
  case (Cons x p y q)
  have r: "gf_mul (gf_mul y k) z = gf_mul (gf_mul y z) k" for z by (simp only: gf_mul_assoc gf_mul_commute [of k])
  from Cons show ?case by (simp add: peval_Cons gf_mul_distrib r xor.assoc xor.left_commute)
qed simp

subsection \<open>The generator and the remainder\<close>

lemma length_divisor_pass [simp]: "length (divisor_pass root p) = length p"
  by (induction root p rule: divisor_pass.induct) simp_all

lemma length_divisor_loop [simp]: "length (divisor_loop n root p) = length p"
  by (induction n arbitrary: root p) simp_all

text \<open>A pass multiplies by \<open>x - root\<close>; the coefficient before the list's first is the old first one.\<close>

lemma peval_pass: "peval (c # divisor_pass root (c # p)) a = gf_mul (peval (c # p) a) (a XOR root)"
proof (induction p arbitrary: c)
  case Nil
  show ?case by (simp add: peval_Cons reedSolomonMultiply_gf gf_mul_distrib)
next
  case (Cons d p)
  let ?n = "length p"
  have s: "peval (c # divisor_pass root (c # d # p)) a
     = gf_mul c (gf_pow a (Suc (Suc ?n))) XOR gf_mul (gf_mul c root XOR d) (gf_pow a (Suc ?n)) XOR peval (divisor_pass root (d # p)) a"
    by (simp add: peval_Cons reedSolomonMultiply_gf xor.assoc)
  have "peval (d # divisor_pass root (d # p)) a = gf_mul d (gf_pow a (Suc ?n)) XOR peval (divisor_pass root (d # p)) a"
    by (simp add: peval_Cons)
  with Cons [of d] have e: "gf_mul d (gf_pow a (Suc ?n)) XOR peval (divisor_pass root (d # p)) a = gf_mul (peval (d # p) a) (a XOR root)"
    by simp
  have "peval (c # divisor_pass root (c # d # p)) a
     = gf_mul c (gf_pow a (Suc (Suc ?n))) XOR gf_mul (gf_mul c root) (gf_pow a (Suc ?n))
       XOR (gf_mul d (gf_pow a (Suc ?n)) XOR peval (divisor_pass root (d # p)) a)"
    unfolding s by (simp only: gf_mul_xor_left xor.assoc)
  moreover have "gf_mul c (gf_pow a (Suc (Suc ?n))) XOR gf_mul (gf_mul c root) (gf_pow a (Suc ?n))
     = gf_mul (gf_mul c (gf_pow a (Suc ?n))) (a XOR root)"
  proof -
    have "gf_mul c (gf_pow a (Suc (Suc ?n))) = gf_mul (gf_mul c (gf_pow a (Suc ?n))) a"
      by (simp only: gf_pow.simps(2) [of a "Suc ?n"] gf_mul_assoc gf_mul_commute [of a])
    moreover have "gf_mul (gf_mul c root) (gf_pow a (Suc ?n)) = gf_mul (gf_mul c (gf_pow a (Suc ?n))) root"
      by (rule gf_mul_permute)
    ultimately show ?thesis by (simp only: gf_mul_xor_right)
  qed
  ultimately have "peval (c # divisor_pass root (c # d # p)) a
     = gf_mul (gf_mul c (gf_pow a (Suc ?n))) (a XOR root) XOR gf_mul (peval (d # p) a) (a XOR root)" unfolding e by (metis xor.assoc)
  then show ?case by (simp add: peval_Cons [of c] gf_mul_xor_left)
qed

lemma divisor_pass_zero: "divisor_pass root (replicate (Suc k) 0 @ 1 # t) = replicate k 0 @ 1 # divisor_pass root (1 # t)"
  by (induction k) (simp_all add: reedSolomonMultiply_gf)

fun root_product :: "nat \<Rightarrow> u8 \<Rightarrow> u8 \<Rightarrow> u8" where
  "root_product 0 root a = 1"
| "root_product (Suc n) root a = gf_mul (a XOR root) (root_product n (gf_mul root 2) a)"

lemma peval_divisor_loop:
  "peval (1 # divisor_loop (Suc k) root (replicate k 0 @ 1 # t)) a = gf_mul (peval (1 # t) a) (root_product (Suc k) root a)"
proof (induction k arbitrary: root t)
  case 0
  show ?case using peval_pass [of 1 root t a] by simp
next
  case (Suc k)
  have "divisor_loop (Suc (Suc k)) root (replicate (Suc k) 0 @ 1 # t)
      = divisor_loop (Suc k) (gf_mul root 2) (replicate k 0 @ 1 # divisor_pass root (1 # t))"
    by (simp only: divisor_loop.simps(2) [of "Suc k"] divisor_pass_zero reedSolomonMultiply_gf)
  then show ?case using Suc [of "gf_mul root 2" "divisor_pass root (1 # t)"] peval_pass [of 1 root t a]
    by (simp only: root_product.simps(2) [of "Suc k" root] gf_mul_assoc)
qed

lemma root_product_zero: "i < n \<Longrightarrow> root_product n root (gf_mul root (gf_pow 2 i)) = 0"
proof (induction n arbitrary: root i)
  case (Suc n)
  show ?case
  proof (cases i)
    case (Suc j)
    then have "gf_mul root (gf_pow 2 i) = gf_mul (gf_mul root 2) (gf_pow 2 j)" by (simp add: gf_mul_assoc)
    with Suc.IH [of j "gf_mul root 2"] Suc.prems Suc show ?thesis by simp
  qed simp
qed simp

lemma divisor_roots:
  assumes "reedSolomonComputeDivisor degree = Inr d" "i < nat degree"
  shows "length d = nat degree" "peval d (gf_pow 2 i) = gf_pow (gf_pow 2 i) (nat degree)"
proof -
  obtain k where k: "nat degree = Suc k" using assms(2) by (metis not0_implies_Suc not_less_zero)
  have "(replicate (Suc k) 0)[k := 1] = replicate k 0 @ [1 :: u8]"
    by (simp add: replicate_append_same [symmetric] list_update_append)
  then have d: "d = divisor_loop (Suc k) 1 (replicate k 0 @ [1])"
    using assms(1) k by (auto simp: reedSolomonComputeDivisor_def split: if_splits)
  then show l: "length d = nat degree" using k by simp
  have "root_product (Suc k) 1 (gf_pow 2 i) = 0" using root_product_zero [of i "Suc k" 1] assms(2) k by simp
  then have "peval (1 # d) (gf_pow 2 i) = 0" unfolding d using peval_divisor_loop [of k 1 "[]"] by simp
  then show "peval d (gf_pow 2 i) = gf_pow (gf_pow 2 i) (nat degree)"
    by (simp add: peval_Cons l xor_zero_eq)
qed

lemma remainder_loop_eval:
  assumes "divisor \<noteq> []" "peval divisor a = gf_pow a (length divisor)"
  shows "length r = length divisor \<Longrightarrow>
    \<exists>e. remainder_loop divisor data r = Inr e \<and> length e = length divisor
      \<and> peval e a = gf_mul (peval data a) (gf_pow a (length divisor)) XOR gf_mul (peval r a) (gf_pow a (length data))"
proof (induction data arbitrary: r)
  case (Cons b data)
  let ?n = "length divisor"
  from Cons.prems assms(1) obtain c rs where r: "r = c # rs" by (cases r) auto
  define r' where "r' = remainder_step divisor (b XOR c) (rs @ [0])"
  have l: "length (rs @ [0]) = ?n" using Cons.prems r by simp
  then have "length r' = ?n" by (simp add: r'_def remainder_step_def)
  from Cons.IH [OF this] obtain e where e: "remainder_loop divisor data r' = Inr e" "length e = ?n"
    "peval e a = gf_mul (peval data a) (gf_pow a ?n) XOR gf_mul (peval r' a) (gf_pow a (length data))" by blast
  have "peval r' a = peval (rs @ [0]) a XOR gf_mul (gf_pow a ?n) (b XOR c)"
    unfolding r'_def remainder_step_def reedSolomonMultiply_gf using peval_xor [OF l] assms(2) by simp
  also have "peval (rs @ [0]) a = gf_mul (peval r a) a XOR gf_mul c (gf_pow a ?n)"
  proof -
    have "gf_pow a ?n = gf_mul a (gf_pow a (length rs))" using l by (metis gf_pow.simps(2) length_append_singleton)
    then show ?thesis
      by (simp add: r peval_append peval_Cons gf_mul_distrib gf_mul_ac xor_cancel)
  qed
  finally have "peval r' a = gf_mul (peval r a) a XOR gf_mul b (gf_pow a ?n)"
    by (simp add: gf_mul_distrib gf_mul_commute [of "gf_pow a ?n"] xor.assoc xor.commute xor.left_commute)
  with e show ?case
    by (simp add: r r'_def [symmetric] peval_Cons gf_mul_distrib gf_mul_ac xor.assoc xor.commute)
qed simp

lemma remainder_codeword:
  assumes "reedSolomonComputeDivisor degree = Inr d"
  shows "\<exists>e. reedSolomonComputeRemainder data d = Inr e \<and> length e = nat degree
     \<and> (\<forall>i < nat degree. peval (data @ e) (gf_pow 2 i) = 0)"
proof -
  have "0 < nat degree" using assms by (auto simp: reedSolomonComputeDivisor_def split: if_splits)
  have l: "length d = nat degree" by (rule divisor_roots(1) [OF assms \<open>0 < nat degree\<close>])
  then have ne: "d \<noteq> []" using \<open>0 < nat degree\<close> by auto
  have z: "peval (replicate n 0) a = 0" for n and a using peval_zeros [of n "[]" a] by simp
  have "\<exists>e. reedSolomonComputeRemainder data d = Inr e \<and> length e = nat degree \<and> peval (data @ e) (gf_pow 2 i) = 0"
    if "i < nat degree" for i
  proof -
    note r = remainder_loop_eval [OF ne, of "gf_pow 2 i" "replicate (length d) 0" data]
    from r show ?thesis using divisor_roots(2) [OF assms that] l
      by (auto simp: reedSolomonComputeRemainder_def z peval_append)
  qed
  from this [OF \<open>0 < nat degree\<close>] this show ?thesis by fastforce
qed

subsection \<open>Blocks\<close>

text \<open>\<open>short\<close>: the number of short blocks; \<open>gap\<close>: the data bytes of a short block, one less than of the others.
  A short block gets a padding byte after its data.\<close>

fun make_blocks :: "bytes \<Rightarrow> bytes \<Rightarrow> nat \<Rightarrow> nat \<Rightarrow> nat \<Rightarrow> nat \<Rightarrow> nat \<Rightarrow> qr_error + bytes list" where
  "make_blocks rsDiv data short gap 0 i k = Inr []"
| "make_blocks rsDiv data short gap (Suc n) i k =
     (let dat = take (gap + (if i < short then 0 else 1)) (drop k data)
      in bindE (reedSolomonComputeRemainder dat rsDiv) (\<lambda>ecc.
           bindE (make_blocks rsDiv data short gap n (i + 1) (k + length dat)) (\<lambda>blocks.
             Inr ((dat @ (if i < short then [0] else []) @ ecc) # blocks))))"

definition interleave_places :: "nat \<Rightarrow> nat \<Rightarrow> nat \<Rightarrow> nat \<Rightarrow> (nat \<times> nat) list" where
  "interleave_places len numBlocks gap short =
     concat (map (\<lambda>i. map (\<lambda>j. (i, j)) (filter (\<lambda>j. i \<noteq> gap \<or> short \<le> j) [0..<numBlocks])) [0..<len])"

definition interleave :: "nat \<Rightarrow> nat \<Rightarrow> bytes list \<Rightarrow> qr_error + bytes" where
  "interleave gap short blocks =
     (case blocks of
        [] \<Rightarrow> Inl OutOfRange
      | b # _ \<Rightarrow> let places = interleave_places (length b) (length blocks) gap short
                 in if list_all (\<lambda>(i, j). i < length (blocks ! j)) places then Inr (map (\<lambda>(i, j). blocks ! j ! i) places)
                    else Inl OutOfRange)"

definition addEccAndInterleave :: "bytes \<Rightarrow> QrCode \<Rightarrow> qr_error + bytes" where
  "addEccAndInterleave data q =
     bindE (getNumDataCodewords (qc_version q) (qc_ecl q)) (\<lambda>n.
       if int (length data) \<noteq> n then Inl (InvalidArgument ''Invalid argument'')
       else let numBlocks = num_blocks (qc_ecl q) (qc_version q); blockEccLen = ecc_per_block (qc_ecl q) (qc_version q)
            in bindE (getNumRawDataModules (qc_version q)) (\<lambda>raw.
                 let rawCodewords = raw div 8;
                     numShortBlocks = nat (numBlocks - rawCodewords mod numBlocks);
                     shortBlockLen = rawCodewords div numBlocks;
                     gap = nat (shortBlockLen - blockEccLen)
                 in bindE (reedSolomonComputeDivisor blockEccLen) (\<lambda>rsDiv.
                    bindE (make_blocks rsDiv data numShortBlocks gap (nat numBlocks) 0 0) (\<lambda>blocks.
                      interleave gap numShortBlocks blocks))))"

subsection \<open>Reading the blocks\<close>

definition block_size :: "nat \<Rightarrow> nat \<Rightarrow> nat \<Rightarrow> nat" where
  "block_size short gap i = gap + (if i < short then 0 else 1)"

definition block_data :: "nat \<Rightarrow> nat \<Rightarrow> nat \<Rightarrow> bytes \<Rightarrow> bytes" where
  "block_data short gap j b = take (block_size short gap j) b"

definition is_codeword :: "nat \<Rightarrow> bytes \<Rightarrow> bool" where
  "is_codeword ecc c \<longleftrightarrow> list_all (\<lambda>i. peval c (gf_pow 2 i) = 0) [0..<ecc]"

definition good_block :: "nat \<Rightarrow> nat \<Rightarrow> nat \<Rightarrow> nat \<Rightarrow> bytes \<Rightarrow> bool" where
  "good_block short gap ecc j b \<longleftrightarrow>
     length b = Suc gap + ecc \<and> (j < short \<longrightarrow> b ! gap = 0) \<and> is_codeword ecc (block_data short gap j b @ drop (Suc gap) b)"

text \<open>Where the byte \<open>i\<close> of block \<open>j\<close> is: a row of data bytes for each index that all blocks have, then the
  last data byte of the long blocks, then a row for each check byte.\<close>

definition block_pos :: "nat \<Rightarrow> nat \<Rightarrow> nat \<Rightarrow> nat \<Rightarrow> nat \<Rightarrow> nat" where
  "block_pos numBlocks gap short i j =
     (if i < gap then i * numBlocks + j
      else if i = gap then gap * numBlocks + (j - short)
      else gap * numBlocks + (numBlocks - short) + (i - gap - 1) * numBlocks + j)"

definition read_blocks :: "nat \<Rightarrow> nat \<Rightarrow> nat \<Rightarrow> nat \<Rightarrow> bytes \<Rightarrow> bytes list" where
  "read_blocks len numBlocks gap short cw =
     map (\<lambda>j. map (\<lambda>i. if i = gap \<and> j < short then 0 else cw ! block_pos numBlocks gap short i j) [0..<len]) [0..<numBlocks]"

definition read_codewords :: "nat \<Rightarrow> Ecc \<Rightarrow> bytes \<Rightarrow> bytes option" where
  "read_codewords ver ecl cw =
     (let numBlocks = nat (num_blocks ecl ver); ecc = nat (ecc_per_block ecl ver); raw = nat (raw_modules ver div 8);
          short = numBlocks - raw mod numBlocks; gap = raw div numBlocks - ecc;
          blocks = read_blocks (Suc gap + ecc) numBlocks gap short cw
      in if list_all (\<lambda>j. good_block short gap ecc j (blocks ! j)) [0..<numBlocks]
         then Some (concat (map (\<lambda>j. block_data short gap j (blocks ! j)) [0..<numBlocks])) else None)"

lemma make_blocks_good:
  assumes "reedSolomonComputeDivisor (int ecc) = Inr d"
  shows "length data = k + sum_list (map (\<lambda>j. block_size short gap (i + j)) [0..<n]) \<Longrightarrow>
    \<exists>bs. make_blocks d data short gap n i k = Inr bs \<and> length bs = n
      \<and> list_all (\<lambda>j. good_block short gap ecc (i + j) (bs ! j)) [0..<n]
      \<and> concat (map (\<lambda>j. block_data short gap (i + j) (bs ! j)) [0..<n]) = drop k data"
proof (induction n arbitrary: i k)
  case (Suc n)
  have u: "[0..<Suc n] = 0 # map Suc [0..<n]" by (simp only: upt_conv_Cons [OF zero_less_Suc] map_Suc_upt)
  define dat where "dat = take (block_size short gap i) (drop k data)"
  have l: "length data = k + block_size short gap i + sum_list (map (\<lambda>j. block_size short gap (Suc i + j)) [0..<n])"
    using Suc.prems unfolding u by (simp add: o_def del: upt_Suc)
  then have ld: "length dat = block_size short gap i" by (simp add: dat_def)
  obtain e where e: "reedSolomonComputeRemainder dat d = Inr e" "length e = ecc" "\<forall>i < ecc. peval (dat @ e) (gf_pow 2 i) = 0"
    using remainder_codeword [OF assms, of dat] by auto
  from Suc.IH [of "k + length dat" "Suc i"] l ld obtain bs where
    bs: "make_blocks d data short gap n (Suc i) (k + length dat) = Inr bs" "length bs = n"
      "list_all (\<lambda>j. good_block short gap ecc (Suc i + j) (bs ! j)) [0..<n]"
      "concat (map (\<lambda>j. block_data short gap (Suc i + j) (bs ! j)) [0..<n]) = drop (k + length dat) data" by auto
  define b where "b = dat @ (if i < short then [0] else []) @ e"
  have m: "make_blocks d data short gap (Suc n) i k = Inr (b # bs)"
    using e(1) bs(1) by (simp add: Let_def b_def dat_def block_size_def)
  have bd: "block_data short gap i b = dat" and be: "drop (Suc gap) b = e"
    using ld by (auto simp: block_data_def b_def block_size_def)
  then have g: "good_block short gap ecc i b" using ld e
    by (auto simp: good_block_def is_codeword_def list_all_iff b_def block_size_def nth_append)
  have "drop k data = dat @ drop (k + length dat) data"
    using l by (simp add: dat_def ld add.commute [of k] flip: drop_drop)
  with bs g bd show ?case unfolding m u by (simp add: list.pred_map o_def del: upt_Suc)
qed simp

definition interleave_row :: "nat \<Rightarrow> nat \<Rightarrow> nat \<Rightarrow> nat \<Rightarrow> (nat \<times> nat) list" where
  "interleave_row numBlocks gap short i = map (\<lambda>j. (i, j)) [if i = gap then short else 0..<numBlocks]"

lemma interleave_places_rows:
  assumes "short \<le> numBlocks"
  shows "interleave_places len numBlocks gap short = concat (map (interleave_row numBlocks gap short) [0..<len])"
proof -
  have "filter (\<lambda>j. i \<noteq> gap \<or> short \<le> j) [0..<numBlocks] = [if i = gap then short else 0..<numBlocks]" for i
  proof (cases "i = gap")
    case True
    have "[0..<numBlocks] = [0..<short] @ [short..<numBlocks]" using assms by (metis le_add_diff_inverse upt_add_eq_append zero_le)
    with True show ?thesis by (simp add: filter_False)
  qed simp
  then show ?thesis unfolding interleave_places_def interleave_row_def by presburger
qed

lemma interleave_rows_length:
  assumes "short \<le> numBlocks"
  shows "length (concat (map (interleave_row numBlocks gap short) [0..<k])) + (if gap < k then short else 0) = k * numBlocks"
proof (induction k)
  case (Suc k)
  have "length (interleave_row numBlocks gap short k) + (if k = gap then short else 0) = numBlocks"
    using assms by (simp add: interleave_row_def)
  with Suc show ?case by (auto split: if_splits)
qed simp

lemma nth_row_concat: "i < len \<Longrightarrow> k < length (f i) \<Longrightarrow> concat (map f [0..<len]) ! (length (concat (map f [0..<i])) + k) = f i ! k
    \<and> length (concat (map f [0..<i])) + k < length (concat (map f [0..<len]))"
proof -
  assume a: "i < len" "k < length (f i)"
  then have "[0..<len] = [0..<i] @ i # [Suc i..<len]" by (metis le_add_diff_inverse less_imp_le_nat upt_add_eq_append upt_conv_Cons zero_le)
  then show ?thesis using a(2) by (simp add: nth_append)
qed

lemma interleave_nth:
  assumes "short \<le> numBlocks" "i < len" "j < numBlocks" "i \<noteq> gap \<or> short \<le> j"
  shows "interleave_places len numBlocks gap short ! block_pos numBlocks gap short i j = (i, j)"
    "block_pos numBlocks gap short i j < length (interleave_places len numBlocks gap short)"
proof -
  let ?r = "interleave_row numBlocks gap short"
  define k where "k = (if i = gap then j - short else j)"
  have k: "k < length (?r i)" "?r i ! k = (i, j)" using assms(3,4) by (auto simp: interleave_row_def k_def)
  have l: "length (concat (map ?r [0..<i])) = i * numBlocks - (if gap < i then short else 0)"
    using interleave_rows_length [OF assms(1), of gap i] by (simp split: if_splits)
  have "block_pos numBlocks gap short i j = length (concat (map ?r [0..<i])) + k"
  proof (cases "gap < i")
    case True
    then obtain d where d: "i = gap + 1 + d" using less_iff_Suc_add by auto
    then show ?thesis unfolding l using assms(1) by (simp add: block_pos_def k_def algebra_simps)
  qed (auto simp: block_pos_def k_def l)
  with nth_row_concat [of i len k ?r] assms(2) k
  show "interleave_places len numBlocks gap short ! block_pos numBlocks gap short i j = (i, j)"
    "block_pos numBlocks gap short i j < length (interleave_places len numBlocks gap short)"
    by (simp_all add: interleave_places_rows [OF assms(1)])
qed

lemma read_interleaved:
  assumes "short \<le> length bs" "bs \<noteq> []" "\<forall>j < length bs. length (bs ! j) = Suc gap + ecc \<and> (j < short \<longrightarrow> bs ! j ! gap = 0)"
  shows "\<exists>cw. interleave gap short bs = Inr cw \<and> length cw = (Suc gap + ecc) * length bs - short
     \<and> read_blocks (Suc gap + ecc) (length bs) gap short cw = bs"
proof -
  define len where "len = Suc gap + ecc"
  let ?P = "interleave_places len (length bs) gap short"
  have l: "\<forall>j < length bs. length (bs ! j) = len" and z: "\<forall>j < length bs. j < short \<longrightarrow> bs ! j ! gap = 0"
    using assms(3) by (simp_all add: len_def)
  define cw where "cw = map (\<lambda>(i, j). bs ! j ! i) ?P"
  obtain b r where b: "bs = b # r" using assms(2) by (cases bs) auto
  have lb: "length b = len" using l b by auto
  have "i < len \<and> j < length bs" if "(i, j) \<in> set ?P" for i j using that by (auto simp: interleave_places_def)
  then have i: "interleave gap short bs = Inr cw"
    using l b lb by (auto simp: interleave_def cw_def Let_def list_all_iff)
  define rd where "rd i j = (if i = gap \<and> j < short then 0 else cw ! block_pos (length bs) gap short i j)" for i j
  have at: "rd i j = bs ! j ! i" if "i < len" "j < length bs" for i j
  proof (cases "i = gap \<and> j < short")
    case False
    then have "i \<noteq> gap \<or> short \<le> j" by auto
    from interleave_nth [OF assms(1) that this] show ?thesis unfolding rd_def if_not_P [OF False] by (simp add: cw_def)
  qed (use z that in \<open>simp add: rd_def\<close>)
  have rb: "read_blocks len (length bs) gap short cw = map (\<lambda>j. map (\<lambda>i. rd i j) [0..<len]) [0..<length bs]"
    unfolding read_blocks_def rd_def by (rule refl)
  have r: "read_blocks len (length bs) gap short cw = bs"
  proof (rule nth_equalityI)
    fix j
    assume "j < length (read_blocks len (length bs) gap short cw)"
    then have j: "j < length bs" by (simp add: rb)
    have "map (\<lambda>i. rd i j) [0..<len] = bs ! j" using l j at by (intro nth_equalityI) simp_all
    then show "read_blocks len (length bs) gap short cw ! j = bs ! j" using j by (simp add: rb)
  qed (simp add: rb)
  have "length cw = len * length bs - short"
    using interleave_rows_length [OF assms(1), of gap len] by (simp add: cw_def interleave_places_rows [OF assms(1)] len_def)
  with i r show ?thesis unfolding len_def by blast
qed

lemma sum_block_sizes: "short \<le> n \<Longrightarrow> sum_list (map (\<lambda>j. block_size short gap j) [0..<n]) = n * gap + (n - short)"
proof -
  assume "short \<le> n"
  have "sum_list (map (\<lambda>j. block_size short gap j) [0..<m]) = m * gap + (m - short)" for m
    by (induction m) (auto simp: block_size_def)
  then show ?thesis .
qed

lemma block_layout:
  assumes "valid_version ver"
  obtains N E R where "num_blocks ecl ver = int N" "ecc_per_block ecl ver = int E" "raw_modules ver div 8 = int R"
    "0 < N" "0 < E" "E \<le> 30" "(E + 1) * N \<le> R"
proof -
  note s = sizes_valid [OF assms, of ecl, unfolded sizes_ok_def]
  have "0 \<le> raw_modules ver div 8" using s by linarith
  then obtain R where R: "raw_modules ver div 8 = int R" by (metis zero_le_imp_eq_int)
  obtain N where N: "num_blocks ecl ver = int N" using s by (metis zero_le_imp_eq_int order_trans zero_le_one)
  obtain E where E: "ecc_per_block ecl ver = int E" using s by (metis zero_le_imp_eq_int order_trans zero_le_one)
  have "int ((E + 1) * N) \<le> int R" using s by (simp add: R N E algebra_simps)
  then have "(E + 1) * N \<le> R" by (simp only: of_nat_le_iff)
  with that [OF N E R] s show thesis by (simp add: N E)
qed

lemma addEccAndInterleave_read:
  assumes "valid_version (qc_version q)" "int (length data) = data_codewords (qc_version q) (qc_ecl q)"
  shows "\<exists>cw. addEccAndInterleave data q = Inr cw \<and> int (length cw) = raw_modules (qc_version q) div 8
     \<and> read_codewords (qc_version q) (qc_ecl q) cw = Some data"
proof -
  let ?ver = "qc_version q" and ?ecl = "qc_ecl q"
  obtain N E R where n: "num_blocks ?ecl ?ver = int N" "ecc_per_block ?ecl ?ver = int E" "raw_modules ?ver div 8 = int R"
    "0 < N" "0 < E" "E \<le> 30" "(E + 1) * N \<le> R" by (rule block_layout [OF assms(1)])
  define short where "short = N - R mod N"
  define gap where "gap = R div N - E"
  have "nat (int N - int (R mod N)) = short" "nat (int (R div N) - int E) = gap" unfolding short_def gap_def by linarith+
  then have short: "nat (int N - int R mod int N) = short" and gap: "nat (int R div int N - int E) = gap"
    by (simp_all add: of_nat_mod of_nat_div)
  have q: "E + 1 \<le> R div N" using n(4,7) by (simp add: less_eq_div_iff_mult_less_eq)
  have "R mod N < N" using n(4) by simp
  then have sN: "short \<le> N" "N - short = R mod N" by (simp_all add: short_def)
  have RN: "R = N * gap + N * E + R mod N"
  proof -
    have "R div N = gap + E" using q by (simp add: gap_def)
    then show ?thesis using mult_div_mod_eq [of N R] by (simp add: algebra_simps)
  qed
  have "int (length data) = int R - int E * int N" using assms(2) n by (simp add: data_codewords_def)
  then have "int (length data + N * E) = int R" by (simp add: mult.commute)
  then have "length data + N * E = R" by (simp only: of_nat_eq_iff)
  then have "length data = N * gap + (N - short)" using RN sN by linarith
  then have ld: "length data = 0 + sum_list (map (\<lambda>j. block_size short gap (0 + j)) [0..<N])"
    using sum_block_sizes [OF sN(1), of gap] by simp
  have "nat (int E) < 256" using n(6) by simp
  then obtain d where d: "reedSolomonComputeDivisor (int E) = Inr d" using n(5,6) by (simp add: reedSolomonComputeDivisor_def)
  from make_blocks_good [OF d ld] obtain bs where bs: "make_blocks d data short gap N 0 0 = Inr bs" "length bs = N"
    "list_all (\<lambda>j. good_block short gap E j (bs ! j)) [0..<N]"
    "concat (map (\<lambda>j. block_data short gap j (bs ! j)) [0..<N]) = data" by auto
  have "short \<le> length bs" "bs \<noteq> []" using bs(2) sN n(4) by auto
  moreover have "\<forall>j < length bs. length (bs ! j) = Suc gap + E \<and> (j < short \<longrightarrow> bs ! j ! gap = 0)"
    using bs(2,3) by (simp add: list_all_iff good_block_def)
  ultimately obtain cw where cw: "interleave gap short bs = Inr cw" "length cw = (Suc gap + E) * N - short"
    "read_blocks (Suc gap + E) N gap short cw = bs" using read_interleaved [of short bs gap E] bs(2) by blast
  have "int (length data) = int R - int E * int N" by fact
  then have "addEccAndInterleave data q = Inr cw"
    using assms n bs(1) cw(1) d
    by (simp add: addEccAndInterleave_def short gap Let_def del: make_blocks.simps)
  moreover have "length cw = R" using cw(2) RN sN by (simp add: algebra_simps)
  moreover have "read_codewords ?ver ?ecl cw = Some data"
    unfolding read_codewords_def using n cw(3) bs(3,4)
    by (simp add: Let_def short_def [symmetric] gap_def [symmetric])
  ultimately show ?thesis using n(3) by simp
qed

end
