(* ===== verification/QrPenalty.thy ===== *)
theory QrPenalty
  imports QrDrawing
begin

text \<open>
  The penalty of a drawn QR code in \<open>credential_provider/qrcodegen.cpp\<close>, by which the mask is chosen:
  runs of one colour and finder-like patterns in rows and columns, blocks of two by two, and the
  balance of dark and light.  It stays far below the largest \<open>long\<close>, the start of the search for the
  smallest.
\<close>

definition PENALTY_N1 :: int where "PENALTY_N1 = 3"
definition PENALTY_N2 :: int where "PENALTY_N2 = 3"
definition PENALTY_N3 :: int where "PENALTY_N3 = 40"
definition PENALTY_N4 :: int where "PENALTY_N4 = 10"

subsection \<open>Lines\<close>

definition finderPenaltyAddHistory :: "nat \<Rightarrow> int \<Rightarrow> int list \<Rightarrow> int list" where
  "finderPenaltyAddHistory n currentRunLength runHistory =
     (if runHistory ! 0 = 0 then currentRunLength + int n else currentRunLength) # butlast runHistory"

definition finderPenaltyCountPatterns :: "int list \<Rightarrow> int" where
  "finderPenaltyCountPatterns runHistory =
     (let n = runHistory ! 1;
          core = (n > 0 \<and> runHistory ! 2 = n \<and> runHistory ! 3 = n * 3 \<and> runHistory ! 4 = n \<and> runHistory ! 5 = n)
      in (if core \<and> runHistory ! 0 \<ge> n * 4 \<and> runHistory ! 6 \<ge> n then 1 else 0)
         + (if core \<and> runHistory ! 6 \<ge> n * 4 \<and> runHistory ! 0 \<ge> n then 1 else 0))"

definition finderPenaltyTerminateAndCount :: "nat \<Rightarrow> bool \<Rightarrow> int \<Rightarrow> int list \<Rightarrow> int" where
  "finderPenaltyTerminateAndCount n currentRunColor currentRunLength runHistory =
     (let (len, hist) = (if currentRunColor then (0, finderPenaltyAddHistory n currentRunLength runHistory)
                         else (currentRunLength, runHistory))
      in finderPenaltyCountPatterns (finderPenaltyAddHistory n (len + int n) hist))"

text \<open>A line's modules one after the other: the run's colour and length, the last seven runs, the result.\<close>

definition line_step :: "nat \<Rightarrow> bool \<Rightarrow> bool \<times> int \<times> int list \<times> int \<Rightarrow> bool \<times> int \<times> int list \<times> int" where
  "line_step n m = (\<lambda>(runColor, run, runHistory, result).
     if m = runColor
     then let run = run + 1
          in (runColor, run, runHistory, if run = 5 then result + PENALTY_N1 else if run > 5 then result + 1 else result)
     else let runHistory = finderPenaltyAddHistory n run runHistory;
              result = (if \<not> runColor then result + finderPenaltyCountPatterns runHistory * PENALTY_N3 else result)
          in (m, 1, runHistory, result))"

definition line_penalty :: "nat \<Rightarrow> bool list \<Rightarrow> int \<Rightarrow> int" where
  "line_penalty n ms result =
     (let (runColor, run, runHistory, result) = fold (line_step n) ms (False, 0, replicate 7 0, result)
      in result + finderPenaltyTerminateAndCount n runColor run runHistory * PENALTY_N3)"

subsection \<open>The whole grid\<close>

definition block_step :: "grid \<Rightarrow> nat \<Rightarrow> nat \<Rightarrow> int \<Rightarrow> int" where
  "block_step g y x result =
     (let color = at g (x, y)
      in if color = at g (x + 1, y) \<and> color = at g (x, y + 1) \<and> color = at g (x + 1, y + 1) then result + PENALTY_N2
         else result)"

definition getPenaltyScore :: "QrCode \<Rightarrow> int" where
  "getPenaltyScore q =
     (let n = qc_size q; g = qc_modules q;
          result = fold (\<lambda>y. line_penalty n (map (\<lambda>x. at g (x, y)) [0..<n])) [0..<n] 0;
          result = fold (\<lambda>x. line_penalty n (map (\<lambda>y. at g (x, y)) [0..<n])) [0..<n] result;
          result = fold (\<lambda>y. fold (block_step g y) [0..<n - 1]) [0..<n - 1] result;
          dark = fold (\<lambda>row d. fold (\<lambda>color d. if color then d + 1 else d) row d) g (0 :: int);
          total = int n * int n;
          k = (\<bar>dark * 20 - total * 10\<bar> + total - 1) div total - 1
      in result + k * PENALTY_N4)"

subsection \<open>Bounds\<close>

lemma fold_grows:
  fixes f :: "'a \<Rightarrow> int \<Rightarrow> int"
  assumes "\<And>x r. x \<in> set xs \<Longrightarrow> r \<le> f x r" "\<And>x r. x \<in> set xs \<Longrightarrow> f x r \<le> r + c"
  shows "r \<le> fold f xs r \<and> fold f xs r \<le> r + int (length xs) * c"
  using assms
proof (induction xs arbitrary: r)
  case (Cons x xs)
  have "r \<le> f x r" "f x r \<le> r + c" using Cons.prems by simp_all
  moreover have "f x r \<le> fold f xs (f x r) \<and> fold f xs (f x r) \<le> f x r + int (length xs) * c"
    by (rule Cons.IH) (use Cons.prems in auto)
  ultimately show ?case by (simp add: algebra_simps)
qed simp

lemma count_bounds: "0 \<le> finderPenaltyCountPatterns h" "finderPenaltyCountPatterns h \<le> 2"
  by (simp_all add: finderPenaltyCountPatterns_def Let_def)

lemma line_fold_bounds:
  "r \<le> snd (snd (snd (fold (line_step n) ms (c, l, h, r))))
   \<and> snd (snd (snd (fold (line_step n) ms (c, l, h, r)))) \<le> r + int (length ms) * 80"
proof (induction ms arbitrary: c l h r)
  case (Cons m ms)
  obtain c' l' h' r' where s: "line_step n m (c, l, h, r) = (c', l', h', r')" by (metis surj_pair)
  have "r \<le> r' \<and> r' \<le> r + 80"
    using s count_bounds [of "finderPenaltyAddHistory n l h"]
    by (auto simp: line_step_def Let_def PENALTY_N1_def PENALTY_N3_def split: if_splits)
  with Cons.IH [of r' c' l' h'] s show ?case by (simp add: algebra_simps)
qed simp

lemma line_penalty_bounds: "r \<le> line_penalty n ms r" "line_penalty n ms r \<le> r + (int (length ms) + 1) * 80"
proof -
  obtain c l h r' where f: "fold (line_step n) ms (False, 0, replicate 7 0, r) = (c, l, h, r')" by (metis surj_pair)
  have b: "0 \<le> finderPenaltyTerminateAndCount n c l h" "finderPenaltyTerminateAndCount n c l h \<le> 2"
    by (simp_all add: finderPenaltyTerminateAndCount_def count_bounds split_beta Let_def)
  show "r \<le> line_penalty n ms r" "line_penalty n ms r \<le> r + (int (length ms) + 1) * 80"
    using line_fold_bounds [of r n ms False 0 "replicate 7 0"] b f
    by (simp_all add: line_penalty_def PENALTY_N3_def algebra_simps)
qed

lemma dark_bounds:
  assumes "square n g"
  shows "0 \<le> fold (\<lambda>row d. fold (\<lambda>color d. if color then d + 1 else d) row d) g (0 :: int)"
    "fold (\<lambda>row d. fold (\<lambda>color d. if color then d + 1 else d) row d) g (0 :: int) \<le> int n * int n"
proof -
  have row: "d \<le> fold (\<lambda>color d. if color then d + 1 else d) row d \<and>
      fold (\<lambda>color d. if color then d + 1 else d) row d \<le> d + int (length row) * 1" for row and d :: int
    by (rule fold_grows) auto
  have "0 \<le> fold (\<lambda>row d. fold (\<lambda>color d. if color then d + 1 else d) row d) g (0 :: int) \<and>
      fold (\<lambda>row d. fold (\<lambda>color d. if color then d + 1 else d) row d) g 0 \<le> 0 + int (length g) * int n"
  proof (rule fold_grows)
    fix x d
    assume "x \<in> set g"
    then have "length x = n" using assms by (simp add: square_def list_all_iff)
    then show "d \<le> fold (\<lambda>color d. if color then d + 1 else d) x d"
      "fold (\<lambda>color d. if color then d + 1 else d) x d \<le> d + int n" using row [of d x] by simp_all
  qed
  then show "0 \<le> fold (\<lambda>row d. fold (\<lambda>color d. if color then d + 1 else d) row d) g (0 :: int)"
    "fold (\<lambda>row d. fold (\<lambda>color d. if color then d + 1 else d) row d) g (0 :: int) \<le> int n * int n"
    using assms by (simp_all add: square_def)
qed

text \<open>What the code asserts of the share of dark modules.\<close>

lemma balance_bounds:
  fixes dark total :: int
  assumes "0 \<le> dark" "dark \<le> total" "0 < total" "odd total"
  shows "0 \<le> (\<bar>dark * 20 - total * 10\<bar> + total - 1) div total - 1"
    "(\<bar>dark * 20 - total * 10\<bar> + total - 1) div total - 1 \<le> 9"
proof -
  have "dark * 20 \<noteq> total * 10"
  proof
    assume "dark * 20 = total * 10"
    then have "total = 2 * dark" by simp
    then show False using assms(4) by simp
  qed
  then have a: "1 \<le> \<bar>dark * 20 - total * 10\<bar>" by linarith
  have b: "\<bar>dark * 20 - total * 10\<bar> \<le> total * 10" using assms by linarith
  have "1 * total \<le> \<bar>dark * 20 - total * 10\<bar> + total - 1" using a by simp
  then show "0 \<le> (\<bar>dark * 20 - total * 10\<bar> + total - 1) div total - 1"
    using assms(3) by (simp add: zdiv_mono1 pos_imp_zdiv_pos_iff)
  have "(\<bar>dark * 20 - total * 10\<bar> + total - 1) div total \<le> (10 * total + (total - 1)) div total"
    using b assms(3) by (intro zdiv_mono1) auto
  also have "\<dots> = 10" using assms(3) by (intro int_div_pos_eq [of _ _ _ "total - 1"]) auto
  finally show "(\<bar>dark * 20 - total * 10\<bar> + total - 1) div total - 1 \<le> 9" by simp
qed

lemma getPenaltyScore_bounds:
  assumes "square (qc_size q) (qc_modules q)" "odd (qc_size q)" "qc_size q \<le> 177"
  shows "0 \<le> getPenaltyScore q" "getPenaltyScore q < 6000000"
proof -
  let ?n = "qc_size q" and ?g = "qc_modules q"
  define l where "l = (int ?n + 1) * 80"
  define r1 where "r1 = fold (\<lambda>y. line_penalty ?n (map (\<lambda>x. at ?g (x, y)) [0..<?n])) [0..<?n] 0"
  define r2 where "r2 = fold (\<lambda>x. line_penalty ?n (map (\<lambda>y. at ?g (x, y)) [0..<?n])) [0..<?n] r1"
  define r3 where "r3 = fold (\<lambda>y. fold (block_step ?g y) [0..<?n - 1]) [0..<?n - 1] r2"
  define dark where "dark = fold (\<lambda>row d. fold (\<lambda>color d. if color then d + 1 else d) row d) ?g (0 :: int)"
  define total where "total = int ?n * int ?n"
  have lp: "r \<le> line_penalty ?n (map f [0..<?n]) r" "line_penalty ?n (map f [0..<?n]) r \<le> r + l" for f r
    using line_penalty_bounds(1) [of r ?n "map f [0..<?n]"] line_penalty_bounds(2) [of ?n "map f [0..<?n]" r] by (simp_all add: l_def)
  have 1: "0 \<le> r1 \<and> r1 \<le> 0 + int (length [0..<?n]) * l" unfolding r1_def by (rule fold_grows) (rule lp)+
  have 2: "r1 \<le> r2 \<and> r2 \<le> r1 + int (length [0..<?n]) * l" unfolding r2_def by (rule fold_grows) (rule lp)+
  have bl: "r \<le> fold (block_step ?g y) [0..<?n - 1] r \<and> fold (block_step ?g y) [0..<?n - 1] r \<le> r + int (length [0..<?n - 1]) * 3" for y r
    by (rule fold_grows) (simp_all add: block_step_def Let_def PENALTY_N2_def)
  have 3: "r2 \<le> r3 \<and> r3 \<le> r2 + int (length [0..<?n - 1]) * (int (length [0..<?n - 1]) * 3)" unfolding r3_def
    by (rule fold_grows) (use bl in auto)
  have d: "0 \<le> dark" "dark \<le> total" unfolding dark_def total_def by (rule dark_bounds [OF assms(1)])+
  have "0 < ?n" using assms(2) odd_pos by blast
  then have "0 < total" "odd total" using assms(2) by (simp_all add: total_def)
  note k = balance_bounds [OF d this]
  have p: "getPenaltyScore q = r3 + ((\<bar>dark * 20 - total * 10\<bar> + total - 1) div total - 1) * 10"
    unfolding getPenaltyScore_def Let_def r1_def r2_def r3_def dark_def total_def PENALTY_N4_def by (rule refl)
  have "0 \<le> r3" using 1 2 3 by (elim conjE) linarith
  then show "0 \<le> getPenaltyScore q" unfolding p using k by simp
  have "int ?n * l \<le> 177 * (178 * 80)" unfolding l_def by (rule mult_mono) (use assms(3) in auto)
  moreover have "int (?n - 1) * (int (?n - 1) * 3) \<le> 176 * (176 * 3)"
    by (intro mult_mono) (use assms(3) in auto)
  ultimately have "r3 \<le> 2 * (177 * (178 * 80)) + 176 * (176 * 3)" using 1 2 3 by simp
  then show "getPenaltyScore q < 6000000" unfolding p using k by simp
qed

end
