(* ===== verification/QrPatterns.thy ===== *)
theory QrPatterns
  imports QrDrawing
begin

text \<open>
  Where the function modules of a QR code are.  \<open>func_cell\<close> is the standard's layout: three finders with
  their format areas, two timing lines, the alignment patterns and the version areas.
  \<open>drawFunctionPatterns\<close> marks exactly these, without leaving the grid, and the other modules, counted,
  are as many as the formula of \<open>getNumRawDataModules\<close> says.
\<close>

subsection \<open>Cells in a grid\<close>

definition cell_ok :: "nat \<Rightarrow> (int \<times> int) \<times> bool \<Rightarrow> bool" where
  "cell_ok n c \<longleftrightarrow> 0 \<le> fst (fst c) \<and> fst (fst c) < int n \<and> 0 \<le> snd (fst c) \<and> snd (fst c) < int n"

definition place :: "(int \<times> int) \<times> bool \<Rightarrow> nat \<times> nat" where
  "place c = (nat (fst (fst c)), nat (snd (fst c)))"

lemma place_inside: "cell_ok n c \<Longrightarrow> in_grid n (place c)"
  by (simp add: cell_ok_def place_def in_grid_def nat_less_iff)

definition colours :: "cells \<Rightarrow> ((nat \<times> nat) \<times> bool) list" where
  "colours cs = map (\<lambda>c. (place c, snd c)) cs"

definition marks :: "cells \<Rightarrow> ((nat \<times> nat) \<times> bool) list" where
  "marks cs = map (\<lambda>c. (place c, True)) cs"

lemma inside_colours: "list_all (cell_ok n) cs \<Longrightarrow> list_all (in_grid n \<circ> fst) (colours cs)"
  by (induction cs) (simp_all add: colours_def place_inside)

lemma inside_marks: "list_all (cell_ok n) cs \<Longrightarrow> list_all (in_grid n \<circ> fst) (marks cs)"
  by (induction cs) (simp_all add: marks_def place_inside)

lemma places_marks: "fst ` set (marks cs) = place ` set cs"
  by (force simp: marks_def)

lemma places_colours: "fst ` set (colours cs) = place ` set cs"
  by (force simp: colours_def)

lemma set_cells_Cons: "set_cells (((x, y), d) # cs) q = set_cells cs (setFunctionModule x y d q)"
  by (simp add: set_cells_def)

lemma set_cells_append: "set_cells (as @ bs) q = set_cells bs (set_cells as q)"
  by (simp add: set_cells_def)

lemma set_cells_eq:
  "list_all (cell_ok (qc_size q)) cs \<Longrightarrow>
     set_cells cs q = q\<lparr>qc_modules := grid.put_all (colours cs) (qc_modules q),
                        qc_isFunction := grid.put_all (marks cs) (qc_isFunction q)\<rparr>"
proof (induction cs arbitrary: q)
  case Nil
  then show ?case by (simp add: set_cells_def colours_def marks_def)
next
  case (Cons c cs)
  obtain x y d where c: "c = ((x, y), d)" by (metis surj_pair)
  have r: "0 \<le> x" "x < int (qc_size q)" "0 \<le> y" "y < int (qc_size q)" using Cons.prems c by (simp_all add: cell_ok_def)
  then have s: "setFunctionModule x y d q = q\<lparr>qc_modules := set_at (nat x, nat y) d (qc_modules q),
      qc_isFunction := set_at (nat x, nat y) True (qc_isFunction q)\<rparr>" by (simp add: setFunctionModule_def)
  from Cons.IH [of "setFunctionModule x y d q"] Cons.prems
  show ?case unfolding c set_cells_Cons s by (simp add: colours_def marks_def place_def)
qed

subsection \<open>The parts\<close>

lemma set_window: "set (concat (map (\<lambda>b. concat (map (\<lambda>a. f a b) as)) bs)) = (\<Union>b \<in> set bs. \<Union>a \<in> set as. set (f a b))"
  by auto

lemma set_rows: "set (concat (map (\<lambda>b. map (\<lambda>a. f a b) as) bs)) = (\<Union>b \<in> set bs. (\<lambda>a. f a b) ` set as)"
  by auto

definition finder_area :: "nat \<Rightarrow> int \<Rightarrow> int \<Rightarrow> (int \<times> int) set" where
  "finder_area n cx cy = {(x, y). cx - 4 \<le> x \<and> x \<le> cx + 4 \<and> cy - 4 \<le> y \<and> y \<le> cy + 4
     \<and> 0 \<le> x \<and> x < int n \<and> 0 \<le> y \<and> y < int n}"

lemma finder_places: "fst ` set (finder_cells n cx cy) = finder_area n cx cy"
proof -
  have "p \<in> fst ` set (finder_cells n cx cy) \<longleftrightarrow>
      (\<exists>dy \<in> {-4..4}. \<exists>dx \<in> {-4..4}. p = (cx + dx, cy + dy) \<and> 0 \<le> fst p \<and> fst p < int n \<and> 0 \<le> snd p \<and> snd p < int n)" for p
    unfolding finder_cells_def set_window set_upto Let_def by (auto simp: image_iff)
  moreover have "(\<exists>dy \<in> {-4..4}. \<exists>dx \<in> {-4..4}. (x, y) = (cx + dx, cy + dy) \<and> P) \<longleftrightarrow>
      cx - 4 \<le> x \<and> x \<le> cx + 4 \<and> cy - 4 \<le> y \<and> y \<le> cy + 4 \<and> P" for x y P
    by (rule iffI, force, rule bexI [of _ "y - cy"], rule bexI [of _ "x - cx"]) auto
  ultimately show ?thesis by (intro set_eqI) (simp only: finder_area_def mem_Collect_eq split_paired_all prod.case fst_conv snd_conv)
qed

lemma alignment_places:
  "fst ` set (alignment_cells cx cy) = {(x, y). cx - 2 \<le> x \<and> x \<le> cx + 2 \<and> cy - 2 \<le> y \<and> y \<le> cy + 2}"
proof -
  have "p \<in> fst ` set (alignment_cells cx cy) \<longleftrightarrow> (\<exists>dy \<in> {-2..2}. \<exists>dx \<in> {-2..2}. p = (cx + dx, cy + dy))" for p
    unfolding alignment_cells_def set_rows set_upto by (auto simp: image_iff)
  moreover have "(\<exists>dy \<in> {-2..2}. \<exists>dx \<in> {-2..2}. (x, y) = (cx + dx, cy + dy)) \<longleftrightarrow>
      cx - 2 \<le> x \<and> x \<le> cx + 2 \<and> cy - 2 \<le> y \<and> y \<le> cy + 2" for x y
    by (rule iffI, force, rule bexI [of _ "y - cy"], rule bexI [of _ "x - cx"]) auto
  ultimately show ?thesis by (intro set_eqI) (simp only: mem_Collect_eq split_paired_all prod.case)
qed

lemma timing_places: "fst ` set (timing_cells n) = {(x, y). (x = 6 \<and> 0 \<le> y \<and> y < int n) \<or> (y = 6 \<and> 0 \<le> x \<and> x < int n)}"
  by (force simp: timing_cells_def)

definition corner_cells :: "nat \<Rightarrow> (int \<times> int) set" where
  "corner_cells n = {(x, y). x = 8 \<and> 0 \<le> y \<and> y < 6} \<union> {(8, 7), (8, 8), (7, 8)}
      \<union> {(x, y). y = 8 \<and> 14 - 15 < x \<and> x \<le> 14 - 9} \<union> {(x, y). y = 8 \<and> int n - 1 - 8 < x \<and> x \<le> int n - 1}
      \<union> {(x, y). x = 8 \<and> int n - 15 + 8 \<le> y \<and> y < int n - 15 + 15} \<union> {(8, int n - 8)}"

lemma column_places: "fst ` set (map (\<lambda>i. ((c, d + int i), f i)) [a..<b]) = {(x, y). x = c \<and> d + int a \<le> y \<and> y < d + int b}"
  (is "?l = ?r")
proof (intro set_eqI iffI)
  fix p
  assume "p \<in> ?r"
  then obtain y where p: "p = (c, d + (y - d))" "int a \<le> y - d" "y - d < int b" by auto
  then have "p = (c, d + int (nat (y - d)))" "nat (y - d) \<in> {a..<b}" by auto
  then show "p \<in> ?l" by (force simp: image_image)
qed auto

lemma row_places: "fst ` set (map (\<lambda>i. ((d + int i, c), f i)) [a..<b]) = {(x, y). y = c \<and> d + int a \<le> x \<and> x < d + int b}"
  (is "?l = ?r")
proof (intro set_eqI iffI)
  fix p
  assume "p \<in> ?r"
  then obtain x where p: "p = (d + (x - d), c)" "int a \<le> x - d" "x - d < int b" by auto
  then have "p = (d + int (nat (x - d)), c)" "nat (x - d) \<in> {a..<b}" by auto
  then show "p \<in> ?l" by (force simp: image_image)
qed auto

lemma row_places_back: "fst ` set (map (\<lambda>i. ((d - int i, c), f i)) [a..<b]) = {(x, y). y = c \<and> d - int b < x \<and> x \<le> d - int a}"
  (is "?l = ?r")
proof (intro set_eqI iffI)
  fix p
  assume "p \<in> ?r"
  then obtain x where p: "p = (d - (d - x), c)" "int a \<le> d - x" "d - x < int b" by auto
  then have "p = (d - int (nat (d - x)), c)" "nat (d - x) \<in> {a..<b}" by auto
  then show "p \<in> ?l" by (force simp: image_image)
qed auto

lemma format_places: "fst ` set (format_cells n b) = corner_cells n"
  unfolding format_cells_def set_append image_Un row_places_back column_places column_places [of _ 0, unfolded add_0]
    list.set image_insert image_empty fst_conv corner_cells_def
  by (simp only: Un_assoc semiring_1_class.of_nat_0 of_nat_numeral add_0_right add_0 diff_0_right)

lemma corner_iff:
  "(x, y) \<in> corner_cells n \<longleftrightarrow> x = 8 \<and> (0 \<le> y \<and> y \<le> 5 \<or> y = 7 \<or> y = 8) \<or> y = 8 \<and> (0 \<le> x \<and> x \<le> 5 \<or> x = 7)
     \<or> y = 8 \<and> int n - 8 \<le> x \<and> x < int n \<or> x = 8 \<and> int n - 8 \<le> y \<and> y < int n" (is "?l \<longleftrightarrow> ?r")
proof
  assume ?l
  then show ?r
    unfolding corner_cells_def Un_iff mem_Collect_eq prod.case insert_iff empty_iff prod.inject by (elim disjE conjE) simp_all
next
  assume ?r
  then have "(x = 8 \<and> 0 \<le> y \<and> y < 6) \<or> (x = 8 \<and> y = 7) \<or> (x = 8 \<and> y = 8) \<or> (x = 7 \<and> y = 8) \<or> (y = 8 \<and> -1 < x \<and> x \<le> 5)
    \<or> (y = 8 \<and> int n - 9 < x \<and> x \<le> int n - 1) \<or> (x = 8 \<and> int n - 7 \<le> y \<and> y < int n) \<or> (x = 8 \<and> y = int n - 8)"
    by (elim disjE conjE) auto
  then show ?l
    unfolding corner_cells_def Un_iff mem_Collect_eq prod.case insert_iff empty_iff prod.inject by (elim disjE conjE) simp_all
qed

definition version_area :: "nat \<Rightarrow> (int \<times> int) set" where
  "version_area n = {(x, y). (int n - 11 \<le> x \<and> x < int n - 8 \<and> 0 \<le> y \<and> y < 6) \<or> (0 \<le> x \<and> x < 6 \<and> int n - 11 \<le> y \<and> y < int n - 8)}"

lemma version_places: "fst ` set (version_cells n b) = version_area n"
proof -
  have ex: "(\<exists>i < 18. x = k + int i mod 3 \<and> y = int i div 3) \<longleftrightarrow> k \<le> x \<and> x < k + 3 \<and> 0 \<le> y \<and> y < 6" for x y k
  proof
    assume "k \<le> x \<and> x < k + 3 \<and> 0 \<le> y \<and> y < 6"
    then have r: "0 \<le> x - k" "x - k < 3" "0 \<le> y" "y < 6" by auto
    then have "int (nat (3 * y + (x - k))) = 3 * y + (x - k)" by simp
    moreover have "(3 * y + (x - k)) mod 3 = x - k" "(3 * y + (x - k)) div 3 = y" using r by simp_all
    ultimately show "\<exists>i < 18. x = k + int i mod 3 \<and> y = int i div 3"
      by (intro exI [of _ "nat (3 * y + (x - k))"]) (use r in auto)
  qed auto
  have "fst ` set (version_cells n b) = (\<Union>i \<in> {0..<18}. {(int n - 11 + int i mod 3, int i div 3), (int i div 3, int n - 11 + int i mod 3)})"
    unfolding version_cells_def Let_def
    by (simp only: set_concat set_map set_upt image_image list.set image_UN image_insert image_empty fst_conv)
  also have "\<dots> = {(x, y). (\<exists>i < 18. x = int n - 11 + int i mod 3 \<and> y = int i div 3)
      \<or> (\<exists>i < 18. y = int n - 11 + int i mod 3 \<and> x = int i div 3)}" by auto
  also have "\<dots> = version_area n" unfolding ex version_area_def by auto
  finally show ?thesis .
qed

subsection \<open>Alignment patterns\<close>

text \<open>For every version the positions start at 6, end seven before the border, and are at least
  twelve apart.\<close>

definition positions_ok :: "nat \<Rightarrow> bool" where
  "positions_ok ver \<longleftrightarrow>
     (let ps = getAlignmentPatternPositions ver
      in (if ver = 1 then ps = []
          else length ps = ver div 7 + 2 \<and> ps ! 0 = 6 \<and> ps ! (length ps - 1) = 4 * int ver + 10
            \<and> list_all (\<lambda>i. ps ! i + 12 \<le> ps ! Suc i) [0..<length ps - 1]))"

lemma positions_all: "list_all positions_ok [1..<41]"
  by code_simp

lemma positions_valid: "valid_version ver \<Longrightarrow> positions_ok ver"
  using positions_all by (rule list_all_setD) (simp only: valid_version_set)

lemma positions_spread:
  assumes "valid_version ver" "i < j" "j < length (getAlignmentPatternPositions ver)"
  shows "getAlignmentPatternPositions ver ! i + 12 \<le> getAlignmentPatternPositions ver ! j"
proof -
  let ?ps = "getAlignmentPatternPositions ver"
  have "ver \<noteq> 1" using assms(3) by (auto simp: getAlignmentPatternPositions_def)
  then have st: "?ps ! i + 12 \<le> ?ps ! Suc i" if "Suc i < length ?ps" for i
    using positions_valid [OF assms(1)] that by (auto simp: positions_ok_def Let_def list_all_iff)
  from assms(2,3) show ?thesis
  proof (induction j)
    case (Suc j)
    show ?case
    proof (cases "i = j")
      case True
      then show ?thesis using st [of j] Suc.prems by simp
    next
      case False
      then have "?ps ! i + 12 \<le> ?ps ! j" using Suc by simp
      then show ?thesis using st [of j] Suc.prems(2) by simp
    qed
  qed simp
qed

lemma positions_range:
  assumes "valid_version ver" "i < length (getAlignmentPatternPositions ver)"
  shows "6 \<le> getAlignmentPatternPositions ver ! i \<and> getAlignmentPatternPositions ver ! i \<le> 4 * int ver + 10
    \<and> (0 < i \<longrightarrow> 18 \<le> getAlignmentPatternPositions ver ! i)
    \<and> (i < length (getAlignmentPatternPositions ver) - 1 \<longrightarrow> getAlignmentPatternPositions ver ! i \<le> 4 * int ver - 2)"
proof -
  let ?ps = "getAlignmentPatternPositions ver"
  have "ver \<noteq> 1" using assms(2) by (auto simp: getAlignmentPatternPositions_def)
  then have e: "?ps ! 0 = 6" "?ps ! (length ?ps - 1) = 4 * int ver + 10"
    using positions_valid [OF assms(1)] by (auto simp: positions_ok_def Let_def)
  have "0 < i \<Longrightarrow> ?ps ! 0 + 12 \<le> ?ps ! i" using positions_spread [OF assms(1), of 0 i] assms(2) by simp
  moreover have "i < length ?ps - 1 \<Longrightarrow> ?ps ! i + 12 \<le> ?ps ! (length ?ps - 1)"
    using positions_spread [OF assms(1), of i "length ?ps - 1"] by simp
  moreover have "i < length ?ps - 1 \<or> i = length ?ps - 1" using assms(2) by linarith
  ultimately show ?thesis using e by (cases "i = 0"; cases "i = length ?ps - 1") auto
qed

definition centre :: "nat \<Rightarrow> nat \<Rightarrow> nat \<Rightarrow> bool" where
  "centre k i j \<longleftrightarrow> i < k \<and> j < k \<and> \<not> ((i = 0 \<and> j = 0) \<or> (i = 0 \<and> j = k - 1) \<or> (i = k - 1 \<and> j = 0))"

lemma two_indices:
  "(\<Union>i \<in> {0..<k :: nat}. \<Union>j \<in> {0..<k}. set (if C i j then [f i j] else [])) = {p. \<exists>i j. p = f i j \<and> i < k \<and> j < k \<and> C i j}"
proof (intro set_eqI iffI)
  fix p
  assume "p \<in> (\<Union>i \<in> {0..<k}. \<Union>j \<in> {0..<k}. set (if C i j then [f i j] else []))"
  then obtain i j where "i < k" "j < k" "p \<in> set (if C i j then [f i j] else [])" by auto
  then show "p \<in> {p. \<exists>i j. p = f i j \<and> i < k \<and> j < k \<and> C i j}" by (cases "C i j") auto
next
  fix p
  assume "p \<in> {p. \<exists>i j. p = f i j \<and> i < k \<and> j < k \<and> C i j}"
  then obtain i j where "i \<in> {0..<k}" "j \<in> {0..<k}" "p \<in> set (if C i j then [f i j] else [])" by auto
  then show "p \<in> (\<Union>i \<in> {0..<k}. \<Union>j \<in> {0..<k}. set (if C i j then [f i j] else []))" by blast
qed

lemma set_alignment_centres:
  "set (alignment_centres ps) = {(ps ! i, ps ! j) | i j. centre (length ps) i j}"
  unfolding alignment_centres_def Let_def set_window set_upt two_indices centre_def by (rule refl)

subsection \<open>The layout\<close>

definition in_alignment :: "nat \<Rightarrow> int \<times> int \<Rightarrow> bool" where
  "in_alignment ver p \<longleftrightarrow>
     list_ex (\<lambda>(cx, cy). cx - 2 \<le> fst p \<and> fst p \<le> cx + 2 \<and> cy - 2 \<le> snd p \<and> snd p \<le> cy + 2)
       (alignment_centres (getAlignmentPatternPositions ver))"

definition func_cell :: "nat \<Rightarrow> int \<times> int \<Rightarrow> bool" where
  "func_cell ver p \<longleftrightarrow>
     (let n = 4 * int ver + 17; x = fst p; y = snd p
      in x < 9 \<and> y < 9 \<or> n - 8 \<le> x \<and> y < 9 \<or> x < 9 \<and> n - 8 \<le> y \<or> x = 6 \<or> y = 6 \<or> in_alignment ver p
         \<or> 7 \<le> ver \<and> (n - 11 \<le> x \<and> x < n - 8 \<and> y < 6 \<or> x < 6 \<and> n - 11 \<le> y \<and> y < n - 8))"

definition function_cells :: "nat \<Rightarrow> Ecc \<Rightarrow> cells" where
  "function_cells ver ecl =
     (let n = 4 * ver + 17
      in timing_cells n @ finder_cells n 3 3 @ finder_cells n (int n - 4) 3 @ finder_cells n 3 (int n - 4)
         @ concat (map (\<lambda>(x, y). alignment_cells x y) (alignment_centres (getAlignmentPatternPositions ver)))
         @ format_cells n (format_bits ecl 0)
         @ (if ver < 7 then [] else version_cells n (version_bits ver)))"

lemma setFunctionModule_frame [simp]:
  "qc_version (setFunctionModule x y d q) = qc_version q" "qc_size (setFunctionModule x y d q) = qc_size q"
  "qc_ecl (setFunctionModule x y d q) = qc_ecl q"
  by (simp_all add: setFunctionModule_def)

lemma set_cells_frame [simp]:
  "qc_version (set_cells cs q) = qc_version q" "qc_size (set_cells cs q) = qc_size q" "qc_ecl (set_cells cs q) = qc_ecl q"
  by (induction cs arbitrary: q) (auto simp: set_cells_def)

lemma set_cells_fold: "fold (\<lambda>(x, y). drawAlignmentPattern x y) cs q = set_cells (concat (map (\<lambda>(x, y). alignment_cells x y) cs)) q"
  by (induction cs arbitrary: q) (auto simp: drawAlignmentPattern_def set_cells_append set_cells_def)

lemma drawFunctionPatterns_cells:
  assumes "qc_size q = 4 * qc_version q + 17"
  shows "drawFunctionPatterns q = set_cells (function_cells (qc_version q) (qc_ecl q)) q"
  using assms
  by (simp add: drawFunctionPatterns_def drawFinderPattern_def drawFormatBits_def drawVersion_def set_cells_fold
      function_cells_def set_cells_append Let_def) (simp add: set_cells_def)

definition in_square :: "nat \<Rightarrow> int \<times> int \<Rightarrow> bool" where
  "in_square n p \<longleftrightarrow> 0 \<le> fst p \<and> fst p < int n \<and> 0 \<le> snd p \<and> snd p < int n"

lemma in_alignment_iff:
  "in_alignment ver p \<longleftrightarrow>
     (\<exists>i j. centre (length (getAlignmentPatternPositions ver)) i j
        \<and> getAlignmentPatternPositions ver ! i - 2 \<le> fst p \<and> fst p \<le> getAlignmentPatternPositions ver ! i + 2
        \<and> getAlignmentPatternPositions ver ! j - 2 \<le> snd p \<and> snd p \<le> getAlignmentPatternPositions ver ! j + 2)"
  unfolding in_alignment_def list_ex_iff set_alignment_centres by auto

lemma in_alignment_square:
  assumes "valid_version ver" "in_alignment ver p"
  shows "in_square (4 * ver + 17) p"
proof -
  from assms(2) obtain i j where "i < length (getAlignmentPatternPositions ver)" "j < length (getAlignmentPatternPositions ver)"
    "getAlignmentPatternPositions ver ! i - 2 \<le> fst p" "fst p \<le> getAlignmentPatternPositions ver ! i + 2"
    "getAlignmentPatternPositions ver ! j - 2 \<le> snd p" "snd p \<le> getAlignmentPatternPositions ver ! j + 2"
    unfolding in_alignment_iff centre_def by blast
  with positions_range [OF assms(1), of i] positions_range [OF assms(1), of j] show ?thesis by (auto simp: in_square_def)
qed

lemma all_alignment_places:
  "fst ` set (concat (map (\<lambda>(x, y). alignment_cells x y) (alignment_centres (getAlignmentPatternPositions ver))))
     = {p. in_alignment ver p}"
proof -
  have a: "fst ` set (concat (map (\<lambda>(x, y). alignment_cells x y) cs)) = (\<Union>c \<in> set cs. fst ` set (alignment_cells (fst c) (snd c)))" for cs
    by (induction cs) (auto simp: image_Un)
  show ?thesis unfolding a alignment_places in_alignment_def list_ex_iff by (force simp: split_beta)
qed

lemma layout_areas:
  fixes n x y :: int
  assumes "21 \<le> n"
  shows "x = 6 \<and> 0 \<le> y \<and> y < n \<or> y = 6 \<and> 0 \<le> x \<and> x < n
      \<or> 3 - 4 \<le> x \<and> x \<le> 3 + 4 \<and> 3 - 4 \<le> y \<and> y \<le> 3 + 4 \<and> 0 \<le> x \<and> x < n \<and> 0 \<le> y \<and> y < n
      \<or> n - 4 - 4 \<le> x \<and> x \<le> n - 4 + 4 \<and> 3 - 4 \<le> y \<and> y \<le> 3 + 4 \<and> 0 \<le> x \<and> x < n \<and> 0 \<le> y \<and> y < n
      \<or> 3 - 4 \<le> x \<and> x \<le> 3 + 4 \<and> n - 4 - 4 \<le> y \<and> y \<le> n - 4 + 4 \<and> 0 \<le> x \<and> x < n \<and> 0 \<le> y \<and> y < n
      \<or> x = 8 \<and> (0 \<le> y \<and> y \<le> 5 \<or> y = 7 \<or> y = 8) \<or> y = 8 \<and> (0 \<le> x \<and> x \<le> 5 \<or> x = 7)
      \<or> y = 8 \<and> n - 8 \<le> x \<and> x < n \<or> x = 8 \<and> n - 8 \<le> y \<and> y < n
      \<or> big \<and> (n - 11 \<le> x \<and> x < n - 8 \<and> 0 \<le> y \<and> y < 6 \<or> 0 \<le> x \<and> x < 6 \<and> n - 11 \<le> y \<and> y < n - 8)
    \<longleftrightarrow> 0 \<le> x \<and> x < n \<and> 0 \<le> y \<and> y < n \<and>
      (x < 9 \<and> y < 9 \<or> n - 8 \<le> x \<and> y < 9 \<or> x < 9 \<and> n - 8 \<le> y \<or> x = 6 \<or> y = 6
       \<or> big \<and> (n - 11 \<le> x \<and> x < n - 8 \<and> y < 6 \<or> x < 6 \<and> n - 11 \<le> y \<and> y < n - 8))" (is "?l \<longleftrightarrow> ?r")
proof
  assume ?l
  then show ?r using assms by (elim disjE conjE) simp_all
next
  assume r: ?r
  have c: "x < 9 \<Longrightarrow> x \<le> 7 \<or> x = 8" "y < 9 \<Longrightarrow> y \<le> 7 \<or> y = 8" "x \<le> 7 \<Longrightarrow> x \<le> 5 \<or> x = 6 \<or> x = 7"
    "y \<le> 7 \<Longrightarrow> y \<le> 5 \<or> y = 6 \<or> y = 7" by linarith+
  from r have b: "0 \<le> x" "x < n" "0 \<le> y" "y < n" by blast+
  from r consider "x < 9" "y < 9" | "n - 8 \<le> x" "y < 9" | "x < 9" "n - 8 \<le> y" | "x = 6" | "y = 6"
    | "big" "n - 11 \<le> x" "x < n - 8" "y < 6" | "big" "x < 6" "n - 11 \<le> y" "y < n - 8" by blast
  then show ?l
  proof cases
    case 1
    with c consider "x \<le> 7" "y \<le> 7" | "x = 8" "y \<le> 5 \<or> y = 6 \<or> y = 7 \<or> y = 8" | "y = 8" "x \<le> 5 \<or> x = 6 \<or> x = 7" by metis
    then show ?thesis using b by cases auto
  next
    case 2
    with c consider "y \<le> 7" | "y = 8" by metis
    then show ?thesis using b 2 by cases auto
  next
    case 3
    with c consider "x \<le> 7" | "x = 8" by metis
    then show ?thesis using b 3 by cases auto
  qed (use b in auto)
qed

lemma function_places:
  assumes "valid_version ver"
  shows "fst ` set (function_cells ver ecl) = {p. in_square (4 * ver + 17) p \<and> func_cell ver p}"
proof (rule set_eqI)
  fix p :: "int \<times> int"
  obtain x y where p: "p = (x, y)" by fastforce
  let ?n = "4 * int ver + 17"
  have v: "1 \<le> ver" using assms by (simp add: valid_version_def)
  have "p \<in> fst ` set (function_cells ver ecl) \<longleftrightarrow>
      p \<in> {(x, y). (x = 6 \<and> 0 \<le> y \<and> y < int (4 * ver + 17)) \<or> (y = 6 \<and> 0 \<le> x \<and> x < int (4 * ver + 17))}
      \<or> p \<in> finder_area (4 * ver + 17) 3 3 \<or> p \<in> finder_area (4 * ver + 17) (int (4 * ver + 17) - 4) 3
      \<or> p \<in> finder_area (4 * ver + 17) 3 (int (4 * ver + 17) - 4) \<or> in_alignment ver p
      \<or> p \<in> corner_cells (4 * ver + 17) \<or> (7 \<le> ver \<and> p \<in> version_area (4 * ver + 17))"
    unfolding function_cells_def Let_def set_append image_Un timing_places finder_places all_alignment_places format_places
    by (cases "ver < 7") (simp_all add: version_places)
  also have "\<dots> \<longleftrightarrow> in_square (4 * ver + 17) p \<and> func_cell ver p"
  proof (cases "in_alignment ver p")
    case True
    then show ?thesis using in_alignment_square [OF assms True] by (simp add: func_cell_def Let_def)
  next
    case False
    have m: "21 \<le> int (4 * ver + 17)" using v by simp
    show ?thesis
      using layout_areas [OF m, of x y "7 \<le> ver"] False
      by (simp add: p in_square_def func_cell_def Let_def corner_iff finder_area_def version_area_def)
  qed
  finally show "p \<in> fst ` set (function_cells ver ecl) \<longleftrightarrow> p \<in> {p. in_square (4 * ver + 17) p \<and> func_cell ver p}" by simp
qed

lemma function_cells_ok: "valid_version ver \<Longrightarrow> list_all (cell_ok (4 * ver + 17)) (function_cells ver ecl)"
proof -
  assume v: "valid_version ver"
  have "cell_ok (4 * ver + 17) c" if "c \<in> set (function_cells ver ecl)" for c
  proof -
    have "fst c \<in> fst ` set (function_cells ver ecl)" using that by (rule imageI)
    then show ?thesis unfolding function_places [OF v] by (simp add: cell_ok_def in_square_def)
  qed
  then show ?thesis by (simp add: list_all_iff)
qed

text \<open>What the drawing marks.\<close>

definition func_at :: "nat \<Rightarrow> nat \<times> nat \<Rightarrow> bool" where
  "func_at ver p \<longleftrightarrow> func_cell ver (int (fst p), int (snd p))"

definition fresh_code :: "nat \<Rightarrow> Ecc \<Rightarrow> QrCode" where
  "fresh_code ver ecl = (let n = ver * 4 + 17 in
     \<lparr>qc_version = ver, qc_size = n, qc_ecl = ecl, qc_mask = 0, qc_modules = blank_grid n, qc_isFunction = blank_grid n, qc_fault = False\<rparr>)"

lemma drawFunctionPatterns_fresh:
  assumes "valid_version ver"
  shows "drawFunctionPatterns (fresh_code ver ecl) = (fresh_code ver ecl)
     \<lparr>qc_modules := grid.put_all (colours (function_cells ver ecl)) (blank_grid (4 * ver + 17)),
      qc_isFunction := grid.put_all (marks (function_cells ver ecl)) (blank_grid (4 * ver + 17))\<rparr>"
proof -
  have "drawFunctionPatterns (fresh_code ver ecl) = set_cells (function_cells ver ecl) (fresh_code ver ecl)"
    using drawFunctionPatterns_cells [of "fresh_code ver ecl"] by (simp add: fresh_code_def Let_def)
  also have "\<dots> = (fresh_code ver ecl)
     \<lparr>qc_modules := grid.put_all (colours (function_cells ver ecl)) (qc_modules (fresh_code ver ecl)),
      qc_isFunction := grid.put_all (marks (function_cells ver ecl)) (qc_isFunction (fresh_code ver ecl))\<rparr>"
    by (rule set_cells_eq) (use function_cells_ok [OF assms] in \<open>simp add: fresh_code_def Let_def mult.commute\<close>)
  finally show ?thesis by (simp add: fresh_code_def Let_def mult.commute)
qed

lemma drawn_marks:
  assumes "valid_version ver" "in_grid (4 * ver + 17) p"
  shows "at (qc_isFunction (drawFunctionPatterns (fresh_code ver ecl))) p \<longleftrightarrow> func_at ver p"
proof -
  let ?n = "4 * ver + 17"
  have ok: "list_all (in_grid ?n \<circ> fst) (marks (function_cells ver ecl))" by (rule inside_marks [OF function_cells_ok [OF assms(1)]])
  have "list_all snd (marks (function_cells ver ecl))" by (simp add: marks_def list_all_iff)
  with grid.look_put_all_mark [OF square_blank ok assms(2)] at_blank [OF assms(2)]
  have "at (qc_isFunction (drawFunctionPatterns (fresh_code ver ecl))) p \<longleftrightarrow> p \<in> place ` set (function_cells ver ecl)"
    by (simp add: drawFunctionPatterns_fresh [OF assms(1)] places_marks)
  also have "place ` set (function_cells ver ecl) = (\<lambda>p. (nat (fst p), nat (snd p))) ` fst ` set (function_cells ver ecl)"
    by (simp add: image_image place_def)
  also have "p \<in> \<dots> \<longleftrightarrow> func_at ver p" unfolding function_places [OF assms(1)]
  proof
    assume "func_at ver p"
    then have "(int (fst p), int (snd p)) \<in> {p. in_square ?n p \<and> func_cell ver p}"
      using assms(2) by (simp add: func_at_def in_square_def in_grid_def)
    then show "p \<in> (\<lambda>p. (nat (fst p), nat (snd p))) ` {p. in_square ?n p \<and> func_cell ver p}" by (force simp: image_iff)
  qed (auto simp: func_at_def in_square_def)
  finally show ?thesis .
qed

end
