(* ===== verification/QrScan.thy ===== *)
theory QrScan
  imports QrPatterns
begin

text \<open>
  The scan of a QR code.  The zigzag visits every module outside column 6 once; the codewords' bits go
  to the modules it meets that are not function modules, one after the other; a mask inverts its
  modules among them and nothing else.  The modules for data are as many as the formula of the
  standard says, so that every bit finds its place.
\<close>

subsection \<open>The zigzag\<close>

lemma zigzag_columns_end: "zigzag_columns 6 = [5, 3, 1]"
  by code_simp

lemma zigzag_columns_even: "zigzag_columns (6 + 2 * int k) = map (\<lambda>i. 6 + 2 * int i) (rev [1..<Suc k]) @ [5, 3, 1]"
proof (induction k)
  case 0
  then show ?case by (simp add: zigzag_columns_end)
next
  case (Suc k)
  have "zigzag_columns (6 + 2 * int (Suc k)) = (6 + 2 * int (Suc k)) # zigzag_columns (6 + 2 * int k)"
    by (subst zigzag_columns.simps) (simp add: Let_def algebra_simps)
  with Suc show ?case by simp
qed

lemma set_zigzag_pair:
  assumes "1 \<le> c"
  shows "set (zigzag_pair n c) = {nat c, nat (c - 1)} \<times> {..<n}" "length (zigzag_pair n c) = 2 * n"
proof -
  define f where "f = (\<lambda>v. if (c + 1) AND 2 = 0 then n - 1 - v else v)"
  have z: "zigzag_pair n c = concat (map (\<lambda>v. [(nat c, f v), (nat (c - 1), f v)]) [0..<n])"
    by (simp add: zigzag_pair_def f_def Let_def)
  have f: "f ` {..<n} = {..<n}"
  proof
    show "{..<n} \<subseteq> f ` {..<n}"
    proof
      fix y
      assume "y \<in> {..<n}"
      then have "y = f (f y)" "f y \<in> {..<n}" by (auto simp: f_def)
      then show "y \<in> f ` {..<n}" by (rule image_eqI)
    qed
  qed (auto simp: f_def)
  have "set (zigzag_pair n c) = (\<Union>y \<in> f ` {..<n}. {(nat c, y), (nat (c - 1), y)})" unfolding z by auto
  then show "set (zigzag_pair n c) = {nat c, nat (c - 1)} \<times> {..<n}" unfolding f by auto
  have "length (concat (map (\<lambda>v. [g v, h v]) xs)) = 2 * length xs" for g h :: "nat \<Rightarrow> nat \<times> nat" and xs
    by (induction xs) auto
  then show "length (zigzag_pair n c) = 2 * n" by (simp add: z)
qed

lemma zigzag_all:
  assumes "n = 7 + 2 * k"
  shows "set (zigzag n) = ({..<n} - {6}) \<times> {..<n}" "distinct (zigzag n)"
proof -
  define cs where "cs = map (\<lambda>i. 6 + 2 * int i) (rev [1..<Suc k]) @ [5, 3, 1]"
  have z: "zigzag n = concat (map (zigzag_pair n) cs)"
    using zigzag_columns_even [of k] assms by (simp add: zigzag_def cs_def)
  have c1: "1 \<le> c" if "c \<in> set cs" for c using that by (auto simp: cs_def)
  have "set (zigzag n) = (\<Union>c \<in> set cs. {nat c, nat (c - 1)} \<times> {..<n})"
    unfolding z using c1 by (simp add: set_zigzag_pair)
  also have "\<dots> = (\<Union>c \<in> set cs. {nat c, nat (c - 1)}) \<times> {..<n}" by auto
  also have "(\<Union>c \<in> set cs. {nat c, nat (c - 1)}) = {..<n} - {6}"
  proof (intro set_eqI iffI)
    fix x
    assume x: "x \<in> {..<n} - {6}"
    show "x \<in> (\<Union>c \<in> set cs. {nat c, nat (c - 1)})"
    proof (cases "x < 6")
      case True
      then have "x \<in> {0, 1, 2, 3, 4, 5}" by auto
      then show ?thesis by (auto simp: cs_def)
    next
      case False
      define i where "i = (x - 5) div 2"
      have "1 \<le> i" "i < Suc k" "x = 6 + 2 * i \<or> x = 5 + 2 * i" using x False assms by (auto simp: i_def)
      then have "6 + 2 * int i \<in> set cs" "x \<in> {nat (6 + 2 * int i), nat (6 + 2 * int i - 1)}" by (auto simp: cs_def)
      then show ?thesis by blast
    qed
  qed (use assms in \<open>auto simp: cs_def\<close>)
  finally show s: "set (zigzag n) = ({..<n} - {6}) \<times> {..<n}" .
  have "length (concat (map (zigzag_pair n) xs)) = 2 * n * length xs" if "\<And>c. c \<in> set xs \<Longrightarrow> 1 \<le> c" for xs
    using that by (induction xs) (simp_all add: set_zigzag_pair)
  then have "length (zigzag n) = 2 * n * length cs" unfolding z using c1 by blast
  also have "length cs = k + 3" by (simp add: cs_def del: upt_Suc)
  also have "2 * n * (k + 3) = (n - 1) * n" by (simp add: assms algebra_simps)
  also have "\<dots> = card (set (zigzag n))" unfolding s by (simp add: assms)
  finally show "distinct (zigzag n)" by (rule card_distinct [OF sym])
qed

subsection \<open>Codewords\<close>

lemma codeword_bit: "i < length data * 8 \<Longrightarrow> getBit (uint (data ! (i div 8))) (7 - i mod 8) = bytes_bits data ! i"
proof -
  assume "i < length data * 8"
  moreover have "7 - i mod 8 < (8 :: nat)" by simp
  ultimately show ?thesis by (simp only: getBit_bit nth_bytes_bits bit_uint_iff mult.commute) simp
qed

lemma codewords_put_all:
  "fst (fold (codeword_step data F) ps (g, i)) = grid.put_all (zip (filter (\<lambda>p. \<not> at F p) ps) (drop i (bytes_bits data))) g"
proof (induction ps arbitrary: g i)
  case (Cons p ps)
  show ?case
  proof (cases "at F p \<or> \<not> i < length data * 8")
    case True
    then have s: "codeword_step data F p (g, i) = (g, i)" by (auto simp: codeword_step_def)
    show ?thesis using Cons [of g i] True by (auto simp: s)
  next
    case False
    then have s: "codeword_step data F p (g, i) = (set_at p (bytes_bits data ! i) g, Suc i)"
      by (simp add: codeword_step_def codeword_bit)
    have "drop i (bytes_bits data) = bytes_bits data ! i # drop (Suc i) (bytes_bits data)"
      using False by (simp add: Cons_nth_drop_Suc)
    with Cons [of "set_at p (bytes_bits data ! i) g" "Suc i"] False show ?thesis by (simp add: s)
  qed
qed simp

subsection \<open>Masks\<close>

lemma all_cells_set: "set (all_cells n) = {p. in_grid n p}" "distinct (all_cells n)"
proof -
  show s: "set (all_cells n) = {p. in_grid n p}" by (auto simp: all_cells_def in_grid_def)
  have "length (all_cells n) = n * n" by (simp add: all_cells_def length_concat o_def sum_list_triv)
  moreover have "{p. in_grid n p} = {..<n} \<times> {..<n}" by (auto simp: in_grid_def)
  ultimately show "distinct (all_cells n)" by (intro card_distinct) (simp add: s)
qed

lemma mask_fold:
  assumes "list_all (in_grid n) ps" "distinct ps"
  shows "square n g \<Longrightarrow> square n (fold (mask_cell m F) ps g)
     \<and> (\<forall>p. in_grid n p \<longrightarrow> at (fold (mask_cell m F) ps g) p =
          (at g p \<noteq> (p \<in> set ps \<and> mask_invert m (fst p) (snd p) \<and> \<not> at F p)))"
  using assms
proof (induction ps arbitrary: g)
  case (Cons q ps)
  then have "square n (mask_cell m F q g)" by (simp add: mask_cell_def square_set)
  from Cons.IH [OF this] Cons.prems show ?case by (auto simp: mask_cell_def at_set)
qed simp

lemma applyMask_at:
  assumes "square (qc_size q) (qc_modules q)" "m \<le> 7"
  shows "\<exists>g. applyMask (int m) q = Inr (q\<lparr>qc_modules := g\<rparr>) \<and> square (qc_size q) g
     \<and> (\<forall>p. in_grid (qc_size q) p \<longrightarrow>
          at g p = (at (qc_modules q) p \<noteq> (mask_invert m (fst p) (snd p) \<and> \<not> at (qc_isFunction q) p)))"
proof (intro exI conjI)
  let ?g = "fold (mask_cell m (qc_isFunction q)) (all_cells (qc_size q)) (qc_modules q)"
  have "list_all (in_grid (qc_size q)) (all_cells (qc_size q))" by (simp add: list_all_iff all_cells_set)
  note f = mask_fold [OF this all_cells_set(2) assms(1), where m = m and F = "qc_isFunction q"]
  show "applyMask (int m) q = Inr (q\<lparr>qc_modules := ?g\<rparr>)" using assms(2) by (simp add: applyMask_def)
  show "square (qc_size q) ?g" using f by (rule conjunct1)
  show "\<forall>p. in_grid (qc_size q) p \<longrightarrow>
      at ?g p = (at (qc_modules q) p \<noteq> (mask_invert m (fst p) (snd p) \<and> \<not> at (qc_isFunction q) p))"
    using f by (simp add: all_cells_set)
qed

subsection \<open>How many modules carry data\<close>

lemma alignment_away:
  assumes "valid_version ver" "in_alignment ver (x, y)"
  shows "(16 \<le> x \<and> 16 \<le> y) \<or> (4 \<le> x \<and> x \<le> 8 \<and> 16 \<le> y \<and> y \<le> 4 * int ver) \<or> (4 \<le> y \<and> y \<le> 8 \<and> 16 \<le> x \<and> x \<le> 4 * int ver)"
proof -
  let ?ps = "getAlignmentPatternPositions ver"
  from assms(2) obtain i j where c: "centre (length ?ps) i j"
    and b: "?ps ! i - 2 \<le> x" "x \<le> ?ps ! i + 2" "?ps ! j - 2 \<le> y" "y \<le> ?ps ! j + 2"
    unfolding in_alignment_iff by auto
  have "i < length ?ps" "j < length ?ps" using c by (simp_all add: centre_def)
  note r = positions_range [OF assms(1) this(1)] positions_range [OF assms(1) this(2)]
  have "length ?ps \<noteq> 0" using c by (auto simp: centre_def)
  then have z: "?ps ! 0 = 6" using positions_valid [OF assms(1)] by (auto simp: positions_ok_def Let_def split: if_splits)
  consider "0 < i" "0 < j" | "i = 0" "0 < j" "j < length ?ps - 1" | "j = 0" "0 < i" "i < length ?ps - 1"
    using c unfolding centre_def by fastforce
  then show ?thesis
  proof cases
    case 1
    then show ?thesis using r b by auto
  next
    case 2
    then show ?thesis using r(2) b z by auto
  next
    case 3
    then show ?thesis using r(1) b z by auto
  qed
qed

definition align_square :: "nat \<Rightarrow> nat \<times> nat \<Rightarrow> (int \<times> int) set" where
  "align_square ver c =
     {getAlignmentPatternPositions ver ! fst c - 2 .. getAlignmentPatternPositions ver ! fst c + 2}
     \<times> {getAlignmentPatternPositions ver ! snd c - 2 .. getAlignmentPatternPositions ver ! snd c + 2}"

definition off_lines :: "(int \<times> int) set" where
  "off_lines = {(x, y). x \<noteq> 6 \<and> y \<noteq> 6}"

lemma alignment_squares: "{p. in_alignment ver p} = (\<Union>c \<in> {(i, j). centre (length (getAlignmentPatternPositions ver)) i j}. align_square ver c)"
  unfolding align_square_def by (auto simp: in_alignment_iff) blast

lemma centres_split:
  "{(i, j). centre k i j} = {0} \<times> {0<..<k - 1} \<union> {0<..<k - 1} \<times> {0} \<union> {0<..<k} \<times> {0<..<k}"
  by (auto simp: centre_def)

lemma card_align_square:
  assumes "valid_version ver" "centre (length (getAlignmentPatternPositions ver)) i j"
  shows "card (align_square ver (i, j) \<inter> off_lines) = (if i = 0 \<or> j = 0 then 20 else 25)"
proof -
  let ?ps = "getAlignmentPatternPositions ver"
  have l: "i < length ?ps" "j < length ?ps" "\<not> (i = 0 \<and> j = 0)" using assms(2) by (simp_all add: centre_def)
  have "length ?ps \<noteq> 0" using l by auto
  then have z: "?ps ! 0 = 6" using positions_valid [OF assms(1)] by (auto simp: positions_ok_def Let_def split: if_splits)
  have side: "card ({?ps ! m - 2 .. ?ps ! m + 2} - {6}) = (if m = 0 then 4 else 5)" if "m < length ?ps" for m
  proof (cases "m = 0")
    case True
    have "{?ps ! m - 2 .. ?ps ! m + 2} - {6} = {4, 5, 7, 8}" using z True by auto
    then show ?thesis using True by simp
  next
    case False
    then have "18 \<le> ?ps ! m" using positions_range [OF assms(1) that] by simp
    then have "{?ps ! m - 2 .. ?ps ! m + 2} - {6} = {?ps ! m - 2 .. ?ps ! m + 2}" by auto
    then show ?thesis using False by simp
  qed
  have "align_square ver (i, j) \<inter> off_lines = ({?ps ! i - 2 .. ?ps ! i + 2} - {6}) \<times> ({?ps ! j - 2 .. ?ps ! j + 2} - {6})"
    by (auto simp: align_square_def off_lines_def)
  then have "card (align_square ver (i, j) \<inter> off_lines) = (if i = 0 then 4 else 5) * (if j = 0 then 4 else 5)"
    using side l by (simp only: card_cartesian_product)
  then show ?thesis using l(3) by auto
qed

lemma align_squares_apart:
  assumes "valid_version ver" "c \<noteq> d" "fst c < length (getAlignmentPatternPositions ver)" "snd c < length (getAlignmentPatternPositions ver)"
    "fst d < length (getAlignmentPatternPositions ver)" "snd d < length (getAlignmentPatternPositions ver)"
  shows "align_square ver c \<inter> align_square ver d = {}"
proof -
  have far: "{getAlignmentPatternPositions ver ! a - 2 .. getAlignmentPatternPositions ver ! a + 2}
      \<inter> {getAlignmentPatternPositions ver ! b - 2 .. getAlignmentPatternPositions ver ! b + 2} = {}"
    if "a < length (getAlignmentPatternPositions ver)" "b < length (getAlignmentPatternPositions ver)" "a \<noteq> b" for a b
    using positions_spread [OF assms(1), of a b] positions_spread [OF assms(1), of b a] that
    by (cases "a < b") auto
  show ?thesis
  proof (cases "fst c = fst d")
    case True
    then have "snd c \<noteq> snd d" using assms(2) by (simp add: prod_eq_iff)
    from far [OF assms(4,6) this] show ?thesis by (auto simp: align_square_def)
  next
    case False
    from far [OF assms(3,5) this] show ?thesis by (auto simp: align_square_def)
  qed
qed

lemma card_alignment:
  assumes "valid_version ver"
  shows "card ({p. in_alignment ver p} \<inter> off_lines)
     = (if ver = 1 then 0 else 40 * (ver div 7) + 25 * ((ver div 7 + 1) * (ver div 7 + 1)))"
proof -
  let ?k = "length (getAlignmentPatternPositions ver)"
  let ?C = "{(i, j). centre ?k i j}"
  have fin: "finite ?C" unfolding centres_split by simp
  have "{p. in_alignment ver p} \<inter> off_lines = (\<Union>c \<in> ?C. align_square ver c \<inter> off_lines)"
    unfolding alignment_squares by auto
  moreover have "card (\<Union>c \<in> ?C. align_square ver c \<inter> off_lines) = (\<Sum>c \<in> ?C. card (align_square ver c \<inter> off_lines))"
  proof (rule card_UN_disjoint [OF fin])
    show "\<forall>c \<in> ?C. finite (align_square ver c \<inter> off_lines)" by (simp add: align_square_def)
    show "\<forall>c \<in> ?C. \<forall>d \<in> ?C. c \<noteq> d \<longrightarrow> (align_square ver c \<inter> off_lines) \<inter> (align_square ver d \<inter> off_lines) = {}"
    proof (intro ballI impI)
      fix c d
      assume c: "c \<in> ?C" "d \<in> ?C" "c \<noteq> d"
      have "fst c < ?k" "snd c < ?k" "fst d < ?k" "snd d < ?k" using c(1,2) by (cases c; cases d; simp add: centre_def)+
      then have "align_square ver c \<inter> align_square ver d = {}" by (rule align_squares_apart [OF assms c(3)])
      then show "(align_square ver c \<inter> off_lines) \<inter> (align_square ver d \<inter> off_lines) = {}" by blast
    qed
  qed
  moreover have "(\<Sum>c \<in> ?C. card (align_square ver c \<inter> off_lines)) = (\<Sum>c \<in> ?C. if fst c = 0 \<or> snd c = 0 then 20 else 25)"
    by (rule sum.cong) (auto simp: card_align_square [OF assms])
  moreover have "\<dots> = 20 * card ({0} \<times> {0<..<?k - 1} \<union> {0<..<?k - 1} \<times> {0}) + 25 * card ({0<..<?k} \<times> {0<..<?k})"
  proof -
    let ?A = "{0} \<times> {0<..<?k - 1} \<union> {0<..<?k - 1} \<times> {0 :: nat}" and ?B = "{0<..<?k} \<times> {0<..<?k}"
    have "(\<Sum>c \<in> ?A. if fst c = 0 \<or> snd c = 0 then 20 else 25) = (\<Sum>c \<in> ?A. 20 :: nat)" by (rule sum.cong) auto
    moreover have "(\<Sum>c \<in> ?B. if fst c = 0 \<or> snd c = 0 then 20 else 25) = (\<Sum>c \<in> ?B. 25 :: nat)" by (rule sum.cong) auto
    moreover have "(\<Sum>c \<in> ?A \<union> ?B. if fst c = 0 \<or> snd c = 0 then 20 else 25) =
        (\<Sum>c \<in> ?A. if fst c = 0 \<or> snd c = 0 then 20 else 25) + (\<Sum>c \<in> ?B. if fst c = 0 \<or> snd c = 0 then 20 else 25 :: nat)"
      by (rule sum.union_disjoint) auto
    ultimately show ?thesis unfolding centres_split by (simp only: sum_constant of_nat_id mult.commute)
  qed
  moreover have "card ({0} \<times> {0<..<?k - 1} \<union> {0<..<?k - 1} \<times> {0}) = 2 * (?k - 2)"
    by (subst card_Un_disjoint) auto
  moreover have "?k = (if ver = 1 then 0 else ver div 7 + 2)"
    using positions_valid [OF assms] by (auto simp: positions_ok_def Let_def)
  ultimately show ?thesis by (auto simp: card_cartesian_product)
qed

lemma func_parts:
  assumes "valid_version ver"
  shows "{p. in_square (4 * ver + 17) p \<and> func_cell ver p} =
     {0..<9} \<times> {0..<9} \<union> {4 * int ver + 9..<4 * int ver + 17} \<times> {0..<9} \<union> {0..<9} \<times> {4 * int ver + 9..<4 * int ver + 17}
     \<union> {6} \<times> {9..<4 * int ver + 9} \<union> {9..<4 * int ver + 9} \<times> {6} \<union> {p. in_alignment ver p} \<inter> off_lines
     \<union> (if 7 \<le> ver then {4 * int ver + 6..<4 * int ver + 9} \<times> {0..<6} \<union> {0..<6} \<times> {4 * int ver + 6..<4 * int ver + 9} else {})"
    (is "?l = ?r")
proof (rule set_eqI)
  fix p :: "int \<times> int"
  obtain x y where p: "p = (x, y)" by fastforce
  have v: "1 \<le> ver" using assms by (simp add: valid_version_def)
  show "p \<in> ?l \<longleftrightarrow> p \<in> ?r"
  proof (cases "in_alignment ver p")
    case True
    note s = in_alignment_square [OF assms True] and a = alignment_away [OF assms True [unfolded p]]
    have l: "p \<in> ?l" using s True by (simp add: func_cell_def Let_def)
    have "p \<in> ?r"
    proof (cases "x = 6 \<or> y = 6")
      case True
      then consider "x = 6" "16 \<le> y" "y \<le> 4 * int ver" | "y = 6" "16 \<le> x" "x \<le> 4 * int ver" using a by linarith
      then show ?thesis by cases (simp_all add: p)
    next
      case False
      then show ?thesis using \<open>in_alignment ver p\<close> by (simp add: p off_lines_def)
    qed
    with l show ?thesis by blast
  next
    case False
    have "p \<in> ?l \<longleftrightarrow> 0 \<le> x \<and> x < 4 * int ver + 17 \<and> 0 \<le> y \<and> y < 4 * int ver + 17 \<and>
       (x < 9 \<and> y < 9 \<or> 4 * int ver + 9 \<le> x \<and> y < 9 \<or> x < 9 \<and> 4 * int ver + 9 \<le> y \<or> x = 6 \<or> y = 6 \<or>
        7 \<le> ver \<and> (4 * int ver + 6 \<le> x \<and> x < 4 * int ver + 9 \<and> y < 6 \<or> x < 6 \<and> 4 * int ver + 6 \<le> y \<and> y < 4 * int ver + 9))"
      using False p by (simp add: in_square_def func_cell_def Let_def add.commute)
    also have "\<dots> \<longleftrightarrow> p \<in> ?r"
    proof
      assume "0 \<le> x \<and> x < 4 * int ver + 17 \<and> 0 \<le> y \<and> y < 4 * int ver + 17 \<and>
       (x < 9 \<and> y < 9 \<or> 4 * int ver + 9 \<le> x \<and> y < 9 \<or> x < 9 \<and> 4 * int ver + 9 \<le> y \<or> x = 6 \<or> y = 6 \<or>
        7 \<le> ver \<and> (4 * int ver + 6 \<le> x \<and> x < 4 * int ver + 9 \<and> y < 6 \<or> x < 6 \<and> 4 * int ver + 6 \<le> y \<and> y < 4 * int ver + 9))"
      then show "p \<in> ?r" unfolding p by (elim conjE disjE) auto
    qed (use False p v in \<open>auto split: if_splits\<close>)
    finally show ?thesis .
  qed
qed

lemma card_func:
  assumes "valid_version ver"
  shows "card {p. in_square (4 * ver + 17) p \<and> func_cell ver p}
     = 225 + 8 * ver + (if ver = 1 then 0 else 40 * (ver div 7) + 25 * ((ver div 7 + 1) * (ver div 7 + 1))) + (if 7 \<le> ver then 36 else 0)"
proof -
  let ?v = "int ver"
  let ?S1 = "{0..<9} \<times> {0..<9} :: (int \<times> int) set" and ?S2 = "{4 * ?v + 9..<4 * ?v + 17} \<times> {0..<9 :: int}"
    and ?S3 = "{0..<9 :: int} \<times> {4 * ?v + 9..<4 * ?v + 17}" and ?S4 = "{6 :: int} \<times> {9..<4 * ?v + 9}" and ?S5 = "{9..<4 * ?v + 9} \<times> {6 :: int}"
    and ?A = "{p. in_alignment ver p} \<inter> off_lines"
    and ?V = "if 7 \<le> ver then {4 * ?v + 6..<4 * ?v + 9} \<times> {0..<6} \<union> {0..<6} \<times> {4 * ?v + 6..<4 * ?v + 9} else {}"
  have v: "1 \<le> ver" using assms by (simp add: valid_version_def)
  have away: "(x, y) \<in> ?A \<Longrightarrow> (16 \<le> x \<and> 16 \<le> y) \<or> (4 \<le> x \<and> x \<le> 8 \<and> 16 \<le> y \<and> y \<le> 4 * int ver)
      \<or> (4 \<le> y \<and> y \<le> 8 \<and> 16 \<le> x \<and> x \<le> 4 * int ver)" "(x, y) \<in> ?A \<Longrightarrow> x \<noteq> 6 \<and> y \<noteq> 6" for x y
    using alignment_away [OF assms] by (auto simp: off_lines_def)
  have fA: "finite ?A" unfolding alignment_squares centres_split by (auto simp: align_square_def)
  have fV: "finite ?V" by simp
  have cV: "card ?V = (if 7 \<le> ver then 36 else 0)"
  proof (cases "7 \<le> ver")
    case True
    then have "({4 * ?v + 6..<4 * ?v + 9} \<times> {0..<6}) \<inter> ({0..<6} \<times> {4 * ?v + 6..<4 * ?v + 9}) = {}" by auto
    then show ?thesis using True by (simp add: card_Un_disjoint)
  qed simp
  have d6: "(?S1 \<union> ?S2 \<union> ?S3 \<union> ?S4 \<union> ?S5 \<union> ?A) \<inter> ?V = {}" using away v by (auto split: if_splits) fastforce+
  have d5: "(?S1 \<union> ?S2 \<union> ?S3 \<union> ?S4 \<union> ?S5) \<inter> ?A = {}" using away by fastforce
  have d4: "(?S1 \<union> ?S2 \<union> ?S3 \<union> ?S4) \<inter> ?S5 = {}" and d3: "(?S1 \<union> ?S2 \<union> ?S3) \<inter> ?S4 = {}"
    and d2: "(?S1 \<union> ?S2) \<inter> ?S3 = {}" and d1: "?S1 \<inter> ?S2 = {}" using v by auto
  have c1: "card (?S1 \<union> ?S2) = card ?S1 + card ?S2" by (rule card_Un_disjoint [OF _ _ d1]) simp_all
  have c2: "card (?S1 \<union> ?S2 \<union> ?S3) = card (?S1 \<union> ?S2) + card ?S3" by (rule card_Un_disjoint [OF _ _ d2]) simp_all
  have c3: "card (?S1 \<union> ?S2 \<union> ?S3 \<union> ?S4) = card (?S1 \<union> ?S2 \<union> ?S3) + card ?S4"
    by (rule card_Un_disjoint [OF _ _ d3]) simp_all
  have c4: "card (?S1 \<union> ?S2 \<union> ?S3 \<union> ?S4 \<union> ?S5) = card (?S1 \<union> ?S2 \<union> ?S3 \<union> ?S4) + card ?S5"
    by (rule card_Un_disjoint [OF _ _ d4]) simp_all
  have c5: "card (?S1 \<union> ?S2 \<union> ?S3 \<union> ?S4 \<union> ?S5 \<union> ?A) = card (?S1 \<union> ?S2 \<union> ?S3 \<union> ?S4 \<union> ?S5) + card ?A"
    by (rule card_Un_disjoint [OF _ fA d5]) simp_all
  have c6: "card (?S1 \<union> ?S2 \<union> ?S3 \<union> ?S4 \<union> ?S5 \<union> ?A \<union> ?V) = card (?S1 \<union> ?S2 \<union> ?S3 \<union> ?S4 \<union> ?S5 \<union> ?A) + card ?V"
    by (rule card_Un_disjoint [OF _ fV d6]) (use fA in simp)
  have "card {p. in_square (4 * ver + 17) p \<and> func_cell ver p}
      = card ?S1 + card ?S2 + card ?S3 + card ?S4 + card ?S5 + card ?A + card ?V"
    unfolding func_parts [OF assms] c6 c5 c4 c3 c2 c1 by (rule refl)
  then show ?thesis unfolding card_alignment [OF assms] cV by (simp add: card_cartesian_product)
qed

text \<open>The data modules in the order of the standard: pairs of columns from the right, every other pair
  upwards; from column 6 on the pairs are one further to the left.\<close>

definition scan_right :: "nat \<Rightarrow> nat \<Rightarrow> nat" where
  "scan_right n c = (if 6 < n - 1 - 2 * c then n - 1 - 2 * c else n - 2 - 2 * c)"

definition standard_scan :: "nat \<Rightarrow> (nat \<times> nat) list" where
  "standard_scan n = concat (map (\<lambda>c. concat (map (\<lambda>v.
     let x = scan_right n c; y = (if even c then n - 1 - v else v) in [(x, y), (x - 1, y)]) [0..<n])) [0..<(n - 1) div 2])"

definition data_places :: "nat \<Rightarrow> (nat \<times> nat) list" where
  "data_places ver = filter (\<lambda>p. \<not> func_at ver p) (standard_scan (4 * ver + 17))"

lemma scan_columns: "zigzag_columns (int (7 + 2 * k) - 1) = map (\<lambda>c. int (scan_right (7 + 2 * k) c)) [0..<k + 3]"
proof -
  have u: "[0..<k + 3] = [0..<k] @ [k, Suc k, Suc (Suc k)]" by (simp add: numeral_3_eq_3)
  have "rev [1..<Suc k] = map (\<lambda>c. k - c) [0..<k]"
    by (rule nth_equalityI) (simp_all add: rev_nth del: upt_Suc)
  then have "map (\<lambda>i. 6 + 2 * int i) (rev [1..<Suc k]) = map (\<lambda>c. int (scan_right (7 + 2 * k) c)) [0..<k]"
    by (auto simp: scan_right_def of_nat_diff)
  moreover have "[5, 3, 1] = map (\<lambda>c. int (scan_right (7 + 2 * k) c)) [k, Suc k, Suc (Suc k)]" by (simp add: scan_right_def)
  ultimately show ?thesis using zigzag_columns_even [of k] unfolding u map_append by simp
qed

lemma scan_upward:
  assumes "c < 2 * ver + 8"
  shows "(int (scan_right (4 * ver + 17) c) + 1) AND 2 = 0 \<longleftrightarrow> even c"
proof -
  have "(scan_right (4 * ver + 17) c + 1) div 2 = 2 * ver + 8 - c" using assms by (simp add: scan_right_def) linarith
  then have "even ((scan_right (4 * ver + 17) c + 1) div 2) \<longleftrightarrow> even c" using assms by simp
  moreover have "(x AND 2 = 0) \<longleftrightarrow> even (x div 2)" for x :: int
  proof -
    have "x AND 2 = 0 \<longleftrightarrow> \<not> bit x 1" using and_exp_eq_0_iff_not_bit [of x 1] by simp
    then show ?thesis by (simp add: bit_iff_odd)
  qed
  moreover have "int ((scan_right (4 * ver + 17) c + 1) div 2) = (int (scan_right (4 * ver + 17) c) + 1) div 2" by simp
  ultimately show ?thesis by (metis even_of_nat)
qed

text \<open>The zigzag of the code is that of the standard.\<close>

lemma zigzag_standard: "zigzag (4 * ver + 17) = standard_scan (4 * ver + 17)"
proof -
  let ?n = "4 * ver + 17"
  have n: "?n = 7 + 2 * (2 * ver + 5)" "(?n - 1) div 2 = 2 * ver + 8" "2 * ver + 5 + 3 = 2 * ver + 8" by simp_all
  have left: "nat (int r - 1) = r - 1" for r by linarith
  have c: "zigzag_columns (int ?n - 1) = map (\<lambda>c. int (scan_right ?n c)) [0..<(?n - 1) div 2]"
    unfolding n(2) using scan_columns [of "2 * ver + 5"] unfolding n(3) n(1) [symmetric] .
  have "zigzag_pair ?n (int (scan_right ?n c)) = concat (map (\<lambda>v.
     let x = scan_right ?n c; y = (if even c then ?n - 1 - v else v) in [(x, y), (x - 1, y)]) [0..<?n])"
    if "c < 2 * ver + 8" for c
    unfolding zigzag_pair_def Let_def scan_upward [OF that] by (simp add: left del: upt_Suc)
  then have "map (zigzag_pair ?n) (map (\<lambda>c. int (scan_right ?n c)) [0..<2 * ver + 8])
     = map (\<lambda>c. concat (map (\<lambda>v. let x = scan_right ?n c; y = (if even c then ?n - 1 - v else v) in [(x, y), (x - 1, y)]) [0..<?n])) [0..<2 * ver + 8]"
    by simp
  then show ?thesis unfolding zigzag_def standard_scan_def c n(2) by (rule arg_cong)
qed

lemma zigzag_valid:
  assumes "valid_version ver"
  shows "set (zigzag (4 * ver + 17)) = ({..<4 * ver + 17} - {6}) \<times> {..<4 * ver + 17}" "distinct (zigzag (4 * ver + 17))"
proof -
  have n: "4 * ver + 17 = 7 + 2 * (2 * ver + 5)" by simp
  show "set (zigzag (4 * ver + 17)) = ({..<4 * ver + 17} - {6}) \<times> {..<4 * ver + 17}" "distinct (zigzag (4 * ver + 17))"
    by (rule zigzag_all [OF n])+
qed

lemma set_data_places:
  assumes "valid_version ver"
  shows "set (data_places ver) = {p. in_grid (4 * ver + 17) p \<and> \<not> func_at ver p}" "distinct (data_places ver)"
proof -
  have "fst p = 6 \<Longrightarrow> func_at ver p" for p by (simp add: func_at_def func_cell_def Let_def)
  then show "set (data_places ver) = {p. in_grid (4 * ver + 17) p \<and> \<not> func_at ver p}"
    by (auto simp: data_places_def zigzag_standard [symmetric] zigzag_valid [OF assms] in_grid_def)
  show "distinct (data_places ver)" by (simp add: data_places_def zigzag_standard [symmetric] zigzag_valid [OF assms])
qed

lemma length_data_places:
  assumes "valid_version ver"
  shows "int (length (data_places ver)) = raw_modules ver"
proof -
  let ?n = "4 * ver + 17"
  let ?F = "{p. in_square ?n p \<and> func_cell ver p}"
  let ?f = "\<lambda>p. (int (fst p), int (snd p)) :: int \<times> int"
  have inj: "inj ?f" by (auto simp: inj_on_def prod_eq_iff)
  have "?F = ?f ` {p. in_grid ?n p \<and> func_at ver p}"
  proof (intro set_eqI iffI)
    fix p
    assume p: "p \<in> ?F"
    then have "p = ?f (nat (fst p), nat (snd p))" by (auto simp: in_square_def prod_eq_iff)
    moreover from p this have "(nat (fst p), nat (snd p)) \<in> {p. in_grid ?n p \<and> func_at ver p}"
      by (simp add: in_square_def in_grid_def func_at_def nat_less_iff)
    ultimately show "p \<in> ?f ` {p. in_grid ?n p \<and> func_at ver p}" by (rule image_eqI)
  qed (auto simp: in_square_def in_grid_def func_at_def)
  then have cF: "card {p. in_grid ?n p \<and> func_at ver p} = card ?F"
    by (simp add: card_image inj_on_subset [OF inj])
  have grid: "{p. in_grid ?n p} = {..<?n} \<times> {..<?n}" by (auto simp: in_grid_def)
  have fin: "finite {p. in_grid ?n p \<and> func_at ver p}"
    by (rule finite_subset [of _ "{..<?n} \<times> {..<?n}"]) (auto simp: in_grid_def)
  have "card {p. in_grid ?n p \<and> \<not> func_at ver p} = card ({p. in_grid ?n p} - {p. in_grid ?n p \<and> func_at ver p})"
    by (rule arg_cong [of _ _ card]) auto
  also have "\<dots> = card {p. in_grid ?n p} - card {p. in_grid ?n p \<and> func_at ver p}"
    by (rule card_Diff_subset [OF fin]) auto
  also have "\<dots> = ?n * ?n - card ?F" unfolding cF grid by simp
  finally have l: "length (data_places ver) = ?n * ?n - card ?F"
    using set_data_places [OF assms] by (metis distinct_card)
  have d: "int (ver div 7) = int ver div 7" by (simp add: zdiv_int)
  have "card {p. in_grid ?n p \<and> func_at ver p} \<le> card {p. in_grid ?n p}"
    by (rule card_mono) (auto simp: grid [unfolded in_grid_def] in_grid_def)
  then have "card ?F \<le> ?n * ?n" unfolding cF unfolding grid by simp
  then have "int (length (data_places ver)) = int (?n * ?n) - int (card ?F)" unfolding l by simp
  also have "\<dots> = raw_modules ver"
    unfolding card_func [OF assms] raw_modules_def Let_def using assms
    by (auto simp: valid_version_def d algebra_simps)
  finally show ?thesis .
qed

end
