(* ===== verification/QrEncode.thy ===== *)
theory QrEncode
  imports QrSegments QrBlocks QrPenalty QrScan
begin

text \<open>
  The encoder of \<open>credential_provider/qrcodegen.cpp\<close>: the smallest version the data fits in, the best
  error correction there, terminator and padding, and the construction of the code with the mask of
  the smallest penalty.  A fault of the drawing ends the construction with \<open>out_of_range\<close>.  Assertions
  are not part of the model; what they state is proved where it matters.
\<close>

subsection \<open>Construction\<close>

definition LONG_MAX :: int where "LONG_MAX = 2147483647"

definition no_fault :: "QrCode \<Rightarrow> qr_error + QrCode" where
  "no_fault q = (if qc_fault q then Inl OutOfRange else Inr q)"

fun mask_loop :: "nat list \<Rightarrow> int \<Rightarrow> int \<Rightarrow> QrCode \<Rightarrow> qr_error + int \<times> QrCode" where
  "mask_loop [] minPenalty msk q = Inr (msk, q)"
| "mask_loop (i # is) minPenalty msk q =
     bindE (applyMask (int i) q) (\<lambda>q.
     bindE (no_fault (drawFormatBits i q)) (\<lambda>q.
       let penalty = getPenaltyScore q; better = penalty < minPenalty
       in bindE (applyMask (int i) q) (\<lambda>q.
            if better then mask_loop is penalty (int i) q else mask_loop is minPenalty msk q)))"

definition newQrCode :: "nat \<Rightarrow> Ecc \<Rightarrow> bytes \<Rightarrow> int \<Rightarrow> qr_error + QrCode" where
  "newQrCode ver ecl dataCodewords msk =
     (if ver < MIN_VERSION \<or> ver > MAX_VERSION then Inl (DomainError ''Version value out of range'')
      else if msk < -1 \<or> msk > 7 then Inl (DomainError ''Mask value out of range'')
      else bindE (no_fault (drawFunctionPatterns (fresh_code ver ecl))) (\<lambda>q.
           bindE (addEccAndInterleave dataCodewords q) (\<lambda>allCodewords.
           bindE (drawCodewords allCodewords q) (\<lambda>q.
           bindE (if msk = -1 then mask_loop [0..<8] LONG_MAX msk q else Inr (msk, q)) (\<lambda>(msk, q).
           bindE (applyMask msk (q\<lparr>qc_mask := msk\<rparr>)) (\<lambda>q.
           bindE (no_fault (drawFormatBits (nat msk) q)) (\<lambda>q.
             Inr (q\<lparr>qc_isFunction := []\<rparr>))))))))"

definition getVersion :: "QrCode \<Rightarrow> nat" where "getVersion = qc_version"
definition getSize :: "QrCode \<Rightarrow> nat" where "getSize = qc_size"
definition getErrorCorrectionLevel :: "QrCode \<Rightarrow> Ecc" where "getErrorCorrectionLevel = qc_ecl"
definition getMask :: "QrCode \<Rightarrow> int" where "getMask = qc_mask"

definition getModule :: "QrCode \<Rightarrow> int \<Rightarrow> int \<Rightarrow> bool" where
  "getModule q x y \<longleftrightarrow> 0 \<le> x \<and> x < int (qc_size q) \<and> 0 \<le> y \<and> y < int (qc_size q) \<and> at (qc_modules q) (nat x, nat y)"

subsection \<open>Choosing and filling\<close>

function version_loop :: "QrSegment list \<Rightarrow> Ecc \<Rightarrow> nat \<Rightarrow> nat \<Rightarrow> qr_error + nat \<times> int" where
  "version_loop segs ecl maxVersion version =
     bindE (getNumDataCodewords version ecl) (\<lambda>n.
       let dataCapacityBits = n * 8; dataUsedBits = getTotalBits segs version
       in if dataUsedBits \<noteq> -1 \<and> dataUsedBits \<le> dataCapacityBits then Inr (version, dataUsedBits)
          else if version \<ge> maxVersion
          then Inl (DataTooLong (if dataUsedBits = -1 then ''Segment too long''
                 else ''Data length = '' @ to_string dataUsedBits @ '' bits, '' @ ''Max capacity = '' @ to_string dataCapacityBits @ '' bits''))
          else version_loop segs ecl maxVersion (version + 1))"
  by pat_completeness auto
termination by (relation "measure (\<lambda>(segs, ecl, maxVersion, version). maxVersion - version)") auto

declare version_loop.simps [simp del]

fun boost_loop :: "bool \<Rightarrow> int \<Rightarrow> nat \<Rightarrow> Ecc list \<Rightarrow> Ecc \<Rightarrow> qr_error + Ecc" where
  "boost_loop boostEcl dataUsedBits version [] ecl = Inr ecl"
| "boost_loop boostEcl dataUsedBits version (newEcl # es) ecl =
     (if boostEcl
      then bindE (getNumDataCodewords version newEcl) (\<lambda>n.
             boost_loop boostEcl dataUsedBits version es (if dataUsedBits \<le> n * 8 then newEcl else ecl))
      else boost_loop boostEcl dataUsedBits version es ecl)"

function pad_loop :: "nat \<Rightarrow> u8 \<Rightarrow> bits \<Rightarrow> qr_error + bits" where
  "pad_loop dataCapacityBits padByte bb =
     (if length bb < dataCapacityBits
      then bindE (appendBits (ucast padByte) 8 bb) (pad_loop dataCapacityBits (padByte XOR (0xEC XOR 0x11)))
      else Inr bb)"
  by pat_completeness auto
termination
proof (relation "measure (\<lambda>(cap, _, bb). cap - length bb)", goal_cases)
  case (2 cap b bb x)
  then have "length x = length bb + 8" by (auto simp: appendBits_def split: if_splits)
  with 2 show ?case by simp
qed simp

declare pad_loop.simps [simp del]

fun pack_loop :: "bits \<Rightarrow> nat \<Rightarrow> bytes \<Rightarrow> qr_error + bytes" where
  "pack_loop [] i dataCodewords = Inr dataCodewords"
| "pack_loop (b # bs) i dataCodewords =
     (if i div 8 < length dataCodewords
      then pack_loop bs (i + 1)
             (dataCodewords[i div 8 := dataCodewords ! (i div 8) OR push_bit (7 - i mod 8) (if b then 1 else 0)])
      else Inl OutOfRange)"

definition encodeSegments :: "QrSegment list \<Rightarrow> Ecc \<Rightarrow> nat \<Rightarrow> nat \<Rightarrow> int \<Rightarrow> bool \<Rightarrow> qr_error + QrCode" where
  "encodeSegments segs ecl minVersion maxVersion msk boostEcl =
     (if \<not> (MIN_VERSION \<le> minVersion \<and> minVersion \<le> maxVersion \<and> maxVersion \<le> MAX_VERSION) \<or> msk < -1 \<or> msk > 7
      then Inl (InvalidArgument ''Invalid value'')
      else bindE (version_loop segs ecl maxVersion minVersion) (\<lambda>(version, dataUsedBits).
           bindE (boost_loop boostEcl dataUsedBits version [MEDIUM, QUARTILE, HIGH] ecl) (\<lambda>ecl.
           bindE (segments_bits segs version []) (\<lambda>bb.
           bindE (getNumDataCodewords version ecl) (\<lambda>n.
             let dataCapacityBits = nat n * 8
             in bindE (appendBits 0 (min 4 (int dataCapacityBits - int (length bb))) bb) (\<lambda>bb.
                bindE (appendBits 0 (int ((8 - length bb mod 8) mod 8)) bb) (\<lambda>bb.
                bindE (pad_loop dataCapacityBits 0xEC bb) (\<lambda>bb.
                bindE (pack_loop bb 0 (replicate (length bb div 8) 0)) (\<lambda>dataCodewords.
                  newQrCode version ecl dataCodewords msk)))))))))"

definition encodeText :: "string \<Rightarrow> Ecc \<Rightarrow> qr_error + QrCode" where
  "encodeText text ecl = bindE (makeSegments text) (\<lambda>segs. encodeSegments segs ecl 1 40 (-1) True)"

definition encodeBinary :: "bytes \<Rightarrow> Ecc \<Rightarrow> qr_error + QrCode" where
  "encodeBinary data ecl = bindE (makeBytes data) (\<lambda>seg. encodeSegments [seg] ecl 1 40 (-1) True)"

subsection \<open>The codewords of a message\<close>

lemma appendBits_byte: "appendBits (ucast b) 8 bb = Inr (bb @ byte_bits_of b)"
proof -
  have "appendBits (of_int (int (unat b))) 8 bb = Inr (bb @ bits_of 8 (unat b))"
    by (rule appendBits_value) simp_all
  then show ?thesis by (simp add: byte_bits_of_def)
qed

lemma pad_loop_fills:
  "8 dvd cap \<Longrightarrow> 8 dvd length bb \<Longrightarrow> length bb \<le> cap \<Longrightarrow> \<exists>r. pad_loop cap b bb = Inr (bb @ r) \<and> length (bb @ r) = cap"
proof (induction cap b bb rule: pad_loop.induct)
  case (1 cap b bb)
  show ?case
  proof (cases "length bb < cap")
    case True
    then have "length bb + 8 \<le> cap" using 1(2,3) by (metis dvd_diff_nat dvd_imp_le less_imp_le_nat le_diff_conv2 add.commute zero_less_diff)
    with 1(1) [OF True appendBits_byte] 1(2,3) obtain r where
      "pad_loop cap (b XOR (0xEC XOR 0x11)) (bb @ byte_bits_of b) = Inr ((bb @ byte_bits_of b) @ r)"
      "length ((bb @ byte_bits_of b) @ r) = cap" by auto
    then have "pad_loop cap b bb = Inr (bb @ (byte_bits_of b @ r))" "length (bb @ (byte_bits_of b @ r)) = cap"
      using True by (simp_all add: pad_loop.simps [of cap b bb] appendBits_byte)
    then show ?thesis by blast
  next
    case False
    then show ?thesis using 1(4) by (intro exI [of _ "[]"]) (simp add: pad_loop.simps [of cap b bb])
  qed
qed

lemma pack_byte:
  "list_all (\<lambda>(a, b, c, d, e, f, g, h).
     0 OR push_bit 7 (if a then 1 else 0) OR push_bit 6 (if b then 1 else 0) OR push_bit 5 (if c then 1 else 0)
     OR push_bit 4 (if d then 1 else 0) OR push_bit 3 (if e then 1 else 0) OR push_bit 2 (if f then 1 else 0)
     OR push_bit 1 (if g then 1 else 0) OR push_bit 0 (if h then 1 else 0) = (of_nat (val_of [a, b, c, d, e, f, g, h]) :: u8))
   (let bs = [False, True] in
     List.product bs (List.product bs (List.product bs (List.product bs (List.product bs (List.product bs (List.product bs bs)))))))"
  by code_simp

lemma pack_loop_bit:
  assumes "j < 8" "length pre = k"
  shows "pack_loop (b # bs) (8 * k + j) (pre @ w # post)
     = pack_loop bs (8 * k + Suc j) (pre @ (w OR push_bit (7 - j) (if b then 1 else 0)) # post)"
proof -
  have "(8 * k + j) div 8 = k" "(8 * k + j) mod 8 = j" using assms(1) by simp_all
  then show ?thesis using assms(2) by (simp add: list_update_append nth_append)
qed

lemma bools: "x \<in> set [False, True]"
  by (cases x) simp_all

lemma pack_loop_byte:
  assumes "length bs = 8" "length pre = k"
  shows "pack_loop (bs @ r) (8 * k + 0) (pre @ 0 # post) = pack_loop r (8 * Suc k + 0) (pre @ of_nat (val_of bs) # post)"
proof -
  obtain a b c d e f g h where b: "bs = [a, b, c, d, e, f, g, h]" using byte_split [OF assms(1)] by blast
  note st = pack_loop_bit [OF _ assms(2)]
  have l: "(0::nat) < 8" "Suc 0 < 8" "Suc (Suc 0) < 8" "Suc (Suc (Suc 0)) < 8" "Suc (Suc (Suc (Suc 0))) < 8"
    "Suc (Suc (Suc (Suc (Suc 0)))) < 8" "Suc (Suc (Suc (Suc (Suc (Suc 0))))) < 8" "Suc (Suc (Suc (Suc (Suc (Suc (Suc 0)))))) < 8"
    by simp_all
  have w: "(((((((0 OR push_bit 7 (if a then 1 else 0)) OR push_bit 6 (if b then 1 else 0)) OR push_bit 5 (if c then 1 else 0))
      OR push_bit 4 (if d then 1 else 0)) OR push_bit 3 (if e then 1 else 0)) OR push_bit 2 (if f then 1 else 0))
      OR push_bit 1 (if g then 1 else 0)) OR push_bit 0 (if h then 1 else 0) = (of_nat (val_of bs) :: u8)"
    unfolding b or.assoc
    by (rule list_all_setD [OF pack_byte [unfolded Let_def], of "(a, b, c, d, e, f, g, h)", unfolded prod.case])
      (simp only: set_product SigmaI bools)
  have s: "7 - 0 = (7::nat)" "7 - Suc 0 = 6" "7 - Suc (Suc 0) = 5" "7 - Suc (Suc (Suc 0)) = 4" "7 - Suc (Suc (Suc (Suc 0))) = 3"
    "7 - Suc (Suc (Suc (Suc (Suc 0)))) = 2" "7 - Suc (Suc (Suc (Suc (Suc (Suc 0))))) = 1"
    "7 - Suc (Suc (Suc (Suc (Suc (Suc (Suc 0)))))) = 0" "8 * k + Suc (Suc (Suc (Suc (Suc (Suc (Suc (Suc 0))))))) = 8 * Suc k + 0"
    by simp_all
  have "pack_loop (bs @ r) (8 * k + 0) (pre @ 0 # post) = pack_loop r (8 * k + Suc (Suc (Suc (Suc (Suc (Suc (Suc (Suc 0))))))))
     (pre @ ((((((((0 OR push_bit 7 (if a then 1 else 0)) OR push_bit 6 (if b then 1 else 0)) OR push_bit 5 (if c then 1 else 0))
      OR push_bit 4 (if d then 1 else 0)) OR push_bit 3 (if e then 1 else 0)) OR push_bit 2 (if f then 1 else 0))
      OR push_bit 1 (if g then 1 else 0)) OR push_bit 0 (if h then 1 else 0)) # post)"
    unfolding b append_Cons append_Nil
    by (simp only: st [OF l(1)] st [OF l(2)] st [OF l(3)] st [OF l(4)] st [OF l(5)] st [OF l(6)] st [OF l(7)] st [OF l(8)] s)
  then show ?thesis unfolding w s .
qed

lemma pack_loop_bytes:
  "length bs = 8 * m \<Longrightarrow> length pre = k \<Longrightarrow> pack_loop bs (8 * k + 0) (pre @ replicate m 0) = Inr (pre @ bytes_of_bits bs)"
proof (induction m arbitrary: bs pre k)
  case (Suc m)
  define b where "b = take 8 bs"
  define r where "r = drop 8 bs"
  have b: "bs = b @ r" "length b = 8" "length r = 8 * m" using Suc.prems(1) by (simp_all add: b_def r_def)
  have "pack_loop bs (8 * k + 0) (pre @ replicate (Suc m) 0) = pack_loop r (8 * Suc k + 0) ((pre @ [of_nat (val_of b)]) @ replicate m 0)"
    using pack_loop_byte [OF b(2) Suc.prems(2), of r "replicate m 0"] by (simp add: b(1))
  also have "\<dots> = Inr ((pre @ [of_nat (val_of b)]) @ bytes_of_bits r)"
    by (rule Suc.IH) (use b(3) Suc.prems(2) in auto)
  finally show ?case unfolding b(1) bytes_of_bits_step [OF b(2)] by simp
qed simp

lemma round_up:
  fixes l :: nat
  shows "8 dvd l + (8 - l mod 8) mod 8" "l \<le> n * 8 \<Longrightarrow> l + (8 - l mod 8) mod 8 \<le> n * 8"
proof -
  have "b < 8 \<Longrightarrow> (8 * a + b) + (8 - b) = 8 * (a + 1)" for a b :: nat by simp
  from this [of "l mod 8" "l div 8"] have "l + (8 - l mod 8) = 8 * (l div 8 + 1)" by simp
  then have "8 dvd l + (8 - l mod 8)" by simp
  then have "(l + (8 - l mod 8)) mod 8 = 0" by (simp only: dvd_eq_mod_eq_0)
  then show d: "8 dvd l + (8 - l mod 8) mod 8" by (simp only: dvd_eq_mod_eq_0 mod_add_right_eq)
  show "l + (8 - l mod 8) mod 8 \<le> n * 8" if "l \<le> n * 8"
  proof -
    from d obtain m where m: "l + (8 - l mod 8) mod 8 = 8 * m" by (elim dvdE)
    have "a + b = 8 * m \<Longrightarrow> a \<le> n * 8 \<Longrightarrow> b < 8 \<Longrightarrow> 8 * m \<le> n * 8" for a b by presburger
    from this [OF m that] show ?thesis unfolding m by simp
  qed
qed

text \<open>Terminator, padding and packing: the codewords' bits begin with the message's.\<close>

lemma codewords_of_message:
  assumes "length bb \<le> 8 * n" "0 < n"
  shows "\<exists>data t. length data = n \<and> bytes_bits data = bb @ t \<and> (bb = [] \<longrightarrow> take 4 t = replicate 4 False) \<and>
    bindE (appendBits 0 (min 4 (int (n * 8) - int (length bb))) bb) (\<lambda>bb.
    bindE (appendBits 0 (int ((8 - length bb mod 8) mod 8)) bb) (\<lambda>bb.
    bindE (pad_loop (n * 8) 0xEC bb) (\<lambda>bb.
    bindE (pack_loop bb 0 (replicate (length bb div 8) 0)) f))) = f data"
proof -
  define k where "k = min 4 (n * 8 - length bb)"
  have k: "min 4 (int (n * 8) - int (length bb)) = int k" "k \<le> 31" using assms(1) unfolding k_def by linarith+
  define b1 where "b1 = bb @ replicate k False"
  have 1: "appendBits 0 (int k) bb = Inr b1" using appendBits_zero [OF k(2)] by (simp add: b1_def)
  define j where "j = (8 - length b1 mod 8) mod 8"
  define b2 where "b2 = b1 @ replicate j False"
  have "j < 8" by (simp add: j_def)
  then have 2: "appendBits 0 (int j) b1 = Inr b2" using appendBits_zero [of j b1] by (simp add: b2_def)
  have l1: "length b1 \<le> n * 8" using assms(1) by (simp add: b1_def k_def)
  have d2: "8 dvd length b2" using round_up(1) [of "length b1"] by (simp add: b2_def j_def)
  have l2: "length b2 \<le> n * 8" using round_up(2) [OF l1] by (simp add: b2_def j_def)
  obtain p where p: "pad_loop (n * 8) 0xEC b2 = Inr (b2 @ p)" "length (b2 @ p) = n * 8"
    using pad_loop_fills [OF _ d2 l2] by auto
  define data where "data = bytes_of_bits (b2 @ p)"
  have bd: "bytes_bits data = b2 @ p" unfolding data_def by (rule bytes_bits_of_bits) (simp only: p(2) dvd_triv_right)
  have ld: "length data = n" using arg_cong [OF bd, of length] p(2) by simp
  have "pack_loop (b2 @ p) 0 (replicate (length (b2 @ p) div 8) 0) = Inr data"
    using pack_loop_bytes [of "b2 @ p" n "[]" 0] p(2) by (simp add: data_def mult.commute)
  then have r: "bindE (appendBits 0 (min 4 (int (n * 8) - int (length bb))) bb) (\<lambda>bb.
    bindE (appendBits 0 (int ((8 - length bb mod 8) mod 8)) bb) (\<lambda>bb.
    bindE (pad_loop (n * 8) 0xEC bb) (\<lambda>bb.
    bindE (pack_loop bb 0 (replicate (length bb div 8) 0)) f))) = f data"
    by (simp only: k(1) 1 bindE_simps j_def [symmetric] 2 p(1))
  have "bb = [] \<longrightarrow> k = 4" using assms(2) by (simp add: k_def)
  then have "bb = [] \<longrightarrow> take 4 (replicate k False @ replicate j False @ p) = replicate 4 False" by simp
  moreover have "bytes_bits data = bb @ replicate k False @ replicate j False @ p" by (simp add: bd b2_def b1_def)
  ultimately show ?thesis using ld r by blast
qed

subsection \<open>Version and correction\<close>

definition fits :: "QrSegment list \<Rightarrow> Ecc \<Rightarrow> nat \<Rightarrow> bool" where
  "fits segs ecl ver \<longleftrightarrow> getTotalBits segs ver \<noteq> -1 \<and> getTotalBits segs ver \<le> data_codewords ver ecl * 8"

text \<open>The smallest version that fits, or the message that none does.\<close>

lemma version_loop_smallest:
  "1 \<le> v \<Longrightarrow> v \<le> m \<Longrightarrow> m \<le> 40 \<Longrightarrow>
     case version_loop segs ecl m v of
       Inr (w, u) \<Rightarrow> v \<le> w \<and> w \<le> m \<and> fits segs ecl w \<and> u = getTotalBits segs w \<and> (\<forall>x. v \<le> x \<and> x < w \<longrightarrow> \<not> fits segs ecl x)
     | Inl e \<Rightarrow> (\<exists>msg. e = DataTooLong msg) \<and> (\<forall>x. v \<le> x \<and> x \<le> m \<longrightarrow> \<not> fits segs ecl x)"
proof (induction "m - v" arbitrary: v)
  case 0
  then have v: "v = m" "valid_version m" by (simp_all add: valid_version_def)
  show ?case unfolding v(1) using v(2) by (auto simp: version_loop.simps [of segs ecl m m] Let_def fits_def)
next
  case (Suc k)
  then have v: "v < m" "valid_version v" by (simp_all add: valid_version_def)
  show ?case
  proof (cases "fits segs ecl v")
    case True
    then show ?thesis using v by (simp add: version_loop.simps [of segs ecl m v] Let_def fits_def)
  next
    case False
    then have l: "version_loop segs ecl m v = version_loop segs ecl m (Suc v)"
      using v by (auto simp: version_loop.simps [of segs ecl m v] Let_def fits_def)
    have "x = v \<or> Suc v \<le> x" if "v \<le> x" for x using that by linarith
    with Suc(1) [of "Suc v"] Suc(2-) v False show ?thesis unfolding l by (fastforce split: sum.split prod.split)
  qed
qed

lemma boost_loop_fits:
  "valid_version ver \<Longrightarrow> used \<le> data_codewords ver ecl * 8 \<Longrightarrow>
     \<exists>e. boost_loop b used ver es ecl = Inr e \<and> used \<le> data_codewords ver e * 8"
  by (induction es arbitrary: ecl) auto

lemma encodeSegments_codewords:
  assumes "list_all (known_mode \<circ> seg_mode) segs"
  shows "(\<forall>ver. valid_version ver \<longrightarrow> \<not> fits segs ecl ver) \<and> (\<exists>msg. encodeSegments segs ecl 1 40 (-1) True = Inl (DataTooLong msg))
    \<or> (\<exists>ver e data t. valid_version ver \<and> fits segs ecl ver \<and> (\<forall>v. valid_version v \<and> v < ver \<longrightarrow> \<not> fits segs ecl v)
        \<and> int (length data) = data_codewords ver e
        \<and> bytes_bits data = concat (map (seg_bits ver) segs) @ t
        \<and> (concat (map (seg_bits ver) segs) = [] \<longrightarrow> take 4 t = replicate 4 False)
        \<and> encodeSegments segs ecl 1 40 (-1) True = newQrCode ver e data (-1))"
proof (cases "version_loop segs ecl 40 1")
  case (Inl x)
  with version_loop_smallest [of 1 40 segs ecl] show ?thesis
    by (auto simp: encodeSegments_def MIN_VERSION_def MAX_VERSION_def valid_version_def)
next
  case (Inr w)
  then obtain ver u where w: "version_loop segs ecl 40 1 = Inr (ver, u)" by (cases w) auto
  with version_loop_smallest [of 1 40 segs ecl] have v: "1 \<le> ver" "ver \<le> 40" "fits segs ecl ver" "u = getTotalBits segs ver"
    "\<forall>x. 1 \<le> x \<and> x < ver \<longrightarrow> \<not> fits segs ecl x" by auto
  then have vv: "valid_version ver" by (simp add: valid_version_def)
  have u: "u \<noteq> -1" "u \<le> data_codewords ver ecl * 8" using v(3,4) by (simp_all add: fits_def)
  from boost_loop_fits [OF vv u(2)] obtain e where e: "boost_loop True u ver [MEDIUM, QUARTILE, HIGH] ecl = Inr e"
    "u \<le> data_codewords ver e * 8" by blast
  let ?bb = "concat (map (seg_bits ver) segs)"
  have "total_bits segs ver 0 \<noteq> -1" using u(1) v(4) by (simp add: getTotalBits_def)
  from total_bits_layout [OF assms v(1,2) order_refl this, of "[]"]
  have sb: "segments_bits segs ver [] = Inr ?bb" and lb: "u = int (length ?bb)"
    using v(4) by (simp_all add: getTotalBits_def)
  obtain N E R where n: "num_blocks e ver = int N" "ecc_per_block e ver = int E" "raw_modules ver div 8 = int R"
    "0 < N" "0 < E" "E \<le> 30" "(E + 1) * N \<le> R" by (rule block_layout [OF vv])
  have "int (E * N + N) \<le> int R" using n(7) by (simp only: of_nat_le_iff) (simp add: algebra_simps)
  then have "1 \<le> data_codewords ver e" using n by (simp add: data_codewords_def)
  then obtain m where m: "data_codewords ver e = int m" "0 < m" by (metis zero_less_imp_eq_int zero_less_one order_less_le_trans)
  have "length ?bb \<le> 8 * m" using e(2) lb m(1) by linarith
  from codewords_of_message [OF this m(2), of "\<lambda>d. newQrCode ver e d (-1)"] obtain data t where
    d: "length data = m" "bytes_bits data = ?bb @ t" "?bb = [] \<longrightarrow> take 4 t = replicate 4 False" and
    k: "bindE (appendBits 0 (min 4 (int (m * 8) - int (length ?bb))) ?bb) (\<lambda>bb.
    bindE (appendBits 0 (int ((8 - length bb mod 8) mod 8)) bb) (\<lambda>bb.
    bindE (pad_loop (m * 8) 0xEC bb) (\<lambda>bb.
    bindE (pack_loop bb 0 (replicate (length bb div 8) 0)) (\<lambda>d. newQrCode ver e d (-1))))) = newQrCode ver e data (-1)" by blast
  have "encodeSegments segs ecl 1 40 (-1) True = newQrCode ver e data (-1)"
    unfolding encodeSegments_def using w e(1) sb vv m(1) k
    by (simp add: MIN_VERSION_def MAX_VERSION_def Let_def)
  moreover have "\<forall>v. valid_version v \<and> v < ver \<longrightarrow> \<not> fits segs ecl v" using v(5) by (simp add: valid_version_def)
  moreover have "int (length data) = data_codewords ver e" using d(1) m(1) by simp
  ultimately show ?thesis using vv v(3) d(2,3) by blast
qed

end
