(* ===== verification/QrMask.thy ===== *)
theory QrMask
  imports QrEncode
begin

text \<open>
  The choice of the mask of a QR code.  The code tries the masks on one grid, one after the other,
  with each mask's format bits over those of the one before; a try is undone by applying the mask
  again.  What a try shows depends on the modules outside the format areas only, so the loop finds
  the mask of the smallest penalty, the first of them, and the final code is that candidate.
\<close>

subsection \<open>A candidate\<close>

text \<open>A code in construction: its function modules are marked, and nothing went wrong.\<close>

definition under_way :: "QrCode \<Rightarrow> bool" where
  "under_way q \<longleftrightarrow> valid_version (qc_version q) \<and> 4 * qc_version q + 17 = qc_size q
     \<and> square (qc_size q) (qc_modules q) \<and> square (qc_size q) (qc_isFunction q) \<and> \<not> qc_fault q
     \<and> (\<forall>p. in_grid (qc_size q) p \<longrightarrow> at (qc_isFunction q) p = func_at (qc_version q) p)"

definition candidate :: "nat \<Rightarrow> QrCode \<Rightarrow> QrCode" where
  "candidate i q = (case applyMask (int i) q of Inl _ \<Rightarrow> q | Inr q \<Rightarrow> drawFormatBits i q)"

definition format_look :: "nat \<Rightarrow> Ecc \<Rightarrow> nat \<Rightarrow> nat \<times> nat \<Rightarrow> bool option" where
  "format_look n ecl i = map_of (rev (colours (format_cells n (format_bits ecl i))))"

definition format_place :: "nat \<Rightarrow> nat \<times> nat \<Rightarrow> bool" where
  "format_place n p \<longleftrightarrow> (int (fst p), int (snd p)) \<in> corner_cells n"

lemma format_cells_ok: "21 \<le> n \<Longrightarrow> list_all (cell_ok n) (format_cells n b)"
proof -
  assume n: "21 \<le> n"
  have "cell_ok n c" if "c \<in> set (format_cells n b)" for c
  proof -
    have "fst c \<in> corner_cells n" using that format_places by blast
    then have "(fst (fst c), snd (fst c)) \<in> corner_cells n" by simp
    then show ?thesis unfolding corner_iff cell_ok_def using n by (elim disjE conjE) auto
  qed
  then show ?thesis by (simp add: list_all_iff)
qed

lemma format_look_dom: "21 \<le> n \<Longrightarrow> format_look n ecl i p \<noteq> None \<longleftrightarrow> format_place n p"
proof -
  assume n: "21 \<le> n"
  have "format_look n ecl i p \<noteq> None \<longleftrightarrow> p \<in> place ` set (format_cells n (format_bits ecl i))"
    by (simp add: format_look_def map_of_eq_None_iff places_colours)
  also have "\<dots> \<longleftrightarrow> p \<in> (\<lambda>c. (nat (fst c), nat (snd c))) ` fst ` set (format_cells n (format_bits ecl i))"
    by (simp add: image_image place_def)
  also have "\<dots> \<longleftrightarrow> format_place n p"
  proof -
    have "0 \<le> fst c \<and> 0 \<le> snd c" if "c \<in> corner_cells n" for c
    proof -
      have "(fst c, snd c) \<in> corner_cells n" using that by simp
      then show ?thesis unfolding corner_iff using n by (elim disjE conjE) auto
    qed
    then show ?thesis unfolding format_places format_place_def by (force simp: image_iff)
  qed
  finally show ?thesis .
qed

lemma format_place_func: "valid_version ver \<Longrightarrow> format_place (4 * ver + 17) p \<Longrightarrow> func_at ver p"
proof -
  assume v: "valid_version ver" and "format_place (4 * ver + 17) p"
  then have c: "(int (fst p), int (snd p)) \<in> corner_cells (4 * ver + 17)" by (simp add: format_place_def)
  have "21 \<le> 4 * ver + 17" using v by (simp add: valid_version_def)
  then show ?thesis using c unfolding corner_iff func_at_def func_cell_def Let_def by (elim disjE conjE) auto
qed

text \<open>What a module of a candidate shows.\<close>

definition shows_at :: "nat \<Rightarrow> QrCode \<Rightarrow> nat \<times> nat \<Rightarrow> bool" where
  "shows_at i q p =
     (case format_look (qc_size q) (qc_ecl q) i p of Some b \<Rightarrow> b
      | None \<Rightarrow> at (qc_modules q) p \<noteq> (mask_invert i (fst p) (snd p) \<and> \<not> func_at (qc_version q) p))"

lemma put_all_marks:
  assumes "square n F" "list_all (cell_ok n) cs" "\<And>p. p \<in> place ` set cs \<Longrightarrow> at F p"
  shows "grid.put_all (marks cs) F = F"
proof (rule grid_ext)
  have ok: "list_all (in_grid n \<circ> fst) (marks cs)" by (rule inside_marks [OF assms(2)])
  show "square n (grid.put_all (marks cs) F)" by (rule grid.sound_put_all [OF assms(1) ok])
  fix p
  assume p: "in_grid n p"
  have "list_all snd (marks cs)" by (simp add: marks_def list_all_iff)
  from grid.look_put_all_mark [OF assms(1) ok p this] assms(3) [of p]
  show "at (grid.put_all (marks cs) F) p = at F p" unfolding places_marks by blast
qed (rule assms(1))

lemma under_way_size: "under_way q \<Longrightarrow> 21 \<le> qc_size q"
  by (simp add: under_way_def valid_version_def)

lemma under_way_square: "under_way q \<Longrightarrow> square (qc_size q) (qc_modules q)"
  unfolding under_way_def by blast

lemma candidate_works:
  assumes "under_way q" "i \<le> 7"
  shows "\<exists>g. applyMask (int i) q = Inr (q\<lparr>qc_modules := g\<rparr>) \<and> no_fault (drawFormatBits i (q\<lparr>qc_modules := g\<rparr>)) = Inr (candidate i q)
     \<and> under_way (candidate i q)
     \<and> candidate i q = q\<lparr>qc_modules := qc_modules (candidate i q)\<rparr>
     \<and> (\<forall>p. in_grid (qc_size q) p \<longrightarrow> at (qc_modules (candidate i q)) p = shows_at i q p)"
proof -
  let ?n = "qc_size q" and ?cs = "format_cells (qc_size q) (format_bits (qc_ecl q) i)"
  note u = assms(1) [unfolded under_way_def]
  have n: "21 \<le> ?n" by (rule under_way_size [OF assms(1)])
  have sq: "square ?n (qc_modules q)" "square ?n (qc_isFunction q)" using u by blast+
  obtain g where g: "applyMask (int i) q = Inr (q\<lparr>qc_modules := g\<rparr>)" "square ?n g"
    "\<forall>p. in_grid ?n p \<longrightarrow> at g p = (at (qc_modules q) p \<noteq> (mask_invert i (fst p) (snd p) \<and> \<not> at (qc_isFunction q) p))"
    using applyMask_at [OF sq(1) assms(2)] by blast
  have ok: "list_all (cell_ok ?n) ?cs" by (rule format_cells_ok [OF n])
  have "at (qc_isFunction q) p" if "p \<in> place ` set ?cs" for p
  proof -
    have "format_look ?n (qc_ecl q) i p \<noteq> None" using that by (simp add: format_look_def map_of_eq_None_iff places_colours)
    then have "format_place ?n p" using format_look_dom [OF n] by simp
    then have f: "func_at (qc_version q) p" using u by (metis format_place_func)
    have "in_grid ?n p" using that ok by (auto simp: list_all_iff place_inside)
    moreover have "in_grid ?n p \<Longrightarrow> at (qc_isFunction q) p = func_at (qc_version q) p" using u by blast
    ultimately show ?thesis using f by simp
  qed
  then have F: "grid.put_all (marks ?cs) (qc_isFunction q) = qc_isFunction q" by (rule put_all_marks [OF sq(2) ok])
  have c: "candidate i q = q\<lparr>qc_modules := grid.put_all (colours ?cs) g\<rparr>"
    unfolding candidate_def g(1) sum.case drawFormatBits_def using set_cells_eq [of "q\<lparr>qc_modules := g\<rparr>" ?cs] ok
    by (simp add: F)
  have sc: "square ?n (grid.put_all (colours ?cs) g)" by (rule grid.sound_put_all [OF g(2) inside_colours [OF ok]])
  then have uc: "under_way (candidate i q)" using u by (simp add: under_way_def c)
  have d: "drawFormatBits i (q\<lparr>qc_modules := g\<rparr>) = candidate i q" by (simp add: candidate_def g(1))
  have "no_fault (candidate i q) = Inr (candidate i q)" using uc by (simp add: no_fault_def under_way_def)
  moreover have "\<forall>p. in_grid ?n p \<longrightarrow> at (qc_modules (candidate i q)) p = shows_at i q p"
  proof (intro allI impI)
    fix p
    assume p: "in_grid ?n p"
    from grid.look_put_all [OF g(2) inside_colours [OF ok] p]
    have "at (qc_modules (candidate i q)) p = (case format_look ?n (qc_ecl q) i p of Some b \<Rightarrow> b | None \<Rightarrow> at g p)"
      by (simp add: c format_look_def)
    moreover have "at (qc_isFunction q) p = func_at (qc_version q) p" using u p by blast
    ultimately show "at (qc_modules (candidate i q)) p = shows_at i q p"
      using g(3) [rule_format, OF p] by (simp add: shows_at_def split: option.split)
  qed
  ultimately show ?thesis using g(1) d uc by (intro exI [of _ g]) (simp add: c)
qed

subsection \<open>The loop\<close>

text \<open>Two codes that differ in the format areas only have the same candidates.\<close>

definition same_but_format :: "QrCode \<Rightarrow> QrCode \<Rightarrow> bool" where
  "same_but_format q r \<longleftrightarrow> under_way q \<and> under_way r \<and> q = r\<lparr>qc_modules := qc_modules q\<rparr>
     \<and> (\<forall>p. in_grid (qc_size r) p \<and> \<not> format_place (qc_size r) p \<longrightarrow> at (qc_modules q) p = at (qc_modules r) p)"

lemma same_fields: "same_but_format q r \<Longrightarrow> qc_size q = qc_size r \<and> qc_ecl q = qc_ecl r \<and> qc_version q = qc_version r"
  unfolding same_but_format_def by (metis QrCode.select_convs QrCode.update_convs QrCode.surjective)

lemma same_candidate:
  assumes "same_but_format q r" "i \<le> 7"
  shows "candidate i q = candidate i r"
proof -
  note s = assms(1) [unfolded same_but_format_def] and f = same_fields [OF assms(1)]
  obtain q': "candidate i q = q\<lparr>qc_modules := qc_modules (candidate i q)\<rparr>" "under_way (candidate i q)"
    "\<And>p. in_grid (qc_size r) p \<Longrightarrow> at (qc_modules (candidate i q)) p = shows_at i q p"
    using candidate_works [of q i] assms(2) s f by auto
  obtain r': "candidate i r = r\<lparr>qc_modules := qc_modules (candidate i r)\<rparr>" "under_way (candidate i r)"
    "\<And>p. in_grid (qc_size r) p \<Longrightarrow> at (qc_modules (candidate i r)) p = shows_at i r p"
    using candidate_works [of r i] assms(2) s by auto
  have n: "21 \<le> qc_size r" using s under_way_size by blast
  have sz: "qc_size (candidate i q) = qc_size r" "qc_size (candidate i r) = qc_size r"
    using arg_cong [OF q'(1), of qc_size] arg_cong [OF r'(1), of qc_size] f by simp_all
  have "qc_modules (candidate i q) = qc_modules (candidate i r)"
  proof (rule grid_ext [of "qc_size r"])
    show "square (qc_size r) (qc_modules (candidate i q))" "square (qc_size r) (qc_modules (candidate i r))"
      using under_way_square [OF q'(2)] under_way_square [OF r'(2)] unfolding sz by blast+
    fix p
    assume p: "in_grid (qc_size r) p"
    have "shows_at i q p = shows_at i r p"
    proof (cases "format_look (qc_size r) (qc_ecl r) i p")
      case None
      then have "\<not> format_place (qc_size r) p" unfolding format_look_dom [OF n, symmetric, of p "qc_ecl r" i] by simp
      then have "at (qc_modules q) p = at (qc_modules r) p" using s p by blast
      then show ?thesis using f None by (simp add: shows_at_def)
    qed (simp add: shows_at_def f)
    then show "at (qc_modules (candidate i q)) p = at (qc_modules (candidate i r)) p" using q'(3) r'(3) p by simp
  qed
  moreover have "q\<lparr>qc_modules := g\<rparr> = r\<lparr>qc_modules := g\<rparr>" for g
  proof -
    have "q = r\<lparr>qc_modules := qc_modules q\<rparr>" using s by blast
    then have "q\<lparr>qc_modules := g\<rparr> = r\<lparr>qc_modules := qc_modules q\<rparr>\<lparr>qc_modules := g\<rparr>" by metis
    then show ?thesis by simp
  qed
  ultimately show ?thesis using q'(1) r'(1) by metis
qed

lemma undo_mask:
  assumes "same_but_format q r" "i \<le> 7"
  shows "\<exists>q'. applyMask (int i) (candidate i q) = Inr q' \<and> same_but_format q' r"
proof -
  have r: "under_way r" using assms(1) unfolding same_but_format_def by blast
  obtain c: "under_way (candidate i r)" "candidate i r = r\<lparr>qc_modules := qc_modules (candidate i r)\<rparr>"
    "\<forall>p. in_grid (qc_size r) p \<longrightarrow> at (qc_modules (candidate i r)) p = shows_at i r p"
    using candidate_works [OF r assms(2)] by blast
  have n: "21 \<le> qc_size r" by (rule under_way_size [OF r])
  have sz: "qc_size (candidate i r) = qc_size r" "qc_version (candidate i r) = qc_version r"
    using arg_cong [OF c(2), of qc_size] arg_cong [OF c(2), of qc_version] by simp_all
  obtain g where g: "applyMask (int i) (candidate i r) = Inr ((candidate i r)\<lparr>qc_modules := g\<rparr>)" "square (qc_size r) g"
    "\<forall>p. in_grid (qc_size r) p \<longrightarrow> at g p = (at (qc_modules (candidate i r)) p
        \<noteq> (mask_invert i (fst p) (snd p) \<and> \<not> at (qc_isFunction (candidate i r)) p))"
    using applyMask_at [OF under_way_square [OF c(1)] assms(2)] unfolding sz by blast
  define q' where "q' = (candidate i r)\<lparr>qc_modules := g\<rparr>"
  have q': "q' = r\<lparr>qc_modules := g\<rparr>"
  proof -
    have "(candidate i r)\<lparr>qc_modules := g\<rparr> = r\<lparr>qc_modules := qc_modules (candidate i r)\<rparr>\<lparr>qc_modules := g\<rparr>" using c(2) by metis
    then show ?thesis by (simp add: q'_def)
  qed
  have "at g p = at (qc_modules r) p" if "in_grid (qc_size r) p" "\<not> format_place (qc_size r) p" for p
  proof -
    have "format_look (qc_size r) (qc_ecl r) i p = None" using that(2) format_look_dom [OF n] by blast
    then have "at (qc_modules (candidate i r)) p = (at (qc_modules r) p \<noteq> (mask_invert i (fst p) (snd p) \<and> \<not> func_at (qc_version r) p))"
      using c(3) [rule_format, OF that(1)] by (simp add: shows_at_def)
    moreover have "at (qc_isFunction (candidate i r)) p = func_at (qc_version r) p"
      using c(1) that(1) sz unfolding under_way_def by metis
    ultimately show ?thesis using g(3) [rule_format, OF that(1)] by auto
  qed
  moreover have "under_way q'" using g(2) r by (simp add: q' under_way_def)
  ultimately have "same_but_format q' r" using r q' unfolding same_but_format_def by (simp add: q')
  then show ?thesis using g(1) same_candidate [OF assms] unfolding q'_def by simp
qed

definition first_best :: "(nat \<Rightarrow> int) \<Rightarrow> nat list \<Rightarrow> int \<Rightarrow> int \<Rightarrow> int \<Rightarrow> bool" where
  "first_best pen is minPenalty msk m \<longleftrightarrow>
     (m = msk \<and> (\<forall>j < length is. minPenalty \<le> pen (is ! j)))
     \<or> (\<exists>k < length is. m = int (is ! k) \<and> pen (is ! k) < minPenalty
          \<and> (\<forall>j < length is. pen (is ! k) \<le> pen (is ! j)) \<and> (\<forall>j < k. pen (is ! k) < pen (is ! j)))"

lemma first_best_Nil: "first_best pen [] minPenalty msk msk"
  by (simp add: first_best_def)

lemma first_best_keep: "minPenalty \<le> pen i \<Longrightarrow> first_best pen is minPenalty msk m \<Longrightarrow> first_best pen (i # is) minPenalty msk m"
  unfolding first_best_def
proof (elim disjE exE conjE)
  fix k
  assume a: "minPenalty \<le> pen i" "k < length is" "m = int (is ! k)" "pen (is ! k) < minPenalty"
    "\<forall>j < length is. pen (is ! k) \<le> pen (is ! j)" "\<forall>j < k. pen (is ! k) < pen (is ! j)"
  then show "(m = msk \<and> (\<forall>j < length (i # is). minPenalty \<le> pen ((i # is) ! j))) \<or>
    (\<exists>k < length (i # is). m = int ((i # is) ! k) \<and> pen ((i # is) ! k) < minPenalty \<and>
       (\<forall>j < length (i # is). pen ((i # is) ! k) \<le> pen ((i # is) ! j)) \<and> (\<forall>j < k. pen ((i # is) ! k) < pen ((i # is) ! j)))"
    by (intro disjI2 exI [of _ "Suc k"]) (auto simp: nth_Cons split: nat.split)
qed (auto simp: nth_Cons split: nat.split)

lemma first_best_take: "pen i < minPenalty \<Longrightarrow> first_best pen is (pen i) (int i) m \<Longrightarrow> first_best pen (i # is) minPenalty msk m"
  unfolding first_best_def
proof (elim disjE exE conjE)
  fix k
  assume a: "pen i < minPenalty" "k < length is" "m = int (is ! k)" "pen (is ! k) < pen i"
    "\<forall>j < length is. pen (is ! k) \<le> pen (is ! j)" "\<forall>j < k. pen (is ! k) < pen (is ! j)"
  then show "(m = msk \<and> (\<forall>j < length (i # is). minPenalty \<le> pen ((i # is) ! j))) \<or>
    (\<exists>k < length (i # is). m = int ((i # is) ! k) \<and> pen ((i # is) ! k) < minPenalty \<and>
       (\<forall>j < length (i # is). pen ((i # is) ! k) \<le> pen ((i # is) ! j)) \<and> (\<forall>j < k. pen ((i # is) ! k) < pen ((i # is) ! j)))"
    by (intro disjI2 exI [of _ "Suc k"]) (auto simp: nth_Cons split: nat.split)
next
  assume "pen i < minPenalty" "m = int i" "\<forall>j < length is. pen i \<le> pen (is ! j)"
  then show "(m = msk \<and> (\<forall>j < length (i # is). minPenalty \<le> pen ((i # is) ! j))) \<or>
    (\<exists>k < length (i # is). m = int ((i # is) ! k) \<and> pen ((i # is) ! k) < minPenalty \<and>
       (\<forall>j < length (i # is). pen ((i # is) ! k) \<le> pen ((i # is) ! j)) \<and> (\<forall>j < k. pen ((i # is) ! k) < pen ((i # is) ! j)))"
    by (intro disjI2 exI [of _ 0]) (auto simp: nth_Cons split: nat.split)
qed

lemma mask_loop_best:
  assumes "\<forall>i \<in> set is. i \<le> 7"
  shows "same_but_format q r \<Longrightarrow> \<exists>m q'. mask_loop is minPenalty msk q = Inr (m, q') \<and> same_but_format q' r
     \<and> first_best (\<lambda>i. getPenaltyScore (candidate i r)) is minPenalty msk m"
  using assms
proof (induction "is" arbitrary: minPenalty msk q)
  case Nil
  then show ?case by (simp add: first_best_Nil)
next
  case (Cons i "is")
  have i: "i \<le> 7" using Cons.prems(2) by simp
  have "under_way q" using Cons.prems(1) unfolding same_but_format_def by blast
  from candidate_works [OF this i] obtain g where
    g: "applyMask (int i) q = Inr (q\<lparr>qc_modules := g\<rparr>)" "no_fault (drawFormatBits i (q\<lparr>qc_modules := g\<rparr>)) = Inr (candidate i q)" by blast
  from undo_mask [OF Cons.prems(1) i] obtain q' where q': "applyMask (int i) (candidate i q) = Inr q'" "same_but_format q' r" by blast
  let ?p = "getPenaltyScore (candidate i r)"
  have e: "mask_loop (i # is) minPenalty msk q
      = (if ?p < minPenalty then mask_loop is ?p (int i) q' else mask_loop is minPenalty msk q')"
    using g q'(1) same_candidate [OF Cons.prems(1) i] by (simp add: Let_def)
  have s: "\<forall>i \<in> set is. i \<le> 7" using Cons.prems(2) by simp
  show ?case
  proof (cases "?p < minPenalty")
    case True
    with Cons.IH [OF q'(2) s, of ?p "int i"] show ?thesis unfolding e by (auto intro: first_best_take)
  next
    case False
    then have "minPenalty \<le> ?p" by simp
    with Cons.IH [OF q'(2) s, of minPenalty msk] False show ?thesis unfolding e by (auto intro: first_best_keep)
  qed
qed

lemma set_cells_mask: "set_cells cs (q\<lparr>qc_mask := k\<rparr>) = (set_cells cs q)\<lparr>qc_mask := k\<rparr>"
proof (induction cs arbitrary: q)
  case (Cons c cs)
  have "setFunctionModule x y d (q\<lparr>qc_mask := k\<rparr>) = (setFunctionModule x y d q)\<lparr>qc_mask := k\<rparr>" for x y d
    by (simp add: setFunctionModule_def)
  with Cons show ?case by (cases c) (auto simp: set_cells_Cons)
qed (simp add: set_cells_def)

lemma candidate_mask: "i \<le> 7 \<Longrightarrow> candidate i (q\<lparr>qc_mask := k\<rparr>) = (candidate i q)\<lparr>qc_mask := k\<rparr>"
proof -
  assume "i \<le> 7"
  then have "applyMask (int i) (q\<lparr>qc_mask := k\<rparr>) = (case applyMask (int i) q of Inl e \<Rightarrow> Inl e | Inr r \<Rightarrow> Inr (r\<lparr>qc_mask := k\<rparr>))"
    and "\<exists>r. applyMask (int i) q = Inr r" by (simp_all add: applyMask_def)
  moreover have "drawFormatBits i (r\<lparr>qc_mask := k\<rparr>) = (drawFormatBits i r)\<lparr>qc_mask := k\<rparr>" for r
    by (simp add: drawFormatBits_def set_cells_mask)
  ultimately show ?thesis by (auto simp: candidate_def)
qed

text \<open>The end of the construction: the smallest penalty, and the first mask that has it.\<close>

definition best_candidate :: "QrCode \<Rightarrow> nat \<Rightarrow> bool" where
  "best_candidate q m \<longleftrightarrow> m < 8
     \<and> list_all (\<lambda>i. getPenaltyScore (candidate m q) \<le> getPenaltyScore (candidate i q)) [0..<8]
     \<and> list_all (\<lambda>i. getPenaltyScore (candidate m q) < getPenaltyScore (candidate i q)) [0..<m]"

lemma mask_chosen:
  assumes "under_way q"
  shows "\<exists>m. best_candidate q m \<and>
    bindE (mask_loop [0..<8] LONG_MAX (-1) q) (\<lambda>(msk, q).
      bindE (applyMask msk (q\<lparr>qc_mask := msk\<rparr>)) (\<lambda>q. bindE (no_fault (drawFormatBits (nat msk) q)) f))
    = f ((candidate m q)\<lparr>qc_mask := int m\<rparr>)"
proof -
  have s: "same_but_format q q" using assms by (simp add: same_but_format_def)
  let ?pen = "\<lambda>i. getPenaltyScore (candidate i q)"
  have "\<forall>i \<in> set [0..<8]. i \<le> 7" by auto
  from mask_loop_best [OF this s, of LONG_MAX "-1"] obtain k q' where
    l: "mask_loop [0..<8] LONG_MAX (-1) q = Inr (k, q')" "same_but_format q' q" "first_best ?pen [0..<8] LONG_MAX (-1) k" by blast
  have pen: "?pen 0 < LONG_MAX"
  proof -
    obtain u: "under_way (candidate 0 q)" using candidate_works [OF assms, of 0] by auto
    have "qc_size (candidate 0 q) = 4 * qc_version (candidate 0 q) + 17" "qc_version (candidate 0 q) \<le> 40"
      using u unfolding under_way_def valid_version_def by auto
    then have "odd (qc_size (candidate 0 q))" "qc_size (candidate 0 q) \<le> 177" by simp_all
    from getPenaltyScore_bounds(2) [OF under_way_square [OF u] this] show ?thesis by (simp add: LONG_MAX_def)
  qed
  have "\<not> (\<forall>j < length [0..<8]. LONG_MAX \<le> ?pen ([0..<8] ! j))"
  proof
    assume "\<forall>j < length [0..<8]. LONG_MAX \<le> ?pen ([0..<8] ! j)"
    from spec [OF this, of 0] pen show False by simp
  qed
  with l(3) obtain m where m: "m < length [0..<8]" "k = int ([0..<8] ! m)"
    "\<forall>j < length [0..<8]. ?pen ([0..<8] ! m) \<le> ?pen ([0..<8] ! j)" "\<forall>j < m. ?pen ([0..<8] ! m) < ?pen ([0..<8] ! j)"
    unfolding first_best_def by blast
  have m8: "m < 8" "m \<le> 7" "k = int m" using m(1,2) by (simp_all del: upt_rec_numeral)
  have b: "best_candidate q m" unfolding best_candidate_def list_all_iff
  proof (intro conjI ballI)
    fix i
    assume "i \<in> set [0..<8]"
    then show "?pen m \<le> ?pen i" using spec [OF m(3), of i] m8 by (simp del: upt_rec_numeral)
  next
    fix i
    assume "i \<in> set [0..<m]"
    then show "?pen m < ?pen i" using spec [OF m(4), of i] m8 by (simp del: upt_rec_numeral)
  qed (rule m8)
  have u: "under_way (q'\<lparr>qc_mask := int m\<rparr>)" using l(2) by (simp add: same_but_format_def under_way_def)
  from candidate_works [OF u m8(2)] obtain g where
    "applyMask (int m) (q'\<lparr>qc_mask := int m\<rparr>) = Inr (q'\<lparr>qc_mask := int m, qc_modules := g\<rparr>)"
    "no_fault (drawFormatBits m (q'\<lparr>qc_mask := int m, qc_modules := g\<rparr>)) = Inr (candidate m (q'\<lparr>qc_mask := int m\<rparr>))" by auto
  moreover have "candidate m (q'\<lparr>qc_mask := int m\<rparr>) = (candidate m q)\<lparr>qc_mask := int m\<rparr>"
    using candidate_mask [OF m8(2)] same_candidate [OF l(2) m8(2)] by simp
  ultimately show ?thesis using b l(1) m8(3) by (intro exI [of _ m]) simp
qed

end
