(* ===== verification/QrReader.thy ===== *)
theory QrReader
  imports QrMask
begin

text \<open>
  Reading a QR code back from its modules: the version from the size, correction level and mask from
  the first copy of the format bits, the codewords from the data modules in the order of the scan,
  the data from the codewords if each block is a Reed-Solomon codeword, and the text from the data.
  Every code the encoder of \<open>credential_provider/qrcodegen.cpp\<close> makes is read as the text it was made of.
\<close>

subsection \<open>The reader\<close>

text \<open>The format words of the standard, for each level and mask.\<close>

definition FORMAT_INFO :: "Ecc \<Rightarrow> int list" where
  "FORMAT_INFO ecl = (case ecl of
     LOW \<Rightarrow> [0x77C4, 0x72F3, 0x7DAA, 0x789D, 0x662F, 0x6318, 0x6C41, 0x6976]
   | MEDIUM \<Rightarrow> [0x5412, 0x5125, 0x5E7C, 0x5B4B, 0x45F9, 0x40CE, 0x4F97, 0x4AA0]
   | QUARTILE \<Rightarrow> [0x355F, 0x3068, 0x3F31, 0x3A06, 0x24B4, 0x2183, 0x2EDA, 0x2BED]
   | HIGH \<Rightarrow> [0x1689, 0x13BE, 0x1CE7, 0x19D0, 0x0762, 0x0255, 0x0D0C, 0x083B])"

definition format_word :: "Ecc \<times> nat \<Rightarrow> bits" where
  "format_word f = map (bit (FORMAT_INFO (fst f) ! snd f)) [0..<15]"

definition all_formats :: "(Ecc \<times> nat) list" where
  "all_formats = List.product [LOW, MEDIUM, QUARTILE, HIGH] [0..<8]"

definition format_spots :: "(nat \<times> nat) list" where
  "format_spots = [(8, 0), (8, 1), (8, 2), (8, 3), (8, 4), (8, 5), (8, 7), (8, 8), (7, 8), (5, 8), (4, 8), (3, 8), (2, 8), (1, 8), (0, 8)]"

definition read_format :: "grid \<Rightarrow> (Ecc \<times> nat) option" where
  "read_format g = find (\<lambda>f. format_word f = map (at g) format_spots) all_formats"

definition read_code :: "grid \<Rightarrow> string option" where
  "read_code g =
     (let ver = (length g - 17) div 4
      in case read_format g of
           None \<Rightarrow> None
         | Some (ecl, msk) \<Rightarrow>
             (case read_codewords ver ecl (bytes_of_bits (map (\<lambda>p. at g p \<noteq> mask_invert msk (fst p) (snd p)) (data_places ver))) of
                None \<Rightarrow> None
              | Some data \<Rightarrow> read_text ver (bytes_bits data)))"

subsection \<open>The format\<close>

text \<open>What the code computes are the words of the standard.\<close>

lemma format_bits_standard: "list_all (\<lambda>f. format_bits (fst f) (snd f) = FORMAT_INFO (fst f) ! snd f) all_formats"
  by code_simp

lemma formats_differ: "distinct (map format_word all_formats)"
  by code_simp

lemma find_distinct: "distinct (map f xs) \<Longrightarrow> x \<in> set xs \<Longrightarrow> find (\<lambda>y. f y = f x) xs = Some x"
  by (induction xs) (auto simp: image_iff)

lemma all_formats_set: "m < 8 \<Longrightarrow> (ecl, m) \<in> set all_formats"
  unfolding all_formats_def set_product by (cases ecl) auto

definition first_copy :: "int \<Rightarrow> cells" where
  "first_copy bits = map (\<lambda>i. ((8, int i), getBit bits i)) [0..<6]
     @ [((8, 7), getBit bits 6), ((8, 8), getBit bits 7), ((7, 8), getBit bits 8)] @ map (\<lambda>i. ((14 - int i, 8), getBit bits i)) [9..<15]"

definition second_copy :: "nat \<Rightarrow> int \<Rightarrow> cells" where
  "second_copy n bits = map (\<lambda>i. ((int n - 1 - int i, 8), getBit bits i)) [0..<8]
     @ map (\<lambda>i. ((8, int n - 15 + int i), getBit bits i)) [8..<15] @ [((8, int n - 8), True)]"

lemma format_copies: "format_cells n bits = first_copy bits @ second_copy n bits"
  by (simp only: format_cells_def first_copy_def second_copy_def append_assoc)

lemma first_copy_colours: "colours (first_copy bits) = zip format_spots (map (getBit bits) [0..<15])"
  by (simp add: colours_def place_def first_copy_def format_spots_def upt_rec numeral_nat)

lemma second_copy_far:
  assumes "21 \<le> n"
  shows "p \<in> fst ` set (colours (second_copy n bits)) \<Longrightarrow> 13 \<le> fst p \<or> 13 \<le> snd p"
proof -
  assume "p \<in> fst ` set (colours (second_copy n bits))"
  then obtain c where c: "c \<in> set (second_copy n bits)" "p = place c" unfolding places_colours by blast
  have "fst c \<in> fst ` set (second_copy n bits)" using c(1) by (rule imageI)
  then have "fst c \<in> {(x, y). y = 8 \<and> int n - 1 - int 8 < x \<and> x \<le> int n - 1 - int 0}
      \<union> {(x, y). x = 8 \<and> int n - 15 + int 8 \<le> y \<and> y < int n - 15 + int 15} \<union> {(8, int n - 8)}"
    unfolding second_copy_def set_append image_Un row_places_back column_places by auto
  then show ?thesis unfolding c(2) place_def using assms by auto
qed

lemma format_word_bits: "m < 8 \<Longrightarrow> format_word (ecl, m) = map (getBit (format_bits ecl m)) [0..<15]"
  using list_all_setD [OF format_bits_standard all_formats_set, of m ecl] by (simp add: format_word_def getBit_bit)

lemma format_spots_look:
  assumes "21 \<le> n" "i < 8"
  shows "map (format_look n ecl i) format_spots = map Some (format_word (ecl, i))"
proof -
  let ?b = "format_bits ecl i"
  have far: "map_of (rev (colours (second_copy n ?b))) p = None" if "p \<in> set format_spots" for p
  proof -
    have "\<not> (13 \<le> fst p \<or> 13 \<le> snd p)" using that by (auto simp: format_spots_def)
    then show ?thesis using second_copy_far [OF assms(1), of p ?b] by (auto simp: map_of_eq_None_iff)
  qed
  have d: "distinct format_spots" by (simp add: format_spots_def)
  have l: "length format_spots = 15" by (simp add: format_spots_def)
  show ?thesis
  proof (rule nth_equalityI)
    fix k
    assume "k < length (map (format_look n ecl i) format_spots)"
    then have k: "k < 15" by (simp add: l)
    let ?z = "zip format_spots (map (getBit ?b) [0..<15])"
    have "(format_spots ! k, getBit ?b k) \<in> set ?z" using k l by (force simp: set_zip)
    moreover have "distinct (map fst (rev ?z))" using d l by (simp add: rev_map [symmetric])
    ultimately have "map_of (rev ?z) (format_spots ! k) = Some (getBit ?b k)" by (simp add: map_of_is_SomeI)
    moreover have "format_spots ! k \<in> set format_spots" using k l by simp
    ultimately have "format_look n ecl i (format_spots ! k) = Some (getBit ?b k)"
      using far first_copy_colours by (simp add: format_look_def format_copies colours_def map_add_def)
    then show "map (format_look n ecl i) format_spots ! k = map Some (format_word (ecl, i)) ! k"
      using k l by (simp add: format_word_bits [OF assms(2)])
  qed (simp add: l format_word_def)
qed

subsection \<open>The finished code\<close>

text \<open>The function patterns with a code's codewords in the data modules.\<close>

definition filled :: "nat \<Rightarrow> Ecc \<Rightarrow> bytes \<Rightarrow> QrCode" where
  "filled ver ecl cw =
     (let q = drawFunctionPatterns (fresh_code ver ecl)
      in q\<lparr>qc_modules := grid.put_all (zip (data_places ver) (bytes_bits cw)) (qc_modules q)\<rparr>)"

definition finished :: "nat \<Rightarrow> Ecc \<Rightarrow> bytes \<Rightarrow> nat \<Rightarrow> QrCode" where
  "finished ver ecl cw m = (candidate m (filled ver ecl cw))\<lparr>qc_mask := int m, qc_isFunction := []\<rparr>"

lemma patterns_under_way:
  assumes "valid_version ver"
  shows "under_way (drawFunctionPatterns (fresh_code ver ecl))"
    "qc_version (drawFunctionPatterns (fresh_code ver ecl)) = ver" "qc_ecl (drawFunctionPatterns (fresh_code ver ecl)) = ecl"
    "qc_size (drawFunctionPatterns (fresh_code ver ecl)) = 4 * ver + 17"
proof -
  let ?q = "drawFunctionPatterns (fresh_code ver ecl)" and ?n = "4 * ver + 17"
  note d = drawFunctionPatterns_fresh [OF assms, of ecl] and ok = function_cells_ok [OF assms, of ecl]
  show f: "qc_version ?q = ver" "qc_ecl ?q = ecl" "qc_size ?q = ?n" unfolding d by (simp_all add: fresh_code_def Let_def)
  have "square ?n (qc_modules ?q)" "square ?n (qc_isFunction ?q)" unfolding d
    using grid.sound_put_all [OF square_blank inside_colours [OF ok]] grid.sound_put_all [OF square_blank inside_marks [OF ok]]
    by simp_all
  moreover have "\<not> qc_fault ?q" unfolding d by (simp add: fresh_code_def Let_def)
  ultimately show "under_way ?q" unfolding under_way_def f using assms drawn_marks [OF assms] by simp
qed

lemma data_cells_inside:
  assumes "valid_version ver"
  shows "list_all (in_grid (4 * ver + 17) \<circ> fst) (zip (data_places ver) bs)"
proof -
  have "in_grid (4 * ver + 17) (fst x)" if "x \<in> set (zip (data_places ver) bs)" for x
  proof -
    have "fst x \<in> set (data_places ver)" by (rule set_zip_leftD [of _ "snd x" _ bs]) (simp add: that)
    then show ?thesis unfolding set_data_places(1) [OF assms] by (rule CollectE) (erule conjunct1)
  qed
  then show ?thesis unfolding list_all_iff by simp
qed

lemma filled_under_way:
  assumes "valid_version ver"
  shows "under_way (filled ver ecl cw)" "qc_version (filled ver ecl cw) = ver" "qc_ecl (filled ver ecl cw) = ecl"
    "qc_size (filled ver ecl cw) = 4 * ver + 17"
proof -
  let ?q = "drawFunctionPatterns (fresh_code ver ecl)"
  note p = patterns_under_way [OF assms, of ecl]
  show f: "qc_version (filled ver ecl cw) = ver" "qc_ecl (filled ver ecl cw) = ecl" "qc_size (filled ver ecl cw) = 4 * ver + 17"
    using p by (simp_all add: filled_def Let_def)
  note i = data_cells_inside [OF assms, of "bytes_bits cw"]
  have "square (4 * ver + 17) (qc_modules ?q)" using under_way_square [OF p(1)] p(4) by simp
  from grid.sound_put_all [OF this i] have "square (qc_size ?q) (qc_modules (filled ver ecl cw))" using p(4) by (simp add: filled_def Let_def)
  then show "under_way (filled ver ecl cw)" using p(1) unfolding under_way_def by (simp add: filled_def Let_def)
qed

lemma filled_bits:
  assumes "valid_version ver" "8 * length cw \<le> length (data_places ver)" "k < 8 * length cw"
  shows "at (qc_modules (filled ver ecl cw)) (data_places ver ! k) = bytes_bits cw ! k"
proof -
  let ?q = "drawFunctionPatterns (fresh_code ver ecl)" and ?z = "zip (data_places ver) (bytes_bits cw)"
  note p = patterns_under_way [OF assms(1), of ecl]
  note i = data_cells_inside [OF assms(1), of "bytes_bits cw"]
  have "distinct (map fst ?z)" using set_data_places(2) [OF assms(1)] by (simp add: map_fst_zip_take)
  moreover have "(data_places ver ! k, bytes_bits cw ! k) \<in> set ?z" using assms(2,3) by (force simp: set_zip)
  ultimately show ?thesis using grid.look_put_all_distinct [OF _ i, of "qc_modules ?q"] under_way_square [OF p(1)] p(4)
    by (simp add: filled_def Let_def)
qed

lemma newQrCode_finished:
  assumes "valid_version ver" "int (length data) = data_codewords ver ecl"
  shows "\<exists>cw m. newQrCode ver ecl data (-1) = Inr (finished ver ecl cw m) \<and> best_candidate (filled ver ecl cw) m
     \<and> int (length cw) = raw_modules ver div 8 \<and> read_codewords ver ecl cw = Some data"
proof -
  let ?q = "drawFunctionPatterns (fresh_code ver ecl)"
  note p = patterns_under_way [OF assms(1), of ecl]
  obtain cw where cw: "addEccAndInterleave data ?q = Inr cw" "int (length cw) = raw_modules ver div 8" "read_codewords ver ecl cw = Some data"
    using addEccAndInterleave_read [of ?q data] assms p by auto
  have "\<not> at (qc_isFunction ?q) x \<longleftrightarrow> \<not> func_at ver x" if "x \<in> set (zigzag (4 * ver + 17))" for x
  proof -
    have "in_grid (4 * ver + 17) x" using that unfolding zigzag_valid(1) [OF assms(1)] in_grid_def by auto
    then show ?thesis using drawn_marks [OF assms(1)] by simp
  qed
  then have "filter (\<lambda>x. \<not> at (qc_isFunction ?q) x) (zigzag (4 * ver + 17)) = data_places ver"
    unfolding data_places_def zigzag_standard [symmetric] by (intro filter_cong) auto
  then have dc: "drawCodewords cw ?q = Inr (filled ver ecl cw)"
    using cw(2) p assms(1) codewords_put_all [of cw "qc_isFunction ?q" "zigzag (4 * ver + 17)" "qc_modules ?q" 0]
    by (simp add: drawCodewords_def filled_def Let_def)
  from mask_chosen [OF filled_under_way(1) [OF assms(1)], of ecl cw "\<lambda>q. Inr (q\<lparr>qc_isFunction := []\<rparr>)"] obtain m where
    m: "best_candidate (filled ver ecl cw) m"
      "bindE (mask_loop [0..<8] LONG_MAX (-1) (filled ver ecl cw)) (\<lambda>(msk, q).
      bindE (applyMask msk (q\<lparr>qc_mask := msk\<rparr>)) (\<lambda>q. bindE (no_fault (drawFormatBits (nat msk) q)) (\<lambda>q. Inr (q\<lparr>qc_isFunction := []\<rparr>))))
    = Inr (finished ver ecl cw m)" unfolding finished_def by auto
  have "no_fault ?q = Inr ?q" using p(1) by (simp add: no_fault_def under_way_def)
  then have "newQrCode ver ecl data (-1) = Inr (finished ver ecl cw m)"
    using assms(1) cw(1) dc m(2) by (simp add: newQrCode_def MIN_VERSION_def MAX_VERSION_def valid_version_def del: upt_rec_numeral)
  with m(1) cw show ?thesis by blast
qed

lemma finished_modules:
  assumes "valid_version ver" "m < 8"
  shows "square (4 * ver + 17) (qc_modules (finished ver ecl cw m))"
    "in_grid (4 * ver + 17) p \<Longrightarrow> at (qc_modules (finished ver ecl cw m)) p = shows_at m (filled ver ecl cw) p"
proof -
  note f = filled_under_way [OF assms(1), of ecl cw]
  obtain c: "under_way (candidate m (filled ver ecl cw))"
    "candidate m (filled ver ecl cw) = (filled ver ecl cw)\<lparr>qc_modules := qc_modules (candidate m (filled ver ecl cw))\<rparr>"
    "\<forall>p. in_grid (4 * ver + 17) p \<longrightarrow> at (qc_modules (candidate m (filled ver ecl cw))) p = shows_at m (filled ver ecl cw) p"
    using candidate_works [OF f(1), of m] assms(2) f(4) by auto
  have "qc_size (candidate m (filled ver ecl cw)) = 4 * ver + 17" using arg_cong [OF c(2), of qc_size] f(4) by simp
  with under_way_square [OF c(1)] show "square (4 * ver + 17) (qc_modules (finished ver ecl cw m))" by (simp add: finished_def)
  show "in_grid (4 * ver + 17) p \<Longrightarrow> at (qc_modules (finished ver ecl cw m)) p = shows_at m (filled ver ecl cw) p"
    using c(3) [rule_format] by (simp add: finished_def)
qed

lemma finished_format:
  assumes "valid_version ver" "m < 8"
  shows "read_format (qc_modules (finished ver ecl cw m)) = Some (ecl, m)"
proof -
  let ?g = "qc_modules (finished ver ecl cw m)" and ?n = "4 * ver + 17"
  note f = filled_under_way [OF assms(1), of ecl cw]
  have n: "21 \<le> ?n" using assms(1) by (simp add: valid_version_def)
  have "map (at ?g) format_spots = format_word (ecl, m)"
  proof (rule nth_equalityI)
    show l: "length (map (at ?g) format_spots) = length (format_word (ecl, m))" by (simp add: format_spots_def format_word_def)
    fix k
    assume "k < length (map (at ?g) format_spots)"
    then have k: "k < length format_spots" by simp
    have "in_grid ?n (format_spots ! k)"
    proof -
      have "format_spots ! k \<in> set format_spots" using k by simp
      then have "fst (format_spots ! k) \<le> 8 \<and> snd (format_spots ! k) \<le> 8" by (auto simp: format_spots_def)
      then show ?thesis using n by (simp add: in_grid_def)
    qed
    from finished_modules(2) [OF assms this] have "at ?g (format_spots ! k) = shows_at m (filled ver ecl cw) (format_spots ! k)" .
    moreover have "format_look ?n ecl m (format_spots ! k) = Some (format_word (ecl, m) ! k)"
      using arg_cong [OF format_spots_look [OF n assms(2), of ecl], of "\<lambda>l. l ! k"] k l by simp
    ultimately show "map (at ?g) format_spots ! k = format_word (ecl, m) ! k" using k f by (simp add: shows_at_def)
  qed
  then show ?thesis unfolding read_format_def by (simp add: find_distinct [OF formats_differ all_formats_set [OF assms(2)]])
qed

lemma finished_bits:
  assumes "valid_version ver" "m < 8" "p \<in> set (data_places ver)"
  shows "(at (qc_modules (finished ver ecl cw m)) p \<noteq> mask_invert m (fst p) (snd p)) = at (qc_modules (filled ver ecl cw)) p"
proof -
  note f = filled_under_way [OF assms(1), of ecl cw]
  have p: "in_grid (4 * ver + 17) p" "\<not> func_at ver p" using assms(3) unfolding set_data_places(1) [OF assms(1)] by blast+
  have n: "21 \<le> 4 * ver + 17" using assms(1) by (simp add: valid_version_def)
  have "\<not> format_place (4 * ver + 17) p" using p(2) format_place_func [OF assms(1)] by blast
  then have "format_look (4 * ver + 17) ecl m p = None" using format_look_dom [OF n] by blast
  with finished_modules(2) [OF assms(1,2) p(1)] p(2) f show ?thesis by (auto simp: shows_at_def)
qed

lemma read_finished:
  assumes "valid_version ver" "m < 8" "int (length cw) = raw_modules ver div 8" "read_codewords ver ecl cw = Some data"
  shows "read_code (qc_modules (finished ver ecl cw m)) = read_text ver (bytes_bits data)"
proof -
  let ?g = "qc_modules (finished ver ecl cw m)"
  have "length ?g = 4 * ver + 17" using finished_modules(1) [OF assms(1,2)] by (simp add: square_def)
  then have v: "(length ?g - 17) div 4 = ver" by simp
  have "raw_modules ver = 8 * int (length cw) + raw_modules ver mod 8" "0 \<le> raw_modules ver mod 8" "raw_modules ver mod 8 < 8"
    using assms(3) by simp_all
  then have l: "8 * length cw \<le> length (data_places ver)" "length (data_places ver) < 8 * length cw + 8"
    using length_data_places [OF assms(1)] by linarith+
  define bs where "bs = map (\<lambda>p. at ?g p \<noteq> mask_invert m (fst p) (snd p)) (data_places ver)"
  have b: "bs = map (at (qc_modules (filled ver ecl cw))) (data_places ver)"
    unfolding bs_def using finished_bits [OF assms(1,2)] by (intro map_cong refl) blast
  have t: "take (8 * length cw) bs = bytes_bits cw" unfolding b
    by (rule nth_equalityI) (use l filled_bits [OF assms(1) l(1)] in auto)
  have "length (drop (8 * length cw) bs) < 8" using l by (simp add: b)
  then have "bytes_of_bits (bytes_bits cw @ drop (8 * length cw) bs) = cw" by (rule bytes_of_bytes_bits)
  then have "bytes_of_bits bs = cw" unfolding t [symmetric] append_take_drop_id .
  then have "bytes_of_bits (map (\<lambda>p. at ?g p \<noteq> mask_invert m (fst p) (snd p)) (data_places ver)) = cw" unfolding bs_def .
  then show ?thesis using assms(4) by (simp add: read_code_def v finished_format [OF assms(1,2)])
qed

subsection \<open>Texts\<close>

lemma fits_read:
  assumes "t \<noteq> []" "makeSegments t = Inr segs" "fits segs ecl ver" "valid_version ver"
  shows "list_all (known_mode \<circ> seg_mode) segs" "read_text ver (concat (map (seg_bits ver) segs) @ r) = Some t"
proof -
  from makeSegments_text [OF assms(1,2)] obtain md d where s: "segs = [\<lparr>seg_mode = md, seg_numChars = length t, seg_data = d\<rparr>]"
    "md \<in> {NUMERIC, ALPHANUMERIC, BYTE}"
    "\<And>r. length t < 2 ^ numCharCountBits md ver \<Longrightarrow> read_text ver (seg_bits ver \<lparr>seg_mode = md, seg_numChars = length t, seg_data = d\<rparr> @ r) = Some t"
    by blast
  show "list_all (known_mode \<circ> seg_mode) segs" using s(2) by (auto simp: s(1) known_mode_def)
  have "\<not> int (length t) \<ge> 2 ^ numCharCountBits md ver"
    using assms(3) by (auto simp: fits_def s(1) getTotalBits_def Let_def split: if_splits)
  then have "\<not> int (2 ^ numCharCountBits md ver) \<le> int (length t)" by simp
  then have "length t < 2 ^ numCharCountBits md ver" by (simp only: of_nat_le_iff not_le)
  from s(3) [OF this] show "read_text ver (concat (map (seg_bits ver) segs) @ r) = Some t" by (simp add: s(1))
qed

text \<open>A version takes every text of three bytes less than its data codewords.\<close>

definition count_room :: "nat \<Rightarrow> Ecc \<Rightarrow> bool" where
  "count_room ver ecl \<longleftrightarrow> 0 \<le> data_codewords ver ecl \<and> data_codewords ver ecl < 3000
     \<and> list_all (\<lambda>md. data_codewords ver ecl < 2 ^ numCharCountBits md ver) [NUMERIC, ALPHANUMERIC, BYTE]"

lemma count_room_all: "list_all (\<lambda>ver. list_all (count_room ver) [LOW, MEDIUM, QUARTILE, HIGH]) [1..<41]"
  by code_simp

lemma count_room_valid: "valid_version ver \<Longrightarrow> count_room ver ecl"
  using count_room_all by (cases ecl) (simp_all add: valid_version_set list_all_iff)

lemma short_text_fits:
  assumes "t \<noteq> []" "makeSegments t = Inr segs" "valid_version ver" "int (length t) + 3 \<le> data_codewords ver ecl"
  shows "fits segs ecl ver"
proof -
  from makeSegments_text [OF assms(1,2)] obtain md d where s: "segs = [\<lparr>seg_mode = md, seg_numChars = length t, seg_data = d\<rparr>]"
    "md \<in> {NUMERIC, ALPHANUMERIC, BYTE}" "length d \<le> 8 * length t" by blast
  note room = count_room_valid [OF assms(3), of ecl, unfolded count_room_def]
  have "known_mode md" using s(2) by (auto simp: known_mode_def)
  then have cc: "numCharCountBits md ver \<le> 16" using known_mode_bounds assms(3) by (auto simp: valid_version_def)
  have t: "length t < 3000" using room assms(4) by linarith
  have "data_codewords ver ecl < 2 ^ numCharCountBits md ver" using room s(2) by auto
  then have "int (length t) < 2 ^ numCharCountBits md ver" using assms(4) by linarith
  then have "int (length t) < int (2 ^ numCharCountBits md ver)" by (simp only: of_nat_power of_nat_numeral)
  then have n: "length t < 2 ^ numCharCountBits md ver" by (simp only: of_nat_less_iff)
  have "getTotalBits segs ver = int (4 + numCharCountBits md ver + length d)"
    unfolding s(1) using getTotalBits_single [of "\<lparr>seg_mode = md, seg_numChars = length t, seg_data = d\<rparr>" ver] n cc s(3) t by simp
  then show ?thesis using s(3) cc assms(4) by (simp add: fits_def)
qed

lemma text_reads_back:
  "(case encodeText t ecl of
      Inr q \<Rightarrow> read_code (qc_modules q) = Some t \<and> (\<exists>ver e cw m. valid_version ver \<and> q = finished ver e cw m \<and> best_candidate (filled ver e cw) m
          \<and> (\<forall>v. valid_version v \<and> int (length t) + 3 \<le> data_codewords v ecl \<longrightarrow> ver \<le> v))
    | Inl e \<Rightarrow> data_codewords 40 ecl < int (length t) + 3)"
proof (cases "makeSegments t")
  case (Inl e)
  have "data_codewords 40 ecl < 3000" using count_room_valid [of 40 ecl] by (simp add: count_room_def valid_version_def)
  moreover have "\<not> int (length t) \<le> INT_MAX" using makeSegments_total [of t] Inl by auto
  ultimately show ?thesis using Inl by (simp add: encodeText_def INT_MAX_def)
next
  case (Inr segs)
  have e: "encodeText t ecl = encodeSegments segs ecl 1 40 (-1) True" by (simp add: encodeText_def Inr)
  have known: "list_all (known_mode \<circ> seg_mode) segs"
  proof (cases "t = []")
    case False
    from makeSegments_text [OF this Inr] show ?thesis by (auto simp: known_mode_def)
  qed (use Inr in \<open>simp add: makeSegments_def\<close>)
  have roomy: "fits segs ecl v" if "valid_version v" "int (length t) + 3 \<le> data_codewords v ecl" for v
  proof (cases "t = []")
    case True
    then have "segs = []" using Inr by (simp add: makeSegments_def)
    then show ?thesis using that(2) by (simp add: fits_def getTotalBits_def)
  qed (rule short_text_fits [OF _ Inr that])
  from encodeSegments_codewords [OF known, of ecl] show ?thesis
  proof (elim disjE exE conjE)
    fix msg
    assume f: "\<forall>ver. valid_version ver \<longrightarrow> \<not> fits segs ecl ver" and r: "encodeSegments segs ecl 1 40 (-1) True = Inl (DataTooLong msg)"
    have "valid_version 40" by (simp add: valid_version_def)
    then have "data_codewords 40 ecl < int (length t) + 3" using f roomy by (meson not_less)
    then show ?thesis unfolding e r sum.case .
  next
    fix ver ec data tl
    assume v: "valid_version ver" "fits segs ecl ver" "int (length data) = data_codewords ver ec"
      "bytes_bits data = concat (map (seg_bits ver) segs) @ tl" "concat (map (seg_bits ver) segs) = [] \<longrightarrow> take 4 tl = replicate 4 False"
      and small: "\<forall>v. valid_version v \<and> v < ver \<longrightarrow> \<not> fits segs ecl v"
      and n: "encodeSegments segs ecl 1 40 (-1) True = newQrCode ver ec data (-1)"
    from newQrCode_finished [OF v(1,3)] obtain cw m where c: "newQrCode ver ec data (-1) = Inr (finished ver ec cw m)"
      "best_candidate (filled ver ec cw) m" "int (length cw) = raw_modules ver div 8" "read_codewords ver ec cw = Some data" by blast
    have "m < 8" using c(2) unfolding best_candidate_def by blast
    have "read_text ver (bytes_bits data) = Some t"
    proof (cases "t = []")
      case True
      then have "bytes_bits data = tl" "take 4 tl = replicate 4 False" using Inr v(4,5) by (simp_all add: makeSegments_def)
      then have "bytes_bits data = replicate 4 False @ drop 4 tl" by (metis append_take_drop_id)
      then show ?thesis using read_text_terminator True by simp
    next
      case False
      show ?thesis unfolding v(4) by (rule fits_read(2) [OF False Inr v(2,1)])
    qed
    then have "read_code (qc_modules (finished ver ec cw m)) = Some t"
      using read_finished [OF v(1) \<open>m < 8\<close> c(3,4)] by simp
    moreover have "\<forall>v. valid_version v \<and> int (length t) + 3 \<le> data_codewords v ecl \<longrightarrow> ver \<le> v"
      using roomy small by (meson not_less)
    ultimately show ?thesis unfolding e n c(1) sum.case using v(1) c(2) by blast
  qed
qed

end
