(* ===== verification/QrProperties.thy ===== *)
theory QrProperties
  imports QrReader
begin

text \<open>
  What a QR code of \<open>encodeText\<close> in \<open>credential_provider/qrcodegen.cpp\<close> is: its text comes back, its
  mask is the best, it has the shape and the patterns a scanner looks for, and every text that
  fits the largest version gets one.
\<close>

subsection \<open>Fixed patterns\<close>

definition finder_dark :: "int \<Rightarrow> int \<Rightarrow> int \<times> int \<Rightarrow> bool" where
  "finder_dark cx cy p \<longleftrightarrow> max \<bar>fst p - cx\<bar> \<bar>snd p - cy\<bar> \<noteq> 2 \<and> max \<bar>fst p - cx\<bar> \<bar>snd p - cy\<bar> \<noteq> 4"

text \<open>A finder with its white border, and the two timing lines between the finders.\<close>

definition finder_shown :: "nat \<Rightarrow> grid \<Rightarrow> int \<Rightarrow> int \<Rightarrow> bool" where
  "finder_shown n g cx cy \<longleftrightarrow>
     list_all (\<lambda>p. \<bar>int (fst p) - cx\<bar> \<le> 4 \<and> \<bar>int (snd p) - cy\<bar> \<le> 4 \<longrightarrow> at g p = finder_dark cx cy (int (fst p), int (snd p))) (all_cells n)"

definition timing_shown :: "nat \<Rightarrow> grid \<Rightarrow> bool" where
  "timing_shown n g \<longleftrightarrow> list_all (\<lambda>i. at g (6, i) = even i \<and> at g (i, 6) = even i) [8..<n - 8]"

text \<open>The version words of the standard, from version 7 on, and the two places they are shown at.\<close>

definition VERSION_INFO :: "int list" where
  "VERSION_INFO = [0x07C94, 0x085BC, 0x09A99, 0x0A4D3, 0x0BBF6, 0x0C762, 0x0D847, 0x0E60D, 0x0F928, 0x10B78, 0x1145D, 0x12A17,
     0x13532, 0x149A6, 0x15683, 0x168C9, 0x177EC, 0x18EC4, 0x191E1, 0x1AFAB, 0x1B08E, 0x1CC1A, 0x1D33F, 0x1ED75, 0x1F250,
     0x209D5, 0x216F0, 0x228BA, 0x2379F, 0x24B0B, 0x2542E, 0x26A64, 0x27541, 0x28C69]"

definition version_shown :: "nat \<Rightarrow> grid \<Rightarrow> bool" where
  "version_shown ver g \<longleftrightarrow> list_all (\<lambda>i.
     let b = bit (VERSION_INFO ! (ver - 7)) i; n = 4 * ver + 17
     in at g (n - 11 + i mod 3, i div 3) = b \<and> at g (i div 3, n - 11 + i mod 3) = b) [0..<18]"

definition well_formed_code :: "QrCode \<Rightarrow> bool" where
  "well_formed_code q \<longleftrightarrow>
     valid_version (qc_version q) \<and> qc_size q = 4 * qc_version q + 17 \<and> square (qc_size q) (qc_modules q)
     \<and> 0 \<le> qc_mask q \<and> qc_mask q \<le> 7 \<and> qc_isFunction q = [] \<and> \<not> qc_fault q
     \<and> read_format (qc_modules q) = Some (qc_ecl q, nat (qc_mask q))
     \<and> finder_shown (qc_size q) (qc_modules q) 3 3
     \<and> finder_shown (qc_size q) (qc_modules q) (int (qc_size q) - 4) 3
     \<and> finder_shown (qc_size q) (qc_modules q) 3 (int (qc_size q) - 4)
     \<and> timing_shown (qc_size q) (qc_modules q)
     \<and> (7 \<le> qc_version q \<longrightarrow> version_shown (qc_version q) (qc_modules q))"

text \<open>Looking a place up in the cells drawn one after the other.\<close>

definition drawn :: "cells \<Rightarrow> nat \<times> nat \<Rightarrow> bool option" where
  "drawn cs p = map_of (rev (colours cs)) p"

lemma drawn_append: "drawn (as @ bs) p = (case drawn bs p of Some b \<Rightarrow> Some b | None \<Rightarrow> drawn as p)"
  by (simp add: drawn_def colours_def map_add_def split: option.split)

lemma drawn_None: "p \<notin> place ` set cs \<Longrightarrow> drawn cs p = None"
  by (simp add: drawn_def map_of_eq_None_iff places_colours)

lemma drawn_colour: "\<forall>c \<in> set cs. place c = p \<longrightarrow> snd c = b \<Longrightarrow> drawn cs p = None \<or> drawn cs p = Some b"
proof -
  assume a: "\<forall>c \<in> set cs. place c = p \<longrightarrow> snd c = b"
  show ?thesis
  proof (cases "drawn cs p")
    case (Some d)
    then have "(p, d) \<in> set (colours cs)" unfolding drawn_def using map_of_SomeD by fastforce
    then have "d = b" using a by (auto simp: colours_def)
    then show ?thesis using Some by simp
  qed simp
qed

lemma drawn_Some: "\<forall>c \<in> set cs. place c = p \<longrightarrow> snd c = b \<Longrightarrow> p \<in> place ` set cs \<Longrightarrow> drawn cs p = Some b"
  using drawn_colour [of cs p b] by (auto simp: drawn_def map_of_eq_None_iff places_colours)

text \<open>A place of a list of cells inside the grid, from the integers' point of view.\<close>

lemma place_in: "list_all (cell_ok n) cs \<Longrightarrow> p \<in> place ` set cs \<longleftrightarrow> (int (fst p), int (snd p)) \<in> fst ` set cs"
proof
  assume ok: "list_all (cell_ok n) cs" and "p \<in> place ` set cs"
  then obtain c where c: "c \<in> set cs" "p = place c" by blast
  then have "cell_ok n c" using ok by (simp add: list_all_iff)
  then have "(int (fst p), int (snd p)) = fst c" unfolding c(2) place_def cell_ok_def by (simp add: prod_eq_iff)
  then show "(int (fst p), int (snd p)) \<in> fst ` set cs" using c(1) by simp
next
  assume "(int (fst p), int (snd p)) \<in> fst ` set cs"
  then obtain c where "c \<in> set cs" "fst c = (int (fst p), int (snd p))" by force
  then show "p \<in> place ` set cs" by (intro image_eqI [of _ _ c]) (simp_all add: place_def)
qed

lemma finished_function:
  assumes "valid_version ver" "m < 8" "in_grid (4 * ver + 17) p" "func_at ver p" "\<not> format_place (4 * ver + 17) p"
    "drawn (function_cells ver ecl) p = Some b"
  shows "at (qc_modules (finished ver ecl cw m)) p = b"
proof -
  let ?n = "4 * ver + 17" and ?q = "drawFunctionPatterns (fresh_code ver ecl)"
  note f = filled_under_way [OF assms(1), of ecl cw] and pu = patterns_under_way [OF assms(1), of ecl]
  have n: "21 \<le> ?n" using assms(1) by (simp add: valid_version_def)
  have l: "format_look ?n ecl m p = None" using assms(5) format_look_dom [OF n] by blast
  have "at (qc_modules (finished ver ecl cw m)) p = at (qc_modules (filled ver ecl cw)) p"
    using finished_modules(2) [OF assms(1-3), of ecl cw] l assms(4) f by (simp add: shows_at_def)
  also have "\<dots> = at (qc_modules ?q) p"
  proof -
    have "p \<notin> fst ` set (zip (data_places ver) (bytes_bits cw))"
    proof
      assume "p \<in> fst ` set (zip (data_places ver) (bytes_bits cw))"
      then obtain c where "c \<in> set (zip (data_places ver) (bytes_bits cw))" "p = fst c" by blast
      then have "p \<in> set (data_places ver)" using set_zip_leftD [of "fst c" "snd c" "data_places ver" "bytes_bits cw"] by simp
      then show False using assms(4) set_data_places(1) [OF assms(1)] by simp
    qed
    from grid.look_put_all_other [OF _ data_cells_inside [OF assms(1)] assms(3) this] under_way_square [OF pu(1)] pu(4)
    show ?thesis by (simp add: filled_def Let_def)
  qed
  also have "\<dots> = b"
    using grid.look_put_all [OF square_blank inside_colours [OF function_cells_ok [OF assms(1)]] assms(3), of ecl] assms(6)
    by (simp add: drawFunctionPatterns_fresh [OF assms(1)] drawn_def)
  finally show ?thesis .
qed

lemma finder_cells_ok: "list_all (cell_ok n) (finder_cells n cx cy)"
proof -
  have "cell_ok n c" if "c \<in> set (finder_cells n cx cy)" for c
  proof -
    have "fst c \<in> finder_area n cx cy" using that finder_places by blast
    then show ?thesis by (auto simp: finder_area_def cell_ok_def)
  qed
  then show ?thesis by (simp add: list_all_iff)
qed

lemma cell_at: "cell_ok n c \<Longrightarrow> place c = p \<Longrightarrow> fst c = (int (fst p), int (snd p))"
  by (auto simp: place_def cell_ok_def)

lemma finder_cell_dark: "c \<in> set (finder_cells n cx cy) \<Longrightarrow> snd c = finder_dark cx cy (fst c)"
proof -
  assume "c \<in> set (finder_cells n cx cy)"
  then obtain dx dy where "c \<in> set (let dist = max \<bar>dx\<bar> \<bar>dy\<bar>; xx = cx + dx; yy = cy + dy
     in if 0 \<le> xx \<and> xx < int n \<and> 0 \<le> yy \<and> yy < int n then [((xx, yy), dist \<noteq> 2 \<and> dist \<noteq> 4)] else [])"
    unfolding finder_cells_def set_window by blast
  then show ?thesis by (auto simp: Let_def finder_dark_def split: if_splits)
qed

lemma finder_places_in:
  assumes "in_grid n p" "\<bar>int (fst p) - cx\<bar> \<le> 4" "\<bar>int (snd p) - cy\<bar> \<le> 4"
  shows "drawn (finder_cells n cx cy) p = Some (finder_dark cx cy (int (fst p), int (snd p)))"
proof (rule drawn_Some)
  show "p \<in> place ` set (finder_cells n cx cy)"
    unfolding place_in [OF finder_cells_ok] finder_places using assms by (auto simp: finder_area_def in_grid_def)
  show "\<forall>c \<in> set (finder_cells n cx cy). place c = p \<longrightarrow> snd c = finder_dark cx cy (int (fst p), int (snd p))"
  proof (intro ballI impI)
    fix c
    assume c: "c \<in> set (finder_cells n cx cy)" "place c = p"
    then have "cell_ok n c" using finder_cells_ok by (metis list_all_iff)
    from cell_at [OF this c(2)] finder_cell_dark [OF c(1)] show "snd c = finder_dark cx cy (int (fst p), int (snd p))" by simp
  qed
qed

text \<open>The parts of the drawing, from the last to the first.\<close>

definition alignment_part :: "nat \<Rightarrow> cells" where
  "alignment_part ver = concat (map (\<lambda>(x, y). alignment_cells x y) (alignment_centres (getAlignmentPatternPositions ver)))"

definition version_part :: "nat \<Rightarrow> cells" where
  "version_part ver = (if ver < 7 then [] else version_cells (4 * ver + 17) (version_bits ver))"

lemma drawn_parts:
  assumes "valid_version ver" "in_grid (4 * ver + 17) p" "\<not> format_place (4 * ver + 17) p"
    "\<not> (7 \<le> ver \<and> (int (fst p), int (snd p)) \<in> version_area (4 * ver + 17))"
  shows "drawn (function_cells ver ecl) p
     = drawn (timing_cells (4 * ver + 17) @ finder_cells (4 * ver + 17) 3 3 @ finder_cells (4 * ver + 17) (int (4 * ver + 17) - 4) 3
         @ finder_cells (4 * ver + 17) 3 (int (4 * ver + 17) - 4) @ alignment_part ver) p"
proof -
  let ?n = "4 * ver + 17"
  have ok: "list_all (cell_ok ?n) (format_cells ?n b)" for b by (rule format_cells_ok) (use assms(1) in \<open>simp add: valid_version_def\<close>)
  have vok: "list_all (cell_ok ?n) (version_part ver)" using function_cells_ok [OF assms(1), of ecl]
    by (simp add: function_cells_def version_part_def Let_def)
  have "p \<notin> place ` set (format_cells ?n (format_bits ecl 0))"
    unfolding place_in [OF ok] format_places using assms(3) by (simp add: format_place_def)
  moreover have "p \<notin> place ` set (version_part ver)"
    unfolding place_in [OF vok] using assms(4) by (auto simp: version_part_def version_places split: if_splits)
  ultimately show ?thesis
    by (simp add: function_cells_def Let_def drawn_append drawn_None version_part_def [symmetric] alignment_part_def [symmetric]
        del: of_nat_add of_nat_mult)
qed

lemma alignment_part_places: "valid_version ver \<Longrightarrow> p \<in> place ` set (alignment_part ver) \<longleftrightarrow> in_alignment ver (int (fst p), int (snd p))"
proof -
  assume v: "valid_version ver"
  have "list_all (cell_ok (4 * ver + 17)) (alignment_part ver)" using function_cells_ok [OF v, of LOW]
    by (simp add: function_cells_def alignment_part_def Let_def)
  from place_in [OF this] show ?thesis unfolding alignment_part_def all_alignment_places by simp
qed

definition near :: "int \<Rightarrow> int \<Rightarrow> nat \<times> nat \<Rightarrow> bool" where
  "near cx cy p \<longleftrightarrow> \<bar>int (fst p) - cx\<bar> \<le> 4 \<and> \<bar>int (snd p) - cy\<bar> \<le> 4"

lemma drawn_finder_far: "\<not> near cx cy p \<Longrightarrow> drawn (finder_cells n cx cy) p = None"
  by (rule drawn_None, unfold place_in [OF finder_cells_ok] finder_places) (auto simp: finder_area_def near_def)

lemma finder_corner:
  assumes "valid_version ver" "in_grid (4 * ver + 17) p" "near cx cy p"
    "(cx, cy) \<in> {(3, 3), (4 * int ver + 13, 3), (3, 4 * int ver + 13)}"
  shows "func_at ver p" "\<not> format_place (4 * ver + 17) p" "drawn (function_cells ver ecl) p = Some (finder_dark cx cy (int (fst p), int (snd p)))"
proof -
  let ?n = "4 * ver + 17" and ?x = "int (fst p)" and ?y = "int (snd p)"
  have v: "1 \<le> ver" using assms(1) by (simp add: valid_version_def)
  have b: "?x < 4 * int ver + 17" "?y < 4 * int ver + 17" using assms(2) by (simp_all add: in_grid_def)
  have c: "?x \<le> 7 \<and> ?y \<le> 7 \<and> cx = 3 \<and> cy = 3 \<or> 4 * int ver + 9 \<le> ?x \<and> ?y \<le> 7 \<and> cx = 4 * int ver + 13 \<and> cy = 3
      \<or> ?x \<le> 7 \<and> 4 * int ver + 9 \<le> ?y \<and> cx = 3 \<and> cy = 4 * int ver + 13"
    using assms(3,4) by (auto simp: near_def abs_le_iff)
  show f: "func_at ver p" using c unfolding func_at_def func_cell_def Let_def by auto
  have n: "int ?n = 4 * int ver + 17" by simp
  show nf: "\<not> format_place ?n p" using c v unfolding format_place_def corner_iff n by auto
  have nv: "\<not> (7 \<le> ver \<and> (?x, ?y) \<in> version_area ?n)" using c v unfolding version_area_def n by auto
  have na: "drawn (alignment_part ver) p = None"
    using alignment_away [OF assms(1), of ?x ?y] c v by (intro drawn_None) (auto simp: alignment_part_places [OF assms(1)])
  have "drawn (finder_cells ?n cx cy) p = Some (finder_dark cx cy (?x, ?y))"
    by (rule finder_places_in [OF assms(2)]) (use assms(3) in \<open>simp_all add: near_def\<close>)
  moreover have "near cx' cy' p \<Longrightarrow> (cx', cy') \<in> {(3, 3), (4 * int ver + 13, 3), (3, 4 * int ver + 13)} \<Longrightarrow> cx' = cx \<and> cy' = cy" for cx' cy'
    using c v by (auto simp: near_def abs_le_iff)
  note only = this
  have e: "int ?n - 4 = 4 * int ver + 13" by simp
  from c consider "cx = 3" "cy = 3" | "cx = 4 * int ver + 13" "cy = 3" | "cx = 3" "cy = 4 * int ver + 13" by blast
  then have "drawn (finder_cells ?n 3 3 @ finder_cells ?n (4 * int ver + 13) 3 @ finder_cells ?n 3 (4 * int ver + 13)) p
      = drawn (finder_cells ?n cx cy) p"
  proof cases
    case 1
    then have "\<not> near (4 * int ver + 13) 3 p" "\<not> near 3 (4 * int ver + 13) p" using only v by fastforce+
    then show ?thesis using 1 by (simp add: drawn_append drawn_finder_far)
  next
    case 2
    then have "\<not> near 3 (4 * int ver + 13) p" "\<not> near 3 3 p" using only v by fastforce+
    then show ?thesis using 2 by (simp add: drawn_append drawn_finder_far split: option.split)
  next
    case 3
    then have "\<not> near (4 * int ver + 13) 3 p" "\<not> near 3 3 p" using only v by fastforce+
    then show ?thesis using 3 by (simp add: drawn_append drawn_finder_far split: option.split)
  qed
  ultimately show "drawn (function_cells ver ecl) p = Some (finder_dark cx cy (?x, ?y))"
    unfolding drawn_parts [OF assms(1,2) nf nv] e append_assoc [symmetric]
    by (simp only: append_assoc drawn_append na option.case)
qed

lemma finder_finished:
  assumes "valid_version ver" "m < 8" "(cx, cy) \<in> {(3, 3), (4 * int ver + 13, 3), (3, 4 * int ver + 13)}"
  shows "finder_shown (4 * ver + 17) (qc_modules (finished ver ecl cw m)) cx cy"
proof -
  have "at (qc_modules (finished ver ecl cw m)) p = finder_dark cx cy (int (fst p), int (snd p))"
    if "in_grid (4 * ver + 17) p" "near cx cy p" for p
    using finder_corner [OF assms(1) that assms(3)] by (intro finished_function [OF assms(1,2) that(1)])
  then show ?thesis unfolding finder_shown_def list_all_iff all_cells_set near_def by blast
qed

lemma positions_even_all: "list_all (\<lambda>ver. list_all even (getAlignmentPatternPositions ver)) [1..<41]"
  by code_simp

text \<open>An alignment pattern over a timing line continues it.\<close>

lemma alignment_on_timing:
  assumes "valid_version ver" "c \<in> set (alignment_part ver)"
  shows "fst (fst c) = 6 \<Longrightarrow> snd c = even (snd (fst c))" "snd (fst c) = 6 \<Longrightarrow> snd c = even (fst (fst c))"
proof -
  let ?ps = "getAlignmentPatternPositions ver"
  from assms(2) obtain cx cy where c: "(cx, cy) \<in> set (alignment_centres ?ps)" "c \<in> set (alignment_cells cx cy)"
    unfolding alignment_part_def by auto
  from c(2) obtain dx dy where d: "dx \<in> {-2..2}" "dy \<in> {-2..2}" "c = ((cx + dx, cy + dy), max \<bar>dx\<bar> \<bar>dy\<bar> \<noteq> 1)"
    unfolding alignment_cells_def set_rows set_upto by blast
  from c(1) obtain i j where ij: "cx = ?ps ! i" "cy = ?ps ! j" "i < length ?ps" "j < length ?ps"
    unfolding set_alignment_centres centre_def by auto
  have z: "length ?ps \<noteq> 0" using ij(3) by linarith
  then have p0: "?ps ! 0 = 6" using positions_valid [OF assms(1)] by (auto simp: positions_ok_def Let_def split: if_splits)
  have six: "?ps ! k = 6 \<or> 18 \<le> ?ps ! k" if "k < length ?ps" for k
    using positions_range [OF assms(1) that] p0 by (cases "k = 0") auto
  have ev: "even cx" "even cy"
    using list_all_setD [OF positions_even_all, of ver] assms(1) ij by (auto simp: valid_version_set list_all_iff)
  have one: "\<bar>e\<bar> \<noteq> 1 \<longleftrightarrow> even e" if "e \<in> {-2..2}" for e :: int
  proof -
    from that have "e = -2 \<or> e = -1 \<or> e = 0 \<or> e = 1 \<or> e = 2" by auto
    then show ?thesis by auto
  qed
  show "snd c = even (snd (fst c))" if "fst (fst c) = 6"
  proof -
    have "dx = 0" using that d six [OF ij(3)] ij(1) ev by auto
    then show ?thesis using d(3) one [OF d(2)] ev by simp
  qed
  show "snd c = even (fst (fst c))" if "snd (fst c) = 6"
  proof -
    have "dy = 0" using that d six [OF ij(4)] ij(2) ev by auto
    then show ?thesis using d(3) one [OF d(1)] ev by simp
  qed
qed

lemma timing_cells_ok: "21 \<le> n \<Longrightarrow> list_all (cell_ok n) (timing_cells n)"
  by (auto simp: list_all_iff timing_cells_def cell_ok_def)

lemma timing_finished:
  assumes "valid_version ver" "m < 8"
  shows "timing_shown (4 * ver + 17) (qc_modules (finished ver ecl cw m))"
proof -
  let ?n = "4 * ver + 17"
  have v: "1 \<le> ver" and n21: "21 \<le> ?n" using assms(1) by (simp_all add: valid_version_def)
  have n: "int ?n = 4 * int ver + 17" "int ?n - 4 = 4 * int ver + 13" by simp_all
  have "at (qc_modules (finished ver ecl cw m)) p = even i"
    if i: "8 \<le> i" "i < 4 * ver + 9" and p: "p = (6, i) \<or> p = (i, 6)" for p i
  proof (rule finished_function [OF assms])
    show g: "in_grid ?n p" using i p v by (auto simp: in_grid_def)
    show "func_at ver p" using p by (auto simp: func_at_def func_cell_def Let_def)
    show nf: "\<not> format_place ?n p" using p i unfolding format_place_def corner_iff n by auto
    have nv: "\<not> (7 \<le> ver \<and> (int (fst p), int (snd p)) \<in> version_area ?n)" using p i unfolding version_area_def n by auto
    have far: "\<not> near 3 3 p" "\<not> near (4 * int ver + 13) 3 p" "\<not> near 3 (4 * int ver + 13) p" using p i v by (auto simp: near_def abs_le_iff)
    have aok: "list_all (cell_ok ?n) (alignment_part ver)" using function_cells_ok [OF assms(1), of LOW]
      by (simp add: function_cells_def alignment_part_def Let_def)
    have "snd c = even i" if c: "c \<in> set (alignment_part ver)" "place c = p" for c
    proof -
      have "cell_ok ?n c" using c(1) aok by (metis list_all_iff)
      from cell_at [OF this c(2)] alignment_on_timing [OF assms(1) c(1)] p show ?thesis by auto
    qed
    then have a: "drawn (alignment_part ver) p = None \<or> drawn (alignment_part ver) p = Some (even i)" by (intro drawn_colour) blast
    have "drawn (timing_cells ?n) p = Some (even i)"
    proof (rule drawn_Some)
      show "p \<in> place ` set (timing_cells ?n)"
        unfolding place_in [OF timing_cells_ok [OF n21]] timing_places n using p i by auto
      have t: "snd c = (if fst (fst c) = 6 then even (snd (fst c)) else even (fst (fst c)))" if "c \<in> set (timing_cells ?n)" for c
        using that by (auto simp: timing_cells_def even_iff_mod_2_eq_zero)
      show "\<forall>c \<in> set (timing_cells ?n). place c = p \<longrightarrow> snd c = even i"
      proof (intro ballI impI)
        fix c
        assume c: "c \<in> set (timing_cells ?n)" "place c = p"
        then have "cell_ok ?n c" using timing_cells_ok [OF n21] by (metis list_all_iff)
        from cell_at [OF this c(2)] t [OF c(1)] p i show "snd c = even i" by auto
      qed
    qed
    with a show "drawn (function_cells ver ecl) p = Some (even i)"
      unfolding drawn_parts [OF assms(1) g nf nv] n(2)
      by (auto simp: drawn_append drawn_finder_far [OF far(1)] drawn_finder_far [OF far(2)] drawn_finder_far [OF far(3)])
  qed
  then have "at (qc_modules (finished ver ecl cw m)) (6, i) = even i \<and> at (qc_modules (finished ver ecl cw m)) (i, 6) = even i"
    if "8 \<le> i" "i < 4 * ver + 9" for i
    using that by blast
  then show ?thesis by (simp add: timing_shown_def list_all_iff)
qed

lemma version_bits_standard: "map version_bits [7..<41] = VERSION_INFO"
  by code_simp

lemma version_cell: "c \<in> set (version_cells n b) \<Longrightarrow> \<exists>i < 18. snd c = bit b i
    \<and> (fst c = (int n - 11 + int i mod 3, int i div 3) \<or> fst c = (int i div 3, int n - 11 + int i mod 3))"
  unfolding version_cells_def Let_def getBit_bit by auto

lemma version_finished:
  assumes "valid_version ver" "m < 8" "7 \<le> ver"
  shows "version_shown ver (qc_modules (finished ver ecl cw m))"
proof -
  let ?n = "4 * ver + 17" and ?w = "VERSION_INFO ! (ver - 7)"
  have w: "version_bits ver = ?w"
  proof -
    have "ver - 7 < length [7..<41]" using assms(1,3) by (simp add: valid_version_def)
    then have "map version_bits [7..<41] ! (ver - 7) = version_bits ver" using assms(3) by (simp del: upt_rec_numeral)
    then show ?thesis unfolding version_bits_standard by simp
  qed
  have vp: "version_part ver = version_cells ?n ?w" using assms(3) w by (simp add: version_part_def)
  have vok: "list_all (cell_ok ?n) (version_part ver)" using function_cells_ok [OF assms(1), of ecl]
    by (simp add: function_cells_def version_part_def Let_def)
  have ni: "int ?n = 4 * int ver + 17" by simp
  have "at (qc_modules (finished ver ecl cw m)) p = bit ?w i"
    if i: "i < 18" and p: "p = (?n - 11 + i mod 3, i div 3) \<or> p = (i div 3, ?n - 11 + i mod 3)" for p i
  proof (rule finished_function [OF assms(1,2)])
    have r: "i div 3 < 6" "i mod 3 < 3" using i by auto
    define a b x y where "a = int i mod 3" and "b = int i div 3" and "x = int (fst p)" and "y = int (snd p)"
    have ab: "0 \<le> a" "a < 3" "0 \<le> b" "b < 6" using i by (auto simp: a_def b_def)
    have ip: "x = 4 * int ver + 6 + a \<and> y = b \<or> x = b \<and> y = 4 * int ver + 6 + a"
      using p by (auto simp: x_def y_def a_def b_def of_nat_mod of_nat_div)
    show "in_grid ?n p" using p r by (auto simp: in_grid_def)
    show "func_at ver p" unfolding func_at_def func_cell_def Let_def fst_conv snd_conv x_def [symmetric] y_def [symmetric]
      using ip ab assms(3) by (elim disjE conjE) simp_all
    show "\<not> format_place ?n p" unfolding format_place_def corner_iff ni x_def [symmetric] y_def [symmetric]
      using ip ab assms(3) by (elim disjE conjE) simp_all
    have same: "j = i" if "j < 18" "int j mod 3 = int i mod 3" "int j div 3 = int i div 3" for j
      using that by (metis div_mult_mod_eq of_nat_eq_iff)
    have "snd c = bit ?w i" if c: "c \<in> set (version_part ver)" "place c = p" for c
    proof -
      from version_cell [OF c(1) [unfolded vp]] obtain j where j: "j < 18" "snd c = bit ?w j"
        "fst c = (int ?n - 11 + int j mod 3, int j div 3) \<or> fst c = (int j div 3, int ?n - 11 + int j mod 3)" by blast
      have "cell_ok ?n c" using c(1) vok by (metis list_all_iff)
      from cell_at [OF this c(2)] have f: "fst c = (x, y)" unfolding x_def y_def .
      define a' b' where "a' = int j mod 3" and "b' = int j div 3"
      have "0 \<le> a'" "b' < 6" using j(1) by (auto simp: a'_def b'_def)
      moreover have "x = 4 * int ver + 6 + a' \<and> y = b' \<or> x = b' \<and> y = 4 * int ver + 6 + a'"
        using j(3) unfolding f a'_def [symmetric] b'_def [symmetric] ni by auto
      ultimately have "a' = a \<and> b' = b" using ip ab assms(3) by (elim disjE conjE) simp_all
      then have "int j mod 3 = int i mod 3 \<and> int j div 3 = int i div 3" by (simp only: a_def b_def a'_def b'_def)
      then have "j = i" using same j(1) by blast
      then show ?thesis using j(2) by simp
    qed
    moreover have "p \<in> place ` set (version_part ver)"
      unfolding place_in [OF vok] unfolding vp version_places version_area_def ni x_def [symmetric] y_def [symmetric] mem_Collect_eq prod.case
      using ip ab by (elim disjE conjE) simp_all
    ultimately have "drawn (version_part ver) p = Some (bit ?w i)" by (intro drawn_Some) blast+
    then show "drawn (function_cells ver ecl) p = Some (bit ?w i)"
      by (simp add: function_cells_def Let_def drawn_append version_part_def [symmetric])
  qed
  then show ?thesis unfolding version_shown_def list_all_iff Let_def by auto
qed

subsection \<open>Capacity\<close>

text \<open>A text of bytes needs its length, its count and its mode.\<close>

definition byte_room :: "nat \<Rightarrow> Ecc \<Rightarrow> bool" where
  "byte_room ver ecl \<longleftrightarrow> data_codewords ver ecl \<le> data_codewords 40 ecl
     \<and> (ver < 10 \<longrightarrow> data_codewords ver ecl < data_codewords 40 ecl)
     \<and> numCharCountBits BYTE ver = (if ver < 10 then 8 else 16)"

lemma byte_room_all: "list_all (\<lambda>ver. list_all (byte_room ver) [LOW, MEDIUM, QUARTILE, HIGH]) [1..<41]"
  by code_simp

lemma byte_room_valid: "valid_version ver \<Longrightarrow> byte_room ver ecl"
  using byte_room_all by (cases ecl) (simp_all add: valid_version_set list_all_iff)

lemma bytes_need_room:
  assumes "\<not> isNumeric t" "\<not> isAlphanumeric t" "makeSegments t = Inr segs" "valid_version ver" "fits segs ecl ver"
  shows "int (length t) + 3 \<le> data_codewords 40 ecl"
proof -
  have "t \<noteq> []" using assms(1) by auto
  then have "makeSegments t = bindE (makeBytes (map of_char t)) (\<lambda>s. Inr [s])" using assms(1,2) by (simp add: makeSegments_def)
  with assms(3) have s: "segs = [\<lparr>seg_mode = BYTE, seg_numChars = length t, seg_data = bytes_bits (map of_char t)\<rparr>]"
    by (auto simp: makeBytes_def append_bytes8_bits split: if_splits)
  have k: "list_all (known_mode \<circ> seg_mode) segs" by (simp add: s known_mode_def)
  have v: "1 \<le> ver" "ver \<le> 40" using assms(4) by (simp_all add: valid_version_def)
  have "total_bits segs ver 0 \<noteq> -1" using assms(5) by (simp add: fits_def getTotalBits_def)
  from total_bits_layout [OF k v order_refl this, of "[]"]
  have "getTotalBits segs ver = int (4 + numCharCountBits BYTE ver + 8 * length t)"
    by (simp add: getTotalBits_def s seg_bits_def)
  then have f: "int (4 + numCharCountBits BYTE ver + 8 * length t) \<le> data_codewords ver ecl * 8" using assms(5) by (simp add: fits_def)
  show ?thesis
  proof (cases "ver < 10")
    case True
    then show ?thesis using f byte_room_valid [OF assms(4), of ecl] by (simp add: byte_room_def)
  next
    case False
    then show ?thesis using f byte_room_valid [OF assms(4), of ecl] by (simp add: byte_room_def)
  qed
qed

subsection \<open>The properties\<close>

text \<open>C21. The text comes back.  Whatever the text and the level of correction, either the code is made,
  and a reader that finds version, level and mask in it, takes off the mask, collects the codewords
  in the order of the scan, finds every block a Reed-Solomon codeword and decodes the segment reads
  exactly this text; or the text is too long for the largest version.\<close>

theorem qr_reads_back:
  "case encodeText t ecl of
     Inr q \<Rightarrow> read_code (qc_modules q) = Some t
   | Inl e \<Rightarrow> data_codewords 40 ecl < int (length t) + 3"
  using text_reads_back [of ecl t] by (auto split: sum.split)

text \<open>C22. The code is well formed: a square of four times the version and seventeen modules, a mask from 0
  to 7 that the format bits name together with the level of correction, the three finders with
  their white borders, the two timing lines and, from version 7 on, the two copies of the version word; the construction
  never left the grid.\<close>

theorem qr_code_well_formed:
  "case encodeText t ecl of Inr q \<Rightarrow> well_formed_code q | Inl _ \<Rightarrow> True"
proof (cases "encodeText t ecl")
  case (Inr q)
  with text_reads_back [of ecl t] obtain ver e cw m where f: "valid_version ver" "q = finished ver e cw m" "best_candidate (filled ver e cw) m"
    by auto
  have m: "m < 8" using f(3) unfolding best_candidate_def by blast
  note u = filled_under_way [OF f(1), of e cw]
  obtain c: "under_way (candidate m (filled ver e cw))"
    "candidate m (filled ver e cw) = (filled ver e cw)\<lparr>qc_modules := qc_modules (candidate m (filled ver e cw))\<rparr>"
    using candidate_works [OF u(1), of m] m by auto
  have x: "qc_version q = ver" "qc_size q = 4 * ver + 17" "qc_ecl q = e" "qc_mask q = int m" "qc_isFunction q = []"
    using arg_cong [OF c(2), of qc_version] arg_cong [OF c(2), of qc_size] arg_cong [OF c(2), of qc_ecl] u
    by (simp_all add: f(2) finished_def)
  have "\<not> qc_fault q" using c(1) by (simp add: f(2) finished_def under_way_def)
  then have "well_formed_code q"
    unfolding well_formed_code_def x using f(1) m finished_modules(1) [OF f(1) m] finished_format [OF f(1) m]
      finder_finished [OF f(1) m] timing_finished [OF f(1) m] version_finished [OF f(1) m] by (simp add: f(2))
  with Inr show ?thesis by simp
qed simp

text \<open>C23. The mask is the best one: of the eight codes that differ from the result in the mask and the
  format bits only, it has the smallest penalty, and the masks before it a larger one; that
  the loop writes over its own format bits does not change what it compares.\<close>

theorem qr_mask_smallest:
  "case encodeText t ecl of
     Inr q \<Rightarrow> \<exists>ver e cw. q = (candidate (nat (qc_mask q)) (filled ver e cw))\<lparr>qc_mask := qc_mask q, qc_isFunction := []\<rparr>
                \<and> best_candidate (filled ver e cw) (nat (qc_mask q))
   | Inl _ \<Rightarrow> True"
proof (cases "encodeText t ecl")
  case (Inr q)
  with text_reads_back [of ecl t] obtain ver e cw m where f: "q = finished ver e cw m" "best_candidate (filled ver e cw) m"
    by auto
  have "qc_mask q = int m" by (simp add: f(1) finished_def)
  with f have "q = (candidate (nat (qc_mask q)) (filled ver e cw))\<lparr>qc_mask := qc_mask q, qc_isFunction := []\<rparr>
      \<and> best_candidate (filled ver e cw) (nat (qc_mask q))" by (simp add: finished_def)
  with Inr show ?thesis by auto
qed simp

text \<open>What is too long, exactly: a text that needs the byte mode gets a code if and only if it has at
  least three bytes less than the data codewords of version 40, and the error is the one for data
  that is too long, nothing else.\<close>

lemma qr_byte_capacity:
  "isNumeric t \<or> isAlphanumeric t \<or>
   (case encodeText t ecl of
      Inr q \<Rightarrow> int (length t) + 3 \<le> data_codewords 40 ecl
    | Inl e \<Rightarrow> data_codewords 40 ecl < int (length t) + 3 \<and> (case e of DataTooLong _ \<Rightarrow> True | LengthError _ \<Rightarrow> True | _ \<Rightarrow> False))"
proof (cases "isNumeric t \<or> isAlphanumeric t")
  case False
  then have ne: "t \<noteq> []" by auto
  have mk: "makeSegments t = bindE (makeBytes (map of_char t)) (\<lambda>s. Inr [s])" using False ne by (simp add: makeSegments_def)
  show ?thesis
  proof (cases "makeSegments t")
    case (Inl e)
    then have "e = LengthError ''Data too long''" using mk by (auto simp: makeBytes_def append_bytes8_bits split: if_splits)
    then show ?thesis using text_reads_back [of ecl t] Inl by (simp add: encodeText_def)
  next
    case (Inr segs)
    from makeSegments_text [OF ne Inr] have known: "list_all (known_mode \<circ> seg_mode) segs" by (auto simp: known_mode_def)
    have e: "encodeText t ecl = encodeSegments segs ecl 1 40 (-1) True" by (simp add: encodeText_def Inr)
    from encodeSegments_codewords [OF known, of ecl] show ?thesis
    proof (elim disjE exE conjE)
      fix msg
      assume r: "encodeSegments segs ecl 1 40 (-1) True = Inl (DataTooLong msg)"
      have "data_codewords 40 ecl < int (length t) + 3" using text_reads_back [of ecl t] unfolding e r by simp
      then show ?thesis unfolding e r by simp
    next
      fix ver ec data tl
      assume v: "valid_version ver" "fits segs ecl ver" "int (length data) = data_codewords ver ec"
        and n: "encodeSegments segs ecl 1 40 (-1) True = newQrCode ver ec data (-1)"
      have "int (length t) + 3 \<le> data_codewords 40 ecl" using bytes_need_room [OF _ _ Inr v(1,2)] False by blast
      moreover obtain q where "newQrCode ver ec data (-1) = Inr q" using newQrCode_finished [OF v(1,3)] by blast
      ultimately show ?thesis unfolding e n by simp
    qed
  qed
qed blast

end
