(* ===== verification/QrPicture.thy ===== *)
theory QrPicture
  imports QrReader CredentialBitmap
begin

text \<open>
  From the address to LogonUI: \<open>CreateQrBitmap\<close> of \<open>credential_provider/LigamentCredential.cpp\<close> with the
  encoder of \<open>credential_provider/qrcodegen.cpp\<close> in the place of its parameter, and the buffer the
  tile hands out.  A reader that decodes the PNG, looks at the first pixel of each module and reads
  the code finds the address.
\<close>

text \<open>\<open>text.c_str()\<close>, up to the first terminator; what \<open>encodeText\<close> throws is caught.\<close>

definition c_str :: "string \<Rightarrow> string" where
  "c_str t = takeWhile (\<lambda>c. c \<noteq> CHR 0x00) t"

definition encode_medium :: "string \<Rightarrow> qr_code option" where
  "encode_medium txt =
     (case encodeText (c_str txt) MEDIUM of
        Inl _ \<Rightarrow> None
      | Inr q \<Rightarrow> Some \<lparr>qr_size = getSize q, qr_module = (\<lambda>x y. getModule q (int x) (int y))\<rparr>)"

definition read_picture :: "nat \<Rightarrow> u32 list list \<Rightarrow> string option" where
  "read_picture n rows =
     (let sc = module_scale n; st = (256 - n * sc) div 2
      in read_code (map (\<lambda>y. map (\<lambda>x. rows ! (st + y * sc) ! (st + x * sc) = slate_dark) [0..<n]) [0..<n]))"

lemma square_rows: "square n g \<Longrightarrow> map (\<lambda>y. map (\<lambda>x. at g (x, y)) [0..<n]) [0..<n] = g"
proof (rule nth_equalityI)
  fix y
  assume s: "square n g" and "y < length (map (\<lambda>y. map (\<lambda>x. at g (x, y)) [0..<n]) [0..<n])"
  then have y: "y < n" by simp
  show "map (\<lambda>y. map (\<lambda>x. at g (x, y)) [0..<n]) [0..<n] ! y = g ! y"
    by (rule nth_equalityI) (use s y in \<open>auto simp: at_def square_row\<close>)
qed (simp add: square_def)

lemma picture_reads_back:
  assumes "CreateQrBitmap encode_medium True txt 256 = Some px" "encodeText (c_str txt) MEDIUM = Inr q"
    "square (qc_size q) (qc_modules q)" "0 < qc_size q" "qc_size q \<le> 160" "read_code (qc_modules q) = Some t"
  shows "read_picture (qc_size q) (image_rows px 256 256 256) = Some t"
proof -
  let ?n = "qc_size q"
  define sc where "sc = module_scale ?n"
  define st where "st = (256 - ?n * sc) div 2"
  define qr where "qr = \<lparr>qr_size = getSize q, qr_module = (\<lambda>x y. getModule q (int x) (int y))\<rparr>"
  have e: "encode_medium txt = Some qr" using assms(2) by (simp add: encode_medium_def qr_def)
  have n: "qr_size qr = ?n" by (simp add: qr_def getSize_def)
  have fit: "1 \<le> sc" "?n * sc \<le> 160" using qr_fits [OF assms(4,5)] by (simp_all add: sc_def)
  have "(image_rows px 256 256 256 ! (st + y * sc) ! (st + x * sc) = slate_dark) = at (qc_modules q) (x, y)"
    if x: "x < ?n" and y: "y < ?n" for x y
  proof -
    note d = CreateQrBitmap_draws_code [OF assms(1) e, unfolded n, OF assms(4,5) x y sc_def, of 0 0 st]
    have c: "px ! ((st + y * sc) * 256 + (st + x * sc)) = (if qr_module qr x y then slate_dark else white)"
      "st + ?n * sc \<le> 208" using d fit(1) by (simp_all add: st_def)
    have "x * sc \<le> ?n * sc" "y * sc \<le> ?n * sc" using x y by (simp_all add: mult_le_mono1)
    then have "st + x * sc < 256" "st + y * sc < 256" using c(2) by linarith+
    then have "image_rows px 256 256 256 ! (st + y * sc) ! (st + x * sc) = px ! ((st + y * sc) * 256 + (st + x * sc))"
      by (simp add: image_rows_def)
    then show ?thesis using c(1) x y by (simp add: qr_def getModule_def white_def slate_dark_def)
  qed
  then have "map (\<lambda>y. map (\<lambda>x. image_rows px 256 256 256 ! (st + y * sc) ! (st + x * sc) = slate_dark) [0..<?n]) [0..<?n]
      = map (\<lambda>y. map (\<lambda>x. at (qc_modules q) (x, y)) [0..<?n]) [0..<?n]" by simp
  then show ?thesis using assms(6) by (simp add: read_picture_def Let_def sc_def [symmetric] st_def [symmetric] square_rows [OF assms(3)])
qed

lemma room_35: "data_codewords 35 MEDIUM = 1812"
  by code_simp

text \<open>C20. The address reaches the phone: for an address of at most 1809 bytes the tile's QR bitmap is made,
  LogonUI gets a PNG for it, and what the PNG decodes to is a picture in which a reader of QR codes
  finds exactly this address.  The hypotheses say that the tile holds the bitmap of this address and
  what \<open>GetObject\<close> reports for a 256 by 256 DIB of 32 bits.\<close>

theorem address_reaches_phone:
  assumes "length (c_str address) \<le> 1809"
    and "m_hQrBmp c = CreateQrBitmap encode_medium True address 256"
    and "\<And>px. getObject px = Some \<lparr>dib_bits = Some px, dib_bitsPixel = 32, dib_width = 256, dib_height = 256, dib_widthBytes = 1024\<rparr>"
  shows "\<exists>png rows n. GetBitmapBufferValue getObject True logoPng True FID_LOGO c = (S_OK, Some png)
    \<and> png_decode png = Some (256, 256, rows) \<and> read_picture n rows = Some (c_str address)"
proof -
  have v35: "valid_version 35" "int (length (c_str address)) + 3 \<le> data_codewords 35 MEDIUM"
    using assms(1) by (simp_all add: valid_version_def room_35)
  have "\<not> data_codewords 40 MEDIUM < int (length (c_str address)) + 3" using assms(1) by (simp add: largest_medium)
  then obtain q where q: "encodeText (c_str address) MEDIUM = Inr q"
    using text_reads_back [of MEDIUM "c_str address"] by (cases "encodeText (c_str address) MEDIUM") auto
  with text_reads_back [of MEDIUM "c_str address"] v35 obtain ver e cw m where
    r: "read_code (qc_modules q) = Some (c_str address)" "valid_version ver" "q = finished ver e cw m"
      "best_candidate (filled ver e cw) m" "ver \<le> 35" by auto
  have m: "m < 8" using r(4) unfolding best_candidate_def by blast
  have size_q: "qc_size q = 4 * ver + 17"
  proof -
    obtain c: "candidate m (filled ver e cw) = (filled ver e cw)\<lparr>qc_modules := qc_modules (candidate m (filled ver e cw))\<rparr>"
      using candidate_works [OF filled_under_way(1) [OF r(2)], of m e cw] m by auto
    from arg_cong [OF c, of qc_size] show ?thesis by (simp add: r(3) finished_def filled_under_way(4) [OF r(2)])
  qed
  have "square (qc_size q) (qc_modules q)" using finished_modules(1) [OF r(2) m] r(3) size_q by simp
  moreover have "0 < qc_size q" "qc_size q \<le> 160" using size_q r(5) by simp_all
  moreover have "encode_medium address = Some \<lparr>qr_size = getSize q, qr_module = (\<lambda>x y. getModule q (int x) (int y))\<rparr>"
    by (simp add: encode_medium_def q)
  then obtain px where px: "CreateQrBitmap encode_medium True address 256 = Some px"
    using \<open>0 < qc_size q\<close> by (auto simp: CreateQrBitmap_def getSize_def Let_def)
  ultimately have "read_picture (qc_size q) (image_rows px 256 256 256) = Some (c_str address)"
    using picture_reads_back [OF px q] r(1) by blast
  moreover have mq: "m_hQrBmp c = Some px" using assms(2) px by simp
  moreover from qr_png_reaches_logonui [where getObject = getObject and logoPng = logoPng, OF px mq assms(3)] obtain png where
    "GetBitmapBufferValue getObject True logoPng True FID_LOGO c = (S_OK, Some png)"
    "png_decode png = Some (256, 256, image_rows px 256 256 256)" by blast
  ultimately show ?thesis by blast
qed

theorem address_reaches_phone_witness:
  "let address = ''https://id.example/l?c=7'';
       c = LigamentCredential_new\<lparr>m_hQrBmp := CreateQrBitmap encode_medium True address 256\<rparr>;
       d = (\<lambda>px. Some \<lparr>dib_bits = Some px, dib_bitsPixel = 32, dib_width = 256, dib_height = 256, dib_widthBytes = 1024\<rparr>)
   in \<exists>png rows n. GetBitmapBufferValue d True [] True FID_LOGO c = (S_OK, Some png)
    \<and> png_decode png = Some (256, 256, rows) \<and> read_picture n rows = Some address"
proof -
  have "c_str ''https://id.example/l?c=7'' = ''https://id.example/l?c=7''" by (simp add: c_str_def)
  with address_reaches_phone [of "''https://id.example/l?c=7''"
      "LigamentCredential_new\<lparr>m_hQrBmp := CreateQrBitmap encode_medium True ''https://id.example/l?c=7'' 256\<rparr>"
      "\<lambda>px. Some \<lparr>dib_bits = Some px, dib_bitsPixel = 32, dib_width = 256, dib_height = 256, dib_widthBytes = 1024\<rparr>" "[]"]
  show ?thesis by (simp add: Let_def)
qed

end
