(* ===== verification/AppWindow.thy ===== *)
theory AppWindow
  imports Startup LinkHost LinkBinding DebugLogFields
begin

text \<open>
  The window of the runner: \<open>runner/win32_window.cpp\<close>, the rest of \<open>runner/flutter_window.cpp\<close>, and the part
  of \<open>runner/main.cpp\<close> that makes the window and runs the message loop.

  One state holds the window object (the fields of \<open>Win32Window\<close> and \<open>FlutterWindow\<close>), the globals of
  \<open>win32_window.cpp\<close>, and what the system knows: the window class, the windows in the order in which they
  are found, and the calls made.  \<open>rn_derived\<close> says whose virtual functions a call reaches: while
  \<open>~Win32Window\<close> runs, the object is no \<open>FlutterWindow\<close> any more.

  \<open>Destroy\<close> is re-entered: it calls \<open>DestroyWindow\<close>, the system sends \<open>WM_DESTROY\<close> before it returns, and the
  handler of this message calls \<open>Destroy\<close> again.  The engine, its plugins (\<open>HandleTopLevelWindowProc\<close>),
  the theme in the registry, the geometry and the scaling with floating-point numbers are parameters
  (\<open>win_env\<close>); a null engine or controller that the code would follow is the result \<open>None\<close>.
\<close>

subsection \<open>The state\<close>

record win_rect =
  rc_left :: int
  rc_top :: int
  rc_right :: int
  rc_bottom :: int

datatype win_msg =
    WM_CLOSE | WM_DESTROY | WM_DPICHANGED win_rect | WM_SIZE | WM_ACTIVATE
  | WM_DWMCOLORIZATIONCOLORCHANGED | WM_FONTCHANGE | WM_OTHER nat

datatype os_call =
    RegisterClassCall | UnregisterClassCall bool | PostQuitMessage
  | SetWindowPos nat win_rect | MoveWindow nat win_rect | SetFocus nat | SetParent nat "nat option"
  | DarkMode nat bool | ReloadSystemFonts

record os_window =
  ow_class :: wstr
  ow_title :: wstr
  ow_place :: "int \<times> int \<times> int \<times> int"
  ow_visible :: bool

record desk =
  dk_class :: bool
  dk_next :: nat
  dk_windows :: "(nat \<times> os_window) list"
  dk_views :: "nat list"
  dk_calls :: "os_call list"

text \<open>A view controller: whether it has an engine, and the window of its view.\<close>

record flutter_view =
  fv_engine :: bool
  fv_window :: "nat option"

record flutter_window =
  fw_quit_on_close :: bool
  fw_window_handle :: "nat option"
  fw_child_content :: "nat option"
  fw_link_host_worker :: bool
  fw_start_minimized :: bool
  fw_flutter_controller :: "flutter_view option"
  fw_next_frame :: bool
  fw_link_agent_binding_bridge :: "binding option"
  fw_link_host_bridge :: "(nat option \<times> link_host) option"
  fw_diagnostics_channel :: bool

text \<open>\<open>rn_bridges\<close>: the host bridges that have been destroyed.\<close>

record runner =
  rn_object :: flutter_window
  rn_derived :: bool
  rn_count :: int
  rn_registered :: bool
  rn_desk :: desk
  rn_log :: "string list"
  rn_bridges :: "link_host list"

record win_env =
  en_created :: bool
  en_theme :: "u32 option"
  en_client :: "nat option \<Rightarrow> win_rect"
  en_scale :: "int \<Rightarrow> int"
  en_top_level :: "win_msg \<Rightarrow> int option"
  en_default :: "win_msg \<Rightarrow> int"
  en_view :: flutter_view
  en_channel :: bool

definition upd_object :: "(flutter_window \<Rightarrow> flutter_window) \<Rightarrow> runner \<Rightarrow> runner" where
  "upd_object f r = r\<lparr>rn_object := f (rn_object r)\<rparr>"

definition upd_desk :: "(desk \<Rightarrow> desk) \<Rightarrow> runner \<Rightarrow> runner" where
  "upd_desk f r = r\<lparr>rn_desk := f (rn_desk r)\<rparr>"

definition os_do :: "os_call \<Rightarrow> runner \<Rightarrow> runner" where
  "os_do c = upd_desk (\<lambda>d. d\<lparr>dk_calls := dk_calls d @ [c]\<rparr>)"

definition log_event :: "string \<Rightarrow> runner \<Rightarrow> runner" where
  "log_event ev r = r\<lparr>rn_log := rn_log r @ [ev]\<rparr>"

definition set_handle :: "nat option \<Rightarrow> runner \<Rightarrow> runner" where
  "set_handle h = upd_object (\<lambda>w. w\<lparr>fw_window_handle := h\<rparr>)"

definition os_window :: "nat \<Rightarrow> runner \<Rightarrow> os_window option" where
  "os_window h r = map_of (dk_windows (rn_desk r)) h"

definition handle_of :: "runner \<Rightarrow> nat option" where
  "handle_of r = fw_window_handle (rn_object r)"

definition controller_of :: "runner \<Rightarrow> flutter_view option" where
  "controller_of r = fw_flutter_controller (rn_object r)"

subsection \<open>The window class\<close>

definition GetWindowClass :: "runner \<Rightarrow> runner" where
  "GetWindowClass r =
     (if rn_registered r then r
      else os_do RegisterClassCall (upd_desk (\<lambda>d. d\<lparr>dk_class := True\<rparr>) (r\<lparr>rn_registered := True\<rparr>)))"

text \<open>The system keeps a class as long as there are windows of it.\<close>

definition UnregisterWindowClass :: "runner \<Rightarrow> runner" where
  "UnregisterWindowClass r =
     (let gone = dk_windows (rn_desk r) = []
      in (os_do (UnregisterClassCall gone)
           (upd_desk (\<lambda>d. d\<lparr>dk_class := dk_class d \<and> \<not> gone\<rparr>) r))\<lparr>rn_registered := False\<rparr>)"

subsection \<open>The end of the window\<close>

definition FlutterWindow_OnDestroy :: "runner \<Rightarrow> runner" where
  "FlutterWindow_OnDestroy r =
     (let w = rn_object r
      in r\<lparr>rn_object := w\<lparr>fw_diagnostics_channel := False, fw_link_agent_binding_bridge := None,
               fw_link_host_bridge := None, fw_flutter_controller := None, fw_next_frame := False\<rparr>,
           rn_bridges := rn_bridges r @ (case fw_link_host_bridge w of None \<Rightarrow> [] | Some (h, l) \<Rightarrow> [destroy_link_host l]),
           rn_desk := (case fw_flutter_controller w of
              Some v \<Rightarrow> (rn_desk r)\<lparr>dk_views := filter (\<lambda>v'. fv_window v \<noteq> Some v') (dk_views (rn_desk r))\<rparr>
            | None \<Rightarrow> rn_desk r)\<rparr>)"

definition OnDestroy :: "runner \<Rightarrow> runner" where
  "OnDestroy r = (if rn_derived r then FlutterWindow_OnDestroy r else r)"

lemma OnDestroy_keeps [simp]:
  "fw_window_handle (rn_object (OnDestroy r)) = fw_window_handle (rn_object r)"
  "fw_quit_on_close (rn_object (OnDestroy r)) = fw_quit_on_close (rn_object r)"
  "fw_link_host_worker (rn_object (OnDestroy r)) = fw_link_host_worker (rn_object r)"
  "dk_windows (rn_desk (OnDestroy r)) = dk_windows (rn_desk r)"
  "dk_class (rn_desk (OnDestroy r)) = dk_class (rn_desk r)"
  "rn_count (OnDestroy r) = rn_count r" "rn_derived (OnDestroy r) = rn_derived r"
  "rn_log (OnDestroy r) = rn_log r"
  by (simp_all add: OnDestroy_def FlutterWindow_OnDestroy_def Let_def split: option.split)

definition remove_window :: "nat \<Rightarrow> runner \<Rightarrow> runner" where
  "remove_window h = upd_desk (\<lambda>d. d\<lparr>dk_windows := filter (\<lambda>(k, _). k \<noteq> h) (dk_windows d)\<rparr>)"

text \<open>\<open>receive_destroy\<close> is what the window does with \<open>WM_DESTROY\<close>: a plugin may answer it, else the base
  class handles it.\<close>

function Destroy :: "win_env \<Rightarrow> runner \<Rightarrow> runner" and
  DestroyWindow :: "win_env \<Rightarrow> nat \<Rightarrow> runner \<Rightarrow> runner" and
  receive_destroy :: "win_env \<Rightarrow> runner \<Rightarrow> runner" where
  "Destroy e r =
     (let r0 = OnDestroy r;
          r1 = (case fw_window_handle (rn_object r) of
                  None \<Rightarrow> r0
                | Some h \<Rightarrow> set_handle None (DestroyWindow e h r0))
      in if rn_count r1 = 0 then UnregisterWindowClass r1 else r1)"
| "DestroyWindow e h r = (if os_window h r = None then r else remove_window h (receive_destroy e r))"
| "receive_destroy e r =
     (if rn_derived r \<and> fw_flutter_controller (rn_object r) \<noteq> None \<and> en_top_level e WM_DESTROY \<noteq> None then r
      else let r' = Destroy e (set_handle None r)
           in if fw_quit_on_close (rn_object r') then os_do PostQuitMessage r' else r')"
  by pat_completeness auto
termination
  by (relation "measure (\<lambda>x. case x of
        Inl (e, r) \<Rightarrow> (if fw_window_handle (rn_object r) = None then 0 else 3)
      | Inr (Inl (e, h, r)) \<Rightarrow> 2
      | Inr (Inr (e, r)) \<Rightarrow> 1)")
     (auto simp: set_handle_def upd_object_def)

declare Destroy.simps [simp del] DestroyWindow.simps [simp del] receive_destroy.simps [simp del]


subsection \<open>Making the window\<close>

definition GetClientArea :: "win_env \<Rightarrow> runner \<Rightarrow> win_rect" where
  "GetClientArea e r = en_client e (handle_of r)"

definition rc_size :: "win_rect \<Rightarrow> win_rect" where
  "rc_size f = \<lparr>rc_left = rc_left f, rc_top = rc_top f, rc_right = rc_right f - rc_left f, rc_bottom = rc_bottom f - rc_top f\<rparr>"

definition SetChildContent :: "win_env \<Rightarrow> nat \<Rightarrow> runner \<Rightarrow> runner" where
  "SetChildContent e content r =
     (let r = upd_object (\<lambda>w. w\<lparr>fw_child_content := Some content\<rparr>) r;
          r = os_do (SetParent content (handle_of r)) r
      in os_do (SetFocus content) (os_do (MoveWindow content (rc_size (GetClientArea e r))) r))"

definition UpdateTheme :: "win_env \<Rightarrow> nat \<Rightarrow> runner \<Rightarrow> runner" where
  "UpdateTheme e h r = (case en_theme e of None \<Rightarrow> r | Some light_mode \<Rightarrow> os_do (DarkMode h (light_mode = 0)) r)"

definition Win32Window_OnCreate :: bool where "Win32Window_OnCreate = True"

definition add_bridges :: "runner \<Rightarrow> runner" where
  "add_bridges r =
     (let r = (if fw_link_host_worker (rn_object r) then r
               else log_event ''link.binding.init.ready''
                 (upd_object (\<lambda>w. w\<lparr>fw_link_agent_binding_bridge := Some binding_init\<rparr>)
                   (log_event ''link.binding.init.begin'' r)))
      in if fw_link_host_worker (rn_object r)
         then log_event ''link.host_bridge.init.ready''
           (upd_object (\<lambda>w. w\<lparr>fw_link_host_bridge := Some (fw_window_handle w, link_host_init)\<rparr>)
             (log_event ''link.host_bridge.init.begin'' r))
         else r)"

definition OnCreate :: "win_env \<Rightarrow> runner \<Rightarrow> bool \<times> runner" where
  "OnCreate e r =
     (if \<not> Win32Window_OnCreate then (False, log_event ''window.base_create.failed'' r)
      else
        let v = en_view e;
            r = log_event ''controller.init.begin'' r;
            r = upd_desk (\<lambda>d. d\<lparr>dk_views := (case fv_window v of None \<Rightarrow> [] | Some c \<Rightarrow> [c]) @ dk_views d\<rparr>)
                  (upd_object (\<lambda>w. w\<lparr>fw_flutter_controller := Some v\<rparr>) r)
        in case fv_window v of
             None \<Rightarrow> (False, log_event ''controller.init.failed'' r)
           | Some content \<Rightarrow>
               if \<not> fv_engine v then (False, log_event ''controller.init.failed'' r)
               else
                 let r = log_event ''controller.init.ready'' r;
                     r = (if en_channel e then upd_object (\<lambda>w. w\<lparr>fw_diagnostics_channel := True\<rparr>) r
                          else log_event ''diagnostics.channel.failed'' r);
                     r = log_event ''plugins.register.end'' (log_event ''plugins.register.begin'' r);
                     r = SetChildContent e content (add_bridges r)
                 in (True, upd_object (\<lambda>w. w\<lparr>fw_next_frame := True\<rparr>) r))"

definition Create :: "win_env \<Rightarrow> wstr \<Rightarrow> u32 \<times> u32 \<Rightarrow> u32 \<times> u32 \<Rightarrow> runner \<Rightarrow> bool \<times> runner" where
  "Create e title origin sz r =
     (let r = GetWindowClass (Destroy e r);
          h = dk_next (rn_desk r);
          place = (en_scale e (sint (fst origin)), en_scale e (sint (snd origin)),
                   en_scale e (sint (fst sz)), en_scale e (sint (snd sz)));
          win = \<lparr>ow_class = kWindowClass, ow_title = title, ow_place = place, ow_visible = False\<rparr>
      in if \<not> en_created e then (False, r)
         else OnCreate e (UpdateTheme e h (set_handle (Some h)
           (upd_desk (\<lambda>d. d\<lparr>dk_windows := (h, win) # dk_windows d, dk_next := h + 1\<rparr>) r))))"

text \<open>\<open>ShowWindow\<close> answers whether the window was visible before.\<close>

definition ShowWindow :: "nat option \<Rightarrow> runner \<Rightarrow> bool \<times> runner" where
  "ShowWindow h r =
     (case Option.bind h (\<lambda>h. os_window h r) of
        None \<Rightarrow> (False, r)
      | Some w \<Rightarrow> (ow_visible w,
          upd_desk (\<lambda>d. d\<lparr>dk_windows := map (\<lambda>(k, w). (k, if Some k = h then w\<lparr>ow_visible := True\<rparr> else w)) (dk_windows d)\<rparr>) r))"

definition Show :: "runner \<Rightarrow> bool \<times> runner" where
  "Show r = ShowWindow (handle_of r) r"

definition SetQuitOnClose :: "bool \<Rightarrow> runner \<Rightarrow> runner" where
  "SetQuitOnClose b = upd_object (\<lambda>w. w\<lparr>fw_quit_on_close := b\<rparr>)"

text \<open>The callback of the first frame.\<close>

definition first_frame :: "runner \<Rightarrow> runner" where
  "first_frame r =
     (if \<not> fw_next_frame (rn_object r) then r
      else
        let r = log_event ''startup.first_frame'' (upd_object (\<lambda>w. w\<lparr>fw_next_frame := False\<rparr>) r)
        in if \<not> fw_link_host_worker (rn_object r) \<and> \<not> fw_start_minimized (rn_object r) then snd (Show r) else r)"

subsection \<open>Messages\<close>

definition DefWindowProc :: "win_env \<Rightarrow> nat option \<Rightarrow> win_msg \<Rightarrow> runner \<Rightarrow> int \<times> runner" where
  "DefWindowProc e h m r =
     (case (m, h) of
        (WM_CLOSE, Some h) \<Rightarrow> (0, DestroyWindow e h r)
      | _ \<Rightarrow> (en_default e m, r))"

definition Win32Window_MessageHandler :: "win_env \<Rightarrow> nat \<Rightarrow> win_msg \<Rightarrow> runner \<Rightarrow> int \<times> runner" where
  "Win32Window_MessageHandler e hwnd m r =
     (case m of
        WM_DESTROY \<Rightarrow>
          (0, let r = Destroy e (set_handle None r)
              in if fw_quit_on_close (rn_object r) then os_do PostQuitMessage r else r)
      | WM_DPICHANGED rc \<Rightarrow> (0, os_do (SetWindowPos hwnd (rc_size rc)) r)
      | WM_SIZE \<Rightarrow>
          (0, case fw_child_content (rn_object r) of
                None \<Rightarrow> r
              | Some c \<Rightarrow> os_do (MoveWindow c (rc_size (GetClientArea e r))) r)
      | WM_ACTIVATE \<Rightarrow> (0, case fw_child_content (rn_object r) of None \<Rightarrow> r | Some c \<Rightarrow> os_do (SetFocus c) r)
      | WM_DWMCOLORIZATIONCOLORCHANGED \<Rightarrow> (0, UpdateTheme e hwnd r)
      | _ \<Rightarrow> DefWindowProc e (handle_of r) m r)"

text \<open>The message \<open>WM_FONTCHANGE\<close> follows the controller, there or not.\<close>

definition FlutterWindow_MessageHandler :: "win_env \<Rightarrow> nat \<Rightarrow> win_msg \<Rightarrow> runner \<Rightarrow> (int \<times> runner) option" where
  "FlutterWindow_MessageHandler e hwnd m r =
     (case (controller_of r, en_top_level e m) of
        (Some v, Some result) \<Rightarrow> Some (result, r)
      | _ \<Rightarrow>
          if m = WM_FONTCHANGE
          then (case controller_of r of
                  None \<Rightarrow> None
                | Some v \<Rightarrow>
                    if fv_engine v then Some (Win32Window_MessageHandler e hwnd m (os_do ReloadSystemFonts r)) else None)
          else Some (Win32Window_MessageHandler e hwnd m r))"

text \<open>A message to a window of the class.  \<open>WM_NCCREATE\<close> comes from \<open>CreateWindow\<close> alone and is part of
  \<open>Create\<close>.\<close>

definition WndProc :: "win_env \<Rightarrow> nat \<Rightarrow> win_msg \<Rightarrow> runner \<Rightarrow> (int \<times> runner) option" where
  "WndProc e hwnd m r =
     (if os_window hwnd r = None then Some (0, r)
      else if rn_derived r then FlutterWindow_MessageHandler e hwnd m r
      else Some (Win32Window_MessageHandler e hwnd m r))"

subsection \<open>The life of the window object\<close>

definition new_window :: "bool \<Rightarrow> bool \<Rightarrow> runner \<Rightarrow> runner" where
  "new_window worker minimized r =
     r\<lparr>rn_object := \<lparr>fw_quit_on_close = False, fw_window_handle = None, fw_child_content = None,
          fw_link_host_worker = worker, fw_start_minimized = minimized, fw_flutter_controller = None,
          fw_next_frame = False, fw_link_agent_binding_bridge = None, fw_link_host_bridge = None,
          fw_diagnostics_channel = False\<rparr>,
        rn_derived := True, rn_count := rn_count r + 1\<rparr>"

text \<open>\<open>~FlutterWindow\<close> and its members, the later ones first, then \<open>~Win32Window\<close>.\<close>

definition delete_window :: "win_env \<Rightarrow> runner \<Rightarrow> runner" where
  "delete_window e r =
     (let r = FlutterWindow_OnDestroy r
      in Destroy e (r\<lparr>rn_derived := False, rn_count := rn_count r - 1\<rparr>))"

text \<open>What reaches the window's thread.  The last five come from code that is not the runner's: the plugin
  Dart manages the window with (\<open>windowManager\<close> in \<open>lib/\<close>), which shows, hides and destroys it, a second
  start of the application, which shows it (\<open>ActivateExistingWindow\<close>), and whoever posts the message
  to quit; and \<open>GetMessage\<close> may fail.\<close>

datatype loop_event =
    Message nat win_msg | NextFrame | HostCall host_call
  | ShownByOthers nat | HiddenByOthers nat | DestroyedByOthers nat | QuitPosted | GetMessageFails

definition others_show :: "bool \<Rightarrow> nat \<Rightarrow> runner \<Rightarrow> runner" where
  "others_show shown h = upd_desk (\<lambda>d. d\<lparr>dk_windows :=
     map (\<lambda>(k, w). (k, if k = h then w\<lparr>ow_visible := shown\<rparr> else w)) (dk_windows d)\<rparr>)"

definition perform :: "nat option \<Rightarrow> window_action \<Rightarrow> runner \<Rightarrow> runner" where
  "perform h a r = (if a = ShowRestored \<or> a = ShowNormal then snd (ShowWindow h r) else r)"

definition host_call_window :: "nat option \<Rightarrow> host_call \<Rightarrow> runner \<Rightarrow> runner" where
  "host_call_window h c r =
     (case c of BringToFront w \<Rightarrow> fold (perform h) (bringToFront (w\<lparr>wv_window := h \<noteq> None\<rparr>)) r | _ \<Rightarrow> r)"

definition loop_step :: "win_env \<Rightarrow> loop_event \<Rightarrow> runner \<Rightarrow> runner option" where
  "loop_step e ev r =
     (case ev of
        Message hwnd m \<Rightarrow> map_option snd (WndProc e hwnd m r)
      | NextFrame \<Rightarrow> Some (first_frame r)
      | HostCall c \<Rightarrow>
          (case fw_link_host_bridge (rn_object r) of
             None \<Rightarrow> Some r
           | Some (h, l) \<Rightarrow>
               Some (host_call_window h c
                 (upd_object (\<lambda>w. w\<lparr>fw_link_host_bridge := Some (h, snd (snd (link_host_call c l)))\<rparr>) r)))
      | ShownByOthers h \<Rightarrow> Some (others_show True h r)
      | HiddenByOthers h \<Rightarrow> Some (others_show False h r)
      | DestroyedByOthers h \<Rightarrow> Some (DestroyWindow e h r)
      | _ \<Rightarrow> Some r)"

text \<open>The message loop, up to the end of the events, the message to quit, which \<open>PostQuitMessage\<close> leaves or
  someone else posts, or the failure of \<open>GetMessage\<close>.\<close>

datatype loop_end = StillRunning | QuitReceived | LoopFailed

fun run_loop :: "(win_env \<times> loop_event) list \<Rightarrow> runner \<Rightarrow> (loop_end \<times> runner) option" where
  "run_loop [] r = Some (StillRunning, r)"
| "run_loop ((e, ev) # es) r =
     (if PostQuitMessage \<in> set (dk_calls (rn_desk r)) \<or> ev = QuitPosted then Some (QuitReceived, r)
      else if ev = GetMessageFails then Some (LoopFailed, r)
      else case loop_step e ev r of None \<Rightarrow> None | Some r' \<Rightarrow> run_loop es r')"

definition app_title :: wstr where "app_title = wide ''Ligament 2FA Authenticator''"

definition make_window :: "win_env \<Rightarrow> bool \<Rightarrow> bool \<Rightarrow> runner \<Rightarrow> bool \<times> runner" where
  "make_window e worker minimized r =
     (case Create e app_title (10, 10) (440, 720) (log_event ''window.create.begin'' (new_window worker minimized r)) of
        (False, r) \<Rightarrow> (False, log_event ''window.create.failed'' r)
      | (True, r) \<Rightarrow> (True, SetQuitOnClose False (log_event ''window.create.ready'' r)))"

text \<open>From the window's constructor to its destructor; \<open>e\<close> is the environment in which it is made and
  destroyed.  A loop that nothing in the list ends is ended by the message to quit after it.\<close>

definition run_window :: "win_env \<Rightarrow> (win_env \<times> loop_event) list \<Rightarrow> bool \<Rightarrow> bool \<Rightarrow> runner \<Rightarrow> (bool \<times> runner) option" where
  "run_window e evs worker minimized r =
     (case make_window e worker minimized r of
        (False, r) \<Rightarrow> Some (False, delete_window e r)
      | (True, r) \<Rightarrow>
          (case run_loop evs r of
             None \<Rightarrow> None
           | Some (how, r) \<Rightarrow> Some (True, delete_window e
               (log_event (if how = LoopFailed then ''message_loop.failed'' else ''message_loop.exit'') r))))"

definition first_runner :: runner where
  "first_runner =
     \<lparr>rn_object = \<lparr>fw_quit_on_close = False, fw_window_handle = None, fw_child_content = None,
          fw_link_host_worker = False, fw_start_minimized = False, fw_flutter_controller = None,
          fw_next_frame = False, fw_link_agent_binding_bridge = None, fw_link_host_bridge = None,
          fw_diagnostics_channel = False\<rparr>,
      rn_derived = False, rn_count = 0, rn_registered = False,
      rn_desk = \<lparr>dk_class = False, dk_next = 1, dk_windows = [], dk_views = [], dk_calls = []\<rparr>,
      rn_log = [], rn_bridges = []\<rparr>"


subsection \<open>The end of the window, call by call\<close>

lemmas upd_defs = upd_object_def upd_desk_def os_do_def log_event_def set_handle_def handle_of_def controller_of_def

lemma OnDestroy_OnDestroy [simp]: "OnDestroy (OnDestroy r) = OnDestroy r"
  by (simp add: OnDestroy_def FlutterWindow_OnDestroy_def Let_def split: option.split)

lemma OnDestroy_set_handle: "OnDestroy (set_handle h r) = set_handle h (OnDestroy r)"
  by (simp add: OnDestroy_def FlutterWindow_OnDestroy_def upd_defs Let_def split: option.split)

lemma OnDestroy_controller [simp]: "rn_derived r \<Longrightarrow> fw_flutter_controller (rn_object (OnDestroy r)) = None"
  by (simp add: OnDestroy_def FlutterWindow_OnDestroy_def Let_def)

lemma Destroy_without_window:
  "fw_window_handle (rn_object r) = None \<Longrightarrow>
   Destroy e r = (if rn_count r = 0 then UnregisterWindowClass (OnDestroy r) else OnDestroy r)"
  by (simp add: Destroy.simps Let_def)

text \<open>What the handler does when it is called from within \<open>Destroy\<close>: no plugin is asked, and the nested
  call finds no handle.\<close>

definition nested_destroy :: "runner \<Rightarrow> runner" where
  "nested_destroy r =
     (let r = set_handle None r;
          r = (if rn_count r = 0 then UnregisterWindowClass r else r)
      in if fw_quit_on_close (rn_object r) then os_do PostQuitMessage r else r)"

lemma receive_destroy_nested: "receive_destroy e (OnDestroy r) = nested_destroy (OnDestroy r)"
proof -
  have "fw_window_handle (rn_object (set_handle None (OnDestroy r))) = None" by (simp add: upd_defs)
  from Destroy_without_window [OF this, of e]
  have "Destroy e (set_handle None (OnDestroy r)) = (if rn_count r = 0
      then UnregisterWindowClass (set_handle None (OnDestroy r)) else set_handle None (OnDestroy r))"
    by (simp add: OnDestroy_set_handle) (simp add: upd_defs)
  then show ?thesis
    by (auto simp: receive_destroy.simps nested_destroy_def Let_def) (simp_all add: upd_defs)
qed

text \<open>The whole of \<open>Destroy\<close>, without recursion.\<close>

lemma Destroy_unfolded:
  "Destroy e r =
     (let r0 = OnDestroy r;
          r1 = (case fw_window_handle (rn_object r) of
                  None \<Rightarrow> r0
                | Some h \<Rightarrow> if os_window h r0 = None then set_handle None r0
                           else set_handle None (remove_window h (nested_destroy r0)))
      in if rn_count r = 0 then UnregisterWindowClass r1 else r1)"
proof -
  have c: "rn_count (set_handle h x) = rn_count x" "rn_count (remove_window k x) = rn_count x"
    "rn_count (nested_destroy x) = rn_count x" for h k x
    by (simp_all add: remove_window_def nested_destroy_def UnregisterWindowClass_def Let_def upd_defs)
  show ?thesis
    by (simp add: Destroy.simps [of e r] DestroyWindow.simps receive_destroy_nested Let_def c split: option.split)
qed

lemma receive_destroy_message:
  "rn_derived r \<Longrightarrow> map_option snd (FlutterWindow_MessageHandler e h WM_DESTROY r) = Some (receive_destroy e r)"
  "\<not> rn_derived r \<Longrightarrow> snd (Win32Window_MessageHandler e h WM_DESTROY r) = receive_destroy e r"
  by (auto simp: FlutterWindow_MessageHandler_def Win32Window_MessageHandler_def receive_destroy.simps controller_of_def
    Let_def split: option.split)

lemma windows_upd [simp]:
  "dk_windows (rn_desk (set_handle h r)) = dk_windows (rn_desk r)"
  "dk_windows (rn_desk (UnregisterWindowClass r)) = dk_windows (rn_desk r)"
  "dk_windows (rn_desk (os_do c r)) = dk_windows (rn_desk r)"
  "dk_windows (rn_desk (nested_destroy r)) = dk_windows (rn_desk r)"
  "dk_windows (rn_desk (log_event ev r)) = dk_windows (rn_desk r)"
  by (simp_all add: nested_destroy_def UnregisterWindowClass_def Let_def upd_defs)

lemma windows_remove [simp]:
  "dk_windows (rn_desk (remove_window h r)) = filter (\<lambda>(k, _). k \<noteq> h) (dk_windows (rn_desk r))"
  by (simp add: remove_window_def upd_defs)

lemma os_window_None: "os_window h r = None \<longleftrightarrow> h \<notin> fst ` set (dk_windows (rn_desk r))"
  by (simp add: os_window_def map_of_eq_None_iff)

lemma Destroy_windows:
  "dk_windows (rn_desk (Destroy e r)) =
     filter (\<lambda>(k, _). Some k \<noteq> fw_window_handle (rn_object r)) (dk_windows (rn_desk r))"
proof (cases "fw_window_handle (rn_object r)")
  case (Some h)
  have "filter (\<lambda>(k, _). k \<noteq> h) xs = xs" if "h \<notin> fst ` set xs" for xs :: "(nat \<times> os_window) list"
    using that by (intro filter_True) force
  then show ?thesis using Some by (simp add: Destroy_unfolded Let_def os_window_None)
qed (simp add: Destroy_unfolded Let_def)

text \<open>\<open>Destroy\<close> leaves no handle, no controller and no bridge of a \<open>FlutterWindow\<close>.\<close>

lemma Destroy_object:
  "rn_object (Destroy e r) = (rn_object (OnDestroy r))\<lparr>fw_window_handle := None\<rparr>"
  "rn_derived (Destroy e r) = rn_derived r" "rn_count (Destroy e r) = rn_count r"
  "rn_log (Destroy e r) = rn_log r" "rn_bridges (Destroy e r) = rn_bridges (OnDestroy r)"
  "dk_views (rn_desk (Destroy e r)) = dk_views (rn_desk (OnDestroy r))"
  by (simp_all add: Destroy_unfolded nested_destroy_def remove_window_def UnregisterWindowClass_def Let_def upd_defs
    split: option.split)


subsection \<open>The invariant of the message loop\<close>

text \<open>Every window of the class is the object's, and behind it stands a controller with its engine.  The
  bridges and the channel live no longer than the controller whose messenger they use; a link worker
  has the host bridge and never the binding bridge, the application the other way round; and destroyed
  bridges have closed their pipes.\<close>

definition bridges_ok :: "flutter_window \<Rightarrow> bool" where
  "bridges_ok w \<longleftrightarrow>
     (fw_flutter_controller w = None \<longrightarrow> \<not> fw_diagnostics_channel w \<and> fw_link_agent_binding_bridge w = None
        \<and> fw_link_host_bridge w = None \<and> \<not> fw_next_frame w)
     \<and> (fw_link_host_worker w \<longrightarrow> fw_link_agent_binding_bridge w = None)
     \<and> (\<not> fw_link_host_worker w \<longrightarrow> fw_link_host_bridge w = None)
     \<and> (\<forall>h l. fw_link_host_bridge w = Some (h, l) \<longrightarrow> host_reachable l)"

definition views_of :: "runner \<Rightarrow> nat list" where
  "views_of r = (case controller_of r of None \<Rightarrow> [] | Some v \<Rightarrow> (case fv_window v of None \<Rightarrow> [] | Some c \<Rightarrow> [c]))"

definition owned_window :: "runner \<Rightarrow> bool" where
  "owned_window r \<longleftrightarrow> rn_derived r \<and> rn_count r = 1 \<and> bridges_ok (rn_object r)
     \<and> (\<forall>k \<in> fst ` set (dk_windows (rn_desk r)). handle_of r = Some k)
     \<and> dk_views (rn_desk r) = views_of r
     \<and> (\<forall>l \<in> set (rn_bridges r). lh_pipe l = None \<and> lh_opened l = lh_closed l)
     \<and> list_all ValidEvent (rn_log r)"

definition window_inv :: "runner \<Rightarrow> bool" where
  "window_inv r \<longleftrightarrow> owned_window r
     \<and> (dk_windows (rn_desk r) \<noteq> [] \<longrightarrow> (\<exists>v. controller_of r = Some v \<and> fv_engine v))"

definition keeps_loop :: "runner \<Rightarrow> bool" where
  "keeps_loop r \<longleftrightarrow> \<not> fw_quit_on_close (rn_object r) \<and> PostQuitMessage \<notin> set (dk_calls (rn_desk r))"

definition hidden :: "runner \<Rightarrow> bool" where
  "hidden r \<longleftrightarrow> (\<forall>(k, w) \<in> set (dk_windows (rn_desk r)). \<not> ow_visible w)"

lemma destroyed_bridge:
  "host_reachable l \<Longrightarrow> lh_pipe (destroy_link_host l) = None \<and> lh_opened (destroy_link_host l) = lh_closed (destroy_link_host l)"
  using host_reachable_inv [of l]
  by (auto simp: host_inv_def destroy_link_host_def close_pipe_def split: option.splits)

lemma bridges_ok_OnDestroy: "bridges_ok (rn_object r) \<Longrightarrow> bridges_ok (rn_object (OnDestroy r))"
  by (auto simp: bridges_ok_def OnDestroy_def FlutterWindow_OnDestroy_def Let_def)

lemma OnDestroy_bridges:
  assumes "bridges_ok (rn_object r)" "\<forall>l \<in> set (rn_bridges r). lh_pipe l = None \<and> lh_opened l = lh_closed l"
  shows "\<forall>l \<in> set (rn_bridges (OnDestroy r)). lh_pipe l = None \<and> lh_opened l = lh_closed l"
proof (cases "fw_link_host_bridge (rn_object r)")
  case (Some b)
  obtain h l where b: "b = (h, l)" by fastforce
  then have "host_reachable l" using assms(1) Some by (simp add: bridges_ok_def)
  from destroyed_bridge [OF this] show ?thesis
    using assms Some b by (auto simp: OnDestroy_def FlutterWindow_OnDestroy_def Let_def)
qed (use assms in \<open>simp add: OnDestroy_def FlutterWindow_OnDestroy_def Let_def\<close>)

lemma window_inv_window:
  "window_inv r \<Longrightarrow> os_window h r \<noteq> None \<Longrightarrow> handle_of r = Some h \<and> (\<exists>v. controller_of r = Some v \<and> fv_engine v)"
  unfolding window_inv_def owned_window_def os_window_None by fastforce

lemma window_inv_os_do [simp]: "window_inv (os_do c r) = window_inv r"
  by (simp add: window_inv_def owned_window_def views_of_def upd_defs)

lemma OnDestroy_views:
  "rn_derived r \<Longrightarrow> dk_views (rn_desk r) = views_of r \<Longrightarrow> dk_views (rn_desk (OnDestroy r)) = []"
  by (auto simp: views_of_def controller_of_def OnDestroy_def FlutterWindow_OnDestroy_def Let_def split: option.splits)

lemma window_inv_Destroy:
  assumes "window_inv r" and that: "handle_of r = Some k"
  shows "window_inv (remove_window k (Destroy e (set_handle None r)))"
proof -
  let ?r = "remove_window k (Destroy e (set_handle None r))"
  have f: "rn_object ?r = (rn_object (OnDestroy (set_handle None r)))\<lparr>fw_window_handle := None\<rparr>"
    "rn_bridges ?r = rn_bridges (OnDestroy (set_handle None r))" "rn_derived ?r" "rn_count ?r = 1"
    "rn_log ?r = rn_log r"
    using assms by (simp_all add: remove_window_def upd_desk_def Destroy_object window_inv_def owned_window_def views_of_def)
      (simp_all add: upd_defs)
  have v: "dk_views (rn_desk ?r) = []" "controller_of ?r = None"
    using assms OnDestroy_views [of "set_handle None r"] f(1)
    by (simp_all add: remove_window_def upd_desk_def Destroy_object window_inv_def owned_window_def controller_of_def)
      (simp_all add: upd_defs views_of_def)
  have "dk_windows (rn_desk ?r) = []"
    using assms that by (auto simp: Destroy_windows window_inv_def owned_window_def views_of_def filter_empty_conv)
  moreover have b: "bridges_ok (rn_object (set_handle None r))"
    "\<forall>l \<in> set (rn_bridges (set_handle None r)). lh_pipe l = None \<and> lh_opened l = lh_closed l"
    using assms by (simp_all add: window_inv_def owned_window_def views_of_def bridges_ok_def upd_defs)
  moreover have "bridges_ok (w\<lparr>fw_window_handle := None\<rparr>) = bridges_ok w" for w by (simp add: bridges_ok_def)
  ultimately show ?thesis
    using assms(1) OnDestroy_bridges [OF b] bridges_ok_OnDestroy [OF b(1)] f(3-5) v
    unfolding window_inv_def owned_window_def views_of_def f(1,2) by simp
qed

lemma window_inv_remove: "window_inv r \<Longrightarrow> window_inv (remove_window k r)"
  by (auto simp: window_inv_def owned_window_def views_of_def remove_window_def upd_defs)

lemma remove_window_os_do: "remove_window k (os_do c r) = os_do c (remove_window k r)"
  by (simp add: remove_window_def upd_defs)

lemma window_inv_DestroyWindow:
  assumes "window_inv r" "handle_of r = Some k"
  shows "window_inv (DestroyWindow e k r)"
  using assms window_inv_Destroy [OF assms, of e] window_inv_remove [OF assms(1), of k]
  by (simp add: DestroyWindow.simps receive_destroy.simps Let_def remove_window_os_do)

lemma window_inv_Win32:
  assumes "window_inv r" "m \<noteq> WM_DESTROY"
  shows "window_inv (snd (Win32Window_MessageHandler e h m r))"
  using assms window_inv_DestroyWindow [OF assms(1)]
  by (auto simp: Win32Window_MessageHandler_def DefWindowProc_def UpdateTheme_def
    split: win_msg.split option.split)

lemma ValidEvent_names:
  "ValidEvent ''window.create.begin''" "ValidEvent ''window.create.failed''" "ValidEvent ''window.create.ready''"
  "ValidEvent ''window.base_create.failed''" "ValidEvent ''controller.init.begin''" "ValidEvent ''controller.init.failed''"
  "ValidEvent ''controller.init.ready''" "ValidEvent ''diagnostics.channel.failed''" "ValidEvent ''plugins.register.begin''"
  "ValidEvent ''plugins.register.end''" "ValidEvent ''link.binding.init.begin''" "ValidEvent ''link.binding.init.ready''"
  "ValidEvent ''link.host_bridge.init.begin''" "ValidEvent ''link.host_bridge.init.ready''"
  "ValidEvent ''startup.first_frame''" "ValidEvent ''message_loop.exit''" "ValidEvent ''message_loop.failed''"
  by code_simp+

lemma window_inv_log: "ValidEvent ev \<Longrightarrow> window_inv (log_event ev r) = window_inv r"
  by (simp add: window_inv_def owned_window_def views_of_def upd_defs)

lemma fst_mapped [simp]: "fst ` (\<lambda>(k, w). (k, f k w)) ` xs = fst ` xs"
  by (force simp: image_image case_prod_unfold)

lemma fst_of_mapped [simp]: "fst (case x of (k, w) \<Rightarrow> (k, f k w)) = fst x"
  by (simp add: case_prod_unfold)

lemma window_inv_ShowWindow: "window_inv r \<Longrightarrow> window_inv (snd (ShowWindow h r))"
  by (simp add: ShowWindow_def window_inv_def owned_window_def views_of_def upd_defs split: option.split)

lemma window_inv_others_show: "window_inv r \<Longrightarrow> window_inv (others_show b h r)"
  by (simp add: others_show_def window_inv_def owned_window_def views_of_def upd_defs)

lemma window_inv_others_destroy: "window_inv r \<Longrightarrow> window_inv (DestroyWindow e h r)"
proof (cases "os_window h r = None")
  case False
  assume i: "window_inv r"
  with False window_inv_window [OF i, of h] show ?thesis by (intro window_inv_DestroyWindow) simp_all
qed (simp add: DestroyWindow.simps)

lemma window_inv_first_frame: "window_inv r \<Longrightarrow> window_inv (first_frame r)"
proof -
  assume i: "window_inv r"
  have "window_inv (upd_object (\<lambda>w. w\<lparr>fw_next_frame := False\<rparr>) r)"
    using i by (simp add: window_inv_def owned_window_def views_of_def bridges_ok_def upd_defs)
  then have "window_inv (log_event ''startup.first_frame'' (upd_object (\<lambda>w. w\<lparr>fw_next_frame := False\<rparr>) r))"
    by (simp add: window_inv_log ValidEvent_names)
  then show ?thesis using i window_inv_ShowWindow by (simp add: first_frame_def Show_def Let_def)
qed

lemma window_inv_fold: "window_inv r \<Longrightarrow> window_inv (fold (perform h) as r)"
  by (induction as arbitrary: r) (auto simp: perform_def window_inv_ShowWindow)

lemma window_inv_host_call_window: "window_inv r \<Longrightarrow> window_inv (host_call_window h c r)"
  by (simp add: host_call_window_def window_inv_fold split: host_call.split)

lemma window_inv_host_call:
  assumes "window_inv r" "fw_link_host_bridge (rn_object r) = Some (h, l)"
  shows "window_inv (host_call_window h c
    (upd_object (\<lambda>w. w\<lparr>fw_link_host_bridge := Some (h, snd (snd (link_host_call c l)))\<rparr>) r))"
proof -
  have "host_reachable (snd (snd (link_host_call c l)))"
    using assms by (auto simp: window_inv_def owned_window_def views_of_def bridges_ok_def intro: host_call)
  then have "window_inv (upd_object (\<lambda>w. w\<lparr>fw_link_host_bridge := Some (h, snd (snd (link_host_call c l)))\<rparr>) r)"
    using assms by (auto simp: window_inv_def owned_window_def views_of_def bridges_ok_def upd_defs)
  then show ?thesis by (rule window_inv_host_call_window)
qed

lemma WndProc_answers:
  assumes "rn_derived r" "controller_of r = Some v" "fv_engine v"
  shows "\<exists>x. WndProc e h m r = Some x \<and> (snd x = r \<or> snd x = snd (Win32Window_MessageHandler e h m r)
    \<or> snd x = snd (Win32Window_MessageHandler e h m (os_do ReloadSystemFonts r)))"
  using assms by (auto simp: WndProc_def FlutterWindow_MessageHandler_def simp del: split_paired_Ex split: option.split)

text \<open>The system sends \<open>WM_DESTROY\<close> only from \<open>DestroyWindow\<close>.\<close>

definition system_event :: "loop_event \<Rightarrow> bool" where
  "system_event ev \<longleftrightarrow> (\<forall>h. ev \<noteq> Message h WM_DESTROY)"

lemma loop_step_inv:
  assumes "window_inv r" "system_event ev"
  shows "\<exists>r'. loop_step e ev r = Some r' \<and> window_inv r'"
proof (cases ev)
  case (Message h m)
  then have m: "m \<noteq> WM_DESTROY" using assms(2) by (auto simp: system_event_def)
  show ?thesis
  proof (cases "os_window h r = None")
    case False
    then obtain v where v: "controller_of r = Some v" "fv_engine v"
      using window_inv_window [OF assms(1)] by blast
    have "rn_derived r" using assms(1) by (simp add: window_inv_def owned_window_def views_of_def)
    then obtain x where "WndProc e h m r = Some x" and x: "snd x = r \<or> snd x = snd (Win32Window_MessageHandler e h m r)
        \<or> snd x = snd (Win32Window_MessageHandler e h m (os_do ReloadSystemFonts r))"
      using WndProc_answers [OF _ v] by blast
    moreover have "window_inv (snd x)"
      using x assms(1) window_inv_Win32 [of r m e h] window_inv_Win32 [of "os_do ReloadSystemFonts r" m e h] m by auto
    ultimately show ?thesis using Message by (simp add: loop_step_def)
  qed (use Message assms in \<open>simp add: loop_step_def WndProc_def\<close>)
next
  case NextFrame
  then show ?thesis using assms window_inv_first_frame by (simp add: loop_step_def)
next
  case (HostCall c)
  then show ?thesis
    using assms window_inv_host_call [OF assms(1)] by (auto simp: loop_step_def split: option.split)
qed (use assms(1) in \<open>simp_all add: loop_step_def window_inv_others_show window_inv_others_destroy\<close>)


subsection \<open>Making the window\<close>

lemma Destroy_fresh: "Destroy e (new_window w m r) = new_window w m r" if "rn_count r = 0"
  using that
  by (simp add: Destroy_without_window new_window_def OnDestroy_def FlutterWindow_OnDestroy_def Let_def)

text \<open>A window that has been made: its bridges by the role, not visible yet, and the log of its making.\<close>

lemma Create_makes:
  assumes "Create e t p s (log_event ''window.create.begin'' (new_window worker minimized first_runner)) = (True, r)"
  shows "window_inv r" "\<not> fw_quit_on_close (rn_object r)" "PostQuitMessage \<notin> set (dk_calls (rn_desk r))"
    "hidden r" "fw_link_host_worker (rn_object r) = worker" "fw_start_minimized (rn_object r) = minimized"
    "fw_next_frame (rn_object r)" "\<exists>pl. dk_windows (rn_desk r) = [(1, \<lparr>ow_class = kWindowClass, ow_title = t, ow_place = pl, ow_visible = False\<rparr>)]"
    "handle_of r = Some 1" "dk_class (rn_desk r)"
    "worker \<longleftrightarrow> fw_link_host_bridge (rn_object r) \<noteq> None" "worker \<longleftrightarrow> fw_link_agent_binding_bridge (rn_object r) = None"
proof -
  let ?r = "log_event ''window.create.begin'' (new_window worker minimized first_runner)"
  have d: "Destroy e ?r = ?r"
    by (simp add: Destroy_without_window new_window_def first_runner_def OnDestroy_def FlutterWindow_OnDestroy_def upd_defs Let_def)
  obtain c where v: "fv_window (en_view e) = Some c" "fv_engine (en_view e)" "en_created e"
    using assms unfolding Create_def d Let_def
    by (auto simp: OnCreate_def Win32Window_OnCreate_def Let_def split: if_splits option.splits)
  have r: "r = snd (Create e t p s ?r)" using assms by simp
  note u = r Create_def d Let_def OnCreate_def Win32Window_OnCreate_def v if_True if_False simp_thms option.case snd_conv
  note defs = upd_defs GetWindowClass_def UpdateTheme_def SetChildContent_def add_bridges_def new_window_def first_runner_def
    host_start v
  show "window_inv r" unfolding u
    by (simp add: defs window_inv_def owned_window_def views_of_def bridges_ok_def ValidEvent_names Let_def split: option.split)
  show "\<not> fw_quit_on_close (rn_object r)" "PostQuitMessage \<notin> set (dk_calls (rn_desk r))"
    "hidden r" "fw_link_host_worker (rn_object r) = worker" "fw_start_minimized (rn_object r) = minimized"
    "fw_next_frame (rn_object r)" "\<exists>pl. dk_windows (rn_desk r) = [(1, \<lparr>ow_class = kWindowClass, ow_title = t, ow_place = pl, ow_visible = False\<rparr>)]"
    "handle_of r = Some 1" "dk_class (rn_desk r)"
    "worker \<longleftrightarrow> fw_link_host_bridge (rn_object r) \<noteq> None" "worker \<longleftrightarrow> fw_link_agent_binding_bridge (rn_object r) = None"
    unfolding u
    by (simp_all add: defs hidden_def Let_def split: option.split)
qed


subsection \<open>What a step leaves alone\<close>

lemma keeps_loop_upd [simp]:
  "keeps_loop (set_handle h r) = keeps_loop r" "keeps_loop (remove_window k r) = keeps_loop r"
  "keeps_loop (log_event ev r) = keeps_loop r"
  "c \<noteq> PostQuitMessage \<Longrightarrow> keeps_loop (os_do c r) = keeps_loop r"
  by (auto simp: keeps_loop_def remove_window_def upd_defs)

lemma keeps_loop_OnDestroy: "keeps_loop r \<Longrightarrow> keeps_loop (OnDestroy r)"
  by (simp add: keeps_loop_def OnDestroy_def FlutterWindow_OnDestroy_def Let_def split: option.split)

lemma keeps_loop_Unregister: "keeps_loop r \<Longrightarrow> keeps_loop (UnregisterWindowClass r)"
  by (simp add: keeps_loop_def UnregisterWindowClass_def Let_def upd_defs)

lemma keeps_loop_nested: "keeps_loop r \<Longrightarrow> keeps_loop (nested_destroy r)"
proof -
  assume k: "keeps_loop r"
  have "keeps_loop x \<Longrightarrow> keeps_loop (if fw_quit_on_close (rn_object x) then os_do PostQuitMessage x else x)" for x
    by (simp add: keeps_loop_def)
  then show ?thesis using k keeps_loop_Unregister [of "set_handle None r"] by (simp add: nested_destroy_def Let_def)
qed

lemma keeps_loop_Destroy: "keeps_loop r \<Longrightarrow> keeps_loop (Destroy e r)"
proof -
  assume "keeps_loop r"
  then have "keeps_loop (OnDestroy r)" by (rule keeps_loop_OnDestroy)
  then show ?thesis using keeps_loop_nested [of "OnDestroy r"] keeps_loop_Unregister
    by (auto simp: Destroy_unfolded Let_def split: option.split)
qed

lemma keeps_loop_quit: "keeps_loop r \<Longrightarrow> \<not> fw_quit_on_close (rn_object r)"
  by (simp add: keeps_loop_def)

lemma keeps_loop_receive: "keeps_loop r \<Longrightarrow> keeps_loop (receive_destroy e r)"
  using keeps_loop_Destroy [of "set_handle None r" e] keeps_loop_quit [of "Destroy e (set_handle None r)"]
  by (simp add: receive_destroy.simps Let_def)

lemma keeps_loop_Win32: "keeps_loop r \<Longrightarrow> keeps_loop (snd (Win32Window_MessageHandler e h m r))"
  using keeps_loop_receive [of r e] keeps_loop_Destroy [of "set_handle None r" e]
    keeps_loop_quit [of "Destroy e (set_handle None r)"]
  by (simp add: Win32Window_MessageHandler_def DefWindowProc_def DestroyWindow.simps UpdateTheme_def Let_def
    split: win_msg.split option.split)

lemma WndProc_cases:
  "WndProc e h m r = Some (x, r') \<Longrightarrow> r' = r \<or> r' = snd (Win32Window_MessageHandler e h m r)
     \<or> r' = snd (Win32Window_MessageHandler e h m (os_do ReloadSystemFonts r))"
  by (auto simp: WndProc_def FlutterWindow_MessageHandler_def split: if_splits option.splits
    dest!: arg_cong [where f = snd])

lemma keeps_loop_ShowWindow: "keeps_loop (snd (ShowWindow h r)) = keeps_loop r"
  by (simp add: ShowWindow_def keeps_loop_def upd_defs split: option.split)

lemma keeps_loop_fold: "keeps_loop (fold (perform h) as r) = keeps_loop r"
  by (induction as arbitrary: r) (auto simp: perform_def keeps_loop_ShowWindow)

lemma keeps_loop_others:
  "keeps_loop (others_show b h r) = keeps_loop r" "keeps_loop r \<Longrightarrow> keeps_loop (DestroyWindow e h r)"
  by (simp_all add: others_show_def keeps_loop_def upd_defs DestroyWindow.simps)
    (use keeps_loop_receive [of r e] in \<open>simp add: keeps_loop_def remove_window_def upd_defs\<close>)

lemma keeps_loop_step: "keeps_loop r \<Longrightarrow> loop_step e ev r = Some r' \<Longrightarrow> keeps_loop r'"
proof (cases ev)
  case (Message h m)
  assume "keeps_loop r" "loop_step e ev r = Some r'"
  with Message show ?thesis
    using keeps_loop_Win32 [of r e h m] keeps_loop_Win32 [of "os_do ReloadSystemFonts r" e h m]
    by (auto simp: loop_step_def dest!: WndProc_cases)
next
  case NextFrame
  assume "keeps_loop r" "loop_step e ev r = Some r'"
  moreover have "keeps_loop (upd_object (\<lambda>w. w\<lparr>fw_next_frame := False\<rparr>) r) = keeps_loop r"
    by (simp add: keeps_loop_def upd_defs)
  ultimately show ?thesis
    using NextFrame by (auto simp: loop_step_def first_frame_def Show_def keeps_loop_ShowWindow Let_def)
next
  case (HostCall c)
  assume "keeps_loop r" "loop_step e ev r = Some r'"
  moreover have "keeps_loop (upd_object (\<lambda>w. w\<lparr>fw_link_host_bridge := b\<rparr>) r) = keeps_loop r" for b
    by (simp add: keeps_loop_def upd_defs)
  ultimately show ?thesis
    using HostCall by (auto simp: loop_step_def host_call_window_def keeps_loop_fold split: option.splits host_call.splits)
qed (auto simp: loop_step_def keeps_loop_others)

lemma hidden_subset: "set (dk_windows (rn_desk r')) \<subseteq> set (dk_windows (rn_desk r)) \<Longrightarrow> hidden r \<Longrightarrow> hidden r'"
  unfolding hidden_def by blast

lemma Win32_windows:
  "set (dk_windows (rn_desk (snd (Win32Window_MessageHandler e h m r)))) \<subseteq> set (dk_windows (rn_desk r))"
  by (auto simp: Win32Window_MessageHandler_def DefWindowProc_def DestroyWindow.simps receive_destroy.simps
    UpdateTheme_def Destroy_windows Let_def split: win_msg.splits option.splits if_splits)

text \<open>The roles of the window never change, and a window that starts hidden stays so, unless Dart asks
  through the host bridge or someone else shows it.\<close>

definition roles :: "runner \<Rightarrow> bool \<times> bool" where
  "roles r = (fw_link_host_worker (rn_object r), fw_start_minimized (rn_object r))"

lemma roles_upd [simp]:
  "roles (set_handle h r) = roles r" "roles (remove_window k r) = roles r" "roles (os_do c r) = roles r"
  "roles (UnregisterWindowClass r) = roles r" "roles (log_event ev r) = roles r" "roles (OnDestroy r) = roles r"
  by (simp_all add: roles_def remove_window_def UnregisterWindowClass_def OnDestroy_def FlutterWindow_OnDestroy_def
    Let_def upd_defs)

lemma roles_Destroy [simp]: "roles (Destroy e r) = roles r"
  by (simp add: Destroy_unfolded nested_destroy_def Let_def split: option.split)

lemma roles_Win32: "roles (snd (Win32Window_MessageHandler e h m r)) = roles r"
  by (simp add: Win32Window_MessageHandler_def DefWindowProc_def DestroyWindow.simps receive_destroy.simps
    UpdateTheme_def Let_def split: win_msg.split option.split)

lemma roles_ShowWindow [simp]: "roles (snd (ShowWindow h r)) = roles r"
  by (simp add: ShowWindow_def roles_def upd_defs split: option.split)

lemma roles_fold [simp]: "roles (fold (perform h) as r) = roles r"
  by (induction as arbitrary: r) (auto simp: perform_def)

lemma roles_object [simp]:
  "roles (upd_object (\<lambda>w. w\<lparr>fw_next_frame := b\<rparr>) r) = roles r"
  "roles (upd_object (\<lambda>w. w\<lparr>fw_link_host_bridge := l\<rparr>) r) = roles r"
  by (simp_all add: roles_def upd_defs)

lemma roles_others [simp]: "roles (others_show b h r) = roles r" "roles (DestroyWindow e h r) = roles r"
proof -
  show "roles (others_show b h r) = roles r" by (simp add: others_show_def roles_def upd_defs)
  show "roles (DestroyWindow e h r) = roles r" by (simp add: DestroyWindow.simps receive_destroy.simps Let_def)
qed

lemma roles_step: "loop_step e ev r = Some r' \<Longrightarrow> roles r' = roles r"
  by (auto simp: loop_step_def first_frame_def Show_def host_call_window_def Let_def roles_Win32
    split: loop_event.splits option.splits host_call.splits dest!: WndProc_cases)

definition quiet_event :: "loop_event \<Rightarrow> bool" where
  "quiet_event ev \<longleftrightarrow> (\<forall>w. ev \<noteq> HostCall (BringToFront w)) \<and> (\<forall>h. ev \<noteq> ShownByOthers h)"

lemma first_frame_windows:
  "fst (roles r) \<or> snd (roles r) \<Longrightarrow> dk_windows (rn_desk (first_frame r)) = dk_windows (rn_desk r)"
  by (auto simp: first_frame_def roles_def upd_defs Let_def)

lemma hidden_step:
  assumes "hidden r" "fst (roles r) \<or> snd (roles r)" "quiet_event ev" "loop_step e ev r = Some r'"
  shows "hidden r'"
proof (cases ev)
  case (Message h m)
  then show ?thesis
    using assms Win32_windows [of e h m r] Win32_windows [of e h m "os_do ReloadSystemFonts r"]
    by (auto simp: loop_step_def intro: hidden_subset [of _ r] dest!: WndProc_cases)
next
  case NextFrame
  then show ?thesis
    using assms first_frame_windows [of r] by (auto simp: loop_step_def intro: hidden_subset [of _ r])
next
  case (HostCall c)
  then have "host_call_window h c x = x" for h x
    using assms(3) by (auto simp: quiet_event_def host_call_window_def split: host_call.split)
  then show ?thesis
    using HostCall assms(1,4) by (auto simp: loop_step_def hidden_def upd_defs split: option.splits)
next
  case (HiddenByOthers h)
  have "(k, w) \<in> set (dk_windows (rn_desk (others_show False h r))) \<Longrightarrow> \<not> ow_visible w" for k w
    using assms(1) by (auto simp: others_show_def hidden_def upd_defs split: if_splits)
  then have "hidden (others_show False h r)" by (auto simp: hidden_def)
  with HiddenByOthers show ?thesis using assms(4) by (simp add: loop_step_def)
next
  case (DestroyedByOthers h)
  have "set (dk_windows (rn_desk (DestroyWindow e h r))) \<subseteq> set (dk_windows (rn_desk r))"
    by (auto simp: DestroyWindow.simps receive_destroy.simps Destroy_windows Let_def)
  with DestroyedByOthers show ?thesis using assms(1,4) by (auto simp: loop_step_def intro: hidden_subset [of _ r])
qed (use assms in \<open>simp_all add: loop_step_def quiet_event_def\<close>)


subsection \<open>The whole life\<close>

text \<open>What ends a loop whose window does not quit on close is somebody else's message or the system.\<close>

definition ended_by_others :: "loop_end \<Rightarrow> loop_event list \<Rightarrow> bool" where
  "ended_by_others how evs \<longleftrightarrow>
     (how = QuitReceived \<longrightarrow> QuitPosted \<in> set evs) \<and> (how = LoopFailed \<longrightarrow> GetMessageFails \<in> set evs)"

lemma run_loop_inv:
  assumes "window_inv r" "keeps_loop r" "list_all (\<lambda>(_, ev). system_event ev) evs"
  shows "\<exists>how r'. run_loop evs r = Some (how, r') \<and> window_inv r' \<and> keeps_loop r' \<and> roles r' = roles r
    \<and> ended_by_others how (map snd evs)
    \<and> ((fst (roles r) \<or> snd (roles r)) \<and> hidden r \<and> list_all (\<lambda>(_, ev). quiet_event ev) evs \<longrightarrow> hidden r')"
  using assms
proof (induction evs arbitrary: r)
  case Nil
  then show ?case by (simp add: ended_by_others_def)
next
  case (Cons x evs)
  obtain e ev where x: "x = (e, ev)" by fastforce
  have p: "PostQuitMessage \<notin> set (dk_calls (rn_desk r))" using Cons.prems(2) by (simp add: keeps_loop_def)
  show ?case
  proof (cases "ev = QuitPosted \<or> ev = GetMessageFails")
    case True
    then show ?thesis using Cons.prems(1,2) p by (auto simp: x ended_by_others_def)
  next
    case False
    from Cons.prems x obtain s where s: "loop_step e ev r = Some s" "window_inv s"
      using loop_step_inv [of r ev e] by auto
    have k: "keeps_loop s" using keeps_loop_step [OF Cons.prems(2) s(1)] .
    have "list_all (\<lambda>(_, ev). system_event ev) evs" using Cons.prems(3) by simp
    from Cons.IH [OF s(2) k this] obtain how r' where r': "run_loop evs s = Some (how, r')" "window_inv r'" "keeps_loop r'"
      "roles r' = roles s" "ended_by_others how (map snd evs)"
      "(fst (roles s) \<or> snd (roles s)) \<and> hidden s \<and> list_all (\<lambda>(_, ev). quiet_event ev) evs \<longrightarrow> hidden r'" by blast
    then show ?thesis
      using False p roles_step [OF s(1)] hidden_step [of r ev e s] s(1)
      by (intro exI [of _ how] exI [of _ r']) (auto simp: x ended_by_others_def)
  qed
qed

lemma owned_os [simp]: "owned_window (os_do c r) = owned_window r"
  by (simp add: owned_window_def views_of_def upd_defs)

text \<open>The end of the object leaves nothing behind, whether the window was there or had been closed.\<close>

lemma delete_window_releases:
  assumes "owned_window r"
  shows "dk_windows (rn_desk (delete_window e r)) = [] \<and> \<not> dk_class (rn_desk (delete_window e r))
    \<and> \<not> rn_registered (delete_window e r) \<and> rn_count (delete_window e r) = 0
    \<and> dk_views (rn_desk (delete_window e r)) = [] \<and> rn_log (delete_window e r) = rn_log r
    \<and> (\<forall>l \<in> set (rn_bridges (delete_window e r)). lh_pipe l = None \<and> lh_opened l = lh_closed l)"
proof -
  have o: "FlutterWindow_OnDestroy r = OnDestroy r" using assms by (simp add: OnDestroy_def owned_window_def)
  let ?s = "(OnDestroy r)\<lparr>rn_derived := False, rn_count := 0\<rparr>"
  have d: "delete_window e r = Destroy e ?s"
    using assms by (simp add: delete_window_def o Let_def owned_window_def)
  have i: "OnDestroy ?s = ?s" by (simp add: OnDestroy_def)
  have w: "dk_windows (rn_desk (Destroy e ?s)) = []"
    using assms by (auto simp: Destroy_windows owned_window_def handle_of_def filter_empty_conv)
  obtain x where x: "Destroy e ?s = UnregisterWindowClass x" "dk_windows (rn_desk x) = dk_windows (rn_desk (Destroy e ?s))"
    using Destroy_unfolded [of e ?s] windows_upd(2) by (simp add: Let_def)
  have "\<not> dk_class (rn_desk (UnregisterWindowClass x))" "\<not> rn_registered (UnregisterWindowClass x)"
    using x(2) unfolding w by (simp_all add: UnregisterWindowClass_def Let_def upd_defs)
  then show ?thesis
    using assms w OnDestroy_bridges [of r] OnDestroy_views [of r]
    by (simp add: d Destroy_object i) (simp add: x(1) owned_window_def)
qed

lemma make_window_owned:
  assumes "make_window e worker minimized first_runner = (ok, r)"
  shows "owned_window r"
proof -
  let ?r = "log_event ''window.create.begin'' (new_window worker minimized first_runner)"
  have d: "Destroy e ?r = ?r"
    by (simp add: Destroy_without_window new_window_def first_runner_def OnDestroy_def FlutterWindow_OnDestroy_def upd_defs Let_def)
  note defs = upd_defs GetWindowClass_def UpdateTheme_def new_window_def first_runner_def
  obtain ok' r' where c: "Create e app_title (10, 10) (440, 720) ?r = (ok', r')" by fastforce
  have "owned_window r'"
  proof (cases ok')
    case True
    then show ?thesis using Create_makes(1) c by (simp add: window_inv_def)
  next
    case False
    then have "fv_window (en_view e) = None \<or> \<not> fv_engine (en_view e) \<or> \<not> en_created e"
      using c unfolding Create_def d Let_def
      by (auto simp: OnCreate_def Win32Window_OnCreate_def Let_def split: if_splits option.splits)
    moreover have "r' = snd (Create e app_title (10, 10) (440, 720) ?r)" using c by simp
    moreover have "owned_window r'" if "\<not> en_created e"
      using that unfolding \<open>r' = _\<close> Create_def d Let_def
      by (simp add: owned_window_def views_of_def bridges_ok_def ValidEvent_names defs)
    moreover have "owned_window r'" if "en_created e" "fv_window (en_view e) = None"
      using that unfolding \<open>r' = _\<close> Create_def d Let_def
      by (simp add: OnCreate_def Win32Window_OnCreate_def owned_window_def views_of_def bridges_ok_def ValidEvent_names
        Let_def defs split: option.split)
    moreover have "owned_window r'" if "en_created e" "fv_window (en_view e) = Some n" "\<not> fv_engine (en_view e)" for n
      using that unfolding \<open>r' = _\<close> Create_def d Let_def
      by (simp add: OnCreate_def Win32Window_OnCreate_def owned_window_def views_of_def bridges_ok_def ValidEvent_names
        Let_def defs split: option.split)
    ultimately show ?thesis by blast
  qed
  moreover have "owned_window (log_event ev x) = owned_window x" if "ValidEvent ev" for ev x
    using that by (simp add: owned_window_def views_of_def upd_defs)
  moreover have "owned_window (SetQuitOnClose False x) = owned_window x" for x
    by (simp add: SetQuitOnClose_def owned_window_def views_of_def bridges_ok_def upd_defs)
  ultimately show ?thesis
    using assms c by (cases ok') (auto simp: make_window_def ValidEvent_names)
qed

lemma make_window_ready:
  assumes "make_window e worker minimized first_runner = (True, r)"
  shows "window_inv r" "keeps_loop r" "hidden r" "roles r = (worker, minimized)" "fw_next_frame (rn_object r)"
    "handle_of r = Some 1" "\<exists>pl. dk_windows (rn_desk r) = [(1, \<lparr>ow_class = kWindowClass, ow_title = app_title, ow_place = pl, ow_visible = False\<rparr>)]"
    "worker \<longleftrightarrow> fw_link_host_bridge (rn_object r) \<noteq> None" "worker \<longleftrightarrow> fw_link_agent_binding_bridge (rn_object r) = None"
proof -
  obtain r' where c: "Create e app_title (10, 10) (440, 720)
      (log_event ''window.create.begin'' (new_window worker minimized first_runner)) = (True, r')"
    and r: "r = SetQuitOnClose False (log_event ''window.create.ready'' r')"
    using assms by (auto simp: make_window_def split: prod.splits bool.splits)
  note m = Create_makes [OF c]
  have "window_inv (log_event ''window.create.ready'' r')" using m(1) by (simp add: window_inv_log ValidEvent_names)
  then show "window_inv r"
    by (simp add: r SetQuitOnClose_def window_inv_def owned_window_def views_of_def bridges_ok_def upd_defs)
  show "keeps_loop r" "hidden r" "roles r = (worker, minimized)" "fw_next_frame (rn_object r)"
    "handle_of r = Some 1" "\<exists>pl. dk_windows (rn_desk r) = [(1, \<lparr>ow_class = kWindowClass, ow_title = app_title, ow_place = pl, ow_visible = False\<rparr>)]"
    "worker \<longleftrightarrow> fw_link_host_bridge (rn_object r) \<noteq> None" "worker \<longleftrightarrow> fw_link_agent_binding_bridge (rn_object r) = None"
    using m(2-) by (simp_all add: r SetQuitOnClose_def keeps_loop_def hidden_def roles_def upd_defs)
qed


subsection \<open>What the message loop can rely on\<close>


definition plain_env :: win_env where
  "plain_env = \<lparr>en_created = True, en_theme = Some 0,
     en_client = (\<lambda>_. \<lparr>rc_left = 0, rc_top = 0, rc_right = 440, rc_bottom = 720\<rparr>), en_scale = (\<lambda>x. x),
     en_top_level = (\<lambda>_. None), en_default = (\<lambda>_. 0), en_view = \<lparr>fv_engine = True, fv_window = Some 7\<rparr>, en_channel = True\<rparr>"

lemma plain_window: "make_window plain_env w m first_runner = (True, snd (make_window plain_env w m first_runner))"
proof -
  let ?r = "log_event ''window.create.begin'' (new_window w m first_runner)"
  have d: "Destroy plain_env ?r = ?r"
    by (simp add: Destroy_without_window new_window_def first_runner_def OnDestroy_def FlutterWindow_OnDestroy_def upd_defs Let_def)
  have "fst (Create plain_env app_title (10, 10) (440, 720) ?r)"
    unfolding Create_def d Let_def by (simp add: OnCreate_def Win32Window_OnCreate_def plain_env_def Let_def)
  then show ?thesis
    by (cases "Create plain_env app_title (10, 10) (440, 720) ?r") (simp add: make_window_def)
qed


text \<open>From the constructor to the destructor: a run on events of the system ends with no window, no view,
  no window class and no open pipe, and what it logs are names that the log accepts.\<close>

lemma run_window_releases:
  assumes "list_all (\<lambda>(_, ev). system_event ev) evs"
  shows "\<exists>created r. run_window e evs worker minimized first_runner = Some (created, r)
    \<and> dk_windows (rn_desk r) = [] \<and> dk_views (rn_desk r) = [] \<and> \<not> dk_class (rn_desk r) \<and> rn_count r = 0
    \<and> (\<forall>l \<in> set (rn_bridges r). lh_pipe l = None \<and> lh_opened l = lh_closed l)
    \<and> list_all ValidEvent (rn_log r)"
proof -
  obtain ok r where m: "make_window e worker minimized first_runner = (ok, r)" by fastforce
  have o: "owned_window r" using make_window_owned [OF m] .
  show ?thesis
  proof (cases ok)
    case True
    with m have m': "make_window e worker minimized first_runner = (True, r)" by simp
    from run_loop_inv [OF make_window_ready(1,2) [OF m'] assms] obtain how r' where
      r': "run_loop evs r = Some (how, r')" "window_inv r'" by blast
    define r2 where "r2 = log_event (if how = LoopFailed then ''message_loop.failed'' else ''message_loop.exit'') r'"
    have "owned_window r2"
      using r'(2) by (simp add: r2_def window_inv_def owned_window_def views_of_def upd_defs ValidEvent_names)
    from delete_window_releases [OF this, of e] this show ?thesis
      using m' r' by (intro exI [of _ True] exI [of _ "delete_window e r2"])
        (simp add: run_window_def owned_window_def r2_def)
  next
    case False
    with m delete_window_releases [OF o, of e] o show ?thesis
      by (intro exI [of _ False] exI [of _ "delete_window e r"]) (simp add: run_window_def owned_window_def)
  qed
qed

lemma run_window_releases_example:
  "\<exists>created r. run_window plain_env [(plain_env, Message 1 WM_CLOSE)] True False first_runner = Some (created, r)
    \<and> dk_windows (rn_desk r) = []"
  using run_window_releases [of "[(plain_env, Message 1 WM_CLOSE)]" plain_env True False]
  by (auto simp: system_event_def)


subsection \<open>The first frame\<close>

text \<open>The first frame shows the window of a plain start, once; \<open>Show\<close> answers whether the window was
  visible before, so the call that shows it answers no.\<close>

lemma first_frame_shows:
  assumes "make_window e False False first_runner = (True, r)"
  shows "\<exists>w. os_window 1 (first_frame r) = Some w \<and> ow_visible w" "\<not> fst (Show r)"
    "first_frame (first_frame r) = first_frame r"
proof -
  obtain pl where w: "dk_windows (rn_desk r) = [(1, \<lparr>ow_class = kWindowClass, ow_title = app_title, ow_place = pl, ow_visible = False\<rparr>)]"
    using make_window_ready(7) [OF assms] by blast
  have h: "fw_window_handle (rn_object r) = Some 1" using make_window_ready(6) [OF assms] by (simp add: handle_of_def)
  have ro: "\<not> fw_link_host_worker (rn_object r)" "\<not> fw_start_minimized (rn_object r)"
    using make_window_ready(4) [OF assms] by (simp_all add: roles_def)
  have f: "fw_next_frame (rn_object r)" by (rule make_window_ready(5) [OF assms])
  show "\<not> fst (Show r)" by (simp add: Show_def ShowWindow_def os_window_def upd_defs h w)
  show "\<exists>w. os_window 1 (first_frame r) = Some w \<and> ow_visible w"
    by (simp add: first_frame_def Show_def ShowWindow_def os_window_def upd_defs h w ro f Let_def)
  show "first_frame (first_frame r) = first_frame r"
    by (simp add: first_frame_def Show_def ShowWindow_def os_window_def upd_defs h w ro f Let_def)
qed

subsection \<open>Where the code and its comments part\<close>

text \<open>Without a controller the message about fonts is answered through a null pointer, while the call two
  lines above it is guarded.  The message loop does not get there, see above, but for a \<open>WM_DESTROY\<close> that
  is posted by someone else: it takes the controller and leaves the window.\<close>

lemma font_change_needs_controller:
  "controller_of r = None \<Longrightarrow> FlutterWindow_MessageHandler e h WM_FONTCHANGE r = None"
  by (simp add: FlutterWindow_MessageHandler_def)

lemma stray_destroy_then_font_change:
  "run_loop [(plain_env, Message 1 WM_DESTROY), (plain_env, Message 1 WM_FONTCHANGE)] (snd (make_window plain_env w m first_runner)) = None"
proof -
  let ?r = "snd (make_window plain_env w m first_runner)"
  note m = make_window_ready [OF plain_window [of w m]]
  let ?s = "Destroy plain_env (set_handle None ?r)"
  have i: "rn_derived ?r" using m(1) by (simp add: window_inv_def owned_window_def)
  have k: "keeps_loop ?s" using m(2) by (intro keeps_loop_Destroy) simp
  have t: "en_top_level plain_env msg = None" for msg by (simp add: plain_env_def)
  have d: "rn_derived (set_handle None ?r)" using i by (simp add: upd_defs)
  have "dk_windows (rn_desk ?s) = dk_windows (rn_desk ?r)" by (simp add: Destroy_windows) (simp add: upd_defs)
  then have live: "os_window 1 ?r \<noteq> None" "os_window 1 ?s \<noteq> None" using m(7) by (auto simp: os_window_def)
  have c: "controller_of ?s = None" "rn_derived ?s"
    using d by (simp_all add: controller_of_def Destroy_object)
  have "loop_step plain_env (Message 1 WM_DESTROY) ?r = Some ?s"
    using live i keeps_loop_quit [OF k]
    by (auto simp: loop_step_def WndProc_def FlutterWindow_MessageHandler_def Win32Window_MessageHandler_def t Let_def
      split: option.split)
  moreover have "loop_step plain_env (Message 1 WM_FONTCHANGE) ?s = None"
    using live c by (simp add: loop_step_def WndProc_def font_change_needs_controller)
  ultimately show ?thesis using m(2) k by (simp add: keeps_loop_def)
qed

text \<open>\<open>UnregisterWindowClass\<close> says that it should only be called if there are no instances of the window.
  The destructor counts the object out first, so the call nested in \<open>WM_DESTROY\<close> makes it while the window
  is still there.\<close>

lemma class_unregistered_too_early:
  assumes "make_window e worker minimized first_runner = (True, r)"
  shows "UnregisterClassCall False \<in> set (dk_calls (rn_desk (delete_window e r)))"
proof -
  have i: "owned_window r" using make_window_ready(1) [OF assms] by (simp add: window_inv_def)
  have h: "fw_window_handle (rn_object r) = Some 1" using make_window_ready(6) [OF assms] by (simp add: handle_of_def)
  have o: "FlutterWindow_OnDestroy r = OnDestroy r" using i by (simp add: OnDestroy_def owned_window_def)
  let ?s = "(OnDestroy r)\<lparr>rn_derived := False, rn_count := 0\<rparr>"
  have d: "delete_window e r = Destroy e ?s" "OnDestroy ?s = ?s"
    using i by (simp_all add: delete_window_def o Let_def owned_window_def OnDestroy_def [of ?s])
  have n: "dk_windows (rn_desk (OnDestroy r)) \<noteq> []" using make_window_ready(7) [OF assms] by auto
  have "os_window 1 ?s \<noteq> None" using make_window_ready(7) [OF assms] by (auto simp: os_window_def)
  moreover have "UnregisterClassCall False \<in> set (dk_calls (rn_desk (nested_destroy ?s)))"
    using n by (simp add: nested_destroy_def UnregisterWindowClass_def upd_defs Let_def)
  moreover have "set (dk_calls (rn_desk (nested_destroy ?s))) \<subseteq> set (dk_calls (rn_desk (UnregisterWindowClass
      (set_handle None (remove_window 1 (nested_destroy ?s))))))"
    by (auto simp: UnregisterWindowClass_def remove_window_def upd_defs Let_def)
  ultimately show ?thesis
    unfolding d(1) Destroy_unfolded [of e ?s] d(2) using h by (auto simp: Let_def)
qed

text \<open>The window of a link worker has the class and the title by which a second start looks for the
  application, and once Dart has renamed it, it still has \<open>Ligament\<close> in its title.\<close>

definition seen_window :: "u32 \<Rightarrow> bool \<Rightarrow> os_window \<Rightarrow> app_window" where
  "seen_window pid responds w = \<lparr>aw_pid = pid, aw_class = ow_class w, aw_title = ow_title w, aw_responds = responds\<rparr>"

text \<open>So with the mutex held by an instance that has no window yet or lost it, and a worker's window on
  the desktop, a second start takes the worker for the application: it shows the worker's hidden window
  and leaves.\<close>

lemma worker_taken_for_application:
  assumes "make_window e True minimized first_runner = (True, r)" "os_window 1 r = Some w"
    "\<not> sm_linkHost m" "\<not> sm_autoshare m" "sy_mutex s \<noteq> {}" "sy_windows s = [seen_window pid True w]"
  shows "\<not> ow_visible w \<and> single_instance True c2 sn me m s = (OtherInstance (\<not> sm_minimized m), s)"
proof -
  have w: "ow_class w = kWindowClass" "ow_title w = app_title" "\<not> ow_visible w"
    using make_window_ready(7) [OF assms(1)] assms(2) by (auto simp: os_window_def)
  have "FindExistingAppWindow (sy_windows s) = Some (seen_window pid True w)"
    by (simp add: assms(6) FindExistingAppWindow_def find_window_def seen_window_def w app_title_def)
  then show ?thesis using assms(3-5) w(3) by (simp add: single_instance_def seen_window_def)
qed


definition worker_desktop :: "os_window \<Rightarrow> app_system" where
  "worker_desktop w = \<lparr>sy_processes = [\<lparr>ap_pid = 4, ap_exe = kRunnerExe, ap_opens = True\<rparr>,
       \<lparr>ap_pid = 5, ap_exe = kRunnerExe, ap_opens = True\<rparr>],
     sy_windows = [seen_window 5 True w], sy_mutex = {4}\<rparr>"

lemma worker_taken_for_application_example:
  "case os_window 1 (snd (make_window plain_env True False first_runner)) of
     None \<Rightarrow> False
   | Some w \<Rightarrow> single_instance True True True 9 (start_mode []) (worker_desktop w) = (OtherInstance True, worker_desktop w)"
proof -
  obtain w where w: "os_window 1 (snd (make_window plain_env True False first_runner)) = Some w"
    using make_window_ready(7) [OF plain_window [of True False]] by (auto simp: os_window_def)
  have "single_instance True True True 9 (start_mode []) (worker_desktop w) = (OtherInstance True, worker_desktop w)"
    using worker_taken_for_application [OF plain_window w, of "start_mode []" "worker_desktop w" 5 True True 9]
    by (simp add: start_mode_def worker_desktop_def)
  with w show ?thesis by simp
qed

text \<open>The same for the title Dart gives the worker's window, by the third search.\<close>

lemma renamed_worker_found:
  assumes "aw_class w = kWindowClass" "occurs (wide ''Ligament'') (take 255 (aw_title w))"
  shows "FindExistingAppWindow [w] = Some w"
  using assms by (simp add: FindExistingAppWindow_def find_window_def)


subsection \<open>The other window brought forward\<close>

text \<open>\<open>ActivateExistingWindow\<close> is the host bridge's \<open>bringToFront\<close> with one step more: it takes the window out
  of the topmost ones again.\<close>

datatype activate_action = Do window_action | MakeNotTopmost

definition ActivateExistingWindow :: "window_env \<Rightarrow> activate_action list" where
  "ActivateExistingWindow w =
     (if \<not> wv_window w then []
      else
        let front = map Do [MakeTopmost, SetForeground, BringToTop] @ [MakeNotTopmost]
        in (if wv_iconic w then [Do ShowRestored] else [Do ShowNormal])
           @ (if wv_foregroundThread w \<noteq> 0 \<and> wv_foregroundThread w \<noteq> wv_thread w
              then [Do JoinForeground] @ front @ [Do LeaveForeground] else front))"

text \<open>Whether the window stays topmost, and whether the threads' input stays joined.\<close>

definition front_effect :: "activate_action \<Rightarrow> bool \<times> bool \<Rightarrow> bool \<times> bool" where
  "front_effect a s =
     (case a of
        Do MakeTopmost \<Rightarrow> (True, snd s)
      | MakeNotTopmost \<Rightarrow> (False, snd s)
      | Do JoinForeground \<Rightarrow> (fst s, True)
      | Do LeaveForeground \<Rightarrow> (fst s, False)
      | _ \<Rightarrow> s)"

lemma activation_leaves_no_trace: "fold front_effect (ActivateExistingWindow w) (False, False) = (False, False)"
  by (simp add: ActivateExistingWindow_def front_effect_def Let_def)

lemma bringToFront_stays_topmost:
  "wv_window w \<Longrightarrow> fold front_effect (map Do (bringToFront w)) (False, False) = (True, False)"
  by (simp add: bringToFront_def front_effect_def Let_def)

subsection \<open>The log of a start\<close>

definition startup_events :: "start_mode \<Rightarrow> bool \<Rightarrow> string list" where
  "startup_events m com =
     [if sm_linkHost m then ''startup.mode.link_host'' else ''startup.mode.gui'']
     @ (if sm_minimized m then [''startup.minimized''] else [])
     @ (if sm_autoshare m then [''startup.autoshare''] else [])
     @ (if com then [] else [''startup.com.failed''])"

lemma startup_events_valid: "list_all ValidEvent (startup_events m com)"
proof -
  have "ValidEvent ''startup.mode.link_host''" "ValidEvent ''startup.mode.gui''" "ValidEvent ''startup.minimized''"
    "ValidEvent ''startup.autoshare''" "ValidEvent ''startup.com.failed''"
    by code_simp+
  then show ?thesis by (simp add: startup_events_def)
qed

end
