(* ===== verification/RunnerUtils.thy ===== *)
theory RunnerUtils
  imports Startup
begin

text \<open>
  The helpers of the runner, \<open>runner/utils.cpp\<close>: the arguments in UTF-8, and the console of a start from
  the debugger.

  \<open>WideCharToMultiByte\<close> with the flag against invalid characters is the parameter \<open>utf8\<close>: the bytes, or
  \<open>None\<close> where it answers 0 for a text it cannot convert.  What is used of it is in the named hypothesis
  \<open>ascii_codec\<close>: ASCII text becomes the same bytes.
\<close>

subsection \<open>Arguments\<close>

definition UNICODE_STRING_MAX_CHARS :: nat where "UNICODE_STRING_MAX_CHARS = 32767"

definition wcsnlen :: "wstr \<Rightarrow> nat \<Rightarrow> nat" where
  "wcsnlen s n = length (takeWhile (\<lambda>u. u \<noteq> 0) (take n s))"

definition Utf8FromUtf16 :: "(wstr \<Rightarrow> string option) \<Rightarrow> wstr option \<Rightarrow> string" where
  "Utf8FromUtf16 utf8 s =
     (case s of
        None \<Rightarrow> []
      | Some w \<Rightarrow>
          let input_length = wcsnlen w UNICODE_STRING_MAX_CHARS;
              target = utf8 (take input_length w)
          in if input_length = 0 \<or> target = None \<or> target = Some [] then [] else the target)"

text \<open>\<open>argv\<close>: what \<open>CommandLineToArgvW\<close> answers; the loop skips the name of the program.\<close>

function argument_loop :: "(wstr \<Rightarrow> string option) \<Rightarrow> wstr list \<Rightarrow> nat \<Rightarrow> nat \<Rightarrow> string list" where
  "argument_loop utf8 argv i argc =
     (if i < argc then Utf8FromUtf16 utf8 (Some (argv ! i)) # argument_loop utf8 argv (i + 1) argc else [])"
  by pat_completeness auto
termination
  by (relation "measure (\<lambda>(_, _, i, argc). argc - i)") auto

declare argument_loop.simps [simp del]

definition GetCommandLineArguments :: "(wstr \<Rightarrow> string option) \<Rightarrow> wstr list option \<Rightarrow> string list" where
  "GetCommandLineArguments utf8 argv =
     (case argv of None \<Rightarrow> [] | Some a \<Rightarrow> argument_loop utf8 a 1 (length a))"

subsection \<open>The console\<close>

datatype console_call = AllocConsole | ReopenStdout | ReopenStderr | Dup2 nat | SyncWithStdio | ResyncOutputStreams

text \<open>\<open>out\<close>, \<open>err\<close>: \<open>freopen_s\<close> fails for the stream.\<close>

definition CreateAndAttachConsole :: "bool \<Rightarrow> bool \<Rightarrow> bool \<Rightarrow> console_call list" where
  "CreateAndAttachConsole alloc out err =
     AllocConsole # (if alloc then [ReopenStdout] @ (if out then [Dup2 1] else [])
        @ [ReopenStderr] @ (if err then [Dup2 2] else []) @ [SyncWithStdio, ResyncOutputStreams] else [])"

text \<open>\<open>wWinMain\<close> before the arguments: the parent's console, or one of its own under a debugger.\<close>

definition attach_console :: "bool \<Rightarrow> bool \<Rightarrow> bool \<Rightarrow> bool \<Rightarrow> bool \<Rightarrow> console_call list" where
  "attach_console attached debugger alloc out err =
     (if \<not> attached \<and> debugger then CreateAndAttachConsole alloc out err else [])"

subsection \<open>Facts\<close>

lemma argument_loop_map:
  "argument_loop utf8 argv i (length argv) = map (Utf8FromUtf16 utf8 \<circ> Some) (drop i argv)"
proof (induction "length argv - i" arbitrary: i)
  case 0
  then show ?case by (simp add: argument_loop.simps)
next
  case (Suc n)
  then have "i < length argv" "n = length argv - (i + 1)" by simp_all
  with Suc.hyps(1) [of "i + 1"] show ?case
    by (simp add: argument_loop.simps [of _ _ i] Cons_nth_drop_Suc [symmetric])
qed

lemma GetCommandLineArguments_map:
  "GetCommandLineArguments utf8 (Some argv) = map (Utf8FromUtf16 utf8 \<circ> Some) (drop 1 argv)"
  by (simp add: GetCommandLineArguments_def argument_loop_map)

definition ascii_char :: "char \<Rightarrow> bool" where
  "ascii_char c \<longleftrightarrow> 0 < (of_char c :: nat) \<and> (of_char c :: nat) < 128"

definition ascii_codec :: "(wstr \<Rightarrow> string option) \<Rightarrow> bool" where
  "ascii_codec utf8 \<longleftrightarrow> (\<forall>t. list_all ascii_char t \<longrightarrow> utf8 (wide t) = Some t)"

lemma wide_unit: "ascii_char c \<Longrightarrow> (of_char c :: wchar) \<noteq> 0"
proof
  assume a: "ascii_char c" and z: "(of_char c :: wchar) = 0"
  have "unat (of_nat (of_char c) :: wchar) = of_char c"
    using a by (simp add: ascii_char_def unat_of_nat_u16)
  with a z show False by (simp add: ascii_char_def of_nat_of_char [where ?'a = "16 word"])
qed

lemma wcsnlen_wide:
  assumes "list_all ascii_char t" "length t \<le> n"
  shows "wcsnlen (wide t) n = length t"
proof -
  have "takeWhile (\<lambda>u. u \<noteq> 0) (wide t) = wide t"
    using assms(1) wide_unit by (auto simp: takeWhile_eq_all_conv wide_def list_all_iff)
  moreover have "take n (wide t) = wide t" "length (wide t) = length t" using assms(2) by (simp_all add: wide_def)
  ultimately show ?thesis by (simp only: wcsnlen_def)
qed

lemma Utf8FromUtf16_wide:
  assumes "ascii_codec utf8" "list_all ascii_char t" "length t \<le> UNICODE_STRING_MAX_CHARS"
  shows "Utf8FromUtf16 utf8 (Some (wide t)) = t"
  using assms by (auto simp: Utf8FromUtf16_def Let_def wcsnlen_wide ascii_codec_def) (auto simp: wide_def)

text \<open>ASCII arguments reach the program as they are: the service's command line for a worker starts a
  worker, on the pipe it names.\<close>

lemma worker_command_line:
  assumes "ascii_codec utf8" "list_all ascii_char pipe" "length pipe \<le> 32000"
  shows "GetCommandLineArguments utf8 (Some [exe, wide (''--link-host='' @ pipe)]) = [''--link-host='' @ pipe]"
    "start_mode [''--link-host='' @ pipe] = \<lparr>sm_linkHost = True, sm_minimized = False, sm_autoshare = False\<rparr>"
proof -
  have "list_all ascii_char ''--link-host=''" by (simp add: ascii_char_def)
  then have "Utf8FromUtf16 utf8 (Some (wide (''--link-host='' @ pipe))) = ''--link-host='' @ pipe"
    using assms by (intro Utf8FromUtf16_wide) (simp_all add: UNICODE_STRING_MAX_CHARS_def)
  then show "GetCommandLineArguments utf8 (Some [exe, wide (''--link-host='' @ pipe)]) = [''--link-host='' @ pipe]"
    by (simp add: GetCommandLineArguments_map)
  show "start_mode [''--link-host='' @ pipe] = \<lparr>sm_linkHost = True, sm_minimized = False, sm_autoshare = False\<rparr>"
    by (simp add: start_mode_args)
qed

text \<open>An argument that cannot be converted is an empty one, not a missing one, and changes no mode.\<close>

lemma lost_argument:
  assumes "utf8 (take (wcsnlen w UNICODE_STRING_MAX_CHARS) w) = None"
  shows "GetCommandLineArguments utf8 (Some (exe # as @ w # bs)) =
      GetCommandLineArguments utf8 (Some (exe # as)) @ [] # GetCommandLineArguments utf8 (Some (exe # bs))"
    "start_mode (GetCommandLineArguments utf8 (Some (exe # as @ w # bs))) =
      start_mode (GetCommandLineArguments utf8 (Some (exe # as @ bs)))"
  using assms by (simp_all add: GetCommandLineArguments_map start_mode_args Utf8FromUtf16_def Let_def)

end
