(* ===== verification/LinuxRunner.thy ===== *)
theory LinuxRunner
  imports Startup
begin

text \<open>
  The runner on Linux, \<open>linux/runner/my_application.cc\<close>: the application object, its command line, the
  windows it opens on activation, and its end.

  GTK, the engine and the window manager's name are parameters; the generated registration of the
  plugins is left out.  The application is not unique, so each process is activated by its own command
  line.
\<close>

subsection \<open>The application\<close>

datatype titlebar = HeaderBar string | PlainTitle string

record gtk_window =
  gw_titlebar :: titlebar
  gw_icon :: string
  gw_size :: "nat \<times> nat"
  gw_arguments :: "string list" \<comment> \<open>the entry point arguments of its view's project\<close>
  gw_visible :: bool

record my_application =
  dart_entrypoint_arguments :: "string list option"
  ma_registered :: bool
  ma_windows :: "gtk_window list"

definition my_application_new :: my_application where
  "my_application_new = \<lparr>dart_entrypoint_arguments = None, ma_registered = False, ma_windows = []\<rparr>"

text \<open>The screen: on X, with the name of the window manager, or not.\<close>

datatype gdk_screen = X11Screen "string option" | OtherScreen

definition use_header_bar :: "gdk_screen \<Rightarrow> bool" where
  "use_header_bar screen = (case screen of X11Screen wm_name \<Rightarrow> wm_name = Some ''GNOME Shell'' | OtherScreen \<Rightarrow> True)"

definition my_application_activate :: "gdk_screen \<Rightarrow> my_application \<Rightarrow> my_application" where
  "my_application_activate screen a =
     (let title = ''Ligament Authenticator'';
          w = \<lparr>gw_titlebar = (if use_header_bar screen then HeaderBar title else PlainTitle title),
               gw_icon = ''ligament-authenticator'', gw_size = (1000, 700),
               gw_arguments = (case dart_entrypoint_arguments a of None \<Rightarrow> [] | Some as \<Rightarrow> as), gw_visible = False\<rparr>
      in a\<lparr>ma_windows := ma_windows a @ [w]\<rparr>)"

text \<open>The first frame of the \<open>i\<close>-th window's view.\<close>

definition first_frame_cb :: "nat \<Rightarrow> my_application \<Rightarrow> my_application" where
  "first_frame_cb i a =
     (if i < length (ma_windows a)
      then a\<lparr>ma_windows := (ma_windows a)[i := (ma_windows a ! i)\<lparr>gw_visible := True\<rparr>]\<rparr> else a)"

text \<open>The vector of arguments is read from its second entry on: without a first one that is behind its
  end, \<open>None\<close>.  \<open>registers\<close>: the application can be registered.  The exit status is returned.\<close>

definition my_application_local_command_line ::
    "bool \<Rightarrow> gdk_screen \<Rightarrow> string list \<Rightarrow> my_application \<Rightarrow> (nat \<times> my_application) option" where
  "my_application_local_command_line registers screen arguments a =
     (case arguments of
        [] \<Rightarrow> None
      | _ # args \<Rightarrow>
          let a = a\<lparr>dart_entrypoint_arguments := Some args\<rparr>
          in if \<not> registers then Some (1, a)
             else Some (0, my_application_activate screen (a\<lparr>ma_registered := True\<rparr>)))"

definition my_application_dispose :: "my_application \<Rightarrow> my_application" where
  "my_application_dispose a = a\<lparr>dart_entrypoint_arguments := None\<rparr>"

subsection \<open>Facts\<close>

text \<open>A start opens one window, whose program gets the arguments without the name of the binary, or
  fails with status 1 and opens none.\<close>

lemma local_command_line_starts:
  assumes "my_application_local_command_line registers screen (binary # args) my_application_new = Some (status, a)"
  shows "if registers then status = 0 \<and> (\<exists>w. ma_windows a = [w] \<and> gw_arguments w = args \<and> \<not> gw_visible w)
    else status = 1 \<and> ma_windows a = []"
  using assms
  by (auto simp: my_application_local_command_line_def my_application_activate_def my_application_new_def Let_def
    split: if_splits)

lemma my_application_dispose_twice: "my_application_dispose (my_application_dispose a) = my_application_dispose a"
  by (simp add: my_application_dispose_def)

text \<open>The first frame shows the window whatever the arguments say, where the runner on Windows keeps the
  window of a worker or of a minimised start hidden.\<close>

lemma linux_start_shows_window:
  assumes "my_application_local_command_line True screen (binary # args) my_application_new = Some (status, a)"
    "sm_linkHost (start_mode args) \<or> sm_minimized (start_mode args)"
  shows "\<exists>w. ma_windows (first_frame_cb 0 a) = [w] \<and> gw_visible w"
  using assms(1)
  by (auto simp: my_application_local_command_line_def my_application_activate_def my_application_new_def first_frame_cb_def
    Let_def)

end
