(* ===== verification/TileBitmaps.thy ===== *)
theory TileBitmaps
  imports Credential "HOL-Library.Multiset"
begin

text \<open>
  Who owns the bitmaps of the tile, \<open>credential_provider/LigamentCredential.cpp\<close>: the QR code and the
  default logo the object holds, the code a thread has drawn but not stored yet, the copies made for a
  notification, and what is handed to LogonUI, which deletes it.

  \<open>Credential\<close> has the bitmaps as pictures; here they are GDI handles, and the state is the ledger of
  them.  A critical section is one step, what a thread holds between two of them is a field, so LogonUI's
  thread and the worker interleave.  \<open>gd_bad\<close> records a deletion or copy of a handle that does not exist,
  \<open>gd_lost\<close> the handles nobody holds any more.
\<close>

subsection \<open>Handles\<close>

record gdi =
  gd_next :: nat
  gd_live :: "nat multiset"
  gd_bad :: bool
  gd_qr :: "nat option"
  gd_logo :: "nat option"
  gd_worker :: "nat option" \<comment> \<open>\<open>newQrBmp\<close> of \<open>RunAsyncJob\<close>\<close>
  gd_ui :: "nat option" \<comment> \<open>\<open>qrBmp\<close> of \<open>GetSerialization\<close>\<close>
  gd_copies :: "nat multiset" \<comment> \<open>\<open>copyBmp\<close> of a notification\<close>
  gd_given :: "nat multiset"
  gd_lost :: "nat multiset"

definition gdi_init :: gdi where
  "gdi_init = \<lparr>gd_next = 1, gd_live = {#}, gd_bad = False, gd_qr = None, gd_logo = None, gd_worker = None,
     gd_ui = None, gd_copies = {#}, gd_given = {#}, gd_lost = {#}\<rparr>"

definition new_bitmap :: "bool \<Rightarrow> gdi \<Rightarrow> nat option \<times> gdi" where
  "new_bitmap made g =
     (if made then (Some (gd_next g), g\<lparr>gd_next := gd_next g + 1, gd_live := add_mset (gd_next g) (gd_live g)\<rparr>)
      else (None, g))"

definition DeleteObject :: "nat \<Rightarrow> gdi \<Rightarrow> gdi" where
  "DeleteObject h g =
     (if h \<in># gd_live g then g\<lparr>gd_live := gd_live g - {#h#}\<rparr> else g\<lparr>gd_bad := True\<rparr>)"

definition delete_opt :: "nat option \<Rightarrow> gdi \<Rightarrow> gdi" where
  "delete_opt h g = (case h of None \<Rightarrow> g | Some h \<Rightarrow> DeleteObject h g)"

definition CopyImage :: "bool \<Rightarrow> nat \<Rightarrow> gdi \<Rightarrow> nat option \<times> gdi" where
  "CopyImage made h g = (if h \<in># gd_live g then new_bitmap made g else (None, g\<lparr>gd_bad := True\<rparr>))"

text \<open>\<open>CloneAlphaDIB\<close>: the bits can be read, a section is made; else the plain copy.\<close>

definition CloneAlpha :: "bool \<Rightarrow> bool \<Rightarrow> bool \<Rightarrow> nat option \<Rightarrow> gdi \<Rightarrow> nat option \<times> gdi" where
  "CloneAlpha dib sect copied src g =
     (case src of
        None \<Rightarrow> (None, g)
      | Some h \<Rightarrow>
          if h \<notin># gd_live g then (None, g\<lparr>gd_bad := True\<rparr>)
          else if dib \<and> sect then new_bitmap True g else CopyImage copied h g)"

definition shown_handle :: "gdi \<Rightarrow> nat option" where
  "shown_handle g = (case gd_qr g of None \<Rightarrow> gd_logo g | q \<Rightarrow> q)"

subsection \<open>The object\<close>

text \<open>\<open>Initialize\<close> stores a fresh logo; the handle it replaces, if there is one, is lost.\<close>

definition init_logo :: "bool \<Rightarrow> gdi \<Rightarrow> gdi" where
  "init_logo made g =
     (case new_bitmap made g of
        (logo, g) \<Rightarrow> g\<lparr>gd_logo := logo, gd_lost := gd_lost g + mset (case gd_logo g of None \<Rightarrow> [] | Some h \<Rightarrow> [h])\<rparr>)"

definition drop_qr :: "gdi \<Rightarrow> gdi" where
  "drop_qr g = (delete_opt (gd_qr g) g)\<lparr>gd_qr := None\<rparr>"

text \<open>\<open>GetBitmapValue\<close>: the copy is LogonUI's.\<close>

definition give_copy :: "bool \<Rightarrow> bool \<Rightarrow> bool \<Rightarrow> gdi \<Rightarrow> gdi" where
  "give_copy dib sect copied g =
     (case CloneAlpha dib sect copied (shown_handle g) g of
        (None, g) \<Rightarrow> g
      | (Some c, g) \<Rightarrow> g\<lparr>gd_given := add_mset c (gd_given g)\<rparr>)"

text \<open>\<open>SetTransparentLogo\<close>: the third events interface is asked for and takes the picture as PNG.\<close>

definition SetTransparentLogo :: "bool \<Rightarrow> hresult \<Rightarrow> hresult \<Rightarrow> hresult" where
  "SetTransparentLogo events qi sent = (if \<not> events then E_POINTER else if \<not> SUCCEEDED qi then qi else sent)"

text \<open>A notification of the logo, \<open>NotifyFieldChanged\<close> and \<open>NotifyQrChanged\<close>: under the lock a copy is
  made; afterwards it is deleted where the transparent logo was taken, given where the events
  interface gets it, and, in \<open>NotifyQrChanged\<close>, deleted where there is no such interface.\<close>

definition notify_copy :: "bool \<Rightarrow> gdi \<Rightarrow> (nat option \<times> bool) \<times> gdi" where
  "notify_copy copied g =
     (case shown_handle g of
        None \<Rightarrow> ((None, False), g)
      | Some h \<Rightarrow>
          (case CopyImage copied h g of
             (c, g') \<Rightarrow> ((c, gd_logo g = Some h), g'\<lparr>gd_copies := gd_copies g' + mset (case c of None \<Rightarrow> [] | Some c \<Rightarrow> [c])\<rparr>)))"

definition notify_finish :: "bool \<Rightarrow> hresult \<Rightarrow> hresult \<Rightarrow> bool \<Rightarrow> nat \<Rightarrow> gdi \<Rightarrow> gdi" where
  "notify_finish events qi sent defaultLogo c g =
     (let g = g\<lparr>gd_copies := gd_copies g - {#c#}\<rparr>
      in if \<not> events \<or> defaultLogo \<and> SUCCEEDED (SetTransparentLogo events qi sent) then DeleteObject c g
         else g\<lparr>gd_given := add_mset c (gd_given g)\<rparr>)"

text \<open>\<open>GetSerialization\<close> in passkey mode: the code is drawn without the lock and stored under it, null where
  it could not be drawn.\<close>

definition ui_draw :: "bool \<Rightarrow> gdi \<Rightarrow> gdi" where
  "ui_draw made g = (if gd_qr g = None then (case new_bitmap made g of (q, g) \<Rightarrow> g\<lparr>gd_ui := q\<rparr>) else g)"

definition ui_store :: "gdi \<Rightarrow> gdi" where
  "ui_store g = (delete_opt (gd_qr g) g)\<lparr>gd_qr := gd_ui g, gd_ui := None\<rparr>"

subsection \<open>The worker\<close>

definition worker_draw :: "bool \<Rightarrow> bool \<Rightarrow> gdi \<Rightarrow> gdi" where
  "worker_draw ok made g = (if ok then (case new_bitmap made g of (q, g) \<Rightarrow> g\<lparr>gd_worker := q\<rparr>) else g)"

definition worker_store :: "bool \<Rightarrow> bool \<Rightarrow> gdi \<Rightarrow> gdi" where
  "worker_store stop ok g =
     (if stop then g
      else if ok then (delete_opt (gd_qr g) g)\<lparr>gd_qr := gd_worker g, gd_worker := None\<rparr>
      else drop_qr g)"

definition worker_leave :: "gdi \<Rightarrow> gdi" where
  "worker_leave g = (delete_opt (gd_worker g) g)\<lparr>gd_worker := None\<rparr>"

definition worker_drop :: "bool \<Rightarrow> gdi \<Rightarrow> gdi" where
  "worker_drop stop g = (if stop then g else drop_qr g)"

subsection \<open>The destructor\<close>

text \<open>The worker has been joined and no call of LogonUI is running.\<close>

definition NotifyQr :: "bool \<Rightarrow> bool \<Rightarrow> hresult \<Rightarrow> hresult \<Rightarrow> gdi \<Rightarrow> gdi" where
  "NotifyQr copied events qi sent g =
     (case notify_copy copied g of
        ((None, _), g) \<Rightarrow> g
      | ((Some c, defaultLogo), g) \<Rightarrow> notify_finish events qi sent defaultLogo c g)"

definition ClearQr :: "bool \<Rightarrow> bool \<Rightarrow> hresult \<Rightarrow> hresult \<Rightarrow> gdi \<Rightarrow> gdi" where
  "ClearQr copied events qi sent g =
     (if gd_qr g \<noteq> None then NotifyQr copied events qi sent (drop_qr g) else g)"

definition destroy_bitmaps :: "bool \<Rightarrow> bool \<Rightarrow> hresult \<Rightarrow> hresult \<Rightarrow> gdi \<Rightarrow> gdi" where
  "destroy_bitmaps copied events qi sent g =
     (let g = ClearQr copied events qi sent g in (delete_opt (gd_logo g) g)\<lparr>gd_logo := None\<rparr>)"

text \<open>LogonUI deletes what it was given.\<close>

inductive gdi_step :: "gdi \<Rightarrow> gdi \<Rightarrow> bool" where
  initialize: "gdi_step g (init_logo made g)"
| get_value: "gdi_step g (give_copy dib sect copied g)"
| host_deletes: "c \<in># gd_given g \<Longrightarrow> gdi_step g (DeleteObject c (g\<lparr>gd_given := gd_given g - {#c#}\<rparr>))"
| notify: "gdi_step g (snd (notify_copy copied g))"
| notified: "c \<in># gd_copies g \<Longrightarrow> gdi_step g (notify_finish events qi sent defaultLogo c g)"
| clear: "gdi_step g (drop_qr g)"
| draws: "gd_ui g = None \<Longrightarrow> gdi_step g (ui_draw made g)"
| stores: "gdi_step g (ui_store g)"
| worker_draws: "gd_worker g = None \<Longrightarrow> gdi_step g (worker_draw ok made g)"
| worker_stores: "gdi_step g (worker_store stop ok g)"
| worker_leaves: "gdi_step g (worker_leave g)"
| worker_drops: "gdi_step g (worker_drop stop g)"

inductive gdi_reachable :: "gdi \<Rightarrow> bool" where
  gdi_start: "gdi_reachable gdi_init"
| gdi_next: "gdi_reachable g \<Longrightarrow> gdi_step g g' \<Longrightarrow> gdi_reachable g'"

subsection \<open>The ledger\<close>

definition opt_mset :: "nat option \<Rightarrow> nat multiset" where
  "opt_mset h = (case h of None \<Rightarrow> {#} | Some h \<Rightarrow> {#h#})"

definition owned_handles :: "gdi \<Rightarrow> nat multiset" where
  "owned_handles g = opt_mset (gd_qr g) + opt_mset (gd_logo g) + opt_mset (gd_worker g) + opt_mset (gd_ui g)
     + gd_copies g + gd_given g + gd_lost g"

definition gdi_inv :: "gdi \<Rightarrow> bool" where
  "gdi_inv g \<longleftrightarrow> gd_live g = owned_handles g \<and> \<not> gd_bad g \<and> (\<forall>h \<in># gd_live g. h < gd_next g)
     \<and> (\<forall>h. count (gd_live g) h \<le> 1)"


lemma opt_mset_simps [simp]: "opt_mset None = {#}" "opt_mset (Some h) = {#h#}"
  by (simp_all add: opt_mset_def)

lemmas gdi_defs = new_bitmap_def DeleteObject_def delete_opt_def CopyImage_def owned_handles_def

definition fresh_ledger :: "gdi \<Rightarrow> bool" where
  "fresh_ledger g \<longleftrightarrow> (\<forall>h \<in># gd_live g. h < gd_next g) \<and> (\<forall>h. count (gd_live g) h \<le> 1)"

text \<open>A new handle is a fresh one, and a deletion keeps the ledger.\<close>

lemma fresh_new: "fresh_ledger g \<Longrightarrow> fresh_ledger (snd (new_bitmap made g))"
  by (auto simp: fresh_ledger_def new_bitmap_def count_eq_zero_iff less_Suc_eq)

lemma fresh_delete: "fresh_ledger g \<Longrightarrow> fresh_ledger (DeleteObject h g)"
  by (auto simp: fresh_ledger_def DeleteObject_def dest: in_diffD intro: le_trans [OF diff_le_self])

lemma fresh_delete_opt: "fresh_ledger g \<Longrightarrow> fresh_ledger (delete_opt h g)"
  by (simp add: delete_opt_def fresh_delete split: option.split)

lemma fresh_upd [simp]:
  "fresh_ledger (g\<lparr>gd_qr := h\<rparr>) = fresh_ledger g" "fresh_ledger (g\<lparr>gd_logo := h\<rparr>) = fresh_ledger g"
  "fresh_ledger (g\<lparr>gd_worker := h\<rparr>) = fresh_ledger g" "fresh_ledger (g\<lparr>gd_ui := h\<rparr>) = fresh_ledger g"
  "fresh_ledger (g\<lparr>gd_copies := m\<rparr>) = fresh_ledger g" "fresh_ledger (g\<lparr>gd_given := m\<rparr>) = fresh_ledger g"
  "fresh_ledger (g\<lparr>gd_lost := m\<rparr>) = fresh_ledger g" "fresh_ledger (g\<lparr>gd_bad := b\<rparr>) = fresh_ledger g"
  by (simp_all add: fresh_ledger_def)

definition balanced :: "gdi \<Rightarrow> bool" where
  "balanced g \<longleftrightarrow> gd_live g = owned_handles g \<and> \<not> gd_bad g"

lemma gdi_inv_parts: "gdi_inv g \<longleftrightarrow> balanced g \<and> fresh_ledger g"
  by (auto simp: gdi_inv_def balanced_def fresh_ledger_def)

lemma shown_live: "balanced g \<Longrightarrow> shown_handle g = Some h \<Longrightarrow> h \<in># gd_live g"
  by (auto simp: balanced_def shown_handle_def owned_handles_def split: option.splits)

lemma init_logo_inv: "gdi_inv g \<Longrightarrow> gdi_inv (init_logo made g)"
  unfolding gdi_inv_parts using fresh_new [of g made]
  by (auto simp: init_logo_def balanced_def gdi_defs split: option.splits)

lemma drop_qr_inv: "gdi_inv g \<Longrightarrow> gdi_inv (drop_qr g)"
  unfolding gdi_inv_parts using fresh_delete_opt [of g "gd_qr g"]
  by (cases "gd_qr g") (simp_all add: drop_qr_def balanced_def gdi_defs)

lemma CopyImage_balanced:
  assumes "h \<in># gd_live g" "CopyImage made h g = (c, g')" "fresh_ledger g"
  shows "fresh_ledger g' \<and> gd_bad g' = gd_bad g \<and> gd_live g' = gd_live g + opt_mset c
    \<and> owned_handles g' = owned_handles g \<and> gd_copies g' = gd_copies g \<and> gd_given g' = gd_given g"
  using assms fresh_new [of g made] by (auto simp: gdi_defs split: if_splits)

lemma CloneAlpha_balanced:
  assumes "\<And>h. src = Some h \<Longrightarrow> h \<in># gd_live g" "CloneAlpha dib sect copied src g = (c, g')" "fresh_ledger g"
  shows "fresh_ledger g' \<and> gd_bad g' = gd_bad g \<and> gd_live g' = gd_live g + opt_mset c
    \<and> owned_handles g' = owned_handles g \<and> gd_given g' = gd_given g"
proof (cases src)
  case (Some h)
  with assms(1) have h: "h \<in># gd_live g" by simp
  show ?thesis
  proof (cases "dib \<and> sect")
    case True
    then show ?thesis using assms(2) Some h fresh_new [of g True] assms(3)
      by (auto simp: CloneAlpha_def gdi_defs)
  next
    case False
    then show ?thesis using assms(2) Some h CopyImage_balanced [OF h _ assms(3)] by (auto simp: CloneAlpha_def)
  qed
qed (use assms in \<open>simp add: CloneAlpha_def\<close>)

lemma give_copy_inv: "gdi_inv g \<Longrightarrow> gdi_inv (give_copy dib sect copied g)"
proof -
  assume i: "gdi_inv g"
  obtain c g' where c: "CloneAlpha dib sect copied (shown_handle g) g = (c, g')" by fastforce
  from i CloneAlpha_balanced [OF shown_live c] have
    "fresh_ledger g' \<and> gd_bad g' = gd_bad g \<and> gd_live g' = gd_live g + opt_mset c
      \<and> owned_handles g' = owned_handles g \<and> gd_given g' = gd_given g" by (simp add: gdi_inv_parts)
  then show ?thesis using i
    by (cases c) (auto simp: give_copy_def c gdi_inv_parts balanced_def owned_handles_def)
qed

lemma notify_copy_inv:
  assumes "gdi_inv g" "notify_copy copied g = ((c, d), g')"
  shows "gdi_inv g'" "opt_mset c \<subseteq># gd_copies g'"
proof -
  have "gdi_inv g' \<and> opt_mset c \<subseteq># gd_copies g'"
  proof (cases "shown_handle g")
    case (Some h)
    obtain k g1 where k: "CopyImage copied h g = (k, g1)" by fastforce
    have "h \<in># gd_live g" using assms(1) Some by (auto simp: gdi_inv_parts intro: shown_live)
    from CopyImage_balanced [OF this k] assms(1) have
      "fresh_ledger g1 \<and> gd_bad g1 = gd_bad g \<and> gd_live g1 = gd_live g + opt_mset k
        \<and> owned_handles g1 = owned_handles g \<and> gd_copies g1 = gd_copies g" by (simp add: gdi_inv_parts)
    then show ?thesis using assms Some
      by (cases k) (auto simp: notify_copy_def k gdi_inv_parts balanced_def owned_handles_def)
  qed (use assms in \<open>auto simp: notify_copy_def\<close>)
  then show "gdi_inv g'" "opt_mset c \<subseteq># gd_copies g'" by simp_all
qed

lemma notify_finish_inv:
  assumes "gdi_inv g" "c \<in># gd_copies g"
  shows "gdi_inv (notify_finish events qi sent defaultLogo c g)"
proof -
  obtain m where m: "gd_copies g = add_mset c m" using assms(2) by (metis mset_add)
  have "fresh_ledger (DeleteObject c (g\<lparr>gd_copies := m\<rparr>))"
    using assms(1) by (intro fresh_delete) (simp add: gdi_inv_parts)
  then show ?thesis using assms(1)
    by (auto simp: notify_finish_def m gdi_inv_parts balanced_def gdi_defs Let_def)
qed

lemma ui_inv: "gdi_inv g \<Longrightarrow> gd_ui g = None \<Longrightarrow> gdi_inv (ui_draw made g)" "gdi_inv g \<Longrightarrow> gdi_inv (ui_store g)"
  unfolding gdi_inv_parts using fresh_new [of g made] fresh_delete_opt [of g "gd_qr g"]
  by (auto simp: ui_draw_def ui_store_def balanced_def gdi_defs split: option.splits)

lemma worker_inv:
  "gdi_inv g \<Longrightarrow> gd_worker g = None \<Longrightarrow> gdi_inv (worker_draw ok made g)"
  "gdi_inv g \<Longrightarrow> gdi_inv (worker_store stop ok g)" "gdi_inv g \<Longrightarrow> gdi_inv (worker_leave g)"
  "gdi_inv g \<Longrightarrow> gdi_inv (worker_drop stop g)"
proof -
  assume i: "gdi_inv g"
  show "gdi_inv (worker_drop stop g)" using drop_qr_inv [OF i] i by (simp add: worker_drop_def)
  show "gdi_inv (worker_store stop ok g)"
    using i drop_qr_inv [OF i] fresh_delete_opt [of g "gd_qr g"]
    by (auto simp: worker_store_def gdi_inv_parts balanced_def gdi_defs split: option.splits)
  show "gdi_inv (worker_leave g)"
    using i fresh_delete_opt [of g "gd_worker g"]
    by (auto simp: worker_leave_def gdi_inv_parts balanced_def gdi_defs split: option.splits)
  show "gdi_inv (worker_draw ok made g)" if "gd_worker g = None"
    using i that fresh_new [of g made] by (auto simp: worker_draw_def gdi_inv_parts balanced_def gdi_defs)
qed

lemma host_deletes_inv:
  assumes "gdi_inv g" "c \<in># gd_given g"
  shows "gdi_inv (DeleteObject c (g\<lparr>gd_given := gd_given g - {#c#}\<rparr>))"
proof -
  obtain m where m: "gd_given g = add_mset c m" using assms(2) by (metis mset_add)
  have "fresh_ledger (DeleteObject c (g\<lparr>gd_given := m\<rparr>))"
    using assms(1) by (intro fresh_delete) (simp add: gdi_inv_parts)
  then show ?thesis using assms(1) by (auto simp: m gdi_inv_parts balanced_def gdi_defs)
qed

lemma notify_copy_snd_inv: "gdi_inv g \<Longrightarrow> gdi_inv (snd (notify_copy copied g))"
  using notify_copy_inv(1) [of g copied] by (metis surjective_pairing)

lemma gdi_step_inv: "gdi_step g g' \<Longrightarrow> gdi_inv g \<Longrightarrow> gdi_inv g'"
  by (induction rule: gdi_step.induct)
    (auto intro: init_logo_inv give_copy_inv host_deletes_inv notify_finish_inv drop_qr_inv ui_inv worker_inv notify_copy_snd_inv)

lemma gdi_reachable_inv: "gdi_reachable g \<Longrightarrow> gdi_inv g"
proof (induction rule: gdi_reachable.induct)
  case gdi_start
  show ?case by (simp add: gdi_inv_def gdi_init_def owned_handles_def)
qed (rule gdi_step_inv)


subsection \<open>The destructor\<close>

lemma NotifyQr_inv: "gdi_inv g \<Longrightarrow> gdi_inv (NotifyQr copied events qi sent g)"
proof -
  assume i: "gdi_inv g"
  obtain c d g' where n: "notify_copy copied g = ((c, d), g')" by (metis surjective_pairing)
  from notify_copy_inv [OF i n] show ?thesis
    by (cases c) (auto simp: NotifyQr_def n intro: notify_finish_inv)
qed

lemma NotifyQr_fields:
  "gd_qr (NotifyQr copied events qi sent g) = gd_qr g" "gd_logo (NotifyQr copied events qi sent g) = gd_logo g"
  "gd_worker (NotifyQr copied events qi sent g) = gd_worker g" "gd_ui (NotifyQr copied events qi sent g) = gd_ui g"
  "gd_lost (NotifyQr copied events qi sent g) = gd_lost g" "gd_copies (NotifyQr copied events qi sent g) = gd_copies g"
  by (auto simp: NotifyQr_def notify_copy_def notify_finish_def CopyImage_def new_bitmap_def DeleteObject_def Let_def
    split: option.splits)

lemma drop_qr_fields:
  "gd_qr (drop_qr g) = None" "gd_logo (drop_qr g) = gd_logo g" "gd_worker (drop_qr g) = gd_worker g"
  "gd_ui (drop_qr g) = gd_ui g" "gd_lost (drop_qr g) = gd_lost g" "gd_copies (drop_qr g) = gd_copies g"
  by (simp_all add: drop_qr_def delete_opt_def DeleteObject_def split: option.split)

lemma ClearQr_inv:
  assumes "gdi_inv g"
  shows "gdi_inv (ClearQr copied events qi sent g)" "gd_qr (ClearQr copied events qi sent g) = None"
    "gd_logo (ClearQr copied events qi sent g) = gd_logo g" "gd_worker (ClearQr copied events qi sent g) = gd_worker g"
    "gd_ui (ClearQr copied events qi sent g) = gd_ui g" "gd_lost (ClearQr copied events qi sent g) = gd_lost g"
    "gd_copies (ClearQr copied events qi sent g) = gd_copies g"
  using assms by (auto simp: ClearQr_def NotifyQr_fields drop_qr_fields intro: NotifyQr_inv drop_qr_inv)

lemma destroyed_bitmaps:
  assumes "gdi_inv g"
  shows "gd_live (destroy_bitmaps copied events qi sent g) = gd_given (destroy_bitmaps copied events qi sent g) + gd_lost g
      + opt_mset (gd_worker g) + opt_mset (gd_ui g) + gd_copies g"
    "\<not> gd_bad (destroy_bitmaps copied events qi sent g)"
    "gd_qr (destroy_bitmaps copied events qi sent g) = None" "gd_logo (destroy_bitmaps copied events qi sent g) = None"
proof -
  let ?c = "ClearQr copied events qi sent g"
  note c = ClearQr_inv [OF assms, of copied events qi sent]
  have "gd_live ?c = opt_mset (gd_logo ?c) + gd_given ?c + gd_lost g + opt_mset (gd_worker g) + opt_mset (gd_ui g) + gd_copies g"
    "\<not> gd_bad ?c"
    using c by (simp_all add: gdi_inv_parts balanced_def owned_handles_def ac_simps)
  then show "gd_live (destroy_bitmaps copied events qi sent g) = gd_given (destroy_bitmaps copied events qi sent g) + gd_lost g
      + opt_mset (gd_worker g) + opt_mset (gd_ui g) + gd_copies g"
    "\<not> gd_bad (destroy_bitmaps copied events qi sent g)"
    by (auto simp: destroy_bitmaps_def Let_def delete_opt_def DeleteObject_def split: option.split)
  show "gd_qr (destroy_bitmaps copied events qi sent g) = None" "gd_logo (destroy_bitmaps copied events qi sent g) = None"
    using c(2) by (auto simp: destroy_bitmaps_def Let_def delete_opt_def DeleteObject_def split: option.split)
qed

lemma destroy_bitmaps_ledger:
  assumes "gdi_inv g" "gd_worker g = None" "gd_ui g = None" "gd_copies g = {#}"
  shows "gd_live (destroy_bitmaps copied events qi sent g) = gd_given (destroy_bitmaps copied events qi sent g) + gd_lost g"
    "\<not> gd_bad (destroy_bitmaps copied events qi sent g)"
  using destroyed_bitmaps [OF assms(1)] assms(2-4) by simp_all

text \<open>C39. Every bitmap has one owner, whatever the two threads do in which order: none is deleted twice or
  copied after its end, LogonUI's copies are never the tile's, and the destructor leaves only those and
  the lost ones.\<close>

theorem tile_bitmaps_owned:
  assumes "gdi_reachable g"
  shows "gd_live g = owned_handles g \<and> \<not> gd_bad g \<and> (\<forall>h. count (owned_handles g) h \<le> 1)
    \<and> (gd_worker g = None \<and> gd_ui g = None \<and> gd_copies g = {#} \<longrightarrow>
         gd_live (destroy_bitmaps copied events qi sent g) = gd_given (destroy_bitmaps copied events qi sent g) + gd_lost g
         \<and> \<not> gd_bad (destroy_bitmaps copied events qi sent g))"
  using gdi_reachable_inv [OF assms] destroy_bitmaps_ledger [of g copied events qi sent] by (auto simp: gdi_inv_def)

text \<open>Handles get lost in one place only: \<open>Initialize\<close> on a tile that has its logo already, which is what
  \<open>SetUsageScenario\<close> does when the scenario changes.\<close>

lemma lost_primitives [simp]:
  "gd_lost (DeleteObject h g) = gd_lost g" "gd_lost (delete_opt x g) = gd_lost g"
  "gd_lost (snd (new_bitmap made g)) = gd_lost g" "gd_lost (snd (CopyImage made h g)) = gd_lost g"
  by (simp_all add: new_bitmap_def delete_opt_def DeleteObject_def CopyImage_def split: option.split)

lemma lost_CloneAlpha [simp]: "gd_lost (snd (CloneAlpha dib sect copied src g)) = gd_lost g"
  by (simp add: CloneAlpha_def split: option.split)

lemma lost_operations [simp]:
  "gd_lost (give_copy dib sect copied g) = gd_lost g"
  "gd_lost (snd (notify_copy copied g)) = gd_lost g"
  "gd_lost (notify_finish events qi sent d c g) = gd_lost g"
  "gd_lost (drop_qr g) = gd_lost g" "gd_lost (ui_draw made g) = gd_lost g" "gd_lost (ui_store g) = gd_lost g"
  "gd_lost (worker_draw ok made g) = gd_lost g" "gd_lost (worker_store stop ok g) = gd_lost g"
  "gd_lost (worker_leave g) = gd_lost g" "gd_lost (worker_drop stop g) = gd_lost g"
proof -
  show "gd_lost (give_copy dib sect copied g) = gd_lost g"
    using lost_CloneAlpha [of dib sect copied "shown_handle g" g]
    by (auto simp: give_copy_def simp del: lost_CloneAlpha split: prod.split option.split)
  show "gd_lost (snd (notify_copy copied g)) = gd_lost g"
  proof (cases "shown_handle g")
    case (Some h)
    then show ?thesis using lost_primitives(4) [of copied h g]
      by (auto simp: notify_copy_def simp del: lost_primitives split: prod.split)
  qed (simp add: notify_copy_def)
  show "gd_lost (ui_draw made g) = gd_lost g" "gd_lost (worker_draw ok made g) = gd_lost g"
    by (simp_all add: ui_draw_def worker_draw_def new_bitmap_def)
qed (simp_all add: notify_finish_def drop_qr_def ui_store_def worker_store_def worker_leave_def worker_drop_def Let_def)

lemma only_initialize_loses:
  assumes "gdi_step g g'"
  shows "gd_lost g' = gd_lost g \<or> (\<exists>made h. g' = init_logo made g \<and> gd_logo g = Some h \<and> gd_lost g' = add_mset h (gd_lost g))"
  using assms
proof (cases rule: gdi_step.cases)
  case (initialize made)
  then show ?thesis by (cases "gd_logo g") (auto simp: init_logo_def new_bitmap_def)
qed simp_all

definition initialized_twice :: gdi where
  "initialized_twice = init_logo True (init_logo True gdi_init)"

lemma initialized_twice_reachable: "gdi_reachable initialized_twice"
  unfolding initialized_twice_def by (rule gdi_next [OF gdi_next [OF gdi_start initialize] initialize])

lemma initialized_twice_values:
  "gd_lost initialized_twice = {#1#}" "gd_logo initialized_twice = Some 2" "gd_worker initialized_twice = None"
  "gd_ui initialized_twice = None" "gd_copies initialized_twice = {#}" "gd_given initialized_twice = {#}"
  "gd_qr initialized_twice = None"
  by (simp_all add: initialized_twice_def init_logo_def new_bitmap_def gdi_init_def)

lemma reinitialised_tile_loses_logo:
  "gd_live (destroy_bitmaps copied events qi sent initialized_twice) = {#1#}"
  by (simp add: destroy_bitmaps_def ClearQr_def initialized_twice_def init_logo_def new_bitmap_def gdi_init_def
    delete_opt_def DeleteObject_def Let_def)

theorem tile_bitmaps_owned_witness: "gd_live initialized_twice = {#1, 2#}"
  using tile_bitmaps_owned [OF initialized_twice_reachable] by (simp add: owned_handles_def initialized_twice_values)

end
