(* ===== verification/TileEnd.thy ===== *)
theory TileEnd
  imports TileBitmaps ComEvents CredentialSerialization
begin

text \<open>
  The end of the tile, \<open>credential_provider/LigamentCredential.cpp\<close>: its reference count, the destructor as
  a whole, the erasure of secrets in their buffers, the two process-wide caches, the worker thread's
  frame, and what \<open>ReportResult\<close> writes to the log.

  The destructor joins what other theories have in parts: the fields (\<open>Credential\<close>), the references and
  cookies of LogonUI's interfaces (\<open>ComEvents\<close>) and the bitmaps (\<open>TileBitmaps\<close>).
\<close>

subsection \<open>Secrets in their buffers\<close>

text \<open>A \<open>std::wstring\<close> as memory: the cells of its buffer and the length of the text, which a zero ends.
  An assignment keeps a buffer that is large enough.\<close>

record wbuf =
  wb_cells :: wstr
  wb_size :: nat

definition wb_text :: "wbuf \<Rightarrow> wstr" where "wb_text b = take (wb_size b) (wb_cells b)"

definition wb_assign :: "wstr \<Rightarrow> wbuf \<Rightarrow> wbuf" where
  "wb_assign s b =
     \<lparr>wb_cells = (if length s < length (wb_cells b) then s @ 0 # drop (length s + 1) (wb_cells b) else s @ [0]),
      wb_size = length s\<rparr>"

definition SecureWipe :: "wbuf \<Rightarrow> wbuf" where
  "SecureWipe b =
     (if wb_size b = 0 then b
      else \<lparr>wb_cells = replicate (wb_size b) 0 @ drop (wb_size b) (wb_cells b), wb_size = 0\<rparr>)"

lemma wb_assign_text: "wb_text (wb_assign s b) = s"
  by (simp add: wb_text_def wb_assign_def)

text \<open>What the buffer holds as its text is erased.\<close>

lemma SecureWipe_erases:
  "wb_text (SecureWipe b) = []" "wb_size b \<le> length (wb_cells b) \<Longrightarrow>
   take (wb_size b) (wb_cells (SecureWipe b)) = replicate (wb_size b) 0"
  by (auto simp: SecureWipe_def wb_text_def)

text \<open>What an earlier, longer text has left behind the end of a shorter one is not.\<close>

lemma SecureWipe_leaves_earlier_text:
  assumes "0 < length short" "length short < length long"
  shows "drop (length short + 1) (take (length long) (wb_cells (SecureWipe (wb_assign short (wb_assign long b)))))
    = drop (length short + 1) long"
proof -
  obtain rest where c: "wb_cells (wb_assign long b) = long @ 0 # rest" by (cases "length long < length (wb_cells b)") (auto simp: wb_assign_def)
  have "wb_cells (SecureWipe (wb_assign short (wb_assign long b)))
      = replicate (length short) 0 @ 0 # drop (length short + 1) (long @ 0 # rest)"
    using assms c by (simp add: SecureWipe_def wb_assign_def [of short])
  then show ?thesis using assms by (simp add: take_Cons' drop_take)
qed

subsection \<open>Interfaces and references\<close>

datatype tile_iid = IID_Unknown | IID_Credential | IID_Credential2 | IID_Credential3 | IID_Other

definition tile_QueryInterface :: "tile_iid \<Rightarrow> nat \<Rightarrow> hresult \<times> nat" where
  "tile_QueryInterface riid m_cRef = (if riid = IID_Other then (E_NOINTERFACE, m_cRef) else (S_OK, m_cRef + 1))"

text \<open>The events interface and its answers that the destructor meets.\<close>

record end_env =
  ee_ui :: ui_env
  ee_git :: bool
  ee_copied :: bool
  ee_qi :: hresult
  ee_sent :: hresult

text \<open>The tile with its count.  The fields, the interfaces and the bitmaps are each in the state of their
  theory, which has more of them than the fields tell: the object has an events interface where the
  slot has a pointer, and a picture where the ledger has a handle.\<close>

record tile_object =
  to_tile :: LigamentCredential
  to_events :: ev_state
  to_bitmaps :: gdi
  to_refs :: nat
  to_alive :: bool
  to_dllRefs :: int

definition views_agree :: "tile_object \<Rightarrow> bool" where
  "views_agree o' \<longleftrightarrow>
     m_pEvents (to_tile o') = (sl_ptr (ev_tile (to_events o')) \<noteq> None)
     \<and> m_pProviderEvents (to_tile o') = (sl_ptr (ev_tileProvider (to_events o')) \<noteq> None)
     \<and> (m_hQrBmp (to_tile o') = None) = (gd_qr (to_bitmaps o') = None)
     \<and> (m_hDefaultLogoBmp (to_tile o') = None) = (gd_logo (to_bitmaps o') = None)"

definition delete_tile :: "end_env \<Rightarrow> tile_object \<Rightarrow> tile_object" where
  "delete_tile e o' =
     (let c = ClearQrBitmap (ee_ui e) (StopPollThread (to_tile o'));
          c = c\<lparr>m_hDefaultLogoBmp := None, m_pEvents := False, m_pProviderEvents := False\<rparr>;
          c = (if m_password c = [] then c else c\<lparr>m_password := []\<rparr>);
          c = (if m_otpCode c = [] then c else c\<lparr>m_otpCode := []\<rparr>)
      in o'\<lparr>to_tile := c,
           to_bitmaps := destroy_bitmaps (ee_copied e) (m_pEvents (to_tile o')) (ee_qi e) (ee_sent e) (to_bitmaps o'),
           to_events := destroy_events (ee_git e) (to_events o'),
           to_alive := False, to_dllRefs := to_dllRefs o' - 1\<rparr>)"

definition tile_AddRef :: "tile_object \<Rightarrow> tile_object" where
  "tile_AddRef o' = o'\<lparr>to_refs := to_refs o' + 1\<rparr>"

definition tile_Release :: "end_env \<Rightarrow> tile_object \<Rightarrow> tile_object" where
  "tile_Release e o' =
     (let o1 = o'\<lparr>to_refs := to_refs o' - 1\<rparr>
      in if to_refs o1 = 0 then delete_tile e o1 else o1)"

text \<open>The fields that hold a secret, the worker's copies included.\<close>

definition secrets :: "LigamentCredential \<Rightarrow> wstr list" where
  "secrets c = [m_password c, m_otpCode c, m_jobPass c, m_jobOtp c]"

lemma ClearQrBitmap_secrets: "secrets (ClearQrBitmap ue c) = secrets c"
  "m_hPollThread (ClearQrBitmap ue c) = m_hPollThread c" "m_worker (ClearQrBitmap ue c) = m_worker c"
  "m_hQrBmp (ClearQrBitmap ue c) = None"
  by (auto simp: ClearQrBitmap_def NotifyQrChanged_def emit_def secrets_def Let_def split: if_splits)

lemma delete_tile_secrets:
  "secrets (to_tile (delete_tile e o')) = [[], [], [], []]" "\<not> m_hPollThread (to_tile (delete_tile e o'))"
  "m_hQrBmp (to_tile (delete_tile e o')) = None" "m_hDefaultLogoBmp (to_tile (delete_tile e o')) = None"
proof -
  let ?c = "ClearQrBitmap (ee_ui e) (StopPollThread (to_tile o'))"
  have "m_jobPass ?c = []" "m_jobOtp ?c = []" "\<not> m_hPollThread ?c" "m_hQrBmp ?c = None"
    using ClearQrBitmap_secrets [of "ee_ui e" "StopPollThread (to_tile o')"]
    by (simp_all add: secrets_def StopPollThread_def JoinPollThread_def)
  then show "secrets (to_tile (delete_tile e o')) = [[], [], [], []]" "\<not> m_hPollThread (to_tile (delete_tile e o'))"
    "m_hQrBmp (to_tile (delete_tile e o')) = None" "m_hDefaultLogoBmp (to_tile (delete_tile e o')) = None"
    by (simp_all add: delete_tile_def secrets_def Let_def)
qed

text \<open>C38. The last reference ends the tile, in every state of its interfaces and bitmaps: no worker runs, no
  secret is left in its fields, and none of its pointers.  Both interfaces it was given are released and
  unregistered, so that the references left are the provider's own and those of notifications under way.
  Both its bitmaps are deleted, none twice, so that those left are LogonUI's, those a thread has drawn and
  not stored, the copies of notifications under way, and the lost ones.  A reference before the last
  changes nothing but the count.\<close>

theorem last_release_ends_tile:
  assumes "ev_reachable (ee_git e) (to_events o')" "gdi_reachable (to_bitmaps o')" "to_alive o'" "0 < to_refs o'"
    and "o1 = tile_Release e o'"
  shows "if to_refs o' = 1
    then \<not> to_alive o1 \<and> to_dllRefs o1 = to_dllRefs o' - 1
      \<and> secrets (to_tile o1) = [[], [], [], []] \<and> \<not> m_hPollThread (to_tile o1)
      \<and> views_agree o1 \<and> \<not> m_pEvents (to_tile o1) \<and> \<not> m_pProviderEvents (to_tile o1)
      \<and> gd_qr (to_bitmaps o1) = None \<and> gd_logo (to_bitmaps o1) = None
      \<and> ev_git (to_events o1) = Map.empty
      \<and> (\<forall>i. ev_refs (to_events o1) i = count_list (opt_list (ev_provider (to_events o')) @ flights (to_events o')) i)
      \<and> gd_live (to_bitmaps o1) = gd_given (to_bitmaps o1) + gd_lost (to_bitmaps o')
          + opt_mset (gd_worker (to_bitmaps o')) + opt_mset (gd_ui (to_bitmaps o')) + gd_copies (to_bitmaps o')
      \<and> \<not> gd_bad (to_bitmaps o1)
    else o1 = o'\<lparr>to_refs := to_refs o' - 1\<rparr>"
proof (cases "to_refs o' = 1")
  case True
  let ?o = "o'\<lparr>to_refs := to_refs o' - 1\<rparr>"
  have r: "o1 = delete_tile e ?o" using True assms(5) by (simp add: tile_Release_def)
  have b: "to_bitmaps o1 = destroy_bitmaps (ee_copied e) (m_pEvents (to_tile o')) (ee_qi e) (ee_sent e) (to_bitmaps o')"
    "to_events o1 = destroy_events (ee_git e) (to_events o')"
    "\<not> to_alive o1" "to_dllRefs o1 = to_dllRefs o' - 1" "\<not> m_pEvents (to_tile o1)" "\<not> m_pProviderEvents (to_tile o1)"
    by (simp_all add: r delete_tile_def Let_def)
  note t = delete_tile_secrets [of e ?o, folded r]
  from t destroyed_bitmaps [OF gdi_reachable_inv [OF assms(2)]]
    destroyed_events [OF ev_reachable_inv [OF assms(1)]] True
  show ?thesis by (simp add: b views_agree_def)
qed (use assms(4,5) in \<open>simp add: tile_Release_def\<close>)

text \<open>The witness: the provider still has its events and the tile a proxy of them.\<close>

definition ending_tile :: tile_object where
  "ending_tile = \<lparr>to_tile = LigamentCredential_new\<lparr>m_password := [112, 119], m_jobPass := [112], m_pProviderEvents := True\<rparr>,
     to_events = events_Advise True True (Some 5) (Some 7) ev_init, to_bitmaps = init_logo True gdi_init, to_refs = 1,
     to_alive = True, to_dllRefs = 3\<rparr>"

definition end_env_example :: end_env where
  "end_env_example = \<lparr>ee_ui = \<lparr>ue_pcName = [], ue_events3 = True, ue_copyImage = True, ue_createThread = True,
     ue_qr = (\<lambda>_. None), ue_logo = None\<rparr>, ee_git = True, ee_copied = True, ee_qi = S_OK, ee_sent = S_OK\<rparr>"

theorem last_release_ends_tile_witness:
  "ev_refs (to_events ending_tile) 7 = 2 \<and> ev_refs (to_events (tile_Release end_env_example ending_tile)) 7 = 1
   \<and> secrets (to_tile ending_tile) = [[112, 119], [], [112], []]
   \<and> secrets (to_tile (tile_Release end_env_example ending_tile)) = [[], [], [], []]"
proof -
  have g: "gdi_reachable (to_bitmaps ending_tile)"
    by (simp add: ending_tile_def gdi_next [OF gdi_start initialize])
  have r: "ev_reachable (ee_git end_env_example) (to_events ending_tile)"
    by (simp add: ending_tile_def end_env_example_def)
      (intro ev_provider_advise ev_start, simp add: fresh_cookie_def ev_init_def tileProvider_world_def no_slot_def revoke_def)
  have v: "ev_provider (to_events ending_tile) = Some 7" "flights (to_events ending_tile) = []"
    "ev_refs (to_events ending_tile) 7 = 2"
    by (simp_all add: ending_tile_def events_Advise_def tile_SetProviderEvents_def advise_slot_def revoke_def Let_def
        tileProvider_world_def put_tileProvider_def ev_init_def no_slot_def AddRef_def ReleaseRef_def flights_def)
  have f: "to_alive ending_tile" "to_refs ending_tile = 1" "secrets (to_tile ending_tile) = [[112, 119], [], [112], []]"
    by (simp_all add: ending_tile_def secrets_def LigamentCredential_new_def)
  from last_release_ends_tile [OF r g _ _ refl] f v show ?thesis by (simp add: opt_list_def)
qed

text \<open>Every interface the table knows costs the client a reference to give back.\<close>

lemma tile_QueryInterface_counts:
  "tile_QueryInterface riid n = (hr, n') \<Longrightarrow> n' = (if SUCCEEDED hr then n + 1 else n)"
  by (auto simp: tile_QueryInterface_def SUCCEEDED_def split: if_splits)

subsection \<open>Caches of the process\<close>

text \<open>\<open>GetGIT\<close> asks COM once; a failure is kept as well.\<close>

record git_cache =
  gc_init :: bool
  gc_table :: bool

definition GetGIT :: "bool \<Rightarrow> git_cache \<Rightarrow> bool \<times> git_cache" where
  "GetGIT created s =
     (if gc_init s then (gc_table s, s)
      else (let s = s\<lparr>gc_init := True\<rparr>; s = s\<lparr>gc_table := created\<rparr> in (gc_table s, s)))"

lemma GetGIT_stays:
  "GetGIT b1 s = (t1, s1) \<Longrightarrow> GetGIT b2 s1 = (t1, s1)"
  by (auto simp: GetGIT_def Let_def split: if_splits)

definition ComputerNameSuffix :: "wstr option \<Rightarrow> wstr option \<Rightarrow> wstr \<times> wstr option" where
  "ComputerNameSuffix GetComputerName cached =
     (case cached of
        Some n \<Rightarrow> (n, cached)
      | None \<Rightarrow> (let n = (case GetComputerName of None \<Rightarrow> [] | Some nb \<Rightarrow> nb) in (n, Some n)))"

lemma ComputerNameSuffix_stays:
  "ComputerNameSuffix a c = (n, c') \<Longrightarrow> ComputerNameSuffix b c' = (n, c')"
  by (auto simp: ComputerNameSuffix_def Let_def split: option.splits)

subsection \<open>The worker thread\<close>

datatype thread_call = CoInitializeEx | RunAsyncJob | CoUninitialize

definition WorkerThreadProc :: "hresult \<Rightarrow> thread_call list" where
  "WorkerThreadProc hrCom = [CoInitializeEx, RunAsyncJob] @ (if SUCCEEDED hrCom then [CoUninitialize] else [])"

subsection \<open>The log of a reported result\<close>

datatype report_line =
    RlCodes u32 u32 | RlStatus string | RlStatusUnknown | RlSubDecimal nat | RlSub string | RlSubUnknown
  | RlEnv wstr wstr | RlProbeOk string wstr | RlProbeFail string | RlProbeNone

text \<open>Names of the codes, as they stand in the messages.\<close>

definition status_names :: "(u32 \<times> string) list" where
  "status_names =
     [(0xC0000064, ''STATUS_NO_SUCH_USER''), (0xC000006A, ''STATUS_WRONG_PASSWORD''),
      (0xC000006D, ''STATUS_LOGON_FAILURE''), (0xC0000072, ''STATUS_ACCOUNT_DISABLED''),
      (0xC0000234, ''STATUS_ACCOUNT_LOCKED_OUT''), (0xC0000071, ''STATUS_PASSWORD_EXPIRED''),
      (0xC0000193, ''STATUS_ACCOUNT_EXPIRED''), (0xC0000022, ''STATUS_ACCESS_DENIED''),
      (0xC000006E, ''STATUS_ACCOUNT_RESTRICTION''), (0xC00000E5, ''STATUS_INTERNAL_ERROR'')]"

definition substatus_names :: "(u32 \<times> string) list" where
  "substatus_names =
     [(0xC000005E, ''STATUS_LOGON_TYPE_NOT_GRANTED''), (0xC0000064, ''STATUS_NO_SUCH_USER''),
      (0xC000006A, ''STATUS_WRONG_PASSWORD''), (0xC0000071, ''STATUS_PASSWORD_EXPIRED''),
      (0xC0000072, ''STATUS_ACCOUNT_DISABLED''), (0xC0000234, ''STATUS_ACCOUNT_LOCKED_OUT''),
      (0xC000015B, ''STATUS_LOGON_TYPE_NOT_GRANTED(015B)''), (0xC000006E, ''STATUS_ACCOUNT_RESTRICTION''),
      (0xC00000E5, ''STATUS_INTERNAL_ERROR'')]"

definition status_lines :: "u32 \<Rightarrow> u32 \<Rightarrow> report_line list" where
  "status_lines ntsStatus ntsSubstatus =
     [RlCodes ntsStatus ntsSubstatus]
     @ (if ntsStatus = 0 then [] else [case map_of status_names ntsStatus of None \<Rightarrow> RlStatusUnknown | Some n \<Rightarrow> RlStatus n])
     @ [RlSubDecimal (unat ntsSubstatus)]
     @ (if ntsSubstatus = 0 then []
        else [case map_of substatus_names ntsSubstatus of None \<Rightarrow> RlSubUnknown | Some n \<Rightarrow> RlSub n])"

fun probe_lines :: "(wstr \<Rightarrow> bool) \<Rightarrow> (string \<times> wstr) list \<Rightarrow> report_line list \<times> bool" where
  "probe_lines logon [] = ([], False)"
| "probe_lines logon ((n, d) # ds) =
     (if d = [] then probe_lines logon ds
      else if logon d then ([RlProbeOk n d], True)
      else (case probe_lines logon ds of (ls, ok) \<Rightarrow> (RlProbeFail n # ls, ok)))"

definition report_lines :: "machine_facts \<Rightarrow> (wstr \<Rightarrow> bool) \<Rightarrow> u32 \<Rightarrow> u32 \<Rightarrow> LigamentCredential \<Rightarrow> report_line list" where
  "report_lines mf logon ntsStatus ntsSubstatus c =
     status_lines ntsStatus ntsSubstatus
     @ (if samProbeEnabled (m_config c) \<and> ntsStatus \<noteq> 0 \<and> m_password c \<noteq> [] \<and> m_username c \<noteq> []
        then (case GetMachineNames mf of (nb, dd) \<Rightarrow>
                case probe_lines logon [(''local(.)'', [46]), (''machine'', nb), (''domain'', dd)] of
                  (ls, anyOk) \<Rightarrow> RlEnv nb dd # ls @ (if anyOk then [] else [RlProbeNone]))
        else [])"

text \<open>The lines report one line for each probe made, and are the same for every password for which the
  probes answer the same.\<close>

lemma probe_lines_probes: "length (fst (probe_lines logon ds)) = length (sam_probe_loop logon (map snd ds))"
  by (induction logon ds rule: probe_lines.induct) (auto split: prod.split)

lemma report_lines_secret_free:
  assumes "p \<noteq> []" "m_password c \<noteq> []"
  shows "report_lines mf logon st sub (c\<lparr>m_password := p, m_otpCode := q\<rparr>) = report_lines mf logon st sub c"
  using assms by (simp add: report_lines_def)

lemma report_lines_without_probes:
  "\<not> samProbeEnabled (m_config c) \<Longrightarrow> report_lines mf logon st sub c = status_lines st sub \<and> sam_probes mf logon st c = []"
  by (simp add: report_lines_def sam_probes_def)

end
