(* ===== verification/ServiceLog.thy ===== *)
theory ServiceLog
  imports LogUtils Service
begin

text \<open>
  The log of the watchdog service and its entry, \<open>service/service.cpp\<close>: \<open>LogLine\<close> with its cached path,
  \<open>Log\<close>, and \<open>wmain\<close>.

  The state is the two static variables of \<open>LogLine\<close>, the directories asked for, and the log behind each
  path.  A path that outgrows its buffer, or a line that outgrows its own, ends the process through
  the invalid-parameter handler; such a result is \<open>None\<close>.
\<close>

subsection \<open>The path\<close>

definition ligament_dir :: wstr where "ligament_dir = wide (CHR 92 # ''Ligament'')"
definition service_log_name :: wstr where "service_log_name = wide (CHR 92 # ''service.log'')"

record service_log =
  sl_path :: wstr \<comment> \<open>\<open>s_path\<close>, empty until it is known\<close>
  sl_disabled :: bool
  sl_dirs :: "(wstr \<times> bool) list" \<comment> \<open>directories asked for, and whether with the access list\<close>
  sl_logs :: "wstr \<Rightarrow> text_log"

record service_log_io =
  so_folder :: "wstr option" \<comment> \<open>the common application data folder\<close>
  so_acl :: bool \<comment> \<open>whether the descriptor could be made\<close>
  so_text :: text_io

definition service_log_init :: "(wstr \<Rightarrow> text_log) \<Rightarrow> service_log" where
  "service_log_init logs = \<lparr>sl_path = [], sl_disabled = False, sl_dirs = [], sl_logs = logs\<rparr>"

definition wcscat_s :: "wstr \<Rightarrow> wstr \<Rightarrow> wstr option" where
  "wcscat_s a b = (if length a + length b < MAX_PATH then Some (a @ b) else None)"

definition append_service_line :: "text_io \<Rightarrow> service_log \<Rightarrow> service_log" where
  "append_service_line e s = s\<lparr>sl_logs := (sl_logs s)(sl_path s := AppendUtf8LogLine e (sl_logs s (sl_path s)))\<rparr>"

definition LogLine :: "service_log_io \<Rightarrow> service_log \<Rightarrow> service_log option" where
  "LogLine e s =
     (if sl_disabled s then Some s
      else if sl_path s \<noteq> [] then Some (append_service_line (so_text e) s)
      else case so_folder e of
        None \<Rightarrow> Some (s\<lparr>sl_disabled := True\<rparr>)
      | Some folder \<Rightarrow> (case wcscat_s folder ligament_dir of
          None \<Rightarrow> None
        | Some dir \<Rightarrow> (case wcscat_s dir service_log_name of
            None \<Rightarrow> None
          | Some path \<Rightarrow>
              Some (append_service_line (so_text e) (s\<lparr>sl_dirs := sl_dirs s @ [(dir, so_acl e)], sl_path := path\<rparr>)))))"

text \<open>\<open>utf8\<close>: the conversion of the line, of which the answers of the file calls say how much is written.\<close>

definition service_Log :: "(wstr \<Rightarrow> bytes) \<Rightarrow> line_env \<Rightarrow> wstr \<Rightarrow> service_log_io \<Rightarrow> service_log \<Rightarrow> service_log option" where
  "service_Log utf8 t msg e s = (case service_line t msg of
     None \<Rightarrow> None
   | Some line \<Rightarrow> LogLine (e\<lparr>so_text := (so_text e)\<lparr>tx_bytes := utf8 line\<rparr>\<rparr>) s)"

fun service_logs :: "service_log_io list \<Rightarrow> service_log \<Rightarrow> service_log option" where
  "service_logs [] s = Some s"
| "service_logs (e # es) s = (case LogLine e s of None \<Rightarrow> None | Some s \<Rightarrow> service_logs es s)"

subsection \<open>The entry\<close>

datatype wmain_result = ConsolePolicy bool | Dispatched | NotDispatched

definition wmain_code :: "wmain_result \<Rightarrow> nat" where
  "wmain_code r = (if r = NotDispatched then 1 else 0)"

text \<open>\<open>dispatch\<close>: what the control dispatcher does, in which the service runs and logs; \<open>None\<close> if the
  process ends there.  \<open>log\<close>: the effect of \<open>Log\<close> with a formatted message, \<open>err\<close>: the last error.\<close>

definition wmain ::
    "wstr list \<Rightarrow> registry \<Rightarrow> (service_log \<Rightarrow> (bool \<times> service_log) option) \<Rightarrow> (wstr \<Rightarrow> service_log \<Rightarrow> service_log option)
     \<Rightarrow> u32 \<Rightarrow> service_log \<Rightarrow> (wmain_result \<times> service_log) option" where
  "wmain argv reg dispatch log err s =
     (if length argv > 1 \<and> argv ! 1 = wide ''--console'' then Some (ConsolePolicy (PolicyAllowExit reg), s)
      else case dispatch s of
        None \<Rightarrow> None
      | Some (ok, s) \<Rightarrow>
          if ok then Some (Dispatched, s)
          else map_option (Pair NotDispatched)
                 (log (wide (''StartServiceCtrlDispatcherW failed '' @ digits_of (unat err))) s))"

subsection \<open>One log\<close>

lemma ligament_dir_length [simp]: "length ligament_dir = 9" "length service_log_name = 12"
  by (simp_all add: ligament_dir_def service_log_name_def wide_def)

lemma service_log_name_nonempty [simp]: "service_log_name \<noteq> []"
  by (simp add: service_log_name_def wide_def)

lemma append_service_line_fields [simp]:
  "sl_path (append_service_line e s) = sl_path s" "sl_disabled (append_service_line e s) = sl_disabled s"
  "sl_dirs (append_service_line e s) = sl_dirs s"
  "sl_logs (append_service_line e s) q = (if q = sl_path s then AppendUtf8LogLine e (sl_logs s q) else sl_logs s q)"
  by (simp_all add: append_service_line_def)

lemma wcscat_s_Some: "wcscat_s a b = Some c \<longleftrightarrow> c = a @ b \<and> length a + length b < MAX_PATH"
  by (auto simp: wcscat_s_def)

text \<open>What one call does: nothing any more, the end of logging, a line to the known file, or the first
  line to the file below the folder, whose directory has just been asked for.\<close>

lemma LogLine_cases:
  assumes "LogLine e s = Some s'"
  obtains (off) "sl_disabled s" "s' = s"
  | (known) "\<not> sl_disabled s" "sl_path s \<noteq> []" "s' = append_service_line (so_text e) s"
  | (fails) "\<not> sl_disabled s" "sl_path s = []" "so_folder e = None" "s' = s\<lparr>sl_disabled := True\<rparr>"
  | (first) folder where "\<not> sl_disabled s" "sl_path s = []" "so_folder e = Some folder" "length folder + 21 < MAX_PATH"
      "s' = append_service_line (so_text e) (s\<lparr>sl_dirs := sl_dirs s @ [(folder @ ligament_dir, so_acl e)],
              sl_path := folder @ ligament_dir @ service_log_name\<rparr>)"
  using assms that by (auto simp: LogLine_def wcscat_s_Some split: if_splits option.splits)

lemma LogLine_path_kept: "LogLine e s = Some s' \<Longrightarrow> sl_path s \<noteq> [] \<Longrightarrow> sl_path s' = sl_path s"
  by (erule LogLine_cases) simp_all

lemma service_logs_Cons:
  assumes "service_logs (e # es) s = Some s'"
  obtains s1 where "LogLine e s = Some s1" "service_logs es s1 = Some s'"
  using assms by (auto split: option.splits)

lemma service_logs_path_kept: "service_logs es s = Some s' \<Longrightarrow> sl_path s \<noteq> [] \<Longrightarrow> sl_path s' = sl_path s"
proof (induction es arbitrary: s)
  case (Cons e es)
  from Cons.prems(1) obtain s1 where "LogLine e s = Some s1" "service_logs es s1 = Some s'" by (rule service_logs_Cons)
  with Cons.IH [of s1] LogLine_path_kept [of e s s1] Cons.prems(2) show ?case by simp
qed simp

text \<open>The service writes to one file: whatever the folder query answers later, every other log stays
  as it was, and the directory is asked for once.\<close>

definition service_log_inv :: "service_log \<Rightarrow> bool" where
  "service_log_inv s \<longleftrightarrow> (sl_path s = [] \<and> sl_dirs s = [])
     \<or> (\<exists>folder a. sl_path s = folder @ ligament_dir @ service_log_name \<and> sl_dirs s = [(folder @ ligament_dir, a)]
          \<and> length (sl_path s) < MAX_PATH \<and> \<not> sl_disabled s)"

lemma LogLine_inv: "LogLine e s = Some s' \<Longrightarrow> service_log_inv s \<Longrightarrow> service_log_inv s'"
  by (erule LogLine_cases) (auto simp: service_log_inv_def)

lemma service_logs_inv: "service_logs es s = Some s' \<Longrightarrow> service_log_inv s \<Longrightarrow> service_log_inv s'"
proof (induction es arbitrary: s)
  case (Cons e es)
  from Cons.prems(1) obtain s1 where "LogLine e s = Some s1" "service_logs es s1 = Some s'" by (rule service_logs_Cons)
  with Cons.IH [of s1] LogLine_inv [of e s s1] Cons.prems(2) show ?case by simp
qed simp

lemma service_log_single_file:
  assumes "service_logs es s = Some s'" "service_log_inv s" "q \<noteq> sl_path s'"
  shows "sl_logs s' q = sl_logs s q"
  using assms
proof (induction es arbitrary: s)
  case (Cons e es)
  from Cons.prems(1) obtain s1 where s1: "LogLine e s = Some s1" "service_logs es s1 = Some s'" by (rule service_logs_Cons)
  have "sl_logs s1 q = sl_logs s q"
  proof (cases "sl_path s1 = []")
    case True
    from s1(1) show ?thesis by (rule LogLine_cases) (use True in auto)
  next
    case False
    with service_logs_path_kept [OF s1(2)] Cons.prems(3) have "q \<noteq> sl_path s1" by simp
    with s1(1) show ?thesis by (elim LogLine_cases) auto
  qed
  with Cons.IH [OF s1(2) LogLine_inv [OF s1(1) Cons.prems(2)] Cons.prems(3)] show ?case by simp
qed simp

text \<open>The first call decides: if it does not learn the folder, nothing is ever logged.\<close>

lemma disabled_for_good: "sl_disabled s \<Longrightarrow> service_logs es s = Some s"
  by (induction es) (auto simp: LogLine_def)

lemma first_failure_silences:
  assumes "so_folder e = None"
  shows "service_logs (e # es) (service_log_init logs) = Some ((service_log_init logs)\<lparr>sl_disabled := True\<rparr>)"
  using assms by (simp add: LogLine_def service_log_init_def disabled_for_good)

text \<open>Appended lines keep what every text log keeps.\<close>

lemma LogLine_marked:
  assumes "LogLine e s = Some s'" "\<And>q. marked (sl_logs s q)"
  shows "marked (sl_logs s' q)"
  using assms append_outcome by (elim LogLine_cases) auto

subsection \<open>A line always fits\<close>

text \<open>The cut to the message buffer leaves the line within its own, so no message ends the service; only
  the path can.\<close>

lemma level_length: "length (InferServiceLogLevel m) \<le> 5"
  by (simp add: InferServiceLogLevel_def infer_level_def wide_def)

lemma service_line_fits:
  assumes "length (FormatLogTimestamp t) < 32"
  shows "service_line t msg \<noteq> None"
proof -
  have "min (length msg) 511 \<le> 511" by simp
  with assms level_length [of "take 511 msg"] show ?thesis
    by (auto simp: service_line_def Let_def wide_def min_def)
qed

lemma log_ends_only_by_path:
  assumes "length (FormatLogTimestamp t) < 32" "service_Log utf8 t msg e s = None"
  shows "sl_path s = [] \<and> \<not> sl_disabled s \<and> (\<exists>folder. so_folder e = Some folder \<and> length folder + 21 \<ge> MAX_PATH)"
  using assms(2) service_line_fits [OF assms(1), of msg]
  by (auto simp: service_Log_def LogLine_def wcscat_s_def split: option.splits if_splits)

subsection \<open>The entry\<close>

text \<open>The console run reports the policy the worker loop goes by, and touches neither the log nor the
  dispatcher; every other run that returns reports whether the dispatcher was reached.\<close>

lemma wmain_console:
  "wmain (exe # wide ''--console'' # rest) reg dispatch log err s = Some (ConsolePolicy (PolicyAllowExit reg), s)"
  by (simp add: wmain_def)

lemma wmain_service:
  assumes "wmain [exe] reg dispatch log err s = Some (r, s')"
  shows "\<exists>ok s1. dispatch s = Some (ok, s1) \<and> wmain_code r = (if ok then 0 else 1) \<and> (ok \<longrightarrow> s' = s1)"
proof (cases "dispatch s")
  case None
  with assms show ?thesis by (simp add: wmain_def)
next
  case (Some x)
  with assms show ?thesis by (cases x; cases "fst x") (auto simp: wmain_def wmain_code_def)
qed

text \<open>With the model's own \<open>Log\<close>, a service that cannot be dispatched returns 1 unless its log's path is
  too long for the buffer, and then the process ends in the log.\<close>

lemma wmain_failure_returns:
  assumes "dispatch s = Some (False, s1)" "length (FormatLogTimestamp t) < 32" "length argv \<le> 1"
    "\<And>folder. so_folder e = Some folder \<Longrightarrow> length folder + 21 < MAX_PATH"
  shows "\<exists>s'. wmain argv reg dispatch (\<lambda>msg. service_Log utf8 t msg e) err s = Some (NotDispatched, s')"
proof -
  have "service_Log utf8 t msg e s1 \<noteq> None" for msg
    using log_ends_only_by_path [OF assms(2), of utf8 msg e s1] assms(4) by force
  then show ?thesis using assms(1,3) by (auto simp: wmain_def)
qed

definition demo_folder :: wstr where "demo_folder = wide (''C:'' @ [CHR 92] @ ''PD'')"

lemma demo_service_log:
  assumes "LogLine \<lparr>so_folder = Some demo_folder, so_acl = True, so_text = good_io [65]\<rparr> (service_log_init (\<lambda>_. no_log)) = Some s"
  shows "sl_dirs s = [(demo_folder @ ligament_dir, True)]
    \<and> tl_content (sl_logs s (demo_folder @ ligament_dir @ service_log_name)) = bom @ [65]"
proof -
  have "length demo_folder = 5" by (simp add: demo_folder_def wide_def)
  with assms first_line show ?thesis
    by (auto simp: LogLine_def service_log_init_def wcscat_s_def MAX_PATH_def)
qed

end
